(* ===== verification/Prelude.thy ===== *)
theory Prelude
  imports Main "HOL-Library.Word" "HOL-Library.Multiset"
begin

text \<open>
  The shared vocabulary of the development: machine integers, Go's error values and panics,
  the result type of a call, little-endian encodings, slices, and the lemmas on words and lists
  that several components use. Nothing here is specific to one component of desync, except the
  error values, which \<^verbatim>\<open>src/errors.go\<close> declares for the whole package.
\<close>

unbundle bit_operations_syntax

named_theorems le_simps \<open>encoding and decoding of little-endian integers\<close>
named_theorems res_simps \<open>rewriting of results and their sequencing\<close>

section \<open>Machine integers\<close>

type_synonym byte = "8 word"
type_synonym u32 = "32 word"
type_synonym u64 = "64 word"
type_synonym bytes = "byte list"

text \<open>
  Go's \<open>int\<close> is 64 bits wide on the platforms desync is released for, so \<open>int(x)\<close> of a
  \<open>uint64\<close> reads the word as two's complement.
\<close>

abbreviation go_int :: "u64 \<Rightarrow> int" where
  "go_int x \<equiv> sint x"

abbreviation ulen :: "'a list \<Rightarrow> u64" where
  "ulen xs \<equiv> word_of_nat (length xs)"

lemma sint_small_u64: "sint (x :: u64) = int (unat x)" if "unat x < 2 ^ 63"
proof -
  have "int (unat x) < int (2 ^ 63)" using that by (simp only: of_nat_less_iff)
  then have "uint x < 2 ^ 63" by simp
  moreover have "0 \<le> uint x" by simp
  ultimately have "signed_take_bit 63 (uint x) = uint x"
    by (intro signed_take_bit_int_eq_self) linarith+
  then have "sint x = uint x" by (simp add: sint_uint)
  then show ?thesis unfolding uint_nat .
qed

lemma unat_ulen: "length xs < 2 ^ 64 \<Longrightarrow> unat (ulen xs) = length xs"
  by (simp add: unat_of_nat take_bit_nat_eq_self)

lemma unat_add_small: "unat (x + y :: u64) = unat x + unat y" if "unat x + unat y < 2 ^ 64"
  using that by (simp add: unat_word_ariths)

lemma unat_byte_less [simp]: "unat (b :: byte) < 256"
  using unsigned_less[of b, where 'a = nat] by simp

lemma unat_u32_less [simp]: "unat (x :: u32) < 4294967296"
  using unsigned_less[of x, where 'a = nat] by simp

lemma unat_u64_less [simp]: "unat (x :: u64) < 18446744073709551616"
  using unsigned_less[of x, where 'a = nat] by simp

section \<open>Error values, panics and results\<close>

text \<open>
  The error values the package distinguishes by type (\<^verbatim>\<open>src/errors.go\<close>), the ones of the \<open>io\<close>
  package it compares with, an operating-system error with its \<open>os.IsNotExist\<close> status, and the
  plain ones made by \<open>fmt.Errorf\<close> and \<open>errors.New\<close>, of which only the format string is kept.
  \<open>errors.Wrap\<close> keeps the cause but has a type of its own, so a type switch no longer sees the
  cause.
\<close>

datatype go_error =
    EOF
  | ErrUnexpectedEOF
  | ErrShortWrite
  | ErrNotExist
  | ErrIO string
  | ChunkMissing bytes
  | NoSuchObject string
  | ChunkInvalid bytes bytes
  | InvalidFormat string
  | Interrupted
  | Errorf string
  | Wrapped string go_error

text \<open>A call returns a value, returns an error, or panics; a panic is not an error value.\<close>

datatype 'a res = Ok 'a | Err go_error | Panic string

primrec bind_res :: "'a res \<Rightarrow> ('a \<Rightarrow> 'b res) \<Rightarrow> 'b res" where
  "bind_res (Ok a) f = f a"
| "bind_res (Err e) f = Err e"
| "bind_res (Panic s) f = Panic s"

lemma bind_res_Ok_iff [res_simps]:
  "bind_res m f = Ok b \<longleftrightarrow> (\<exists>a. m = Ok a \<and> f a = Ok b)"
  by (cases m) auto

lemma bind_res_Err_iff [res_simps]:
  "bind_res m f = Err e \<longleftrightarrow> m = Err e \<or> (\<exists>a. m = Ok a \<and> f a = Err e)"
  by (cases m) auto

lemma bind_res_Panic_iff [res_simps]:
  "bind_res m f = Panic s \<longleftrightarrow> m = Panic s \<or> (\<exists>a. m = Ok a \<and> f a = Panic s)"
  by (cases m) auto

lemma bind_res_cong [fundef_cong]:
  "m = m' \<Longrightarrow> (\<And>a. m' = Ok a \<Longrightarrow> f a = f' a) \<Longrightarrow> bind_res m f = bind_res m' f'"
  by (cases m') auto

lemma bind_res_assoc [res_simps]:
  "bind_res (bind_res m f) g = bind_res m (\<lambda>a. bind_res (f a) g)"
  by (cases m) auto

section \<open>Little-endian integers\<close>

text \<open>\<open>binary.LittleEndian.PutUint64\<close> and \<open>Uint64\<close>, for any number of bytes up to eight.\<close>

fun to_le :: "nat \<Rightarrow> u64 \<Rightarrow> bytes" where
  "to_le 0 v = []"
| "to_le (Suc n) v = ucast v # to_le n (drop_bit 8 v)"

fun from_le :: "bytes \<Rightarrow> u64" where
  "from_le [] = 0"
| "from_le (b # bs) = ucast b OR push_bit 8 (from_le bs)"

abbreviation le64 :: "u64 \<Rightarrow> bytes" where
  "le64 v \<equiv> to_le 8 v"

lemma length_to_le [simp]: "length (to_le n v) = n"
  by (induction n v rule: to_le.induct) auto

lemma to_le_numeral: "to_le (numeral k) v = ucast v # to_le (pred_numeral k) (drop_bit 8 v)"
  by (simp add: numeral_eq_Suc)

lemma to_le_not_Nil [simp]: "to_le (numeral k) v \<noteq> []"
  by (simp add: to_le_numeral)

lemma from_le_to_le: "from_le (to_le n v) = take_bit (8 * n) v"
proof (induction n v rule: to_le.induct)
  case (1 v)
  then show ?case by simp
next
  case (2 n v)
  have "ucast (ucast v :: byte) OR push_bit 8 (take_bit (8 * n) (drop_bit 8 v))
      = take_bit (8 * Suc n) v"
    by (rule bit_eqI) (auto simp: bit_simps)
  with 2 show ?case by simp
qed

lemma from_le64 [simp, le_simps]: "from_le (le64 v) = v"
  by (simp add: from_le_to_le take_bit_word_eq_self)

lemma to_le_from_le: "length bs \<le> 8 \<Longrightarrow> to_le (length bs) (from_le bs) = bs"
proof (induction bs)
  case Nil
  then show ?case by simp
next
  case (Cons b bs)
  have low: "ucast (ucast b OR push_bit 8 (from_le bs)) = b"
    by (rule bit_eqI) (auto simp: bit_simps)
  have "drop_bit 8 (ucast b OR push_bit 8 (from_le bs)) = take_bit 56 (from_le bs)"
    by (rule bit_eqI) (auto simp: bit_simps dest: bit_imp_le_length)
  moreover have "from_le bs = take_bit (8 * length bs) (from_le bs)"
    using Cons.IH Cons.prems from_le_to_le[of "length bs" "from_le bs"] by simp
  moreover have "8 * length bs \<le> 56" using Cons.prems by simp
  ultimately have "drop_bit 8 (ucast b OR push_bit 8 (from_le bs)) = from_le bs"
    by (metis min.absorb1 min.absorb2 take_bit_take_bit)
  with low Cons show ?case by simp
qed

lemma le64_from_le [le_simps]: "length bs = 8 \<Longrightarrow> le64 (from_le bs) = bs"
  using to_le_from_le[of bs] by simp

section \<open>Slices\<close>

text \<open>\<open>xs[a:b]\<close> of a slice whose capacity is its length: panics unless \<open>a \<le> b \<le> len(xs)\<close>.\<close>

definition slice :: "'a list \<Rightarrow> nat \<Rightarrow> nat \<Rightarrow> 'a list" where
  "slice xs a b = take (b - a) (drop a xs)"

lemma length_slice [simp]: "b \<le> length xs \<Longrightarrow> length (slice xs a b) = b - a"
  by (simp add: slice_def)

lemma slice_append [simp]: "a \<le> b \<Longrightarrow> b \<le> c \<Longrightarrow> slice xs a b @ slice xs b c = slice xs a c"
proof -
  assume "a \<le> b" "b \<le> c"
  then have "c - a = (b - a) + (c - b)" and "drop b xs = drop (b - a) (drop a xs)" by simp_all
  then show ?thesis by (simp add: slice_def take_add)
qed

lemma slice_full: "slice xs 0 (length xs) = xs"
  by (simp add: slice_def)

text \<open>
  The largest size, in bytes, that the Go runtime lets \<open>make\<close> ask for on the 64-bit platforms
  (\<open>maxAlloc\<close>): above it \<open>make\<close> panics. A request below it is assumed to be served.
\<close>

definition max_alloc :: nat where
  "max_alloc = 2 ^ 48"

definition make_bytes :: "u64 \<Rightarrow> bytes res" where
  "make_bytes n = (if unat n \<le> max_alloc then Ok (replicate (unat n) 0)
                   else Panic ''makeslice: len out of range'')"

lemma make_bytes_Ok [res_simps]: "make_bytes n = Ok b \<longleftrightarrow> unat n \<le> max_alloc \<and> b = replicate (unat n) 0"
  by (auto simp: make_bytes_def)

section \<open>Sorting\<close>

text \<open>
  \<open>sort.Slice\<close> and \<open>slices.SortFunc\<close> with a comparison function. The order of elements that are
  equal in the comparison is not specified by Go; here they keep their order.
\<close>

fun insort_by :: "('a \<Rightarrow> 'a \<Rightarrow> bool) \<Rightarrow> 'a \<Rightarrow> 'a list \<Rightarrow> 'a list" where
  "insort_by lt x [] = [x]"
| "insort_by lt x (y # ys) = (if lt y x then y # insort_by lt x ys else x # y # ys)"

definition sort_slice :: "('a \<Rightarrow> 'a \<Rightarrow> bool) \<Rightarrow> 'a list \<Rightarrow> 'a list" where
  "sort_slice lt xs = foldr (insort_by lt) xs []"

lemma mset_insort_by [simp]: "mset (insort_by lt x ys) = add_mset x (mset ys)"
  by (induction ys) auto

lemma set_insort_by [simp]: "set (insort_by lt x ys) = insert x (set ys)"
  by (induction ys) auto

lemma mset_sort_slice [simp]: "mset (sort_slice lt xs) = mset xs"
  by (induction xs) (auto simp: sort_slice_def)

lemma set_sort_slice [simp]: "set (sort_slice lt xs) = set xs"
  by (metis mset_sort_slice set_mset_mset)

lemma length_sort_slice [simp]: "length (sort_slice lt xs) = length xs"
  by (metis mset_sort_slice size_mset)

locale strict_weak_order =
  fixes lt :: "'a \<Rightarrow> 'a \<Rightarrow> bool"
  assumes asym: "lt a b \<Longrightarrow> \<not> lt b a"
    and neg_trans: "lt a c \<Longrightarrow> lt a b \<or> lt b c"
begin

lemma sorted_insort_by:
  "sorted_wrt (\<lambda>a b. \<not> lt b a) ys \<Longrightarrow> sorted_wrt (\<lambda>a b. \<not> lt b a) (insort_by lt x ys)"
proof (induction ys)
  case (Cons y ys)
  then show ?case using asym[of y x] neg_trans[of _ x y] by auto
qed simp

lemma sorted_sort_slice: "sorted_wrt (\<lambda>a b. \<not> lt b a) (sort_slice lt xs)"
  by (induction xs) (auto simp: sort_slice_def intro: sorted_insort_by)

end

end
