(* ===== verification/Chunk_ID.thy ===== *)
theory Chunk_ID
  imports Prelude
begin

text \<open>
  Chunk identifiers (\<^verbatim>\<open>src/types.go\<close>): a chunk is named by the 32-byte digest of its data, and
  that digest is written in hexadecimal in file names, URLs and object keys.

  A Go string is a sequence of bytes; it is modelled by a \<open>string\<close>, whose characters are bytes
  too, with the conversions \<open>string(b)\<close> and \<open>[]byte(s)\<close> between the two.
\<close>

section \<open>Strings and byte slices\<close>

definition string_of_bytes :: "bytes \<Rightarrow> string" where
  "string_of_bytes bs = map (\<lambda>b. char_of (unat b)) bs"

definition bytes_of_string :: "string \<Rightarrow> bytes" where
  "bytes_of_string s = map (\<lambda>c. word_of_nat (of_char c)) s"

lemma unat_byte_of_char: "unat (word_of_nat (of_char c) :: byte) = of_char c"
  by (simp add: unat_of_nat take_bit_nat_eq_self)

lemma string_of_bytes_of_string [simp]: "string_of_bytes (bytes_of_string s) = s"
  by (simp add: string_of_bytes_def bytes_of_string_def unat_byte_of_char o_def)

lemma bytes_of_string_of_bytes [simp]: "bytes_of_string (string_of_bytes bs) = bs"
proof -
  have "word_of_nat (of_char (char_of (unat b) :: char)) = (b :: byte)" for b
    by simp
  then show ?thesis by (simp add: string_of_bytes_def bytes_of_string_def o_def)
qed

lemma length_string_of_bytes [simp]: "length (string_of_bytes bs) = length bs"
  by (simp add: string_of_bytes_def)

lemma length_bytes_of_string [simp]: "length (bytes_of_string s) = length s"
  by (simp add: bytes_of_string_def)

section \<open>Hexadecimal (the standard library's encoding/hex)\<close>

definition hex_digit :: "nat \<Rightarrow> char" where
  "hex_digit n = ''0123456789abcdef'' ! n"

definition unhex :: "char \<Rightarrow> nat option" where
  "unhex c = (let n = of_char c :: nat in
     if 48 \<le> n \<and> n \<le> 57 then Some (n - 48)
     else if 97 \<le> n \<and> n \<le> 102 then Some (n - 87)
     else if 65 \<le> n \<and> n \<le> 70 then Some (n - 55)
     else None)"

fun hex_encode :: "bytes \<Rightarrow> string" where
  "hex_encode [] = []"
| "hex_encode (b # bs) = hex_digit (unat b div 16) # hex_digit (unat b mod 16) # hex_encode bs"

fun hex_decode :: "string \<Rightarrow> bytes res" where
  "hex_decode [] = Ok []"
| "hex_decode [p] = (case unhex p of None \<Rightarrow> Err (Errorf ''encoding/hex: invalid byte'')
                     | Some _ \<Rightarrow> Err (Errorf ''encoding/hex: odd length hex string''))"
| "hex_decode (p # q # s) =
     (case unhex p of None \<Rightarrow> Err (Errorf ''encoding/hex: invalid byte'')
      | Some a \<Rightarrow> (case unhex q of None \<Rightarrow> Err (Errorf ''encoding/hex: invalid byte'')
         | Some b \<Rightarrow> bind_res (hex_decode s) (\<lambda>bs. Ok (word_of_nat (16 * a + b) # bs))))"

section \<open>Chunk identifiers\<close>

type_synonym chunk_id = bytes

definition chunk_id_len :: nat where
  "chunk_id_len = 32"

text \<open>The type \<open>[32]byte\<close>: the values of \<open>chunk_id\<close> of that length.\<close>

definition is_chunk_id :: "chunk_id \<Rightarrow> bool" where
  "is_chunk_id c \<longleftrightarrow> length c = chunk_id_len"

definition zero_id :: chunk_id where
  "zero_id = replicate chunk_id_len 0"

definition ChunkIDFromSlice :: "bytes \<Rightarrow> chunk_id res" where
  "ChunkIDFromSlice b =
     (if length b \<noteq> chunk_id_len then Err (Errorf ''chunk id string not of right size'') else Ok b)"

definition ChunkIDFromString :: "string \<Rightarrow> chunk_id res" where
  "ChunkIDFromString s =
     (case hex_decode s of
        Err e \<Rightarrow> Err (Wrapped ''failed to decode chunk id string'' e)
      | Panic p \<Rightarrow> Panic p
      | Ok b \<Rightarrow> ChunkIDFromSlice b)"

definition ChunkID_String :: "chunk_id \<Rightarrow> string" where
  "ChunkID_String c = hex_encode c"

lemma unhex_hex_digit: "n < 16 \<Longrightarrow> unhex (hex_digit n) = Some n"
proof -
  have "\<forall>n \<in> {..<16}. unhex (hex_digit n) = Some n"
    by (simp add: lessThan_nat_numeral lessThan_Suc hex_digit_def unhex_def Let_def)
  then show "n < 16 \<Longrightarrow> unhex (hex_digit n) = Some n" by simp
qed

lemma unat_byte_div_16: "unat (b :: byte) div 16 < 16"
  using unat_byte_less[of b] by linarith

lemma hex_decode_encode [simp]: "hex_decode (hex_encode bs) = Ok bs"
  by (induction bs) (simp_all add: unhex_hex_digit unat_byte_div_16)

lemma length_hex_encode [simp]: "length (hex_encode bs) = 2 * length bs"
  by (induction bs) simp_all

lemma hex_decode_length: "hex_decode s = Ok bs \<Longrightarrow> length s = 2 * length bs"
  by (induction s arbitrary: bs rule: hex_decode.induct)
     (auto simp: res_simps split: option.splits)

lemma hex_decode_no_panic [simp]: "hex_decode s \<noteq> Panic p"
  by (induction s rule: hex_decode.induct) (auto simp: res_simps split: option.splits)

lemma is_chunk_id_zero [simp]: "is_chunk_id zero_id"
  by (simp add: is_chunk_id_def zero_id_def)

lemma ChunkIDFromSlice_Ok [res_simps]: "ChunkIDFromSlice b = Ok c \<longleftrightarrow> is_chunk_id b \<and> c = b"
  by (auto simp: ChunkIDFromSlice_def is_chunk_id_def)

lemma ChunkIDFromString_Ok:
  "ChunkIDFromString s = Ok c \<Longrightarrow> is_chunk_id c \<and> hex_decode s = Ok c \<and> length s = 64"
  by (auto simp: ChunkIDFromString_def res_simps is_chunk_id_def chunk_id_len_def
      dest: hex_decode_length split: res.splits)

lemma ChunkIDFromString_String: "is_chunk_id c \<Longrightarrow> ChunkIDFromString (ChunkID_String c) = Ok c"
  by (simp add: ChunkIDFromString_def ChunkID_String_def ChunkIDFromSlice_def is_chunk_id_def)

lemma length_ChunkID_String: "is_chunk_id c \<Longrightarrow> length (ChunkID_String c) = 64"
  by (simp add: ChunkID_String_def is_chunk_id_def chunk_id_len_def)

lemma ChunkID_String_inj:
  "is_chunk_id c \<Longrightarrow> is_chunk_id d \<Longrightarrow> ChunkID_String c = ChunkID_String d \<longleftrightarrow> c = d"
  by (metis ChunkIDFromString_String res.inject(1))

end
