(* ===== verification/Byte_IO.thy ===== *)
theory Byte_IO
  imports Chunk_ID
begin

text \<open>
  Byte streams: the helpers of \<^verbatim>\<open>src/reader.go\<close> and \<^verbatim>\<open>src/writer.go\<close> on top of the parts of
  the \<open>io\<close> and \<open>bufio\<close> packages they call.

  A stream that is read is the bytes it still delivers and the error it reports once they are
  used up: \<open>EOF\<close> at a regular end, another error when the source fails. A sink that is written
  is what it has accepted and, where its capacity is bounded, how many bytes it still accepts.
  The \<open>io.Writer\<close> interface is a locale; the sink and the buffered writer on top of it are its
  two instances.
\<close>

section \<open>Reading\<close>

record stream =
  s_data :: bytes
  s_end :: go_error

definition stream_of :: "bytes \<Rightarrow> stream" where
  "stream_of bs = \<lparr>s_data = bs, s_end = EOF\<rparr>"

text \<open>\<open>io.ReadFull\<close>: exactly \<open>n\<close> bytes or an error.\<close>

definition read_full :: "stream \<Rightarrow> nat \<Rightarrow> (bytes \<times> stream) res" where
  "read_full s n =
     (if n \<le> length (s_data s) then Ok (take n (s_data s), s\<lparr>s_data := drop n (s_data s)\<rparr>)
      else if s_data s \<noteq> [] \<and> s_end s = EOF then Err ErrUnexpectedEOF
      else Err (s_end s))"

record FormatHeader =
  h_size :: u64
  h_type :: u64

definition ReadUint64 :: "stream \<Rightarrow> (u64 \<times> stream) res" where
  "ReadUint64 s = bind_res (read_full s 8) (\<lambda>(b, s). Ok (from_le b, s))"

definition ReadN :: "stream \<Rightarrow> u64 \<Rightarrow> (bytes \<times> stream) res" where
  "ReadN s n = bind_res (make_bytes n) (\<lambda>_. read_full s (unat n))"

definition ReadID :: "stream \<Rightarrow> (chunk_id \<times> stream) res" where
  "ReadID s = bind_res (read_full s 32) (\<lambda>(b, s). bind_res (ChunkIDFromSlice b) (\<lambda>c. Ok (c, s)))"

definition ReadHeader :: "stream \<Rightarrow> (FormatHeader \<times> stream) res" where
  "ReadHeader s =
     bind_res (ReadUint64 s) (\<lambda>(sz, s). bind_res (ReadUint64 s) (\<lambda>(ty, s).
       Ok (\<lparr>h_size = sz, h_type = ty\<rparr>, s)))"

section \<open>Writing\<close>

text \<open>
  A call of \<open>Write\<close> returns how many bytes it took, its error, and the writer after it.
  \<open>io.Copy\<close> from a \<open>bytes.Reader\<close> or \<open>strings.Reader\<close> is one \<open>Write\<close> (none for an empty
  source); from any other reader it is one \<open>Write\<close> per block of at most 32 KiB.
\<close>

type_synonym 'w write_fn = "'w \<Rightarrow> bytes \<Rightarrow> nat \<times> go_error option \<times> 'w"

definition io_copy :: "'w write_fn \<Rightarrow> 'w \<Rightarrow> bytes \<Rightarrow> nat \<times> go_error option \<times> 'w" where
  "io_copy wr w bs =
     (if bs = [] then (0, None, w)
      else case wr w bs of (m, e, w') \<Rightarrow>
        (m, (if e = None \<and> m \<noteq> length bs then Some ErrShortWrite else e), w'))"

definition copy_buf_size :: nat where
  "copy_buf_size = 32768"

function io_copy_blocks ::
  "'w write_fn \<Rightarrow> 'w \<Rightarrow> bytes \<Rightarrow> go_error \<Rightarrow> nat \<times> go_error option \<times> 'w" where
  "io_copy_blocks wr w bs fin =
     (if bs = [] then (0, (if fin = EOF then None else Some fin), w)
      else case wr w (take copy_buf_size bs) of (m, e, w') \<Rightarrow>
        if e \<noteq> None then (m, e, w')
        else if m \<noteq> length (take copy_buf_size bs) then (m, Some ErrShortWrite, w')
        else case io_copy_blocks wr w' (drop copy_buf_size bs) fin of (k, e', w'') \<Rightarrow>
          (m + k, e', w''))"
  by pat_completeness auto
termination
  by (relation "measure (\<lambda>(_, _, bs, _). length bs)") (auto simp: copy_buf_size_def)

declare io_copy_blocks.simps [simp del]

definition WriteUint64 :: "'w write_fn \<Rightarrow> 'w \<Rightarrow> u64 list \<Rightarrow> nat \<times> go_error option \<times> 'w" where
  "WriteUint64 wr w values = io_copy wr w (concat (map le64 values))"

definition WriteID :: "'w write_fn \<Rightarrow> 'w \<Rightarrow> chunk_id \<Rightarrow> nat \<times> go_error option \<times> 'w" where
  "WriteID wr w c = io_copy wr w c"

text \<open>
  The contract of \<open>io.Writer\<close>: what it reports as taken is a prefix of what it was given and is
  what it holds afterwards, and it reports an error when it did not take everything.
\<close>

locale byte_writer =
  fixes wr :: "'w \<Rightarrow> bytes \<Rightarrow> nat \<times> go_error option \<times> 'w"
    and contents :: "'w \<Rightarrow> bytes"
  assumes write_prefix: "wr w bs = (n, e, w') \<Longrightarrow> n \<le> length bs \<and> contents w' = contents w @ take n bs"
    and write_all: "wr w bs = (n, None, w') \<Longrightarrow> n = length bs"
begin

text \<open>What every wr of the package obeys: \<open>wrote w bs r\<close> says that the call \<open>r\<close> that was
  to write \<open>bs\<close> took the prefix it reports, and all of it unless it reports an error.\<close>

definition wrote :: "'w \<Rightarrow> bytes \<Rightarrow> nat \<times> go_error option \<times> 'w \<Rightarrow> bool" where
  "wrote w bs r \<longleftrightarrow> (case r of (n, e, w') \<Rightarrow>
     n \<le> length bs \<and> contents w' = contents w @ take n bs \<and> (e = None \<longrightarrow> n = length bs))"

lemma wrote_write: "wrote w bs (wr w bs)"
proof (cases "wr w bs")
  case (fields n e w')
  then show ?thesis using write_prefix[OF fields] write_all[of w bs n w']
    by (auto simp: wrote_def)
qed

lemma wrote_io_copy: "wrote w bs (io_copy wr w bs)"
  using wrote_write[of w bs] by (auto simp: io_copy_def wrote_def split: prod.splits)

lemma wrote_WriteUint64: "wrote w (concat (map le64 vs)) (WriteUint64 wr w vs)"
  unfolding WriteUint64_def by (rule wrote_io_copy)

lemma wrote_WriteID: "wrote w c (WriteID wr w c)"
  unfolding WriteID_def by (rule wrote_io_copy)

text \<open>Sequencing: what follows a failed wr is not written.\<close>

lemma wrote_fail: "wrote w bs (n, Some e, w') \<Longrightarrow> wrote w (bs @ cs) (n, Some e, w')"
  by (auto simp: wrote_def)

lemma wrote_seq:
  "wrote w bs (n, None, w') \<Longrightarrow> wrote w' cs (m, e, w'') \<Longrightarrow> wrote w (bs @ cs) (n + m, e, w'')"
  by (auto simp: wrote_def)

lemma wrote_io_copy_blocks: "wrote w bs (io_copy_blocks wr w bs EOF)"
proof (induction wr\<equiv>wr w bs fin\<equiv>EOF rule: io_copy_blocks.induct)
  case (1 w bs)
  show ?case
  proof (cases "bs = []")
    case True
    then show ?thesis by (simp add: io_copy_blocks.simps wrote_def)
  next
    case False
    obtain m e w' where w: "wr w (take copy_buf_size bs) = (m, e, w')"
      by (cases "wr w (take copy_buf_size bs)")
    have fst: "wrote w (take copy_buf_size bs) (m, e, w')"
      using wrote_write[of w "take copy_buf_size bs"] w by simp
    show ?thesis
    proof (cases e)
      case (Some x)
      then show ?thesis
        using False w wrote_fail[of w "take copy_buf_size bs" m x w' "drop copy_buf_size bs"] fst
        by (simp add: io_copy_blocks.simps)
    next
      case None
      then have len: "m = length (take copy_buf_size bs)"
        using fst by (simp add: wrote_def)
      obtain k e' w'' where r: "io_copy_blocks wr w' (drop copy_buf_size bs) EOF = (k, e', w'')"
        by (cases "io_copy_blocks wr w' (drop copy_buf_size bs) EOF")
      then have "wrote w' (drop copy_buf_size bs) (k, e', w'')"
        using 1[OF False w[symmetric]] None len by simp
      then have "wrote w (take copy_buf_size bs @ drop copy_buf_size bs) (m + k, e', w'')"
        using wrote_seq fst None by blast
      then show ?thesis using False w None len r by (simp add: io_copy_blocks.simps)
    qed
  qed
qed

end

text \<open>A writer that does not fail as long as it is in a good state, and stays in one.\<close>

locale reliable_writer = byte_writer wr contents
  for wr :: "'w \<Rightarrow> bytes \<Rightarrow> nat \<times> go_error option \<times> 'w" and contents :: "'w \<Rightarrow> bytes" +
  fixes good :: "'w \<Rightarrow> bool"
  assumes good_write: "good w \<Longrightarrow> wr w bs = (n, e, w') \<Longrightarrow> e = None \<and> good w'"
begin

definition succeeds :: "nat \<times> go_error option \<times> 'w \<Rightarrow> bool" where
  "succeeds r \<longleftrightarrow> (case r of (n, e, w) \<Rightarrow> e = None \<and> good w)"

lemma succeeds_write: "good w \<Longrightarrow> succeeds (wr w bs)"
  using good_write by (auto simp: succeeds_def split: prod.splits)

lemma succeeds_io_copy: "good w \<Longrightarrow> succeeds (io_copy wr w bs)"
  using succeeds_write[of w bs] wrote_write[of w bs]
  by (auto simp: io_copy_def succeeds_def wrote_def split: prod.splits)

lemma succeeds_WriteUint64: "good w \<Longrightarrow> succeeds (WriteUint64 wr w vs)"
  unfolding WriteUint64_def by (rule succeeds_io_copy)

lemma succeeds_WriteID: "good w \<Longrightarrow> succeeds (WriteID wr w c)"
  unfolding WriteID_def by (rule succeeds_io_copy)

lemma succeeds_io_copy_blocks: "good w \<Longrightarrow> succeeds (io_copy_blocks wr w bs EOF)"
proof (induction wr\<equiv>wr w bs fin\<equiv>EOF rule: io_copy_blocks.induct)
  case (1 w bs)
  obtain m e w' where w: "wr w (take copy_buf_size bs) = (m, e, w')"
    by (cases "wr w (take copy_buf_size bs)")
  have e: "e = None" "good w'" using good_write[OF "1.prems" w] by simp_all
  have m: "m = length (take copy_buf_size bs)" using write_all[of w "take copy_buf_size bs" m w'] w e by simp
  obtain k e' w'' where r: "io_copy_blocks wr w' (drop copy_buf_size bs) EOF = (k, e', w'')"
    by (cases "io_copy_blocks wr w' (drop copy_buf_size bs) EOF")
  have "bs \<noteq> [] \<Longrightarrow> succeeds (k, e', w'')" using "1.hyps"[OF _ w[symmetric]] e m r by simp
  then show ?case using "1.prems" w e m r
    by (subst io_copy_blocks.simps) (auto simp: succeeds_def)
qed

end

section \<open>A bounded sink\<close>

record sink =
  sk_out :: bytes
  sk_room :: "nat option"

definition sink_write :: "sink \<Rightarrow> bytes \<Rightarrow> nat \<times> go_error option \<times> sink" where
  "sink_write w bs =
     (case sk_room w of
        None \<Rightarrow> (length bs, None, w\<lparr>sk_out := sk_out w @ bs\<rparr>)
      | Some r \<Rightarrow>
          if length bs \<le> r then (length bs, None, w\<lparr>sk_out := sk_out w @ bs, sk_room := Some (r - length bs)\<rparr>)
          else (r, Some (ErrIO ''no space left''), w\<lparr>sk_out := sk_out w @ take r bs, sk_room := Some 0\<rparr>))"

definition empty_sink :: sink where
  "empty_sink = \<lparr>sk_out = [], sk_room = None\<rparr>"

interpretation snk: byte_writer sink_write sk_out
  by unfold_locales (auto simp: sink_write_def split: option.splits if_splits)

text \<open>An unbounded sink never fails.\<close>

lemma sink_unbounded: "sk_room w = None \<Longrightarrow> sink_write w bs = (length bs, None, w\<lparr>sk_out := sk_out w @ bs\<rparr>)"
  by (simp add: sink_write_def)

section \<open>The buffered writer (bufio.Writer over a sink)\<close>

record bufio =
  bw_buf :: bytes
  bw_err :: "go_error option"
  bw_sink :: sink

definition bufio_size :: nat where
  "bufio_size = 4096"

definition NewWriter :: "sink \<Rightarrow> bufio" where
  "NewWriter w = \<lparr>bw_buf = [], bw_err = None, bw_sink = w\<rparr>"

definition bufio_flush :: "bufio \<Rightarrow> go_error option \<times> bufio" where
  "bufio_flush b =
     (if bw_err b \<noteq> None then (bw_err b, b)
      else if bw_buf b = [] then (None, b)
      else case sink_write (bw_sink b) (bw_buf b) of (n, e, w) \<Rightarrow>
        let e' = (if n < length (bw_buf b) \<and> e = None then Some ErrShortWrite else e)
        in if e' \<noteq> None then (e', b\<lparr>bw_buf := drop n (bw_buf b), bw_err := e', bw_sink := w\<rparr>)
           else (None, b\<lparr>bw_buf := [], bw_sink := w\<rparr>))"

function bufio_loop :: "bufio \<Rightarrow> bytes \<Rightarrow> nat \<Rightarrow> nat \<times> bytes \<times> bufio" where
  "bufio_loop b p nn =
     (if length p > bufio_size - length (bw_buf b) \<and> bw_err b = None then
        if bw_buf b = [] then
          (case sink_write (bw_sink b) p of (n, e, w) \<Rightarrow>
             bufio_loop (b\<lparr>bw_err := e, bw_sink := w\<rparr>) (drop n p) (nn + n))
        else
          (let n = min (bufio_size - length (bw_buf b)) (length p);
               b' = snd (bufio_flush (b\<lparr>bw_buf := bw_buf b @ take n p\<rparr>))
           in bufio_loop b' (drop n p) (nn + n))
      else (nn, p, b))"
  by pat_completeness auto
termination
proof (relation "measures [\<lambda>(b, p, nn). of_bool (bw_err b = None), \<lambda>(b, p, nn). length p,
    \<lambda>(b, p, nn). length (bw_buf b)]", goal_cases)
  case 1
  then show ?case by simp
next
  case (2 b p nn n y e w)
  then have "e = None \<Longrightarrow> n = length p"
    using snk.write_all[of "bw_sink b" p n w] by simp
  with 2 show ?case by (auto simp: bufio_size_def)
next
  case (3 b p nn n b')
  then show ?case by (auto simp: bufio_flush_def Let_def split: prod.splits)
qed

declare bufio_loop.simps [simp del]

definition bufio_write :: "bufio \<Rightarrow> bytes \<Rightarrow> nat \<times> go_error option \<times> bufio" where
  "bufio_write b p =
     (case bufio_loop b p 0 of (nn, p', b') \<Rightarrow>
        if bw_err b' \<noteq> None then (nn, bw_err b', b')
        else (nn + length p', None, b'\<lparr>bw_buf := bw_buf b' @ p'\<rparr>))"

definition bufio_contents :: "bufio \<Rightarrow> bytes" where
  "bufio_contents b = sk_out (bw_sink b) @ bw_buf b"

lemma bufio_flush_contents: "bufio_flush b = (e, b') \<Longrightarrow> bufio_contents b' = bufio_contents b"
  using snk.write_prefix[of "bw_sink b" "bw_buf b"] snk.write_all[of "bw_sink b" "bw_buf b"]
  by (fastforce simp: bufio_flush_def bufio_contents_def Let_def split: if_splits prod.splits)

lemma bufio_flush_empties: "bufio_flush b = (None, b') \<Longrightarrow> bw_buf b' = [] \<and> bw_err b' = None"
  by (auto simp: bufio_flush_def Let_def split: if_splits prod.splits)

lemma bufio_loop_contents:
  "bufio_loop b p nn = (m, q, b') \<Longrightarrow>
     \<exists>k. k \<le> length p \<and> m = nn + k \<and> q = drop k p \<and> bufio_contents b' = bufio_contents b @ take k p"
proof (induction b p nn arbitrary: m q b' rule: bufio_loop.induct)
  case (1 b p nn)
  let ?more = "length p > bufio_size - length (bw_buf b) \<and> bw_err b = None"
  consider (stop) "\<not> ?more" | (direct) "?more" "bw_buf b = []" | (fill) "?more" "bw_buf b \<noteq> []" by blast
  then show ?case
  proof cases
    case stop
    then show ?thesis using "1.prems" by (auto simp: bufio_loop.simps)
  next
    case direct
    obtain n e w where w: "sink_write (bw_sink b) p = (n, e, w)" by (cases "sink_write (bw_sink b) p")
    have pre: "n \<le> length p" "sk_out w = sk_out (bw_sink b) @ take n p"
      using snk.write_prefix[OF w] by simp_all
    have "bufio_loop (b\<lparr>bw_err := e, bw_sink := w\<rparr>) (drop n p) (nn + n) = (m, q, b')"
      using "1.prems" direct w by (subst (asm) bufio_loop.simps) simp
    then obtain k where k: "k \<le> length (drop n p)" "m = nn + n + k" "q = drop k (drop n p)"
      "bufio_contents b' = bufio_contents (b\<lparr>bw_err := e, bw_sink := w\<rparr>) @ take k (drop n p)"
      using "1.IH"(1)[OF direct(1) direct(2) w[symmetric]] by blast
    then show ?thesis using pre direct
      by (intro exI[of _ "n + k"]) (auto simp: bufio_contents_def take_add add.commute[of k n])
  next
    case fill
    define n where "n = min (bufio_size - length (bw_buf b)) (length p)"
    define b1 where "b1 = snd (bufio_flush (b\<lparr>bw_buf := bw_buf b @ take n p\<rparr>))"
    have "bufio_loop b1 (drop n p) (nn + n) = (m, q, b')"
      using "1.prems" fill unfolding b1_def n_def
      by (subst (asm) bufio_loop.simps) (simp add: Let_def)
    then obtain k where k: "k \<le> length (drop n p)" "m = nn + n + k" "q = drop k (drop n p)"
      "bufio_contents b' = bufio_contents b1 @ take k (drop n p)"
      using "1.IH"(2)[OF fill(1) fill(2) n_def b1_def] by blast
    moreover have "bufio_contents b1 = bufio_contents b @ take n p"
      using bufio_flush_contents[of "b\<lparr>bw_buf := bw_buf b @ take n p\<rparr>"]
      by (simp add: b1_def bufio_contents_def prod_eq_iff)
    moreover have "n \<le> length p" by (simp add: n_def)
    ultimately show ?thesis
      by (intro exI[of _ "n + k"]) (auto simp: take_add add.commute[of k n])
  qed
qed

interpretation bio: byte_writer bufio_write bufio_contents
proof unfold_locales
  fix b p n e b'
  assume r: "bufio_write b p = (n, e, b')"
  obtain nn q b1 where l: "bufio_loop b p 0 = (nn, q, b1)" by (cases "bufio_loop b p 0")
  obtain k where "k \<le> length p" "nn = k" "q = drop k p"
    "bufio_contents b1 = bufio_contents b @ take k p"
    using bufio_loop_contents[OF l] by auto
  moreover from this have "sk_out (bw_sink b1) @ bw_buf b1 @ drop k p = sk_out (bw_sink b) @ bw_buf b @ p"
    unfolding bufio_contents_def by (metis append_assoc append_take_drop_id)
  ultimately show "n \<le> length p \<and> bufio_contents b' = bufio_contents b @ take n p"
    using r l by (auto simp: bufio_write_def bufio_contents_def split: if_splits)
next
  fix b p n b'
  assume r: "bufio_write b p = (n, None, b')"
  obtain nn q b1 where l: "bufio_loop b p 0 = (nn, q, b1)" by (cases "bufio_loop b p 0")
  show "n = length p"
    using r l bufio_loop_contents[OF l] by (auto simp: bufio_write_def split: if_splits)
qed

section \<open>Reliable writers\<close>

interpretation snk: reliable_writer sink_write sk_out "\<lambda>w. sk_room w = None"
  by unfold_locales (auto simp: sink_write_def)

lemma bufio_flush_good:
  assumes "bw_err b = None" "sk_room (bw_sink b) = None"
  shows "bufio_flush b = (None, b\<lparr>bw_buf := [], bw_sink := (bw_sink b)\<lparr>sk_out := sk_out (bw_sink b) @ bw_buf b\<rparr>\<rparr>)"
  using assms by (auto simp: bufio_flush_def sink_unbounded)

definition bufio_good :: "bufio \<Rightarrow> bool" where
  "bufio_good b \<longleftrightarrow> bw_err b = None \<and> sk_room (bw_sink b) = None"

lemma bufio_loop_good: "bufio_good b \<Longrightarrow> bufio_loop b p nn = (m, q, b') \<Longrightarrow> bufio_good b'"
proof (induction b p nn arbitrary: m q b' rule: bufio_loop.induct)
  case (1 b p nn)
  show ?case
  proof (cases "length p > bufio_size - length (bw_buf b)")
    case True
    show ?thesis
    proof (cases "bw_buf b = []")
      case empty: True
      show ?thesis using "1.prems" True empty
          "1.IH"(1)[of "length p" "(None, (bw_sink b)\<lparr>sk_out := sk_out (bw_sink b) @ p\<rparr>)" None]
        by (subst (asm) bufio_loop.simps) (simp add: bufio_good_def sink_unbounded)
    next
      case False
      show ?thesis using "1.prems" True False "1.IH"(2)
        by (subst (asm) bufio_loop.simps) (simp add: bufio_good_def bufio_flush_good Let_def)
    qed
  qed (use "1.prems" in \<open>simp add: bufio_loop.simps\<close>)
qed

interpretation bio: reliable_writer bufio_write bufio_contents bufio_good
proof unfold_locales
  fix b p n e b'
  assume g: "bufio_good b" and r: "bufio_write b p = (n, e, b')"
  obtain nn q b1 where l: "bufio_loop b p 0 = (nn, q, b1)" by (cases "bufio_loop b p 0")
  with bufio_loop_good[OF g l] r show "e = None \<and> bufio_good b'"
    by (auto simp: bufio_write_def bufio_good_def)
qed

end
