(* ===== verification/Consts.thy ===== *)
theory Consts
  imports Prelude
begin

text \<open>
  The identifiers of the casync formats and protocol (\<^verbatim>\<open>src/const.go\<close>): element types, tail
  markers, feature flags, message types and service flags, with the values the source gives them,
  and the file extensions of chunk files.
\<close>

named_theorems ca_consts \<open>the values of the format and protocol constants\<close>

definition CaFormatEntry :: u64 where
  [ca_consts]: "CaFormatEntry = 0x1396fabcea5bbb51"

definition CaFormatUser :: u64 where
  [ca_consts]: "CaFormatUser = 0xf453131aaeeaccb3"

definition CaFormatGroup :: u64 where
  [ca_consts]: "CaFormatGroup = 0x25eb6ac969396a52"

definition CaFormatXAttr :: u64 where
  [ca_consts]: "CaFormatXAttr = 0xb8157091f80bc486"

definition CaFormatACLUser :: u64 where
  [ca_consts]: "CaFormatACLUser = 0x297dc88b2ef12faf"

definition CaFormatACLGroup :: u64 where
  [ca_consts]: "CaFormatACLGroup = 0x36f2acb56cb3dd0b"

definition CaFormatACLGroupObj :: u64 where
  [ca_consts]: "CaFormatACLGroupObj = 0x23047110441f38f3"

definition CaFormatACLDefault :: u64 where
  [ca_consts]: "CaFormatACLDefault = 0xfe3eeda6823c8cd0"

definition CaFormatACLDefaultUser :: u64 where
  [ca_consts]: "CaFormatACLDefaultUser = 0xbdf03df9bd010a91"

definition CaFormatACLDefaultGroup :: u64 where
  [ca_consts]: "CaFormatACLDefaultGroup = 0xa0cb1168782d1f51"

definition CaFormatFCaps :: u64 where
  [ca_consts]: "CaFormatFCaps = 0xf7267db0afed0629"

definition CaFormatSELinux :: u64 where
  [ca_consts]: "CaFormatSELinux = 0x46faf0602fd26c59"

definition CaFormatSymlink :: u64 where
  [ca_consts]: "CaFormatSymlink = 0x664a6fb6830e0d6c"

definition CaFormatDevice :: u64 where
  [ca_consts]: "CaFormatDevice = 0xac3dace369dfe643"

definition CaFormatPayload :: u64 where
  [ca_consts]: "CaFormatPayload = 0x8b9e1d93d6dcffc9"

definition CaFormatFilename :: u64 where
  [ca_consts]: "CaFormatFilename = 0x6dbb6ebcb3161f0b"

definition CaFormatGoodbye :: u64 where
  [ca_consts]: "CaFormatGoodbye = 0xdfd35c5e8327c403"

definition CaFormatGoodbyeTailMarker :: u64 where
  [ca_consts]: "CaFormatGoodbyeTailMarker = 0x57446fa533702943"

definition CaFormatIndex :: u64 where
  [ca_consts]: "CaFormatIndex = 0x96824d9c7b129ff9"

definition CaFormatTable :: u64 where
  [ca_consts]: "CaFormatTable = 0xe75b9e112f17417d"

definition CaFormatTableTailMarker :: u64 where
  [ca_consts]: "CaFormatTableTailMarker = 0x4b4f050e5549ecd1"

definition CaFormatGoodbyeHashKey0 :: u64 where
  [ca_consts]: "CaFormatGoodbyeHashKey0 = 0x8574442b0f1d84b3"

definition CaFormatGoodbyeHashKey1 :: u64 where
  [ca_consts]: "CaFormatGoodbyeHashKey1 = 0x2736ed30d1c22ec1"

definition CaFormatWith16BitUIDs :: u64 where
  [ca_consts]: "CaFormatWith16BitUIDs = 0x1"

definition CaFormatWith32BitUIDs :: u64 where
  [ca_consts]: "CaFormatWith32BitUIDs = 0x2"

definition CaFormatWithUserNames :: u64 where
  [ca_consts]: "CaFormatWithUserNames = 0x4"

definition CaFormatWithSecTime :: u64 where
  [ca_consts]: "CaFormatWithSecTime = 0x8"

definition CaFormatWithUSecTime :: u64 where
  [ca_consts]: "CaFormatWithUSecTime = 0x10"

definition CaFormatWithNSecTime :: u64 where
  [ca_consts]: "CaFormatWithNSecTime = 0x20"

definition CaFormatWith2SecTime :: u64 where
  [ca_consts]: "CaFormatWith2SecTime = 0x40"

definition CaFormatWithReadOnly :: u64 where
  [ca_consts]: "CaFormatWithReadOnly = 0x80"

definition CaFormatWithPermissions :: u64 where
  [ca_consts]: "CaFormatWithPermissions = 0x100"

definition CaFormatWithSymlinks :: u64 where
  [ca_consts]: "CaFormatWithSymlinks = 0x200"

definition CaFormatWithDeviceNodes :: u64 where
  [ca_consts]: "CaFormatWithDeviceNodes = 0x400"

definition CaFormatWithFIFOs :: u64 where
  [ca_consts]: "CaFormatWithFIFOs = 0x800"

definition CaFormatWithSockets :: u64 where
  [ca_consts]: "CaFormatWithSockets = 0x1000"

definition CaFormatWithFlagHidden :: u64 where
  [ca_consts]: "CaFormatWithFlagHidden = 0x2000"

definition CaFormatWithFlagSystem :: u64 where
  [ca_consts]: "CaFormatWithFlagSystem = 0x4000"

definition CaFormatWithFlagArchive :: u64 where
  [ca_consts]: "CaFormatWithFlagArchive = 0x8000"

definition CaFormatWithFlagAppend :: u64 where
  [ca_consts]: "CaFormatWithFlagAppend = 0x10000"

definition CaFormatWithFlagNoAtime :: u64 where
  [ca_consts]: "CaFormatWithFlagNoAtime = 0x20000"

definition CaFormatWithFlagCompr :: u64 where
  [ca_consts]: "CaFormatWithFlagCompr = 0x40000"

definition CaFormatWithFlagNoCow :: u64 where
  [ca_consts]: "CaFormatWithFlagNoCow = 0x80000"

definition CaFormatWithFlagNoDump :: u64 where
  [ca_consts]: "CaFormatWithFlagNoDump = 0x100000"

definition CaFormatWithFlagDirSync :: u64 where
  [ca_consts]: "CaFormatWithFlagDirSync = 0x200000"

definition CaFormatWithFlagImmutable :: u64 where
  [ca_consts]: "CaFormatWithFlagImmutable = 0x400000"

definition CaFormatWithFlagSync :: u64 where
  [ca_consts]: "CaFormatWithFlagSync = 0x800000"

definition CaFormatWithFlagNoComp :: u64 where
  [ca_consts]: "CaFormatWithFlagNoComp = 0x1000000"

definition CaFormatWithFlagProjectInherit :: u64 where
  [ca_consts]: "CaFormatWithFlagProjectInherit = 0x2000000"

definition CaFormatWithSubvolume :: u64 where
  [ca_consts]: "CaFormatWithSubvolume = 0x4000000"

definition CaFormatWithSubvolumeRO :: u64 where
  [ca_consts]: "CaFormatWithSubvolumeRO = 0x8000000"

definition CaFormatWithXattrs :: u64 where
  [ca_consts]: "CaFormatWithXattrs = 0x10000000"

definition CaFormatWithACL :: u64 where
  [ca_consts]: "CaFormatWithACL = 0x20000000"

definition CaFormatWithSELinux :: u64 where
  [ca_consts]: "CaFormatWithSELinux = 0x40000000"

definition CaFormatWithFcaps :: u64 where
  [ca_consts]: "CaFormatWithFcaps = 0x80000000"

definition CaFormatExcludeFile :: u64 where
  [ca_consts]: "CaFormatExcludeFile = 0x1000000000000000"

definition CaFormatSHA512256 :: u64 where
  [ca_consts]: "CaFormatSHA512256 = 0x2000000000000000"

definition CaFormatExcludeSubmounts :: u64 where
  [ca_consts]: "CaFormatExcludeSubmounts = 0x4000000000000000"

definition CaFormatExcludeNoDump :: u64 where
  [ca_consts]: "CaFormatExcludeNoDump = 0x8000000000000000"

definition CaProtocolHello :: u64 where
  [ca_consts]: "CaProtocolHello = 0x3c71d0948ca5fbee"

definition CaProtocolIndex :: u64 where
  [ca_consts]: "CaProtocolIndex = 0xb32a91dd2b3e27f8"

definition CaProtocolIndexEOF :: u64 where
  [ca_consts]: "CaProtocolIndexEOF = 0x4f0932f1043718f5"

definition CaProtocolArchive :: u64 where
  [ca_consts]: "CaProtocolArchive = 0x95d6428a69eddcc5"

definition CaProtocolArchiveEOF :: u64 where
  [ca_consts]: "CaProtocolArchiveEOF = 0x450bef663f24cbad"

definition CaProtocolRequest :: u64 where
  [ca_consts]: "CaProtocolRequest = 0x8ab427e0f89d9210"

definition CaProtocolChunk :: u64 where
  [ca_consts]: "CaProtocolChunk = 0x5213dd180a84bc8c"

definition CaProtocolMissing :: u64 where
  [ca_consts]: "CaProtocolMissing = 0xd010f9fac82b7b6c"

definition CaProtocolGoodbye :: u64 where
  [ca_consts]: "CaProtocolGoodbye = 0xad205dbf1a3686c3"

definition CaProtocolAbort :: u64 where
  [ca_consts]: "CaProtocolAbort = 0xe7d9136b7efea352"

definition CaProtocolReadableStore :: u64 where
  [ca_consts]: "CaProtocolReadableStore = 0x1"

definition CaProtocolWritableStore :: u64 where
  [ca_consts]: "CaProtocolWritableStore = 0x2"

definition CaProtocolReadableIndex :: u64 where
  [ca_consts]: "CaProtocolReadableIndex = 0x4"

definition CaProtocolWritableIndex :: u64 where
  [ca_consts]: "CaProtocolWritableIndex = 0x8"

definition CaProtocolReadableArchive :: u64 where
  [ca_consts]: "CaProtocolReadableArchive = 0x10"

definition CaProtocolWritableArchive :: u64 where
  [ca_consts]: "CaProtocolWritableArchive = 0x20"

definition CaProtocolPullChunks :: u64 where
  [ca_consts]: "CaProtocolPullChunks = 0x40"

definition CaProtocolPullIndex :: u64 where
  [ca_consts]: "CaProtocolPullIndex = 0x80"

definition CaProtocolPullArchive :: u64 where
  [ca_consts]: "CaProtocolPullArchive = 0x100"

definition CaProtocolPushChunks :: u64 where
  [ca_consts]: "CaProtocolPushChunks = 0x200"

definition CaProtocolPushIndex :: u64 where
  [ca_consts]: "CaProtocolPushIndex = 0x400"

definition CaProtocolPushIndexChunks :: u64 where
  [ca_consts]: "CaProtocolPushIndexChunks = 0x800"

definition CaProtocolPushArchive :: u64 where
  [ca_consts]: "CaProtocolPushArchive = 0x1000"

definition CaProtocolRequestHighPriority :: u64 where
  [ca_consts]: "CaProtocolRequestHighPriority = 1"

definition CaProtocolChunkCompressed :: u64 where
  [ca_consts]: "CaProtocolChunkCompressed = 1"

definition CompressedChunkExt :: string where
  "CompressedChunkExt = ''.cacnk''"

definition UncompressedChunkExt :: string where
  "UncompressedChunkExt = ''''"

text \<open>The names of the element types, as printed by the inspection commands.\<close>

definition FormatString :: "u64 \<Rightarrow> string option" where
  "FormatString = map_of
     [(CaFormatEntry, ''CaFormatEntry''),
      (CaFormatUser, ''CaFormatUser''),
      (CaFormatGroup, ''CaFormatGroup''),
      (CaFormatXAttr, ''CaFormatXAttr''),
      (CaFormatACLUser, ''CaFormatACLUser''),
      (CaFormatACLGroup, ''CaFormatACLGroup''),
      (CaFormatACLGroupObj, ''CaFormatACLGroupObj''),
      (CaFormatACLDefault, ''CaFormatACLDefault''),
      (CaFormatACLDefaultUser, ''CaFormatACLDefaultUser''),
      (CaFormatACLDefaultGroup, ''CaFormatACLDefaultGroup''),
      (CaFormatFCaps, ''CaFormatFCaps''),
      (CaFormatSELinux, ''CaFormatSELinux''),
      (CaFormatSymlink, ''CaFormatSymlink''),
      (CaFormatDevice, ''CaFormatDevice''),
      (CaFormatPayload, ''CaFormatPayload''),
      (CaFormatFilename, ''CaFormatFilename''),
      (CaFormatGoodbye, ''CaFormatGoodbye''),
      (CaFormatGoodbyeTailMarker, ''CaFormatGoodbyeTailMarker''),
      (CaFormatIndex, ''CaFormatIndex''),
      (CaFormatTable, ''CaFormatTable''),
      (CaFormatTableTailMarker, ''CaFormatTableTailMarker'')]"

lemma element_types_distinct:
  "distinct [CaFormatEntry, CaFormatUser, CaFormatGroup, CaFormatXAttr, CaFormatACLUser,
     CaFormatACLGroup, CaFormatACLGroupObj, CaFormatACLDefault, CaFormatFCaps, CaFormatSELinux,
     CaFormatSymlink, CaFormatDevice, CaFormatPayload, CaFormatFilename, CaFormatGoodbye,
     CaFormatIndex, CaFormatTable]"
  by (simp add: ca_consts)

end
