(* ===== verification/Filemode.thy ===== *)
theory Filemode
  imports Prelude
begin

text \<open>
  File modes (\<^verbatim>\<open>src/filesystem.go\<close>): the conversion between the mode word of \<open>stat\<close>, which
  archives carry, and Go's \<open>os.FileMode\<close>, and the predicates on the latter. The bit layouts are
  those of \<open>os.FileMode\<close> and of \<open>syscall\<close> on Linux.
\<close>

named_theorems mode_bits \<open>the bit masks of file modes\<close>

type_synonym file_mode = u32

definition ModeDir :: u32 where [mode_bits]: "ModeDir = 0x80000000"
definition ModeSymlink :: u32 where [mode_bits]: "ModeSymlink = 0x08000000"
definition ModeDevice :: u32 where [mode_bits]: "ModeDevice = 0x04000000"
definition ModeNamedPipe :: u32 where [mode_bits]: "ModeNamedPipe = 0x02000000"
definition ModeSocket :: u32 where [mode_bits]: "ModeSocket = 0x01000000"
definition ModeSetuid :: u32 where [mode_bits]: "ModeSetuid = 0x00800000"
definition ModeSetgid :: u32 where [mode_bits]: "ModeSetgid = 0x00400000"
definition ModeCharDevice :: u32 where [mode_bits]: "ModeCharDevice = 0x00200000"
definition ModeSticky :: u32 where [mode_bits]: "ModeSticky = 0x00100000"
definition ModeIrregular :: u32 where [mode_bits]: "ModeIrregular = 0x00080000"
definition ModePerm :: u32 where [mode_bits]: "ModePerm = 0x1ff"

text \<open>\<open>ModeDir | ModeSymlink | ModeNamedPipe | ModeSocket | ModeDevice | ModeCharDevice | ModeIrregular\<close>\<close>

definition ModeType :: u32 where [mode_bits]: "ModeType = 0x8f280000"

definition S_IFMT :: u32 where [mode_bits]: "S_IFMT = 0xf000"
definition S_IFBLK :: u32 where [mode_bits]: "S_IFBLK = 0x6000"
definition S_IFCHR :: u32 where [mode_bits]: "S_IFCHR = 0x2000"
definition S_IFDIR :: u32 where [mode_bits]: "S_IFDIR = 0x4000"
definition S_IFIFO :: u32 where [mode_bits]: "S_IFIFO = 0x1000"
definition S_IFLNK :: u32 where [mode_bits]: "S_IFLNK = 0xa000"
definition S_IFREG :: u32 where [mode_bits]: "S_IFREG = 0x8000"
definition S_IFSOCK :: u32 where [mode_bits]: "S_IFSOCK = 0xc000"
definition S_ISUID :: u32 where [mode_bits]: "S_ISUID = 0x800"
definition S_ISGID :: u32 where [mode_bits]: "S_ISGID = 0x400"
definition S_ISVTX :: u32 where [mode_bits]: "S_ISVTX = 0x200"

lemma ModeType_eq:
  "ModeType = ModeDir OR ModeSymlink OR ModeNamedPipe OR ModeSocket OR ModeDevice OR
     ModeCharDevice OR ModeIrregular"
  by (simp add: mode_bits)

definition isDevice :: "file_mode \<Rightarrow> bool" where
  "isDevice m \<longleftrightarrow> m AND ModeDevice \<noteq> 0"

definition isDir :: "file_mode \<Rightarrow> bool" where
  "isDir m \<longleftrightarrow> m AND ModeDir \<noteq> 0"

definition isRegular :: "file_mode \<Rightarrow> bool" where
  "isRegular m \<longleftrightarrow> m AND ModeType = 0"

definition isSymlink :: "file_mode \<Rightarrow> bool" where
  "isSymlink m \<longleftrightarrow> m AND ModeSymlink \<noteq> 0"

definition StatModeToFilemode :: "u32 \<Rightarrow> file_mode" where
  "StatModeToFilemode mode =
     (let fm = mode AND 0x1ff;
          t = mode AND S_IFMT;
          fm = (if t = S_IFBLK then fm OR ModeDevice
                else if t = S_IFCHR then fm OR (ModeDevice OR ModeCharDevice)
                else if t = S_IFDIR then fm OR ModeDir
                else if t = S_IFIFO then fm OR ModeNamedPipe
                else if t = S_IFLNK then fm OR ModeSymlink
                else if t = S_IFSOCK then fm OR ModeSocket
                else fm);
          fm = (if mode AND S_ISGID \<noteq> 0 then fm OR ModeSetgid else fm);
          fm = (if mode AND S_ISUID \<noteq> 0 then fm OR ModeSetuid else fm)
      in if mode AND S_ISVTX \<noteq> 0 then fm OR ModeSticky else fm)"

definition FilemodeToStatMode :: "file_mode \<Rightarrow> u32" where
  "FilemodeToStatMode mode =
     (let o1 = mode AND ModePerm;
          m = mode AND ModeType;
          o1 = (if m = ModeDevice then o1 OR S_IFBLK
                else if m = ModeDevice OR ModeCharDevice then o1 OR S_IFCHR
                else if m = ModeDir then o1 OR S_IFDIR
                else if m = ModeNamedPipe then o1 OR S_IFIFO
                else if m = ModeSymlink then o1 OR S_IFLNK
                else if m = ModeSocket then o1 OR S_IFSOCK
                else o1 OR S_IFREG);
          o1 = (if mode AND ModeSetuid \<noteq> 0 then o1 OR S_ISUID else o1);
          o1 = (if mode AND ModeSetgid \<noteq> 0 then o1 OR S_ISGID else o1)
      in if mode AND ModeSticky \<noteq> 0 then o1 OR S_ISVTX else o1)"

text \<open>
  The two sides of the conversion: a \<open>stat\<close> mode of one of the seven file types, and a Go mode
  of one of the seven types with no bit outside the permissions, the type and the three special
  bits.
\<close>

definition stat_types :: "u32 list" where
  "stat_types = [S_IFBLK, S_IFCHR, S_IFDIR, S_IFIFO, S_IFLNK, S_IFSOCK, S_IFREG]"

definition go_types :: "u32 list" where
  "go_types = [ModeDevice, ModeDevice OR ModeCharDevice, ModeDir, ModeNamedPipe, ModeSymlink,
     ModeSocket, 0]"

definition go_mode_ok :: "file_mode \<Rightarrow> bool" where
  "go_mode_ok m \<longleftrightarrow> m AND ModeType \<in> set go_types \<and>
     m AND (ModePerm OR ModeType OR ModeSetuid OR ModeSetgid OR ModeSticky) = m"

section \<open>The conversions are inverse to each other\<close>

text \<open>
  Both conversions have the same shape: the permissions, the type translated by a table, and the
  three special bits moved. \<open>opt c k\<close> is \<open>k\<close> if \<open>c\<close> and no bit otherwise.
\<close>

definition opt :: "bool \<Rightarrow> u32 \<Rightarrow> u32" where
  "opt c k = (if c then k else 0)"

lemma one_bit:
  "(x :: u32) AND 0x400 = opt (bit x 10) 0x400"
  "x AND 0x800 = opt (bit x 11) 0x800"
  "x AND 0x200 = opt (bit x 9) 0x200"
  "x AND 0x800000 = opt (bit x 23) 0x800000"
  "x AND 0x400000 = opt (bit x 22) 0x400000"
  "x AND 0x100000 = opt (bit x 20) 0x100000"
proof -
  have *: "x AND push_bit n 1 = opt (bit x n) (push_bit n 1)" for n
    by (rule bit_eqI) (auto simp: bit_simps opt_def)
  show "x AND 0x400 = opt (bit x 10) 0x400" using *[of 10] by simp
  show "x AND 0x800 = opt (bit x 11) 0x800" using *[of 11] by simp
  show "x AND 0x200 = opt (bit x 9) 0x200" using *[of 9] by simp
  show "x AND 0x800000 = opt (bit x 23) 0x800000" using *[of 23] by simp
  show "x AND 0x400000 = opt (bit x 22) 0x400000" using *[of 22] by simp
  show "x AND 0x100000 = opt (bit x 20) 0x100000" using *[of 20] by simp
qed

definition go_type_of :: "u32 \<Rightarrow> u32" where
  "go_type_of t =
     (if t = S_IFBLK then ModeDevice else if t = S_IFCHR then ModeDevice OR ModeCharDevice
      else if t = S_IFDIR then ModeDir else if t = S_IFIFO then ModeNamedPipe
      else if t = S_IFLNK then ModeSymlink else if t = S_IFSOCK then ModeSocket else 0)"

definition stat_type_of :: "u32 \<Rightarrow> u32" where
  "stat_type_of m =
     (if m = ModeDevice then S_IFBLK else if m = ModeDevice OR ModeCharDevice then S_IFCHR
      else if m = ModeDir then S_IFDIR else if m = ModeNamedPipe then S_IFIFO
      else if m = ModeSymlink then S_IFLNK else if m = ModeSocket then S_IFSOCK else S_IFREG)"

lemma or_opt: "(if c then x OR k else x) = x OR opt c k"
  by (simp add: opt_def)

lemma StatModeToFilemode_form:
  "StatModeToFilemode s = (s AND 0x1ff) OR go_type_of (s AND S_IFMT) OR
     opt (bit s 10) 0x400000 OR opt (bit s 11) 0x800000 OR opt (bit s 9) 0x100000"
proof -
  define t where "t = s AND S_IFMT"
  have ty: "(if t = S_IFBLK then p OR ModeDevice
                else if t = S_IFCHR then p OR (ModeDevice OR ModeCharDevice)
                else if t = S_IFDIR then p OR ModeDir
                else if t = S_IFIFO then p OR ModeNamedPipe
                else if t = S_IFLNK then p OR ModeSymlink
                else if t = S_IFSOCK then p OR ModeSocket
                else p) = p OR go_type_of t" for p
    by (simp add: go_type_of_def)
  have fl: "(s AND S_ISGID \<noteq> 0) = bit s 10" "(s AND S_ISUID \<noteq> 0) = bit s 11" "(s AND S_ISVTX \<noteq> 0) = bit s 9"
    by (simp_all add: mode_bits one_bit opt_def)
  show ?thesis unfolding StatModeToFilemode_def Let_def fl t_def[symmetric] ty unfolding or_opt
    by (simp add: mode_bits or.assoc)
qed

lemma FilemodeToStatMode_form:
  "FilemodeToStatMode m = (m AND 0x1ff) OR stat_type_of (m AND ModeType) OR
     opt (bit m 23) 0x800 OR opt (bit m 22) 0x400 OR opt (bit m 20) 0x200"
proof -
  define t where "t = m AND ModeType"
  have ty: "(if t = ModeDevice then p OR S_IFBLK
                else if t = ModeDevice OR ModeCharDevice then p OR S_IFCHR
                else if t = ModeDir then p OR S_IFDIR
                else if t = ModeNamedPipe then p OR S_IFIFO
                else if t = ModeSymlink then p OR S_IFLNK
                else if t = ModeSocket then p OR S_IFSOCK
                else p OR S_IFREG) = p OR stat_type_of t" for p
    by (simp add: stat_type_of_def)
  have fl: "(m AND ModeSetuid \<noteq> 0) = bit m 23" "(m AND ModeSetgid \<noteq> 0) = bit m 22" "(m AND ModeSticky \<noteq> 0) = bit m 20"
    by (simp_all add: mode_bits one_bit opt_def)
  show ?thesis unfolding FilemodeToStatMode_def Let_def fl t_def[symmetric] ty unfolding or_opt
    by (simp add: mode_bits or.assoc)
qed

lemma opt_and: "opt c k AND j = opt c (k AND j)" and opt_0: "opt c 0 = 0"
  and bit_opt: "bit (opt c k) n = (c \<and> bit k n)"
  by (simp_all add: opt_def)

lemmas mode_algebra = bit.conj_disj_distrib2 and.assoc opt_and opt_0 bit_opt bit_or_iff bit_and_iff

lemma FilemodeToStatMode_StatModeToFilemode:
  assumes "s AND S_IFMT \<in> set stat_types"
  shows "FilemodeToStatMode (StatModeToFilemode s) = s AND 0xffff"
proof -
  define T where "T = s AND S_IFMT"
  have T: "T \<in> set stat_types" using assms by (simp add: T_def)
  have gt: "go_type_of T AND 0x1ff = 0" "go_type_of T AND ModeType = go_type_of T" 
     "\<not> bit (go_type_of T) 23" "\<not> bit (go_type_of T) 22" "\<not> bit (go_type_of T) 20" "stat_type_of (go_type_of T) = T"
    using T unfolding stat_types_def by (auto simp: go_type_of_def mode_bits stat_type_of_def)
  have sp: "s AND 0xffff = (s AND 0x1ff) OR (s AND S_IFMT) OR (s AND 0x800) OR (s AND 0x400) OR (s AND 0x200)"
    by (simp add: mode_bits flip: bit.conj_disj_distrib)
  have "StatModeToFilemode s AND 0x1ff = s AND 0x1ff" 
       "StatModeToFilemode s AND ModeType = go_type_of T"
       "bit (StatModeToFilemode s) 23 = bit s 11" "bit (StatModeToFilemode s) 22 = bit s 10" "bit (StatModeToFilemode s) 20 = bit s 9"
    using gt unfolding StatModeToFilemode_form T_def[symmetric] by (simp_all add: mode_algebra mode_bits)
  then show ?thesis unfolding FilemodeToStatMode_form sp T_def[symmetric]
    by (simp only: gt one_bit)
qed

lemma StatModeToFilemode_FilemodeToStatMode:
  assumes "go_mode_ok m"
  shows "StatModeToFilemode (FilemodeToStatMode m) = m"
proof -
  define T where "T = m AND ModeType"
  have T: "T \<in> set go_types" using assms by (simp add: T_def go_mode_ok_def)
  have gt: "stat_type_of T AND 0x1ff = 0" "stat_type_of T AND S_IFMT = stat_type_of T" 
     "\<not> bit (stat_type_of T) 11" "\<not> bit (stat_type_of T) 10" "\<not> bit (stat_type_of T) 9" "go_type_of (stat_type_of T) = T"
    using T unfolding go_types_def by (auto simp: go_type_of_def mode_bits stat_type_of_def)
  have sp: "m = (m AND 0x1ff) OR (m AND ModeType) OR (m AND 0x400000) OR (m AND 0x800000) OR (m AND 0x100000)"
    using assms by (simp add: mode_bits go_mode_ok_def flip: bit.conj_disj_distrib)
  have "FilemodeToStatMode m AND 0x1ff = m AND 0x1ff" 
       "FilemodeToStatMode m AND S_IFMT = stat_type_of T"
       "bit (FilemodeToStatMode m) 11 = bit m 23" "bit (FilemodeToStatMode m) 10 = bit m 22" "bit (FilemodeToStatMode m) 9 = bit m 20"
    using gt unfolding FilemodeToStatMode_form T_def[symmetric] by (simp_all add: mode_algebra mode_bits)
  then have "StatModeToFilemode (FilemodeToStatMode m) = 
      (m AND 0x1ff) OR (m AND ModeType) OR (m AND 0x400000) OR (m AND 0x800000) OR (m AND 0x100000)"
    unfolding StatModeToFilemode_form T_def[symmetric] by (simp only: gt one_bit)
  then show ?thesis by (simp only: sp[symmetric])
qed

section \<open>Properties\<close>

text \<open>
  For every \<open>stat\<close> mode of one of the seven file types, converting it to Go's mode and back
  keeps exactly its sixteen mode bits: permissions, type, setuid, setgid and sticky.
\<close>

theorem stat_mode_roundtrip:
  assumes "s AND S_IFMT \<in> set stat_types"
  shows "FilemodeToStatMode (StatModeToFilemode s) = s AND 0xffff"
  using assms by (rule FilemodeToStatMode_StatModeToFilemode)

theorem stat_mode_roundtrip_witness:
  "(0x41ed :: u32) AND S_IFMT \<in> set stat_types \<and>
   FilemodeToStatMode (StatModeToFilemode 0x41ed) = 0x41ed"
proof -
  have "(0x41ed :: u32) AND S_IFMT \<in> set stat_types" by (simp add: stat_types_def mode_bits)
  with stat_mode_roundtrip[OF this] show ?thesis by simp
qed

end
