(* ===== verification/Format.thy ===== *)
theory Format
  imports Byte_IO Consts Filemode
begin

text \<open>
  The casync element format (\<^verbatim>\<open>src/format.go\<close>): the elements archives and indexes are made of,
  the decoder that takes one element after the other from a stream, and the encoder.

  \<open>UID\<close>, \<open>GID\<close> and the modification time (in nanoseconds, as \<open>time.Unix(0, n)\<close> and
  \<open>UnixNano\<close> have it) are Go's signed 64-bit integers and are kept as \<open>int\<close>. A payload's
  \<open>Data\<close> is the reader handed to the caller: the bytes it will deliver and how it ends.
\<close>

section \<open>Elements\<close>

record FormatGoodbyeItem =
  gi_offset :: u64
  gi_size :: u64
  gi_hash :: u64

record FormatTableItem =
  ti_offset :: u64
  ti_chunk :: chunk_id

record FormatIndex =
  fi_hdr :: FormatHeader
  FeatureFlags :: u64
  ChunkSizeMin :: u64
  ChunkSizeAvg :: u64
  ChunkSizeMax :: u64

datatype format_element =
    FormatEntry (elem_hdr: FormatHeader) (entry_flags: u64) (entry_mode: file_mode)
      (entry_Flags: u64) (entry_uid: int) (entry_gid: int) (entry_mtime: int)
  | FormatUser (elem_hdr: FormatHeader) string
  | FormatGroup (elem_hdr: FormatHeader) string
  | FormatXAttr (elem_hdr: FormatHeader) string
  | FormatSELinux (elem_hdr: FormatHeader) string
  | FormatFilename (elem_hdr: FormatHeader) string
  | FormatSymlink (elem_hdr: FormatHeader) string
  | FormatDevice (elem_hdr: FormatHeader) u64 u64
  | FormatPayload (elem_hdr: FormatHeader) stream
  | FormatFCaps (elem_hdr: FormatHeader) bytes
  | FormatACLUser (elem_hdr: FormatHeader) u64 u64 string
  | FormatACLGroup (elem_hdr: FormatHeader) u64 u64 string
  | FormatACLGroupObj (elem_hdr: FormatHeader) u64
  | FormatACLDefault (elem_hdr: FormatHeader) u64 u64 u64 u64
  | FormatGoodbye (elem_hdr: FormatHeader) "FormatGoodbyeItem list"
  | FormatIndexElem FormatIndex
  | FormatTable (elem_hdr: FormatHeader) "FormatTableItem list"

section \<open>The decoder\<close>

text \<open>
  The decoder's stream, and the number of bytes left in the payload reader it last handed out:
  \<open>advance\<close>, an \<open>io.LimitReader\<close> whose limit is never negative here because a negative limit
  reads nothing.
\<close>

record FormatDecoder =
  d_stream :: stream
  d_advance :: "nat option"

definition NewFormatDecoder :: "stream \<Rightarrow> FormatDecoder" where
  "NewFormatDecoder s = \<lparr>d_stream = s, d_advance = None\<rparr>"

text \<open>What the reader of a payload delivers when it is read in full.\<close>

definition limited :: "stream \<Rightarrow> nat \<Rightarrow> stream" where
  "limited s n = \<lparr>s_data = take n (s_data s),
     s_end = (if n \<le> length (s_data s) then EOF else s_end s)\<rparr>"

text \<open>The caller reads at most \<open>k\<close> bytes of the payload it was handed.\<close>

definition payload_read :: "FormatDecoder \<Rightarrow> nat \<Rightarrow> bytes \<times> FormatDecoder" where
  "payload_read d k =
     (case d_advance d of
        None \<Rightarrow> ([], d)
      | Some n \<Rightarrow>
          (let m = min k (min n (length (s_data (d_stream d))))
           in (take m (s_data (d_stream d)),
               \<lparr>d_stream = (d_stream d)\<lparr>s_data := drop m (s_data (d_stream d))\<rparr>,
                d_advance = Some (n - m)\<rparr>)))"

text \<open>\<open>io.Copy(io.Discard, d.advance)\<close> at the start of \<open>Next\<close>.\<close>

definition drain :: "FormatDecoder \<Rightarrow> stream" where
  "drain d =
     (case d_advance d of
        None \<Rightarrow> d_stream d
      | Some n \<Rightarrow> (d_stream d)\<lparr>s_data := drop n (s_data (d_stream d))\<rparr>)"

text \<open>The body of an element whose header announces \<open>Size\<close> bytes, \<open>used\<close> of them read already.\<close>

definition read_body :: "FormatHeader \<Rightarrow> u64 \<Rightarrow> stream \<Rightarrow> (bytes \<times> stream) res" where
  "read_body h used s =
     bind_res (make_bytes (h_size h - used)) (\<lambda>b. read_full s (length b))"

text \<open>\<open>b[:len(b)-1]\<close>\<close>

definition strip_nul :: "bytes \<Rightarrow> bytes res" where
  "strip_nul b = (if b = [] then Panic ''slice bounds out of range [:-1]'' else Ok (butlast b))"

definition read_name :: "FormatHeader \<Rightarrow> u64 \<Rightarrow> stream \<Rightarrow> (string \<times> stream) res" where
  "read_name h used s =
     bind_res (read_body h used s) (\<lambda>(b, s).
     bind_res (strip_nul b) (\<lambda>b. Ok (string_of_bytes b, s)))"

fun read_goodbye_items :: "nat \<Rightarrow> stream \<Rightarrow> (FormatGoodbyeItem list \<times> stream) res" where
  "read_goodbye_items 0 s = Ok ([], s)"
| "read_goodbye_items (Suc n) s =
     bind_res (ReadUint64 s) (\<lambda>(off, s). bind_res (ReadUint64 s) (\<lambda>(sz, s).
     bind_res (ReadUint64 s) (\<lambda>(hs, s). bind_res (read_goodbye_items n s) (\<lambda>(is, s).
       Ok (\<lparr>gi_offset = off, gi_size = sz, gi_hash = hs\<rparr> # is, s)))))"

lemma ReadUint64_shorter:
  "ReadUint64 s = Ok (v, s') \<Longrightarrow> length (s_data s) = length (s_data s') + 8"
  by (auto simp: ReadUint64_def read_full_def split: if_splits)

lemma ReadID_shorter:
  "ReadID s = Ok (v, s') \<Longrightarrow> length (s_data s) = length (s_data s') + 32"
  by (auto simp: ReadID_def read_full_def res_simps split: if_splits)

function read_table_items :: "stream \<Rightarrow> (FormatTableItem list \<times> stream) res" where
  "read_table_items s =
     bind_res (ReadUint64 s) (\<lambda>(off, s1).
       if off = 0 then Ok ([], s1)
       else bind_res (ReadID s1) (\<lambda>(c, s2).
            bind_res (read_table_items s2) (\<lambda>(is, s3).
              Ok (\<lparr>ti_offset = off, ti_chunk = c\<rparr> # is, s3))))"
  by pat_completeness auto
termination
  by (relation "measure (\<lambda>s. length (s_data s))")
     (auto dest!: ReadUint64_shorter ReadID_shorter)

declare read_table_items.simps [simp del]

definition decode_entry :: "FormatHeader \<Rightarrow> stream \<Rightarrow> (format_element \<times> stream) res" where
  "decode_entry h s =
     (if h_size h \<noteq> 64 then Err (InvalidFormat [])
      else bind_res (ReadUint64 s) (\<lambda>(ff, s). bind_res (ReadUint64 s) (\<lambda>(mode, s).
           bind_res (ReadUint64 s) (\<lambda>(fl, s). bind_res (ReadUint64 s) (\<lambda>(uid, s).
           bind_res (ReadUint64 s) (\<lambda>(gid, s). bind_res (ReadUint64 s) (\<lambda>(mt, s).
             Ok (FormatEntry h ff (StatModeToFilemode (ucast mode)) fl (sint uid) (sint gid)
                   (sint mt), s))))))))"

definition decode_goodbye :: "FormatHeader \<Rightarrow> stream \<Rightarrow> (format_element \<times> stream) res" where
  "decode_goodbye h s =
     (let n = (h_size h - 16) div 24 in
      if 24 * unat n > max_alloc then Panic ''makeslice: len out of range''
      else bind_res (read_goodbye_items (unat n) s) (\<lambda>(items, s).
        if items = [] \<or> gi_hash (last items) \<noteq> CaFormatGoodbyeTailMarker
        then Err (InvalidFormat ''tail marker not found'')
        else Ok (FormatGoodbye h items, s)))"

definition decode_index :: "FormatHeader \<Rightarrow> stream \<Rightarrow> (format_element \<times> stream) res" where
  "decode_index h s =
     bind_res (ReadUint64 s) (\<lambda>(ff, s). bind_res (ReadUint64 s) (\<lambda>(mn, s).
     bind_res (ReadUint64 s) (\<lambda>(av, s). bind_res (ReadUint64 s) (\<lambda>(mx, s).
       Ok (FormatIndexElem \<lparr>fi_hdr = h, FeatureFlags = ff, ChunkSizeMin = mn, ChunkSizeAvg = av,
             ChunkSizeMax = mx\<rparr>, s)))))"

definition decode_table :: "FormatHeader \<Rightarrow> stream \<Rightarrow> (format_element \<times> stream) res" where
  "decode_table h s =
     (if h_size h \<noteq> - 1 then Err (InvalidFormat ''expected size MAX_UINT64 in format table'')
      else bind_res (read_table_items s) (\<lambda>(items, s).
           bind_res (ReadUint64 s) (\<lambda>(x, s).
             if x \<noteq> 0 then Err (InvalidFormat ''tail marker not found'')
             else bind_res (ReadUint64 s) (\<lambda>(_, s). bind_res (ReadUint64 s) (\<lambda>(_, s).
                  bind_res (ReadUint64 s) (\<lambda>(x, s).
                    if x \<noteq> CaFormatTableTailMarker then Err (InvalidFormat ''tail marker not found'')
                    else Ok (FormatTable h items, s)))))))"

definition decode_acl ::
  "(FormatHeader \<Rightarrow> u64 \<Rightarrow> u64 \<Rightarrow> string \<Rightarrow> format_element) \<Rightarrow> FormatHeader \<Rightarrow> stream
   \<Rightarrow> (format_element \<times> stream) res" where
  "decode_acl mk h s =
     bind_res (ReadUint64 s) (\<lambda>(i, s). bind_res (ReadUint64 s) (\<lambda>(p, s).
     bind_res (read_name h 32 s) (\<lambda>(nm, s). Ok (mk h i p nm, s))))"

definition decode_acl_default :: "FormatHeader \<Rightarrow> stream \<Rightarrow> (format_element \<times> stream) res" where
  "decode_acl_default h s =
     bind_res (ReadUint64 s) (\<lambda>(u, s). bind_res (ReadUint64 s) (\<lambda>(g, s).
     bind_res (ReadUint64 s) (\<lambda>(ot, s). bind_res (ReadUint64 s) (\<lambda>(m, s).
       Ok (FormatACLDefault h u g ot m, s)))))"

definition decode_device :: "FormatHeader \<Rightarrow> stream \<Rightarrow> (format_element \<times> stream) res" where
  "decode_device h s =
     (if h_size h \<noteq> 32 then Err (InvalidFormat [])
      else bind_res (ReadUint64 s) (\<lambda>(mj, s). bind_res (ReadUint64 s) (\<lambda>(mi, s).
             Ok (FormatDevice h mj mi, s))))"

definition decode_name ::
  "(FormatHeader \<Rightarrow> string \<Rightarrow> format_element) \<Rightarrow> FormatHeader \<Rightarrow> stream
   \<Rightarrow> (format_element \<times> stream) res" where
  "decode_name mk h s = bind_res (read_name h 16 s) (\<lambda>(nm, s). Ok (mk h nm, s))"

text \<open>The body of an element after its header: the \<open>switch\<close> of \<open>Next\<close>.\<close>

definition decode_elem :: "FormatHeader \<Rightarrow> stream \<Rightarrow> (format_element \<times> FormatDecoder) res" where
  "decode_elem h s =
     (let ty = h_type h;
          plain = (\<lambda>r. bind_res r (\<lambda>(e, s). Ok (e, \<lparr>d_stream = s, d_advance = None\<rparr>)))
      in if ty = CaFormatEntry then plain (decode_entry h s)
      else if ty = CaFormatUser then plain (decode_name FormatUser h s)
      else if ty = CaFormatGroup then plain (decode_name FormatGroup h s)
      else if ty = CaFormatXAttr then plain (decode_name FormatXAttr h s)
      else if ty = CaFormatSELinux then plain (decode_name FormatSELinux h s)
      else if ty = CaFormatFilename then plain (decode_name FormatFilename h s)
      else if ty = CaFormatSymlink then plain (decode_name FormatSymlink h s)
      else if ty = CaFormatDevice then plain (decode_device h s)
      else if ty = CaFormatPayload then
        (let n = nat (sint (h_size h - 16))
         in Ok (FormatPayload h (limited s n), \<lparr>d_stream = s, d_advance = Some n\<rparr>))
      else if ty = CaFormatFCaps then
        plain (bind_res (read_body h 16 s) (\<lambda>(b, s). Ok (FormatFCaps h b, s)))
      else if ty = CaFormatACLUser then plain (decode_acl FormatACLUser h s)
      else if ty = CaFormatACLGroup then plain (decode_acl FormatACLGroup h s)
      else if ty = CaFormatACLGroupObj then
        plain (bind_res (ReadUint64 s) (\<lambda>(p, s). Ok (FormatACLGroupObj h p, s)))
      else if ty = CaFormatACLDefault then plain (decode_acl_default h s)
      else if ty = CaFormatGoodbye then plain (decode_goodbye h s)
      else if ty = CaFormatIndex then plain (decode_index h s)
      else if ty = CaFormatTable then plain (decode_table h s)
      else Err (Errorf ''unsupported header type %x''))"

definition FormatDecoder_Next ::
  "FormatDecoder \<Rightarrow> (format_element option \<times> FormatDecoder) res" where
  "FormatDecoder_Next d =
     (let s = drain d in
      case ReadHeader s of
        Err e \<Rightarrow> if e = EOF then Ok (None, \<lparr>d_stream = s\<lparr>s_data := []\<rparr>, d_advance = None\<rparr>) else Err e
      | Panic p \<Rightarrow> Panic p
      | Ok (h, s) \<Rightarrow> bind_res (decode_elem h s) (\<lambda>(e, d). Ok (Some e, d)))"

section \<open>The encoder\<close>

text \<open>Go on writing unless the last write failed, adding up the counts.\<close>

definition then_write ::
  "nat \<times> go_error option \<times> 'w \<Rightarrow> ('w \<Rightarrow> nat \<times> go_error option \<times> 'w)
   \<Rightarrow> nat \<times> go_error option \<times> 'w" where
  "then_write r f =
     (case r of (n, e, w) \<Rightarrow>
        if e \<noteq> None then r else case f w of (n1, e1, w1) \<Rightarrow> (n + n1, e1, w1))"

definition write_name ::
  "'w write_fn \<Rightarrow> nat \<times> go_error option \<times> 'w \<Rightarrow> string \<Rightarrow> nat \<times> go_error option \<times> 'w" where
  "write_name wr r nm = then_write r (\<lambda>w. io_copy wr w (bytes_of_string nm @ [0]))"

definition write_goodbye_items ::
  "'w write_fn \<Rightarrow> FormatGoodbyeItem list \<Rightarrow> nat \<times> go_error option \<times> 'w
   \<Rightarrow> nat \<times> go_error option \<times> 'w" where
  "write_goodbye_items wr items r =
     fold (\<lambda>i r. then_write r (\<lambda>w. WriteUint64 wr w [gi_offset i, gi_size i, gi_hash i])) items r"

definition write_table_items ::
  "'w write_fn \<Rightarrow> FormatTableItem list \<Rightarrow> nat \<times> go_error option \<times> 'w
   \<Rightarrow> nat \<times> go_error option \<times> 'w" where
  "write_table_items wr items r =
     fold (\<lambda>i r. then_write (then_write r (\<lambda>w. WriteUint64 wr w [ti_offset i]))
                   (\<lambda>w. WriteID wr w (ti_chunk i))) items r"

definition write_table ::
  "'w write_fn \<Rightarrow> 'w \<Rightarrow> FormatHeader \<Rightarrow> FormatTableItem list \<Rightarrow> nat \<times> go_error option \<times> 'w" where
  "write_table wr w h items =
     (let r = write_table_items wr items (WriteUint64 wr w [h_size h, h_type h])
      in then_write r (\<lambda>w. WriteUint64 wr w
           [0, 0, 48, word_of_nat (fst r + 40), CaFormatTableTailMarker]))"

fun Encode :: "'w write_fn \<Rightarrow> 'w \<Rightarrow> format_element \<Rightarrow> nat \<times> go_error option \<times> 'w" where
  "Encode wr w (FormatEntry h ff mode fl uid gid mt) =
     WriteUint64 wr w [h_size h, h_type h, ff, ucast (FilemodeToStatMode mode), fl,
       word_of_int uid, word_of_int gid, word_of_int mt]"
| "Encode wr w (FormatUser h nm) = write_name wr (WriteUint64 wr w [h_size h, h_type h]) nm"
| "Encode wr w (FormatGroup h nm) = write_name wr (WriteUint64 wr w [h_size h, h_type h]) nm"
| "Encode wr w (FormatXAttr h nm) = write_name wr (WriteUint64 wr w [h_size h, h_type h]) nm"
| "Encode wr w (FormatSELinux h nm) = write_name wr (WriteUint64 wr w [h_size h, h_type h]) nm"
| "Encode wr w (FormatFilename h nm) = write_name wr (WriteUint64 wr w [h_size h, h_type h]) nm"
| "Encode wr w (FormatSymlink h nm) = write_name wr (WriteUint64 wr w [h_size h, h_type h]) nm"
| "Encode wr w (FormatDevice h mj mi) = WriteUint64 wr w [h_size h, h_type h, mj, mi]"
| "Encode wr w (FormatPayload h s) =
     then_write (WriteUint64 wr w [h_size h, h_type h])
       (\<lambda>w. io_copy_blocks wr w (s_data s) (s_end s))"
| "Encode wr w (FormatFCaps h b) =
     then_write (WriteUint64 wr w [h_size h, h_type h]) (\<lambda>w. io_copy wr w b)"
| "Encode wr w (FormatACLUser h i p nm) =
     write_name wr (WriteUint64 wr w [h_size h, h_type h, i, p]) nm"
| "Encode wr w (FormatACLGroup h i p nm) =
     write_name wr (WriteUint64 wr w [h_size h, h_type h, i, p]) nm"
| "Encode wr w (FormatACLGroupObj h p) = WriteUint64 wr w [h_size h, h_type h, p]"
| "Encode wr w (FormatACLDefault h u g ot m) = WriteUint64 wr w [h_size h, h_type h, u, g, ot, m]"
| "Encode wr w (FormatGoodbye h items) =
     write_goodbye_items wr items (WriteUint64 wr w [h_size h, h_type h])"
| "Encode wr w (FormatIndexElem i) =
     WriteUint64 wr w [h_size (fi_hdr i), h_type (fi_hdr i), FeatureFlags i, ChunkSizeMin i,
       ChunkSizeAvg i, ChunkSizeMax i]"
| "Encode wr w (FormatTable h items) = write_table wr w h items"

end
