(* ===== verification/Goodbye.thy ===== *)
theory Goodbye
  imports Format "HOL-Library.Log_Nat" "HOL-Library.Multiset"
begin

text \<open>
  The goodbye items that end a directory of an archive are stored as a complete binary search
  tree in array representation (\<open>makeGoodbyeBST\<close> and \<open>bst\<close> of \<^verbatim>\<open>src/format.go\<close>), so that a
  reader finds an entry by the hash of its name without reading the directory. The array is
  compared here with the in-order traversal of the tree it stands for.
\<close>

section \<open>The model\<close>

text \<open>
  \<open>e\<close> is the number of levels left, a \<open>uint\<close>: it is never decremented below zero with items left
  (lemma \<open>bst_correct\<close>); there the shift would give the index -1 of the panic. The number of levels
  \<open>uint(math.Log2(float64(n)) + 1)\<close> is the length of \<open>n\<close> in binary, which holds as long as
  \<open>math.Log2\<close> does not round up to the next integer, for directories of fewer than $2^{48}$ entries.
\<close>

text \<open>The index of the root among \<open>n\<close> sorted items, with \<open>e + 1\<close> levels left.\<close>

definition bst_root_index :: "nat \<Rightarrow> int \<Rightarrow> int" where
  "bst_root_index e n =
     (let p = 2 ^ e; q = 2 * p
      in if n \<ge> p - 1 + p div 2 then (q - 2) div 2
         else (let v = p - 1 + p div 2 - n in (q - 2) div 2 - v))"

fun bst :: "'a list \<Rightarrow> 'a list \<Rightarrow> nat \<Rightarrow> nat \<Rightarrow> 'a list res" where
  "bst [] out i e = Ok out"
| "bst (x # xs) out i 0 = Panic ''index out of range [-1]''"
| "bst (x # xs) out i (Suc e) =
     (let ins = x # xs; k = bst_root_index e (int (length ins))
      in if k < 0 \<or> k \<ge> int (length ins) \<or> i \<ge> length out then Panic ''index out of range''
         else bind_res (bst (take (nat k) ins) (out[i := ins ! nat k]) (2 * i + 1) e)
                (\<lambda>out. bst (drop (nat k + 1) ins) out (2 * i + 2) e))"

definition less_item :: "FormatGoodbyeItem \<Rightarrow> FormatGoodbyeItem \<Rightarrow> bool" where
  "less_item a b =
     (if gi_hash a < gi_hash b then True
      else if gi_hash a > gi_hash b then False
      else gi_offset a < gi_offset b)"

definition zero_item :: FormatGoodbyeItem where
  "zero_item = \<lparr>gi_offset = 0, gi_size = 0, gi_hash = 0\<rparr>"

definition makeGoodbyeBST :: "FormatGoodbyeItem list \<Rightarrow> FormatGoodbyeItem list res" where
  "makeGoodbyeBST ins =
     bst (sort_slice less_item ins) (replicate (length ins) zero_item) 0 (floorlog 2 (length ins))"

section \<open>The tree an array stands for\<close>

fun inorder :: "nat \<Rightarrow> 'a list \<Rightarrow> nat \<Rightarrow> 'a list" where
  "inorder 0 out i = []"
| "inorder (Suc e) out i =
     (if i < length out then inorder e out (2 * i + 1) @ [out ! i] @ inorder e out (2 * i + 2) else [])"

fun subtree :: "nat \<Rightarrow> nat \<Rightarrow> nat set" where
  "subtree 0 i = {}"
| "subtree (Suc e) i = insert i (subtree e (2 * i + 1) \<union> subtree e (2 * i + 2))"

lemma subtree_div: "j \<in> subtree e i \<Longrightarrow> \<exists>d. (j + 1) div 2 ^ d = i + 1"
proof (induction e i rule: subtree.induct)
  case (2 e i)
  have up: "\<exists>d. (j + 1) div 2 ^ d = i + 1" if "(j + 1) div 2 ^ d = k" "k div 2 = i + 1" for k d
  proof (intro exI[of _ "Suc d"])
    show "(j + 1) div 2 ^ Suc d = i + 1"
      using that div_mult2_eq[of "j + 1" "2 ^ d" 2] by (simp add: mult.commute)
  qed
  from 2 show ?case by (fastforce intro: exI[of _ 0] up)
qed simp

lemma subtree_ge: "j \<in> subtree e i \<Longrightarrow> i \<le> j"
  by (induction e i rule: subtree.induct) auto

lemma subtree_disjoint: "subtree e (2 * i + 1) \<inter> subtree e' (2 * i + 2) = {}"
proof -
  have False if j1: "j \<in> subtree e (2 * i + 1)" and j2: "j \<in> subtree e' (2 * i + 2)" for j
  proof -
    obtain c d where c: "(j + 1) div 2 ^ c = 2 * i + 2" and d: "(j + 1) div 2 ^ d = 2 * i + 3"
      using subtree_div[OF j1] subtree_div[OF j2] by (auto simp: numeral_eq_Suc)
    have lt: "x div 2 ^ Suc m \<le> x div 2" for x m :: nat
      by (simp add: div_mult2_eq)
    consider "c = d" | m where "d = c + Suc m" | m where "c = d + Suc m"
      by (metis add_Suc_right less_imp_Suc_add linorder_neqE_nat)
    then show False
    proof cases
      case 2
      then have "2 * i + 3 = (2 * i + 2) div 2 ^ Suc m"
        using c d by (simp only: power_add div_mult2_eq)
      with lt[of "2 * i + 2" m] show False by simp
    next
      case 3
      then have "2 * i + 2 = (2 * i + 3) div 2 ^ Suc m"
        using c d by (simp only: power_add div_mult2_eq)
      with lt[of "2 * i + 3" m] show False by simp
    qed (use c d in simp)
  qed
  then show ?thesis by blast
qed

lemma inorder_cong:
  "length out = length out' \<Longrightarrow> (\<And>j. j \<in> subtree e i \<Longrightarrow> out ! j = out' ! j) \<Longrightarrow>
   inorder e out i = inorder e out' i"
  by (induction e out i rule: inorder.induct) simp_all

text \<open>How many of the indices below \<open>N\<close> are in the subtree of height \<open>e\<close> at \<open>i\<close>.\<close>

fun nodes :: "nat \<Rightarrow> nat \<Rightarrow> nat \<Rightarrow> nat" where
  "nodes N 0 i = 0"
| "nodes N (Suc e) i = 2 ^ e - 1 + min (2 ^ e) (N + 1 - 2 ^ e * (i + 1))"

text \<open>All the levels but the last are within \<open>N\<close>.\<close>

definition upper_levels_full :: "nat \<Rightarrow> nat \<Rightarrow> nat \<Rightarrow> bool" where
  "upper_levels_full N e i \<longleftrightarrow> (\<forall>f. e = Suc (Suc f) \<longrightarrow> 2 ^ f * (i + 2) \<le> N + 1)"

lemma upper_levels_children:
  assumes "upper_levels_full N (Suc e) i"
  shows "upper_levels_full N e (2 * i + 1)" "upper_levels_full N e (2 * i + 2)"
proof -
  have u: "2 ^ f * (2 * i + 4) \<le> N + 1" if "e = Suc (Suc f)" for f
    using assms that by (auto simp: upper_levels_full_def algebra_simps)
  then show "upper_levels_full N e (2 * i + 2)" by (simp add: upper_levels_full_def numeral_eq_Suc)
  have "2 ^ f * (2 * i + 1 + 2) \<le> N + 1" if "e = Suc (Suc f)" for f
    by (rule le_trans[OF mult_le_mono2 u[OF that]]) simp
  then show "upper_levels_full N e (2 * i + 1)" unfolding upper_levels_full_def by blast
qed

lemma bst_root:
  assumes "length xs = nodes N (Suc e) i" "upper_levels_full N (Suc e) i" "xs \<noteq> []"
  shows "i < N \<and> nodes N (Suc e) i = nodes N e (2 * i + 1) + 1 + nodes N e (2 * i + 2) \<and>
    bst_root_index e (int (length xs)) = int (nodes N e (2 * i + 1))"
proof (cases e)
  case 0
  have "0 < nodes N (Suc e) i" using assms(1,3) by (metis length_greater_0_conv)
  with 0 show ?thesis by (auto simp: bst_root_index_def)
next
  case (Suc f)
  define r a where "r = (2 ^ f :: nat)" and "a = r * i"
  have r: "r \<ge> 1" "i \<le> a" by (simp_all add: r_def a_def)
  have full: "a + 2 * r \<le> N + 1"
    using assms(2) Suc by (simp add: upper_levels_full_def r_def a_def algebra_simps)
  have n: "nodes N (Suc e) i = 2 * r - 1 + min (2 * r) (N + 1 - (2 * a + 2 * r))"
    "nodes N e (2 * i + 1) = r - 1 + min r (N + 1 - (2 * a + 2 * r))"
    "nodes N e (2 * i + 2) = r - 1 + min r (N + 1 - (2 * a + 3 * r))"
    by (simp_all add: Suc r_def a_def algebra_simps)
  have p: "(2 ^ e :: int) = 2 * int r" by (simp add: Suc r_def)
  show ?thesis using r full unfolding assms(1) n p bst_root_index_def Let_def by auto
qed

lemma bst_correct:
  assumes "length xs = nodes (length out) e i" "upper_levels_full (length out) e i"
  shows "\<exists>out'. bst xs out i e = Ok out' \<and> length out' = length out \<and>
     (\<forall>j. j \<notin> subtree e i \<longrightarrow> out' ! j = out ! j) \<and> inorder e out' i = xs"
  using assms
proof (induction e arbitrary: xs out i)
  case 0
  then show ?case by simp
next
  case (Suc e)
  show ?case
  proof (cases "xs = []")
    case True
    then have "2 ^ e - 1 + min (2 ^ e) (length out + 1 - 2 ^ e * (i + 1)) = 0" using Suc.prems(1) by simp
    moreover from this have "(2 :: nat) ^ e \<le> 1" by linarith
    then have "e = 0" using power_increasing[of 1 e "2 :: nat"] by (cases "e = 0") auto
    ultimately have "\<not> i < length out" by simp
    with True show ?thesis by simp
  next
    case False
    define k where "k = nodes (length out) e (2 * i + 1)"
    have root: "i < length out" "bst_root_index e (int (length xs)) = int k"
      using bst_root[OF Suc.prems False] by (simp_all add: k_def)
    have len: "length xs = k + 1 + nodes (length out) e (2 * i + 2)"
      using Suc.prems(1) bst_root[OF Suc.prems False] by (simp add: k_def)
    let ?o = "out[i := xs ! k]"
    note ch = upper_levels_children[OF Suc.prems(2)]
    obtain o1 where o1: "bst (take k xs) ?o (2 * i + 1) e = Ok o1" "length o1 = length out"
      "\<forall>j. j \<notin> subtree e (2 * i + 1) \<longrightarrow> o1 ! j = ?o ! j" "inorder e o1 (2 * i + 1) = take k xs"
      using Suc.IH[of "take k xs" ?o "2 * i + 1"] ch len by (auto simp: k_def)
    obtain o2 where o2: "bst (drop (k + 1) xs) o1 (2 * i + 2) e = Ok o2" "length o2 = length out"
      "\<forall>j. j \<notin> subtree e (2 * i + 2) \<longrightarrow> o2 ! j = o1 ! j" "inorder e o2 (2 * i + 2) = drop (k + 1) xs"
      using Suc.IH[of "drop (k + 1) xs" o1 "2 * i + 2"] ch len o1(2) by auto
    have "bst xs out i (Suc e) = Ok o2"
      using root len o1(1) o2(1) False by (cases xs) (simp_all add: Let_def)
    moreover have "o2 ! j = out ! j" if "j \<notin> subtree (Suc e) i" for j
      using that o1(3) o2(3) by simp
    moreover have "o2 ! i = xs ! k"
    proof -
      have "i \<notin> subtree e (2 * i + 1)" "i \<notin> subtree e (2 * i + 2)"
        using subtree_ge[of i e "2 * i + 1"] subtree_ge[of i e "2 * i + 2"] by auto
      then show ?thesis using o1(3) o2(3) root(1) by simp
    qed
    moreover have "inorder e o2 (2 * i + 1) = take k xs"
      using inorder_cong[of o2 o1 e "2 * i + 1"] o1(2,4) o2(2,3) subtree_disjoint[of e i e] by auto
    ultimately show ?thesis using o2 root(1) len id_take_nth_drop[of k xs] by auto
  qed
qed


interpretation item_order: strict_weak_order less_item
  by unfold_locales (auto simp: less_item_def split: if_splits)

lemma nodes_root: "nodes n (floorlog 2 n) 0 = n" and upper_levels_root: "upper_levels_full n (floorlog 2 n) 0"
proof -
  have b: "2 ^ (floorlog 2 n - 1) \<le> n \<and> n < 2 ^ floorlog 2 n" if "n \<noteq> 0"
    using floorlog_bounds[of n 2] that by simp
  show "nodes n (floorlog 2 n) 0 = n"
  proof (cases "floorlog 2 n")
    case 0
    then show ?thesis using b by (cases "n = 0") auto
  next
    case (Suc e)
    then show ?thesis using b by (cases "n = 0") (auto simp: floorlog_def)
  qed
  show "upper_levels_full n (floorlog 2 n) 0"
    using b by (cases "n = 0") (auto simp: upper_levels_full_def floorlog_def)
qed

lemma makeGoodbyeBST_inorder:
  "\<exists>out. makeGoodbyeBST ins = Ok out \<and> length out = length ins \<and>
     inorder (floorlog 2 (length ins)) out 0 = sort_slice less_item ins"
  using bst_correct[of "sort_slice less_item ins" "replicate (length ins) zero_item" "floorlog 2 (length ins)" 0]
  by (auto simp: makeGoodbyeBST_def nodes_root upper_levels_root)

text \<open>The search a reader of the archive makes for the hash of a name.\<close>

fun goodbye_find :: "nat \<Rightarrow> FormatGoodbyeItem list \<Rightarrow> u64 \<Rightarrow> nat \<Rightarrow> FormatGoodbyeItem option" where
  "goodbye_find 0 out h i = None"
| "goodbye_find (Suc e) out h i =
     (if i < length out then
        if h = gi_hash (out ! i) then Some (out ! i)
        else if h < gi_hash (out ! i) then goodbye_find e out h (2 * i + 1)
        else goodbye_find e out h (2 * i + 2)
      else None)"

lemma goodbye_find_inorder:
  assumes "sorted_wrt (\<lambda>a b. gi_hash a \<le> gi_hash b) (inorder e out i)"
  shows "case goodbye_find e out h i of
      None \<Rightarrow> h \<notin> gi_hash ` set (inorder e out i)
    | Some x \<Rightarrow> x \<in> set (inorder e out i) \<and> gi_hash x = h"
  using assms
proof (induction e out h i rule: goodbye_find.induct)
  case (2 e out h i)
  show ?case
  proof (cases "i < length out")
    case True
    let ?L = "inorder e out (2 * i + 1)" and ?R = "inorder e out (2 * i + 2)"
    have s: "sorted_wrt (\<lambda>a b. gi_hash a \<le> gi_hash b) ?L" "sorted_wrt (\<lambda>a b. gi_hash a \<le> gi_hash b) ?R"
      and l: "\<And>x. x \<in> set ?L \<Longrightarrow> gi_hash x \<le> gi_hash (out ! i)"
      and r: "\<And>x. x \<in> set ?R \<Longrightarrow> gi_hash (out ! i) \<le> gi_hash x"
      using "2.prems" True by (auto simp: sorted_wrt_append)
    consider "h = gi_hash (out ! i)" | (lt) "h < gi_hash (out ! i)" | (gt) "h > gi_hash (out ! i)"
      by fastforce
    then show ?thesis
    proof cases
      case lt
      have "h \<notin> gi_hash ` set ?R" using r lt by force
      then show ?thesis using "2.IH"(1)[OF True _ lt s(1)] lt True by (auto split: option.splits)
    next
      case gt
      have "h \<notin> gi_hash ` set ?L" using l gt by force
      then show ?thesis using "2.IH"(2)[OF True _ _ s(2)] gt True by (auto split: option.splits)
    qed (use True in simp)
  qed simp
qed simp

lemma inorder_map: "inorder e (map f ys) i = map f (inorder e ys i)"
  by (induction e ys i rule: inorder.induct) auto

lemma inorder_indices:
  "set (inorder e [0..<N] i) \<subseteq> subtree e i \<inter> {..<N} \<and> distinct (inorder e [0..<N] i)"
proof (induction e arbitrary: i)
  case (Suc e)
  have "i \<notin> subtree e (2 * i + 1)" "i \<notin> subtree e (2 * i + 2)"
    using subtree_ge[of i e "2 * i + 1"] subtree_ge[of i e "2 * i + 2"] by auto
  then show ?case using Suc[of "2 * i + 1"] Suc[of "2 * i + 2"] subtree_disjoint[of e i e] by auto
qed simp

lemma mset_inorder:
  assumes "length (inorder e out 0) = length out"
  shows "mset (inorder e out 0) = mset out"
proof -
  let ?ix = "inorder e [0..<length out] 0"
  have o: "inorder e out 0 = map ((!) out) ?ix"
    using inorder_map[of e "(!) out" "[0..<length out]" 0] by (simp add: map_nth)
  then have "length ?ix = length out" using assms by simp
  then have "set ?ix = {..<length out}"
    using inorder_indices[of e "length out" 0] by (intro card_subset_eq) (auto simp: distinct_card)
  then have "mset ?ix = mset [0..<length out]"
    using inorder_indices[of e "length out" 0] by (intro set_eq_iff_mset_eq_distinct[THEN iffD1]) auto
  then have "mset (map ((!) out) ?ix) = mset (map ((!) out) [0..<length out])"
    by (simp only: mset_map)
  then show ?thesis unfolding o map_nth .
qed

section \<open>Properties\<close>

text \<open>
  (C23) \<open>makeGoodbyeBST\<close> never indexes out of bounds and turns the items of a directory into a
  complete binary search tree in array form: the result holds exactly the items it was given, and
  the search by hash that descends from index 0 to \<open>2i+1\<close> or \<open>2i+2\<close> finds an item for a hash within
  as many steps as the number of items has bits, if and only if there is one.
\<close>

theorem goodbye_bst_search:
  "\<exists>out. makeGoodbyeBST ins = Ok out \<and> mset out = mset ins \<and>
     (case goodbye_find (floorlog 2 (length ins)) out h 0 of
        None \<Rightarrow> h \<notin> gi_hash ` set ins
      | Some x \<Rightarrow> x \<in> set ins \<and> gi_hash x = h)"
proof -
  obtain out where out: "makeGoodbyeBST ins = Ok out" "length out = length ins"
    "inorder (floorlog 2 (length ins)) out 0 = sort_slice less_item ins"
    using makeGoodbyeBST_inorder by blast
  have "mset out = mset ins" using mset_inorder[of "floorlog 2 (length ins)" out] out by simp
  moreover have "sorted_wrt (\<lambda>a b. gi_hash a \<le> gi_hash b) (sort_slice less_item ins)"
    using item_order.sorted_sort_slice[of ins]
    by (rule sorted_wrt_mono_rel[rotated]) (auto simp: less_item_def split: if_splits)
  ultimately show ?thesis using out goodbye_find_inorder[of "floorlog 2 (length ins)" out 0 h]
    by (intro exI[of _ out]) (auto split: option.splits)
qed

end
