(* ===== verification/Format_Wire.thy ===== *)
theory Format_Wire
  imports Format
begin

text \<open>
  The wire format the encoder and the decoder of \<^verbatim>\<open>src/format.go\<close> share. \<open>encode_bytes\<close> is
  the byte string of an element as a function, the specification of \<open>Encode\<close>; \<open>wf_element\<close> says
  which elements announce in their header what their body holds. The encoder writes exactly
  \<open>encode_bytes\<close> through any writer, and the decoder inverts it.
\<close>

section \<open>What the encoder writes\<close>

definition words :: "u64 list \<Rightarrow> bytes" where
  "words vs = concat (map le64 vs)"

definition hdr_words :: "FormatHeader \<Rightarrow> u64 list" where
  "hdr_words h = [h_size h, h_type h]"

definition name_bytes :: "string \<Rightarrow> bytes" where
  "name_bytes nm = bytes_of_string nm @ [0]"

definition goodbye_item_bytes :: "FormatGoodbyeItem \<Rightarrow> bytes" where
  "goodbye_item_bytes i = words [gi_offset i, gi_size i, gi_hash i]"

definition table_item_bytes :: "FormatTableItem \<Rightarrow> bytes" where
  "table_item_bytes i = words [ti_offset i] @ ti_chunk i"

fun encode_bytes :: "format_element \<Rightarrow> bytes" where
  "encode_bytes (FormatEntry h ff mode fl uid gid mt) =
     words (hdr_words h @ [ff, ucast (FilemodeToStatMode mode), fl, word_of_int uid,
       word_of_int gid, word_of_int mt])"
| "encode_bytes (FormatUser h nm) = words (hdr_words h) @ name_bytes nm"
| "encode_bytes (FormatGroup h nm) = words (hdr_words h) @ name_bytes nm"
| "encode_bytes (FormatXAttr h nm) = words (hdr_words h) @ name_bytes nm"
| "encode_bytes (FormatSELinux h nm) = words (hdr_words h) @ name_bytes nm"
| "encode_bytes (FormatFilename h nm) = words (hdr_words h) @ name_bytes nm"
| "encode_bytes (FormatSymlink h nm) = words (hdr_words h) @ name_bytes nm"
| "encode_bytes (FormatDevice h mj mi) = words (hdr_words h @ [mj, mi])"
| "encode_bytes (FormatPayload h s) = words (hdr_words h) @ s_data s"
| "encode_bytes (FormatFCaps h b) = words (hdr_words h) @ b"
| "encode_bytes (FormatACLUser h i p nm) = words (hdr_words h @ [i, p]) @ name_bytes nm"
| "encode_bytes (FormatACLGroup h i p nm) = words (hdr_words h @ [i, p]) @ name_bytes nm"
| "encode_bytes (FormatACLGroupObj h p) = words (hdr_words h @ [p])"
| "encode_bytes (FormatACLDefault h u g ot m) = words (hdr_words h @ [u, g, ot, m])"
| "encode_bytes (FormatGoodbye h items) =
     words (hdr_words h) @ concat (map goodbye_item_bytes items)"
| "encode_bytes (FormatIndexElem i) =
     words (hdr_words (fi_hdr i) @ [FeatureFlags i, ChunkSizeMin i, ChunkSizeAvg i, ChunkSizeMax i])"
| "encode_bytes (FormatTable h items) =
     words (hdr_words h) @ concat (map table_item_bytes items) @
     words [0, 0, 48, word_of_nat (56 + 40 * length items), CaFormatTableTailMarker]"

fun source_ok :: "format_element \<Rightarrow> bool" where
  "source_ok (FormatPayload h s) = (s_end s = EOF)"
| "source_ok (FormatTable h items) = list_all (\<lambda>i. is_chunk_id (ti_chunk i)) items"
| "source_ok _ = True"

lemma words_append: "words (xs @ ys) = words xs @ words ys"
  by (simp add: words_def)

lemma words_Cons: "words (v # vs) = le64 v @ words vs" and words_Nil: "words [] = []"
  by (simp_all add: words_def)

lemma length_words [simp]: "length (words vs) = 8 * length vs"
  by (induction vs) (simp_all add: words_def)

context byte_writer begin

lemma wrote_words: "wrote w (words vs) (WriteUint64 wr w vs)"
  unfolding words_def by (rule wrote_WriteUint64)

lemma wrote_then:
  assumes "wrote w bs r" and "\<And>w'. wrote w' cs (f w')"
  shows "wrote w (bs @ cs) (then_write r f)"
proof (cases r)
  case (fields n e w')
  show ?thesis
  proof (cases e)
    case None
    obtain m e1 w1 where f: "f w' = (m, e1, w1)" by (cases "f w'")
    then have "wrote w' cs (m, e1, w1)" using assms(2)[of w'] by simp
    then show ?thesis using fields None f assms(1) wrote_seq by (simp add: then_write_def)
  next
    case (Some x)
    then show ?thesis using fields assms(1) wrote_fail by (simp add: then_write_def)
  qed
qed

lemma wrote_write_name: "wrote w bs r \<Longrightarrow> wrote w (bs @ name_bytes nm) (write_name wr r nm)"
  unfolding write_name_def name_bytes_def by (rule wrote_then) (auto intro: wrote_io_copy)

lemma wrote_goodbye_items:
  "wrote w bs r \<Longrightarrow> wrote w (bs @ concat (map goodbye_item_bytes items)) (write_goodbye_items wr items r)"
proof (induction items arbitrary: bs r)
  case Nil
  then show ?case by (simp add: write_goodbye_items_def)
next
  case (Cons i items)
  have "wrote w (bs @ goodbye_item_bytes i)
      (then_write r (\<lambda>w. WriteUint64 wr w [gi_offset i, gi_size i, gi_hash i]))"
    unfolding goodbye_item_bytes_def using Cons.prems by (rule wrote_then) (rule wrote_words)
  from Cons.IH[OF this] show ?case by (simp add: write_goodbye_items_def)
qed

lemma wrote_table_items:
  "wrote w bs r \<Longrightarrow> wrote w (bs @ concat (map table_item_bytes items)) (write_table_items wr items r)"
proof (induction items arbitrary: bs r)
  case Nil
  then show ?case by (simp add: write_table_items_def)
next
  case (Cons i items)
  have "wrote w ((bs @ words [ti_offset i]) @ ti_chunk i)
      (then_write (then_write r (\<lambda>w. WriteUint64 wr w [ti_offset i])) (\<lambda>w. WriteID wr w (ti_chunk i)))"
    by (intro wrote_then Cons.prems wrote_words wrote_WriteID)
  from Cons.IH[OF this] show ?case by (simp add: write_table_items_def table_item_bytes_def)
qed

lemma wrote_table:
  assumes "list_all (\<lambda>i. is_chunk_id (ti_chunk i)) items"
  shows "wrote w (encode_bytes (FormatTable h items)) (write_table wr w h items)"
proof -
  define r where "r = write_table_items wr items (WriteUint64 wr w [h_size h, h_type h])"
  define pre where "pre = words (hdr_words h) @ concat (map table_item_bytes items)"
  have pre: "wrote w pre r" unfolding pre_def r_def hdr_words_def
    by (intro wrote_table_items wrote_words)
  have "length (concat (map table_item_bytes items)) = 40 * length items"
    using assms by (induction items) (auto simp: table_item_bytes_def is_chunk_id_def chunk_id_len_def)
  then have len: "length pre = 16 + 40 * length items"
    by (simp add: pre_def hdr_words_def)
  show ?thesis
  proof (cases r)
    case (fields n e w')
    show ?thesis
    proof (cases e)
      case None
      then have "n + 40 = 56 + 40 * length items" using pre fields len by (simp add: wrote_def)
      then have "wrote w (pre @ words [0, 0, 48, word_of_nat (56 + 40 * length items), CaFormatTableTailMarker])
         (write_table wr w h items)"
        unfolding write_table_def Let_def r_def[symmetric]
        by (intro wrote_then[OF pre]) (simp add: fields wrote_words)
      then show ?thesis by (simp add: pre_def)
    next
      case (Some x)
      then have "wrote w (pre @ words [0, 0, 48, word_of_nat (56 + 40 * length items), CaFormatTableTailMarker]) r"
        using pre fields wrote_fail by simp
      then show ?thesis using Some fields
        by (simp add: write_table_def Let_def r_def[symmetric] then_write_def pre_def)
    qed
  qed
qed

lemmas wrote_intros = wrote_words wrote_write_name wrote_then wrote_io_copy wrote_goodbye_items
  wrote_io_copy_blocks

lemma wrote_Encode: "source_ok v \<Longrightarrow> wrote w (encode_bytes v) (Encode wr w v)"
proof (cases v)
  case (FormatTable h items)
  then show "source_ok v \<Longrightarrow> ?thesis" using wrote_table by simp
qed (auto simp: hdr_words_def intro!: wrote_intros)

end

context reliable_writer begin

lemma succeeds_then: "succeeds r \<Longrightarrow> (\<And>w. good w \<Longrightarrow> succeeds (f w)) \<Longrightarrow> succeeds (then_write r f)"
  by (auto simp: succeeds_def then_write_def split: prod.splits) force+

lemma succeeds_fold:
  "succeeds r \<Longrightarrow> (\<And>x r. x \<in> set xs \<Longrightarrow> succeeds r \<Longrightarrow> succeeds (f x r)) \<Longrightarrow> succeeds (fold f xs r)"
  by (induction xs arbitrary: r) auto

lemmas succeeds_intros = succeeds_then succeeds_fold succeeds_io_copy succeeds_WriteUint64
  succeeds_WriteID succeeds_io_copy_blocks

lemma succeeds_Encode: "good w \<Longrightarrow> source_ok v \<Longrightarrow> succeeds (Encode wr w v)"
  by (cases v) (auto simp: write_name_def write_table_def write_goodbye_items_def
      write_table_items_def Let_def intro!: succeeds_intros)

end

section \<open>Decoding what was encoded\<close>

abbreviation strm :: "bytes \<Rightarrow> go_error \<Rightarrow> stream" where
  "strm bs fin \<equiv> \<lparr>s_data = bs, s_end = fin\<rparr>"

named_theorems read_simps \<open>reading back what was written\<close>

lemma read_full_append: "n = length bs \<Longrightarrow> read_full (strm (bs @ rest) fin) n = Ok (bs, strm rest fin)"
  by (simp add: read_full_def)

lemma ReadUint64_le [read_simps]: "ReadUint64 (strm (le64 v @ rest) fin) = Ok (v, strm rest fin)"
  by (simp add: ReadUint64_def read_full_append)

lemma ReadID_append [read_simps]: "is_chunk_id c \<Longrightarrow> ReadID (strm (c @ rest) fin) = Ok (c, strm rest fin)"
  by (simp add: ReadID_def read_full_append is_chunk_id_def chunk_id_len_def ChunkIDFromSlice_def)

lemma ReadHeader_words [read_simps]:
  "ReadHeader (strm (words (hdr_words h) @ rest) fin) = Ok (h, strm rest fin)"
  by (simp add: ReadHeader_def hdr_words_def words_Cons words_Nil read_simps)

lemmas words_simps = words_append words_Cons words_Nil

lemma read_goodbye_items_bytes [read_simps]:
  "read_goodbye_items (length items) (strm (concat (map goodbye_item_bytes items) @ rest) fin)
     = Ok (items, strm rest fin)"
  by (induction items) (simp_all add: goodbye_item_bytes_def words_simps read_simps)

lemma read_table_items_bytes [read_simps]:
  "list_all (\<lambda>i. is_chunk_id (ti_chunk i) \<and> ti_offset i \<noteq> 0) items \<Longrightarrow>
   read_table_items (strm (concat (map table_item_bytes items) @ le64 0 @ rest) fin)
     = Ok (items, strm rest fin)"
proof (induction items)
  case Nil
  then show ?case by (subst read_table_items.simps) (simp add: read_simps)
next
  case (Cons i items)
  have "concat (map table_item_bytes (i # items)) @ le64 0 @ rest
      = le64 (ti_offset i) @ ti_chunk i @ concat (map table_item_bytes items) @ le64 0 @ rest"
    by (simp add: table_item_bytes_def words_simps)
  with Cons show ?case by (subst read_table_items.simps) (simp add: read_simps)
qed

text \<open>A header that announces a body of \<open>n\<close> bytes after \<open>k\<close>.\<close>

definition body_size :: "FormatHeader \<Rightarrow> nat \<Rightarrow> nat \<Rightarrow> bool" where
  "body_size h k n \<longleftrightarrow> h_size h = word_of_nat (k + n) \<and> n \<le> max_alloc"

lemma body_size_unat: "body_size h k n \<Longrightarrow> unat (h_size h - word_of_nat k) = n"
proof -
  assume b: "body_size h k n"
  then have "h_size h - word_of_nat k = word_of_nat n" by (simp add: body_size_def)
  moreover have "n < 2 ^ 64" using b by (simp add: body_size_def max_alloc_def)
  ultimately show ?thesis by (simp add: unat_of_nat take_bit_nat_eq_self)
qed

lemma read_body_bytes:
  "body_size h k (length b) \<Longrightarrow> read_body h (word_of_nat k) (strm (b @ rest) fin) = Ok (b, strm rest fin)"
  by (simp add: read_body_def make_bytes_def body_size_unat read_full_append)
     (simp add: body_size_def)

lemma read_name_bytes:
  "body_size h k (length nm + 1) \<Longrightarrow>
   read_name h (word_of_nat k) (strm (name_bytes nm @ rest) fin) = Ok (nm, strm rest fin)"
  using read_body_bytes[of h k "name_bytes nm" rest fin]
  by (simp add: read_name_def strip_nul_def name_bytes_def)

lemmas read_name_16 = read_name_bytes[of _ 16, simplified]
lemmas read_name_32 = read_name_bytes[of _ 32, simplified]
lemmas read_body_16 = read_body_bytes[of _ 16, simplified]

fun wf_element :: "format_element \<Rightarrow> bool" where
  "wf_element (FormatEntry h ff mode fl uid gid mt) \<longleftrightarrow>
     h = \<lparr>h_size = 64, h_type = CaFormatEntry\<rparr> \<and> go_mode_ok mode \<and>
     (\<forall>i \<in> {uid, gid, mt}. - (2 ^ 63) \<le> i \<and> i < 2 ^ 63)"
| "wf_element (FormatUser h nm) \<longleftrightarrow> h_type h = CaFormatUser \<and> body_size h 16 (length nm + 1)"
| "wf_element (FormatGroup h nm) \<longleftrightarrow> h_type h = CaFormatGroup \<and> body_size h 16 (length nm + 1)"
| "wf_element (FormatXAttr h nm) \<longleftrightarrow> h_type h = CaFormatXAttr \<and> body_size h 16 (length nm + 1)"
| "wf_element (FormatSELinux h nm) \<longleftrightarrow> h_type h = CaFormatSELinux \<and> body_size h 16 (length nm + 1)"
| "wf_element (FormatFilename h nm) \<longleftrightarrow> h_type h = CaFormatFilename \<and> body_size h 16 (length nm + 1)"
| "wf_element (FormatSymlink h nm) \<longleftrightarrow> h_type h = CaFormatSymlink \<and> body_size h 16 (length nm + 1)"
| "wf_element (FormatDevice h mj mi) \<longleftrightarrow> h = \<lparr>h_size = 32, h_type = CaFormatDevice\<rparr>"
| "wf_element (FormatPayload h s) \<longleftrightarrow>
     h_type h = CaFormatPayload \<and> s_end s = EOF \<and> length (s_data s) < 2 ^ 63 \<and>
     h_size h = word_of_nat (16 + length (s_data s))"
| "wf_element (FormatFCaps h b) \<longleftrightarrow> h_type h = CaFormatFCaps \<and> body_size h 16 (length b)"
| "wf_element (FormatACLUser h i p nm) \<longleftrightarrow> h_type h = CaFormatACLUser \<and> body_size h 32 (length nm + 1)"
| "wf_element (FormatACLGroup h i p nm) \<longleftrightarrow> h_type h = CaFormatACLGroup \<and> body_size h 32 (length nm + 1)"
| "wf_element (FormatACLGroupObj h p) \<longleftrightarrow> h_type h = CaFormatACLGroupObj"
| "wf_element (FormatACLDefault h u g ot m) \<longleftrightarrow> h_type h = CaFormatACLDefault"
| "wf_element (FormatGoodbye h items) \<longleftrightarrow>
     h_type h = CaFormatGoodbye \<and> body_size h 16 (24 * length items) \<and>
     items \<noteq> [] \<and> gi_hash (last items) = CaFormatGoodbyeTailMarker"
| "wf_element (FormatIndexElem i) \<longleftrightarrow> h_type (fi_hdr i) = CaFormatIndex"
| "wf_element (FormatTable h items) \<longleftrightarrow>
     h = \<lparr>h_size = - 1, h_type = CaFormatTable\<rparr> \<and>
     list_all (\<lambda>i. is_chunk_id (ti_chunk i) \<and> ti_offset i \<noteq> 0) items"

text \<open>The body of an element: what follows its header.\<close>

definition body_bytes :: "format_element \<Rightarrow> bytes" where
  "body_bytes v = drop 16 (encode_bytes v)"

fun header_of :: "format_element \<Rightarrow> FormatHeader" where
  "header_of (FormatIndexElem i) = fi_hdr i"
| "header_of v = elem_hdr v"

lemma length_hdr_words [simp]: "length (hdr_words h) = 2"
  by (simp add: hdr_words_def)

lemma length_words_hdr [simp]: "length (words (hdr_words h)) = 16"
  by simp

lemma drop_words [simp]: "drop 16 (words (hdr_words h) @ bs) = bs"
  by simp

lemma drop_words_hdr [simp]: "drop 16 (words (hdr_words h @ vs)) = words vs"
  by (simp add: words_append)

lemma encode_bytes_split: "encode_bytes v = words (hdr_words (header_of v)) @ body_bytes v"
  by (cases v) (simp_all add: body_bytes_def words_append)

lemma sint_word_of_int: "- (2 ^ 63) \<le> i \<Longrightarrow> i < 2 ^ 63 \<Longrightarrow> sint (word_of_int i :: u64) = i"
proof -
  assume "- (2 ^ 63) \<le> i" "i < 2 ^ 63"
  then have "signed_take_bit 63 i = i" by (intro signed_take_bit_int_eq_self) auto
  then show ?thesis by (simp add: sint_sbintrunc')
qed

lemma ucast_mode [simp]: "ucast (ucast (x :: u32) :: u64) = x"
  by (rule bit_eqI) (auto simp: bit_simps)

lemma decode_elem_body:
  assumes "wf_element v"
  shows "\<exists>d. decode_elem (header_of v) (strm (body_bytes v @ rest) fin) = Ok (v, d) \<and>
     drain d = strm rest fin"
proof (cases v)
  case (FormatEntry h ff mode fl uid gid mt)
  then show ?thesis using assms
    by (simp add: body_bytes_def words_append decode_elem_def decode_entry_def words_simps read_simps
        StatModeToFilemode_FilemodeToStatMode sint_word_of_int drain_def)
next
  case (FormatPayload h s)
  then have sz: "unat (h_size h - 16) = length (s_data s)" "sint (h_size h - 16) = int (length (s_data s))"
    using assms by (auto simp: unat_of_nat take_bit_nat_eq_self sint_small_u64)
  with FormatPayload assms show ?thesis
    by (cases s) (simp add: body_bytes_def decode_elem_def drain_def limited_def ca_consts Let_def)
next
  case (FormatGoodbye h items)
  then have n: "unat (h_size h - 16) = 24 * length items" and a: "24 * length items \<le> max_alloc"
    using assms body_size_unat[of h 16 "24 * length items"] by (auto simp: body_size_def)
  have "unat ((h_size h - 16) div 24) = length items" using n by (simp add: unat_div)
  with FormatGoodbye assms a show ?thesis
    by (simp add: body_bytes_def decode_elem_def drain_def decode_goodbye_def ca_consts Let_def read_simps)
next
  case (FormatTable h items)
  then show ?thesis using assms
    by (simp add: body_bytes_def decode_elem_def drain_def decode_table_def ca_consts Let_def read_simps words_simps)
qed (use assms in \<open>auto simp: body_bytes_def decode_elem_def drain_def decode_name_def decode_device_def
       decode_acl_def decode_acl_default_def decode_index_def ca_consts Let_def read_simps words_simps
       read_name_16 read_name_32 read_body_16\<close>)

lemma Next_encode_bytes:
  assumes "wf_element v" "drain d = strm (encode_bytes v @ rest) fin"
  shows "\<exists>d'. FormatDecoder_Next d = Ok (Some v, d') \<and> drain d' = strm rest fin"
  using decode_elem_body[OF assms(1), of rest fin] assms(2)
  by (auto simp: FormatDecoder_Next_def encode_bytes_split read_simps)

end
