(* ===== verification/Format_Props.thy ===== *)
theory Format_Props
  imports Format_Wire
begin

text \<open>
  Truncated input and the properties of the element format: round trip of whole streams, what a
  cut stream decodes to, skipped payloads, short writes, and the panic on empty names.
\<close>

section \<open>Truncated input\<close>

text \<open>
  A reader is strict when a successful read used up a prefix of the stream and looked at nothing
  else, and when the read of a stream cut anywhere inside that prefix fails with one of the two
  end-of-input errors. All the readers of elements are strict, because the primitive ones are and
  sequencing keeps it.
\<close>

definition cut_error :: "'a res \<Rightarrow> bool" where
  "cut_error r \<longleftrightarrow> r = Err EOF \<or> r = Err ErrUnexpectedEOF"

definition uses_prefix :: "(stream \<Rightarrow> ('a \<times> stream) res) \<Rightarrow> bytes \<Rightarrow> 'a \<Rightarrow> nat \<Rightarrow> bool" where
  "uses_prefix f bs x k \<longleftrightarrow> k \<le> length bs \<and> 
     (\<forall>n. if n < k then cut_error (f (stream_of (take n bs)))
          else f (stream_of (take n bs)) = Ok (x, stream_of (drop k (take n bs))))"

definition strict_reader :: "(stream \<Rightarrow> ('a \<times> stream) res) \<Rightarrow> bool" where
  "strict_reader f \<longleftrightarrow>
     (\<forall>bs x s'. f (stream_of bs) = Ok (x, s') \<longrightarrow> (\<exists>k. uses_prefix f bs x k))"

named_theorems strict_intros \<open>which readers are strict\<close>

lemma cut_error_bind [simp]: "cut_error m \<Longrightarrow> cut_error (bind_res m f)"
  by (auto simp: cut_error_def)

lemma strict_readerD:
  assumes "strict_reader f" "f (stream_of bs) = Ok (x, s')"
  obtains k where "uses_prefix f bs x k" "s' = stream_of (drop k bs)"
proof -
  obtain k where k: "uses_prefix f bs x k" using assms unfolding strict_reader_def by blast
  then have "f (stream_of (take (length bs) bs)) = Ok (x, stream_of (drop k (take (length bs) bs)))"
    unfolding uses_prefix_def by (metis leD)
  with assms(2) have "s' = stream_of (drop k bs)" by simp
  with k that show thesis by blast
qed

lemma strict_const [strict_intros]: "strict_reader (\<lambda>s. Err e)" "strict_reader (\<lambda>s. Panic p)"
  "strict_reader (\<lambda>s. Ok (x, s))"
  by (auto simp: strict_reader_def uses_prefix_def intro!: exI[of _ 0])

lemma strict_if [strict_intros]:
  "(c \<Longrightarrow> strict_reader f) \<Longrightarrow> (\<not> c \<Longrightarrow> strict_reader g) \<Longrightarrow> strict_reader (\<lambda>s. if c then f s else g s)"
  by (cases c) auto

lemma uses_prefix_cut: "uses_prefix f bs x k \<Longrightarrow> n < k \<Longrightarrow> cut_error (f (stream_of (take n bs)))"
  by (auto simp: uses_prefix_def dest: spec[of _ n])

lemma uses_prefix_full:
  "uses_prefix f bs x k \<Longrightarrow> k \<le> n \<Longrightarrow> f (stream_of (take n bs)) = Ok (x, stream_of (drop k (take n bs)))"
  by (auto simp: uses_prefix_def dest: spec[of _ n])

lemma uses_prefix_bind:
  assumes f: "uses_prefix f bs a k" and g: "uses_prefix (g a) (drop k bs) x j"
  shows "uses_prefix (\<lambda>s. bind_res (f s) (\<lambda>(a, s). g a s)) bs x (k + j)"
proof -
  have "cut_error (bind_res (f (stream_of (take n bs))) (\<lambda>(a, s). g a s))" if "n < k + j" for n
  proof (cases "n < k")
    case True
    then show ?thesis using uses_prefix_cut[OF f] by simp
  next
    case False
    then have "cut_error (g a (stream_of (take (n - k) (drop k bs))))"
      using uses_prefix_cut[OF g] that by simp
    then show ?thesis using uses_prefix_full[OF f, of n] False by (simp add: drop_take)
  qed
  moreover have "bind_res (f (stream_of (take n bs))) (\<lambda>(a, s). g a s)
      = Ok (x, stream_of (drop (k + j) (take n bs)))" if "k + j \<le> n" for n
    using uses_prefix_full[OF f, of n] uses_prefix_full[OF g, of "n - k"] that
    by (simp add: drop_take add.commute)
  moreover have "k + j \<le> length bs" using f g by (auto simp: uses_prefix_def)
  ultimately show ?thesis by (simp add: uses_prefix_def)
qed

lemma strict_bind [strict_intros]:
  assumes "strict_reader f" "\<And>a. strict_reader (g a)"
  shows "strict_reader (\<lambda>s. bind_res (f s) (\<lambda>(a, s). g a s))"
  unfolding strict_reader_def
proof (intro allI impI)
  fix bs x s'
  assume "bind_res (f (stream_of bs)) (\<lambda>(a, s). g a s) = Ok (x, s')"
  then obtain a s1 where f: "f (stream_of bs) = Ok (a, s1)" and g: "g a s1 = Ok (x, s')"
    by (auto simp: res_simps)
  obtain k where k: "uses_prefix f bs a k" "s1 = stream_of (drop k bs)"
    using strict_readerD[OF assms(1) f] .
  obtain j where j: "uses_prefix (g a) (drop k bs) x j"
    using strict_readerD[OF assms(2) g[unfolded k(2)]] by blast
  from uses_prefix_bind[of f bs a k g, OF k(1) this]
  show "\<exists>k. uses_prefix (\<lambda>s. bind_res (f s) (\<lambda>(a, s). g a s)) bs x k" ..
qed

lemma strict_read_full [strict_intros]: "strict_reader (\<lambda>s. read_full s n)"
  unfolding strict_reader_def uses_prefix_def
  by (auto simp: read_full_def stream_of_def cut_error_def min_def split: if_splits intro!: exI[of _ n])

lemma strict_bind_val [strict_intros]:
  "(\<And>a. strict_reader (g a)) \<Longrightarrow> strict_reader (\<lambda>s. bind_res m (\<lambda>a. g a s))"
  by (cases m) (auto intro: strict_intros)

lemma strict_ReadUint64 [strict_intros]: "strict_reader ReadUint64"
  unfolding ReadUint64_def by (intro strict_intros)

lemma strict_ReadID [strict_intros]: "strict_reader ReadID"
  unfolding ReadID_def by (intro strict_intros)

lemma strict_ReadHeader [strict_intros]: "strict_reader ReadHeader"
  unfolding ReadHeader_def by (intro strict_intros)

lemma strict_goodbye_items [strict_intros]: "strict_reader (read_goodbye_items n)"
proof (induction n)
  case 0
  then show ?case by (simp add: strict_intros)
next
  case (Suc n)
  then show ?case unfolding read_goodbye_items.simps by (intro strict_intros)
qed

lemma read_table_items_prefix:
  "read_table_items (stream_of bs) = Ok (x, s') \<Longrightarrow> \<exists>k. uses_prefix read_table_items bs x k"
proof (induction "length bs" arbitrary: bs x s' rule: less_induct)
  case less
  define rest where "rest = (\<lambda>off s1. if off = (0 :: u64) then Ok ([], s1)
       else bind_res (ReadID s1) (\<lambda>(c, s2). bind_res (read_table_items s2) (\<lambda>(is, s3).
              Ok (\<lparr>ti_offset = off, ti_chunk = c\<rparr> # is, s3))))"
  have unfold: "read_table_items = (\<lambda>s. bind_res (ReadUint64 s) (\<lambda>(off, s). rest off s))"
    unfolding rest_def by (rule ext, subst read_table_items.simps) simp
  obtain off s1 where u: "ReadUint64 (stream_of bs) = Ok (off, s1)" and r: "rest off s1 = Ok (x, s')"
    using less.prems by (subst (asm) unfold) (auto simp: res_simps)
  obtain k where k: "uses_prefix ReadUint64 bs off k" "s1 = stream_of (drop k bs)"
    using strict_readerD[OF strict_ReadUint64 u] .
  have "\<exists>j. uses_prefix (rest off) (drop k bs) x j"
  proof (cases "off = 0")
    case True
    then show ?thesis using r by (auto simp: rest_def uses_prefix_def intro!: exI[of _ 0])
  next
    case False
    then obtain c s2 its s3 where c: "ReadID s1 = Ok (c, s2)" and i: "read_table_items s2 = Ok (its, s3)"
      and x: "x = \<lparr>ti_offset = off, ti_chunk = c\<rparr> # its"
      using r by (auto simp: rest_def res_simps)
    obtain m where m: "uses_prefix ReadID (drop k bs) c m" "s2 = stream_of (drop m (drop k bs))"
      using strict_readerD[OF strict_ReadID c[unfolded k(2)]] .
    have "length (drop m (drop k bs)) < length bs"
      using ReadUint64_shorter[OF u] ReadID_shorter[OF c] k(2) m(2) by (simp add: stream_of_def)
    from less.hyps[OF this] i m(2) obtain j
      where "uses_prefix read_table_items (drop m (drop k bs)) its j" by blast
    then have "uses_prefix (\<lambda>s. bind_res (read_table_items s) (\<lambda>(is, s3).
              Ok (\<lparr>ti_offset = off, ti_chunk = c\<rparr> # is, s3))) (drop m (drop k bs)) x (j + 0)"
      by (rule uses_prefix_bind) (auto simp: x uses_prefix_def)
    from uses_prefix_bind[of ReadID "drop k bs" c m "\<lambda>c s2. bind_res (read_table_items s2) (\<lambda>(is, s3).
              Ok (\<lparr>ti_offset = off, ti_chunk = c\<rparr> # is, s3))", OF m(1) this] False show ?thesis by (auto simp: rest_def)
  qed
  then show ?case unfolding unfold using uses_prefix_bind[of ReadUint64 bs off k rest, OF k(1)] by blast
qed

lemma strict_table_items [strict_intros]: "strict_reader read_table_items"
  unfolding strict_reader_def using read_table_items_prefix by blast

lemma strict_read_body [strict_intros]: "strict_reader (read_body h u)"
  unfolding read_body_def by (intro strict_intros)

lemma strict_read_name [strict_intros]: "strict_reader (read_name h u)"
  unfolding read_name_def by (intro strict_intros)

lemma strict_decoders [strict_intros]:
  "strict_reader (decode_entry h)" "strict_reader (decode_goodbye h)" "strict_reader (decode_index h)"
  "strict_reader (decode_table h)" "strict_reader (decode_acl mk h)" "strict_reader (decode_acl_default h)"
  "strict_reader (decode_device h)" "strict_reader (decode_name mk' h)"
  unfolding decode_entry_def decode_goodbye_def decode_index_def decode_table_def decode_acl_def
    decode_acl_default_def decode_device_def decode_name_def Let_def
  by (intro strict_intros)+

text \<open>The body of an element that is not a payload.\<close>

definition decode_plain :: "FormatHeader \<Rightarrow> stream \<Rightarrow> (format_element \<times> stream) res" where
  "decode_plain h s = bind_res (decode_elem h s) (\<lambda>(e, d). Ok (e, d_stream d))"

lemma bind_plain:
  "bind_res (bind_res r (\<lambda>(e, s). Ok (e, \<lparr>d_stream = s, d_advance = None\<rparr>))) (\<lambda>(e, d). Ok (e, d_stream d)) = r"
  by (cases r) auto

lemma strict_decode_plain [strict_intros]: "h_type h \<noteq> CaFormatPayload \<Longrightarrow> strict_reader (decode_plain h)"
  unfolding decode_plain_def decode_elem_def Let_def
  by (simp only: bind_plain if_distrib[of "\<lambda>r. bind_res r f" for f] bind_res.simps) (intro strict_intros, simp)

lemma decode_elem_cut:
  assumes "wf_element v" "h_type (header_of v) \<noteq> CaFormatPayload" "n < length (body_bytes v)"
  shows "cut_error (decode_elem (header_of v) (stream_of (take n (body_bytes v))))"
proof -
  obtain d where d: "decode_elem (header_of v) (stream_of (body_bytes v)) = Ok (v, d)" "drain d = stream_of []"
    using decode_elem_body[OF assms(1), of "[]" EOF] by (auto simp: stream_of_def)
  then have p: "decode_plain (header_of v) (stream_of (body_bytes v)) = Ok (v, d_stream d)"
    by (simp add: decode_plain_def)
  have "d_advance d = None"
    using d(1) assms(2) by (auto simp: decode_elem_def Let_def res_simps split: if_splits)
  then have "d_stream d = stream_of []" using d(2) by (simp add: drain_def)
  moreover obtain k where k: "uses_prefix (decode_plain (header_of v)) (body_bytes v) v k"
    "d_stream d = stream_of (drop k (body_bytes v))"
    using strict_readerD[OF strict_decode_plain[OF assms(2)] p] .
  ultimately have "length (body_bytes v) \<le> k" by (simp add: stream_of_def)
  then have "cut_error (decode_plain (header_of v) (stream_of (take n (body_bytes v))))"
    using uses_prefix_cut[OF k(1), of n] assms(3) by simp
  then show ?thesis unfolding decode_plain_def
    by (cases "decode_elem (header_of v) (stream_of (take n (body_bytes v)))") (auto simp: cut_error_def)
qed

lemma ReadHeader_cut:
  "n < 16 \<Longrightarrow> 16 \<le> length bs \<Longrightarrow> ReadHeader (stream_of (take n bs)) = Err (if n = 0 \<or> n = 8 then EOF else ErrUnexpectedEOF)"
  by (auto simp: ReadHeader_def ReadUint64_def read_full_def stream_of_def)

lemma Next_truncated:
  assumes "wf_element v" "h_type (header_of v) \<noteq> CaFormatPayload \<or> n < 16" "n < length (encode_bytes v)"
  shows "FormatDecoder_Next (NewFormatDecoder (stream_of (take n (encode_bytes v)))) =
     (if n = 0 \<or> n = 8 then Ok (None, NewFormatDecoder (stream_of [])) else Err ErrUnexpectedEOF) \<or>
     (16 \<le> n \<and> FormatDecoder_Next (NewFormatDecoder (stream_of (take n (encode_bytes v)))) = Err EOF)"
proof (cases "n < 16")
  case True
  then have "ReadHeader (stream_of (take n (encode_bytes v))) = Err (if n = 0 \<or> n = 8 then EOF else ErrUnexpectedEOF)"
    by (rule ReadHeader_cut) (simp add: encode_bytes_split)
  with True show ?thesis
    by (auto simp: FormatDecoder_Next_def NewFormatDecoder_def drain_def Let_def stream_of_def)
next
  case False
  then have t: "take n (encode_bytes v) = words (hdr_words (header_of v)) @ take (n - 16) (body_bytes v)"
    and l: "n - 16 < length (body_bytes v)" using assms(3) by (auto simp: encode_bytes_split)
  have "ReadHeader (stream_of (take n (encode_bytes v)))
      = Ok (header_of v, stream_of (take (n - 16) (body_bytes v)))"
    by (simp add: t stream_of_def read_simps)
  with decode_elem_cut[OF assms(1) _ l] assms(2) False show ?thesis
    by (auto simp: FormatDecoder_Next_def NewFormatDecoder_def drain_def Let_def cut_error_def)
qed

section \<open>Properties of the element format\<close>

text \<open>A caller that writes elements one after the other, and one that reads until the end.\<close>

definition encode_all :: "'w write_fn \<Rightarrow> format_element list \<Rightarrow> 'w \<Rightarrow> nat \<times> go_error option \<times> 'w" where
  "encode_all wr vs w = fold (\<lambda>v r. then_write r (\<lambda>w. Encode wr w v)) vs (0, None, w)"

fun read_elements :: "nat \<Rightarrow> FormatDecoder \<Rightarrow> format_element list res" where
  "read_elements 0 d = Err (Errorf ''out of fuel'')"
| "read_elements (Suc n) d =
     bind_res (FormatDecoder_Next d) (\<lambda>(e, d). case e of
        None \<Rightarrow> Ok []
      | Some v \<Rightarrow> bind_res (read_elements n d) (\<lambda>vs. Ok (v # vs)))"

definition sample_elements :: "format_element list" where
  "sample_elements = [FormatEntry \<lparr>h_size = 64, h_type = CaFormatEntry\<rparr> 0 0 0 1000 (-1) 5,
     FormatFilename \<lparr>h_size = 18, h_type = CaFormatFilename\<rparr> ''a'',
     FormatPayload \<lparr>h_size = 18, h_type = CaFormatPayload\<rparr> (stream_of [1, 2]),
     FormatGoodbye \<lparr>h_size = 40, h_type = CaFormatGoodbye\<rparr>
       [\<lparr>gi_offset = 0, gi_size = 40, gi_hash = CaFormatGoodbyeTailMarker\<rparr>]]"

lemma wf_source_ok: "wf_element v \<Longrightarrow> source_ok v"
  by (cases v) (auto simp: list_all_iff)

context byte_writer begin

lemma wrote_encode_all:
  assumes "list_all source_ok vs"
  shows "wrote w (concat (map encode_bytes vs)) (encode_all wr vs w)"
proof -
  have "wrote w bs r \<Longrightarrow> wrote w (bs @ concat (map encode_bytes vs))
      (fold (\<lambda>v r. then_write r (\<lambda>w. Encode wr w v)) vs r)" for bs r
    using assms
  proof (induction vs arbitrary: bs r)
    case (Cons v vs)
    have "wrote w (bs @ encode_bytes v) (then_write r (\<lambda>w. Encode wr w v))"
      using Cons.prems by (auto intro: wrote_then wrote_Encode)
    from Cons.IH[OF this] Cons.prems show ?case by simp
  qed simp
  from this[of "[]" "(0, None, w)"] show ?thesis by (simp add: encode_all_def wrote_def)
qed

end

context reliable_writer begin

lemma succeeds_encode_all:
  assumes "good w" "list_all source_ok vs"
  shows "succeeds (encode_all wr vs w)"
  unfolding encode_all_def using assms
  by (intro succeeds_fold succeeds_then succeeds_Encode) (auto simp: succeeds_def list_all_iff)

end

lemma encode_all_sink:
  assumes "list_all source_ok vs" "sk_room w = None"
  shows "\<exists>w'. encode_all sink_write vs w = (length (concat (map encode_bytes vs)), None, w') \<and>
     sk_out w' = sk_out w @ concat (map encode_bytes vs) \<and> sk_room w' = None"
  using snk.wrote_encode_all[OF assms(1), of w] snk.succeeds_encode_all[OF assms(2,1)]
  by (cases "encode_all sink_write vs w") (auto simp: snk.wrote_def snk.succeeds_def)

lemma read_elements_bytes:
  assumes "list_all wf_element vs" "drain d = stream_of (concat (map encode_bytes vs))"
  shows "read_elements (Suc (length vs)) d = Ok vs"
  using assms
proof (induction vs arbitrary: d)
  case Nil
  then show ?case
    by (simp add: FormatDecoder_Next_def ReadHeader_def ReadUint64_def read_full_def stream_of_def)
next
  case (Cons v vs)
  then obtain d' where "FormatDecoder_Next d = Ok (Some v, d')"
    "drain d' = stream_of (concat (map encode_bytes vs))"
    using Next_encode_bytes[of v d "concat (map encode_bytes vs)" EOF] by (auto simp: stream_of_def)
  with Cons show ?case by simp
qed

lemma drain_NewFormatDecoder [simp]: "drain (NewFormatDecoder s) = s"
  by (simp add: NewFormatDecoder_def drain_def)

lemma drain_payload_read: "drain (snd (payload_read d k)) = drain d"
  by (auto simp: drain_def payload_read_def Let_def min_def split: option.splits)

lemma zero_mode_ok: "go_mode_ok 0"
  by (simp add: go_mode_ok_def go_types_def)

lemma sample_elements_wf: "list_all wf_element sample_elements"
  by (simp add: sample_elements_def body_size_def max_alloc_def zero_mode_ok stream_of_def)

text \<open>
  (C15) Encoding and decoding of elements are inverse: a sequence of elements whose headers announce
  what they hold, encoded one after the other into a writer that accepts everything, is encoded
  without an error, and the decoder returns exactly that sequence from the bytes written, and
  then the end of the stream.
\<close>

theorem format_stream_roundtrip:
  assumes "list_all wf_element vs"
  shows "\<exists>n w. encode_all sink_write vs empty_sink = (n, None, w) \<and> n = length (sk_out w) \<and>
    read_elements (Suc (length vs)) (NewFormatDecoder (stream_of (sk_out w))) = Ok vs"
  using encode_all_sink[of vs empty_sink] assms read_elements_bytes[OF assms]
  by (force simp: list_all_iff wf_source_ok empty_sink_def)

theorem format_stream_roundtrip_witness:
  "list_all wf_element sample_elements \<and>
   (\<exists>n w. encode_all sink_write sample_elements empty_sink = (n, None, w) \<and> n = length (sk_out w) \<and>
     read_elements (Suc (length sample_elements)) (NewFormatDecoder (stream_of (sk_out w)))
       = Ok sample_elements)"
  using format_stream_roundtrip[OF sample_elements_wf] sample_elements_wf by (rule conjI[rotated])

text \<open>
  When the stream ends inside the data of a payload, \<open>Next\<close> hands out a reader that delivers the part
  that is there and then reports a regular end, and the call after it reports the regular end of the
  stream.
\<close>

lemma Next_payload_cut:
  assumes "wf_element (FormatPayload h p)" "16 \<le> n" "n < length (encode_bytes (FormatPayload h p))"
  shows "\<exists>d. FormatDecoder_Next (NewFormatDecoder (stream_of (take n (encode_bytes (FormatPayload h p)))))
       = Ok (Some (FormatPayload h (stream_of (take (n - 16) (s_data p)))), d) \<and>
     FormatDecoder_Next d = Ok (None, NewFormatDecoder (stream_of []))"
proof -
  have sz: "sint (h_size h - 16) = int (length (s_data p))" and ty: "h_type h = CaFormatPayload"
    using assms(1) by (auto simp: unat_of_nat take_bit_nat_eq_self sint_small_u64)
  have t: "take n (encode_bytes (FormatPayload h p)) = words (hdr_words h) @ take (n - 16) (s_data p)"
    and l: "n - 16 < length (s_data p)" using assms(2,3) by auto
  have "ReadHeader (stream_of (take n (encode_bytes (FormatPayload h p))))
      = Ok (h, stream_of (take (n - 16) (s_data p)))"
    by (simp only: t) (simp add: stream_of_def read_simps)
  with sz ty l show ?thesis
    by (auto simp: FormatDecoder_Next_def NewFormatDecoder_def drain_def Let_def decode_elem_def
        ca_consts limited_def stream_of_def ReadHeader_def ReadUint64_def read_full_def)
qed

lemma wf_not_payload: "wf_element v \<Longrightarrow> \<forall>h p. v \<noteq> FormatPayload h p \<Longrightarrow> h_type (header_of v) \<noteq> CaFormatPayload"
  by (cases v) (auto simp: ca_consts)

text \<open>
  (C24) What \<open>Next\<close> makes of the encoding of any element that is cut after \<open>n\<close> bytes. After no byte and after
  exactly eight, in the middle of the header, it reports the regular end of the stream. Inside the
  data of a payload it does not notice: it hands out the payload with the part that is there, and the
  call after it reports the regular end. Everywhere else it returns an end-of-input error and no
  element.
\<close>

theorem format_truncated:
  assumes "wf_element v" "n < length (encode_bytes v)"
    "r = FormatDecoder_Next (NewFormatDecoder (stream_of (take n (encode_bytes v))))"
  shows "if n = 0 \<or> n = 8 then r = Ok (None, NewFormatDecoder (stream_of []))
     else case v of
       FormatPayload h p \<Rightarrow>
         if 16 \<le> n then \<exists>d. r = Ok (Some (FormatPayload h (stream_of (take (n - 16) (s_data p)))), d) \<and>
            FormatDecoder_Next d = Ok (None, NewFormatDecoder (stream_of []))
         else r = Err ErrUnexpectedEOF
     | _ \<Rightarrow> r = Err ErrUnexpectedEOF \<or> 16 \<le> n \<and> r = Err EOF"
proof (cases "\<exists>h p. v = FormatPayload h p \<and> 16 \<le> n")
  case True
  then show ?thesis using Next_payload_cut assms by auto
next
  case False
  then have "h_type (header_of v) \<noteq> CaFormatPayload \<or> n < 16" using wf_not_payload[OF assms(1)] by auto
  from Next_truncated[OF assms(1) this assms(2)] assms(3) False show ?thesis
    by (auto split: if_splits format_element.splits)
qed

theorem format_truncated_witness:
  "let v = FormatFilename \<lparr>h_size = 18, h_type = CaFormatFilename\<rparr> ''a'';
       r = FormatDecoder_Next (NewFormatDecoder (stream_of (take 17 (encode_bytes v))))
   in r = Err ErrUnexpectedEOF \<or> r = Err EOF"
  using format_truncated[of "FormatFilename \<lparr>h_size = 18, h_type = CaFormatFilename\<rparr> ''a''" 17, OF _ _ refl]
  by (simp add: body_size_def max_alloc_def ca_consts name_bytes_def Let_def)

text \<open>
  However much of a payload the caller reads before it asks for the next element, the decoder
  finds the same next element: \<open>Next\<close> skips what is left.
\<close>

theorem format_payload_skip:
  "FormatDecoder_Next (snd (payload_read d k)) = FormatDecoder_Next d"
  by (simp add: FormatDecoder_Next_def drain_payload_read)

text \<open>
  \<open>Encode\<close> into a buffered writer, whatever the capacity of what is below it: what has been
  written is what it reports, a prefix of the encoding, and it is the whole encoding unless an
  error is reported.
\<close>

theorem format_encode_prefix:
  assumes "source_ok v" "Encode bufio_write b v = (n, e, b')"
  shows "n \<le> length (encode_bytes v) \<and> bufio_contents b' = bufio_contents b @ take n (encode_bytes v) \<and>
     (e = None \<longrightarrow> n = length (encode_bytes v))"
  using bio.wrote_Encode[OF assms(1), of b] assms(2) by (simp add: bio.wrote_def)

theorem format_encode_prefix_witness:
  "let v = FormatACLGroupObj \<lparr>h_size = 24, h_type = CaFormatACLGroupObj\<rparr> 7;
       b = NewWriter \<lparr>sk_out = [], sk_room = Some 3\<rparr>
   in case Encode bufio_write b v of (n, e, b') \<Rightarrow>
     n \<le> length (encode_bytes v) \<and> bufio_contents b' = bufio_contents b @ take n (encode_bytes v) \<and>
     (e = None \<longrightarrow> n = length (encode_bytes v))"
  using format_encode_prefix[of "FormatACLGroupObj \<lparr>h_size = 24, h_type = CaFormatACLGroupObj\<rparr> 7"
      "NewWriter \<lparr>sk_out = [], sk_room = Some 3\<rparr>"]
  by (simp add: Let_def split: prod.split)

text \<open>
  An element with a name whose header announces no body at all, not even the terminating NUL
  byte, makes the decoder panic, for each of the six kinds of names.
\<close>

theorem format_empty_name_panics:
  assumes "ty \<in> {CaFormatUser, CaFormatGroup, CaFormatXAttr, CaFormatSELinux, CaFormatFilename, CaFormatSymlink}"
  shows "FormatDecoder_Next (NewFormatDecoder (stream_of (words (hdr_words \<lparr>h_size = 16, h_type = ty\<rparr>) @ rest)))
     = Panic ''slice bounds out of range [:-1]''"
proof -
  have "read_name \<lparr>h_size = 16, h_type = ty\<rparr> 16 s = Panic ''slice bounds out of range [:-1]''" for s
    by (simp add: read_name_def read_body_def make_bytes_def max_alloc_def read_full_def strip_nul_def)
  then have "decode_elem \<lparr>h_size = 16, h_type = ty\<rparr> s = Panic ''slice bounds out of range [:-1]''" for s
    using assms by (elim insertE emptyE) (simp_all add: decode_elem_def decode_name_def ca_consts)
  then show ?thesis by (simp add: FormatDecoder_Next_def stream_of_def read_simps)
qed

theorem format_empty_name_panics_witness:
  "FormatDecoder_Next (NewFormatDecoder (stream_of (words (hdr_words \<lparr>h_size = 16, h_type = CaFormatFilename\<rparr>) @ [])))
     = Panic ''slice bounds out of range [:-1]''"
  by (rule format_empty_name_panics) simp

end
