(* ===== verification/Index.thy ===== *)
theory Index
  imports Format_Props
begin

text \<open>
  Index files (\<^verbatim>\<open>src/index.go\<close>): the table of the chunks a blob is made of. \<open>IndexFromReader\<close>
  turns the end offsets of the table into the start and size of every chunk and checks the digest
  and the sizes; \<open>WriteTo\<close> goes the other way through a buffered writer.
\<close>

section \<open>The model\<close>

text \<open>The digest algorithms of \<^verbatim>\<open>src/digest.go\<close>.\<close>

datatype hash_algorithm = SHA512256 | SHA256

record IndexChunk =
  ic_id :: chunk_id
  ic_start :: u64
  ic_size :: u64

record Index =
  idx_index :: FormatIndex
  idx_chunks :: "IndexChunk list"

definition check_digest :: "hash_algorithm \<Rightarrow> u64 \<Rightarrow> unit res" where
  "check_digest digest flags =
     (case digest of
        SHA512256 \<Rightarrow> if flags AND CaFormatSHA512256 = 0 then Err (Errorf ''index file uses SHA256'') else Ok ()
      | SHA256 \<Rightarrow> if flags AND CaFormatSHA512256 \<noteq> 0 then Err (Errorf ''index file uses SHA512-256'') else Ok ())"

text \<open>The loop that converts the table; the subtraction wraps as Go's does.\<close>

fun chunks_of_table :: "u64 \<Rightarrow> u64 \<Rightarrow> FormatTableItem list \<Rightarrow> IndexChunk list res" where
  "chunks_of_table mx lastOffset [] = Ok []"
| "chunks_of_table mx lastOffset (r # rs) =
     (let c = \<lparr>ic_id = ti_chunk r, ic_start = lastOffset, ic_size = ti_offset r - lastOffset\<rparr>
      in if ic_size c > mx then Err (Errorf ''chunk size %d is larger than maximum %d'')
         else bind_res (chunks_of_table mx (ti_offset r) rs) (\<lambda>cs. Ok (c # cs)))"

definition wrap :: "string \<Rightarrow> 'a res \<Rightarrow> 'a res" where
  "wrap msg r = (case r of Err e \<Rightarrow> Err (Wrapped msg e) | _ \<Rightarrow> r)"

text \<open>The type assertions \<open>e.(FormatIndex)\<close> and \<open>e.(FormatTable)\<close>; a nil interface fails both.\<close>

definition as_index :: "format_element option \<Rightarrow> FormatIndex option" where
  "as_index e = (case e of Some (FormatIndexElem ix) \<Rightarrow> Some ix | _ \<Rightarrow> None)"

definition as_table :: "format_element option \<Rightarrow> FormatTableItem list option" where
  "as_table e = (case e of Some (FormatTable h items) \<Rightarrow> Some items | _ \<Rightarrow> None)"

definition IndexFromReader :: "hash_algorithm \<Rightarrow> stream \<Rightarrow> Index res" where
  "IndexFromReader digest s =
     bind_res (wrap ''reading index'' (FormatDecoder_Next (NewFormatDecoder s))) (\<lambda>(e, d).
     case as_index e of
       None \<Rightarrow> Err (Errorf ''input is not an index file'')
     | Some ix \<Rightarrow>
         bind_res (check_digest digest (FeatureFlags ix)) (\<lambda>_.
         bind_res (wrap ''reading chunk table'' (FormatDecoder_Next d)) (\<lambda>(e, d).
         case as_table e of
           None \<Rightarrow> Err (Errorf ''index table not found in input'')
         | Some items \<Rightarrow>
             bind_res (chunks_of_table (ChunkSizeMax ix) 0 items) (\<lambda>cs.
               Ok \<lparr>idx_index = ix, idx_chunks = cs\<rparr>))))"

fun table_of_chunks :: "u64 \<Rightarrow> IndexChunk list \<Rightarrow> FormatTableItem list" where
  "table_of_chunks offset [] = []"
| "table_of_chunks offset (c # cs) =
     (let offset = offset + ic_size c
      in \<lparr>ti_offset = offset, ti_chunk = ic_id c\<rparr> # table_of_chunks offset cs)"

definition index_element :: "Index \<Rightarrow> format_element" where
  "index_element i = FormatIndexElem \<lparr>fi_hdr = \<lparr>h_size = 48, h_type = CaFormatIndex\<rparr>,
     FeatureFlags = FeatureFlags (idx_index i), ChunkSizeMin = ChunkSizeMin (idx_index i),
     ChunkSizeAvg = ChunkSizeAvg (idx_index i), ChunkSizeMax = ChunkSizeMax (idx_index i)\<rparr>"

definition table_element :: "Index \<Rightarrow> format_element" where
  "table_element i = FormatTable \<lparr>h_size = - 1, h_type = CaFormatTable\<rparr> (table_of_chunks 0 (idx_chunks i))"

definition Index_WriteTo :: "Index \<Rightarrow> sink \<Rightarrow> nat \<times> go_error option \<times> sink" where
  "Index_WriteTo i w =
     (case Encode bufio_write (NewWriter w) (index_element i) of (n, err, bw) \<Rightarrow>
        if err \<noteq> None then (n, err, bw_sink bw)
        else case Encode bufio_write bw (table_element i) of (n1, err, bw) \<Rightarrow>
          case bufio_flush bw of (ferr, bw) \<Rightarrow>
            (n + n1, (if ferr \<noteq> None then ferr else err), bw_sink bw))"

definition Index_Length :: "Index \<Rightarrow> int" where
  "Index_Length i =
     (if idx_chunks i = [] then 0
      else let lastChunk = last (idx_chunks i) in sint (ic_start lastChunk + ic_size lastChunk))"

section \<open>Well-formed indexes\<close>

text \<open>The chunks follow each other from \<open>start\<close> on, and none is larger than \<open>mx\<close>.\<close>

fun contiguous :: "u64 \<Rightarrow> u64 \<Rightarrow> IndexChunk list \<Rightarrow> bool" where
  "contiguous mx start [] \<longleftrightarrow> True"
| "contiguous mx start (c # cs) \<longleftrightarrow>
     ic_start c = start \<and> ic_size c \<le> mx \<and> contiguous mx (start + ic_size c) cs"

definition total_size :: "IndexChunk list \<Rightarrow> nat" where
  "total_size cs = sum_list (map (\<lambda>c. unat (ic_size c)) cs)"

definition wf_index :: "hash_algorithm \<Rightarrow> Index \<Rightarrow> bool" where
  "wf_index digest i \<longleftrightarrow>
     fi_hdr (idx_index i) = \<lparr>h_size = 48, h_type = CaFormatIndex\<rparr> \<and>
     (digest = SHA512256 \<longleftrightarrow> FeatureFlags (idx_index i) AND CaFormatSHA512256 \<noteq> 0) \<and>
     contiguous (ChunkSizeMax (idx_index i)) 0 (idx_chunks i) \<and>
     list_all (\<lambda>c. is_chunk_id (ic_id c) \<and> ic_size c \<noteq> 0) (idx_chunks i) \<and>
     total_size (idx_chunks i) < 2 ^ 64"

text \<open>The bytes of an index file.\<close>

definition index_bytes :: "Index \<Rightarrow> bytes" where
  "index_bytes i = encode_bytes (index_element i) @ encode_bytes (table_element i)"

lemma chunks_of_table_of_chunks:
  "contiguous mx start cs \<Longrightarrow> chunks_of_table mx start (table_of_chunks start cs) = Ok cs"
  by (induction cs arbitrary: start) (simp_all add: Let_def not_less)

lemma chunks_of_table_contiguous:
  "chunks_of_table mx start items = Ok cs \<Longrightarrow> contiguous mx start cs \<and> map ic_id cs = map ti_chunk items"
  by (induction items arbitrary: start cs) (auto simp: Let_def res_simps not_less split: if_splits)

lemma table_offsets_nonzero:
  "unat start + total_size cs < 2 ^ 64 \<Longrightarrow> list_all (\<lambda>c. ic_size c \<noteq> 0) cs \<Longrightarrow>
   list_all (\<lambda>i. ti_offset i \<noteq> 0) (table_of_chunks start cs)"
proof (induction cs arbitrary: start)
  case (Cons c cs)
  have u: "unat (start + ic_size c) = unat start + unat (ic_size c)"
    using Cons.prems(1) by (intro unat_add_small) (simp add: total_size_def)
  moreover have "unat (ic_size c) \<noteq> 0" using Cons.prems(2) by (simp add: unat_eq_0)
  ultimately have "unat (start + ic_size c) \<noteq> 0" by simp
  then have "start + ic_size c \<noteq> 0" by (metis unat_0)
  then show ?case using Cons.IH[of "start + ic_size c"] Cons.prems u by (simp add: total_size_def Let_def)
qed simp

lemma table_chunk_ids: "list_all (\<lambda>i. P (ti_chunk i)) (table_of_chunks start cs) \<longleftrightarrow> list_all (\<lambda>c. P (ic_id c)) cs"
  by (induction cs arbitrary: start) (simp_all add: Let_def)

lemma source_ok_index:
  "list_all (\<lambda>c. is_chunk_id (ic_id c)) (idx_chunks i) \<Longrightarrow> source_ok (index_element i) \<and> source_ok (table_element i)"
  by (simp add: index_element_def table_element_def table_chunk_ids)

lemma wf_index_elements:
  assumes "wf_index digest i"
  shows "wf_element (index_element i)" "wf_element (table_element i)"
proof -
  show "wf_element (index_element i)" by (simp add: index_element_def)
  have "list_all (\<lambda>i. ti_offset i \<noteq> 0) (table_of_chunks 0 (idx_chunks i))"
    using assms table_offsets_nonzero[of 0 "idx_chunks i"] by (auto simp: wf_index_def list_all_iff)
  moreover have "list_all (\<lambda>c. is_chunk_id (ic_id c)) (idx_chunks i)"
    using assms by (auto simp: wf_index_def list_all_iff)
  then have "list_all (\<lambda>i. is_chunk_id (ti_chunk i)) (table_of_chunks 0 (idx_chunks i))"
    by (simp add: table_chunk_ids)
  ultimately show "wf_element (table_element i)" by (auto simp: table_element_def list_all_iff)
qed

lemma IndexFromReader_bytes:
  assumes "wf_index digest i"
  shows "IndexFromReader digest (stream_of (index_bytes i)) = Ok i"
proof -
  obtain d where d: "FormatDecoder_Next (NewFormatDecoder (stream_of (index_bytes i))) = Ok (Some (index_element i), d)"
    "drain d = stream_of (encode_bytes (table_element i))"
    using Next_encode_bytes[OF wf_index_elements(1)[OF assms], of "NewFormatDecoder (stream_of (index_bytes i))" "encode_bytes (table_element i)" EOF]
    by (auto simp: index_bytes_def stream_of_def)
  obtain d' where d': "FormatDecoder_Next d = Ok (Some (table_element i), d')"
    using Next_encode_bytes[OF wf_index_elements(2)[OF assms], of d "[]" EOF] d(2)
    by (auto simp: stream_of_def)
  have "check_digest digest (FeatureFlags (idx_index i)) = Ok ()"
    using assms by (cases digest) (auto simp: check_digest_def wf_index_def)
  moreover have "chunks_of_table (ChunkSizeMax (idx_index i)) 0 (table_of_chunks 0 (idx_chunks i)) = Ok (idx_chunks i)"
    using assms by (simp add: wf_index_def chunks_of_table_of_chunks)
  moreover have "\<lparr>fi_hdr = \<lparr>h_size = 48, h_type = CaFormatIndex\<rparr>,
     FeatureFlags = FeatureFlags (idx_index i), ChunkSizeMin = ChunkSizeMin (idx_index i),
     ChunkSizeAvg = ChunkSizeAvg (idx_index i), ChunkSizeMax = ChunkSizeMax (idx_index i)\<rparr> = idx_index i"
    using assms by (simp add: wf_index_def)
  ultimately show ?thesis
    using d(1) d'(1) by (simp add: IndexFromReader_def wrap_def index_element_def table_element_def as_index_def as_table_def)
qed

section \<open>Writing an index\<close>

lemma WriteTo_contents:
  assumes "list_all (\<lambda>c. is_chunk_id (ic_id c)) (idx_chunks i)" "Index_WriteTo i w = (n, e, w')"
  shows "(\<exists>rest. sk_out w' @ rest = sk_out w @ index_bytes i) \<and>
     (e = None \<longrightarrow> n = length (index_bytes i) \<and> sk_out w' = sk_out w @ index_bytes i)"
proof -
  obtain n0 e0 b0 where r0: "Encode bufio_write (NewWriter w) (index_element i) = (n0, e0, b0)"
    by (cases "Encode bufio_write (NewWriter w) (index_element i)")
  have w0: "bio.wrote (NewWriter w) (encode_bytes (index_element i)) (n0, e0, b0)"
    using bio.wrote_Encode[of "index_element i" "NewWriter w"] source_ok_index[OF assms(1)] r0 by simp
  have new: "bufio_contents (NewWriter w) = sk_out w" by (simp add: bufio_contents_def NewWriter_def)
  have pre: "\<exists>rest. sk_out (bw_sink b) @ rest = sk_out w @ bs" if "bio.wrote (NewWriter w) bs (m, x, b)" for bs m x b
    using that new unfolding bio.wrote_def bufio_contents_def
    by simp (metis append.assoc append_take_drop_id)
  show ?thesis
  proof (cases e0)
    case (Some x)
    then show ?thesis using assms(2) r0 pre[OF bio.wrote_fail[OF w0[unfolded Some], of "encode_bytes (table_element i)"]]
      by (auto simp: Index_WriteTo_def index_bytes_def)
  next
    case None
    obtain n1 e1 b1 where r1: "Encode bufio_write b0 (table_element i) = (n1, e1, b1)"
      by (cases "Encode bufio_write b0 (table_element i)")
    obtain fe b2 where fl: "bufio_flush b1 = (fe, b2)" by (cases "bufio_flush b1")
    have "bio.wrote b0 (encode_bytes (table_element i)) (n1, e1, b1)"
      using bio.wrote_Encode[of "table_element i" b0] source_ok_index[OF assms(1)] r1 by simp
    from bio.wrote_seq[OF w0[unfolded None] this]
    have "bio.wrote (NewWriter w) (index_bytes i) (n0 + n1, e1, b1)" by (simp add: index_bytes_def)
    then have w1: "bio.wrote (NewWriter w) (index_bytes i) (n0 + n1, e1, b2)"
      using bufio_flush_contents[OF fl] by (simp add: bio.wrote_def)
    have r: "n = n0 + n1" "e = (if fe \<noteq> None then fe else e1)" "w' = bw_sink b2"
      using assms(2) r0 r1 fl None by (simp_all add: Index_WriteTo_def)
    have "sk_out w' = sk_out w @ index_bytes i \<and> n = length (index_bytes i)" if "e = None"
      using that r w1 new bufio_flush_empties[of b1 b2] fl
      by (auto simp: bio.wrote_def bufio_contents_def split: if_splits)
    with pre[OF w1] r(3) show ?thesis by blast
  qed
qed

lemma WriteTo_succeeds:
  assumes "list_all (\<lambda>c. is_chunk_id (ic_id c)) (idx_chunks i)" "sk_room w = None"
  shows "fst (snd (Index_WriteTo i w)) = None"
proof -
  have "bufio_good (NewWriter w)" using assms(2) by (simp add: bufio_good_def NewWriter_def)
  from bio.succeeds_Encode[OF this, of "index_element i"] source_ok_index[OF assms(1)]
  obtain n0 b0 where r0: "Encode bufio_write (NewWriter w) (index_element i) = (n0, None, b0)" "bufio_good b0"
    by (cases "Encode bufio_write (NewWriter w) (index_element i)") (auto simp: bio.succeeds_def)
  from bio.succeeds_Encode[OF this(2), of "table_element i"] source_ok_index[OF assms(1)]
  obtain n1 b1 where r1: "Encode bufio_write b0 (table_element i) = (n1, None, b1)" "bufio_good b1"
    by (cases "Encode bufio_write b0 (table_element i)") (auto simp: bio.succeeds_def)
  then show ?thesis using r0 by (simp add: Index_WriteTo_def bufio_flush_good bufio_good_def)
qed

lemma contiguous_start:
  assumes "contiguous mx start cs" "unat start + total_size cs < 2 ^ 64" "k < length cs"
  shows "unat (ic_start (cs ! k)) = unat start + total_size (take k cs)"
  using assms
proof (induction cs arbitrary: start k)
  case (Cons c cs)
  have u: "unat (start + ic_size c) = unat start + unat (ic_size c)"
    using Cons.prems(2) by (intro unat_add_small) (simp add: total_size_def)
  then show ?case using Cons.IH[of "start + ic_size c" "k - 1"] Cons.prems
    by (cases k) (simp_all add: total_size_def)
qed simp

lemma contiguous_size: "contiguous mx start cs \<Longrightarrow> k < length cs \<Longrightarrow> ic_size (cs ! k) \<le> mx"
  by (induction cs arbitrary: start k) (auto simp: nth_Cons split: nat.splits)

lemma contiguous_total:
  "contiguous mx start cs \<Longrightarrow> total_size cs \<le> length cs * unat mx"
proof (induction cs arbitrary: start)
  case (Cons c cs)
  have "unat (ic_size c) \<le> unat mx" using Cons.prems by (simp add: word_le_nat_alt)
  then show ?case using Cons.IH[of "start + ic_size c"] Cons.prems by (simp add: total_size_def)
qed (simp add: total_size_def)

lemma contiguous_Length:
  assumes "contiguous mx start cs" "cs \<noteq> []"
  shows "ic_start (last cs) + ic_size (last cs) = start + word_of_nat (total_size cs)"
  using assms by (induction cs arbitrary: start) (auto simp: total_size_def)

lemma IndexFromReader_Ok:
  assumes "IndexFromReader digest s = Ok i"
  shows "contiguous (ChunkSizeMax (idx_index i)) 0 (idx_chunks i) \<and>
     check_digest digest (FeatureFlags (idx_index i)) = Ok ()"
  using assms chunks_of_table_contiguous
  by (fastforce simp: IndexFromReader_def res_simps split: option.splits)

section \<open>Properties\<close>

definition sample_index :: Index where
  "sample_index = \<lparr>idx_index = \<lparr>fi_hdr = \<lparr>h_size = 48, h_type = CaFormatIndex\<rparr>,
     FeatureFlags = CaFormatExcludeNoDump OR CaFormatSHA512256, ChunkSizeMin = 16, ChunkSizeAvg = 64,
     ChunkSizeMax = 256\<rparr>,
     idx_chunks = [\<lparr>ic_id = replicate 32 1, ic_start = 0, ic_size = 100\<rparr>,
       \<lparr>ic_id = replicate 32 2, ic_start = 100, ic_size = 7\<rparr>]\<rparr>"

lemma sample_index_wf: "wf_index SHA512256 sample_index"
  by (simp add: wf_index_def sample_index_def total_size_def is_chunk_id_def chunk_id_len_def ca_consts)

lemma WriteTo_read_back:
  assumes "wf_index digest i"
  shows "\<exists>n w. Index_WriteTo i empty_sink = (n, None, w) \<and> n = length (sk_out w) \<and>
     IndexFromReader digest (stream_of (sk_out w)) = Ok i"
proof -
  have ids: "list_all (\<lambda>c. is_chunk_id (ic_id c)) (idx_chunks i)"
    using assms by (auto simp: wf_index_def list_all_iff)
  obtain n e w where r: "Index_WriteTo i empty_sink = (n, e, w)" by (cases "Index_WriteTo i empty_sink")
  then have "e = None" using WriteTo_succeeds[OF ids, of empty_sink] by (simp add: empty_sink_def)
  with WriteTo_contents[OF ids r] r IndexFromReader_bytes[OF assms] show ?thesis
    by (simp add: empty_sink_def)
qed

text \<open>
  (C21) Writing and reading an index are inverse: an index with contiguous, non-empty chunks within
  the maximum size, for the digest in use, is written without error to a writer that accepts
  everything, the count returned is the number of bytes written, and reading them back gives the
  same index.
\<close>

theorem index_roundtrip:
  assumes "wf_index digest i"
  shows "\<exists>n w. Index_WriteTo i empty_sink = (n, None, w) \<and> n = length (sk_out w) \<and>
     IndexFromReader digest (stream_of (sk_out w)) = Ok i"
  using assms by (rule WriteTo_read_back)

theorem index_roundtrip_witness:
  "\<exists>n w. Index_WriteTo sample_index empty_sink = (n, None, w) \<and> n = length (sk_out w) \<and>
     IndexFromReader SHA512256 (stream_of (sk_out w)) = Ok sample_index"
  by (rule index_roundtrip[OF sample_index_wf])

text \<open>
  A write of an index that fails, at any point, leaves in the file a prefix of the index, and
  a write that reports no error has written all of it, flush included.
\<close>

theorem index_write_prefix:
  assumes "list_all (\<lambda>c. is_chunk_id (ic_id c)) (idx_chunks i)" "Index_WriteTo i w = (n, e, w')"
  shows "(\<exists>rest. sk_out w' @ rest = sk_out w @ index_bytes i) \<and>
     (e = None \<longrightarrow> n = length (index_bytes i) \<and> sk_out w' = sk_out w @ index_bytes i)"
  using WriteTo_contents[OF assms] .

theorem index_write_prefix_witness:
  "case Index_WriteTo sample_index \<lparr>sk_out = [], sk_room = Some 60\<rparr> of (n, e, w') \<Rightarrow>
     (\<exists>rest. sk_out w' @ rest = [] @ index_bytes sample_index) \<and>
     (e = None \<longrightarrow> n = length (index_bytes sample_index) \<and> sk_out w' = [] @ index_bytes sample_index)"
  using index_write_prefix[of sample_index "\<lparr>sk_out = [], sk_room = Some 60\<rparr>"]
  by (auto simp: sample_index_def is_chunk_id_def chunk_id_len_def split: prod.split)

lemma contiguous_Index_Length:
  assumes "contiguous mx 0 (idx_chunks i)" "total_size (idx_chunks i) < 2 ^ 63"
  shows "Index_Length i = int (total_size (idx_chunks i))"
proof (cases "idx_chunks i = []")
  case False
  have "unat (word_of_nat (total_size (idx_chunks i)) :: u64) = total_size (idx_chunks i)"
    using assms(2) by (simp add: unat_of_nat take_bit_nat_eq_self)
  then show ?thesis using False assms(2) contiguous_Length[OF assms(1) False]
      sint_small_u64[of "word_of_nat (total_size (idx_chunks i))"]
    by (simp add: Index_Length_def Let_def)
qed (simp add: Index_Length_def total_size_def)

text \<open>
  (C25) What \<open>IndexFromReader\<close> accepts: the digest of the index is the one in use, no chunk is larger
  than the maximum the index announces, every chunk starts where the one before it ends, and, as
  long as the number of chunks times that maximum fits a 64-bit integer, the start of a chunk is the
  sum of the sizes before it and \<open>Length\<close> is the sum of all of them (if that is below $2^{63}$).
\<close>

theorem index_reader_accepts:
  assumes "IndexFromReader digest s = Ok i"
    "length (idx_chunks i) * unat (ChunkSizeMax (idx_index i)) < 2 ^ 63"
  shows "check_digest digest (FeatureFlags (idx_index i)) = Ok () \<and>
    (\<forall>k < length (idx_chunks i).
       ic_size (idx_chunks i ! k) \<le> ChunkSizeMax (idx_index i) \<and>
       unat (ic_start (idx_chunks i ! k)) = total_size (take k (idx_chunks i))) \<and>
    Index_Length i = int (total_size (idx_chunks i))"
proof -
  have c: "contiguous (ChunkSizeMax (idx_index i)) 0 (idx_chunks i)"
    and d: "check_digest digest (FeatureFlags (idx_index i)) = Ok ()"
    using IndexFromReader_Ok[OF assms(1)] by simp_all
  have t: "total_size (idx_chunks i) < 2 ^ 63" using contiguous_total[OF c] assms(2) by linarith
  then have "unat (ic_start (idx_chunks i ! k)) = total_size (take k (idx_chunks i))"
    if "k < length (idx_chunks i)" for k
    using contiguous_start[OF c _ that] by simp
  moreover have "Index_Length i = int (total_size (idx_chunks i))" using contiguous_Index_Length[OF c t] .
  ultimately show ?thesis using d contiguous_size[OF c] by blast
qed

theorem index_reader_accepts_witness:
  "check_digest SHA512256 (FeatureFlags (idx_index sample_index)) = Ok () \<and>
    unat (ic_start (idx_chunks sample_index ! 1)) = total_size (take 1 (idx_chunks sample_index)) \<and>
    Index_Length sample_index = int (total_size (idx_chunks sample_index))"
proof -
  have "length (idx_chunks sample_index) * unat (ChunkSizeMax (idx_index sample_index)) < 2 ^ 63"
    "1 < length (idx_chunks sample_index)"
    by (simp_all add: sample_index_def)
  then show ?thesis
    using index_reader_accepts[OF IndexFromReader_bytes[OF sample_index_wf]] by blast
qed

end
