(* ===== verification/Divisibility.thy ===== *)
theory Divisibility
  imports Prelude
begin

text \<open>
  The divisibility test of the chunker (\<^verbatim>\<open>src/chunker.go\<close>): whether the rolling hash leaves the
  remainder \<open>d - 1\<close> when divided by the discriminator \<open>d\<close>, decided without a division by the
  method of Lemire, Kaser and Kurz: \<open>d\<close> is split into its odd part and a power of two, and the odd part is
  replaced by its inverse modulo $2^{32}$. This theory holds the arithmetic; the chunker uses it.
\<close>

section \<open>The model\<close>

definition newton_step :: "u32 \<Rightarrow> u32 \<Rightarrow> u32" where
  "newton_step d x = x * (2 - d * x)"

definition modInverse32 :: "u32 \<Rightarrow> u32" where
  "modInverse32 d = (newton_step d ^^ 5) d"

text \<open>\<open>bits.TrailingZeros32\<close>, 32 for zero.\<close>

fun trailing_zeros :: "nat \<Rightarrow> u32 \<Rightarrow> nat" where
  "trailing_zeros 0 x = 0"
| "trailing_zeros (Suc n) x = (if bit x 0 then 0 else Suc (trailing_zeros n (drop_bit 1 x)))"

definition TrailingZeros32 :: "u32 \<Rightarrow> nat" where
  "TrailingZeros32 x = trailing_zeros 32 x"

text \<open>\<open>uint32(((1 << 32) + uint64(oddPart) - 1) / uint64(oddPart))\<close>; panics for zero.\<close>

definition thresh_odd :: "u32 \<Rightarrow> u32 res" where
  "thresh_odd o' =
     (if o' = 0 then Panic ''integer divide by zero''
      else Ok (ucast ((2 ^ 32 + ucast o' - 1 :: u64) div ucast o')))"

definition lemire_test :: "u32 \<Rightarrow> u32 \<Rightarrow> u32 \<Rightarrow> nat \<Rightarrow> u32 \<Rightarrow> u32 \<Rightarrow> bool" where
  "lemire_test inverseOdd threshOdd discMinus1 trailShift trailMask hValue =
     (let adjusted = hValue - discMinus1
      in adjusted AND trailMask = 0 \<and> drop_bit trailShift adjusted * inverseOdd < threshOdd)"

section \<open>The inverse modulo \<open>2 ^ 32\<close>\<close>

lemma newton_error: "(d * newton_step d x - 1 :: u32) = - ((d * x - 1) ^ 2)"
  by (simp add: newton_step_def power2_eq_square algebra_simps)

lemma newton_errors: "\<exists>s \<in> {1, - 1}. d * (newton_step d ^^ n) d - 1 = s * (d * d - 1 :: u32) ^ 2 ^ n"
proof (induction n)
  case (Suc n)
  then obtain s where s: "s \<in> {1, - 1 :: u32}" "d * (newton_step d ^^ n) d - 1 = s * (d * d - 1) ^ 2 ^ n" by blast
  have "d * (newton_step d ^^ Suc n) d - 1 = - ((s * (d * d - 1) ^ 2 ^ n) ^ 2)"
    using newton_error[of d "(newton_step d ^^ n) d"] s(2) by simp
  also have "\<dots> = - 1 * (d * d - 1) ^ 2 ^ Suc n"
    using s(1) by (auto simp: power_mult_distrib power_mult mult.commute[of 2] simp flip: power_mult)
  finally show ?case by blast
qed simp

lemma square_pred_dvd_2:
  assumes "odd (d :: u32)" shows "2 dvd d * d - 1"
  using assms by simp

lemma modInverse32_correct:
  assumes "odd d"
  shows "d * modInverse32 d = 1"
proof -
  obtain k where "d * d - 1 = 2 * k" using square_pred_dvd_2[OF assms] unfolding dvd_def by blast
  then have "(d * d - 1) ^ 2 ^ 5 = (2 :: u32) ^ 32 * k ^ 32" by (simp only: power_mult_distrib) simp
  also have "(2 :: u32) ^ 32 = 0" by simp
  finally have "(d * d - 1) ^ 2 ^ 5 = 0" by simp
  with newton_errors[of d 5] have "d * (newton_step d ^^ 5) d - 1 = 0" by auto
  then show ?thesis by (simp add: modInverse32_def)
qed

section \<open>The odd part\<close>

lemma trailing_zeros_spec:
  assumes "unat x < 2 ^ n" "x \<noteq> 0"
  shows "odd (drop_bit (trailing_zeros n x) x) \<and> unat x = unat (drop_bit (trailing_zeros n x) x) * 2 ^ trailing_zeros n x
    \<and> trailing_zeros n x < n"
  using assms
proof (induction n arbitrary: x)
  case (Suc n)
  show ?case
  proof (cases "bit x 0")
    case True
    then show ?thesis by (simp add: bit_0)
  next
    case False
    let ?y = "drop_bit 1 x"
    have u: "unat ?y = unat x div 2" by (simp add: drop_bit_eq_div unat_div)
    have ev: "even (unat x)" using False bit_unsigned_iff[of x 0, where 'a = nat] by (simp add: bit_0)
    then have x: "unat x = 2 * unat ?y" using u by simp
    moreover have "?y \<noteq> 0"
    proof
      assume "?y = 0"
      then have "unat x = 0" using x by simp
      with Suc.prems(2) show False by (simp add: unat_eq_0)
    qed
    ultimately show ?thesis using Suc.IH[of ?y] Suc.prems False by (simp add: drop_bit_drop_bit)
  qed
qed (simp add: unat_eq_0)

lemma TrailingZeros32_spec:
  assumes "x \<noteq> 0"
  defines "s \<equiv> TrailingZeros32 x"
  shows "odd (drop_bit s x)" "unat x = unat (drop_bit s x) * 2 ^ s" "s < 32"
  using trailing_zeros_spec[of x 32] assms by (simp_all add: TrailingZeros32_def)

section \<open>The test\<close>

text \<open>The multiples of an odd number below \<open>2 ^ 32\<close> are those whose product with the inverse is small.\<close>

lemma odd_multiple_iff:
  assumes "o' * i = (1 :: u32)" "1 < unat o'"
  shows "unat (q * i) * unat o' < 2 ^ 32 \<longleftrightarrow> unat o' dvd unat q"
proof
  let ?P = "unat (q * i)"
  have q: "q = (q * i) * o'" using assms(1) by (simp add: mult.assoc mult.commute[of i])
  assume "?P * unat o' < 2 ^ 32"
  then have "unat ((q * i) * o') = ?P * unat o'" by (subst unat_word_ariths) simp
  then show "unat o' dvd unat q" using q by (metis dvd_triv_right)
next
  assume "unat o' dvd unat q"
  then obtain r where r: "unat q = unat o' * r" by (auto elim: dvdE)
  have "r \<le> unat q" using r assms(2) mult_le_mono1[of 1 "unat o'" r] by simp
  then have r32: "r < 2 ^ 32" using order_le_less_trans[OF _ unat_u32_less[of q]] by simp
  have "q = o' * word_of_nat r" 
  proof -
    have "word_of_nat (unat q) = (word_of_nat (unat o' * r) :: u32)" using r by simp
    then show ?thesis by (simp only: of_nat_mult of_nat_unat ucast_id)
  qed
  then have "q * i = (o' * i) * word_of_nat r" by (simp only: mult_ac)
  then have "q * i = word_of_nat r" using assms(1) by simp
  then have "unat (q * i) = r" using r32 by (simp add: unat_of_nat take_bit_nat_eq_self)
  then show "unat (q * i) * unat o' < 2 ^ 32" using r unat_u32_less[of q] by (simp add: mult.commute)
qed

lemma thresh_odd_value:
  assumes "1 < unat o'" "thresh_odd o' = Ok t"
  shows "unat (x :: u32) < unat t \<longleftrightarrow> unat x * unat o' < 2 ^ 32"
proof -
  define N where "N = unat o'"
  have N: "1 < N" "N < 2 ^ 32" using assms(1) unat_u32_less[of o'] by (simp_all add: N_def)
  have uo: "unat (ucast o' :: u64) = N" 
  proof -
    have "unat o' < 2 ^ 64" using order_less_trans[OF unat_u32_less[of o'], of "2 ^ 64"] by simp
    from take_bit_nat_eq_self[OF this] show ?thesis by (simp add: N_def unsigned_ucast_eq)
  qed
  have "unat (2 ^ 32 + ucast o' - 1 :: u64) = 2 ^ 32 + N - 1"
  proof -
    have "unat (2 ^ 32 + ucast o' :: u64) = 2 ^ 32 + N" using uo N by (subst unat_add_small) simp_all
    then show ?thesis by (subst unat_sub) (auto simp: word_le_nat_alt)
  qed
  then have "unat ((2 ^ 32 + ucast o' - 1 :: u64) div ucast o') = (2 ^ 32 + N - 1) div N"
    using uo by (simp add: unat_div)
  moreover have "(2 ^ 32 + N - 1) div N < 2 ^ 32"
  proof -
    have "2 ^ 32 + N - 1 < 2 ^ 32 * N" using N by simp
    then show ?thesis using N by (simp add: less_mult_imp_div_less)
  qed
  ultimately have "unat t = (2 ^ 32 + N - 1) div N"
    using assms by (auto simp: thresh_odd_def unsigned_ucast_eq take_bit_nat_eq_self N_def split: if_splits)
  moreover have "p < (2 ^ 32 + N - 1) div N \<longleftrightarrow> p * N < 2 ^ 32" for p :: nat
    using N less_eq_div_iff_mult_less_eq[of N "Suc p" "2 ^ 32 + N - 1"] by (auto simp: Suc_le_eq)
  ultimately show ?thesis by (simp add: N_def)
qed

lemma power_of_two_dvd_iff:
  fixes a :: u32
  assumes "s < 32"
  shows "a AND (2 ^ s - 1) = 0 \<longleftrightarrow> 2 ^ s dvd unat a"
proof -
  have "a AND (2 ^ s - 1) = take_bit s a" by (simp add: take_bit_eq_mask mask_eq_exp_minus_1)
  moreover have "unat (take_bit s a) = unat a mod 2 ^ s"
    by (subst unsigned_take_bit_eq) (simp_all add: take_bit_eq_mod)
  ultimately show ?thesis by (metis dvd_eq_mod_eq_0 unat_0 unat_eq_0)
qed

lemma dvd_split: "0 < p \<Longrightarrow> p dvd a \<and> m dvd a div p \<longleftrightarrow> (m * p :: nat) dvd a"
  by (metis dvd_div_iff_mult dvd_mult_right neq0_conv)

text \<open>What is tested: whether \<open>d\<close> divides the distance of the hash from \<open>d - 1\<close>, modulo \<open>2 ^ 32\<close>.\<close>

lemma lemire_test_dvd:
  assumes "d \<noteq> 0" "1 < unat (drop_bit (TrailingZeros32 d) d)"
    "thresh_odd (drop_bit (TrailingZeros32 d) d) = Ok t"
  shows "lemire_test (modInverse32 (drop_bit (TrailingZeros32 d) d)) t (d - 1) (TrailingZeros32 d)
     (2 ^ TrailingZeros32 d - 1) h \<longleftrightarrow> unat d dvd unat (h - (d - 1))"
proof -
  define s o' a where "s = TrailingZeros32 d" and "o' = drop_bit s d" and "a = h - (d - 1)"
  have s: "odd o'" "unat d = unat o' * 2 ^ s" "s < 32"
    using TrailingZeros32_spec[OF assms(1)] by (simp_all add: s_def o'_def)
  have q: "unat (drop_bit s a) = unat a div 2 ^ s"
    by (subst unsigned_drop_bit_eq) (simp_all add: drop_bit_eq_div take_bit_nat_eq_self)
  have "lemire_test (modInverse32 o') t (d - 1) s (2 ^ s - 1) h \<longleftrightarrow>
      2 ^ s dvd unat a \<and> unat (drop_bit s a * modInverse32 o') * unat o' < 2 ^ 32"
    using thresh_odd_value[of o' t] assms(2,3) power_of_two_dvd_iff[OF s(3)]
    by (simp add: lemire_test_def Let_def a_def s_def o'_def word_less_nat_alt)
  also have "\<dots> \<longleftrightarrow> 2 ^ s dvd unat a \<and> unat o' dvd unat a div 2 ^ s"
    using odd_multiple_iff[OF modInverse32_correct[OF s(1)], of "drop_bit s a"] assms(2) q
    by (simp add: s_def o'_def)
  also have "\<dots> \<longleftrightarrow> unat d dvd unat a" using s(2) by (simp add: dvd_split)
  finally show ?thesis by (simp add: s_def o'_def a_def)
qed

lemma dvd_distance_iff:
  fixes h d :: u32
  assumes "d \<noteq> 0" "2 ^ 32 mod unat d \<noteq> 0"
  shows "unat d dvd unat (h - (d - 1)) \<longleftrightarrow>
     unat h mod unat d = unat d - 1 \<or> unat h = unat d - 1 - 2 ^ 32 mod unat d"
proof -
  define D H where "D = unat d" and "H = unat h"
  have D: "0 < D" "D < 2 ^ 32" "H < 2 ^ 32"
    using assms(1) unat_u32_less[of d] unat_u32_less[of h] by (simp_all add: D_def H_def unat_gt_0)
  have d1: "unat (d - 1) = D - 1" using assms(1) by (simp add: D_def unat_minus_one)
  show ?thesis
  proof (cases "D - 1 \<le> H")
    case True
    then have "unat (h - (d - 1)) = H - (D - 1)" using d1 by (simp add: unat_sub word_le_nat_alt H_def)
    moreover have "D dvd H - (D - 1) \<longleftrightarrow> H mod D = D - 1"
    proof -
      have "D dvd H - (D - 1) \<longleftrightarrow> H mod D = (D - 1) mod D"
        using True by (metis mod_eq_dvd_iff_nat)
      then show ?thesis using D by simp
    qed
    moreover have "H \<noteq> D - 1 - 2 ^ 32 mod D"
      using True assms(2) D mod_less_divisor[of D "2 ^ 32"] unfolding D_def[symmetric] by linarith
    ultimately show ?thesis by (auto simp: D_def H_def)
  next
    case False
    have "unat (h - (d - 1)) = 2 ^ 32 + H - (D - 1)"
      using False d1 unat_sub_if_size[of h "d - 1"] by (simp add: H_def word_size)
    moreover have "D dvd 2 ^ 32 + H - (D - 1) \<longleftrightarrow> H = D - 1 - 2 ^ 32 mod D"
    proof -
      have "D dvd 2 ^ 32 + H - (D - 1) \<longleftrightarrow> D dvd 2 ^ 32 + H + 1"
        using False D dvd_add_left_iff[of D D "2 ^ 32 + H - (D - 1)"] by simp
      also have "\<dots> \<longleftrightarrow> D dvd 2 ^ 32 mod D + (H + 1)"
        by (metis add.assoc mod_add_left_eq dvd_eq_mod_eq_0)
      also have "\<dots> \<longleftrightarrow> 2 ^ 32 mod D + (H + 1) = D"
      proof
        assume "D dvd 2 ^ 32 mod D + (H + 1)"
        then obtain k where k: "2 ^ 32 mod D + (H + 1) = D * k" by (auto elim: dvdE)
        moreover have "2 ^ 32 mod D + (H + 1) < 2 * D" using False D mod_less_divisor[of D "2 ^ 32"] by linarith
        ultimately have "k < 2" using D by (metis mult.commute mult_less_cancel1)
        moreover have "k \<noteq> 0" using k by (cases k) auto
        ultimately show "2 ^ 32 mod D + (H + 1) = D" using k by (simp add: numeral_2_eq_2 less_Suc_eq)
      qed simp
      finally show ?thesis using D mod_less_divisor[of D "2 ^ 32"] by linarith
    qed
    moreover have "H mod D \<noteq> D - 1" using False by simp
    ultimately show ?thesis by (auto simp: D_def H_def)
  qed
qed

lemma odd_part_not_dvd:
  assumes "d \<noteq> 0" "1 < unat (drop_bit (TrailingZeros32 d) d)"
  shows "2 ^ 32 mod unat d \<noteq> 0"
proof
  let ?o = "unat (drop_bit (TrailingZeros32 d) d)"
  assume "2 ^ 32 mod unat d = 0"
  then have "unat d dvd 2 ^ 32" by (rule mod_0_imp_dvd)
  moreover have "?o dvd unat d" using TrailingZeros32_spec(2)[OF assms(1)] by (metis dvd_triv_left)
  ultimately have "?o dvd 2 ^ 32" by (rule dvd_trans[rotated])
  moreover have "odd ?o" using TrailingZeros32_spec(1)[OF assms(1)]
      bit_unsigned_iff[of "drop_bit (TrailingZeros32 d) d" 0, where 'a = nat] by (simp add: bit_0)
  then have "coprime ?o (2 ^ 32)" by (simp only: coprime_power_right_iff coprime_right_2_iff_odd) simp
  ultimately have "?o = 1" by (metis coprime_absorb_left nat_dvd_1_iff_1)
  with assms(2) show False by simp
qed

text \<open>
  The boundary test with the constants \<open>NewChunker\<close> computes. With an odd part above one it holds
  for the hashes with remainder \<open>d - 1\<close> and, because the distance wraps around, for one more; with
  a power of two as discriminator the threshold overflows to zero and it never holds.
\<close>

lemma lemire_test_iff:
  assumes "d \<noteq> 0" "1 < unat (drop_bit (TrailingZeros32 d) d)"
    "thresh_odd (drop_bit (TrailingZeros32 d) d) = Ok t"
  shows "lemire_test (modInverse32 (drop_bit (TrailingZeros32 d) d)) t (d - 1) (TrailingZeros32 d)
     (2 ^ TrailingZeros32 d - 1) h \<longleftrightarrow>
     unat h mod unat d = unat d - 1 \<or> unat h = unat d - 1 - 2 ^ 32 mod unat d"
  using lemire_test_dvd[OF assms] dvd_distance_iff[OF assms(1) odd_part_not_dvd[OF assms(1,2)]] by simp

lemma thresh_odd_one: "thresh_odd 1 = Ok 0"
proof -
  have "(2 ^ 32 + ucast (1 :: u32) - 1 :: u64) div ucast (1 :: u32) = 4294967296" by simp
  then show ?thesis unfolding thresh_odd_def by simp
qed

lemma lemire_test_thresh_0: "\<not> lemire_test i 0 m s k h"
  by (simp add: lemire_test_def Let_def)

end
