(* ===== verification/Float64.thy ===== *)
theory Float64
  imports Prelude
begin

text \<open>
  The floating-point arithmetic the chunker's discriminator is computed with: IEEE 754 binary64,
  every operation rounded to nearest with ties to even, as Go does it where it does not fuse a
  multiplication and an addition. A finite value \<open>(m, e)\<close> stands for \<open>m * 2 ^ e\<close>; overflow and
  subnormal numbers do not occur in the one formula it is used for.
\<close>

type_synonym float64 = "int \<times> int"

text \<open>The number of bits of a positive integer.\<close>

function blen :: "int \<Rightarrow> int" where
  "blen n = (if n \<le> 0 then 0 else 1 + blen (n div 2))"
  by pat_completeness auto
termination
  by (relation "measure nat") auto

declare blen.simps [simp del]

text \<open>Round the positive integer \<open>x\<close> divided by \<open>2 ^ k\<close> to an integer.\<close>

definition round_rem :: "int \<Rightarrow> int \<Rightarrow> int \<Rightarrow> int" where
  "round_rem f r half = (if r < half then f else if half < r then f + 1 else if even f then f else f + 1)"

definition round_bits :: "int \<Rightarrow> nat \<Rightarrow> int" where
  "round_bits x k = round_rem (x div 2 ^ k) (x mod 2 ^ k) (2 ^ (k - 1))"

text \<open>
  The float nearest to \<open>a / b\<close>, \<open>b > 0\<close>: the quotient is computed to more than 53 bits with the
  scale \<open>2 ^ s\<close>, a last bit stands for a remainder that is not zero, and the result is rounded to 53
  bits.
\<close>

definition fl_pack :: "int \<Rightarrow> int \<Rightarrow> int \<Rightarrow> float64" where
  "fl_pack sg s x = (sg * round_bits x (nat (blen x - 53)), blen x - 54 - s)"

definition fl_quot :: "int \<Rightarrow> int \<Rightarrow> int \<Rightarrow> int \<Rightarrow> float64" where
  "fl_quot sg s num den = fl_pack sg s (2 * (num div den) + (if num mod den = 0 then 0 else 1))"

definition fl_scale :: "int \<Rightarrow> int \<Rightarrow> int \<Rightarrow> float64" where
  "fl_scale a b s = fl_quot (sgn a) s (\<bar>a\<bar> * 2 ^ nat s) (b * 2 ^ nat (- s))"

definition fl :: "int \<Rightarrow> int \<Rightarrow> float64" where
  "fl a b = (if a = 0 then (0, 0) else fl_scale a b (54 - (blen \<bar>a\<bar> - blen b)))"

text \<open>The product of a float's digits and a power of two, as a ratio.\<close>

definition fl_exp :: "int \<Rightarrow> int \<Rightarrow> float64" where
  "fl_exp m e = fl (m * 2 ^ nat e) (2 ^ nat (- e))"

definition fadd_at :: "int \<Rightarrow> float64 \<Rightarrow> float64 \<Rightarrow> float64" where
  "fadd_at g x y = fl_exp (fst x * 2 ^ nat (snd x - g) + fst y * 2 ^ nat (snd y - g)) g"

definition fadd :: "float64 \<Rightarrow> float64 \<Rightarrow> float64" where
  "fadd x y = fadd_at (min (snd x) (snd y)) x y"

definition fmul :: "float64 \<Rightarrow> float64 \<Rightarrow> float64" where
  "fmul x y = fl_exp (fst x * fst y) (snd x + snd y)"

text \<open>Division, by a value that is not zero.\<close>

definition fdiv :: "float64 \<Rightarrow> float64 \<Rightarrow> float64" where
  "fdiv x y = fl (sgn (fst y) * fst x * 2 ^ nat (snd x - snd y)) (\<bar>fst y\<bar> * 2 ^ nat (snd y - snd x))"

text \<open>Conversion to an integer, towards zero.\<close>

definition ftrunc :: "float64 \<Rightarrow> int" where
  "ftrunc x = sgn (fst x) * (\<bar>fst x\<bar> * 2 ^ nat (snd x) div 2 ^ nat (- snd x))"

lemmas float_eval = fadd_def fadd_at_def fmul_def fdiv_def fl_exp_def fl_def fl_scale_def fl_quot_def
  fl_pack_def ftrunc_def round_bits_def round_rem_def blen.simps

end
