(* ===== verification/Chunker.thy ===== *)
theory Chunker
  imports Divisibility Float64
begin

text \<open>
  The content-defined chunker (\<^verbatim>\<open>src/chunker.go\<close>): a rolling hash over a window of 48 bytes
  decides where a stream is cut. This theory holds the model; \<^verbatim>\<open>Chunker_Props\<close> relates it to a
  specification that cuts the whole data.

  The reader below the chunker is the data it still delivers, the error at its end, the sizes of
  the reads it chooses to serve (as much as is asked for when the list is used up), whether it
  reports the end together with the last bytes, and whether it can seek: all of these are allowed
  by Go's \<open>io.Reader\<close>, and what the chunker returns must not depend on them.
\<close>

section \<open>Readers\<close>

record source =
  rd_data :: bytes
  rd_end :: go_error
  rd_sizes :: "nat list"
  rd_eager :: bool
  rd_seeker :: bool

definition source_read :: "source \<Rightarrow> nat \<Rightarrow> bytes \<times> go_error option \<times> source" where
  "source_read r k =
     (if rd_data r = [] then ([], Some (rd_end r), r)
      else let n = min (case rd_sizes r of [] \<Rightarrow> k | s # _ \<Rightarrow> s) k;
               rest = drop n (rd_data r)
           in (take n (rd_data r), (if rest = [] \<and> rd_eager r then Some (rd_end r) else None),
               r\<lparr>rd_data := rest, rd_sizes := tl (rd_sizes r)\<rparr>))"

lemma source_read_progress:
  assumes "source_read r k = (b, None, r')" "0 < k"
  shows "length (rd_sizes r') < length (rd_sizes r) \<or>
     length (rd_sizes r') = length (rd_sizes r) \<and> length (rd_data r') < length (rd_data r)"
proof -
  have "0 < length (rd_data r)" using assms(1) by (auto simp: source_read_def)
  then have "length (rd_data r) - k < length (rd_data r)" using assms(2) by simp
  with assms(1) show ?thesis by (auto simp: source_read_def Let_def split: if_splits list.splits)
qed

section \<open>The discriminator\<close>

definition ChunkerWindowSize :: nat where
  "ChunkerWindowSize = 48"

text \<open>
  Where the quotient is outside of the range of \<open>uint32\<close> Go leaves the result of the conversion to
  the implementation: the parameter \<open>conv\<close>.
\<close>

definition disc_float :: "u64 \<Rightarrow> float64" where
  "disc_float avg =
     fdiv (fl (uint avg) 1)
       (fadd (fmul (fl (- 142888852) (10 ^ 15)) (fl (uint avg) 1)) (fl 133237515 (10 ^ 8)))"

definition discriminatorFromAvg :: "(int \<Rightarrow> u32) \<Rightarrow> u64 \<Rightarrow> u32" where
  "discriminatorFromAvg conv avg =
     (let q = ftrunc (disc_float avg)
      in if 0 \<le> q \<and> q < 2 ^ 32 then word_of_int q else conv q)"

section \<open>The rolling hash\<close>

definition hashTable :: "u32 list" where
  "hashTable = [
     0x458be752, 0xc10748cc, 0xfbbcdbb8, 0x6ded5b68, 0xb10a82b5, 0x20d75648,
     0xdfc5665f, 0xa8428801, 0x7ebf5191, 0x841135c7, 0x65cc53b3, 0x280a597c,
     0x16f60255, 0xc78cbc3e, 0x294415f5, 0xb938d494, 0xec85c4e6, 0xb7d33edc,
     0xe549b544, 0xfdeda5aa, 0x882bf287, 0x3116737c, 0x05569956, 0xe8cc1f68,
     0x0806ac5e, 0x22a14443, 0x15297e10, 0x50d090e7, 0x4ba60f6f, 0xefd9f1a7,
     0x5c5c885c, 0x82482f93, 0x9bfd7c64, 0x0b3e7276, 0xf2688e77, 0x8fad8abc,
     0xb0509568, 0xf1ada29f, 0xa53efdfe, 0xcb2b1d00, 0xf2a9e986, 0x6463432b,
     0x95094051, 0x5a223ad2, 0x9be8401b, 0x61e579cb, 0x1a556a14, 0x5840fdc2,
     0x9261ddf6, 0xcde002bb, 0x52432bb0, 0xbf17373e, 0x7b7c222f, 0x2955ed16,
     0x9f10ca59, 0xe840c4c9, 0xccabd806, 0x14543f34, 0x1462417a, 0x0d4a1f9c,
     0x087ed925, 0xd7f8f24c, 0x7338c425, 0xcf86c8f5, 0xb19165cd, 0x9891c393,
     0x325384ac, 0x0308459d, 0x86141d7e, 0xc922116a, 0xe2ffa6b6, 0x53f52aed,
     0x2cd86197, 0xf5b9f498, 0xbf319c8f, 0xe0411fae, 0x977eb18c, 0xd8770976,
     0x9833466a, 0xc674df7f, 0x8c297d45, 0x8ca48d26, 0xc49ed8e2, 0x7344f874,
     0x556f79c7, 0x6b25eaed, 0xa03e2b42, 0xf68f66a4, 0x8e8b09a2, 0xf2e0e62a,
     0x0d3a9806, 0x9729e493, 0x8c72b0fc, 0x160b94f6, 0x450e4d3d, 0x7a320e85,
     0xbef8f0e1, 0x21d73653, 0x4e3d977a, 0x1e7b3929, 0x1cc6c719, 0xbe478d53,
     0x8d752809, 0xe6d8c2c6, 0x275f0892, 0xc8acc273, 0x4cc21580, 0xecc4a617,
     0xf5f7be70, 0xe795248a, 0x375a2fe9, 0x425570b6, 0x8898dcf8, 0xdc2d97c4,
     0x0106114b, 0x364dc22f, 0x1e0cad1f, 0xbe63803c, 0x5f69fac2, 0x4d5afa6f,
     0x1bc0dfb5, 0xfb273589, 0x0ea47f7b, 0x3c1c2b50, 0x21b2a932, 0x6b1223fd,
     0x2fe706a8, 0xf9bd6ce2, 0xa268e64e, 0xe987f486, 0x3eacf563, 0x1ca2018c,
     0x65e18228, 0x2207360a, 0x57cf1715, 0x34c37d2b, 0x1f8f3cde, 0x93b657cf,
     0x31a019fd, 0xe69eb729, 0x8bca7b9b, 0x4c9d5bed, 0x277ebeaf, 0xe0d8f8ae,
     0xd150821c, 0x31381871, 0xafc3f1b0, 0x927db328, 0xe95effac, 0x305a47bd,
     0x426ba35b, 0x1233af3f, 0x686a5b83, 0x50e072e5, 0xd9d3bb2a, 0x8befc475,
     0x487f0de6, 0xc88dff89, 0xbd664d5e, 0x971b5d18, 0x63b14847, 0xd7d3c1ce,
     0x7f583cf3, 0x72cbcb09, 0xc0d0a81c, 0x7fa3429b, 0xe9158a1b, 0x225ea19a,
     0xd8ca9ea3, 0xc763b282, 0xbb0c6341, 0x020b8293, 0xd4cd299d, 0x58cfa7f8,
     0x91b4ee53, 0x37e4d140, 0x95ec764c, 0x30f76b06, 0x5ee68d24, 0x679c8661,
     0xa41979c2, 0xf2b61284, 0x4fac1475, 0x0adb49f9, 0x19727a23, 0x15a7e374,
     0xc43a18d5, 0x3fb1aa73, 0x342fc615, 0x924c0793, 0xbee2d7f0, 0x8a279de9,
     0x4aa2d70c, 0xe24dd37f, 0xbe862c0b, 0x177c22c2, 0x5388e5ee, 0xcd8a7510,
     0xf901b4fd, 0xdbc13dbc, 0x6c0bae5b, 0x64efe8c7, 0x48b02079, 0x80331a49,
     0xca3d8ae6, 0xf3546190, 0xfed7108b, 0xc49b941b, 0x32baf4a9, 0xeb833a4a,
     0x88a3f1a5, 0x3a91ce0a, 0x3cc27da1, 0x7112e684, 0x4a3096b1, 0x3794574c,
     0xa3c8b6f3, 0x1d213941, 0x6e0a2e00, 0x233479f1, 0x0f4cd82f, 0x6093edd2,
     0x5d7d209e, 0x464fe319, 0xd4dcac9e, 0x0db845cb, 0xfb5e4bc3, 0xe0256ce1,
     0x09fb4ed1, 0x0914be1e, 0xa5bdb2c3, 0xc6eb57bb, 0x30320350, 0x3f397e91,
     0xa67791bc, 0x86bc0e2c, 0xefa0a7e2, 0xe9ff7543, 0xe733612c, 0xd185897b,
     0x329e5388, 0x91dd236b, 0x2ecb0d93, 0xf4d82a3d, 0x35b5c03f, 0xe4e606f0,
     0x05b21843, 0x37b45964, 0x5eff22f4, 0x6027f4cc, 0x77178b3c, 0xae507131,
     0x7bf7cabc, 0xf9c18d66, 0x593ade65, 0xd95ddf11]"

definition hashTableRotated :: "u32 list" where
  "hashTableRotated = map (word_rotl ChunkerWindowSize) hashTable"

definition table_at :: "u32 list \<Rightarrow> byte \<Rightarrow> u32" where
  "table_at t b = t ! unat b"

section \<open>The chunker\<close>

record Chunker =
  c_r :: source
  c_min :: u64
  c_avg :: u64
  c_max :: u64
  c_start :: u64
  c_buf :: bytes
  c_cap :: nat
  hitEOF :: bool
  hValue :: u32
  hWindow :: bytes
  hIdx :: nat
  hDiscriminator :: u32
  hInverseOdd :: u32
  hThreshOdd :: u32
  hDiscMinus1 :: u32
  hTrailShift :: nat
  hTrailMask :: u32

definition NewChunker :: "(int \<Rightarrow> u32) \<Rightarrow> source \<Rightarrow> u64 \<Rightarrow> u64 \<Rightarrow> u64 \<Rightarrow> Chunker res" where
  "NewChunker conv r mn avg mx =
     (if mn < word_of_nat ChunkerWindowSize then Err (Errorf ''min chunk size too small, must be over %d'')
      else if mn > mx then Err (Errorf ''min chunk size must not be greater than max'')
      else if mn > avg then Err (Errorf ''min chunk size must not be greater than avg'')
      else if avg > mx then Err (Errorf ''avg chunk size must not be greater than max'')
      else let disc = discriminatorFromAvg conv avg;
               trailShift = TrailingZeros32 disc;
               oddPart = drop_bit trailShift disc;
               inverseOdd = modInverse32 oddPart
           in bind_res (thresh_odd oddPart) (\<lambda>threshOdd.
                Ok \<lparr>c_r = r, c_min = mn, c_avg = avg, c_max = mx, c_start = 0, c_buf = [], c_cap = 0,
                  hitEOF = False, hValue = 0, hWindow = replicate ChunkerWindowSize 0, hIdx = 0,
                  hDiscriminator = disc, hInverseOdd = inverseOdd, hThreshOdd = threshOdd,
                  hDiscMinus1 = disc - 1, hTrailShift = trailShift,
                  hTrailMask = 2 ^ trailShift - 1\<rparr>))"

text \<open>The reading loop of \<open>fillBuffer\<close>, with the bytes in the buffer so far.\<close>

function fill_loop :: "nat \<Rightarrow> source \<Rightarrow> bytes \<Rightarrow> bytes \<times> go_error option \<times> source" where
  "fill_loop sz r buf =
     (if length buf < sz then
        case source_read r (sz - length buf) of (b, err, r') \<Rightarrow>
          if err = None then fill_loop sz r' (buf @ b) else (buf @ b, err, r')
      else (buf, None, r))"
  by pat_completeness auto
termination
  by (relation "measures [\<lambda>(sz, r, buf). length (rd_sizes r), \<lambda>(sz, r, buf). length (rd_data r)]")
     (auto dest!: source_read_progress[OF sym])

declare fill_loop.simps [simp del]

definition fillBuffer :: "Chunker \<Rightarrow> (nat \<times> go_error option \<times> Chunker) res" where
  "fillBuffer c =
     (if hitEOF c then Ok (0, None, c)
      else let sz = 10 * c_max c
           in if c_cap c < unat sz \<and> unat sz > max_alloc then Panic ''makeslice: len out of range''
              else case fill_loop (unat sz) (c_r c) (take (unat sz) (c_buf c)) of (buf, err, r) \<Rightarrow>
                let c' = c\<lparr>c_r := r, c_buf := buf, c_cap := max (c_cap c) (unat sz)\<rparr>
                in if err = Some EOF then Ok (length buf, None, c'\<lparr>hitEOF := True\<rparr>)
                   else Ok (length buf, err, c'))"

definition split_chunk ::
  "Chunker \<Rightarrow> nat \<Rightarrow> go_error option \<Rightarrow> (u64 \<times> bytes \<times> go_error option \<times> Chunker) res" where
  "split_chunk c i err =
     Ok (c_start c, take i (c_buf c), err,
         c\<lparr>c_buf := drop i (c_buf c), c_start := c_start c + word_of_nat i, hIdx := 0, hValue := 0\<rparr>)"

definition is_boundary :: "Chunker \<Rightarrow> u32 \<Rightarrow> bool" where
  "is_boundary c h =
     lemire_test (hInverseOdd c) (hThreshOdd c) (hDiscMinus1 c) (hTrailShift c) (hTrailMask c) h"

text \<open>The loop that adds a byte after the other to the hash, up to a boundary or to \<open>m\<close>.\<close>

function scan_loop :: "Chunker \<Rightarrow> int \<Rightarrow> u32 \<Rightarrow> bytes \<Rightarrow> nat \<Rightarrow> nat \<Rightarrow> (nat \<times> u32 \<times> bytes \<times> nat) res" where
  "scan_loop c m h win idx pos =
     (if pos \<ge> length (c_buf c) \<or> idx \<ge> length win then Panic ''index out of range''
      else let i = c_buf c ! pos; out = win ! idx; win' = win[idx := i];
               idx' = (if idx + 1 \<ge> ChunkerWindowSize then 0 else idx + 1);
               h' = word_rotl 1 h XOR table_at hashTableRotated out XOR table_at hashTable i;
               pos' = pos + 1
           in if int pos' \<ge> m then Ok (pos', h', win', idx')
              else if is_boundary c h' then Ok (pos', h', win', idx')
              else scan_loop c m h' win' idx' pos')"
  by pat_completeness auto
termination
  by (relation "measure (\<lambda>(c, m, h, win, idx, pos). nat (m - int pos))") auto

declare scan_loop.simps [simp del]

text \<open>The initial hash of a window, as the loop over it computes it.\<close>

fun init_hash :: "u32 \<Rightarrow> nat \<Rightarrow> bytes \<Rightarrow> u32" where
  "init_hash h k [] = h"
| "init_hash h k (b # bs) = init_hash (h XOR word_rotl (k - 1) (table_at hashTable b)) (k - 1) bs"

definition next_cut :: "Chunker \<Rightarrow> (u64 \<times> bytes \<times> go_error option \<times> Chunker) res" where
  "next_cut c =
     (let mn = unat (c_min c) in
      if int (length (c_buf c)) \<le> sint (c_min c) then split_chunk c (length (c_buf c)) None
      else let m = min (int (length (c_buf c))) (sint (c_max c));
               window = slice (c_buf c) (mn - ChunkerWindowSize) mn;
               h = init_hash (hValue c) ChunkerWindowSize window
           in bind_res (scan_loop c m h window (hIdx c) mn) (\<lambda>(pos, h, win, idx).
                split_chunk (c\<lparr>hValue := h, hWindow := win, hIdx := idx\<rparr>) pos None))"

definition Chunker_Next :: "Chunker \<Rightarrow> (u64 \<times> bytes \<times> go_error option \<times> Chunker) res" where
  "Chunker_Next c =
     (if int (length (c_buf c)) < sint (c_max c) then
        bind_res (fillBuffer c) (\<lambda>(n, err, c).
          if err \<noteq> None then split_chunk c n err else next_cut c)
      else next_cut c)"

definition Chunker_Advance :: "Chunker \<Rightarrow> nat \<Rightarrow> go_error option \<times> Chunker" where
  "Chunker_Advance c n =
     (let c = c\<lparr>c_start := c_start c + word_of_nat n\<rparr> in
      if n \<le> length (c_buf c) then (None, c\<lparr>c_buf := drop n (c_buf c)\<rparr>)
      else let readerN = n - length (c_buf c); data = rd_data (c_r c);
               c' = c\<lparr>c_buf := [], c_r := (c_r c)\<lparr>rd_data := drop readerN data\<rparr>\<rparr>
           in if rd_seeker (c_r c) \<or> readerN \<le> length data then (None, c')
              else (Some (rd_end (c_r c)), c'))"

section \<open>The hash as a type of its own\<close>

record Hash =
  ha_value :: u32
  ha_window :: bytes
  ha_size :: nat
  ha_idx :: nat
  ha_discriminator :: u32

definition NewHash :: "nat \<Rightarrow> u32 \<Rightarrow> Hash" where
  "NewHash sz disc =
     \<lparr>ha_value = 0, ha_window = replicate sz 0, ha_size = sz, ha_idx = 0, ha_discriminator = disc\<rparr>"

definition Hash_Roll :: "Hash \<Rightarrow> byte \<Rightarrow> Hash res" where
  "Hash_Roll h b =
     (if ha_idx h \<ge> length (ha_window h) then Panic ''index out of range''
      else let ob = ha_window h ! ha_idx h
           in Ok (h\<lparr>ha_window := (ha_window h)[ha_idx h := b], ha_idx := (ha_idx h + 1) mod ha_size h,
                ha_value := word_rotl 1 (ha_value h)
                  XOR word_rotl (length (ha_window h)) (table_at hashTable ob)
                  XOR table_at hashTable b\<rparr>))"

definition Hash_Initialize :: "Hash \<Rightarrow> bytes \<Rightarrow> Hash" where
  "Hash_Initialize h b =
     h\<lparr>ha_value := init_hash (ha_value h) (ha_size h) b,
       ha_window := take (length (ha_window h)) b @ drop (length b) (ha_window h)\<rparr>"

definition Hash_IsBoundary :: "Hash \<Rightarrow> bool res" where
  "Hash_IsBoundary h =
     (if ha_discriminator h = 0 then Panic ''integer divide by zero''
      else Ok (ha_value h mod ha_discriminator h = ha_discriminator h - 1))"

definition Hash_Reset :: "Hash \<Rightarrow> Hash" where
  "Hash_Reset h = h\<lparr>ha_idx := 0, ha_value := 0\<rparr>"

end
