(* ===== verification/Chunker_Props.thy ===== *)
theory Chunker_Props
  imports Chunker
begin

text \<open>
  What the chunker of \<^verbatim>\<open>src/chunker.go\<close> computes: the rolling hash is the hash of the last 48
  bytes, the buffered chunker cuts where a specification over the whole data cuts, and the exact
  meaning of its boundary test.
\<close>

section \<open>The hash of a window\<close>

fun hash_of :: "bytes \<Rightarrow> u32" where
  "hash_of [] = 0"
| "hash_of (b # bs) = word_rotl (length bs) (table_at hashTable b) XOR hash_of bs"

lemma rotl_0 [simp]: "word_rotl 0 (x :: u32) = x" and rotr_0: "word_rotr 0 (x :: u32) = x"
  by (rule bit_word_eqI, simp add: bit_word_rotl_iff bit_word_rotr_iff)+

lemma rotl_roti: "word_rotl k (x :: u32) = word_roti (- int k) x"
  by (cases "k = 0") (simp_all add: rotr_0)

lemma rotl_rotl: "word_rotl m (word_rotl n (x :: u32)) = word_rotl (m + n) x"
proof -
  have "word_roti (- int m) (word_roti (- int n) x) = word_roti (- int (m + n)) x"
    by (simp only: word_roti_add[symmetric] of_nat_add minus_add_distrib)
  then show ?thesis by (simp only: rotl_roti)
qed

lemma length_hashTable: "length hashTable = 256"
  by (simp add: hashTable_def)

lemma table_at_rotated: "table_at hashTableRotated b = word_rotl ChunkerWindowSize (table_at hashTable b)"
  by (simp add: table_at_def hashTableRotated_def length_hashTable)

lemma hash_of_snoc: "hash_of (bs @ [x]) = word_rotl 1 (hash_of bs) XOR table_at hashTable x"
  by (induction bs) (simp_all add: rotl_rotl word_rot_logs xor.assoc)

lemma init_hash: "init_hash h (length bs) bs = h XOR hash_of bs"
  by (induction bs arbitrary: h) (simp_all add: xor.assoc)

text \<open>Rolling: dropping the first byte of a window and adding one at its end.\<close>

lemma hash_of_roll:
  "hash_of (bs @ [x]) = word_rotl 1 (hash_of (b # bs)) XOR word_rotl (Suc (length bs)) (table_at hashTable b)
     XOR table_at hashTable x"
  by (simp add: hash_of_snoc rotl_rotl word_rot_logs xor.commute xor.left_commute xor.assoc)

section \<open>Scanning for a boundary\<close>

text \<open>A position is a boundary when the hash of the window that ends there is one.\<close>

definition boundary_at :: "(u32 \<Rightarrow> bool) \<Rightarrow> bytes \<Rightarrow> nat \<Rightarrow> bool" where
  "boundary_at b bs p = b (hash_of (slice bs (p - ChunkerWindowSize) p))"

text \<open>The first boundary from \<open>p\<close> on and before \<open>m\<close>, or \<open>m\<close>.\<close>

definition first_boundary :: "(u32 \<Rightarrow> bool) \<Rightarrow> bytes \<Rightarrow> nat \<Rightarrow> nat \<Rightarrow> nat" where
  "first_boundary b bs p m = (case find (boundary_at b bs) [p..<m] of Some q \<Rightarrow> q | None \<Rightarrow> m)"

lemma first_boundary_unfold:
  "p < m \<Longrightarrow> first_boundary b bs p m = (if boundary_at b bs p then p else first_boundary b bs (Suc p) m)"
  "m \<le> p \<Longrightarrow> first_boundary b bs p m = m"
  by (simp_all add: first_boundary_def upt_conv_Cons)

lemma slice_snoc: "a \<le> p \<Longrightarrow> p < length bs \<Longrightarrow> slice bs a (Suc p) = slice bs a p @ [bs ! p]"
  by (simp add: slice_def Suc_diff_le take_Suc_conv_app_nth)

lemma slice_prefix: "b \<le> length bs \<Longrightarrow> slice (bs @ cs) a b = slice bs a b"
  by (cases "a \<le> b") (auto simp: slice_def)

lemma slice_tl: "a < b \<Longrightarrow> a < length bs \<Longrightarrow> slice bs a b = bs ! a # slice bs (Suc a) b"
  by (simp add: slice_def Cons_nth_drop_Suc[symmetric] Suc_diff_Suc[symmetric])

text \<open>The window is a ring: what it holds, in order, starts at the index.\<close>

lemma rotate_window:
  assumes "idx < length win" "rotate idx win = x # xs"
  shows "win ! idx = x"
    "rotate (if idx + 1 \<ge> length win then 0 else idx + 1) (win[idx := y]) = xs @ [y]"
proof -
  have r: "rotate idx win = drop idx win @ take idx win" using assms(1) by (simp add: rotate_drop_take)
  show "win ! idx = x" using assms r by (metis Cons_nth_drop_Suc append_Cons list.inject)
  have xs: "xs = drop (Suc idx) win @ take idx win"
    using assms r by (metis Cons_nth_drop_Suc append_Cons list.inject)
  show "rotate (if idx + 1 \<ge> length win then 0 else idx + 1) (win[idx := y]) = xs @ [y]"
  proof (cases "idx + 1 \<ge> length win")
    case True
    then have "length win = Suc idx" using assms(1) by simp
    then show ?thesis using True xs
      by (simp add: take_Suc_conv_app_nth list_update_append1 upd_conv_take_nth_drop)
  next
    case False
    then show ?thesis using xs assms(1)
      by (simp add: rotate_drop_take take_Suc_conv_app_nth)
  qed
qed

lemma scan_loop_spec:
  assumes "pos < length (c_buf c)" "int pos < m" "m \<le> int (length (c_buf c))" "ChunkerWindowSize \<le> pos"
    "length win = ChunkerWindowSize" "idx < ChunkerWindowSize"
    "rotate idx win = slice (c_buf c) (pos - ChunkerWindowSize) pos" "h = hash_of (rotate idx win)"
  shows "\<exists>h' win' idx'. scan_loop c m h win idx pos =
      Ok (first_boundary (is_boundary c) (c_buf c) (Suc pos) (nat m), h', win', idx') \<and> length win' = ChunkerWindowSize"
  using assms
proof (induction c m h win idx pos rule: scan_loop.induct)
  case (1 c m h win idx pos)
  let ?buf = "c_buf c" and ?W = ChunkerWindowSize
  have W: "?W = 48" by (simp add: ChunkerWindowSize_def)
  define x xs where "x = ?buf ! (pos - ?W)" and "xs = slice ?buf (Suc (pos - ?W)) pos"
  have ring: "rotate idx win = x # xs"
    using "1.prems" W slice_tl[of "pos - ?W" pos ?buf] by (simp add: x_def xs_def)
  define idx' where "idx' = (if idx + 1 \<ge> ?W then 0 else idx + 1)"
  define win' where "win' = win[idx := ?buf ! pos]"
  define h' where "h' = word_rotl 1 h XOR table_at hashTableRotated (win ! idx) XOR table_at hashTable (?buf ! pos)"
  have rw: "win ! idx = x" "rotate idx' win' = xs @ [?buf ! pos]"
    using rotate_window(1)[of idx win x xs] rotate_window(2)[of idx win x xs "?buf ! pos"] ring "1.prems" by (simp_all add: idx'_def win'_def)
  have sl: "xs @ [?buf ! pos] = slice ?buf (Suc pos - ?W) (Suc pos)"
    using "1.prems" W slice_snoc[of "Suc (pos - ?W)" pos ?buf] by (simp add: xs_def Suc_diff_le)
  have lx: "Suc (length xs) = ?W" using ring "1.prems"(5) by (metis length_Cons length_rotate)
  have h': "h' = hash_of (rotate idx' win')"
    using hash_of_roll[of xs "?buf ! pos" x] "1.prems"(8) ring rw lx
    by (simp add: h'_def table_at_rotated)
  then have b: "is_boundary c h' = boundary_at (is_boundary c) ?buf (Suc pos)" by (simp add: boundary_at_def rw(2) sl)
  have step: "scan_loop c m h win idx pos =
     (if int (pos + 1) \<ge> m then Ok (pos + 1, h', win', idx')
      else if is_boundary c h' then Ok (pos + 1, h', win', idx') else scan_loop c m h' win' idx' (pos + 1))"
    using "1.prems" by (subst scan_loop.simps) (simp add: Let_def h'_def win'_def idx'_def)
  show ?case
  proof (cases "int (pos + 1) \<ge> m")
    case True
    then have "nat m = pos + 1" using "1.prems"(2) by simp
    then show ?thesis using step True "1.prems"(5) by (simp add: first_boundary_unfold win'_def)
  next
    case False
    then have fb: "first_boundary (is_boundary c) ?buf (Suc pos) (nat m) =
       (if boundary_at (is_boundary c) ?buf (Suc pos) then Suc pos else first_boundary (is_boundary c) ?buf (Suc (Suc pos)) (nat m))"
      by (intro first_boundary_unfold(1)) simp
    show ?thesis
    proof (cases "is_boundary c h'")
      case True
      then show ?thesis using step False fb b "1.prems"(5) by (simp add: win'_def)
    next
      case nb: False
      have "\<exists>h'' win'' idx''. scan_loop c m h' win' idx' (pos + 1) =
          Ok (first_boundary (is_boundary c) ?buf (Suc (pos + 1)) (nat m), h'', win'', idx'') \<and> length win'' = ?W"
        using "1.prems" False nb W h' rw sl
        by (intro "1.IH"[OF _ refl refl _ _ _ refl]) (auto simp: h'_def win'_def idx'_def)
      then show ?thesis using step False nb fb b by simp
    qed
  qed
qed

section \<open>Filling the buffer\<close>

lemma source_read_data:
  assumes "source_read r k = (bs, err, r')"
  shows "bs @ rd_data r' = rd_data r \<and> length bs \<le> k \<and> rd_end r' = rd_end r \<and>
     (\<forall>e. err = Some e \<longrightarrow> e = rd_end r \<and> rd_data r' = [])"
  using assms by (auto simp: source_read_def Let_def split: if_splits)

lemma fill_loop_spec:
  assumes "fill_loop sz r buf = (buf', err, r')" "length buf \<le> sz"
  shows "buf' @ rd_data r' = buf @ rd_data r \<and> length buf' \<le> sz \<and> rd_end r' = rd_end r \<and>
     (case err of None \<Rightarrow> length buf' = sz | Some e \<Rightarrow> e = rd_end r \<and> rd_data r' = [])"
  using assms
proof (induction sz r buf arbitrary: buf' err r' rule: fill_loop.induct)
  case (1 sz r buf)
  show ?case
  proof (cases "length buf < sz")
    case True
    obtain bs e r1 where rd: "source_read r (sz - length buf) = (bs, e, r1)"
      by (cases "source_read r (sz - length buf)")
    note d = source_read_data[OF rd]
    show ?thesis
    proof (cases e)
      case None
      then have "fill_loop sz r1 (buf @ bs) = (buf', err, r')"
        using "1.prems"(1) True rd by (subst (asm) fill_loop.simps) simp
      moreover have "length (buf @ bs) \<le> sz" using d True by auto
      ultimately have "buf' @ rd_data r' = (buf @ bs) @ rd_data r1 \<and> length buf' \<le> sz \<and> rd_end r' = rd_end r1 \<and>
        (case err of None \<Rightarrow> length buf' = sz | Some e \<Rightarrow> e = rd_end r1 \<and> rd_data r' = [])"
        using "1.IH"[OF True rd[symmetric] refl None] by blast
      moreover have "(buf @ bs) @ rd_data r1 = buf @ rd_data r" "rd_end r1 = rd_end r" using d by simp_all
      ultimately show ?thesis by (simp only:)
    next
      case (Some x)
      then have "buf' = buf @ bs \<and> err = Some x \<and> r' = r1"
        using "1.prems"(1) True rd by (subst (asm) fill_loop.simps) simp
      moreover have "bs @ rd_data r1 = rd_data r" "length (buf @ bs) \<le> sz" "rd_end r1 = rd_end r"
        "x = rd_end r" "rd_data r1 = []" using d True Some by auto
      ultimately show ?thesis by simp
    qed
  next
    case False
    then show ?thesis using "1.prems" by (subst (asm) fill_loop.simps) auto
  qed
qed

section \<open>Where a stream is cut\<close>

text \<open>The specification: the length of the next chunk of the data that is left.\<close>

definition cut_len :: "(u32 \<Rightarrow> bool) \<Rightarrow> nat \<Rightarrow> nat \<Rightarrow> bytes \<Rightarrow> nat" where
  "cut_len b mn mx bs =
     (if length bs \<le> mn then length bs else first_boundary b bs (Suc mn) (min (length bs) mx))"

lemma first_boundary_bounds: "p \<le> m \<Longrightarrow> p \<le> first_boundary b bs p m \<and> first_boundary b bs p m \<le> m"
  by (auto simp: first_boundary_def find_Some_iff split: option.splits)

lemma cut_len_bounds:
  assumes "mn < mx"
  shows "cut_len b mn mx bs \<le> length bs" "cut_len b mn mx bs \<le> mx"
    "cut_len b mn mx bs = length bs \<or> mn < cut_len b mn mx bs"
    "bs \<noteq> [] \<Longrightarrow> 0 < cut_len b mn mx bs"
  using assms first_boundary_bounds[of "Suc mn" "min (length bs) mx" b bs] by (auto simp: cut_len_def)

lemma first_boundary_append:
  assumes "m \<le> length bs" shows "first_boundary b (bs @ cs) p m = first_boundary b bs p m"
proof -
  have "boundary_at b (bs @ cs) q = boundary_at b bs q" if "q \<in> set [p..<m]" for q
  proof -
    have "slice (bs @ cs) (q - ChunkerWindowSize) q = slice bs (q - ChunkerWindowSize) q"
      using that assms by (simp add: slice_prefix)
    then show ?thesis by (simp add: boundary_at_def)
  qed
  then have "find (boundary_at b (bs @ cs)) [p..<m] = find (boundary_at b bs) [p..<m]"
    by (rule find_cong[OF refl])
  then show ?thesis by (simp add: first_boundary_def)
qed

definition remaining :: "Chunker \<Rightarrow> bytes" where
  "remaining c = c_buf c @ rd_data (c_r c)"

definition chunker_inv :: "Chunker \<Rightarrow> bool" where
  "chunker_inv c \<longleftrightarrow>
     ChunkerWindowSize \<le> unat (c_min c) \<and> c_min c < c_max c \<and> 10 * unat (c_max c) \<le> max_alloc \<and>
     length (hWindow c) = ChunkerWindowSize \<and> hIdx c = 0 \<and> hValue c = 0 \<and>
     length (c_buf c) \<le> 10 * unat (c_max c) \<and> (hitEOF c \<longrightarrow> rd_data (c_r c) = [])"

definition same_cuts :: "Chunker \<Rightarrow> Chunker \<Rightarrow> bool" where
  "same_cuts c d \<longleftrightarrow> c_min d = c_min c \<and> c_max d = c_max c \<and> is_boundary d = is_boundary c"

definition chunk_cut :: "Chunker \<Rightarrow> nat" where
  "chunk_cut c = cut_len (is_boundary c) (unat (c_min c)) (unat (c_max c)) (remaining c)"

lemma chunker_inv_sizes:
  assumes "chunker_inv c"
  shows "sint (c_max c) = int (unat (c_max c))" "sint (c_min c) = int (unat (c_min c))"
    "unat (10 * c_max c) = 10 * unat (c_max c)" "unat (c_min c) < unat (c_max c)"
    "48 \<le> unat (c_min c)"
    "int n \<le> sint (c_min c) \<longleftrightarrow> n \<le> unat (c_min c)" "int n < sint (c_max c) \<longleftrightarrow> n < unat (c_max c)"
    "min (int n) (sint (c_max c)) = int (min n (unat (c_max c)))"
proof -
  show lt: "unat (c_min c) < unat (c_max c)" using assms by (simp add: chunker_inv_def word_less_nat_alt)
  have mx: "10 * unat (c_max c) \<le> 2 ^ 48" using assms by (simp add: chunker_inv_def max_alloc_def)
  then show sx: "sint (c_max c) = int (unat (c_max c))" by (intro sint_small_u64) simp
  show sn: "sint (c_min c) = int (unat (c_min c))" using lt mx by (intro sint_small_u64) simp
  show "int n \<le> sint (c_min c) \<longleftrightarrow> n \<le> unat (c_min c)" unfolding sn by (simp only: of_nat_le_iff)
  show "int n < sint (c_max c) \<longleftrightarrow> n < unat (c_max c)" unfolding sx by (simp only: of_nat_less_iff)
  show "min (int n) (sint (c_max c)) = int (min n (unat (c_max c)))" unfolding sx by (simp only: of_nat_min)
  show "unat (10 * c_max c) = 10 * unat (c_max c)" using mx by (subst unat_word_ariths) simp
  show "48 \<le> unat (c_min c)" using assms by (simp add: chunker_inv_def ChunkerWindowSize_def)
qed

lemma next_cut_spec:
  assumes inv: "chunker_inv c" and full: "unat (c_max c) \<le> length (c_buf c) \<or> rd_data (c_r c) = []"
  shows "\<exists>c'. next_cut c = Ok (c_start c, take (chunk_cut c) (remaining c), None, c') \<and>
     chunker_inv c' \<and> same_cuts c c' \<and> remaining c' = drop (chunk_cut c) (remaining c) \<and>
     c_start c' = c_start c + word_of_nat (chunk_cut c) \<and> rd_end (c_r c') = rd_end (c_r c)"
proof -
  let ?buf = "c_buf c" and ?mn = "unat (c_min c)" and ?mx = "unat (c_max c)"
  note sz = chunker_inv_sizes[OF inv]
  have le: "chunk_cut c \<le> length ?buf \<and> (length ?buf \<le> ?mn \<longrightarrow> chunk_cut c = length ?buf) \<and>
      (\<not> length ?buf \<le> ?mn \<longrightarrow>
        chunk_cut c = first_boundary (is_boundary c) ?buf (Suc ?mn) (min (length ?buf) ?mx))"
  proof (cases "rd_data (c_r c) = []")
    case True
    then show ?thesis using cut_len_bounds(1)[OF sz(4)]
      by (auto simp: chunk_cut_def remaining_def cut_len_def)
  next
    case False
    then have l: "?mx \<le> length ?buf" using full by simp
    then show ?thesis
      using sz(4) first_boundary_append[of ?mx ?buf] first_boundary_bounds[of "Suc ?mn" ?mx "is_boundary c" ?buf]
      by (auto simp: chunk_cut_def remaining_def cut_len_def)
  qed
  have post: "chunker_inv c' \<and> same_cuts c c' \<and> remaining c' = drop (chunk_cut c) (remaining c) \<and>
     c_start c' = c_start c + word_of_nat (chunk_cut c) \<and> rd_end (c_r c') = rd_end (c_r c)"
    if "c' = c\<lparr>hWindow := win, c_buf := drop (chunk_cut c) ?buf,
          c_start := c_start c + word_of_nat (chunk_cut c), hIdx := 0, hValue := 0\<rparr>"
      "length win = ChunkerWindowSize" for c' win
    using that inv le by (auto simp: chunker_inv_def same_cuts_def is_boundary_def remaining_def)
  have tk: "take (chunk_cut c) (remaining c) = take (chunk_cut c) ?buf" using le by (simp add: remaining_def)
  show ?thesis
  proof (cases "length ?buf \<le> ?mn")
    case True
    then have "next_cut c = Ok (c_start c, take (chunk_cut c) (remaining c), None,
       c\<lparr>hWindow := hWindow c, c_buf := drop (chunk_cut c) ?buf,
          c_start := c_start c + word_of_nat (chunk_cut c), hIdx := 0, hValue := 0\<rparr>)"
      using le tk sz(6) by (simp add: next_cut_def split_chunk_def Let_def)
    with post inv show ?thesis unfolding chunker_inv_def by blast
  next
    case False
    let ?w = "slice ?buf (?mn - ChunkerWindowSize) ?mn"
    have lw: "length ?w = ChunkerWindowSize" using False sz(5) by (simp add: ChunkerWindowSize_def)
    have iv: "hIdx c = 0" "hValue c = 0" using inv by (simp_all add: chunker_inv_def)
    have ih: "init_hash 0 ChunkerWindowSize ?w = hash_of ?w" using init_hash[of 0 ?w] lw by simp
    have lt: "int ?mn < int (min (length ?buf) ?mx)" 
      unfolding of_nat_less_iff using False sz(4) by simp
    obtain h' win' idx' where sl: "scan_loop c (int (min (length ?buf) ?mx)) (hash_of ?w) ?w 0 ?mn =
        Ok (first_boundary (is_boundary c) ?buf (Suc ?mn) (min (length ?buf) ?mx), h', win', idx')"
        "length win' = ChunkerWindowSize"
      using scan_loop_spec[OF _ lt, of c ?w 0 "hash_of ?w"] False sz(5) lw
      by (auto simp: ChunkerWindowSize_def)
    then have "next_cut c = Ok (c_start c, take (chunk_cut c) (remaining c), None,
       c\<lparr>hWindow := win', c_buf := drop (chunk_cut c) ?buf,
          c_start := c_start c + word_of_nat (chunk_cut c), hIdx := 0, hValue := 0\<rparr>)"
      using False le tk sz(6,8) iv ih by (simp add: next_cut_def split_chunk_def Let_def)
    with post \<open>length win' = ChunkerWindowSize\<close> show ?thesis by blast
  qed
qed

lemma fillBuffer_spec:
  assumes inv: "chunker_inv c" and eof: "rd_end (c_r c) = EOF" and small: "length (c_buf c) < unat (c_max c)"
  shows "\<exists>n c'. fillBuffer c = Ok (n, None, c') \<and> chunker_inv c' \<and> same_cuts c c' \<and>
     remaining c' = remaining c \<and> c_start c' = c_start c \<and> rd_end (c_r c') = EOF \<and>
     (unat (c_max c) \<le> length (c_buf c') \<or> rd_data (c_r c') = [])"
proof (cases "hitEOF c")
  case True
  then show ?thesis using inv eof by (auto simp: fillBuffer_def same_cuts_def chunker_inv_def)
next
  case False
  let ?sz = "10 * unat (c_max c)"
  have t: "take ?sz (c_buf c) = c_buf c" using small by simp
  obtain buf err r where f: "fill_loop ?sz (c_r c) (c_buf c) = (buf, err, r)"
    by (cases "fill_loop ?sz (c_r c) (c_buf c)")
  have s: "buf @ rd_data r = remaining c" "length buf \<le> ?sz" "rd_end r = EOF"
    "case err of None \<Rightarrow> length buf = ?sz | Some e \<Rightarrow> e = EOF \<and> rd_data r = []"
    using fill_loop_spec[OF f] small eof by (auto simp: remaining_def split: option.splits)
  have ma: "\<not> max_alloc < ?sz" using inv by (simp add: chunker_inv_def)
  define c' where "c' = (let c1 = c\<lparr>c_r := r, c_buf := buf, c_cap := max (c_cap c) ?sz\<rparr>
     in if err = Some EOF then c1\<lparr>hitEOF := True\<rparr> else c1)"
  have "fillBuffer c = Ok (length buf, None, c')"
    using False chunker_inv_sizes(3)[OF inv] t f ma s(4)
    by (auto simp: fillBuffer_def c'_def Let_def split: option.splits)
  moreover have "chunker_inv c' \<and> same_cuts c c' \<and> remaining c' = remaining c \<and> c_start c' = c_start c \<and>
     rd_end (c_r c') = EOF \<and> (unat (c_max c) \<le> length (c_buf c') \<or> rd_data (c_r c') = [])"
    using inv False s
    by (auto simp: c'_def Let_def chunker_inv_def same_cuts_def remaining_def is_boundary_def fun_eq_iff split: option.splits)
  ultimately show ?thesis by blast
qed

lemma same_cuts_chunk_cut: "same_cuts c d \<Longrightarrow> remaining d = remaining c \<Longrightarrow> chunk_cut d = chunk_cut c"
  by (simp add: same_cuts_def chunk_cut_def)

lemma same_cuts_trans: "same_cuts c d \<Longrightarrow> same_cuts d e \<Longrightarrow> same_cuts c e"
  by (simp add: same_cuts_def)

lemma Chunker_Next_spec:
  assumes inv: "chunker_inv c" and eof: "rd_end (c_r c) = EOF"
  shows "\<exists>c'. Chunker_Next c = Ok (c_start c, take (chunk_cut c) (remaining c), None, c') \<and>
     chunker_inv c' \<and> same_cuts c c' \<and> remaining c' = drop (chunk_cut c) (remaining c) \<and>
     c_start c' = c_start c + word_of_nat (chunk_cut c) \<and> rd_end (c_r c') = EOF"
proof (cases "length (c_buf c) < unat (c_max c)")
  case True
  obtain n c1 where f: "fillBuffer c = Ok (n, None, c1)" "chunker_inv c1" "same_cuts c c1"
     "remaining c1 = remaining c" "c_start c1 = c_start c" "rd_end (c_r c1) = EOF"
     "unat (c_max c1) \<le> length (c_buf c1) \<or> rd_data (c_r c1) = []"
    using fillBuffer_spec[OF inv eof True] by (auto simp: same_cuts_def)
  have k: "chunk_cut c1 = chunk_cut c" using f(3,4) by (rule same_cuts_chunk_cut)
  from next_cut_spec[OF f(2,7)] f True chunker_inv_sizes(7)[OF inv] show ?thesis
    unfolding k by (auto simp: Chunker_Next_def intro: same_cuts_trans)
next
  case False
  then show ?thesis using next_cut_spec[OF inv] eof chunker_inv_sizes(7)[OF inv]
    by (auto simp: Chunker_Next_def)
qed

section \<open>Whole streams\<close>

text \<open>The specification of the chunks of a whole blob.\<close>

function chunk_list :: "(u32 \<Rightarrow> bool) \<Rightarrow> nat \<Rightarrow> nat \<Rightarrow> bytes \<Rightarrow> bytes list" where
  "chunk_list b mn mx bs =
     (if bs = [] \<or> mx \<le> mn then []
      else let k = cut_len b mn mx bs in take k bs # chunk_list b mn mx (drop k bs))"
  by pat_completeness auto
termination
  by (relation "measure (\<lambda>(b, mn, mx, bs). length bs)") (auto simp: cut_len_bounds)

declare chunk_list.simps [simp del]

text \<open>A caller that asks for chunks until it gets an empty one.\<close>

fun all_chunks :: "nat \<Rightarrow> Chunker \<Rightarrow> (u64 \<times> bytes) list res" where
  "all_chunks 0 c = Err (Errorf ''out of fuel'')"
| "all_chunks (Suc n) c =
     bind_res (Chunker_Next c) (\<lambda>(start, b, err, c). case err of
        Some e \<Rightarrow> Err e
      | None \<Rightarrow> if b = [] then Ok [] else bind_res (all_chunks n c) (\<lambda>cs. Ok ((start, b) # cs)))"

fun with_starts :: "u64 \<Rightarrow> bytes list \<Rightarrow> (u64 \<times> bytes) list" where
  "with_starts s [] = []"
| "with_starts s (b # bs) = (s, b) # with_starts (s + ulen b) bs"

lemma all_chunks_spec:
  assumes "chunker_inv c" "rd_end (c_r c) = EOF" "length (remaining c) < n"
  shows "all_chunks n c = Ok (with_starts (c_start c)
     (chunk_list (is_boundary c) (unat (c_min c)) (unat (c_max c)) (remaining c)))"
  using assms
proof (induction n arbitrary: c)
  case (Suc n)
  note lt = chunker_inv_sizes(4)[OF Suc.prems(1)]
  obtain c' where c': "Chunker_Next c = Ok (c_start c, take (chunk_cut c) (remaining c), None, c')"
     "chunker_inv c'" "same_cuts c c'" "remaining c' = drop (chunk_cut c) (remaining c)"
     "c_start c' = c_start c + word_of_nat (chunk_cut c)" "rd_end (c_r c') = EOF"
    using Chunker_Next_spec[OF Suc.prems(1,2)] by blast
  show ?case
  proof (cases "remaining c = []")
    case True
    then show ?thesis using c'(1) by (simp add: chunk_list.simps)
  next
    case False
    have k: "0 < chunk_cut c" "chunk_cut c \<le> length (remaining c)"
      using cut_len_bounds(1,4)[OF lt] False by (simp_all add: chunk_cut_def)
    then have "all_chunks n c' = Ok (with_starts (c_start c')
      (chunk_list (is_boundary c') (unat (c_min c')) (unat (c_max c')) (remaining c')))"
      using Suc.IH[OF c'(2,6)] Suc.prems(3) c'(4) by simp
    moreover have "take (chunk_cut c) (remaining c) \<noteq> []" using k False by simp
    moreover have "chunk_list (is_boundary c) (unat (c_min c)) (unat (c_max c)) (remaining c) =
       take (chunk_cut c) (remaining c) # chunk_list (is_boundary c) (unat (c_min c)) (unat (c_max c))
         (drop (chunk_cut c) (remaining c))"
      using False lt by (subst chunk_list.simps) (simp add: chunk_cut_def Let_def)
    ultimately show ?thesis using c' k by (simp add: same_cuts_def)
  qed
qed simp

lemma chunk_list_concat: "mn < mx \<Longrightarrow> concat (chunk_list b mn mx bs) = bs"
proof (induction b mn mx bs rule: chunk_list.induct)
  case (1 b mn mx bs)
  then show ?case by (subst chunk_list.simps) (simp add: Let_def)
qed

lemma chunk_list_sizes:
  assumes "mn < mx"
  shows "x \<in> set (chunk_list b mn mx bs) \<Longrightarrow> x \<noteq> [] \<and> length x \<le> mx"
    "x \<in> set (butlast (chunk_list b mn mx bs)) \<Longrightarrow> mn < length x"
proof -
  show "x \<in> set (chunk_list b mn mx bs) \<Longrightarrow> x \<noteq> [] \<and> length x \<le> mx"
  proof (induction b mn mx bs rule: chunk_list.induct)
    case (1 b mn mx bs)
    then show ?case using cut_len_bounds(1-3)[of mn mx b bs] cut_len_bounds(4)[of mn mx bs b]
      by (subst (asm) (2) chunk_list.simps) (auto simp: Let_def split: if_splits)
  qed
  show "x \<in> set (butlast (chunk_list b mn mx bs)) \<Longrightarrow> mn < length x"
    using assms
  proof (induction b mn mx bs rule: chunk_list.induct)
    case (1 b mn mx bs)
    let ?k = "cut_len b mn mx bs"
    have ne: "bs \<noteq> []" using "1.prems" by (auto simp: chunk_list.simps)
    then have "chunk_list b mn mx bs = take ?k bs # chunk_list b mn mx (drop ?k bs)"
      using "1.prems"(2) by (subst chunk_list.simps) (simp add: Let_def)
    moreover have "mn < ?k" if "drop ?k bs \<noteq> []"
      using that cut_len_bounds(3)[OF "1.prems"(2), of b bs] by auto
    ultimately have cl: "chunk_list b mn mx bs = take ?k bs # chunk_list b mn mx (drop ?k bs)"
      and k: "drop ?k bs \<noteq> [] \<Longrightarrow> mn < ?k" by blast+
    show ?case
    proof (cases "drop ?k bs = []")
      case True
      then show ?thesis using "1.prems"(1) cl by (simp add: chunk_list.simps)
    next
      case False
      then have "x = take ?k bs \<or> x \<in> set (butlast (chunk_list b mn mx (drop ?k bs)))"
        using "1.prems"(1) cl by (auto split: if_splits)
      then show ?thesis
        using "1.IH"[OF _ refl _ "1.prems"(2)] ne "1.prems"(2) k[OF False] cut_len_bounds(1)[OF "1.prems"(2), of b bs]
        by auto
    qed
  qed
qed


section \<open>A new chunker\<close>

lemma NewChunker_fields:
  assumes "NewChunker conv r mn avg mx = Ok c"
  shows "c_r c = r \<and> c_min c = mn \<and> c_max c = mx \<and> c_start c = 0 \<and> c_buf c = [] \<and> hitEOF c = False \<and>
     hValue c = 0 \<and> length (hWindow c) = ChunkerWindowSize \<and> hIdx c = 0 \<and>
     48 \<le> unat mn \<and> mn \<le> mx \<and> mn \<le> avg \<and> avg \<le> mx \<and>
     (let d = discriminatorFromAvg conv avg in
      hDiscriminator c = d \<and> hInverseOdd c = modInverse32 (drop_bit (TrailingZeros32 d) d) \<and>
      thresh_odd (drop_bit (TrailingZeros32 d) d) = Ok (hThreshOdd c) \<and> hDiscMinus1 c = d - 1 \<and>
      hTrailShift c = TrailingZeros32 d \<and> hTrailMask c = 2 ^ TrailingZeros32 d - 1)"
  using assms
  by (auto simp: NewChunker_def Let_def res_simps not_less ChunkerWindowSize_def word_le_nat_alt split: if_splits)

lemma NewChunker_inv:
  assumes "NewChunker conv r mn avg mx = Ok c" "mn < mx" "10 * unat mx \<le> max_alloc"
  shows "chunker_inv c" "remaining c = rd_data r"
  using NewChunker_fields[OF assms(1)] assms(2,3)
  by (auto simp: chunker_inv_def remaining_def ChunkerWindowSize_def)

lemma NewChunker_succeeds:
  assumes "48 \<le> unat mn" "mn \<le> avg" "avg \<le> mx" "discriminatorFromAvg conv avg \<noteq> 0"
  shows "\<exists>c. NewChunker conv r mn avg mx = Ok c"
proof -
  let ?d = "discriminatorFromAvg conv avg"
  have "drop_bit (TrailingZeros32 ?d) ?d \<noteq> 0" using TrailingZeros32_spec(1)[OF assms(4)] by auto
  moreover have "\<not> mn < 48" using assms(1) by (simp add: word_less_nat_alt)
  ultimately show ?thesis using assms(2,3) order_trans[OF assms(2,3)]
    by (auto simp: NewChunker_def Let_def thresh_odd_def ChunkerWindowSize_def not_less)
qed

lemma NewChunker_boundary:
  assumes "NewChunker conv r mn avg mx = Ok c"
  defines "d \<equiv> discriminatorFromAvg conv avg"
  shows "is_boundary c h = (if drop_bit (TrailingZeros32 d) d = 1 then False
     else unat h mod unat d = unat d - 1 \<or> unat h = unat d - 1 - 2 ^ 32 mod unat d)"
proof -
  let ?o = "drop_bit (TrailingZeros32 d) d"
  have f: "hInverseOdd c = modInverse32 ?o" "thresh_odd ?o = Ok (hThreshOdd c)" "hDiscMinus1 c = d - 1"
     "hTrailShift c = TrailingZeros32 d" "hTrailMask c = 2 ^ TrailingZeros32 d - 1"
    using NewChunker_fields[OF assms(1)] by (auto simp: Let_def d_def)
  then have "d \<noteq> 0" by (auto simp: thresh_odd_def split: if_splits)
  moreover have "?o \<noteq> 0" using f(2) by (auto simp: thresh_odd_def split: if_splits)
  then have "?o \<noteq> 1 \<Longrightarrow> 1 < unat ?o" by (metis One_nat_def less_one linorder_neqE_nat unat_1 unat_eq_0 word_unat_eq_iff)
  ultimately show ?thesis using lemire_test_iff[of d "hThreshOdd c" h] f thresh_odd_one
    by (auto simp: is_boundary_def lemire_test_thresh_0)
qed

lemma discriminator_100: "discriminatorFromAvg conv 100 = 75"
  by (simp add: discriminatorFromAvg_def disc_float_def float_eval)

lemma discriminator_86: "discriminatorFromAvg conv 86 = 64"
  by (simp add: discriminatorFromAvg_def disc_float_def float_eval)

text \<open>A discriminator that is a power of two: no boundary is ever found.\<close>

lemma chunk_list_no_boundary:
  assumes "\<And>h. \<not> b h" "mn < mx"
  shows "x \<in> set (butlast (chunk_list b mn mx bs)) \<Longrightarrow> length x = mx"
  using assms
proof (induction b mn mx bs rule: chunk_list.induct)
  case (1 b mn mx bs)
  let ?k = "cut_len b mn mx bs"
  have ne: "bs \<noteq> []" using "1.prems"(1) by (auto simp: chunk_list.simps)
  then have cl: "chunk_list b mn mx bs = take ?k bs # chunk_list b mn mx (drop ?k bs)"
    using "1.prems"(3) by (subst chunk_list.simps) (simp add: Let_def)
  have "find (boundary_at b bs) xs = None" for xs using "1.prems"(2) by (auto simp: find_None_iff boundary_at_def)
  then have k: "?k = min (length bs) mx" using "1.prems"(3) by (simp add: cut_len_def first_boundary_def)
  show ?case
  proof (cases "drop ?k bs = []")
    case True
    then show ?thesis using "1.prems"(1) cl by (simp add: chunk_list.simps)
  next
    case False
    then have "x = take ?k bs \<or> x \<in> set (butlast (chunk_list b mn mx (drop ?k bs)))"
      using "1.prems"(1) cl by (auto split: if_splits)
    then show ?thesis using "1.IH"[OF _ refl _ "1.prems"(2,3)] ne "1.prems"(3) k False by auto
  qed
qed

lemma with_starts_nth:
  "i < length bs \<Longrightarrow> with_starts s bs ! i = (s + word_of_nat (length (concat (take i bs))), bs ! i)"
  by (induction bs arbitrary: s i) (auto simp: nth_Cons split: nat.splits)

lemma length_with_starts [simp]: "length (with_starts s bs) = length bs"
  by (induction bs arbitrary: s) auto

lemma map_snd_with_starts [simp]: "map snd (with_starts s bs) = bs"
  by (induction bs arbitrary: s) auto

lemma nth_in_butlast: "Suc i < length l \<Longrightarrow> l ! i \<in> set (butlast l)"
  by (metis length_butlast less_diff_conv nth_butlast nth_mem plus_1_eq_Suc add.commute)

lemma NewChunker_all_chunks:
  assumes "NewChunker conv r mn avg mx = Ok c" "mn < mx" "10 * unat mx \<le> max_alloc" "rd_end r = EOF"
  shows "all_chunks (Suc (length (rd_data r))) c =
     Ok (with_starts 0 (chunk_list (is_boundary c) (unat mn) (unat mx) (rd_data r)))"
  using all_chunks_spec[of c "Suc (length (rd_data r))"] NewChunker_inv[OF assms(1-3)]
    NewChunker_fields[OF assms(1)] assms(4) by simp

lemma scan_loop_stop:
  "pos < length (c_buf c) \<Longrightarrow> idx < length win \<Longrightarrow> m \<le> int (pos + 1) \<Longrightarrow>
   \<exists>h' win' idx'. scan_loop c m h win idx pos = Ok (Suc pos, h', win', idx')"
  by (subst scan_loop.simps) (simp add: Let_def)

section \<open>Properties\<close>

definition sample_source :: source where
  "sample_source = \<lparr>rd_data = replicate 300 7, rd_end = EOF, rd_sizes = [3, 0, 50], rd_eager = True,
     rd_seeker = False\<rparr>"

text \<open>
  (C6) The chunker refines its specification: over any reader of the same data (whatever the sizes of
  its reads, whether it reports the end with the last bytes or after them), asking for chunks until
  an empty one comes back returns the chunks of the specification, which cuts the whole data at
  the first window hash that is a boundary between the minimum and the maximum size, each with its
  offset. So buffering, buffer refills and the rolling computation of the hash have no influence on
  where a stream is cut, and the loop ends. The minimum size is below the maximum and the reader ends
  with \<open>io.EOF\<close>.
\<close>

theorem chunker_refines_spec:
  assumes "NewChunker conv r mn avg mx = Ok c" "mn < mx" "10 * unat mx \<le> max_alloc" "rd_end r = EOF"
  shows "all_chunks (Suc (length (rd_data r))) c =
     Ok (with_starts 0 (chunk_list (is_boundary c) (unat mn) (unat mx) (rd_data r)))"
  using assms by (rule NewChunker_all_chunks)

theorem chunker_refines_spec_witness:
  "\<exists>c. NewChunker (\<lambda>_. 0) sample_source 64 100 200 = Ok c \<and>
     all_chunks (Suc (length (rd_data sample_source))) c =
       Ok (with_starts 0 (chunk_list (is_boundary c) (unat (64 :: u64)) (unat (200 :: u64)) (rd_data sample_source)))"
proof -
  obtain c where c: "NewChunker (\<lambda>_. 0) sample_source 64 100 200 = Ok c"
    using NewChunker_succeeds[of 64 100 200 "\<lambda>_. 0" sample_source] by (auto simp: discriminator_100)
  from chunker_refines_spec[OF c] c show ?thesis by (simp add: max_alloc_def sample_source_def)
qed

text \<open>
  (C20) For a minimum size below the maximum size and a reader that ends with \<open>io.EOF\<close>: the chunks of a
  stream, put together, are the stream; every chunk is at most the maximum size, every chunk but the
  last is larger than the minimum size, and each is reported at the offset where the ones before it
  end. (\<open>NewChunker\<close> also accepts equal sizes; a chunk can then be one byte larger than the maximum.)
\<close>

theorem chunker_partition:
  assumes "NewChunker conv r mn avg mx = Ok c" "mn < mx" "10 * unat mx \<le> max_alloc" "rd_end r = EOF"
    "all_chunks (Suc (length (rd_data r))) c = Ok cs"
  shows "concat (map snd cs) = rd_data r \<and>
     (\<forall>i < length cs. snd (cs ! i) \<noteq> [] \<and> length (snd (cs ! i)) \<le> unat mx \<and>
        (Suc i < length cs \<longrightarrow> unat mn < length (snd (cs ! i))) \<and>
        fst (cs ! i) = word_of_nat (length (concat (map snd (take i cs)))))"
proof -
  let ?l = "chunk_list (is_boundary c) (unat mn) (unat mx) (rd_data r)"
  have lt: "unat mn < unat mx" using assms(2) by (simp add: word_less_nat_alt)
  have cs: "cs = with_starts 0 ?l"
    using NewChunker_all_chunks[OF assms(1-4)] assms(5) by simp
  have mid: "unat mn < length (?l ! i)" if "Suc i < length ?l" for i
    using chunk_list_sizes(2)[OF lt nth_in_butlast[OF that]] .
  have "map snd (take i cs) = take i ?l" for i unfolding take_map[symmetric] cs by simp
  then show ?thesis
    using chunk_list_concat[OF lt] chunk_list_sizes(1)[OF lt nth_mem] mid cs by (simp add: with_starts_nth)
qed

theorem chunker_partition_witness:
  "\<exists>c cs. NewChunker (\<lambda>_. 0) sample_source 64 100 200 = Ok c \<and>
     all_chunks (Suc (length (rd_data sample_source))) c = Ok cs \<and>
     concat (map snd cs) = rd_data sample_source \<and>
     (\<forall>i < length cs. snd (cs ! i) \<noteq> [] \<and> length (snd (cs ! i)) \<le> unat (200 :: u64) \<and>
        (Suc i < length cs \<longrightarrow> unat (64 :: u64) < length (snd (cs ! i))) \<and>
        fst (cs ! i) = word_of_nat (length (concat (map snd (take i cs)))))"
proof -
  obtain c where c: "NewChunker (\<lambda>_. 0) sample_source 64 100 200 = Ok c"
    using NewChunker_succeeds[of 64 100 200 "\<lambda>_. 0" sample_source] by (auto simp: discriminator_100)
  then obtain cs where "all_chunks (Suc (length (rd_data sample_source))) c = Ok cs"
    using NewChunker_all_chunks[OF c] by (auto simp: max_alloc_def sample_source_def)
  with chunker_partition[OF c _ _ _ this] c show ?thesis
    by (auto simp: max_alloc_def sample_source_def)
qed

text \<open>
  (C26) The division-free boundary test, with the constants \<open>NewChunker\<close> computes for a discriminator
  \<open>d\<close> that is not a power of two, holds exactly for the hash values with remainder \<open>d - 1\<close> and one
  more, \<open>d - 1 - (2^32 mod d)\<close>, for which the subtraction in it wraps around. The comment in the code
  claims equivalence with the remainder test.
\<close>

theorem boundary_test_exact:
  assumes "NewChunker conv r mn avg mx = Ok c" "d = discriminatorFromAvg conv avg"
    "drop_bit (TrailingZeros32 d) d \<noteq> 1"
  shows "is_boundary c h \<longleftrightarrow>
     unat h mod unat d = unat d - 1 \<or> unat h = unat d - 1 - 2 ^ 32 mod unat d"
  using NewChunker_boundary[OF assms(1), of h] assms(2,3) by simp

theorem boundary_test_exact_witness:
  "\<exists>c. NewChunker (\<lambda>_. 0) sample_source 64 100 200 = Ok c \<and>
     (is_boundary c 58 \<longleftrightarrow> unat (58 :: u32) mod unat (75 :: u32) = unat (75 :: u32) - 1 \<or>
        unat (58 :: u32) = unat (75 :: u32) - 1 - 2 ^ 32 mod unat (75 :: u32))"
proof -
  obtain c where c: "NewChunker (\<lambda>_. 0) sample_source 64 100 200 = Ok c"
    using NewChunker_succeeds[of 64 100 200 "\<lambda>_. 0" sample_source] by (auto simp: discriminator_100)
  have "drop_bit (TrailingZeros32 75) (75 :: u32) \<noteq> 1"
    using trailing_zeros.simps(2)[of 31 75] by (simp add: TrailingZeros32_def bit_0)
  with boundary_test_exact[OF c, of 75 58] c show ?thesis by (simp only: discriminator_100) blast
qed

text \<open>
  When the average size gives a discriminator that is a power of two, the threshold of the test
  overflows to zero and no boundary is ever found: every chunk but the last has the maximum size,
  so that the chunks no longer follow the content.
\<close>

theorem power_of_two_never_cuts:
  assumes "NewChunker conv r mn avg mx = Ok c" "mn < mx" "10 * unat mx \<le> max_alloc" "rd_end r = EOF"
    "discriminatorFromAvg conv avg = 2 ^ k" "k < 32"
    "all_chunks (Suc (length (rd_data r))) c = Ok cs" "Suc i < length cs"
  shows "length (snd (cs ! i)) = unat mx"
proof -
  let ?d = "discriminatorFromAvg conv avg" and ?l = "chunk_list (is_boundary c) (unat mn) (unat mx) (rd_data r)"
  have d0: "?d \<noteq> 0" using assms(5,6) by (simp add: exp_eq_0_imp_not_bit)
  have "drop_bit (TrailingZeros32 ?d) ?d = 1"
  proof (rule ccontr)
    let ?o = "drop_bit (TrailingZeros32 ?d) ?d"
    assume "?o \<noteq> 1"
    moreover have "?o \<noteq> 0" using TrailingZeros32_spec(1)[OF d0] by auto
    ultimately have "1 < unat ?o"
      by (metis One_nat_def less_one linorder_neqE_nat unat_1 unat_eq_0 word_unat_eq_iff)
    from odd_part_not_dvd[OF d0 this] have "\<not> unat (2 ^ k :: u32) dvd 2 ^ 32"
      unfolding assms(5) dvd_eq_mod_eq_0 .
    moreover have "unat (2 ^ k :: u32) = 2 ^ k"
      using unat_of_nat[of "2 ^ k", where 'a = 32] power_strict_increasing[of k 32 "2 :: nat"] assms(6)
      by simp
    moreover have "2 ^ k dvd (2 ^ 32 :: nat)" using assms(6) by (intro le_imp_power_dvd) simp
    ultimately show False by simp
  qed
  then have nb: "\<not> is_boundary c h" for h using NewChunker_boundary[OF assms(1), of h] by simp
  have lt: "unat mn < unat mx" using assms(2) by (simp add: word_less_nat_alt)
  have cs: "cs = with_starts 0 ?l"
    using NewChunker_all_chunks[OF assms(1-4)] assms(7) by simp
  then have "?l ! i \<in> set (butlast ?l)" using assms(8) nth_in_butlast[of i ?l] by simp
  from chunk_list_no_boundary[OF nb lt this] cs assms(8) show ?thesis by (simp add: with_starts_nth)
qed

theorem power_of_two_never_cuts_witness:
  "\<exists>c cs. NewChunker (\<lambda>_. 0) sample_source 64 86 100 = Ok c \<and>
     all_chunks (Suc (length (rd_data sample_source))) c = Ok cs \<and> length (snd (cs ! 0)) = unat (100 :: u64)"
proof -
  let ?r = sample_source
  obtain c where c: "NewChunker (\<lambda>_. 0) ?r 64 86 100 = Ok c"
    using NewChunker_succeeds[of 64 86 100 "\<lambda>_. 0" ?r] by (auto simp: discriminator_86)
  let ?l = "chunk_list (is_boundary c) (unat (64 :: u64)) (unat (100 :: u64)) (rd_data ?r)"
  have cs: "all_chunks (Suc (length (rd_data ?r))) c = Ok (with_starts 0 ?l)"
    using NewChunker_all_chunks[OF c] by (simp add: max_alloc_def sample_source_def)
  have "concat ?l = rd_data ?r" by (rule chunk_list_concat) simp
  moreover have "x \<in> set ?l \<Longrightarrow> length x \<le> 100" for x using chunk_list_sizes(1)[of 64 100 x] by simp
  ultimately have "1 < length ?l"
    by (cases ?l rule: list.exhaust; cases "tl ?l") (auto simp: sample_source_def, fastforce?)
  then have "length (snd (with_starts 0 ?l ! 0)) = unat (100 :: u64)"
    using power_of_two_never_cuts[OF c _ _ _ _ _ cs, of 6 0]
    by (simp add: max_alloc_def sample_source_def discriminator_86)
  with c cs show ?thesis by blast
qed

text \<open>
  \<open>NewChunker\<close> accepts equal minimum and maximum sizes, and then, as long as more data is left in
  the buffer, \<open>Next\<close> returns a chunk that is one byte larger than the maximum.
\<close>

theorem equal_sizes_exceed_max:
  assumes "NewChunker conv r mn mn mn = Ok c" "10 * unat mn \<le> max_alloc" "rd_end r = EOF"
    "unat mn < length (rd_data r)"
  shows "\<exists>c'. Chunker_Next c = Ok (0, take (Suc (unat mn)) (rd_data r), None, c')"
proof -
  note f = NewChunker_fields[OF assms(1)]
  let ?m = "unat mn" and ?d = "rd_data r"
  have mx: "10 * ?m \<le> 2 ^ 48" using assms(2) by (simp add: max_alloc_def)
  then have sm: "sint mn = int ?m" by (intro sint_small_u64) simp
  have sz: "unat (10 * mn) = 10 * ?m" using mx by (subst unat_word_ariths) simp
  obtain buf err r' where fl: "fill_loop (10 * ?m) r [] = (buf, err, r')" by (cases "fill_loop (10 * ?m) r []")
  have b: "buf @ rd_data r' = ?d" "case err of None \<Rightarrow> length buf = 10 * ?m | Some e \<Rightarrow> e = EOF \<and> rd_data r' = []"
    using fill_loop_spec[OF fl] assms(3) by (auto split: option.splits)
  have m48: "48 \<le> ?m" using f by simp
  have lb: "?m < length buf"
  proof (cases err)
    case None
    then show ?thesis using b(2) m48 by simp
  next
    case (Some e)
    then have "buf = ?d" using b by simp
    then show ?thesis using assms(4) by simp
  qed
  define c1 where "c1 = (let c1 = c\<lparr>c_r := r', c_buf := buf, c_cap := max (c_cap c) (10 * ?m)\<rparr>
     in if err = Some EOF then c1\<lparr>hitEOF := True\<rparr> else c1)"
  have c1: "c_buf c1 = buf" "c_min c1 = mn" "c_max c1 = mn" "c_start c1 = 0" "hIdx c1 = 0"
    using f by (simp_all add: c1_def Let_def)
  have fb: "fillBuffer c = Ok (length buf, None, c1)"
    using f sz fl assms(2) b(2) by (auto simp: fillBuffer_def c1_def Let_def split: option.splits)
  have "length (slice buf (?m - ChunkerWindowSize) ?m) = ChunkerWindowSize"
    using lb m48 by (simp add: ChunkerWindowSize_def)
  then obtain h win idx where "scan_loop c1 (int ?m) (init_hash (hValue c1) ChunkerWindowSize (slice buf (?m - ChunkerWindowSize) ?m))
      (slice buf (?m - ChunkerWindowSize) ?m) 0 ?m = Ok (Suc ?m, h, win, idx)"
    using scan_loop_stop[of ?m c1 0 "slice buf (?m - ChunkerWindowSize) ?m" "int ?m"
        "init_hash (hValue c1) ChunkerWindowSize (slice buf (?m - ChunkerWindowSize) ?m)"] lb c1(1)
    by (auto simp: ChunkerWindowSize_def)
  moreover have "min (int (length buf)) (sint mn) = int ?m" "\<not> int (length buf) \<le> sint mn"
    unfolding sm using lb by (simp_all only: of_nat_le_iff of_nat_min[symmetric] min.absorb2 less_imp_le not_le)
  ultimately have "\<exists>c'. next_cut c1 = Ok (0, take (Suc ?m) buf, None, c')"
    using c1 by (auto simp: next_cut_def split_chunk_def Let_def)
  moreover have "take (Suc ?m) buf = take (Suc ?m) ?d" using b(1) lb by (metis Suc_leI take_append take_all_iff append_Nil2 diff_is_0_eq take0)
  moreover have "int (length (c_buf c)) < sint (c_max c)"
  proof -
    have "int 0 < int ?m" unfolding of_nat_less_iff using m48 by simp
    then show ?thesis using f sm by simp
  qed
  ultimately show ?thesis using fb by (simp add: Chunker_Next_def)
qed

theorem equal_sizes_exceed_max_witness:
  "\<exists>c c'. NewChunker (\<lambda>_. 0) sample_source 100 100 100 = Ok c \<and>
     Chunker_Next c = Ok (0, take (Suc (unat (100 :: u64))) (rd_data sample_source), None, c')"
proof -
  obtain c where c: "NewChunker (\<lambda>_. 0) sample_source 100 100 100 = Ok c"
    using NewChunker_succeeds[of 100 100 100 "\<lambda>_. 0" sample_source] by (auto simp: discriminator_100)
  from equal_sizes_exceed_max[OF c] c show ?thesis by (simp add: max_alloc_def sample_source_def)
qed

text \<open>A sequence of bytes rolled through a \<open>Hash\<close>.\<close>

fun roll_all :: "Hash \<Rightarrow> bytes \<Rightarrow> Hash res" where
  "roll_all h [] = Ok h"
| "roll_all h (b # bs) = bind_res (Hash_Roll h b) (\<lambda>h. roll_all h bs)"

definition hash_ok :: "Hash \<Rightarrow> bytes \<Rightarrow> bool" where
  "hash_ok h w \<longleftrightarrow> w \<noteq> [] \<and> length (ha_window h) = length w \<and> ha_size h = length w \<and> ha_idx h < length w \<and>
     rotate (ha_idx h) (ha_window h) = w \<and> ha_value h = hash_of w"

lemma Hash_Roll_ok:
  assumes "hash_ok h w"
  shows "\<exists>h'. Hash_Roll h b = Ok h' \<and> hash_ok h' (tl w @ [b]) \<and> ha_discriminator h' = ha_discriminator h"
proof -
  obtain x xs where w: "w = x # xs" using assms by (cases w) (auto simp: hash_ok_def)
  have h: "length (ha_window h) = Suc (length xs)" "ha_idx h < length (ha_window h)"
    "rotate (ha_idx h) (ha_window h) = x # xs" "ha_value h = hash_of (x # xs)" "ha_size h = Suc (length xs)"
    using assms w by (simp_all add: hash_ok_def)
  have i: "(ha_idx h + 1) mod Suc (length xs) = (if ha_idx h + 1 \<ge> length (ha_window h) then 0 else ha_idx h + 1)"
    using h(1,2) by (cases "ha_idx h = length xs") simp_all
  have "rotate ((ha_idx h + 1) mod Suc (length xs)) ((ha_window h)[ha_idx h := b]) = xs @ [b]"
    unfolding i by (rule rotate_window(2)[OF h(2,3)])
  then show ?thesis
    using h rotate_window(1)[OF h(2,3)] hash_of_roll[of xs b x]
    by (simp add: Hash_Roll_def Let_def hash_ok_def w)
qed

lemma roll_all_ok:
  "hash_ok h w \<Longrightarrow> \<exists>h'. roll_all h bs = Ok h' \<and> hash_ok h' (drop (length bs) (w @ bs)) \<and>
     ha_discriminator h' = ha_discriminator h"
proof (induction bs arbitrary: h w)
  case (Cons b bs)
  obtain h' where h': "Hash_Roll h b = Ok h'" "hash_ok h' (tl w @ [b])" "ha_discriminator h' = ha_discriminator h"
    using Hash_Roll_ok[OF Cons.prems] by blast
  have "w \<noteq> []" using Cons.prems by (simp add: hash_ok_def)
  then have "drop (length bs) ((tl w @ [b]) @ bs) = drop (length (b # bs)) (w @ b # bs)" by (cases w) auto
  then show ?case using Cons.IH[OF h'(2)] h' by auto
qed auto

text \<open>
  The stand-alone \<open>Hash\<close> type computes the same function as the loop of the chunker: after
  initialising it with a window and rolling further bytes through it, its value is the hash of the
  last window, and its boundary test is the plain remainder test on that value.
\<close>

theorem hash_type_window:
  assumes "w \<noteq> []" "d \<noteq> 0"
  shows "\<exists>h. roll_all (Hash_Initialize (NewHash (length w) d) w) bs = Ok h \<and>
     ha_value h = hash_of (drop (length bs) (w @ bs)) \<and>
     Hash_IsBoundary h = Ok (hash_of (drop (length bs) (w @ bs)) mod d = d - 1)"
proof -
  have "hash_ok (Hash_Initialize (NewHash (length w) d) w) w"
    using assms(1) init_hash[of 0 w] by (simp add: hash_ok_def Hash_Initialize_def NewHash_def)
  from roll_all_ok[OF this, of bs] obtain h where
    h: "roll_all (Hash_Initialize (NewHash (length w) d) w) bs = Ok h"
      "hash_ok h (drop (length bs) (w @ bs))" "ha_discriminator h = d"
    by (auto simp: Hash_Initialize_def NewHash_def)
  then have "ha_value h = hash_of (drop (length bs) (w @ bs))" by (simp only: hash_ok_def)
  with h(1,3) assms(2) show ?thesis by (simp add: Hash_IsBoundary_def)
qed

theorem hash_type_window_witness:
  "\<exists>h. roll_all (Hash_Initialize (NewHash (length [1, 2 :: byte]) 5) [1, 2 :: byte]) [3] = Ok h \<and>
     ha_value h = hash_of (drop (length [3 :: byte]) ([1, 2] @ [3])) \<and>
     Hash_IsBoundary h = Ok (hash_of (drop (length [3 :: byte]) ([1, 2] @ [3])) mod 5 = 5 - 1)"
  by (rule hash_type_window) simp_all

end
