(* ===== verification/Chunk.thy ===== *)
theory Chunk
  imports Chunk_ID
begin

text \<open>
  Chunks and their storage formats (\<^verbatim>\<open>src/chunk.go\<close>, \<^verbatim>\<open>src/coverter.go\<close>, \<^verbatim>\<open>src/nullchunk.go\<close>,
  the options of \<^verbatim>\<open>src/store.go\<close>).

  The digest (\<^verbatim>\<open>src/digest.go\<close> calls SHA512/256 or SHA256 of the standard library) and the
  compression (a third-party zstd package) are parameters, collected in a record. What the code
  relies on is \<open>codec_ok\<close>: a digest has 32 bytes, and decompressing a compressed block gives
  the block back, and a block that is not empty is never stored as zero bytes.
\<close>

section \<open>Digest and compression\<close>

record codec_fns =
  Digest_Sum :: "bytes \<Rightarrow> chunk_id"
  Compress :: "bytes \<Rightarrow> bytes"
  Decompress :: "bytes \<Rightarrow> bytes res"

definition codec_ok :: "codec_fns \<Rightarrow> bool" where
  "codec_ok cr \<longleftrightarrow> (\<forall>b. is_chunk_id (Digest_Sum cr b)) \<and>
     (\<forall>b. Decompress cr (Compress cr b) = Ok b) \<and> (\<forall>b. b \<noteq> [] \<longrightarrow> Compress cr b \<noteq> [])"

lemma sum_len: "codec_ok cr \<Longrightarrow> is_chunk_id (Digest_Sum cr b)"
  by (simp add: codec_ok_def)

section \<open>Converters\<close>

datatype converter = Compressor

type_synonym converters = "converter list"

fun converter_toStorage :: "codec_fns \<Rightarrow> converter \<Rightarrow> bytes \<Rightarrow> bytes res" where
  "converter_toStorage cr Compressor b = Ok (Compress cr b)"

fun converter_fromStorage :: "codec_fns \<Rightarrow> converter \<Rightarrow> bytes \<Rightarrow> bytes res" where
  "converter_fromStorage cr Compressor b = Decompress cr b"

fun toStorage :: "codec_fns \<Rightarrow> converters \<Rightarrow> bytes \<Rightarrow> bytes res" where
  "toStorage cr [] b = Ok b"
| "toStorage cr (l # ls) b = bind_res (converter_toStorage cr l b) (toStorage cr ls)"

text \<open>The layers backwards: \<open>fromStorage_rev\<close> gets them reversed.\<close>

fun fromStorage_rev :: "codec_fns \<Rightarrow> converters \<Rightarrow> bytes \<Rightarrow> bytes res" where
  "fromStorage_rev cr [] b = Ok b"
| "fromStorage_rev cr (l # ls) b = bind_res (converter_fromStorage cr l b) (fromStorage_rev cr ls)"

definition fromStorage :: "codec_fns \<Rightarrow> converters \<Rightarrow> bytes \<Rightarrow> bytes res" where
  "fromStorage cr s b = fromStorage_rev cr (rev s) b"

definition hasCompression :: "converters \<Rightarrow> bool" where
  "hasCompression s \<longleftrightarrow> (\<exists>l \<in> set s. l = Compressor)"

fun converter_equal :: "converter \<Rightarrow> converter \<Rightarrow> bool" where
  "converter_equal Compressor Compressor = True"

fun converters_equal :: "converters \<Rightarrow> converters \<Rightarrow> bool" where
  "converters_equal [] [] = True"
| "converters_equal (a # as) (b # bs) = (converter_equal a b \<and> converters_equal as bs)"
| "converters_equal _ _ = False"

section \<open>Store options\<close>

text \<open>
  The options of a store, with their defaults; durations are in nanoseconds. \<open>UnmarshalJSON\<close> sets the
  defaults of the retries and then lets the JSON package overwrite the fields that are present:
  decoding is a parameter, a function on the options that were there before.
\<close>

definition DefaultErrorRetry :: int where
  "DefaultErrorRetry = 3"

definition DefaultErrorRetryBaseInterval :: int where
  "DefaultErrorRetryBaseInterval = 500 * 1000000"

record StoreOptions =
  opt_N :: int
  ClientCert :: string
  ClientKey :: string
  CACert :: string
  TrustInsecure :: bool
  HTTPAuth :: string
  HTTPCookie :: string
  Timeout :: int
  ErrorRetry :: int
  ErrorRetryBaseInterval :: int
  SkipVerify :: bool
  Uncompressed :: bool

definition zero_options :: StoreOptions where
  "zero_options = \<lparr>opt_N = 0, ClientCert = [], ClientKey = [], CACert = [], TrustInsecure = False,
     HTTPAuth = [], HTTPCookie = [], Timeout = 0, ErrorRetry = 0, ErrorRetryBaseInterval = 0,
     SkipVerify = False, Uncompressed = False\<rparr>"

definition NewStoreOptionsWithDefaults :: StoreOptions where
  "NewStoreOptionsWithDefaults =
     zero_options\<lparr>ErrorRetry := DefaultErrorRetry, ErrorRetryBaseInterval := DefaultErrorRetryBaseInterval\<rparr>"

lemma zero_options_simps [simp]: "SkipVerify zero_options = False" "Uncompressed zero_options = False"
  by (simp_all add: zero_options_def)

definition StoreOptions_UnmarshalJSON ::
  "(bytes \<Rightarrow> StoreOptions \<Rightarrow> unit res \<times> StoreOptions) \<Rightarrow> StoreOptions \<Rightarrow> bytes \<Rightarrow> unit res \<times> StoreOptions" where
  "StoreOptions_UnmarshalJSON unmarshal opt data =
     unmarshal data (opt\<lparr>ErrorRetry := DefaultErrorRetry, ErrorRetryBaseInterval := DefaultErrorRetryBaseInterval\<rparr>)"

definition options_converters :: "StoreOptions \<Rightarrow> converters" where
  "options_converters o' = (if Uncompressed o' then [] else [Compressor])"

section \<open>Chunks\<close>

text \<open>
  A chunk is mutable: the plain data and the identifier are kept once they have been computed.
  The methods return the chunk they leave behind.
\<close>

record Chunk =
  ch_data :: bytes
  ch_storage :: bytes
  ch_converters :: converters
  ch_id :: chunk_id
  ch_idCalculated :: bool

definition NewChunk :: "bytes \<Rightarrow> Chunk" where
  "NewChunk b = \<lparr>ch_data = b, ch_storage = [], ch_converters = [], ch_id = zero_id, ch_idCalculated = False\<rparr>"

definition Chunk_Data :: "codec_fns \<Rightarrow> Chunk \<Rightarrow> bytes res \<times> Chunk" where
  "Chunk_Data cr c =
     (if ch_data c \<noteq> [] then (Ok (ch_data c), c)
      else if ch_storage c \<noteq> [] then
        (case fromStorage cr (ch_converters c) (ch_storage c) of
           Ok b \<Rightarrow> (Ok b, c\<lparr>ch_data := b\<rparr>)
         | r \<Rightarrow> (r, c))
      else (Err (Errorf ''no data in chunk''), c))"

definition Chunk_ID :: "codec_fns \<Rightarrow> Chunk \<Rightarrow> chunk_id \<times> Chunk" where
  "Chunk_ID cr c =
     (if ch_idCalculated c then (ch_id c, c)
      else case Chunk_Data cr c of
        (Ok b, c') \<Rightarrow> (Digest_Sum cr b, c'\<lparr>ch_id := Digest_Sum cr b, ch_idCalculated := True\<rparr>)
      | (_, c') \<Rightarrow> (zero_id, c'))"

definition Chunk_Storage :: "codec_fns \<Rightarrow> Chunk \<Rightarrow> converters \<Rightarrow> bytes res \<times> Chunk" where
  "Chunk_Storage cr c modifiers =
     (if ch_storage c \<noteq> [] \<and> converters_equal modifiers (ch_converters c) then (Ok (ch_storage c), c)
      else case Chunk_Data cr c of
        (Ok b, c') \<Rightarrow> (toStorage cr modifiers b, c')
      | (r, c') \<Rightarrow> (r, c'))"

text \<open>The part the two constructors share: trust the identifier, or compare it with the digest.\<close>

definition verify_new :: "codec_fns \<Rightarrow> chunk_id \<Rightarrow> bool \<Rightarrow> Chunk \<Rightarrow> Chunk res" where
  "verify_new cr cid skipVerify c =
     (if skipVerify then Ok (c\<lparr>ch_idCalculated := True\<rparr>)
      else case Chunk_ID cr c of (s, c') \<Rightarrow> if s \<noteq> cid then Err (ChunkInvalid cid s) else Ok c')"

definition NewChunkWithID :: "codec_fns \<Rightarrow> chunk_id \<Rightarrow> bytes \<Rightarrow> bool \<Rightarrow> Chunk res" where
  "NewChunkWithID cr cid b skipVerify =
     verify_new cr cid skipVerify
       \<lparr>ch_data = b, ch_storage = [], ch_converters = [], ch_id = cid, ch_idCalculated = False\<rparr>"

definition NewChunkFromStorage ::
  "codec_fns \<Rightarrow> chunk_id \<Rightarrow> bytes \<Rightarrow> converters \<Rightarrow> bool \<Rightarrow> Chunk res" where
  "NewChunkFromStorage cr cid b modifiers skipVerify =
     verify_new cr cid skipVerify
       \<lparr>ch_data = [], ch_storage = b, ch_converters = modifiers, ch_id = cid, ch_idCalculated = False\<rparr>"

record NullChunk =
  nc_data :: bytes
  nc_id :: chunk_id

definition NewNullChunk :: "codec_fns \<Rightarrow> u64 \<Rightarrow> NullChunk res" where
  "NewNullChunk cr sz = bind_res (make_bytes sz) (\<lambda>b. Ok \<lparr>nc_data = b, nc_id = Digest_Sum cr b\<rparr>)"

section \<open>Lemmas\<close>

lemma converter_eq: "(l :: converter) = Compressor"
  by (cases l) simp

lemma converter_equal_iff [simp]: "converter_equal a b \<longleftrightarrow> a = b"
  by (cases a; cases b) simp

lemma converters_equal_iff: "converters_equal as bs \<longleftrightarrow> as = bs"
  by (induction as bs rule: converters_equal.induct) auto

text \<open>A chunk that is what its identifier says.\<close>

definition chunk_valid :: "codec_fns \<Rightarrow> chunk_id \<Rightarrow> Chunk \<Rightarrow> bool" where
  "chunk_valid cr cid c \<longleftrightarrow>
     (\<exists>b. fst (Chunk_Data cr c) = Ok b \<and> Digest_Sum cr b = cid) \<and> fst (Chunk_ID cr c) = cid"

lemma Chunk_Data_again: "Chunk_Data cr c = (r, c') \<Longrightarrow> Chunk_Data cr c' = (r, c')"
  by (auto simp: Chunk_Data_def split: if_splits res.splits)

lemma verify_new_valid:
  assumes "verify_new cr cid False c = Ok c'" "cid \<noteq> zero_id" "\<not> ch_idCalculated c"
  shows "chunk_valid cr cid c'"
proof -
  obtain b c1 where d: "Chunk_Data cr c = (Ok b, c1)" "Digest_Sum cr b = cid"
    "c' = c1\<lparr>ch_id := cid, ch_idCalculated := True\<rparr>"
    using assms by (auto simp: verify_new_def Chunk_ID_def split: if_splits prod.splits res.splits)
  have "fst (Chunk_Data cr c') = fst (Chunk_Data cr c1)"
    by (simp add: d(3) Chunk_Data_def split: res.splits)
  with d Chunk_Data_again[OF d(1)] show ?thesis by (simp add: chunk_valid_def Chunk_ID_def)
qed

lemma NewChunkFromStorage_valid:
  "NewChunkFromStorage cr cid b ms False = Ok c \<Longrightarrow> cid \<noteq> zero_id \<Longrightarrow> chunk_valid cr cid c"
  unfolding NewChunkFromStorage_def by (erule verify_new_valid) simp_all

lemma NewChunkWithID_valid:
  "NewChunkWithID cr cid b False = Ok c \<Longrightarrow> cid \<noteq> zero_id \<Longrightarrow> chunk_valid cr cid c"
  unfolding NewChunkWithID_def by (erule verify_new_valid) simp_all

lemma toStorage_Ok:
  assumes "codec_ok cr"
  shows "\<exists>b'. toStorage cr ms b = Ok b' \<and> fromStorage cr ms b' = Ok b \<and> (b \<noteq> [] \<longrightarrow> b' \<noteq> [])"
proof -
  have rev: "fromStorage_rev cr (ls @ [l]) b = bind_res (fromStorage_rev cr ls b) (converter_fromStorage cr l)"
    for ls l b 
  proof (induction ls arbitrary: b)
    case Nil
    then show ?case by (cases "converter_fromStorage cr l b") simp_all
  next
    case (Cons a ls)
    then show ?case by (simp add: bind_res_assoc cong: bind_res_cong)
  qed
  show ?thesis
  proof (induction ms arbitrary: b)
    case (Cons m ms)
    obtain b' where b': "toStorage cr ms (Compress cr b) = Ok b'" "fromStorage cr ms b' = Ok (Compress cr b)"
      "Compress cr b \<noteq> [] \<longrightarrow> b' \<noteq> []" using Cons.IH by blast
    moreover have "b \<noteq> [] \<longrightarrow> b' \<noteq> []" using b'(3) assms by (auto simp: codec_ok_def)
    ultimately show ?case
      using assms by (simp add: codec_ok_def fromStorage_def rev converter_eq[of m])
  qed (simp add: fromStorage_def)
qed

end
