(* ===== verification/LocalStore.thy ===== *)
theory LocalStore
  imports Chunk Consts "HOL-Library.AList" "HOL-Library.Sublist"
begin

text \<open>
  Chunk stores in a directory (\<^verbatim>\<open>src/local.go\<close>). A chunk is one file, named after its identifier
  below a directory of the first four digits; it is written under a temporary name and renamed.

  The file system is an association list from paths to files. A file can be unreadable, so that
  reading it fails with an error other than \<open>os.IsNotExist\<close>, and the operating system can refuse to
  tell about it or to remove it: \<open>os.Stat\<close> and \<open>os.Remove\<close> then fail. Directories are not represented.
  What may be refused while a chunk is stored is part of a record of faults, so that the model has a
  branch for every error return; \<open>StoreChunk\<close> yields the states the file system goes through, the last
  one being the result. What \<open>filepath.Walk\<close> calls its function with, errors included, is an argument
  of \<open>Verify\<close> and \<open>Prune\<close>, and so is the context. The base directory is a clean path, so that
  \<open>filepath.Join\<close> puts a slash between its arguments.
\<close>

section \<open>The file system\<close>

record disk_file =
  f_bytes :: bytes
  f_readable :: bool
  f_stat :: "string option"
  f_remove :: "string option"

abbreviation clean_file :: "bytes \<Rightarrow> disk_file" where
  "clean_file b \<equiv> \<lparr>f_bytes = b, f_readable = True, f_stat = None, f_remove = None\<rparr>"

type_synonym fs = "(string \<times> disk_file) list"

definition os_ReadFile :: "fs \<Rightarrow> string \<Rightarrow> bytes res" where
  "os_ReadFile fs p =
     (case map_of fs p of
        None \<Rightarrow> Err ErrNotExist
      | Some f \<Rightarrow> if f_readable f then Ok (f_bytes f) else Err (ErrIO ''permission denied''))"

definition os_Stat :: "fs \<Rightarrow> string \<Rightarrow> nat res" where
  "os_Stat fs p =
     (case map_of fs p of
        None \<Rightarrow> Err ErrNotExist
      | Some f \<Rightarrow> (case f_stat f of Some m \<Rightarrow> Err (ErrIO m) | None \<Rightarrow> Ok (length (f_bytes f))))"

definition os_Remove :: "fs \<Rightarrow> string \<Rightarrow> unit res \<times> fs" where
  "os_Remove fs p =
     (case map_of fs p of
        None \<Rightarrow> (Err ErrNotExist, fs)
      | Some f \<Rightarrow> (case f_remove f of Some m \<Rightarrow> (Err (ErrIO m), fs) | None \<Rightarrow> (Ok (), AList.delete p fs)))"

definition fs_put :: "fs \<Rightarrow> string \<Rightarrow> bytes \<Rightarrow> fs" where
  "fs_put fs p b = AList.update p (clean_file b) fs"

definition os_Rename :: "fs \<Rightarrow> string \<Rightarrow> string \<Rightarrow> fs" where
  "os_Rename fs p q =
     (case map_of fs p of None \<Rightarrow> fs | Some f \<Rightarrow> AList.update q f (AList.delete p fs))"

text \<open>\<open>filepath.Join\<close>, \<open>filepath.Base\<close>, \<open>strings.HasSuffix\<close> and \<open>strings.TrimSuffix\<close>.\<close>

definition path_join :: "string \<Rightarrow> string \<Rightarrow> string" where
  "path_join a b = a @ ''/'' @ b"

definition path_base :: "string \<Rightarrow> string" where
  "path_base p = rev (takeWhile (\<lambda>c. c \<noteq> CHR ''/'') (rev p))"

definition trim_suffix :: "string \<Rightarrow> string \<Rightarrow> string" where
  "trim_suffix s x = (if suffix x s then take (length s - length x) s else s)"

section \<open>The store\<close>

definition tmpChunkPrefix :: string where
  "tmpChunkPrefix = ''.tmp-cacnk''"

record LocalStore =
  ls_Base :: string
  ls_UpdateTimes :: bool
  ls_Opt :: StoreOptions
  ls_converters :: converters

definition NewLocalStore :: "string \<Rightarrow> StoreOptions \<Rightarrow> bool res \<Rightarrow> LocalStore res" where
  "NewLocalStore dir opt info =
     bind_res info (\<lambda>isDir.
       if \<not> isDir then Err (Errorf ''%s is not a directory'')
       else Ok \<lparr>ls_Base = dir, ls_UpdateTimes = False, ls_Opt = opt, ls_converters = options_converters opt\<rparr>)"

definition chunk_ext :: "LocalStore \<Rightarrow> string" where
  "chunk_ext s = (if Uncompressed (ls_Opt s) then UncompressedChunkExt else CompressedChunkExt)"

definition nameFromID :: "LocalStore \<Rightarrow> chunk_id \<Rightarrow> string \<times> string" where
  "nameFromID s cid =
     (let sID = ChunkID_String cid;
          dir = path_join (ls_Base s) (take 4 sID);
          name = path_join dir sID
      in (dir, name @ chunk_ext s))"

text \<open>
  An error of \<open>os.ReadFile\<close> other than \<open>os.IsNotExist\<close> is not looked at: the chunk is built from the
  nil slice it returned.
\<close>

definition LocalStore_GetChunk :: "codec_fns \<Rightarrow> LocalStore \<Rightarrow> fs \<Rightarrow> chunk_id \<Rightarrow> Chunk res" where
  "LocalStore_GetChunk cr s fs cid =
     (let p = snd (nameFromID s cid) in
      case os_ReadFile fs p of
        Ok b \<Rightarrow> NewChunkFromStorage cr cid b (ls_converters s) (SkipVerify (ls_Opt s))
      | Err ErrNotExist \<Rightarrow> Err (ChunkMissing cid)
      | _ \<Rightarrow> NewChunkFromStorage cr cid [] (ls_converters s) (SkipVerify (ls_Opt s)))"

definition LocalStore_RemoveChunk :: "LocalStore \<Rightarrow> fs \<Rightarrow> chunk_id \<Rightarrow> unit res \<times> fs" where
  "LocalStore_RemoveChunk s fs cid =
     (let p = snd (nameFromID s cid) in
      case os_Stat fs p of Ok _ \<Rightarrow> os_Remove fs p | _ \<Rightarrow> (Err (ChunkMissing cid), fs))"

text \<open>The faults of one call of \<open>StoreChunk\<close>, and the random part of the temporary name.\<close>

record os_faults =
  of_mkdir :: "go_error option"
  of_tmp :: "go_error option"
  of_write :: "(nat \<times> go_error) option"
  of_rename :: "go_error option"
  of_name :: string

definition no_faults :: os_faults where
  "no_faults = \<lparr>of_mkdir = None, of_tmp = None, of_write = None, of_rename = None, of_name = ''0''\<rparr>"

definition store_bytes :: "os_faults \<Rightarrow> fs \<Rightarrow> string \<Rightarrow> string \<Rightarrow> bytes \<Rightarrow> unit res \<times> fs list" where
  "store_bytes flt fs d p b =
     (case (of_mkdir flt, of_tmp flt) of
        (Some e, _) \<Rightarrow> (Err e, [fs])
      | (None, Some e) \<Rightarrow> (Err e, [fs])
      | (None, None) \<Rightarrow>
          let t = path_join d (tmpChunkPrefix @ of_name flt); fs1 = fs_put fs t []
          in case of_write flt of
               Some (n, e) \<Rightarrow>
                 let fs2 = fs_put fs1 t (take n b) in (Err e, [fs, fs1, fs2, snd (os_Remove fs2 t)])
             | None \<Rightarrow>
                 let fs2 = fs_put fs1 t b
                 in case of_rename flt of
                      Some e \<Rightarrow> (Err e, [fs, fs1, fs2])
                    | None \<Rightarrow> (Ok (), [fs, fs1, fs2, os_Rename fs2 t p]))"

definition LocalStore_StoreChunk ::
  "codec_fns \<Rightarrow> LocalStore \<Rightarrow> os_faults \<Rightarrow> fs \<Rightarrow> Chunk \<Rightarrow> unit res \<times> fs list" where
  "LocalStore_StoreChunk cr s flt fs c =
     (case Chunk_ID cr c of (cid, c) \<Rightarrow>
        case nameFromID s cid of (d, p) \<Rightarrow>
          case fst (Chunk_Storage cr c (ls_converters s)) of
            Ok b \<Rightarrow> store_bytes flt fs d p b
          | Err e \<Rightarrow> (Err e, [fs])
          | Panic m \<Rightarrow> (Panic m, [fs]))"

definition LocalStore_HasChunk :: "LocalStore \<Rightarrow> fs \<Rightarrow> chunk_id \<Rightarrow> bool res" where
  "LocalStore_HasChunk s fs cid =
     (case os_Stat fs (snd (nameFromID s cid)) of
        Ok _ \<Rightarrow> Ok True
      | Err e \<Rightarrow> if e = ErrNotExist then Ok False else Err e
      | Panic m \<Rightarrow> Panic m)"

definition LocalStore_GetChunkSize :: "LocalStore \<Rightarrow> fs \<Rightarrow> chunk_id \<Rightarrow> nat res" where
  "LocalStore_GetChunkSize s fs cid = os_Stat fs (snd (nameFromID s cid))"

text \<open>
  \<open>filepath.Walk\<close> calls its function with the error of looking at a path, or with the path and whether
  it is a directory. \<open>walk\<close> has the files that are below the base directory, \<open>walk_of\<close> says what a walk
  over them shows: no file twice, no file that is not there, and every file unless an error is shown.
  \<open>walked_id\<close> is what the functions given to \<open>filepath.Walk\<close> make of the path of a file: the
  identifier of the chunk, if the file is one.
\<close>

type_synonym walk_event = "(bool \<times> string) res"

definition walk :: "LocalStore \<Rightarrow> fs \<Rightarrow> string list" where
  "walk s fs = filter (prefix (path_join (ls_Base s) [])) (map fst fs)"

fun walk_files :: "walk_event list \<Rightarrow> string list" where
  "walk_files [] = []"
| "walk_files (Ok (False, p) # evs) = p # walk_files evs"
| "walk_files (_ # evs) = walk_files evs"

fun is_Ok :: "'a res \<Rightarrow> bool" where
  "is_Ok (Ok _) = True"
| "is_Ok _ = False"

definition walk_of :: "LocalStore \<Rightarrow> fs \<Rightarrow> walk_event list \<Rightarrow> bool" where
  "walk_of s fs evs \<longleftrightarrow> distinct (walk_files evs) \<and> set (walk_files evs) \<subseteq> set (walk s fs) \<and>
     (list_all is_Ok evs \<longrightarrow> set (walk s fs) \<subseteq> set (walk_files evs))"

definition walked_id :: "LocalStore \<Rightarrow> string \<Rightarrow> chunk_id option" where
  "walked_id s path =
     (if \<not> suffix (chunk_ext s) path then None
      else case ChunkIDFromString (trim_suffix (path_base path) (chunk_ext s)) of
        Ok cid \<Rightarrow> Some cid
      | _ \<Rightarrow> None)"

text \<open>One chunk handed to a worker of \<open>Verify\<close>; the result is the message written, if any.\<close>

definition verify_chunk ::
  "codec_fns \<Rightarrow> LocalStore \<Rightarrow> bool \<Rightarrow> fs \<Rightarrow> chunk_id \<Rightarrow> (go_error \<times> unit res option) option \<times> fs" where
  "verify_chunk cr s repair fs cid =
     (case LocalStore_GetChunk cr s fs cid of
        Err (ChunkInvalid i x) \<Rightarrow>
          if repair then (case LocalStore_RemoveChunk s fs cid of (r, fs) \<Rightarrow> (Some (ChunkInvalid i x, Some r), fs))
          else (Some (ChunkInvalid i x, None), fs)
      | Err e \<Rightarrow> (Some (e, None), fs)
      | _ \<Rightarrow> (None, fs))"

text \<open>
  What the walk of \<open>Verify\<close> feeds to the workers, and how it ends; \<open>done'\<close> tells whether the context is
  done when so many steps of the walk are left. With no worker the first identifier is never taken,
  and \<open>Verify\<close> does not return.
\<close>

fun verify_walk :: "LocalStore \<Rightarrow> (nat \<Rightarrow> bool) \<Rightarrow> walk_event list \<Rightarrow> unit res \<times> chunk_id list" where
  "verify_walk s done' [] = (Ok (), [])"
| "verify_walk s done' (ev # evs) =
     (if done' (length evs) then (Err Interrupted, [])
      else case ev of
        Err e \<Rightarrow> (Err e, [])
      | Panic m \<Rightarrow> (Panic m, [])
      | Ok (dir, path) \<Rightarrow>
          if dir then verify_walk s done' evs
          else (case walked_id s path of
                  None \<Rightarrow> verify_walk s done' evs
                | Some cid \<Rightarrow> (case verify_walk s done' evs of (r, cids) \<Rightarrow> (r, cid # cids))))"

fun verify_chunks ::
  "codec_fns \<Rightarrow> LocalStore \<Rightarrow> bool \<Rightarrow> chunk_id list \<Rightarrow> fs \<Rightarrow> (go_error \<times> unit res option) list \<times> fs" where
  "verify_chunks cr s repair [] fs = ([], fs)"
| "verify_chunks cr s repair (cid # cids) fs =
     (case verify_chunk cr s repair fs cid of
        (m, fs) \<Rightarrow> (case verify_chunks cr s repair cids fs of
           (msgs, fs) \<Rightarrow> ((case m of None \<Rightarrow> msgs | Some x \<Rightarrow> x # msgs), fs)))"

definition LocalStore_Verify ::
  "codec_fns \<Rightarrow> LocalStore \<Rightarrow> (nat \<Rightarrow> bool) \<Rightarrow> int \<Rightarrow> bool \<Rightarrow> walk_event list \<Rightarrow> fs \<Rightarrow>
   (unit res \<times> (go_error \<times> unit res option) list \<times> fs) option" where
  "LocalStore_Verify cr s done' n repair evs fs =
     (case verify_walk s done' evs of
        (r, cids) \<Rightarrow> if n \<le> 0 \<and> cids \<noteq> [] then None else Some (r, verify_chunks cr s repair cids fs))"

definition prune_path :: "LocalStore \<Rightarrow> chunk_id set \<Rightarrow> fs \<Rightarrow> string \<Rightarrow> unit res \<times> fs" where
  "prune_path s ids fs path =
     (if prefix tmpChunkPrefix (path_base path) then (Ok (), snd (os_Remove fs path))
      else case walked_id s path of
        None \<Rightarrow> (Ok (), fs)
      | Some cid \<Rightarrow> if cid \<notin> ids then LocalStore_RemoveChunk s fs cid else (Ok (), fs))"

fun prune_walk ::
  "LocalStore \<Rightarrow> (nat \<Rightarrow> bool) \<Rightarrow> chunk_id set \<Rightarrow> walk_event list \<Rightarrow> fs \<Rightarrow> unit res \<times> fs" where
  "prune_walk s done' ids [] fs = (Ok (), fs)"
| "prune_walk s done' ids (ev # evs) fs =
     (if done' (length evs) then (Err Interrupted, fs)
      else case ev of
        Err e \<Rightarrow> (Err e, fs)
      | Panic m \<Rightarrow> (Panic m, fs)
      | Ok (dir, path) \<Rightarrow>
          if dir then prune_walk s done' ids evs fs
          else (case prune_path s ids fs path of
                  (Ok _, fs) \<Rightarrow> prune_walk s done' ids evs fs
                | (r, fs) \<Rightarrow> (r, fs)))"

definition LocalStore_Prune ::
  "LocalStore \<Rightarrow> (nat \<Rightarrow> bool) \<Rightarrow> chunk_id set \<Rightarrow> walk_event list \<Rightarrow> fs \<Rightarrow> unit res \<times> fs" where
  "LocalStore_Prune s done' ids evs fs = prune_walk s done' ids evs fs"

end
