(* ===== verification/LocalStore_Props.thy ===== *)
theory LocalStore_Props
  imports LocalStore
begin

text \<open>
  What a chunk store in a directory guarantees: chunks are read back as they were stored, writes are
  atomic, pruning and verifying remove exactly what they should, and nothing but data with the
  right digest is handed out.
\<close>

section \<open>Chunks that hold data\<close>

text \<open>\<open>holds cr c b\<close>: whatever the chunk keeps, it is the plain data \<open>b\<close>.\<close>

definition holds :: "codec_fns \<Rightarrow> Chunk \<Rightarrow> bytes \<Rightarrow> bool" where
  "holds cr c b \<longleftrightarrow> b \<noteq> [] \<and> (ch_data c = b \<or> ch_data c = [] \<and> ch_storage c \<noteq> []) \<and>
     (ch_storage c \<noteq> [] \<longrightarrow> fromStorage cr (ch_converters c) (ch_storage c) = Ok b) \<and>
     (ch_idCalculated c \<longrightarrow> ch_id c = Digest_Sum cr b)"

lemma holds_Data: "holds cr c b \<Longrightarrow> fst (Chunk_Data cr c) = Ok b \<and> holds cr (snd (Chunk_Data cr c)) b"
  by (auto simp: holds_def Chunk_Data_def)

lemma holds_ID:
  assumes "holds cr c b"
  shows "fst (Chunk_ID cr c) = Digest_Sum cr b \<and> holds cr (snd (Chunk_ID cr c)) b"
proof -
  obtain c' where "Chunk_Data cr c = (Ok b, c')" "holds cr c' b"
    using holds_Data[OF assms] by (cases "Chunk_Data cr c") auto
  then show ?thesis using assms by (auto simp: Chunk_ID_def holds_def)
qed

lemma holds_NewChunk: "b \<noteq> [] \<Longrightarrow> holds cr (NewChunk b) b"
  by (simp add: holds_def NewChunk_def)

lemma NewChunkFromStorage_holds:
  assumes "fromStorage cr ms sb = Ok b" "sb \<noteq> []" "b \<noteq> []" "Digest_Sum cr b = cid"
  shows "\<exists>c. NewChunkFromStorage cr cid sb ms sv = Ok c \<and> holds cr c b"
  using assms
  by (auto simp: NewChunkFromStorage_def verify_new_def Chunk_ID_def Chunk_Data_def holds_def)

lemma holds_Storage:
  assumes "codec_ok cr" "holds cr c b"
  shows "\<exists>sb. fst (Chunk_Storage cr c ms) = Ok sb \<and> fromStorage cr ms sb = Ok b \<and> sb \<noteq> []"
proof (cases "ch_storage c \<noteq> [] \<and> converters_equal ms (ch_converters c)")
  case True
  then show ?thesis using assms(2) by (simp add: Chunk_Storage_def converters_equal_iff holds_def)
next
  case False
  obtain c' where "Chunk_Data cr c = (Ok b, c')" using holds_Data[OF assms(2)] by (cases "Chunk_Data cr c") auto
  then have "fst (Chunk_Storage cr c ms) = toStorage cr ms b" using False by (auto simp: Chunk_Storage_def)
  moreover obtain sb where "toStorage cr ms b = Ok sb" "fromStorage cr ms sb = Ok b" "b \<noteq> [] \<longrightarrow> sb \<noteq> []"
    using toStorage_Ok[OF assms(1)] by blast
  moreover have "sb \<noteq> []" using calculation assms(2) by (simp add: holds_def)
  ultimately show ?thesis by simp
qed

section \<open>Names\<close>

lemma hex_digit_chars: "n < 16 \<Longrightarrow> hex_digit n \<in> set ''0123456789abcdef''"
  unfolding hex_digit_def by (rule nth_mem) simp

lemma hex_encode_chars: "set (hex_encode bs) \<subseteq> set ''0123456789abcdef''"
proof (induction bs)
  case (Cons b bs)
  have "hex_digit (unat b div 16) \<in> set ''0123456789abcdef''" "hex_digit (unat b mod 16) \<in> set ''0123456789abcdef''"
    by (rule hex_digit_chars, simp add: unat_byte_div_16)+
  then show ?case using Cons by (simp only: hex_encode.simps list.set(2) insert_subset simp_thms)
qed simp

lemma ChunkID_String_chars: "CHR ''/'' \<notin> set (ChunkID_String cid)" "CHR ''.'' \<notin> set (ChunkID_String cid)"
  using hex_encode_chars[of cid] by (auto simp: ChunkID_String_def)

lemma chunk_ext_chars: "CHR ''/'' \<notin> set (chunk_ext s)"
  by (simp add: chunk_ext_def CompressedChunkExt_def UncompressedChunkExt_def)

lemma path_base_join: "CHR ''/'' \<notin> set b \<Longrightarrow> path_base (path_join a b) = b"
proof -
  assume "CHR ''/'' \<notin> set b"
  then have "takeWhile (\<lambda>c. c \<noteq> CHR ''/'') (rev b @ CHR ''/'' # rev a) = rev b"
    by (subst takeWhile_append2) auto
  then show ?thesis by (simp add: path_base_def path_join_def)
qed

lemma chunk_path: "snd (nameFromID s cid) = path_join (fst (nameFromID s cid)) (ChunkID_String cid @ chunk_ext s)"
  by (simp add: nameFromID_def Let_def path_join_def)

lemma path_base_chunk: "path_base (snd (nameFromID s cid)) = ChunkID_String cid @ chunk_ext s"
  using path_base_join[of "ChunkID_String cid @ chunk_ext s"] ChunkID_String_chars(1) chunk_ext_chars
  by (simp add: chunk_path)

lemma nameFromID_inj:
  assumes "is_chunk_id a" "is_chunk_id b" "snd (nameFromID s a) = snd (nameFromID s b)"
  shows "a = b"
proof -
  have "ChunkID_String a @ chunk_ext s = ChunkID_String b @ chunk_ext s"
    using assms(3) path_base_chunk[of s a] path_base_chunk[of s b] by simp
  then show ?thesis using ChunkID_String_inj[OF assms(1,2)] by simp
qed

lemma walked_id_chunk: "is_chunk_id cid \<Longrightarrow> walked_id s (snd (nameFromID s cid)) = Some cid"
  using path_base_chunk[of s cid]
  by (simp add: walked_id_def chunk_path path_join_def trim_suffix_def ChunkIDFromString_String suffix_def)

lemma walked_id_chunk_id: "walked_id s p = Some cid \<Longrightarrow> is_chunk_id cid"
  by (auto simp: walked_id_def dest: ChunkIDFromString_Ok split: if_splits res.splits)

text \<open>A temporary file is never taken for a chunk.\<close>

definition tmp_path :: "string \<Rightarrow> string \<Rightarrow> string" where
  "tmp_path d n = path_join d (tmpChunkPrefix @ n)"

lemma tmp_not_chunk:
  assumes "CHR ''/'' \<notin> set n" "is_chunk_id cid"
  shows "tmp_path d n \<noteq> snd (nameFromID s cid)"
proof
  assume "tmp_path d n = snd (nameFromID s cid)"
  then have "tmpChunkPrefix @ n = ChunkID_String cid @ chunk_ext s"
    using path_base_join[of "tmpChunkPrefix @ n" d] path_base_chunk[of s cid] assms(1)
    by (simp add: tmp_path_def tmpChunkPrefix_def)
  moreover have "ChunkID_String cid \<noteq> []" using length_ChunkID_String[OF assms(2)] by auto
  ultimately have "hd (ChunkID_String cid) = CHR ''.''"
    by (cases "ChunkID_String cid") (auto simp: tmpChunkPrefix_def)
  then show False using ChunkID_String_chars(2)[of cid] \<open>ChunkID_String cid \<noteq> []\<close>
    by (metis hd_in_set)
qed

section \<open>Storing and reading\<close>

lemma map_of_fs_put: "map_of (fs_put fs p b) = (map_of fs)(p \<mapsto> clean_file b)"
  by (simp add: fs_put_def update_conv')

lemma map_of_os_Remove:
  "map_of (snd (os_Remove fs p)) =
     (case map_of fs p of Some f \<Rightarrow> if f_remove f = None then (map_of fs)(p := None) else map_of fs | None \<Rightarrow> map_of fs)"
  by (auto simp: os_Remove_def delete_conv' split: option.splits)

lemma map_of_os_Rename:
  "p \<noteq> q \<Longrightarrow> map_of (os_Rename fs p q) = (case map_of fs p of None \<Rightarrow> map_of fs
     | Some f \<Rightarrow> (map_of fs)(p := None, q \<mapsto> f))"
  by (auto simp: os_Rename_def update_conv' delete_conv' split: option.splits)

lemmas fs_simps = map_of_fs_put map_of_os_Remove map_of_os_Rename

text \<open>Every state on the way has the old or the complete new file at the name, and elsewhere, but
  for the temporary file, what was there.\<close>

lemma store_bytes_states:
  assumes "store_bytes flt fs d p b = (r, states)" "tmp_path d (of_name flt) \<noteq> p"
  shows "states \<noteq> [] \<and> (\<forall>fs' \<in> set states.
      map_of fs' p \<in> {map_of fs p, Some (clean_file b)} \<and>
      (\<forall>q. q \<noteq> p \<longrightarrow> q \<noteq> tmp_path d (of_name flt) \<longrightarrow> map_of fs' q = map_of fs q)) \<and>
    (case r of Ok _ \<Rightarrow> map_of (last states) = (map_of fs)(tmp_path d (of_name flt) := None,
            p \<mapsto> clean_file b)
     | _ \<Rightarrow> map_of (last states) p = map_of fs p)"
  using assms
  by (auto simp: store_bytes_def tmp_path_def[symmetric] fs_simps Let_def split: option.splits)

lemma StoreChunk_holds:
  assumes "codec_ok cr" "holds cr c b" "LocalStore_StoreChunk cr s flt fs c = (r, states)"
  shows "\<exists>sb. fromStorage cr (ls_converters s) sb = Ok b \<and> sb \<noteq> [] \<and>
     store_bytes flt fs (fst (nameFromID s (Digest_Sum cr b))) (snd (nameFromID s (Digest_Sum cr b))) sb = (r, states)"
proof -
  obtain c' where c': "Chunk_ID cr c = (Digest_Sum cr b, c')" "holds cr c' b"
    using holds_ID[OF assms(2)] by (cases "Chunk_ID cr c") auto
  obtain sb where "fst (Chunk_Storage cr c' (ls_converters s)) = Ok sb"
    "fromStorage cr (ls_converters s) sb = Ok b" "sb \<noteq> []"
    using holds_Storage[OF assms(1) c'(2)] by blast
  with c'(1) assms(3) show ?thesis by (auto simp: LocalStore_StoreChunk_def split: prod.splits)
qed

lemma GetChunk_file:
  assumes "map_of fs (snd (nameFromID s (Digest_Sum cr b))) = Some (clean_file sb)"
    "fromStorage cr (ls_converters s) sb = Ok b" "sb \<noteq> []" "b \<noteq> []"
  shows "\<exists>c. LocalStore_GetChunk cr s fs (Digest_Sum cr b) = Ok c \<and> holds cr c b"
  using NewChunkFromStorage_holds[OF assms(2,3,4) refl] assms(1)
  by (auto simp: LocalStore_GetChunk_def os_ReadFile_def Let_def)

lemma GetChunk_cong:
  "map_of fs (snd (nameFromID s cid)) = map_of fs' (snd (nameFromID s cid)) \<Longrightarrow>
   LocalStore_GetChunk cr s fs cid = LocalStore_GetChunk cr s fs' cid \<and>
   LocalStore_HasChunk s fs cid = LocalStore_HasChunk s fs' cid"
  by (simp add: LocalStore_GetChunk_def LocalStore_HasChunk_def os_ReadFile_def os_Stat_def)

lemma HasChunk_eq:
  "LocalStore_HasChunk s fs cid =
     (case map_of fs (snd (nameFromID s cid)) of
        None \<Rightarrow> Ok False
      | Some f \<Rightarrow> (case f_stat f of None \<Rightarrow> Ok True | Some m \<Rightarrow> Err (ErrIO m)))"
  by (auto simp: LocalStore_HasChunk_def os_Stat_def split: option.splits)

lemma HasChunk_present:
  "LocalStore_HasChunk s fs cid = Ok b \<Longrightarrow> b \<longleftrightarrow> map_of fs (snd (nameFromID s cid)) \<noteq> None"
  by (auto simp: HasChunk_eq split: option.splits)

lemma GetChunk_valid:
  assumes "LocalStore_GetChunk cr s fs cid = Ok c" "\<not> SkipVerify (ls_Opt s)" "cid \<noteq> zero_id"
  shows "chunk_valid cr cid c"
  using assms NewChunkFromStorage_valid[of cr cid _ _ c]
  by (auto simp: LocalStore_GetChunk_def Let_def split: res.splits go_error.splits)


section \<open>Pruning and verifying\<close>

text \<open>Every file that is named like a chunk is where the store puts that chunk.\<close>

definition canonical :: "LocalStore \<Rightarrow> fs \<Rightarrow> bool" where
  "canonical s fs \<longleftrightarrow> distinct (map fst fs) \<and>
     (\<forall>p \<in> set (walk s fs). \<forall>cid. walked_id s p = Some cid \<longrightarrow> p = snd (nameFromID s cid))"

text \<open>The file that \<open>Prune\<close> tries to remove for a path, and whether the file can be removed.\<close>

definition is_tmp :: "string \<Rightarrow> bool" where
  "is_tmp p \<longleftrightarrow> prefix tmpChunkPrefix (path_base p)"

definition prune_target :: "LocalStore \<Rightarrow> chunk_id set \<Rightarrow> string \<Rightarrow> string option" where
  "prune_target s ids p =
     (if is_tmp p then Some p
      else case walked_id s p of
        None \<Rightarrow> None
      | Some cid \<Rightarrow> if cid \<in> ids then None else Some (snd (nameFromID s cid)))"

definition removable :: "fs \<Rightarrow> string \<Rightarrow> bool" where
  "removable fs p = (case map_of fs p of None \<Rightarrow> False | Some f \<Rightarrow> f_stat f = None \<and> f_remove f = None)"

lemma chunk_not_tmp:
  assumes "is_chunk_id i"
  shows "\<not> is_tmp (snd (nameFromID s i))"
proof
  assume "is_tmp (snd (nameFromID s i))"
  then obtain x where "ChunkID_String i @ chunk_ext s = tmpChunkPrefix @ x"
    by (auto simp: is_tmp_def path_base_chunk elim: prefixE)
  then have "CHR ''.'' \<in> set (ChunkID_String i)"
    using length_ChunkID_String[OF assms] by (cases "ChunkID_String i") (auto simp: tmpChunkPrefix_def)
  then show False using ChunkID_String_chars(2) by blast
qed

lemma prune_target_kept:
  assumes "is_chunk_id i" "i \<in> ids"
  shows "prune_target s ids p \<noteq> Some (snd (nameFromID s i))"
  using assms chunk_not_tmp[OF assms(1)] nameFromID_inj[OF _ assms(1), of _ s] walked_id_chunk_id[of s p]
  by (auto simp: prune_target_def split: option.splits)

lemma RemoveChunk_cases:
  assumes "LocalStore_RemoveChunk s fs cid = (r, fs')"
  obtains (removed) "r = Ok ()" "removable fs (snd (nameFromID s cid))" "map_of fs' = (map_of fs)(snd (nameFromID s cid) := None)"
  | (refused) "r \<noteq> Ok ()" "\<not> removable fs (snd (nameFromID s cid))" "fs' = fs"
  using assms
  by (auto simp: LocalStore_RemoveChunk_def os_Stat_def os_Remove_def removable_def Let_def delete_conv' split: option.splits)

text \<open>The three ways one path is treated: it is passed over, its target is removed, or it stays because it cannot be removed.\<close>

lemma prune_path_cases:
  assumes "prune_path s ids fs p = (r, fs')"
  obtains (passed) "prune_target s ids p = None" "r = Ok ()" "fs' = fs"
  | (removed) q where "prune_target s ids p = Some q" "r = Ok ()" "map_of fs' = (map_of fs)(q := None)"
  | (refused) q where "prune_target s ids p = Some q" "\<not> removable fs q" "r = Ok () \<longrightarrow> is_tmp p" "fs' = fs"
proof (cases "is_tmp p")
  case True
  then have "r = Ok ()" "fs' = snd (os_Remove fs p)" "prune_target s ids p = Some p"
    using assms by (auto simp: prune_path_def is_tmp_def prune_target_def)
  then show ?thesis using removed[of p] refused[of p] True
    by (auto simp: os_Remove_def removable_def delete_conv' split: option.splits)
next
  case False
  show ?thesis
  proof (cases "prune_target s ids p")
    case None
    then show ?thesis using False assms passed
      by (auto simp: prune_path_def is_tmp_def prune_target_def split: option.splits if_splits)
  next
    case (Some q)
    then obtain cid where "LocalStore_RemoveChunk s fs cid = (r, fs')" "q = snd (nameFromID s cid)"
      using False assms by (auto simp: prune_path_def is_tmp_def prune_target_def split: option.splits if_splits)
    then show ?thesis using removed[OF Some] refused[OF Some] by (auto elim: RemoveChunk_cases)
  qed
qed

lemma prune_path_shrinks:
  assumes "prune_path s ids fs p = (r, fs')"
  shows "map_of fs' q = map_of fs q \<or> map_of fs' q = None \<and> prune_target s ids p = Some q"
  using assms by (cases rule: prune_path_cases) auto

text \<open>Every run removes nothing but targets of files it was shown.\<close>

lemma prune_walk_shrinks:
  "prune_walk s dn ids evs fs = (r, fs') \<Longrightarrow>
   map_of fs' q = map_of fs q \<or> map_of fs' q = None \<and> (\<exists>p \<in> set (walk_files evs). prune_target s ids p = Some q)"
proof (induction evs arbitrary: fs rule: walk_files.induct)
  case (2 p evs)
  show ?case
  proof (cases "dn (length evs)")
    case False
    obtain r1 fs1 where p1: "prune_path s ids fs p = (r1, fs1)" by fastforce
    note sh = prune_path_shrinks[OF p1, of q]
    show ?thesis
    proof (cases "r1 = Ok ()")
      case True
      then have "prune_walk s dn ids evs fs1 = (r, fs')" using "2.prems" False p1 by simp
      from "2.IH"[OF this] sh show ?thesis by auto
    next
      case fail: False
      then have "fs' = fs1" using "2.prems" False p1 by (auto split: res.splits)
      then show ?thesis using sh by auto
    qed
  qed (use 2 in auto)
qed (auto split: if_splits)

lemma prune_walk_complete:
  assumes "prune_walk s dn ids evs fs = (Ok (), fs')" "p \<in> set (walk_files evs)" "\<not> is_tmp p" "prune_target s ids p = Some q"
  shows "map_of fs' q = None"
  using assms
proof (induction evs arbitrary: fs rule: walk_files.induct)
  case (2 p' evs)
  obtain fs1 where p1: "prune_path s ids fs p' = (Ok (), fs1)" and rest: "prune_walk s dn ids evs fs1 = (Ok (), fs')"
    using "2.prems"(1) by (auto split: if_splits prod.splits res.splits)
  show ?case
  proof (cases "p = p'")
    case True
    with p1 have "map_of fs1 q = None" by (cases rule: prune_path_cases) (use "2.prems" in auto)
    then show ?thesis using prune_walk_shrinks[OF rest, of q] by auto
  next
    case False
    then show ?thesis using "2.IH"[OF rest] "2.prems" by auto
  qed
qed (auto split: if_splits)

text \<open>Without refusals and interruptions the run succeeds and removes every target, when each is the file it was found for.\<close>

lemma prune_walk_total:
  assumes "list_all is_Ok evs" "distinct (walk_files evs)"
    "\<And>p q. p \<in> set (walk_files evs) \<Longrightarrow> prune_target s ids p = Some q \<Longrightarrow> q = p \<and> removable fs p"
  shows "\<exists>fs'. prune_walk s (\<lambda>_. False) ids evs fs = (Ok (), fs') \<and>
     map_of fs' = (\<lambda>q. if q \<in> set (walk_files evs) \<and> prune_target s ids q \<noteq> None then None else map_of fs q)"
  using assms
proof (induction evs arbitrary: fs rule: walk_files.induct)
  case (2 p evs)
  obtain r1 fs1 where p1: "prune_path s ids fs p = (r1, fs1)" by fastforce
  then have fs1: "r1 = Ok ()" "map_of fs1 = (if prune_target s ids p \<noteq> None then (map_of fs)(p := None) else map_of fs)"
    by (cases rule: prune_path_cases; use "2.prems"(3)[of p] in auto)+
  have keep: "q' = p' \<and> removable fs1 p'" if "p' \<in> set (walk_files evs)" "prune_target s ids p' = Some q'" for p' q'
    using "2.prems"(2) "2.prems"(3)[of p' q'] that fs1(2) by (auto simp: removable_def)
  have "\<exists>fs2. prune_walk s (\<lambda>_. False) ids evs fs1 = (Ok (), fs2) \<and>
    map_of fs2 = (\<lambda>q. if q \<in> set (walk_files evs) \<and> prune_target s ids q \<noteq> None then None else map_of fs1 q)"
    by (rule "2.IH") (use "2.prems"(1,2) keep in simp_all)
  then obtain fs2 where "prune_walk s (\<lambda>_. False) ids evs fs1 = (Ok (), fs2)"
    "map_of fs2 = (\<lambda>q. if q \<in> set (walk_files evs) \<and> prune_target s ids q \<noteq> None then None else map_of fs1 q)" by blast
  with p1 fs1 show ?case by (auto simp: fun_eq_iff)
qed auto

lemma walk_present: "p \<in> set (walk s fs) \<Longrightarrow> map_of fs p \<noteq> None"
  by (auto simp: walk_def map_of_eq_None_iff image_iff)

lemma prune_target_canonical:
  "canonical s fs \<Longrightarrow> p \<in> set (walk s fs) \<Longrightarrow> prune_target s ids p = Some q \<Longrightarrow> q = p"
  by (auto simp: canonical_def prune_target_def split: if_splits option.splits)

text \<open>The chunks \<open>Verify\<close> finds to be invalid.\<close>

definition invalid_chunk :: "codec_fns \<Rightarrow> LocalStore \<Rightarrow> fs \<Rightarrow> chunk_id \<Rightarrow> bool" where
  "invalid_chunk cr s fs cid \<longleftrightarrow> (\<exists>i x. LocalStore_GetChunk cr s fs cid = Err (ChunkInvalid i x))"

lemma invalid_chunk_present: "invalid_chunk cr s fs cid \<Longrightarrow> map_of fs (snd (nameFromID s cid)) \<noteq> None"
  by (auto simp: invalid_chunk_def LocalStore_GetChunk_def os_ReadFile_def Let_def split: option.splits)

lemma verify_chunk_effect:
  "map_of (snd (verify_chunk cr s repair fs cid)) =
     (if repair \<and> invalid_chunk cr s fs cid \<and> removable fs (snd (nameFromID s cid))
      then (map_of fs)(snd (nameFromID s cid) := None) else map_of fs)"
proof (cases "invalid_chunk cr s fs cid")
  case True
  obtain r fs' where rm: "LocalStore_RemoveChunk s fs cid = (r, fs')" by fastforce
  then show ?thesis using True by (cases rule: RemoveChunk_cases) (auto simp: invalid_chunk_def verify_chunk_def rm)
next
  case False
  then show ?thesis by (auto simp: invalid_chunk_def verify_chunk_def split: res.splits go_error.splits)
qed

lemma GetChunk_other:
  assumes "is_chunk_id a" "is_chunk_id b" "a \<noteq> b"
    "map_of fs' = (map_of fs)(snd (nameFromID s a) := x)"
  shows "LocalStore_GetChunk cr s fs' b = LocalStore_GetChunk cr s fs b"
proof -
  have "snd (nameFromID s a) \<noteq> snd (nameFromID s b)" using nameFromID_inj[OF assms(1,2)] assms(3) by blast
  then show ?thesis using assms(4) GetChunk_cong[of fs' s b fs cr] by simp
qed

definition bad_chunk :: "codec_fns \<Rightarrow> LocalStore \<Rightarrow> fs \<Rightarrow> chunk_id \<Rightarrow> bool" where
  "bad_chunk cr s fs cid \<longleftrightarrow> invalid_chunk cr s fs cid \<and> removable fs (snd (nameFromID s cid))"

lemma bad_chunk_cong:
  "map_of fs (snd (nameFromID s cid)) = map_of fs' (snd (nameFromID s cid)) \<Longrightarrow> bad_chunk cr s fs cid = bad_chunk cr s fs' cid"
  using GetChunk_cong[of fs s cid fs' cr] by (simp add: bad_chunk_def invalid_chunk_def removable_def)

lemma bad_chunk_present: "bad_chunk cr s fs cid \<Longrightarrow> map_of fs (snd (nameFromID s cid)) \<noteq> None"
  using invalid_chunk_present by (simp only: bad_chunk_def) blast

lemma verify_chunks_effect:
  assumes "\<forall>cid \<in> set cids. is_chunk_id cid"
  shows "map_of (snd (verify_chunks cr s repair cids fs)) =
     (\<lambda>q. if repair \<and> (\<exists>cid \<in> set cids. q = snd (nameFromID s cid) \<and> bad_chunk cr s fs cid) then None else map_of fs q)"
  using assms
proof (induction cids arbitrary: fs)
  case (Cons c cids)
  let ?fs = "snd (verify_chunk cr s repair fs c)"
  have m: "map_of ?fs = (if repair \<and> bad_chunk cr s fs c then (map_of fs)(snd (nameFromID s c) := None) else map_of fs)"
    unfolding verify_chunk_effect bad_chunk_def by simp
  have inv: "bad_chunk cr s ?fs d \<longleftrightarrow> bad_chunk cr s fs d \<and> \<not> (repair \<and> d = c)" if "d \<in> set cids" for d
  proof (cases "d = c \<and> repair \<and> bad_chunk cr s fs c")
    case True
    then show ?thesis using m bad_chunk_present[of cr s ?fs c] by auto
  next
    case False
    then have "map_of ?fs (snd (nameFromID s d)) = map_of fs (snd (nameFromID s d))"
      using m nameFromID_inj[of d c s] Cons.prems that by auto
    from bad_chunk_cong[OF this, of cr] show ?thesis using False by auto
  qed
  show ?case using Cons.IH[of ?fs] Cons.prems m inv by (auto simp: fun_eq_iff split: prod.splits)
qed simp

text \<open>What the walk of \<open>Verify\<close> feeds: chunks it was shown, and all of them when it succeeds.\<close>

lemma verify_walk_ids:
  assumes "verify_walk s dn evs = (r, cids)"
  shows "set cids \<subseteq> {cid. \<exists>p \<in> set (walk_files evs). walked_id s p = Some cid} \<and>
    (r = Ok () \<longrightarrow> {cid. \<exists>p \<in> set (walk_files evs). walked_id s p = Some cid} \<subseteq> set cids) \<and>
    (list_all is_Ok evs \<and> (\<forall>n. \<not> dn n) \<longrightarrow> r = Ok ())"
  using assms
proof (induction evs arbitrary: cids rule: walk_files.induct)
  case (2 p evs)
  show ?case
  proof (cases "dn (length evs)")
    case False
    obtain r' cids' where rest: "verify_walk s dn evs = (r', cids')" by fastforce
    then have "r' = r" "cids = (case walked_id s p of None \<Rightarrow> cids' | Some cid \<Rightarrow> cid # cids')"
      using "2.prems" False by (auto split: option.splits)
    with "2.IH"[OF rest[unfolded \<open>r' = r\<close>]] show ?thesis by (cases "walked_id s p") auto
  qed (use "2.prems" in auto)
qed (auto split: if_splits)

section \<open>Properties\<close>

text \<open>A digest and a compression for concrete runs: padding to 32 bytes, and a header byte.\<close>

definition pad_sum :: "bytes \<Rightarrow> chunk_id" where
  "pad_sum b = take 32 (b @ replicate 32 1)"

fun strip_header :: "bytes \<Rightarrow> bytes res" where
  "strip_header (x # b) = (if x = 40 then Ok b else Err (Errorf ''magic number mismatch''))"
| "strip_header [] = Err EOF"

definition toy_codec :: codec_fns where
  "toy_codec = \<lparr>Digest_Sum = pad_sum, Compress = (\<lambda>b. 40 # b), Decompress = strip_header\<rparr>"

lemma toy_codec_ok: "codec_ok toy_codec"
  by (auto simp: codec_ok_def toy_codec_def pad_sum_def is_chunk_id_def chunk_id_len_def)

definition sample_store :: LocalStore where
  "sample_store = \<lparr>ls_Base = ''/s'', ls_UpdateTimes = False, ls_Opt = NewStoreOptionsWithDefaults, ls_converters = [Compressor]\<rparr>"

lemma toy_sum_id [simp]: "is_chunk_id (Digest_Sum toy_codec b)"
  by (rule sum_len[OF toy_codec_ok])

text \<open>
  (C22) What was stored can be read back: when \<open>StoreChunk\<close> of a chunk with some data succeeds, the
  store has the chunk and \<open>GetChunk\<close> of the digest of the data returns a chunk with that data; every
  other chunk is as before. This holds for compressed and uncompressed stores, whatever form the
  chunk was in.
\<close>

theorem local_store_roundtrip:
  assumes "codec_ok cr" "holds cr c b" "CHR ''/'' \<notin> set (of_name flt)"
    "LocalStore_StoreChunk cr s flt fs c = (Ok (), states)"
  shows "LocalStore_HasChunk s (last states) (Digest_Sum cr b) = Ok True \<and>
    (\<exists>c'. LocalStore_GetChunk cr s (last states) (Digest_Sum cr b) = Ok c' \<and> holds cr c' b) \<and>
    (\<forall>i. is_chunk_id i \<and> i \<noteq> Digest_Sum cr b \<longrightarrow>
       LocalStore_GetChunk cr s (last states) i = LocalStore_GetChunk cr s fs i \<and>
       LocalStore_HasChunk s (last states) i = LocalStore_HasChunk s fs i)"
proof -
  let ?id = "Digest_Sum cr b" and ?t = "tmp_path (fst (nameFromID s (Digest_Sum cr b))) (of_name flt)"
  have id: "is_chunk_id ?id" using assms(1) by (rule sum_len)
  obtain sb where sb: "fromStorage cr (ls_converters s) sb = Ok b" "sb \<noteq> []"
    "store_bytes flt fs (fst (nameFromID s ?id)) (snd (nameFromID s ?id)) sb = (Ok (), states)"
    using StoreChunk_holds[OF assms(1,2,4)] by blast
  have m: "map_of (last states) = (map_of fs)(?t := None, snd (nameFromID s ?id) \<mapsto> clean_file sb)"
    using store_bytes_states[OF sb(3) tmp_not_chunk[OF assms(3) id]] by simp
  then have "map_of (last states) (snd (nameFromID s ?id)) = Some (clean_file sb)" by simp
  moreover have "map_of (last states) (snd (nameFromID s i)) = map_of fs (snd (nameFromID s i))"
    if "is_chunk_id i" "i \<noteq> ?id" for i
    using m nameFromID_inj[OF that(1) id] that tmp_not_chunk[OF assms(3) that(1), of "fst (nameFromID s ?id)" s] by auto
  ultimately have at_id: "map_of (last states) (snd (nameFromID s ?id)) = Some (clean_file sb)"
    and other: "\<And>i. is_chunk_id i \<Longrightarrow> i \<noteq> ?id \<Longrightarrow>
      map_of (last states) (snd (nameFromID s i)) = map_of fs (snd (nameFromID s i))" by blast+
  show ?thesis
  proof (intro conjI allI impI; (elim conjE)?)
    show "LocalStore_HasChunk s (last states) ?id = Ok True" by (simp add: HasChunk_eq at_id)
    show "\<exists>c'. LocalStore_GetChunk cr s (last states) ?id = Ok c' \<and> holds cr c' b"
      using GetChunk_file[OF at_id sb(1,2)] assms(2) by (simp add: holds_def)
  qed (use other GetChunk_cong in blast)+
qed

theorem local_store_roundtrip_witness:
  "let b = [1, 2, 3]; c = NewChunk b;
       st = snd (LocalStore_StoreChunk toy_codec sample_store no_faults [] c)
   in LocalStore_HasChunk sample_store (last st) (Digest_Sum toy_codec b) = Ok True \<and>
    (\<exists>c'. LocalStore_GetChunk toy_codec sample_store (last st) (Digest_Sum toy_codec b) = Ok c' \<and> holds toy_codec c' b) \<and>
    (\<forall>i. is_chunk_id i \<and> i \<noteq> Digest_Sum toy_codec b \<longrightarrow>
       LocalStore_GetChunk toy_codec sample_store (last st) i = LocalStore_GetChunk toy_codec sample_store [] i \<and>
       LocalStore_HasChunk sample_store (last st) i = LocalStore_HasChunk sample_store [] i)"
proof -
  have "fst (LocalStore_StoreChunk toy_codec sample_store no_faults [] (NewChunk [1, 2, 3])) = Ok ()"
    by (simp add: LocalStore_StoreChunk_def Chunk_ID_def Chunk_Data_def NewChunk_def toy_codec_def
        nameFromID_def Chunk_Storage_def sample_store_def store_bytes_def no_faults_def Let_def)
  then show ?thesis unfolding Let_def
    by (intro local_store_roundtrip toy_codec_ok holds_NewChunk) (auto simp: no_faults_def prod_eq_iff holds_NewChunk)
qed

text \<open>
  (C16) A crash or an error at any moment of \<open>StoreChunk\<close> leaves every chunk of the store, the one that
  is being written included, either as it was or completely written: the name of a chunk never
  has partial data.
\<close>

theorem local_store_atomic:
  assumes "codec_ok cr" "holds cr c b" "CHR ''/'' \<notin> set (of_name flt)"
    "LocalStore_StoreChunk cr s flt fs c = (r, states)" "fs' \<in> set states" "is_chunk_id i"
  shows "LocalStore_GetChunk cr s fs' i = LocalStore_GetChunk cr s fs i \<or>
     i = Digest_Sum cr b \<and> (\<exists>c'. LocalStore_GetChunk cr s fs' i = Ok c' \<and> holds cr c' b)"
proof -
  let ?id = "Digest_Sum cr b"
  have id: "is_chunk_id ?id" using assms(1) by (rule sum_len)
  obtain sb where sb: "fromStorage cr (ls_converters s) sb = Ok b" "sb \<noteq> []"
    "store_bytes flt fs (fst (nameFromID s ?id)) (snd (nameFromID s ?id)) sb = (r, states)"
    using StoreChunk_holds[OF assms(1,2,4)] by blast
  have st: "map_of fs' (snd (nameFromID s ?id)) \<in> {map_of fs (snd (nameFromID s ?id)), Some (clean_file sb)}"
    "q \<noteq> snd (nameFromID s ?id) \<Longrightarrow> q \<noteq> tmp_path (fst (nameFromID s ?id)) (of_name flt) \<Longrightarrow> map_of fs' q = map_of fs q" for q
    using store_bytes_states[OF sb(3) tmp_not_chunk[OF assms(3) id]] assms(5) by auto
  show ?thesis
  proof (cases "i = ?id")
    case True
    then show ?thesis using st(1) GetChunk_cong[of fs' s i fs cr] GetChunk_file[of fs' s cr b sb] sb(1,2) assms(2)
      by (auto simp: holds_def)
  next
    case False
    then have "map_of fs' (snd (nameFromID s i)) = map_of fs (snd (nameFromID s i))"
      using st(2)[of "snd (nameFromID s i)"] nameFromID_inj[OF assms(6) id]
        tmp_not_chunk[OF assms(3,6), of "fst (nameFromID s ?id)" s] by metis
    then show ?thesis using GetChunk_cong by blast
  qed
qed

theorem local_store_atomic_witness:
  "let flt = no_faults\<lparr>of_write := Some (1, ErrIO ''disk full'')\<rparr>; b = [1, 2, 3];
       st = snd (LocalStore_StoreChunk toy_codec sample_store flt [] (NewChunk b))
   in \<forall>fs' \<in> set st. LocalStore_GetChunk toy_codec sample_store fs' zero_id = LocalStore_GetChunk toy_codec sample_store [] zero_id \<or>
     zero_id = Digest_Sum toy_codec b \<and> (\<exists>c'. LocalStore_GetChunk toy_codec sample_store fs' zero_id = Ok c' \<and> holds toy_codec c' b)"
  unfolding Let_def
  by (intro ballI local_store_atomic[of _ "NewChunk [1, 2, 3]" _ "no_faults\<lparr>of_write := Some (1, ErrIO ''disk full'')\<rparr>" _ _
        "fst (LocalStore_StoreChunk toy_codec sample_store (no_faults\<lparr>of_write := Some (1, ErrIO ''disk full'')\<rparr>) [] (NewChunk [1, 2, 3]))"]
        toy_codec_ok holds_NewChunk) (auto simp: no_faults_def holds_NewChunk)

text \<open>
  (C27) \<open>Prune\<close> is safe however it ends, whether the context is cancelled, the walk shows an error or a
  file cannot be removed: a chunk that is to be kept is as before, and a file is gone only if it is
  a temporary file the walk showed or the file of a chunk it showed that is not to be kept. When \<open>Prune\<close>
  returns no error, no chunk it was shown and that is not to be kept is left. It returns no error when
  the context is not cancelled, the walk shows every file and no error, every file that is named like a
  chunk is where the store puts that chunk, and what is to be removed can be removed; then exactly the
  temporary files and the chunks that are not to be kept are gone.
\<close>

theorem local_prune_exact:
  assumes "LocalStore_Prune s dn ids evs fs = (r, fs')"
  shows "(\<forall>i. is_chunk_id i \<and> i \<in> ids \<longrightarrow> LocalStore_GetChunk cr s fs' i = LocalStore_GetChunk cr s fs i) \<and>
     (\<forall>q. map_of fs' q = map_of fs q \<or>
        map_of fs' q = None \<and> (\<exists>p \<in> set (walk_files evs). prune_target s ids p = Some q)) \<and>
     (r = Ok () \<longrightarrow> (\<forall>i p. p \<in> set (walk_files evs) \<and> \<not> is_tmp p \<and> walked_id s p = Some i \<and> i \<notin> ids \<longrightarrow>
        LocalStore_HasChunk s fs' i = Ok False)) \<and>
     (canonical s fs \<and> walk_of s fs evs \<and> list_all is_Ok evs \<and> (\<forall>n. \<not> dn n) \<and>
        (\<forall>p \<in> set (walk s fs). prune_target s ids p \<noteq> None \<longrightarrow> removable fs p) \<longrightarrow>
        r = Ok () \<and> (\<forall>q. map_of fs' q = (if q \<in> set (walk s fs) \<and> prune_target s ids q \<noteq> None then None else map_of fs q)))"
proof -
  have run: "prune_walk s dn ids evs fs = (r, fs')" using assms by (simp add: LocalStore_Prune_def)
  note sh = prune_walk_shrinks[OF run]
  have kept: "LocalStore_GetChunk cr s fs' i = LocalStore_GetChunk cr s fs i" if "is_chunk_id i" "i \<in> ids" for i
    using sh[of "snd (nameFromID s i)"] prune_target_kept[OF that] GetChunk_cong by blast
  have gone: "LocalStore_HasChunk s fs' i = Ok False"
    if "r = Ok ()" "p \<in> set (walk_files evs)" "\<not> is_tmp p" "walked_id s p = Some i" "i \<notin> ids" for i p
    using prune_walk_complete[of s dn ids evs fs fs' p] run that by (simp add: HasChunk_eq prune_target_def)
  have exact: "r = Ok () \<and> (\<forall>q. map_of fs' q = (if q \<in> set (walk s fs) \<and> prune_target s ids q \<noteq> None then None else map_of fs q))"
    if "canonical s fs" "walk_of s fs evs" "list_all is_Ok evs" "\<forall>n. \<not> dn n"
      "\<forall>p \<in> set (walk s fs). prune_target s ids p \<noteq> None \<longrightarrow> removable fs p"
  proof -
    have w: "set (walk_files evs) = set (walk s fs)" "distinct (walk_files evs)" using that(2,3) by (auto simp: walk_of_def)
    have "\<And>p q. p \<in> set (walk_files evs) \<Longrightarrow> prune_target s ids p = Some q \<Longrightarrow> q = p \<and> removable fs p"
      using prune_target_canonical[OF that(1)] that(5) w(1) by auto
    from prune_walk_total[OF that(3) w(2) this] obtain fs2 where "prune_walk s (\<lambda>_. False) ids evs fs = (Ok (), fs2)"
      "map_of fs2 = (\<lambda>q. if q \<in> set (walk s fs) \<and> prune_target s ids q \<noteq> None then None else map_of fs q)"
      unfolding w(1) by blast
    moreover have "dn = (\<lambda>_. False)" using that(4) by auto
    ultimately show ?thesis using run by simp
  qed
  show ?thesis using kept sh gone exact by blast
qed

definition sample_fs :: fs where
  "sample_fs = fs_put (fs_put [] ''/s/.tmp-cacnk7'' []) (snd (nameFromID sample_store zero_id)) [40, 1]"

lemma sample_fs_canonical: "canonical sample_store sample_fs"
proof -
  have n: "snd (nameFromID sample_store zero_id) \<noteq> ''/s/.tmp-cacnk7''"
    using tmp_not_chunk[of "''7''" zero_id "''/s''" sample_store] by (auto simp: tmp_path_def path_join_def tmpChunkPrefix_def)
  then have k: "map fst sample_fs = [''/s/.tmp-cacnk7'', snd (nameFromID sample_store zero_id)]"
    by (simp add: sample_fs_def fs_put_def)
  have "walked_id sample_store ''/s/.tmp-cacnk7'' = None"
    by (simp add: walked_id_def chunk_ext_def sample_store_def NewStoreOptionsWithDefaults_def
        CompressedChunkExt_def suffix_def)
  then show ?thesis using k n walked_id_chunk[of zero_id sample_store] by (auto simp: canonical_def walk_def)
qed

definition sample_walk :: "walk_event list" where
  "sample_walk = [Ok (True, ''/s''), Ok (False, ''/s/.tmp-cacnk7''), Ok (False, snd (nameFromID sample_store zero_id))]"

lemma sample_fs_keys: "map fst sample_fs = [''/s/.tmp-cacnk7'', snd (nameFromID sample_store zero_id)]"
proof -
  have "snd (nameFromID sample_store zero_id) \<noteq> ''/s/.tmp-cacnk7''"
    using tmp_not_chunk[of "''7''" zero_id "''/s''" sample_store] by (auto simp: tmp_path_def path_join_def tmpChunkPrefix_def)
  then show ?thesis by (simp add: sample_fs_def fs_put_def)
qed

lemma sample_walk_of: "walk_of sample_store sample_fs sample_walk"
proof -
  have "snd (nameFromID sample_store zero_id) \<noteq> ''/s/.tmp-cacnk7''"
    using tmp_not_chunk[of "''7''" zero_id "''/s''" sample_store] by (auto simp: tmp_path_def path_join_def tmpChunkPrefix_def)
  moreover have "walk sample_store sample_fs = [''/s/.tmp-cacnk7'', snd (nameFromID sample_store zero_id)]"
    unfolding walk_def sample_fs_keys by (simp add: sample_store_def nameFromID_def path_join_def Let_def)
  ultimately show ?thesis by (auto simp: walk_of_def sample_walk_def)
qed

lemma sample_fs_removable: "p \<in> set (walk sample_store sample_fs) \<Longrightarrow> removable sample_fs p"
proof -
  assume "p \<in> set (walk sample_store sample_fs)"
  then have "p = ''/s/.tmp-cacnk7'' \<or> p = snd (nameFromID sample_store zero_id)"
    unfolding walk_def sample_fs_keys filter_set[symmetric] by (simp del: filter.simps)
  then show ?thesis by (auto simp: removable_def sample_fs_def map_of_fs_put)
qed

theorem local_prune_exact_witness:
  "\<exists>fs'. LocalStore_Prune sample_store (\<lambda>_. False) {} sample_walk sample_fs = (Ok (), fs') \<and>
     LocalStore_HasChunk sample_store fs' zero_id = Ok False \<and>
     (\<forall>q. map_of fs' q = (if q \<in> set (walk sample_store sample_fs) \<and> prune_target sample_store {} q \<noteq> None then None
        else map_of sample_fs q))"
proof -
  obtain r fs' where run: "LocalStore_Prune sample_store (\<lambda>_. False) {} sample_walk sample_fs = (r, fs')" by fastforce
  have w: "list_all is_Ok sample_walk" "snd (nameFromID sample_store zero_id) \<in> set (walk_files sample_walk)"
    by (simp_all add: sample_walk_def)
  note prune = local_prune_exact[OF run, of toy_codec]
  have "r = Ok ()" "\<forall>q. map_of fs' q = (if q \<in> set (walk sample_store sample_fs) \<and> prune_target sample_store {} q \<noteq> None then None
        else map_of sample_fs q)"
    using prune sample_fs_canonical sample_walk_of w(1) sample_fs_removable by blast+
  moreover have "LocalStore_HasChunk sample_store fs' zero_id = Ok False"
    using prune calculation(1) w(2) chunk_not_tmp[OF is_chunk_id_zero] walked_id_chunk[OF is_chunk_id_zero] by blast
  ultimately show ?thesis using run by blast
qed

text \<open>
  \<open>Verify\<close> with repair, however it ends, leaves every valid chunk as it was. When it returns no error,
  each invalid chunk it was shown is gone, unless its file cannot be removed. Among the invalid ones
  are the chunks whose file cannot be read (an error of \<open>os.ReadFile\<close> other than a missing file is
  taken for an empty chunk). Without a worker \<open>Verify\<close> never returns once the walk shows a chunk.
\<close>

theorem local_verify_repairs:
  assumes "LocalStore_Verify cr s dn n True evs fs = Some (r, msgs, fs')" "is_chunk_id i"
  shows "(\<not> invalid_chunk cr s fs i \<longrightarrow> LocalStore_GetChunk cr s fs' i = LocalStore_GetChunk cr s fs i) \<and>
     (r = Ok () \<and> snd (nameFromID s i) \<in> set (walk_files evs) \<and> invalid_chunk cr s fs i \<and> removable fs (snd (nameFromID s i)) \<longrightarrow>
        LocalStore_HasChunk s fs' i = Ok False) \<and>
     (\<not> SkipVerify (ls_Opt s) \<and> i \<noteq> zero_id \<and> map_of fs (snd (nameFromID s i)) = Some f \<and> \<not> f_readable f
        \<longrightarrow> invalid_chunk cr s fs i) \<and>
     (snd (nameFromID s i) \<in> set (walk_files evs) \<and> r = Ok () \<longrightarrow> 0 < n)"
proof -
  obtain cids where cids: "verify_walk s dn evs = (r, cids)" "fs' = snd (verify_chunks cr s True cids fs)" "cids \<noteq> [] \<longrightarrow> 0 < n"
    using assms(1) by (auto simp: LocalStore_Verify_def split: prod.splits if_splits)
  have ids: "\<forall>cid \<in> set cids. is_chunk_id cid" using verify_walk_ids[OF cids(1)] walked_id_chunk_id by blast
  have m: "map_of fs' (snd (nameFromID s i)) = (if i \<in> set cids \<and> bad_chunk cr s fs i then None else map_of fs (snd (nameFromID s i)))"
    unfolding cids(2) verify_chunks_effect[OF ids] using nameFromID_inj[OF assms(2), of _ s] ids by auto
  have fed: "i \<in> set cids" if "r = Ok ()" "snd (nameFromID s i) \<in> set (walk_files evs)"
    using verify_walk_ids[OF cids(1)] that walked_id_chunk[OF assms(2)] by blast
  have "invalid_chunk cr s fs i" if "\<not> SkipVerify (ls_Opt s)" "i \<noteq> zero_id" "map_of fs (snd (nameFromID s i)) = Some f" "\<not> f_readable f"
    using that by (auto simp: invalid_chunk_def LocalStore_GetChunk_def os_ReadFile_def NewChunkFromStorage_def
        verify_new_def Chunk_ID_def Chunk_Data_def Let_def)
  moreover have "LocalStore_GetChunk cr s fs' i = LocalStore_GetChunk cr s fs i" if "\<not> invalid_chunk cr s fs i"
    using m that GetChunk_cong[of fs' s i fs cr] by (simp add: bad_chunk_def)
  ultimately show ?thesis using m fed cids(3) by (auto simp: HasChunk_eq bad_chunk_def)
qed

theorem local_verify_repairs_witness:
  "\<exists>r msgs fs'. LocalStore_Verify toy_codec sample_store (\<lambda>_. False) 1 True sample_walk sample_fs = Some (r, msgs, fs') \<and>
     (\<not> invalid_chunk toy_codec sample_store sample_fs zero_id \<longrightarrow>
        LocalStore_GetChunk toy_codec sample_store fs' zero_id = LocalStore_GetChunk toy_codec sample_store sample_fs zero_id)"
proof -
  obtain r msgs fs' where "LocalStore_Verify toy_codec sample_store (\<lambda>_. False) 1 True sample_walk sample_fs = Some (r, msgs, fs')"
    using prod_cases3[of "(fst (verify_walk sample_store (\<lambda>_. False) sample_walk),
        verify_chunks toy_codec sample_store True (snd (verify_walk sample_store (\<lambda>_. False) sample_walk)) sample_fs)"]
    by (auto simp: LocalStore_Verify_def split_beta)
  from local_verify_repairs[OF this is_chunk_id_zero] this show ?thesis by blast
qed

text \<open>
  Integrity: a store that does not skip the verification never hands out a chunk whose data
  does not have the requested identifier as its digest, whatever is on the disk (for any
  identifier but the one of zero bytes only, which the code also uses for \<open>no digest\<close>).
\<close>

theorem local_get_integrity:
  assumes "\<not> SkipVerify (ls_Opt s)" "cid \<noteq> zero_id" "LocalStore_GetChunk cr s fs cid = Ok c"
  shows "\<exists>b. fst (Chunk_Data cr c) = Ok b \<and> Digest_Sum cr b = cid"
  using GetChunk_valid[OF assms(3,1,2)] by (auto simp: chunk_valid_def)

theorem local_get_integrity_witness:
  "\<exists>c b. LocalStore_GetChunk toy_codec sample_store
       [(snd (nameFromID sample_store (pad_sum [1])), clean_file [40, 1])] (pad_sum [1]) = Ok c \<and>
     fst (Chunk_Data toy_codec c) = Ok b \<and> Digest_Sum toy_codec b = pad_sum [1]"
proof -
  let ?fs = "[(snd (nameFromID sample_store (pad_sum [1])), clean_file [40, 1])]"
  have "Digest_Sum toy_codec [1] = pad_sum [1]" by (simp add: toy_codec_def)
  then obtain c where c: "LocalStore_GetChunk toy_codec sample_store ?fs (pad_sum [1]) = Ok c"
    using GetChunk_file[of ?fs sample_store toy_codec "[1]" "[40, 1]"]
    by (auto simp: toy_codec_def fromStorage_def sample_store_def)
  have "pad_sum [1] \<noteq> zero_id" by (simp add: pad_sum_def zero_id_def chunk_id_len_def numeral_eq_Suc)
  with local_get_integrity[OF _ _ c] c show ?thesis
    by (auto simp: sample_store_def NewStoreOptionsWithDefaults_def)
qed

end
