(* ===== verification/Stores.thy ===== *)
theory Stores
  imports LocalStore_Props
begin

text \<open>
  The stores that are made of other stores: the cache and the repairable cache
  (\<^verbatim>\<open>src/cache.go\<close>), the router (\<^verbatim>\<open>src/storerouter.go\<close>), the failover group (\<^verbatim>\<open>src/failover.go\<close>),
  the swappable store (\<^verbatim>\<open>src/swapstore.go\<close>), and the two users of a writable store that deduplicate,
  \<open>ChunkStorage\<close> (\<^verbatim>\<open>src/chunkstorage.go\<close>) and \<open>Copy\<close> (\<^verbatim>\<open>src/copy.go\<close>).

  Go's \<open>Store\<close> and \<open>WriteStore\<close> interfaces (\<^verbatim>\<open>src/store.go\<close>) are functions on the state of a store, which
  the combinators get as arguments; their contracts are the locales \<open>verified_store\<close> and
  \<open>write_store\<close>, interpreted below on the directory store. That \<open>StoreChunk\<close> of a store may fill in
  the cached fields of the chunk it is given is not tracked; it changes nothing that can be
  observed (lemma \<open>Chunk_Data_again\<close>).
\<close>

type_synonym 's get_fn = "'s \<Rightarrow> chunk_id \<Rightarrow> Chunk res \<times> 's"
type_synonym 's has_fn = "'s \<Rightarrow> chunk_id \<Rightarrow> bool res \<times> 's"
type_synonym 's put_fn = "'s \<Rightarrow> Chunk \<Rightarrow> unit res \<times> 's"
type_synonym 's close_fn = "'s \<Rightarrow> unit res \<times> 's"

section \<open>Cache\<close>

record ('s, 'l) Cache =
  ca_s :: 's
  ca_l :: 'l

definition Cache_GetChunk ::
  "'l get_fn \<Rightarrow> 'l put_fn \<Rightarrow> 's get_fn \<Rightarrow> ('s, 'l) Cache get_fn" where
  "Cache_GetChunk getl putl gets c cid =
     (case getl (ca_l c) cid of (r, l) \<Rightarrow>
        (case r of
           Err (ChunkMissing _) \<Rightarrow>
             (case gets (ca_s c) cid of
                (Ok chunk, s) \<Rightarrow>
                  (case putl l chunk of
                     (Ok _, l) \<Rightarrow> (Ok chunk, \<lparr>ca_s = s, ca_l = l\<rparr>)
                   | (Err e, l) \<Rightarrow> (Err (Wrapped ''failed to store in local cache'' e), \<lparr>ca_s = s, ca_l = l\<rparr>)
                   | (Panic p, l) \<Rightarrow> (Panic p, \<lparr>ca_s = s, ca_l = l\<rparr>))
              | (r, s) \<Rightarrow> (r, \<lparr>ca_s = s, ca_l = l\<rparr>))
         | _ \<Rightarrow> (r, c\<lparr>ca_l := l\<rparr>)))"

definition Cache_HasChunk :: "'l has_fn \<Rightarrow> 's has_fn \<Rightarrow> ('s, 'l) Cache has_fn" where
  "Cache_HasChunk hasl hass c cid =
     (case hasl (ca_l c) cid of
        (Ok False, l) \<Rightarrow> (case hass (ca_s c) cid of (r, s) \<Rightarrow> (r, \<lparr>ca_s = s, ca_l = l\<rparr>))
      | (r, l) \<Rightarrow> (r, c\<lparr>ca_l := l\<rparr>))"

definition NewCache :: "'s \<Rightarrow> 'l \<Rightarrow> ('s, 'l) Cache" where
  "NewCache s l = \<lparr>ca_s = s, ca_l = l\<rparr>"

definition Cache_String :: "('l \<Rightarrow> string) \<Rightarrow> ('s \<Rightarrow> string) \<Rightarrow> ('s, 'l) Cache \<Rightarrow> string" where
  "Cache_String namel names c = ''store:'' @ names (ca_s c) @ '' with cache '' @ namel (ca_l c)"

text \<open>The error of closing the local store is dropped.\<close>

definition Cache_Close :: "'l close_fn \<Rightarrow> 's close_fn \<Rightarrow> ('s, 'l) Cache close_fn" where
  "Cache_Close closel closes c =
     (case closel (ca_l c) of
        (Panic p, l) \<Rightarrow> (Panic p, c\<lparr>ca_l := l\<rparr>)
      | (_, l) \<Rightarrow> (case closes (ca_s c) of (r, s) \<Rightarrow> (r, \<lparr>ca_s = s, ca_l = l\<rparr>)))"

text \<open>\<open>errors.As\<close> with a \<open>ChunkInvalid\<close> target: the first one in the chain of causes.\<close>

fun as_ChunkInvalid :: "go_error \<Rightarrow> chunk_id option" where
  "as_ChunkInvalid (ChunkInvalid i x) = Some i"
| "as_ChunkInvalid (Wrapped m e) = as_ChunkInvalid e"
| "as_ChunkInvalid _ = None"

definition RepairableCache_GetChunk :: "'l get_fn \<Rightarrow> 'l get_fn" where
  "RepairableCache_GetChunk getl l cid =
     (case getl l cid of
        (Err e, l) \<Rightarrow> (case as_ChunkInvalid e of Some i \<Rightarrow> (Err (ChunkMissing i), l) | None \<Rightarrow> (Err e, l))
      | r \<Rightarrow> r)"

text \<open>The other operations of the repairable cache are those of the store it wraps.\<close>

definition RepairableCache_HasChunk :: "'l has_fn \<Rightarrow> 'l has_fn" where
  "RepairableCache_HasChunk hasl = hasl"

definition RepairableCache_StoreChunk :: "'l put_fn \<Rightarrow> 'l put_fn" where
  "RepairableCache_StoreChunk putl = putl"

definition RepairableCache_Close :: "'l close_fn \<Rightarrow> 'l close_fn" where
  "RepairableCache_Close closel = closel"

section \<open>Router\<close>

text \<open>The names of the stores with a separator between them (\<open>strings.Join\<close>).\<close>

fun join_names :: "string \<Rightarrow> string list \<Rightarrow> string" where
  "join_names sep [] = []"
| "join_names sep [a] = a"
| "join_names sep (a # b # as) = a @ sep @ join_names sep (b # as)"

definition StoreRouter_String :: "('s \<Rightarrow> string) \<Rightarrow> 's list \<Rightarrow> string" where
  "StoreRouter_String name ss = join_names '','' (map name ss)"

text \<open>
  Closing all stores of a list; \<open>keep\<close> combines the error of the stores so far with the one of
  the next: the router returns the first, the failover group the last.
\<close>

fun close_all ::
  "(go_error option \<Rightarrow> go_error \<Rightarrow> go_error) \<Rightarrow> 's close_fn \<Rightarrow> go_error option \<Rightarrow> 's list close_fn" where
  "close_all keep cl sErr [] = ((case sErr of None \<Rightarrow> Ok () | Some e \<Rightarrow> Err e), [])"
| "close_all keep cl sErr (s # ss) =
     (case cl s of
        (Ok _, s') \<Rightarrow> (case close_all keep cl sErr ss of (r, ss') \<Rightarrow> (r, s' # ss'))
      | (Err e, s') \<Rightarrow> (case close_all keep cl (Some (keep sErr e)) ss of (r, ss') \<Rightarrow> (r, s' # ss'))
      | (Panic p, s') \<Rightarrow> (Panic p, s' # ss))"

definition StoreRouter_Close :: "'s close_fn \<Rightarrow> 's list close_fn" where
  "StoreRouter_Close cl = close_all (\<lambda>sErr e. case sErr of None \<Rightarrow> e | Some e0 \<Rightarrow> e0) cl None"

fun StoreRouter_GetChunk :: "('s \<Rightarrow> string) \<Rightarrow> 's get_fn \<Rightarrow> 's list get_fn" where
  "StoreRouter_GetChunk name get [] cid = (Err (ChunkMissing cid), [])"
| "StoreRouter_GetChunk name get (s # ss) cid =
     (case get s cid of (r, s') \<Rightarrow>
        (case r of
           Ok chunk \<Rightarrow> (Ok chunk, s' # ss)
         | Err (ChunkMissing _) \<Rightarrow>
             (case StoreRouter_GetChunk name get ss cid of (r, ss') \<Rightarrow> (r, s' # ss'))
         | Err e \<Rightarrow> (Err (Wrapped (name s') e), s' # ss)
         | Panic p \<Rightarrow> (Panic p, s' # ss)))"

fun StoreRouter_HasChunk :: "'s has_fn \<Rightarrow> 's list has_fn" where
  "StoreRouter_HasChunk has [] cid = (Ok False, [])"
| "StoreRouter_HasChunk has (s # ss) cid =
     (case has s cid of
        (Ok False, s') \<Rightarrow> (case StoreRouter_HasChunk has ss cid of (r, ss') \<Rightarrow> (r, s' # ss'))
      | (r, s') \<Rightarrow> (r, s' # ss))"

section \<open>Failover group\<close>

record 's FailoverGroup =
  fo_stores :: "'s list"
  fo_active :: nat

definition NewFailoverGroup :: "'s list \<Rightarrow> 's FailoverGroup" where
  "NewFailoverGroup ss = \<lparr>fo_stores = ss, fo_active = 0\<rparr>"

definition errorFrom :: "nat \<Rightarrow> 's FailoverGroup \<Rightarrow> 's FailoverGroup" where
  "errorFrom i g =
     (if i \<noteq> fo_active g then g
      else g\<lparr>fo_active := (fo_active g + 1) mod length (fo_stores g)\<rparr>)"

text \<open>
  The loop of \<open>GetChunk\<close> and \<open>HasChunk\<close>, \<open>n\<close> rounds left. \<open>final\<close> tells which errors are returned right
  away. When no round is left the last error is returned; with no stores at all that is a nil error
  and a nil chunk, \<open>Ok None\<close>.
\<close>

fun failover_loop ::
  "('s \<Rightarrow> 'r res \<times> 's) \<Rightarrow> (go_error \<Rightarrow> bool) \<Rightarrow> nat \<Rightarrow> go_error option \<Rightarrow> 's FailoverGroup
   \<Rightarrow> 'r option res \<times> 's FailoverGroup" where
  "failover_loop f final 0 gErr g =
     ((case gErr of None \<Rightarrow> Ok None | Some e \<Rightarrow> Err e), g)"
| "failover_loop f final (Suc n) gErr g =
     (let i = fo_active g in
      if i \<ge> length (fo_stores g) then (Panic ''index out of range'', g)
      else case f (fo_stores g ! i) of (r, s) \<Rightarrow>
        let g = g\<lparr>fo_stores := (fo_stores g)[i := s]\<rparr>
        in case r of
             Ok b \<Rightarrow> (Ok (Some b), g)
           | Panic p \<Rightarrow> (Panic p, g)
           | Err e \<Rightarrow> if final e then (Err e, g) else failover_loop f final n (Some e) (errorFrom i g))"

fun is_ChunkMissing :: "go_error \<Rightarrow> bool" where
  "is_ChunkMissing (ChunkMissing i) = True"
| "is_ChunkMissing _ = False"

definition FailoverGroup_GetChunk ::
  "'s get_fn \<Rightarrow> 's FailoverGroup \<Rightarrow> chunk_id \<Rightarrow> Chunk option res \<times> 's FailoverGroup" where
  "FailoverGroup_GetChunk get g cid =
     failover_loop (\<lambda>s. get s cid) is_ChunkMissing (length (fo_stores g)) None g"

definition FailoverGroup_HasChunk ::
  "'s has_fn \<Rightarrow> 's FailoverGroup \<Rightarrow> chunk_id \<Rightarrow> bool option res \<times> 's FailoverGroup" where
  "FailoverGroup_HasChunk has g cid =
     failover_loop (\<lambda>s. has s cid) (\<lambda>_. False) (length (fo_stores g)) None g"

definition FailoverGroup_String :: "('s \<Rightarrow> string) \<Rightarrow> 's FailoverGroup \<Rightarrow> string" where
  "FailoverGroup_String name g = join_names ''|'' (map name (fo_stores g))"

definition FailoverGroup_Close :: "'s close_fn \<Rightarrow> 's FailoverGroup close_fn" where
  "FailoverGroup_Close cl g =
     (case close_all (\<lambda>_ e. e) cl None (fo_stores g) of (r, ss) \<Rightarrow> (r, g\<lparr>fo_stores := ss\<rparr>))"

section \<open>Swappable store\<close>

text \<open>The stores that were closed when they were swapped out are remembered.\<close>

record 's SwapStore =
  sw_s :: 's
  sw_closed :: "'s list"

definition NewSwapStore :: "'s \<Rightarrow> 's SwapStore" where
  "NewSwapStore s = \<lparr>sw_s = s, sw_closed = []\<rparr>"

definition SwapStore_Close :: "'s close_fn \<Rightarrow> 's SwapStore close_fn" where
  "SwapStore_Close cl w = (case cl (sw_s w) of (r, s) \<Rightarrow> (r, w\<lparr>sw_s := s\<rparr>))"

definition SwapStore_GetChunk :: "'s get_fn \<Rightarrow> 's SwapStore get_fn" where
  "SwapStore_GetChunk get w cid = (case get (sw_s w) cid of (r, s) \<Rightarrow> (r, w\<lparr>sw_s := s\<rparr>))"

definition SwapStore_HasChunk :: "'s has_fn \<Rightarrow> 's SwapStore has_fn" where
  "SwapStore_HasChunk has w cid = (case has (sw_s w) cid of (r, s) \<Rightarrow> (r, w\<lparr>sw_s := s\<rparr>))"

definition SwapStore_Swap :: "('s \<Rightarrow> bool) \<Rightarrow> 's SwapStore \<Rightarrow> 's \<Rightarrow> unit res \<times> 's SwapStore" where
  "SwapStore_Swap writable w new =
     (if writable (sw_s w) \<and> \<not> writable new
      then (Err (Errorf ''a writable store can only be updated with another writable one''), w)
      else (Ok (), \<lparr>sw_s = new, sw_closed = sw_closed w @ [sw_s w]\<rparr>))"

definition SwapWriteStore_StoreChunk :: "('s \<Rightarrow> bool) \<Rightarrow> 's put_fn \<Rightarrow> 's SwapStore put_fn" where
  "SwapWriteStore_StoreChunk writable put w chunk =
     (if \<not> writable (sw_s w) then (Panic ''interface conversion'', w)
      else case put (sw_s w) chunk of (r, s) \<Rightarrow> (r, w\<lparr>sw_s := s\<rparr>))"

section \<open>Chunk storage\<close>

record 's ChunkStorage =
  cs_ws :: 's
  cs_processed :: "chunk_id set"

definition NewChunkStorage :: "'s \<Rightarrow> 's ChunkStorage" where
  "NewChunkStorage ws = \<lparr>cs_ws = ws, cs_processed = {}\<rparr>"

definition markProcessed :: "'s ChunkStorage \<Rightarrow> chunk_id \<Rightarrow> bool \<times> 's ChunkStorage" where
  "markProcessed s cid = (cid \<in> cs_processed s, s\<lparr>cs_processed := insert cid (cs_processed s)\<rparr>)"

definition unmarkProcessed :: "'s ChunkStorage \<Rightarrow> chunk_id \<Rightarrow> 's ChunkStorage" where
  "unmarkProcessed s cid = s\<lparr>cs_processed := cs_processed s - {cid}\<rparr>"

definition ChunkStorage_StoreChunk ::
  "codec_fns \<Rightarrow> 's has_fn \<Rightarrow> 's put_fn \<Rightarrow> 's ChunkStorage put_fn" where
  "ChunkStorage_StoreChunk cr has put s chunk =
     (case Chunk_ID cr chunk of (cid, chunk) \<Rightarrow>
      case markProcessed s cid of (seen, s) \<Rightarrow>
        if seen then (Ok (), s)
        else case has (cs_ws s) cid of (r, ws) \<Rightarrow>
          let s = s\<lparr>cs_ws := ws\<rparr> in
          case r of
            Err e \<Rightarrow> (Err e, s)
          | Panic p \<Rightarrow> (Panic p, s)
          | Ok True \<Rightarrow> (Ok (), s)
          | Ok False \<Rightarrow>
              (case put (cs_ws s) chunk of
                 (Ok _, ws) \<Rightarrow> (Ok (), s\<lparr>cs_ws := ws\<rparr>)
               | (Err e, ws) \<Rightarrow> (Err e, unmarkProcessed (s\<lparr>cs_ws := ws\<rparr>) cid)
               | (Panic p, ws) \<Rightarrow> (Panic p, s\<lparr>cs_ws := ws\<rparr>)))"

section \<open>Copy\<close>

text \<open>What a worker does with one identifier.\<close>

definition copy_one ::
  "'s get_fn \<Rightarrow> 'd has_fn \<Rightarrow> 'd put_fn \<Rightarrow> 's \<times> 'd \<Rightarrow> chunk_id \<Rightarrow> unit res \<times> 's \<times> 'd" where
  "copy_one get has put st cid =
     (case st of (src, dst) \<Rightarrow>
        case has dst cid of
          (Err e, dst) \<Rightarrow> (Err e, src, dst)
        | (Panic p, dst) \<Rightarrow> (Panic p, src, dst)
        | (Ok True, dst) \<Rightarrow> (Ok (), src, dst)
        | (Ok False, dst) \<Rightarrow>
            (case get src cid of
               (Err e, src) \<Rightarrow> (Err e, src, dst)
             | (Panic p, src) \<Rightarrow> (Panic p, src, dst)
             | (Ok chunk, src) \<Rightarrow> (case put dst chunk of (r, dst) \<Rightarrow> (r, src, dst))))"

text \<open>
  The workers take identifiers from a channel and process them in parallel; a step of the relation
  is one identifier processed by some worker, so that every order in which the workers finish is
  a run (of at least one worker). The flag tells whether the context can be done: feeding the
  identifiers may then stop at any moment, which is not an error of \<open>Copy\<close>. The first error of a worker
  ends the context; the other workers may go on for a while, but it is the result of \<open>g.Wait\<close>.
\<close>

inductive copy_run ::
  "'s get_fn \<Rightarrow> 'd has_fn \<Rightarrow> 'd put_fn \<Rightarrow> bool \<Rightarrow> chunk_id multiset \<Rightarrow> 's \<times> 'd \<Rightarrow> unit res \<Rightarrow> 's \<times> 'd \<Rightarrow> bool"
  for get has put where
  finished: "copy_run get has put d {#} st (Ok ()) st"
| stopped: "copy_run get has put True ids st (Ok ()) st"
| step: "copy_one get has put st cid = (Ok (), st') \<Longrightarrow> copy_run get has put d ids st' r st'' \<Longrightarrow>
     copy_run get has put d (add_mset cid ids) st r st''"
| failed: "copy_one get has put st cid = (Err e, st') \<Longrightarrow> copy_run get has put True ids st' r st'' \<Longrightarrow>
     copy_run get has put d (add_mset cid ids) st (Err e) st''"
| panicked: "copy_one get has put st cid = (Panic m, st') \<Longrightarrow>
     copy_run get has put d (add_mset cid ids) st (Panic m) st'"

inductive_cases copy_run_emptyE: "copy_run get has put d {#} st r st'"

end
