(* ===== verification/Stores_Props.thy ===== *)
theory Stores_Props
  imports Stores
begin

text \<open>
  The contracts of stores as locales, their interpretations on the directory store, and what the
  combinations of stores guarantee.
\<close>

section \<open>Stores that hand out genuine chunks\<close>

definition genuine :: "codec_fns \<Rightarrow> chunk_id \<Rightarrow> Chunk \<Rightarrow> bool" where
  "genuine cr cid c \<longleftrightarrow> (cid \<noteq> zero_id \<longrightarrow> chunk_valid cr cid c)"

locale verified_store =
  fixes cr :: codec_fns
    and get :: "'s \<Rightarrow> chunk_id \<Rightarrow> Chunk res \<times> 's"
  assumes get_genuine: "get s cid = (Ok c, s') \<Longrightarrow> genuine cr cid c"
begin

lemma router_genuine: "StoreRouter_GetChunk name get ss cid = (Ok c, ss') \<Longrightarrow> genuine cr cid c"
  by (induction ss arbitrary: ss')
     (auto intro: get_genuine split: prod.splits res.splits go_error.splits)

lemma failover_genuine:
  "failover_loop (\<lambda>s. get s cid) final n e g = (Ok (Some c), g') \<Longrightarrow> genuine cr cid c"
  by (induction n arbitrary: e g)
     (auto simp: Let_def intro: get_genuine split: prod.splits res.splits if_splits option.splits)

lemma swap_genuine: "SwapStore_GetChunk get w cid = (Ok c, w') \<Longrightarrow> genuine cr cid c"
  by (auto simp: SwapStore_GetChunk_def intro: get_genuine split: prod.splits)

lemma repairable_genuine: "RepairableCache_GetChunk get s cid = (Ok c, s') \<Longrightarrow> genuine cr cid c"
  by (auto simp: RepairableCache_GetChunk_def intro: get_genuine split: prod.splits res.splits option.splits)

end

locale cached_store = loc: verified_store cr getl + rem: verified_store cr gets
  for cr :: codec_fns and getl :: "'l \<Rightarrow> chunk_id \<Rightarrow> Chunk res \<times> 'l"
    and gets :: "'s \<Rightarrow> chunk_id \<Rightarrow> Chunk res \<times> 's" +
  fixes putl :: "'l \<Rightarrow> Chunk \<Rightarrow> unit res \<times> 'l"

sublocale cached_store \<subseteq> cache: verified_store cr "Cache_GetChunk getl putl gets"
  by unfold_locales
     (auto simp: Cache_GetChunk_def intro: loc.get_genuine rem.get_genuine
       split: prod.splits res.splits go_error.splits)

context cached_store begin

lemma cache_genuine: "Cache_GetChunk getl putl gets c cid = (Ok ch, c') \<Longrightarrow> genuine cr cid ch"
  by (rule cache.get_genuine)

end

section \<open>The directory store as a store\<close>

text \<open>Its state: the file system, and the faults of the coming calls of \<open>StoreChunk\<close>.\<close>

type_synonym local_state = "fs \<times> os_faults list"

definition local_store :: "string \<Rightarrow> bool \<Rightarrow> LocalStore" where
  "local_store base unc =
     (let opt = NewStoreOptionsWithDefaults\<lparr>Uncompressed := unc\<rparr>
      in \<lparr>ls_Base = base, ls_UpdateTimes = False, ls_Opt = opt, ls_converters = options_converters opt\<rparr>)"

definition local_get :: "codec_fns \<Rightarrow> LocalStore \<Rightarrow> local_state get_fn" where
  "local_get cr s st cid = (LocalStore_GetChunk cr s (fst st) cid, st)"

definition local_has :: "LocalStore \<Rightarrow> local_state has_fn" where
  "local_has s st cid = (LocalStore_HasChunk s (fst st) cid, st)"

definition local_put :: "codec_fns \<Rightarrow> LocalStore \<Rightarrow> local_state put_fn" where
  "local_put cr s st c =
     (let flt = (case snd st of [] \<Rightarrow> no_faults | f # _ \<Rightarrow> f)
      in case LocalStore_StoreChunk cr s flt (fst st) c of (r, states) \<Rightarrow> (r, (last states, tl (snd st))))"

definition local_inv :: "local_state \<Rightarrow> bool" where
  "local_inv st \<longleftrightarrow> (\<forall>f \<in> set (snd st). CHR ''/'' \<notin> set (of_name f))"

definition local_present :: "LocalStore \<Rightarrow> local_state \<Rightarrow> chunk_id \<Rightarrow> bool" where
  "local_present s st cid \<longleftrightarrow> LocalStore_HasChunk s (fst st) cid = Ok True"

text \<open>The chunk has a file, which \<open>os.Stat\<close> may still refuse to tell.\<close>

definition local_file :: "LocalStore \<Rightarrow> local_state \<Rightarrow> chunk_id \<Rightarrow> bool" where
  "local_file s st cid \<longleftrightarrow> map_of (fst st) (snd (nameFromID s cid)) \<noteq> None"

interpretation local_dir: verified_store cr "local_get cr (local_store base unc)" for cr base unc
  by unfold_locales
     (auto simp: local_get_def genuine_def local_store_def Let_def NewStoreOptionsWithDefaults_def
       intro!: GetChunk_valid)

interpretation local_cache: cached_store cr "local_get cr (local_store base unc)"
  "local_get cr (local_store base' unc')" "local_put cr (local_store base unc)" for cr base unc base' unc'
  by unfold_locales

section \<open>Writable stores\<close>

locale write_store =
  fixes cr :: codec_fns
    and has :: "'s \<Rightarrow> chunk_id \<Rightarrow> bool res \<times> 's"
    and put :: "'s \<Rightarrow> Chunk \<Rightarrow> unit res \<times> 's"
    and inv :: "'s \<Rightarrow> bool"
    and present :: "'s \<Rightarrow> chunk_id \<Rightarrow> bool"
  assumes has_inv: "has s cid = (r, s') \<Longrightarrow> inv s \<Longrightarrow> inv s' \<and> (present s i \<longrightarrow> present s' i)"
    and has_Ok: "has s cid = (Ok b, s') \<Longrightarrow> inv s \<Longrightarrow> b = present s' cid"
    and put_inv: "put s c = (u, s') \<Longrightarrow> inv s \<Longrightarrow> is_chunk_id (fst (Chunk_ID cr c)) \<Longrightarrow> is_chunk_id i \<Longrightarrow>
      inv s' \<and> (present s i \<longrightarrow> present s' i)"
    and put_Ok: "put s c = (Ok (), s') \<Longrightarrow> inv s \<Longrightarrow> is_chunk_id (fst (Chunk_ID cr c)) \<Longrightarrow>
      present s' (fst (Chunk_ID cr c))"

lemma Chunk_ID_again:
  assumes "Chunk_ID cr c = (i, c')"
  shows "fst (Chunk_ID cr c') = i"
proof -
  have "Chunk_Data cr c = (r, d) \<Longrightarrow> ch_idCalculated d = ch_idCalculated c" for r d
    by (auto simp: Chunk_Data_def split: if_splits res.splits)
  then have flag: "ch_idCalculated d = ch_idCalculated c" if "Chunk_Data cr c = (r, d)" for r d using that .
  show ?thesis
  proof (cases "ch_idCalculated c")
    case True
    then show ?thesis using assms by (auto simp: Chunk_ID_def)
  next
    case False
    obtain r d where d: "Chunk_Data cr c = (r, d)" by (cases "Chunk_Data cr c")
    then have dd: "Chunk_Data cr d = (r, d)" "\<not> ch_idCalculated d"
      using Chunk_Data_again flag False by auto
    show ?thesis
    proof (cases r)
      case (Ok b)
      then have "c' = d\<lparr>ch_id := i, ch_idCalculated := True\<rparr>" using assms d False by (auto simp: Chunk_ID_def)
      then show ?thesis by (simp add: Chunk_ID_def)
    qed (use assms d dd False in \<open>simp_all add: Chunk_ID_def\<close>)
  qed
qed

lemma store_bytes_present:
  assumes "store_bytes flt fs d p b = (r, states)" "tmp_path d (of_name flt) \<noteq> p"
    "q \<noteq> tmp_path d (of_name flt)"
  shows "map_of (last states) q \<in> {map_of fs q, Some (clean_file b)} \<and> (r = Ok () \<longrightarrow> map_of (last states) p = Some (clean_file b))"
proof -
  have "last states \<in> set states"
    using store_bytes_states[OF assms(1,2)] by auto
  then have "map_of (last states) p \<in> {map_of fs p, Some (clean_file b)}"
    "q \<noteq> p \<Longrightarrow> map_of (last states) q = map_of fs q"
    using store_bytes_states[OF assms(1,2)] assms(3) by blast+
  then show ?thesis using store_bytes_states[OF assms(1,2)] by (cases "q = p") auto
qed

lemma local_put_present:
  assumes "local_put cr s st c = (r, st')" "local_inv st" "is_chunk_id (fst (Chunk_ID cr c))"
  shows "local_inv st' \<and>
     (is_chunk_id i \<longrightarrow> (local_present s st i \<longrightarrow> local_present s st' i) \<and> (local_file s st i \<longrightarrow> local_file s st' i)) \<and>
     (r = Ok () \<longrightarrow> local_present s st' (fst (Chunk_ID cr c)) \<and> local_file s st' (fst (Chunk_ID cr c)))"
proof -
  define flt where "flt = (case snd st of [] \<Rightarrow> no_faults | f # _ \<Rightarrow> f)"
  obtain cid c1 where id: "Chunk_ID cr c = (cid, c1)" by (cases "Chunk_ID cr c")
  obtain states where st: "LocalStore_StoreChunk cr s flt (fst st) c = (r, states)" "st' = (last states, tl (snd st))"
    using assms(1) by (auto simp: local_put_def flt_def Let_def split: prod.splits)
  have nm: "CHR ''/'' \<notin> set (of_name flt)"
    using assms(2) by (auto simp: flt_def local_inv_def no_faults_def split: list.splits)
  have iv: "local_inv st'" using assms(2) st(2) by (cases "snd st") (auto simp: local_inv_def)
  show ?thesis
  proof (cases "fst (Chunk_Storage cr c1 (ls_converters s))")
    case (Ok b)
    then have sb: "store_bytes flt (fst st) (fst (nameFromID s cid)) (snd (nameFromID s cid)) b = (r, states)"
      using st(1) id by (simp add: LocalStore_StoreChunk_def split: prod.splits)
    have t: "is_chunk_id j \<Longrightarrow> snd (nameFromID s j) \<noteq> tmp_path (fst (nameFromID s cid)) (of_name flt)" for j
      using tmp_not_chunk[OF nm, of j] by metis
    show ?thesis
    proof -
      have cid: "is_chunk_id cid" using assms(3) id by simp
      note p = store_bytes_present[OF sb t[OF cid, symmetric] t]
      have "(local_present s st i \<longrightarrow> local_present s st' i) \<and> (local_file s st i \<longrightarrow> local_file s st' i)" if "is_chunk_id i"
        using p[OF that] st(2) by (simp add: local_present_def local_file_def HasChunk_eq) fastforce
      moreover have "local_present s st' cid \<and> local_file s st' cid" if "r = Ok ()"
        using p[OF cid] st(2) that by (simp add: local_present_def local_file_def HasChunk_eq)
      ultimately show ?thesis using id iv by simp
    qed
  qed (use st iv id in \<open>auto simp: LocalStore_StoreChunk_def local_present_def local_file_def split: prod.splits\<close>)
qed

interpretation local_dir: write_store cr "local_has s" "local_put cr s" local_inv "local_present s" for cr s
proof unfold_locales
  fix st :: local_state and cid i r st'
  assume "local_has s st cid = (r, st')" "local_inv st"
  then show "local_inv st' \<and> (local_present s st i \<longrightarrow> local_present s st' i)" by (simp add: local_has_def)
next
  fix st :: local_state and cid b st'
  assume "local_has s st cid = (Ok b, st')"
  then show "b = local_present s st' cid" by (auto simp: local_has_def local_present_def)
qed (use local_put_present in blast)+

text \<open>A writable store that can be read, and is used as a cache.\<close>

locale cache_dir = write_store cr has put inv present
  for cr has put inv and present :: "'s \<Rightarrow> chunk_id \<Rightarrow> bool" +
  fixes get :: "'s \<Rightarrow> chunk_id \<Rightarrow> Chunk res \<times> 's"
  assumes get_inv: "get s cid = (x, s') \<Longrightarrow> inv s \<Longrightarrow> inv s' \<and> (present s i \<longrightarrow> present s' i)"
    and get_Ok: "get s cid = (Ok c, s') \<Longrightarrow> inv s \<Longrightarrow> present s' cid"
    and get_present: "get s cid = (Err (ChunkMissing i), s') \<Longrightarrow> inv s \<Longrightarrow> \<not> present s cid"
begin

lemma cache_fills:
  assumes "verified_store cr gets" "inv (ca_l c)" "is_chunk_id cid" "cid \<noteq> zero_id"
    "Cache_GetChunk get put gets c cid = (Ok ch, c')"
  shows "inv (ca_l c') \<and> present (ca_l c') cid"
proof -
  obtain x l where g: "get (ca_l c) cid = (x, l)" by (cases "get (ca_l c) cid")
  have il: "inv l" using get_inv[OF g assms(2)] by simp
  consider (hit) "x = Ok ch" "ca_l c' = l"
    | (miss) i s where "x = Err (ChunkMissing i)" "gets (ca_s c) cid = (Ok ch, s)" "put l ch = (Ok (), ca_l c')"
    using assms(5) g by (auto simp: Cache_GetChunk_def split: res.splits go_error.splits prod.splits)
  then show ?thesis
  proof cases
    case hit
    then show ?thesis using get_Ok[of "ca_l c" cid ch l] g assms(2) il by simp
  next
    case miss
    then have "fst (Chunk_ID cr ch) = cid"
      using verified_store.get_genuine[OF assms(1) miss(2)] assms(4) by (simp add: genuine_def chunk_valid_def)
    then show ?thesis using put_Ok[OF miss(3) il] put_inv[OF miss(3) il] assms(3) by simp
  qed
qed

lemma cache_serves:
  assumes "inv (ca_l c)" "present (ca_l c) cid"
  shows "ca_s (snd (Cache_GetChunk get put gets c cid)) = ca_s c"
  using assms get_present[of "ca_l c" cid]
  by (auto simp: Cache_GetChunk_def split: res.splits go_error.splits prod.splits)

end

interpretation local_cached: cache_dir cr "local_has s" "local_put cr s" local_inv "local_file s" "local_get cr s" for cr s
proof unfold_locales
  fix st :: local_state and cid b st'
  assume "local_has s st cid = (Ok b, st')"
  then show "b = local_file s st' cid" using HasChunk_present[of s "fst st" cid b] by (auto simp: local_has_def local_file_def)
qed (use local_put_present in \<open>fastforce simp: local_has_def local_get_def local_file_def LocalStore_GetChunk_def os_ReadFile_def Let_def
        NewChunkFromStorage_def verify_new_def split: option.splits if_splits prod.splits\<close>)+

section \<open>Deduplicated storing and copying\<close>

text \<open>A sequence of chunks stored one after the other, up to the first failure.\<close>

fun store_all ::
  "codec_fns \<Rightarrow> 's has_fn \<Rightarrow> 's put_fn \<Rightarrow> 's ChunkStorage \<Rightarrow> Chunk list \<Rightarrow> unit res \<times> 's ChunkStorage" where
  "store_all cr has put s [] = (Ok (), s)"
| "store_all cr has put s (c # cs) =
     (case ChunkStorage_StoreChunk cr has put s c of (Ok _, s) \<Rightarrow> store_all cr has put s cs | r \<Rightarrow> r)"

context write_store begin

lemma storage_ok:
  assumes "ChunkStorage_StoreChunk cr has put s c = (Ok (), s')" "inv (cs_ws s)"
    "is_chunk_id (fst (Chunk_ID cr c))" "\<forall>i \<in> cs_processed s. is_chunk_id i \<and> present (cs_ws s) i"
  shows "inv (cs_ws s') \<and> present (cs_ws s') (fst (Chunk_ID cr c)) \<and>
     (\<forall>i. is_chunk_id i \<and> present (cs_ws s) i \<longrightarrow> present (cs_ws s') i) \<and>
     cs_processed s' = insert (fst (Chunk_ID cr c)) (cs_processed s)"
proof -
  obtain cid c1 where id: "Chunk_ID cr c = (cid, c1)" by (cases "Chunk_ID cr c")
  show ?thesis
  proof (cases "cid \<in> cs_processed s")
    case True
    then show ?thesis using assms id by (auto simp: ChunkStorage_StoreChunk_def markProcessed_def)
  next
    case False
    obtain x ws where h: "has (cs_ws s) cid = (x, ws)" by (cases "has (cs_ws s) cid")
    note hi = has_inv[OF h assms(2)]
    consider (old) "x = Ok True" "cs_ws s' = ws" "cs_processed s' = insert cid (cs_processed s)"
      | (new) "x = Ok False" "put ws c1 = (Ok (), cs_ws s')" "cs_processed s' = insert cid (cs_processed s)"
      using assms(1) id False h
      by (auto simp: ChunkStorage_StoreChunk_def markProcessed_def Let_def split: res.splits bool.splits prod.splits)
    then show ?thesis
    proof cases
      case old
      then show ?thesis using hi has_Ok[of "cs_ws s" cid True ws] h assms(2) id by auto
    next
      case new
      have "fst (Chunk_ID cr c1) = cid" using Chunk_ID_again[OF id] .
      then show ?thesis using hi put_inv[OF new(2)] put_Ok[OF new(2)] assms(3) id new(3) by auto
    qed
  qed
qed

lemma store_all_ok:
  assumes "store_all cr has put s cs = (Ok (), s')" "inv (cs_ws s)"
    "\<forall>c \<in> set cs. is_chunk_id (fst (Chunk_ID cr c))"
    "\<forall>i \<in> cs_processed s. is_chunk_id i \<and> present (cs_ws s) i"
  shows "(\<forall>c \<in> set cs. present (cs_ws s') (fst (Chunk_ID cr c))) \<and>
     (\<forall>i. is_chunk_id i \<and> present (cs_ws s) i \<longrightarrow> present (cs_ws s') i)"
  using assms
proof (induction cs arbitrary: s)
  case (Cons c cs)
  obtain s1 where s1: "ChunkStorage_StoreChunk cr has put s c = (Ok (), s1)" "store_all cr has put s1 cs = (Ok (), s')"
    using Cons.prems(1) by (auto split: prod.splits res.splits)
  note p = storage_ok[OF s1(1) Cons.prems(2) _ Cons.prems(4)]
  have "\<forall>i \<in> cs_processed s1. is_chunk_id i \<and> present (cs_ws s1) i" using p Cons.prems(3,4) by auto
  with Cons.IH[OF s1(2)] p Cons.prems(3) show ?case by auto
qed simp

lemma copy_one_ok:
  assumes "verified_store cr get" "copy_one get has put (src, dst) cid = (Ok (), src', dst')" "inv dst"
    "is_chunk_id cid" "cid \<noteq> zero_id"
  shows "inv dst' \<and> present dst' cid \<and> (is_chunk_id i \<longrightarrow> present dst i \<longrightarrow> present dst' i)"
proof -
  obtain x d where h: "has dst cid = (x, d)" by (cases "has dst cid")
  note hi = has_inv[OF h assms(3)]
  consider (old) "x = Ok True" "dst' = d"
    | (new) c where "x = Ok False" "get src cid = (Ok c, src')" "put d c = (Ok (), dst')"
    using assms(2) h by (auto simp: copy_one_def split: res.splits bool.splits prod.splits)
  then show ?thesis
  proof cases
    case old
    then show ?thesis using hi has_Ok[of dst cid True d] h assms(3) by auto
  next
    case new
    then have "fst (Chunk_ID cr c) = cid"
      using verified_store.get_genuine[OF assms(1) new(2)] assms(5) by (simp add: genuine_def chunk_valid_def)
    then show ?thesis using hi put_inv[OF new(3)] put_Ok[OF new(3)] assms(4) by auto
  qed
qed

lemma copy_run_ok:
  assumes "copy_run get has put d ids st r st'" "\<not> d" "verified_store cr get" "r = Ok ()" "inv (snd st)"
    "\<forall>i \<in># ids. is_chunk_id i \<and> i \<noteq> zero_id"
  shows "inv (snd st') \<and> (\<forall>i \<in># ids. present (snd st') i) \<and>
     (\<forall>i. is_chunk_id i \<and> present (snd st) i \<longrightarrow> present (snd st') i)"
  using assms
proof (induction rule: copy_run.induct)
  case (step st cid st1 d ids r st2)
  obtain src dst src1 dst1 where st: "st = (src, dst)" "st1 = (src1, dst1)" by (cases st; cases st1)
  have "inv dst1 \<and> present dst1 cid \<and> (\<forall>i. is_chunk_id i \<longrightarrow> present dst i \<longrightarrow> present dst1 i)"
    using copy_one_ok[OF step.prems(2), of src dst cid src1 dst1] step.hyps(1) step.prems st by auto
  with step.IH step.prems st show ?case by auto
qed auto

end


section \<open>Routing and failing over\<close>

lemma router_find:
  "fst (StoreRouter_GetChunk name get ss cid) =
     (case find (\<lambda>s. \<forall>i. fst (get s cid) \<noteq> Err (ChunkMissing i)) ss of
        None \<Rightarrow> Err (ChunkMissing cid)
      | Some s \<Rightarrow> (case get s cid of (Err e, s') \<Rightarrow> Err (Wrapped (name s') e) | (r, s') \<Rightarrow> r))"
  by (induction ss) (auto split: prod.splits res.splits go_error.splits)

text \<open>A store that keeps its state, as its answer and itself.\<close>

definition pure_call :: "('s \<Rightarrow> 'r res) \<Rightarrow> 's \<Rightarrow> 'r res \<times> 's" where
  "pure_call f s = (f s, s)"

fun retry :: "(go_error \<Rightarrow> bool) \<Rightarrow> 'r res \<Rightarrow> bool" where
  "retry final (Err e) = (\<not> final e)"
| "retry final _ = False"

lemma errorFrom_active:
  "errorFrom (fo_active g) g = g\<lparr>fo_active := (fo_active g + 1) mod length (fo_stores g)\<rparr>"
  by (simp add: errorFrom_def)

text \<open>The order in which the stores are asked: all of them once, starting with the active one.\<close>

lemma failover_loop_order:
  assumes "fo_active g < length (fo_stores g)" "n \<le> length (fo_stores g)"
    "order = take n (rotate (fo_active g) (fo_stores g))"
  shows "fst (failover_loop (pure_call f) final n gErr g) =
      (case find (\<lambda>s. \<not> retry final (f s)) order of
         Some s \<Rightarrow> (case f s of Ok b \<Rightarrow> Ok (Some b) | Err e \<Rightarrow> Err e | Panic p \<Rightarrow> Panic p)
       | None \<Rightarrow> (if order = [] then (case gErr of None \<Rightarrow> Ok None | Some e \<Rightarrow> Err e)
                  else (case f (last order) of Err e \<Rightarrow> Err e | _ \<Rightarrow> Ok None))) \<and>
    fo_stores (snd (failover_loop (pure_call f) final n gErr g)) = fo_stores g \<and>
    fo_active (snd (failover_loop (pure_call f) final n gErr g)) < length (fo_stores g)"
  using assms
proof (induction n arbitrary: g gErr order)
  case (Suc n)
  let ?ss = "fo_stores g" and ?i = "fo_active g" and ?L = "length (fo_stores g)"
  let ?s = "?ss ! ?i" and ?g = "g\<lparr>fo_active := (?i + 1) mod ?L\<rparr>"
  have ne: "?ss \<noteq> []" using Suc.prems(1) by auto
  have order: "order = ?s # take n (rotate ((?i + 1) mod ?L) ?ss)"
  proof -
    have "rotate ?i ?ss = ?s # tl (rotate ?i ?ss)"
      using Suc.prems(1) ne hd_rotate_conv_nth[of ?ss ?i] by (metis hd_Cons_tl mod_less rotate_is_Nil_conv)
    moreover have "rotate ((?i + 1) mod ?L) ?ss = tl (rotate ?i ?ss) @ [?s]"
    proof -
      have "rotate ((?i + 1) mod ?L) ?ss = rotate1 (rotate ?i ?ss)"
        by (metis rotate_conv_mod rotate_Suc Suc_eq_plus1)
      then show ?thesis using calculation by (metis list.simps(3) rotate1.simps(2))
    qed
    moreover have "n \<le> length (tl (rotate ?i ?ss))" using Suc.prems(2) by simp
    ultimately show ?thesis using Suc.prems(3) by (metis take_Suc_Cons take_append diff_is_0_eq take0 append_Nil2)
  qed
  have step: "failover_loop (pure_call f) final (Suc n) gErr g = (case f ?s of
       Ok b \<Rightarrow> (Ok (Some b), g) | Panic p \<Rightarrow> (Panic p, g)
     | Err e \<Rightarrow> if final e then (Err e, g) else failover_loop (pure_call f) final n (Some e) ?g)"
    using Suc.prems(1) by (simp add: pure_call_def errorFrom_def Let_def split: res.splits)
  show ?case
  proof (cases "retry final (f ?s)")
    case False
    then show ?thesis using step order Suc.prems(1) by (auto split: res.splits)
  next
    case True
    then obtain e where e: "f ?s = Err e" "\<not> final e" by (cases "f ?s") auto
    have "fo_active ?g < length (fo_stores ?g)" "n \<le> length (fo_stores ?g)" using Suc.prems ne by simp_all
    from Suc.IH[OF this, of "take n (rotate ((?i + 1) mod ?L) ?ss)" "Some e"] show ?thesis
      using step e order True by (auto split: option.splits)
  qed
qed simp

section \<open>Properties\<close>

text \<open>
  The cache: after a successful \<open>GetChunk\<close> through a cache in a directory, whatever the remote
  store (as long as it hands out genuine chunks) and whatever fails while the chunk is stored, the
  cache has the chunk, and the next \<open>GetChunk\<close> for it does not ask the remote store.
\<close>

theorem cache_fills_and_serves:
  assumes "verified_store cr gets" "local_inv (ca_l c)" "is_chunk_id cid" "cid \<noteq> zero_id"
    "Cache_GetChunk (local_get cr s) (local_put cr s) gets c cid = (Ok ch, c')"
  shows "LocalStore_HasChunk s (fst (ca_l c')) cid \<noteq> Ok False \<and>
     ca_s (snd (Cache_GetChunk (local_get cr s) (local_put cr s) gets' c' cid)) = ca_s c'"
proof -
  have "local_inv (ca_l c') \<and> local_file s (ca_l c') cid"
    using local_cached.cache_fills[OF assms] .
  then show ?thesis
    using local_cached.cache_serves[of c' s cid cr gets'] HasChunk_present[of s "fst (ca_l c')" cid False]
    by (auto simp: local_file_def)
qed

definition serve :: "Chunk \<Rightarrow> unit \<Rightarrow> chunk_id \<Rightarrow> Chunk res \<times> unit" where
  "serve ch u cid = (if fst (Chunk_ID toy_codec ch) = cid \<and> ch_data ch \<noteq> [] \<and> \<not> ch_idCalculated ch
     then Ok ch else Err (ChunkMissing cid), u)"

lemma serve_verified: "verified_store toy_codec (serve ch)"
  by unfold_locales
     (auto simp: serve_def genuine_def chunk_valid_def Chunk_ID_def Chunk_Data_def split: if_splits)

theorem cache_fills_and_serves_witness:
  "let s = local_store ''/a'' False; b = [1]; i = pad_sum b;
       c = \<lparr>ca_s = (), ca_l = ([], [])\<rparr>;
       c' = snd (Cache_GetChunk (local_get toy_codec s) (local_put toy_codec s) (serve (NewChunk b)) c i)
   in LocalStore_HasChunk s (fst (ca_l c')) i \<noteq> Ok False \<and>
     ca_s (snd (Cache_GetChunk (local_get toy_codec s) (local_put toy_codec s) (serve (NewChunk b)) c' i)) = ca_s c'"
proof -
  let ?s = "local_store ''/a'' False" and ?c = "\<lparr>ca_s = (), ca_l = ([], [])\<rparr> :: (unit, local_state) Cache"
  let ?r = "Cache_GetChunk (local_get toy_codec ?s) (local_put toy_codec ?s) (serve (NewChunk [1])) ?c (pad_sum [1])"
  have "fst ?r = Ok (NewChunk [1])"
    by (simp add: Cache_GetChunk_def local_get_def LocalStore_GetChunk_def os_ReadFile_def serve_def Chunk_ID_def
        Chunk_Data_def NewChunk_def toy_codec_def local_put_def LocalStore_StoreChunk_def nameFromID_def
        Chunk_Storage_def store_bytes_def no_faults_def local_store_def options_converters_def
        NewStoreOptionsWithDefaults_def Let_def)
  then have r: "?r = (Ok (NewChunk [1]), snd ?r)" by (simp add: prod_eq_iff)
  have "pad_sum [1] \<noteq> zero_id" "is_chunk_id (pad_sum [1])"
    by (simp_all add: pad_sum_def zero_id_def chunk_id_len_def numeral_eq_Suc is_chunk_id_def)
  then show ?thesis unfolding Let_def
    by (intro cache_fills_and_serves[OF serve_verified _ _ _ r]) (simp_all add: local_inv_def)
qed

text \<open>
  The router returns what the first store that does not report the chunk missing returns, and
  reports it missing exactly when all of them do; an error of a store on the way ends the search.
\<close>

theorem router_first_match:
  "fst (StoreRouter_GetChunk name get ss cid) =
     (case find (\<lambda>s. \<forall>i. fst (get s cid) \<noteq> Err (ChunkMissing i)) ss of
        None \<Rightarrow> Err (ChunkMissing cid)
      | Some s \<Rightarrow> (case get s cid of (Err e, s') \<Rightarrow> Err (Wrapped (name s') e) | (r, s') \<Rightarrow> r))"
  by (rule router_find)

text \<open>
  The failover group asks its stores in rotation, starting with the active one and each at most
  once, and returns the first answer that is not a failure (a missing chunk is not one for
  \<open>GetChunk\<close>); only when all of them fail it returns an error, the one of the last store asked. The
  active store stays one of the group.
\<close>

theorem failover_rotation:
  assumes "fo_active g < length (fo_stores g)"
  shows "fst (FailoverGroup_GetChunk (\<lambda>s cid. (get s cid, s)) g cid) =
      (case find (\<lambda>s. \<not> retry is_ChunkMissing (get s cid)) (rotate (fo_active g) (fo_stores g)) of
         Some s \<Rightarrow> (case get s cid of Ok b \<Rightarrow> Ok (Some b) | Err e \<Rightarrow> Err e | Panic p \<Rightarrow> Panic p)
       | None \<Rightarrow> (case get (last (rotate (fo_active g) (fo_stores g))) cid of Err e \<Rightarrow> Err e | _ \<Rightarrow> Ok None)) \<and>
    fo_active (snd (FailoverGroup_GetChunk (\<lambda>s cid. (get s cid, s)) g cid)) < length (fo_stores g)"
proof -
  have "(\<lambda>s. (get s cid, s)) = pure_call (\<lambda>s. get s cid)" by (simp add: pure_call_def fun_eq_iff)
  moreover have "fo_stores g \<noteq> []" using assms by auto
  ultimately show ?thesis
    using failover_loop_order[OF assms order_refl refl, of "\<lambda>s. get s cid" is_ChunkMissing None]
    by (simp add: FailoverGroup_GetChunk_def split: option.splits)
qed

theorem failover_rotation_witness:
  "let g = \<lparr>fo_stores = [Err (ErrIO ''down''), Ok (NewChunk [1])], fo_active = 0\<rparr>; get = (\<lambda>s (cid :: chunk_id). s)
   in fst (FailoverGroup_GetChunk (\<lambda>s cid. (get s cid, s)) g zero_id) = Ok (Some (NewChunk [1])) \<and>
     fo_active (snd (FailoverGroup_GetChunk (\<lambda>s cid. (get s cid, s)) g zero_id)) < length (fo_stores g)"
  using failover_rotation[of "\<lparr>fo_stores = [Err (ErrIO ''down''), Ok (NewChunk [1])], fo_active = 0\<rparr>"
      "\<lambda>s cid. s" zero_id] by (simp add: Let_def)

text \<open>
  (C28) A repairable cache heals: when the chunk in the cache directory is missing or damaged and
  the remote store has it, \<open>GetChunk\<close> through a cache over the repairable cache returns the chunk of
  the remote store (when nothing fails while it is stored), and afterwards the directory has the
  right data itself: the next \<open>GetChunk\<close> is answered from there, whatever the remote store would say.
\<close>

theorem repairable_cache_heals:
  assumes "codec_ok cr"
    "(\<exists>i. LocalStore_GetChunk cr s fs cid = Err (ChunkMissing i)) \<or> (\<exists>i x. LocalStore_GetChunk cr s fs cid = Err (ChunkInvalid i x))"
    "gets r cid = (Ok ch, r')" "holds cr ch b" "Digest_Sum cr b = cid"
  shows "\<exists>c'. Cache_GetChunk (RepairableCache_GetChunk (local_get cr s)) (local_put cr s) gets
       \<lparr>ca_s = r, ca_l = (fs, [])\<rparr> cid = (Ok ch, c') \<and> ca_s c' = r' \<and>
     (\<exists>ch'. holds cr ch' b \<and> (\<forall>gets'. Cache_GetChunk (RepairableCache_GetChunk (local_get cr s)) (local_put cr s) gets' c' cid = (Ok ch', c')))"
proof -
  have id: "is_chunk_id cid" using sum_len[OF assms(1), of b] assms(5) by simp
  obtain res states where st: "LocalStore_StoreChunk cr s no_faults fs ch = (res, states)"
    by (cases "LocalStore_StoreChunk cr s no_faults fs ch")
  obtain sb where sb: "fromStorage cr (ls_converters s) sb = Ok b" "sb \<noteq> []"
    "store_bytes no_faults fs (fst (nameFromID s cid)) (snd (nameFromID s cid)) sb = (res, states)"
    using StoreChunk_holds[OF assms(1,4) st] assms(5) by blast
  then have ok: "res = Ok ()" by (auto simp: store_bytes_def no_faults_def Let_def)
  have nf: "CHR ''/'' \<notin> set (of_name no_faults)" by (simp add: no_faults_def)
  have "map_of (last states) (snd (nameFromID s cid)) = Some (clean_file sb)"
    using store_bytes_states[OF sb(3) tmp_not_chunk[OF nf id]] ok by simp
  then obtain ch' where "LocalStore_GetChunk cr s (last states) cid = Ok ch'" "holds cr ch' b"
    using GetChunk_file[of "last states" s cr b sb] sb(1,2) assms(4,5) by (auto simp: holds_def)
  moreover have "Cache_GetChunk (RepairableCache_GetChunk (local_get cr s)) (local_put cr s) gets
       \<lparr>ca_s = r, ca_l = (fs, [])\<rparr> cid = (Ok ch, \<lparr>ca_s = r', ca_l = (last states, [])\<rparr>)"
    using assms(2,3) st ok
    by (auto simp: Cache_GetChunk_def RepairableCache_GetChunk_def local_get_def local_put_def)
  ultimately show ?thesis
    by (auto simp: Cache_GetChunk_def RepairableCache_GetChunk_def local_get_def)
qed

theorem repairable_cache_heals_witness:
  "let s = local_store ''/a'' False; b = [1]; i = pad_sum b;
       fs = [(snd (nameFromID s i), clean_file [40, 9])]
   in \<exists>c'. Cache_GetChunk (RepairableCache_GetChunk (local_get toy_codec s)) (local_put toy_codec s) (serve (NewChunk b))
       \<lparr>ca_s = (), ca_l = (fs, [])\<rparr> i = (Ok (NewChunk b), c') \<and> ca_s c' = () \<and>
     (\<exists>ch'. holds toy_codec ch' b \<and>
       (\<forall>gets'. Cache_GetChunk (RepairableCache_GetChunk (local_get toy_codec s)) (local_put toy_codec s) gets' c' i = (Ok ch', c')))"
  unfolding Let_def
proof (rule repairable_cache_heals[OF toy_codec_ok])
  have "pad_sum [x] ! 0 = x" for x by (simp add: pad_sum_def)
  from this[of 9] this[of 1] have "pad_sum [9] \<noteq> pad_sum [1]" by auto
  then have "LocalStore_GetChunk toy_codec (local_store ''/a'' False)
     [(snd (nameFromID (local_store ''/a'' False) (pad_sum [1])), clean_file [40, 9])] (pad_sum [1])
     = Err (ChunkInvalid (pad_sum [1]) (pad_sum [9]))"
    by (simp add: LocalStore_GetChunk_def os_ReadFile_def NewChunkFromStorage_def verify_new_def Chunk_ID_def
        Chunk_Data_def fromStorage_def local_store_def options_converters_def NewStoreOptionsWithDefaults_def
        toy_codec_def Let_def)
  then show "(\<exists>i. LocalStore_GetChunk toy_codec (local_store ''/a'' False)
       [(snd (nameFromID (local_store ''/a'' False) (pad_sum [1])), clean_file [40, 9])] (pad_sum [1]) = Err (ChunkMissing i)) \<or>
     (\<exists>i x. LocalStore_GetChunk toy_codec (local_store ''/a'' False)
       [(snd (nameFromID (local_store ''/a'' False) (pad_sum [1])), clean_file [40, 9])] (pad_sum [1]) = Err (ChunkInvalid i x))"
    by blast
qed (simp_all add: serve_def Chunk_ID_def Chunk_Data_def NewChunk_def toy_codec_def holds_def)

text \<open>
  \<open>ChunkStorage\<close>: when a sequence of chunks has been stored without an error, starting from a
  fresh storage over a directory, the directory has all of them, although chunks that were seen
  before are skipped.
\<close>

theorem chunk_storage_complete:
  assumes "local_inv st" "\<forall>c \<in> set cs. is_chunk_id (fst (Chunk_ID cr c))"
    "store_all cr (local_has s) (local_put cr s) (NewChunkStorage st) cs = (Ok (), s')"
  shows "\<forall>c \<in> set cs. LocalStore_HasChunk s (fst (cs_ws s')) (fst (Chunk_ID cr c)) = Ok True"
  using local_dir.store_all_ok[OF assms(3) _ assms(2)] assms(1)
  by (auto simp: NewChunkStorage_def local_present_def)

theorem chunk_storage_complete_witness:
  "let s = local_store ''/a'' False; cs = [NewChunk [1], NewChunk [1]];
       s' = snd (store_all toy_codec (local_has s) (local_put toy_codec s) (NewChunkStorage ([], [])) cs)
   in \<forall>c \<in> set cs. LocalStore_HasChunk s (fst (cs_ws s')) (fst (Chunk_ID toy_codec c)) = Ok True"
  unfolding Let_def
proof (rule chunk_storage_complete)
  let ?s = "local_store ''/a'' False"
  show "store_all toy_codec (local_has ?s) (local_put toy_codec ?s) (NewChunkStorage ([], [])) [NewChunk [1], NewChunk [1]]
     = (Ok (), snd (store_all toy_codec (local_has ?s) (local_put toy_codec ?s) (NewChunkStorage ([], [])) [NewChunk [1], NewChunk [1]]))"
    by (simp add: ChunkStorage_StoreChunk_def NewChunkStorage_def markProcessed_def local_has_def HasChunk_eq
        Chunk_ID_def Chunk_Data_def NewChunk_def toy_codec_def local_put_def LocalStore_StoreChunk_def nameFromID_def
        Chunk_Storage_def store_bytes_def no_faults_def local_store_def options_converters_def
        NewStoreOptionsWithDefaults_def Let_def)
qed (simp_all add: local_inv_def Chunk_ID_def Chunk_Data_def NewChunk_def)

text \<open>
  A chunk whose presence could not be determined is lost: when \<open>HasChunk\<close> of the store fails,
  \<open>ChunkStorage.StoreChunk\<close> returns that error but leaves the chunk marked as processed, so that
  storing it again reports success without storing anything.
\<close>

theorem chunk_storage_has_error:
  assumes "fst (Chunk_ID cr c) \<notin> cs_processed s" "has (cs_ws s) (fst (Chunk_ID cr c)) = (Err e, ws)"
  shows "\<exists>s'. ChunkStorage_StoreChunk cr has put s c = (Err e, s') \<and>
     ChunkStorage_StoreChunk cr has put s' c = (Ok (), s') \<and> cs_ws s' = ws"
  using assms
  by (cases "Chunk_ID cr c") (simp add: ChunkStorage_StoreChunk_def markProcessed_def insert_absorb)

theorem chunk_storage_has_error_witness:
  "let has = (\<lambda>(u :: unit) cid. (Err (ErrIO ''timeout''), u)); put = (\<lambda>u c. (Ok (), u))
   in \<exists>s'. ChunkStorage_StoreChunk toy_codec has put (NewChunkStorage ()) (NewChunk [1]) = (Err (ErrIO ''timeout''), s') \<and>
     ChunkStorage_StoreChunk toy_codec has put s' (NewChunk [1]) = (Ok (), s') \<and> cs_ws s' = ()"
  unfolding Let_def by (rule chunk_storage_has_error) (simp_all add: NewChunkStorage_def)

text \<open>\<open>Copy\<close> always ends, and a cancelled one may end without an error and with nothing copied.\<close>

lemma copy_run_ends: "\<exists>r st'. copy_run get has put d ids st r st'"
proof (induction ids arbitrary: d st)
  case empty
  then show ?case using copy_run.finished by blast
next
  case (add cid ids)
  obtain x st1 where one: "copy_one get has put st cid = (x, st1)" by (cases "copy_one get has put st cid")
  show ?case
  proof (cases x)
    case (Ok u)
    then have "copy_one get has put st cid = (Ok (), st1)" using one by simp
    then show ?thesis using add[of d st1] copy_run.step by blast
  next
    case (Err e)
    then show ?thesis using add[of True st1] copy_run.failed[of get has put st cid e st1 ids _ _ d] one by blast
  next
    case (Panic m)
    then show ?thesis using copy_run.panicked[of get has put st cid m st1 d ids] one by blast
  qed
qed

lemma copy_cancelled: "copy_run get has put True ids st (Ok ()) st"
  by (rule copy_run.stopped)

text \<open>
  (C29) \<open>Copy\<close> with any number of workers, in any order in which they process the identifiers: when its
  context is not cancelled and it returns without an error, the destination directory has every
  chunk of the list, provided that the source hands out genuine chunks and no identifier is all zero.
\<close>

theorem copy_complete:
  assumes "copy_run get (local_has s) (local_put cr s) False ids (src, dst) (Ok ()) st'"
    "verified_store cr get" "local_inv dst" "\<forall>i \<in># ids. is_chunk_id i \<and> i \<noteq> zero_id" "i \<in># ids"
  shows "LocalStore_HasChunk s (fst (snd st')) i = Ok True"
  using local_dir.copy_run_ok[OF assms(1) _ assms(2) refl _ assms(4)] assms(3,5)
  by (auto simp: local_present_def)

theorem copy_complete_witness:
  "let s = local_store ''/a'' False; i = pad_sum [1]
   in \<exists>st'. copy_run (serve (NewChunk [1])) (local_has s) (local_put toy_codec s) False {#i#} ((), ([], [])) (Ok ()) st' \<and>
     LocalStore_HasChunk s (fst (snd st')) i = Ok True"
proof -
  let ?s = "local_store ''/a'' False" and ?i = "pad_sum [1]"
  let ?r = "copy_one (serve (NewChunk [1])) (local_has ?s) (local_put toy_codec ?s) ((), ([], [])) ?i"
  have "fst ?r = Ok ()"
    by (simp add: copy_one_def local_has_def HasChunk_eq serve_def
        Chunk_ID_def Chunk_Data_def NewChunk_def toy_codec_def local_put_def LocalStore_StoreChunk_def nameFromID_def
        Chunk_Storage_def store_bytes_def no_faults_def local_store_def options_converters_def
        NewStoreOptionsWithDefaults_def Let_def)
  then have "?r = (Ok (), snd ?r)" by (simp add: prod_eq_iff)
  then have run: "copy_run (serve (NewChunk [1])) (local_has ?s) (local_put toy_codec ?s) False {#?i#} ((), ([], [])) (Ok ()) (snd ?r)"
    using copy_run.step copy_run.finished by metis
  have "?i \<noteq> zero_id" "is_chunk_id ?i"
    by (simp_all add: pad_sum_def zero_id_def chunk_id_len_def numeral_eq_Suc is_chunk_id_def)
  then have "LocalStore_HasChunk ?s (fst (snd (snd ?r))) ?i = Ok True"
    using copy_complete[OF run serve_verified, of ?i] by (simp add: local_inv_def)
  with run show ?thesis unfolding Let_def by blast
qed

text \<open>
  A swappable store that can be written stays so: \<open>Swap\<close> refuses a read-only store in place of a
  writable one and leaves everything as it is, and otherwise the old store is closed exactly once and
  later requests go to the new one; so \<open>StoreChunk\<close> never fails on the conversion.
\<close>

theorem swap_keeps_writable:
  assumes "writable (sw_s w)" "SwapStore_Swap writable w new = (r, w')"
  shows "writable (sw_s w') \<and> (r = Ok () \<longleftrightarrow> writable new) \<and>
     (if r = Ok () then sw_s w' = new \<and> sw_closed w' = sw_closed w @ [sw_s w] else w' = w) \<and>
     fst (SwapWriteStore_StoreChunk writable put w' c) = fst (put (sw_s w') c)"
  using assms by (auto simp: SwapStore_Swap_def SwapWriteStore_StoreChunk_def split: if_splits prod.splits)

theorem swap_keeps_writable_witness:
  "let w = \<lparr>sw_s = (1 :: nat), sw_closed = []\<rparr>; writable = (\<lambda>s. s > 0); put = (\<lambda>s (c :: Chunk). (Ok (), s));
       r = fst (SwapStore_Swap writable w 0); w' = snd (SwapStore_Swap writable w 0)
   in writable (sw_s w') \<and> (r = Ok () \<longleftrightarrow> writable 0) \<and>
     (if r = Ok () then sw_s w' = 0 \<and> sw_closed w' = sw_closed w @ [sw_s w] else w' = w) \<and>
     fst (SwapWriteStore_StoreChunk writable put w' (NewChunk [])) = fst (put (sw_s w') (NewChunk []))"
  unfolding Let_def by (rule swap_keeps_writable) simp_all

end
