(* ===== verification/Protocol.thy ===== *)
theory Protocol
  imports Format Stores_Props
begin

text \<open>
  The casync protocol over a pair of pipes (\<^verbatim>\<open>src/protocol.go\<close>), the server side
  (\<^verbatim>\<open>src/protocolserver.go\<close>) and the remote store with its pool of sessions
  (\<^verbatim>\<open>src/remotessh.go\<close>). The pipe that is read is a stream, the one that is written is any writer.
  A call that fails leaves the stream where it stopped reading.
\<close>

section \<open>Messages\<close>

record 'w Protocol =
  p_r :: stream
  p_w :: 'w
  initialized :: bool

record Message =
  m_type :: u64
  m_body :: bytes

definition NewProtocol :: "stream \<Rightarrow> 'w \<Rightarrow> 'w Protocol" where
  "NewProtocol r w = \<lparr>p_r = r, p_w = w, initialized = False\<rparr>"

definition ReadMessage :: "stream \<Rightarrow> Message res \<times> stream" where
  "ReadMessage s =
     (case ReadUint64 s of
        Err e \<Rightarrow> (Err e, s\<lparr>s_data := []\<rparr>)
      | Panic x \<Rightarrow> (Panic x, s)
      | Ok (len, s) \<Rightarrow>
          if len < 16 then (Err (Errorf ''message length too short''), s)
          else case ReadN s (len - 8) of
            Err e \<Rightarrow> (Err e, s\<lparr>s_data := []\<rparr>)
          | Panic x \<Rightarrow> (Panic x, s)
          | Ok (b, s) \<Rightarrow> (Ok \<lparr>m_type = from_le (take 8 b), m_body = drop 8 b\<rparr>, s))"

text \<open>\<open>io.Copy\<close> from the header and the body one after the other.\<close>

definition WriteMessage :: "'w write_fn \<Rightarrow> 'w Protocol \<Rightarrow> Message \<Rightarrow> unit res \<times> 'w Protocol" where
  "WriteMessage wr p m =
     (let h = le64 (word_of_nat (16 + length (m_body m))) @ le64 (m_type m)
      in case then_write (io_copy wr (p_w p) h) (\<lambda>w. io_copy wr w (m_body m)) of (n, err, w) \<Rightarrow>
           ((case err of None \<Rightarrow> Ok () | Some e \<Rightarrow> Err e), p\<lparr>p_w := w\<rparr>))"

section \<open>The handshake and the messages of a session\<close>

definition SendHello :: "'w write_fn \<Rightarrow> 'w Protocol \<Rightarrow> u64 \<Rightarrow> unit res \<times> 'w Protocol" where
  "SendHello wr p flags = WriteMessage wr p \<lparr>m_type = CaProtocolHello, m_body = le64 flags\<rparr>"

definition RecvHello :: "'w Protocol \<Rightarrow> u64 res \<times> 'w Protocol" where
  "RecvHello p =
     (case ReadMessage (p_r p) of
        (Err e, s) \<Rightarrow> (Err e, p\<lparr>p_r := s\<rparr>)
      | (Panic x, s) \<Rightarrow> (Panic x, p\<lparr>p_r := s\<rparr>)
      | (Ok m, s) \<Rightarrow>
          ((if m_type m \<noteq> CaProtocolHello then Err (Errorf ''expected protocol hello, got %x'')
            else if length (m_body m) \<noteq> 8 then Err (Errorf ''unexpected length of hello msg, got %d, expected 8'')
            else Ok (from_le (m_body m))), p\<lparr>p_r := s\<rparr>))"

text \<open>
  The two goroutines of \<open>Initialize\<close> use one pipe each, so their order does not matter; both have
  finished before the errors are looked at.
\<close>

definition Initialize :: "'w write_fn \<Rightarrow> 'w Protocol \<Rightarrow> u64 \<Rightarrow> u64 res \<times> 'w Protocol" where
  "Initialize wr p flags =
     (case SendHello wr p flags of (sent, p) \<Rightarrow>
      case RecvHello p of (got, p) \<Rightarrow>
        (case sent of
           Err e \<Rightarrow> (Err e, p)
         | Panic x \<Rightarrow> (Panic x, p)
         | Ok _ \<Rightarrow> (case got of Ok out \<Rightarrow> (Ok out, p\<lparr>initialized := True\<rparr>) | _ \<Rightarrow> (got, p))))"

definition when_initialized ::
  "'w Protocol \<Rightarrow> ('w Protocol \<Rightarrow> 'a res \<times> 'w Protocol) \<Rightarrow> 'a res \<times> 'w Protocol" where
  "when_initialized p f = (if \<not> initialized p then (Err (Errorf ''protocol not initialized''), p) else f p)"

definition SendProtocolRequest :: "'w write_fn \<Rightarrow> 'w Protocol \<Rightarrow> chunk_id \<Rightarrow> u64 \<Rightarrow> unit res \<times> 'w Protocol" where
  "SendProtocolRequest wr p cid flags =
     when_initialized p (\<lambda>p. WriteMessage wr p \<lparr>m_type = CaProtocolRequest, m_body = le64 flags @ cid\<rparr>)"

definition SendProtocolChunk ::
  "'w write_fn \<Rightarrow> 'w Protocol \<Rightarrow> chunk_id \<Rightarrow> u64 \<Rightarrow> bytes \<Rightarrow> unit res \<times> 'w Protocol" where
  "SendProtocolChunk wr p cid flags chunk =
     when_initialized p (\<lambda>p. WriteMessage wr p \<lparr>m_type = CaProtocolChunk, m_body = le64 flags @ cid @ chunk\<rparr>)"

definition SendMissing :: "'w write_fn \<Rightarrow> 'w Protocol \<Rightarrow> chunk_id \<Rightarrow> unit res \<times> 'w Protocol" where
  "SendMissing wr p cid =
     when_initialized p (\<lambda>p. WriteMessage wr p \<lparr>m_type = CaProtocolMissing, m_body = cid\<rparr>)"

definition SendGoodbye :: "'w write_fn \<Rightarrow> 'w Protocol \<Rightarrow> unit res \<times> 'w Protocol" where
  "SendGoodbye wr p =
     when_initialized p (\<lambda>p. WriteMessage wr p \<lparr>m_type = CaProtocolGoodbye, m_body = []\<rparr>)"

definition chunk_of_reply :: "codec_fns \<Rightarrow> chunk_id \<Rightarrow> Message \<Rightarrow> Chunk res" where
  "chunk_of_reply cr cid m =
     (if m_type m = CaProtocolMissing then Err (ChunkMissing cid)
      else if m_type m = CaProtocolChunk then
        (if length (m_body m) < 40 then Err (Errorf ''received chunk too small'')
         else NewChunkFromStorage cr cid (drop 40 (m_body m)) [Compressor] False)
      else Err (Errorf ''unexpected protocol message type %x''))"

definition RequestChunk :: "codec_fns \<Rightarrow> 'w write_fn \<Rightarrow> 'w Protocol get_fn" where
  "RequestChunk cr wr p cid =
     when_initialized p (\<lambda>p.
       case SendProtocolRequest wr p cid CaProtocolRequestHighPriority of
         (Err e, p) \<Rightarrow> (Err e, p)
       | (Panic x, p) \<Rightarrow> (Panic x, p)
       | (Ok _, p) \<Rightarrow>
           (case ReadMessage (p_r p) of
              (Err e, s) \<Rightarrow> (Err e, p\<lparr>p_r := s\<rparr>)
            | (Panic x, s) \<Rightarrow> (Panic x, p\<lparr>p_r := s\<rparr>)
            | (Ok m, s) \<Rightarrow> (chunk_of_reply cr cid m, p\<lparr>p_r := s\<rparr>)))"

section \<open>The server\<close>

record ('s, 'w) ProtocolServer =
  ps_p :: "'w Protocol"
  ps_store :: 's

definition NewProtocolServer :: "stream \<Rightarrow> 'w \<Rightarrow> 's \<Rightarrow> ('s, 'w) ProtocolServer" where
  "NewProtocolServer r w s = \<lparr>ps_p = NewProtocol r w, ps_store = s\<rparr>"

text \<open>
  What the server does with one message: \<open>Some r\<close> when it returns with \<open>r\<close>, \<open>None\<close> when it goes
  on. \<open>errors.Wrap\<close> of a nil error is nil, so that the server returns without an error
  after it has reported a chunk as missing.
\<close>

definition serve_request ::
  "codec_fns \<Rightarrow> 'w write_fn \<Rightarrow> 's get_fn \<Rightarrow> ('s, 'w) ProtocolServer \<Rightarrow> chunk_id
   \<Rightarrow> unit res option \<times> ('s, 'w) ProtocolServer" where
  "serve_request cr wr get srv cid =
     (case get (ps_store srv) cid of (r, st) \<Rightarrow>
        let srv = srv\<lparr>ps_store := st\<rparr>
        in case r of
             Panic x \<Rightarrow> (Some (Panic x), srv)
           | Err e \<Rightarrow>
               if is_ChunkMissing e then
                 (case SendMissing wr (ps_p srv) cid of
                    (Ok _, p) \<Rightarrow> (Some (Ok ()), srv\<lparr>ps_p := p\<rparr>)
                  | (Err e, p) \<Rightarrow> (Some (Err (Wrapped ''failed to send to client'' e)), srv\<lparr>ps_p := p\<rparr>)
                  | (Panic x, p) \<Rightarrow> (Some (Panic x), srv\<lparr>ps_p := p\<rparr>))
               else (Some (Err (Wrapped ''unable to read chunk from store'' e)), srv)
           | Ok chunk \<Rightarrow>
               (case Chunk_Storage cr chunk [Compressor] of
                  (Err e, _) \<Rightarrow> (Some (Err e), srv)
                | (Panic x, _) \<Rightarrow> (Some (Panic x), srv)
                | (Ok b, chunk) \<Rightarrow>
                    (case SendProtocolChunk wr (ps_p srv) (fst (Chunk_ID cr chunk)) CaProtocolChunkCompressed b of
                       (Ok _, p) \<Rightarrow> (None, srv\<lparr>ps_p := p\<rparr>)
                     | (Err e, p) \<Rightarrow> (Some (Err (Wrapped ''failed to send chunk data'' e)), srv\<lparr>ps_p := p\<rparr>)
                     | (Panic x, p) \<Rightarrow> (Some (Panic x), srv\<lparr>ps_p := p\<rparr>))))"

definition serve_message ::
  "codec_fns \<Rightarrow> 'w write_fn \<Rightarrow> 's get_fn \<Rightarrow> ('s, 'w) ProtocolServer \<Rightarrow> Message
   \<Rightarrow> unit res option \<times> ('s, 'w) ProtocolServer" where
  "serve_message cr wr get srv m =
     (if m_type m = CaProtocolRequest then
        (if length (m_body m) < 40 then (Some (Err (Errorf ''protocol request too small'')), srv)
         else case ChunkIDFromSlice (slice (m_body m) 8 40) of
           Err e \<Rightarrow> (Some (Err (Wrapped ''unable to decode requested chunk id'' e)), srv)
         | Panic x \<Rightarrow> (Some (Panic x), srv)
         | Ok cid \<Rightarrow> serve_request cr wr get srv cid)
      else if m_type m = CaProtocolAbort then (Some (Err (Errorf ''client aborted connection'')), srv)
      else if m_type m = CaProtocolGoodbye then (Some (Ok ()), srv)
      else (Some (Err (Errorf ''unexpected command (%x) from client'')), srv))"

lemma WriteMessage_reader:
  "WriteMessage wr p m = (r, p') \<Longrightarrow> p_r p' = p_r p \<and> initialized p' = initialized p"
  by (auto simp: WriteMessage_def Let_def split: prod.splits)

lemmas send_defs = SendHello_def SendProtocolRequest_def SendProtocolChunk_def SendMissing_def SendGoodbye_def
  when_initialized_def

lemma serve_message_reader:
  "serve_message cr wr get srv m = (r, srv') \<Longrightarrow> p_r (ps_p srv') = p_r (ps_p srv)"
  by (auto simp: serve_message_def serve_request_def send_defs Let_def
      dest: WriteMessage_reader split: if_splits res.splits prod.splits)

lemma ReadMessage_shorter: "ReadMessage s = (Ok m, s') \<Longrightarrow> length (s_data s') < length (s_data s)"
  by (auto simp: ReadMessage_def ReadN_def read_full_def res_simps dest!: ReadUint64_shorter
      split: if_splits res.splits)

text \<open>The loop of the server; \<open>ctx k\<close> tells whether the context is done at the \<open>k\<close>-th check.\<close>

function serve_loop ::
  "codec_fns \<Rightarrow> 'w write_fn \<Rightarrow> 's get_fn \<Rightarrow> (nat \<Rightarrow> bool) \<Rightarrow> nat \<Rightarrow> ('s, 'w) ProtocolServer
   \<Rightarrow> unit res \<times> ('s, 'w) ProtocolServer" where
  "serve_loop cr wr get ctx k srv =
     (if ctx k then (Ok (), srv)
      else case ReadMessage (p_r (ps_p srv)) of (r, s) \<Rightarrow>
        let srv = srv\<lparr>ps_p := (ps_p srv)\<lparr>p_r := s\<rparr>\<rparr>
        in case r of
             Err e \<Rightarrow> (Err (Wrapped ''failed to read protocol message from client'' e), srv)
           | Panic x \<Rightarrow> (Panic x, srv)
           | Ok m \<Rightarrow>
               (case serve_message cr wr get srv m of
                  (Some r, srv) \<Rightarrow> (r, srv)
                | (None, srv) \<Rightarrow> serve_loop cr wr get ctx (Suc k) srv))"
  by pat_completeness auto
termination
  by (relation "measure (\<lambda>(_, _, _, _, _, srv). length (s_data (p_r (ps_p srv))))")
     (auto dest!: serve_message_reader[OF sym] ReadMessage_shorter[OF sym])

declare serve_loop.simps [simp del]

definition ProtocolServer_Serve ::
  "codec_fns \<Rightarrow> 'w write_fn \<Rightarrow> 's get_fn \<Rightarrow> (nat \<Rightarrow> bool) \<Rightarrow> ('s, 'w) ProtocolServer
   \<Rightarrow> unit res \<times> ('s, 'w) ProtocolServer" where
  "ProtocolServer_Serve cr wr get ctx srv =
     (case Initialize wr (ps_p srv) CaProtocolReadableStore of (r, p) \<Rightarrow>
        let srv = srv\<lparr>ps_p := p\<rparr>
        in case r of
             Err e \<Rightarrow> (Err (Wrapped ''failed to perform protocol handshake'' e), srv)
           | Panic x \<Rightarrow> (Panic x, srv)
           | Ok flags \<Rightarrow>
               if flags AND CaProtocolPullChunks = 0
               then (Err (Errorf ''client is not requesting chunks, provided flags %x''), srv)
               else serve_loop cr wr get ctx 0 srv)"

section \<open>The remote store\<close>

record ssh_url =
  u_host :: string
  u_path :: string
  u_user :: "string option"

text \<open>The command that is started, from the two environment variables.\<close>

definition ssh_command :: "(string \<Rightarrow> string) \<Rightarrow> ssh_url \<Rightarrow> string list" where
  "ssh_command env u =
     (let sshCmd = (if env ''CASYNC_SSH_PATH'' = [] then ''ssh'' else env ''CASYNC_SSH_PATH'');
          remoteCmd = (if env ''CASYNC_REMOTE_PATH'' = [] then ''casync'' else env ''CASYNC_REMOTE_PATH'');
          host = (case u_user u of None \<Rightarrow> u_host u | Some n \<Rightarrow> n @ ''@'' @ u_host u)
      in [sshCmd, host, remoteCmd @ '' pull - - - '' @ [CHR 0x27] @ u_path u @ [CHR 0x27]])"

text \<open>Starting a process is a parameter: it yields the two pipes or an error.\<close>

definition StartProtocol ::
  "'w write_fn \<Rightarrow> (string list \<Rightarrow> (stream \<times> 'w) res) \<Rightarrow> (string \<Rightarrow> string) \<Rightarrow> ssh_url \<Rightarrow> 'w Protocol res" where
  "StartProtocol wr exec env u =
     bind_res (exec (ssh_command env u)) (\<lambda>(r, w).
       case Initialize wr (NewProtocol r w) CaProtocolPullChunks of
         (Err e, _) \<Rightarrow> Err e
       | (Panic x, _) \<Rightarrow> Panic x
       | (Ok flags, p) \<Rightarrow>
           if flags AND CaProtocolReadableStore = 0 then Err (Errorf ''server not offering chunks'') else Ok p)"

record 'w RemoteSSH =
  ssh_location :: ssh_url
  ssh_pool :: "'w Protocol list"
  ssh_n :: nat

text \<open>The pool is a buffered channel: sessions are taken from the front and put back at the end.\<close>

fun start_sessions :: "(nat \<Rightarrow> 'w Protocol res) \<Rightarrow> nat \<Rightarrow> nat \<Rightarrow> 'w RemoteSSH \<Rightarrow> unit res \<times> 'w RemoteSSH" where
  "start_sessions start i 0 r = (Ok (), r)"
| "start_sessions start i (Suc k) r =
     (case start i of
        Ok p \<Rightarrow> start_sessions start (Suc i) k (r\<lparr>ssh_pool := ssh_pool r @ [p]\<rparr>)
      | Err e \<Rightarrow> (Err (Wrapped ''failed to start chunk server command'' e), r)
      | Panic x \<Rightarrow> (Panic x, r))"

definition NewRemoteSSHStore ::
  "(nat \<Rightarrow> 'w Protocol res) \<Rightarrow> ssh_url \<Rightarrow> StoreOptions \<Rightarrow> unit res \<times> 'w RemoteSSH" where
  "NewRemoteSSHStore start location opts =
     (let n = nat (opt_N opts) in
      if opt_N opts < 0 then (Panic ''makechan: size out of range'', \<lparr>ssh_location = location, ssh_pool = [], ssh_n = 0\<rparr>)
      else start_sessions start 0 n \<lparr>ssh_location = location, ssh_pool = [], ssh_n = n\<rparr>)"

text \<open>\<open>None\<close>: the call waits for a session that no other call is going to put back.\<close>

definition RemoteSSH_GetChunk ::
  "codec_fns \<Rightarrow> 'w write_fn \<Rightarrow> 'w RemoteSSH \<Rightarrow> chunk_id \<Rightarrow> (Chunk res \<times> 'w RemoteSSH) option" where
  "RemoteSSH_GetChunk cr wr r cid =
     (case ssh_pool r of
        [] \<Rightarrow> None
      | client # rest \<Rightarrow>
          (case RequestChunk cr wr client cid of (chunk, client) \<Rightarrow>
             Some (chunk, r\<lparr>ssh_pool := rest @ [client]\<rparr>)))"

definition RemoteSSH_HasChunk ::
  "codec_fns \<Rightarrow> 'w write_fn \<Rightarrow> 'w RemoteSSH \<Rightarrow> chunk_id \<Rightarrow> (bool res \<times> 'w RemoteSSH) option" where
  "RemoteSSH_HasChunk cr wr r cid =
     (case RemoteSSH_GetChunk cr wr r cid of
        None \<Rightarrow> None
      | Some (Ok _, r) \<Rightarrow> Some (Ok True, r)
      | Some (Err e, r) \<Rightarrow> Some (Err e, r)
      | Some (Panic x, r) \<Rightarrow> Some (Panic x, r))"

text \<open>Only the error of the last session is returned.\<close>

fun close_sessions :: "'w write_fn \<Rightarrow> nat \<Rightarrow> unit res \<Rightarrow> 'w Protocol list \<Rightarrow> (unit res \<times> 'w Protocol list) option" where
  "close_sessions wr 0 err pool = Some (err, pool)"
| "close_sessions wr (Suc k) err [] = None"
| "close_sessions wr (Suc k) err (client # pool) =
     close_sessions wr k (fst (SendGoodbye wr client)) pool"

definition RemoteSSH_Close :: "'w write_fn \<Rightarrow> 'w RemoteSSH \<Rightarrow> (unit res \<times> 'w RemoteSSH) option" where
  "RemoteSSH_Close wr r =
     (case close_sessions wr (ssh_n r) (Ok ()) (ssh_pool r) of
        None \<Rightarrow> None
      | Some (err, pool) \<Rightarrow> Some (err, r\<lparr>ssh_pool := pool\<rparr>))"

end
