(* ===== verification/Protocol_Props.thy ===== *)
theory Protocol_Props
  imports Protocol
begin

text \<open>
  What a session of the casync protocol guarantees: messages are read back as they were written, a
  client and a server that are connected with each other transfer exactly the chunks of the store, and
  the client never accepts data with a wrong digest, whatever the server sends.
\<close>

section \<open>Messages on the wire\<close>

definition message_bytes :: "Message \<Rightarrow> bytes" where
  "message_bytes m = le64 (word_of_nat (16 + length (m_body m))) @ le64 (m_type m) @ m_body m"

definition message_ok :: "Message \<Rightarrow> bool" where
  "message_ok m \<longleftrightarrow> length (m_body m) + 8 \<le> max_alloc"

lemma ReadMessage_bytes:
  assumes "message_ok m" "s_data s = message_bytes m @ rest"
  shows "ReadMessage s = (Ok m, s\<lparr>s_data := rest\<rparr>)"
proof -
  define len :: u64 where "len = word_of_nat (16 + length (m_body m))"
  have small: "16 + length (m_body m) < 2 ^ 64" using assms(1) by (simp add: message_ok_def max_alloc_def)
  have n: "unat len = 16 + length (m_body m)"
    unfolding len_def unat_of_nat using small by simp
  have ge: "\<not> len < 16" unfolding word_less_nat_alt n by simp
  have sub: "unat (len - 8) = 8 + length (m_body m)"
    by (subst unat_sub) (simp_all add: word_le_nat_alt n)
  have 1: "ReadUint64 s = Ok (len, s\<lparr>s_data := le64 (m_type m) @ m_body m @ rest\<rparr>)"
    using assms(2) by (simp add: ReadUint64_def read_full_def message_bytes_def len_def)
  have 2: "ReadN (s\<lparr>s_data := le64 (m_type m) @ m_body m @ rest\<rparr>) (len - 8)
      = Ok (le64 (m_type m) @ m_body m, s\<lparr>s_data := rest\<rparr>)"
    using assms(1) by (simp add: ReadN_def read_full_def make_bytes_def sub message_ok_def)
  show ?thesis by (simp add: ReadMessage_def 1 2 ge)
qed

text \<open>Writing to a pipe that is not closed.\<close>

context reliable_writer begin

lemma WriteMessage_good:
  assumes "good (p_w p)"
  shows "\<exists>w. WriteMessage wr p m = (Ok (), p\<lparr>p_w := w\<rparr>) \<and> good w \<and> contents w = contents (p_w p) @ message_bytes m"
proof -
  let ?h = "le64 (word_of_nat (16 + length (m_body m))) @ le64 (m_type m)"
  obtain n w1 where 1: "io_copy wr (p_w p) ?h = (n, None, w1)" "good w1"
    using succeeds_io_copy[OF assms, of ?h] by (auto simp: succeeds_def split: prod.splits)
  obtain k w2 where 2: "io_copy wr w1 (m_body m) = (k, None, w2)" "good w2"
    using succeeds_io_copy[OF 1(2), of "m_body m"] by (auto simp: succeeds_def split: prod.splits)
  have "contents w2 = contents (p_w p) @ ?h @ m_body m"
    using wrote_io_copy[of "p_w p" ?h] wrote_io_copy[of w1 "m_body m"] 1 2 by (simp add: wrote_def)
  then show ?thesis using 1 2
    by (intro exI[of _ w2]) (simp add: WriteMessage_def then_write_def message_bytes_def Let_def)
qed

text \<open>Once a session is initialised, every message is sent.\<close>

lemma send_good:
  assumes "good (p_w p)" "initialized p"
  shows "\<exists>w. when_initialized p (\<lambda>p. WriteMessage wr p m) = (Ok (), p\<lparr>p_w := w\<rparr>) \<and> good w \<and>
    contents w = contents (p_w p) @ message_bytes m"
  using WriteMessage_good[OF assms(1), of m] assms(2) by (simp add: when_initialized_def)

end

definition hello :: "u64 \<Rightarrow> Message" where
  "hello flags = \<lparr>m_type = CaProtocolHello, m_body = le64 flags\<rparr>"

definition request :: "chunk_id \<Rightarrow> Message" where
  "request cid = \<lparr>m_type = CaProtocolRequest, m_body = le64 CaProtocolRequestHighPriority @ cid\<rparr>"

definition chunk_message :: "chunk_id \<Rightarrow> bytes \<Rightarrow> Message" where
  "chunk_message cid b = \<lparr>m_type = CaProtocolChunk, m_body = le64 CaProtocolChunkCompressed @ cid @ b\<rparr>"

definition goodbye :: Message where
  "goodbye = \<lparr>m_type = CaProtocolGoodbye, m_body = []\<rparr>"

lemma message_ok_small [simp]: "message_ok (hello f)" "is_chunk_id i \<Longrightarrow> message_ok (request i)" "message_ok goodbye"
  by (simp_all add: message_ok_def hello_def request_def goodbye_def max_alloc_def is_chunk_id_def chunk_id_len_def)

lemma serve_message_request:
  assumes "is_chunk_id cid"
  shows "serve_message cr wr get srv (request cid) = serve_request cr wr get srv cid"
proof -
  have "length (m_body (request cid)) = 40" "slice (m_body (request cid)) 8 40 = cid"
    using assms by (simp_all add: request_def slice_def is_chunk_id_def chunk_id_len_def)
  then show ?thesis using assms by (simp add: serve_message_def request_def ChunkIDFromSlice_def is_chunk_id_def)
qed

lemma protocol_types: "CaProtocolRequest \<noteq> CaProtocolGoodbye" "CaProtocolAbort \<noteq> CaProtocolGoodbye"
  "CaProtocolChunk \<noteq> CaProtocolMissing" "CaProtocolRequest \<noteq> CaProtocolAbort"
  by (simp_all add: ca_consts)

context reliable_writer begin

lemma Initialize_good:
  assumes "good (p_w p)" "s_data (p_r p) = message_bytes (hello theirs) @ rest"
  shows "\<exists>w. Initialize wr p flags = (Ok theirs, p\<lparr>p_w := w, p_r := (p_r p)\<lparr>s_data := rest\<rparr>, initialized := True\<rparr>) \<and>
    good w \<and> contents w = contents (p_w p) @ message_bytes (hello flags)"
proof -
  obtain w where w: "SendHello wr p flags = (Ok (), p\<lparr>p_w := w\<rparr>)" "good w"
    "contents w = contents (p_w p) @ message_bytes (hello flags)"
    using WriteMessage_good[OF assms(1), of "hello flags"] by (auto simp: SendHello_def hello_def)
  have "ReadMessage (p_r p) = (Ok (hello theirs), (p_r p)\<lparr>s_data := rest\<rparr>)"
    by (rule ReadMessage_bytes) (simp_all add: assms(2))
  then have "RecvHello (p\<lparr>p_w := w\<rparr>) = (Ok theirs, p\<lparr>p_w := w, p_r := (p_r p)\<lparr>s_data := rest\<rparr>\<rparr>)"
    by (simp add: RecvHello_def hello_def)
  then show ?thesis using w by (intro exI[of _ w]) (simp add: Initialize_def)
qed

lemma RequestChunk_good:
  assumes "good (p_w p)" "initialized p" "message_ok m" "s_data (p_r p) = message_bytes m @ rest"
  shows "\<exists>w. RequestChunk cr wr p cid = (chunk_of_reply cr cid m, p\<lparr>p_w := w, p_r := (p_r p)\<lparr>s_data := rest\<rparr>\<rparr>) \<and>
    good w \<and> contents w = contents (p_w p) @ message_bytes (request cid)"
proof -
  obtain w where w: "SendProtocolRequest wr p cid CaProtocolRequestHighPriority = (Ok (), p\<lparr>p_w := w\<rparr>)" "good w"
    "contents w = contents (p_w p) @ message_bytes (request cid)"
    using send_good[OF assms(1,2), of "request cid"] by (auto simp: SendProtocolRequest_def request_def)
  then show ?thesis using ReadMessage_bytes[OF assms(3,4)] assms(2)
    by (intro exI[of _ w]) (simp add: RequestChunk_def when_initialized_def)
qed

text \<open>One request that the store can serve.\<close>

lemma serve_loop_request:
  assumes "good (p_w (ps_p srv))" "initialized (ps_p srv)" "is_chunk_id cid"
    "s_data (p_r (ps_p srv)) = message_bytes (request cid) @ rest"
    "get (ps_store srv) cid = (Ok c, st)" "Chunk_Storage cr c [Compressor] = (Ok sb, c')" "\<not> ctx k"
  shows "\<exists>w. serve_loop cr wr get ctx k srv = serve_loop cr wr get ctx (Suc k)
      (srv\<lparr>ps_store := st, ps_p := (ps_p srv)\<lparr>p_r := (p_r (ps_p srv))\<lparr>s_data := rest\<rparr>, p_w := w\<rparr>\<rparr>) \<and>
    good w \<and> contents w = contents (p_w (ps_p srv)) @ message_bytes (chunk_message (fst (Chunk_ID cr c')) sb)"
proof -
  let ?srv = "srv\<lparr>ps_p := (ps_p srv)\<lparr>p_r := (p_r (ps_p srv))\<lparr>s_data := rest\<rparr>\<rparr>\<rparr>"
  let ?p = "ps_p (?srv\<lparr>ps_store := st\<rparr>)"
  have read: "ReadMessage (p_r (ps_p srv)) = (Ok (request cid), (p_r (ps_p srv))\<lparr>s_data := rest\<rparr>)"
    using ReadMessage_bytes[OF message_ok_small(2)[OF assms(3)] assms(4)] .
  obtain w where w: "SendProtocolChunk wr ?p (fst (Chunk_ID cr c')) CaProtocolChunkCompressed sb = (Ok (), ?p\<lparr>p_w := w\<rparr>)"
    "good w" "contents w = contents (p_w (ps_p srv)) @ message_bytes (chunk_message (fst (Chunk_ID cr c')) sb)"
    using send_good[of ?p "chunk_message (fst (Chunk_ID cr c')) sb"] assms(1,2)
    by (auto simp: SendProtocolChunk_def chunk_message_def)
  have "serve_request cr wr get ?srv cid = (None, ?srv\<lparr>ps_store := st, ps_p := ?p\<lparr>p_w := w\<rparr>\<rparr>)"
    using assms(5,6) w(1) by (simp add: serve_request_def)
  then show ?thesis using w(2,3) read assms(7) serve_message_request[OF assms(3), of cr wr get ?srv]
    by (subst serve_loop.simps) (auto intro!: exI[of _ w])
qed

text \<open>The requests of a session, one after the other, and then the goodbye.\<close>

lemma serve_loop_session:
  assumes "good (p_w (ps_p srv))" "initialized (ps_p srv)" "\<forall>i \<in> set ids. is_chunk_id i"
    "s_data (p_r (ps_p srv)) = concat (map (\<lambda>i. message_bytes (request i)) ids) @ message_bytes goodbye"
    "\<And>s i. i \<in> set ids \<Longrightarrow> \<exists>c st c'. get s i = (Ok c, st) \<and> Chunk_Storage cr c [Compressor] = (Ok (sb i), c') \<and>
       fst (Chunk_ID cr c') = i"
    "\<And>k. \<not> ctx k"
  shows "\<exists>srv'. serve_loop cr wr get ctx k srv = (Ok (), srv') \<and>
    contents (p_w (ps_p srv')) = contents (p_w (ps_p srv)) @ concat (map (\<lambda>i. message_bytes (chunk_message i (sb i))) ids)"
  using assms
proof (induction ids arbitrary: srv k)
  case Nil
  have "ReadMessage (p_r (ps_p srv)) = (Ok goodbye, (p_r (ps_p srv))\<lparr>s_data := []\<rparr>)"
    by (rule ReadMessage_bytes) (use Nil.prems in simp_all)
  then show ?case using Nil.prems protocol_types
    by (subst serve_loop.simps) (simp add: serve_message_def goodbye_def)
next
  case (Cons i ids)
  obtain c st c' where c: "get (ps_store srv) i = (Ok c, st)" "Chunk_Storage cr c [Compressor] = (Ok (sb i), c')"
    "fst (Chunk_ID cr c') = i" using Cons.prems(5)[of i "ps_store srv"] by auto
  let ?rest = "concat (map (\<lambda>i. message_bytes (request i)) ids) @ message_bytes goodbye"
  obtain w where w: "serve_loop cr wr get ctx k srv = serve_loop cr wr get ctx (Suc k)
      (srv\<lparr>ps_store := st, ps_p := (ps_p srv)\<lparr>p_r := (p_r (ps_p srv))\<lparr>s_data := ?rest\<rparr>, p_w := w\<rparr>\<rparr>)"
    "good w" "contents w = contents (p_w (ps_p srv)) @ message_bytes (chunk_message i (sb i))"
    using serve_loop_request[where ctx = ctx and k = k and get = get and rest = ?rest and cid = i, OF Cons.prems(1,2) _ _ c(1,2) Cons.prems(6)] Cons.prems(3,4) c(3) by auto
  let ?srv = "srv\<lparr>ps_store := st, ps_p := (ps_p srv)\<lparr>p_r := (p_r (ps_p srv))\<lparr>s_data := ?rest\<rparr>, p_w := w\<rparr>\<rparr>"
  have "\<exists>srv'. serve_loop cr wr get ctx (Suc k) ?srv = (Ok (), srv') \<and> contents (p_w (ps_p srv')) =
      contents (p_w (ps_p ?srv)) @ concat (map (\<lambda>i. message_bytes (chunk_message i (sb i))) ids)"
    by (rule Cons.IH) (use Cons.prems w(2) in simp_all)
  then show ?case using w by auto
qed

end

text \<open>The client's side of the session.\<close>

fun request_all :: "codec_fns \<Rightarrow> 'w write_fn \<Rightarrow> 'w Protocol \<Rightarrow> chunk_id list \<Rightarrow> Chunk res list \<times> 'w Protocol" where
  "request_all cr wr p [] = ([], p)"
| "request_all cr wr p (i # is) =
     (case RequestChunk cr wr p i of (r, p) \<Rightarrow> case request_all cr wr p is of (rs, p) \<Rightarrow> (r # rs, p))"

definition requests_of :: "chunk_id list \<Rightarrow> bytes" where
  "requests_of ids = message_bytes (hello CaProtocolPullChunks) @ concat (map (\<lambda>i. message_bytes (request i)) ids) @
     message_bytes goodbye"

definition replies_of :: "(chunk_id \<Rightarrow> bytes) \<Rightarrow> chunk_id list \<Rightarrow> bytes" where
  "replies_of sb ids = message_bytes (hello CaProtocolReadableStore) @
     concat (map (\<lambda>i. message_bytes (chunk_message i (sb i))) ids)"

context reliable_writer begin

lemma request_all_session:
  assumes "good (p_w p)" "initialized p" "\<forall>i \<in> set ids. message_ok (chunk_message i (sb i))"
    "s_data (p_r p) = concat (map (\<lambda>i. message_bytes (chunk_message i (sb i))) ids) @ rest"
  shows "\<exists>p'. request_all cr wr p ids = (map (\<lambda>i. chunk_of_reply cr i (chunk_message i (sb i))) ids, p') \<and>
    good (p_w p') \<and> initialized p' \<and> s_data (p_r p') = rest \<and>
    contents (p_w p') = contents (p_w p) @ concat (map (\<lambda>i. message_bytes (request i)) ids)"
  using assms
proof (induction ids arbitrary: p)
  case (Cons i ids)
  let ?rest = "concat (map (\<lambda>i. message_bytes (chunk_message i (sb i))) ids) @ rest"
  obtain w where w: "RequestChunk cr wr p i = (chunk_of_reply cr i (chunk_message i (sb i)),
      p\<lparr>p_w := w, p_r := (p_r p)\<lparr>s_data := ?rest\<rparr>\<rparr>)" "good w"
    "contents w = contents (p_w p) @ message_bytes (request i)"
    using RequestChunk_good[OF Cons.prems(1,2), of "chunk_message i (sb i)" ?rest cr i] Cons.prems(3,4) by auto
  let ?p = "p\<lparr>p_w := w, p_r := (p_r p)\<lparr>s_data := ?rest\<rparr>\<rparr>"
  have "\<exists>p'. request_all cr wr ?p ids =
      (map (\<lambda>i. chunk_of_reply cr i (chunk_message i (sb i))) ids, p') \<and> good (p_w p') \<and> initialized p' \<and>
      s_data (p_r p') = rest \<and> contents (p_w p') = contents (p_w ?p) @ concat (map (\<lambda>i. message_bytes (request i)) ids)"
    by (rule Cons.IH) (use Cons.prems w(2) in simp_all)
  then show ?case using w by auto
qed simp

lemma Serve_session:
  assumes "good (p_w (ps_p srv))" "\<forall>i \<in> set ids. is_chunk_id i" "s_data (p_r (ps_p srv)) = requests_of ids"
    "\<And>s i. i \<in> set ids \<Longrightarrow> \<exists>c st c'. get s i = (Ok c, st) \<and> Chunk_Storage cr c [Compressor] = (Ok (sb i), c') \<and>
       fst (Chunk_ID cr c') = i" "\<And>k. \<not> ctx k"
  shows "\<exists>srv'. ProtocolServer_Serve cr wr get ctx srv = (Ok (), srv') \<and>
    contents (p_w (ps_p srv')) = contents (p_w (ps_p srv)) @ replies_of sb ids"
proof -
  let ?rest = "concat (map (\<lambda>i. message_bytes (request i)) ids) @ message_bytes goodbye"
  obtain w where w: "Initialize wr (ps_p srv) CaProtocolReadableStore = (Ok CaProtocolPullChunks,
      (ps_p srv)\<lparr>p_w := w, p_r := (p_r (ps_p srv))\<lparr>s_data := ?rest\<rparr>, initialized := True\<rparr>)" "good w"
    "contents w = contents (p_w (ps_p srv)) @ message_bytes (hello CaProtocolReadableStore)"
    using Initialize_good[OF assms(1), of CaProtocolPullChunks ?rest CaProtocolReadableStore] assms(3)
    by (auto simp: requests_of_def)
  let ?srv = "srv\<lparr>ps_p := (ps_p srv)\<lparr>p_w := w, p_r := (p_r (ps_p srv))\<lparr>s_data := ?rest\<rparr>, initialized := True\<rparr>\<rparr>"
  have "\<exists>srv'. serve_loop cr wr get ctx 0 ?srv = (Ok (), srv') \<and> contents (p_w (ps_p srv')) =
      contents (p_w (ps_p ?srv)) @ concat (map (\<lambda>i. message_bytes (chunk_message i (sb i))) ids)"
    by (rule serve_loop_session) (use w(2) assms in simp_all)
  then show ?thesis using w by (auto simp: ProtocolServer_Serve_def Let_def replies_of_def ca_consts)
qed

lemma client_session:
  assumes "good (p_w p)" "\<forall>i \<in> set ids. message_ok (chunk_message i (sb i))" "s_data (p_r p) = replies_of sb ids"
  shows "\<exists>p1 p2 p3. Initialize wr p CaProtocolPullChunks = (Ok CaProtocolReadableStore, p1) \<and>
    request_all cr wr p1 ids = (map (\<lambda>i. chunk_of_reply cr i (chunk_message i (sb i))) ids, p2) \<and>
    SendGoodbye wr p2 = (Ok (), p3) \<and> contents (p_w p3) = contents (p_w p) @ requests_of ids"
proof -
  let ?rest = "concat (map (\<lambda>i. message_bytes (chunk_message i (sb i))) ids)"
  obtain w where w: "Initialize wr p CaProtocolPullChunks = (Ok CaProtocolReadableStore,
      p\<lparr>p_w := w, p_r := (p_r p)\<lparr>s_data := ?rest\<rparr>, initialized := True\<rparr>)" "good w"
    "contents w = contents (p_w p) @ message_bytes (hello CaProtocolPullChunks)"
    using Initialize_good[OF assms(1), of CaProtocolReadableStore ?rest CaProtocolPullChunks] assms(3)
    by (auto simp: replies_of_def)
  let ?p1 = "p\<lparr>p_w := w, p_r := (p_r p)\<lparr>s_data := ?rest\<rparr>, initialized := True\<rparr>"
  obtain p2 where p2: "request_all cr wr ?p1 ids = (map (\<lambda>i. chunk_of_reply cr i (chunk_message i (sb i))) ids, p2)"
    "good (p_w p2)" "initialized p2"
    "contents (p_w p2) = contents (p_w ?p1) @ concat (map (\<lambda>i. message_bytes (request i)) ids)"
    using request_all_session[of ?p1 ids sb "[]" cr] w(2) assms(2) by auto
  obtain w3 where "SendGoodbye wr p2 = (Ok (), p2\<lparr>p_w := w3\<rparr>)" "contents w3 = contents (p_w p2) @ message_bytes goodbye"
    using send_good[OF p2(2,3), of goodbye] by (auto simp: SendGoodbye_def goodbye_def)
  then show ?thesis using w p2 by (simp add: requests_of_def)
qed

end

section \<open>Sessions\<close>

lemma reply_holds:
  assumes "is_chunk_id i" "fromStorage cr [Compressor] sb = Ok b" "sb \<noteq> []" "b \<noteq> []" "Digest_Sum cr b = i"
  shows "\<exists>c. chunk_of_reply cr i (chunk_message i sb) = Ok c \<and> holds cr c b"
  using NewChunkFromStorage_holds[OF assms(2-5), of False] assms(1) protocol_types
  by (simp add: chunk_of_reply_def chunk_message_def is_chunk_id_def chunk_id_len_def)

lemma holds_Storage_ID:
  assumes "holds cr c b" "fst (Chunk_Storage cr c ms) = Ok sb"
  shows "\<exists>c'. Chunk_Storage cr c ms = (Ok sb, c') \<and> fst (Chunk_ID cr c') = Digest_Sum cr b"
proof -
  have "holds cr (snd (Chunk_Storage cr c ms)) b"
    using assms(1) holds_Data[OF assms(1)] by (auto simp: Chunk_Storage_def split: prod.splits res.splits)
  then show ?thesis using assms(2) holds_ID by (metis prod.collapse)
qed

lemma all_Ok:
  "\<forall>i \<in> set is. \<exists>c. f i = Ok c \<and> P i c \<Longrightarrow> \<exists>cs. map f is = map Ok cs \<and> list_all2 P is cs"
proof (induction "is")
  case (Cons i "is")
  then show ?case by (auto intro: exI[of _ "_ # _"])
qed simp

text \<open>
  (C17) A client and a server connected with each other: over a store that has the chunks asked for, there
  is a session in which each side reads exactly what the other one writes. The server answers all
  requests and ends without an error at the goodbye, and the client gets, for every identifier in the
  order of its requests, a chunk with the data that the store has under that identifier.
\<close>

theorem protocol_session:
  assumes "codec_ok cr" "\<forall>s. \<forall>i \<in> set ids. \<exists>c st. get s i = (Ok c, st) \<and> holds cr c (data i) \<and>
       fst (Chunk_Storage cr c [Compressor]) = Ok (stored i)"
    "\<forall>i \<in> set ids. Digest_Sum cr (data i) = i \<and> length (stored i) + 48 \<le> max_alloc"
  shows "\<exists>req rep srv cl0 cl cl' cs.
    ProtocolServer_Serve cr sink_write get (\<lambda>_. False) (NewProtocolServer (stream_of req) empty_sink st0) = (Ok (), srv) \<and>
    sk_out (p_w (ps_p srv)) = rep \<and>
    Initialize sink_write (NewProtocol (stream_of rep) empty_sink) CaProtocolPullChunks = (Ok CaProtocolReadableStore, cl0) \<and>
    request_all cr sink_write cl0 ids = (map Ok cs, cl) \<and>
    SendGoodbye sink_write cl = (Ok (), cl') \<and> sk_out (p_w cl') = req \<and>
    list_all2 (\<lambda>i c. holds cr c (data i)) ids cs"
proof -
  have ids: "\<forall>i \<in> set ids. is_chunk_id i" using assms(1,3) sum_len by metis
  have reply: "\<forall>i \<in> set ids. \<exists>c. chunk_of_reply cr i (chunk_message i (stored i)) = Ok c \<and> holds cr c (data i)"
  proof
    fix i assume i: "i \<in> set ids"
    then obtain c where c: "holds cr c (data i)" "fst (Chunk_Storage cr c [Compressor]) = Ok (stored i)"
      using assms(2) by blast
    then show "\<exists>c. chunk_of_reply cr i (chunk_message i (stored i)) = Ok c \<and> holds cr c (data i)"
      using holds_Storage[OF assms(1) c(1), of "[Compressor]"] reply_holds[of i cr "stored i" "data i"]
        assms(3) i ids by (auto simp: holds_def)
  qed
  have msg: "\<forall>i \<in> set ids. message_ok (chunk_message i (stored i))"
    using assms(3) ids by (auto simp: message_ok_def chunk_message_def is_chunk_id_def chunk_id_len_def add.commute)
  obtain cs where cs: "map (\<lambda>i. chunk_of_reply cr i (chunk_message i (stored i))) ids = map Ok cs"
    "list_all2 (\<lambda>i c. holds cr c (data i)) ids cs"
    using all_Ok[OF reply] by blast
  have st: "\<exists>c st c'. get s i = (Ok c, st) \<and> Chunk_Storage cr c [Compressor] = (Ok (stored i), c') \<and> fst (Chunk_ID cr c') = i"
    if "i \<in> set ids" for s i
    using assms(2,3) that holds_Storage_ID by metis
  obtain srv where srv: "ProtocolServer_Serve cr sink_write get (\<lambda>_. False)
      (NewProtocolServer (stream_of (requests_of ids)) empty_sink st0) = (Ok (), srv)"
    "sk_out (p_w (ps_p srv)) = replies_of stored ids"
    using snk.Serve_session[of "NewProtocolServer (stream_of (requests_of ids)) empty_sink st0" ids get cr stored "\<lambda>_. False"]
      ids st by (auto simp: NewProtocolServer_def NewProtocol_def stream_of_def empty_sink_def)
  obtain cl0 cl cl' where "Initialize sink_write (NewProtocol (stream_of (replies_of stored ids)) empty_sink) CaProtocolPullChunks
      = (Ok CaProtocolReadableStore, cl0)" "request_all cr sink_write cl0 ids = (map Ok cs, cl)"
    "SendGoodbye sink_write cl = (Ok (), cl')" "sk_out (p_w cl') = requests_of ids"
    using snk.client_session[of "NewProtocol (stream_of (replies_of stored ids)) empty_sink" ids stored cr] msg cs(1)
    by (auto simp: NewProtocol_def stream_of_def empty_sink_def)
  then show ?thesis using srv cs(2) by blast
qed

theorem protocol_session_witness:
  "\<exists>req rep srv cl0 cl cl' cs.
    ProtocolServer_Serve toy_codec sink_write (\<lambda>s i. (Ok (NewChunk [1]), s)) (\<lambda>_. False)
      (NewProtocolServer (stream_of req) empty_sink ()) = (Ok (), srv) \<and>
    sk_out (p_w (ps_p srv)) = rep \<and>
    Initialize sink_write (NewProtocol (stream_of rep) empty_sink) CaProtocolPullChunks = (Ok CaProtocolReadableStore, cl0) \<and>
    request_all toy_codec sink_write cl0 [pad_sum [1], pad_sum [1]] = (map Ok cs, cl) \<and>
    SendGoodbye sink_write cl = (Ok (), cl') \<and> sk_out (p_w cl') = req \<and>
    list_all2 (\<lambda>i c. holds toy_codec c [1]) [pad_sum [1], pad_sum [1]] cs"
  by (rule protocol_session[where data = "\<lambda>_. [1]" and stored = "\<lambda>_. Compress toy_codec [1]", OF toy_codec_ok])
     (simp_all add: holds_NewChunk Chunk_Storage_def Chunk_Data_def NewChunk_def toy_codec_def max_alloc_def holds_def)

section \<open>A missing chunk\<close>

definition missing :: "chunk_id \<Rightarrow> Message" where
  "missing cid = \<lparr>m_type = CaProtocolMissing, m_body = cid\<rparr>"

lemma message_ok_missing: "is_chunk_id cid \<Longrightarrow> message_ok (missing cid)"
  by (simp add: message_ok_def missing_def is_chunk_id_def chunk_id_len_def max_alloc_def)

context reliable_writer begin

lemma serve_loop_missing:
  assumes "good (p_w (ps_p srv))" "initialized (ps_p srv)" "is_chunk_id cid"
    "s_data (p_r (ps_p srv)) = message_bytes (request cid) @ rest"
    "get (ps_store srv) cid = (Err (ChunkMissing x), st)" "\<not> ctx k"
  shows "\<exists>srv'. serve_loop cr wr get ctx k srv = (Ok (), srv') \<and> s_data (p_r (ps_p srv')) = rest \<and>
    contents (p_w (ps_p srv')) = contents (p_w (ps_p srv)) @ message_bytes (missing cid)"
proof -
  let ?srv = "srv\<lparr>ps_p := (ps_p srv)\<lparr>p_r := (p_r (ps_p srv))\<lparr>s_data := rest\<rparr>\<rparr>\<rparr>"
  let ?p = "ps_p (?srv\<lparr>ps_store := st\<rparr>)"
  have read: "ReadMessage (p_r (ps_p srv)) = (Ok (request cid), (p_r (ps_p srv))\<lparr>s_data := rest\<rparr>)"
    using ReadMessage_bytes[OF message_ok_small(2)[OF assms(3)] assms(4)] .
  obtain w where w: "SendMissing wr ?p cid = (Ok (), ?p\<lparr>p_w := w\<rparr>)"
    "contents w = contents (p_w (ps_p srv)) @ message_bytes (missing cid)"
    using send_good[of ?p "missing cid"] assms(1,2) by (auto simp: SendMissing_def missing_def)
  have "serve_request cr wr get ?srv cid = (Some (Ok ()), ?srv\<lparr>ps_store := st, ps_p := ?p\<lparr>p_w := w\<rparr>\<rparr>)"
    using assms(5) w(1) by (simp add: serve_request_def)
  then show ?thesis using w(2) read assms(6) serve_message_request[OF assms(3), of cr wr get ?srv]
    by (subst serve_loop.simps) auto
qed

lemma RequestChunk_closed:
  assumes "good (p_w p)" "initialized p" "s_data (p_r p) = []"
  shows "\<exists>p'. RequestChunk cr wr p cid = (Err (s_end (p_r p)), p')"
proof -
  obtain w where "SendProtocolRequest wr p cid CaProtocolRequestHighPriority = (Ok (), p\<lparr>p_w := w\<rparr>)"
    using send_good[OF assms(1,2), of "request cid"] by (auto simp: SendProtocolRequest_def request_def)
  then show ?thesis using assms(2,3)
    by (simp add: RequestChunk_def when_initialized_def ReadMessage_def ReadUint64_def read_full_def)
qed

end

text \<open>
  A chunk that the store does not have is reported to the client as missing, and then the server
  ends the session without an error, without reading another message; whatever the client asks for
  next on the same session fails with the end of the input.
\<close>

theorem missing_chunk_ends_session:
  assumes "is_chunk_id cid" "get st0 cid = (Err (ChunkMissing x), st)" "s_data (p_r (ps_p srv)) =
      message_bytes (hello CaProtocolPullChunks) @ message_bytes (request cid) @ rest"
    "p_w (ps_p srv) = empty_sink" "ps_store srv = st0"
  shows "\<exists>srv' p1 p2 p3.
    ProtocolServer_Serve cr sink_write get (\<lambda>_. False) srv = (Ok (), srv') \<and>
    s_data (p_r (ps_p srv')) = rest \<and>
    Initialize sink_write (NewProtocol (stream_of (sk_out (p_w (ps_p srv')))) empty_sink) CaProtocolPullChunks =
      (Ok CaProtocolReadableStore, p1) \<and>
    RequestChunk cr sink_write p1 cid = (Err (ChunkMissing cid), p2) \<and>
    RequestChunk cr sink_write p2 j = (Err EOF, p3)"
proof -
  let ?rest = "message_bytes (request cid) @ rest"
  obtain w where w: "Initialize sink_write (ps_p srv) CaProtocolReadableStore = (Ok CaProtocolPullChunks,
      (ps_p srv)\<lparr>p_w := w, p_r := (p_r (ps_p srv))\<lparr>s_data := ?rest\<rparr>, initialized := True\<rparr>)" "sk_room w = None"
    "sk_out w = message_bytes (hello CaProtocolReadableStore)"
    using snk.Initialize_good[of "ps_p srv" CaProtocolPullChunks ?rest CaProtocolReadableStore] assms(3,4)
    by (auto simp: empty_sink_def)
  obtain srv' where srv': "ProtocolServer_Serve cr sink_write get (\<lambda>_. False) srv = (Ok (), srv')"
    "s_data (p_r (ps_p srv')) = rest"
    "sk_out (p_w (ps_p srv')) = message_bytes (hello CaProtocolReadableStore) @ message_bytes (missing cid)"
    using snk.serve_loop_missing[of "srv\<lparr>ps_p := (ps_p srv)\<lparr>p_w := w, p_r := (p_r (ps_p srv))\<lparr>s_data := ?rest\<rparr>,
        initialized := True\<rparr>\<rparr>" cid rest get x st "\<lambda>_. False" 0 cr] w assms
    by (auto simp: ProtocolServer_Serve_def Let_def ca_consts)
  let ?p = "NewProtocol (stream_of (sk_out (p_w (ps_p srv')))) empty_sink"
  obtain w1 where w1: "Initialize sink_write ?p CaProtocolPullChunks = (Ok CaProtocolReadableStore,
      ?p\<lparr>p_w := w1, p_r := (p_r ?p)\<lparr>s_data := message_bytes (missing cid)\<rparr>, initialized := True\<rparr>)" "sk_room w1 = None"
    using snk.Initialize_good[of ?p CaProtocolReadableStore "message_bytes (missing cid)" CaProtocolPullChunks] srv'(3)
    by (auto simp: NewProtocol_def stream_of_def empty_sink_def)
  let ?p1 = "?p\<lparr>p_w := w1, p_r := (p_r ?p)\<lparr>s_data := message_bytes (missing cid)\<rparr>, initialized := True\<rparr>"
  obtain w2 where w2: "RequestChunk cr sink_write ?p1 cid = (Err (ChunkMissing cid), ?p1\<lparr>p_w := w2, p_r := (p_r ?p1)\<lparr>s_data := []\<rparr>\<rparr>)"
    "sk_room w2 = None"
    using snk.RequestChunk_good[of ?p1 "missing cid" "[]" cr cid] w1(2) message_ok_missing[OF assms(1)]
    by (auto simp: chunk_of_reply_def missing_def)
  have "\<exists>p3. RequestChunk cr sink_write (?p1\<lparr>p_w := w2, p_r := (p_r ?p1)\<lparr>s_data := []\<rparr>\<rparr>) j = (Err EOF, p3)"
    using snk.RequestChunk_closed[of "?p1\<lparr>p_w := w2, p_r := (p_r ?p1)\<lparr>s_data := []\<rparr>\<rparr>" cr j] w2(2)
    by (simp add: NewProtocol_def stream_of_def)
  then show ?thesis using srv'(1,2) w1(1) w2(1) by blast
qed

theorem missing_chunk_ends_session_witness:
  "\<exists>srv' p1 p2 p3.
    ProtocolServer_Serve toy_codec sink_write (\<lambda>s i. (Err (ChunkMissing i), s)) (\<lambda>_. False)
      (NewProtocolServer (stream_of (message_bytes (hello CaProtocolPullChunks) @ message_bytes (request zero_id) @ [7]))
         empty_sink ()) = (Ok (), srv') \<and>
    s_data (p_r (ps_p srv')) = [7] \<and>
    Initialize sink_write (NewProtocol (stream_of (sk_out (p_w (ps_p srv')))) empty_sink) CaProtocolPullChunks =
      (Ok CaProtocolReadableStore, p1) \<and>
    RequestChunk toy_codec sink_write p1 zero_id = (Err (ChunkMissing zero_id), p2) \<and>
    RequestChunk toy_codec sink_write p2 zero_id = (Err EOF, p3)"
  by (rule missing_chunk_ends_session[where ?st0.0 = "()" and x = zero_id and st = "()"])
     (simp_all add: NewProtocolServer_def NewProtocol_def stream_of_def)

section \<open>Integrity\<close>

text \<open>A session is a store that hands out genuine chunks only, whatever is read from the pipe.\<close>

lemma chunk_of_reply_valid: "chunk_of_reply cr cid m = Ok c \<Longrightarrow> cid \<noteq> zero_id \<Longrightarrow> chunk_valid cr cid c"
  by (auto simp: chunk_of_reply_def intro: NewChunkFromStorage_valid split: if_splits)

interpretation session: verified_store cr "RequestChunk cr wr" for cr wr
  by unfold_locales
     (auto simp: RequestChunk_def when_initialized_def genuine_def intro: chunk_of_reply_valid
       split: if_splits res.splits prod.splits)

text \<open>
  The remote store: as long as the pool has a session, \<open>GetChunk\<close> does not wait for one, it leaves as
  many sessions in the pool as it found, and whatever the servers send, a chunk that it returns has the
  requested identifier as its digest.
\<close>

theorem ssh_store_integrity:
  assumes "ssh_pool r \<noteq> []" "cid \<noteq> zero_id"
  shows "\<exists>res r'. RemoteSSH_GetChunk cr wr r cid = Some (res, r') \<and> length (ssh_pool r') = length (ssh_pool r) \<and>
    (\<forall>c. res = Ok c \<longrightarrow> chunk_valid cr cid c)"
proof -
  obtain client rest where p: "ssh_pool r = client # rest" using assms(1) by (cases "ssh_pool r") auto
  obtain res client' where "RequestChunk cr wr client cid = (res, client')" by (cases "RequestChunk cr wr client cid")
  then show ?thesis using p session.get_genuine[of cr wr client cid _ client'] assms(2)
    by (auto simp: RemoteSSH_GetChunk_def genuine_def)
qed

theorem ssh_store_integrity_witness:
  "\<exists>res r'. RemoteSSH_GetChunk toy_codec sink_write
      \<lparr>ssh_location = \<lparr>u_host = ''h'', u_path = ''/s'', u_user = None\<rparr>, ssh_pool = [NewProtocol (stream_of []) empty_sink], ssh_n = 1\<rparr>
      (pad_sum [1]) = Some (res, r') \<and> length (ssh_pool r') = 1 \<and>
    (\<forall>c. res = Ok c \<longrightarrow> chunk_valid toy_codec (pad_sum [1]) c)"
  using ssh_store_integrity[of "\<lparr>ssh_location = \<lparr>u_host = ''h'', u_path = ''/s'', u_user = None\<rparr>,
      ssh_pool = [NewProtocol (stream_of []) empty_sink], ssh_n = 1\<rparr>" "pad_sum [1]" toy_codec sink_write]
  by (simp add: pad_sum_def zero_id_def chunk_id_len_def numeral_eq_Suc)

end
