(* ===== verification/Seeds.thy ===== *)
theory Seeds
  imports Index LocalStore_Props
begin

text \<open>
  What a file is assembled from besides the store: seeds, which are other files with an index
  (\<^verbatim>\<open>src/fileseed.go\<close>), the null chunk (\<^verbatim>\<open>src/nullseed.go\<close>) and what has been written already
  (\<^verbatim>\<open>src/selfseed.go\<close>); segments of an index (\<^verbatim>\<open>src/seed.go\<close>); and the sequencer that breaks an index up
  into segments and plans which seed provides which of them (\<^verbatim>\<open>src/sequencer.go\<close>).

  The target is its content and the faults of the coming writes. Cloning blocks (an \<open>ioctl\<close> of the
  kernel, called in \<^verbatim>\<open>src/ioctl_linux.go\<close>) is a parameter: from the contents of the two files, the offset
  and length in the source and the offset in the target, it gives the new content of the target.
\<close>

section \<open>Files\<close>

record tfile =
  tf_data :: bytes
  tf_faults :: "(nat \<times> go_error) option list"

definition write_at :: "bytes \<Rightarrow> nat \<Rightarrow> bytes \<Rightarrow> bytes" where
  "write_at f off b =
     (if b = [] then f else take off f @ replicate (off - length f) 0 @ b @ drop (off + length b) f)"

text \<open>\<open>os.File.Truncate\<close>.\<close>

definition truncate_to :: "bytes \<Rightarrow> nat \<Rightarrow> bytes" where
  "truncate_to f n = take n f @ replicate (n - length f) 0"

text \<open>\<open>os.File.WriteAt\<close>; a fault \<open>(n, e)\<close> stops the write with \<open>e\<close> after \<open>n\<close> bytes.\<close>

definition file_WriteAt :: "tfile \<Rightarrow> u64 \<Rightarrow> bytes \<Rightarrow> nat \<times> go_error option \<times> tfile" where
  "file_WriteAt f off b =
     (if sint off < 0 then (0, Some (ErrIO ''negative offset''), f)
      else case tf_faults f of
        Some (n, e) # fs \<Rightarrow>
          (min n (length b), Some e, \<lparr>tf_data = write_at (tf_data f) (unat off) (take n b), tf_faults = fs\<rparr>)
      | fs \<Rightarrow> (length b, None, \<lparr>tf_data = write_at (tf_data f) (unat off) b, tf_faults = tl fs\<rparr>))"

text \<open>\<open>os.File.ReadAt\<close>: all the bytes asked for, or an error.\<close>

definition read_at :: "bytes \<Rightarrow> u64 \<Rightarrow> nat \<Rightarrow> bytes res" where
  "read_at f off n =
     (if sint off < 0 then Err (ErrIO ''negative offset'')
      else if n = 0 \<or> unat off + n \<le> length f then Ok (slice f (unat off) (unat off + n))
      else Err EOF)"

text \<open>The data of a chunk of an index in a file.\<close>

definition read_chunk :: "bytes \<Rightarrow> IndexChunk \<Rightarrow> bytes res" where
  "read_chunk f c = bind_res (make_bytes (ic_size c)) (\<lambda>_. read_at f (ic_start c) (unat (ic_size c)))"

text \<open>
  Seeking in both files and \<open>io.CopyBuffer\<close> from a limited reader: as many bytes as the source has,
  at most \<open>len\<close>.
\<close>

definition copy_range :: "bytes \<Rightarrow> u64 \<Rightarrow> u64 \<Rightarrow> tfile \<Rightarrow> u64 \<Rightarrow> u64 \<times> go_error option \<times> tfile" where
  "copy_range src srcOffset len f dstOffset =
     (if sint dstOffset < 0 \<or> sint srcOffset < 0 then (0, Some (ErrIO ''invalid argument''), f)
      else case file_WriteAt f dstOffset (take (nat (sint len)) (drop (unat srcOffset) src)) of
        (n, e, f) \<Rightarrow> (word_of_nat n, e, f))"

type_synonym clone_fn = "bytes \<Rightarrow> bytes \<Rightarrow> u64 \<Rightarrow> u64 \<Rightarrow> u64 \<Rightarrow> bytes res"

definition CloneRange :: "clone_fn \<Rightarrow> bytes \<Rightarrow> tfile \<Rightarrow> u64 \<Rightarrow> u64 \<Rightarrow> u64 \<Rightarrow> unit res \<times> tfile" where
  "CloneRange clone src f srcOffset len dstOffset =
     (case clone src (tf_data f) srcOffset len dstOffset of
        Ok d \<Rightarrow> (Ok (), f\<lparr>tf_data := d\<rparr>)
      | Err e \<Rightarrow> (Err (Wrapped ''failure cloning blocks from %s to %s'' e), f)
      | Panic x \<Rightarrow> (Panic x, f))"

section \<open>Segments\<close>

record IndexSegment =
  seg_index :: Index
  seg_first :: nat
  seg_last :: nat

definition seg_lengthChunks :: "IndexSegment \<Rightarrow> nat" where
  "seg_lengthChunks s = seg_last s + 1 - seg_first s"

definition seg_start :: "IndexSegment \<Rightarrow> u64 res" where
  "seg_start s =
     (if seg_first s < length (idx_chunks (seg_index s)) then Ok (ic_start (idx_chunks (seg_index s) ! seg_first s))
      else Panic ''index out of range'')"

definition seg_end :: "IndexSegment \<Rightarrow> u64 res" where
  "seg_end s =
     (if seg_last s < length (idx_chunks (seg_index s))
      then let c = idx_chunks (seg_index s) ! seg_last s in Ok (ic_start c + ic_size c)
      else Panic ''index out of range'')"

definition seg_lengthBytes :: "IndexSegment \<Rightarrow> u64 res" where
  "seg_lengthBytes s = bind_res (seg_end s) (\<lambda>e. bind_res (seg_start s) (\<lambda>b. Ok (e - b)))"

definition seg_chunks :: "IndexSegment \<Rightarrow> IndexChunk list res" where
  "seg_chunks s =
     (if seg_first s \<le> seg_last s + 1 \<and> seg_last s + 1 \<le> length (idx_chunks (seg_index s))
      then Ok (slice (idx_chunks (seg_index s)) (seg_first s) (seg_last s + 1))
      else Panic ''slice bounds out of range'')"

text \<open>What a seed provides: a part of a file, or a range of zeros.\<close>

datatype seed_segment =
    fileSeedSegment (fss_file: string) (fss_chunks: "IndexChunk list") (fss_canReflink: bool)
  | nullChunkSection (ncs_from: u64) (ncs_to: u64) (ncs_canReflink: bool)

fun segment_FileName :: "seed_segment \<Rightarrow> string" where
  "segment_FileName (fileSeedSegment f cs r) = f"
| "segment_FileName (nullChunkSection a b r) = []"

fun segment_Size :: "seed_segment \<Rightarrow> u64" where
  "segment_Size (fileSeedSegment f cs r) =
     (if cs = [] then 0 else ic_start (last cs) + ic_size (last cs) - ic_start (hd cs))"
| "segment_Size (nullChunkSection a b r) = b - a"

fun validate_chunks :: "codec_fns \<Rightarrow> bytes \<Rightarrow> IndexChunk list \<Rightarrow> unit res" where
  "validate_chunks cr file [] = Ok ()"
| "validate_chunks cr file (c # cs) =
     bind_res (read_chunk file c) (\<lambda>b.
       if Digest_Sum cr b \<noteq> ic_id c then Err (Errorf ''seed index for %s doesn't match its data'')
       else validate_chunks cr file cs)"

fun segment_Validate :: "codec_fns \<Rightarrow> bytes \<Rightarrow> seed_segment \<Rightarrow> unit res" where
  "segment_Validate cr file (fileSeedSegment f cs r) = validate_chunks cr file cs"
| "segment_Validate cr file (nullChunkSection a b r) = Ok ()"

section \<open>Writing a segment into the target\<close>

text \<open>
  The results are the bytes copied, the bytes cloned and the error. The offsets of the aligned blocks
  are computed in 64 bits, as in the code.
\<close>

type_synonym written = "u64 \<times> u64 \<times> go_error option"

definition file_clone ::
  "clone_fn \<Rightarrow> bytes \<Rightarrow> u64 \<Rightarrow> u64 \<Rightarrow> tfile \<Rightarrow> u64 \<Rightarrow> u64 \<Rightarrow> written res \<times> tfile" where
  "file_clone clone src srcOffset srcLength f dstOffset blocksize =
     (if blocksize = 0 then (Panic ''integer divide by zero'', f)
      else if srcOffset mod blocksize \<noteq> dstOffset mod blocksize
      then (Ok (0, 0, Some (Errorf ''reflink ranges not aligned between %s and %s'')), f)
      else let srcAlignStart = (srcOffset div blocksize + 1) * blocksize;
               srcAlignEnd = (srcOffset + srcLength) div blocksize * blocksize;
               dstAlignStart = (dstOffset div blocksize + 1) * blocksize;
               alignLength = srcAlignEnd - srcAlignStart;
               dstAlignEnd = dstAlignStart + alignLength
           in case copy_range src srcOffset (srcAlignStart - srcOffset) f dstOffset of
                (c1, Some e, f) \<Rightarrow> (Ok (c1, 0, Some e), f)
              | (c1, None, f) \<Rightarrow>
                  (case copy_range src srcAlignEnd (srcOffset + srcLength - srcAlignEnd) f dstAlignEnd of
                     (c2, Some e, f) \<Rightarrow> (Ok (c1 + c2, 0, Some e), f)
                   | (c2, None, f) \<Rightarrow>
                       (case CloneRange clone src f srcAlignStart alignLength dstAlignStart of
                          (Ok _, f) \<Rightarrow> (Ok (c1 + c2, alignLength, None), f)
                        | (Err e, f) \<Rightarrow> (Ok (c1 + c2, alignLength, Some e), f)
                        | (Panic x, f) \<Rightarrow> (Panic x, f))))"

definition file_WriteInto ::
  "clone_fn \<Rightarrow> bytes res \<Rightarrow> IndexChunk list \<Rightarrow> bool \<Rightarrow> tfile \<Rightarrow> u64 \<Rightarrow> u64 \<Rightarrow> u64 \<Rightarrow> written res \<times> tfile" where
  "file_WriteInto clone opened cs canReflink f offset len blocksize =
     (if len \<noteq> segment_Size (fileSeedSegment [] cs canReflink)
      then (Ok (0, 0, Some (Errorf ''unable to copy %d bytes from %s to %s : wrong size'')), f)
      else case opened of
        Err e \<Rightarrow> (Ok (0, 0, Some e), f)
      | Panic x \<Rightarrow> (Panic x, f)
      | Ok src \<Rightarrow>
          if canReflink \<and> cs \<noteq> [] \<and> blocksize = 0 then (Panic ''integer divide by zero'', f)
          else if cs = [] then (Panic ''index out of range'', f)
          else if \<not> canReflink \<or> ic_start (hd cs) mod blocksize \<noteq> offset mod blocksize
          then (case copy_range src (ic_start (hd cs)) len f offset of (n, e, f) \<Rightarrow> (Ok (n, 0, e), f))
          else file_clone clone src (ic_start (hd cs)) len f offset blocksize)"

definition null_copy :: "tfile \<Rightarrow> u64 \<Rightarrow> u64 \<Rightarrow> u64 \<times> go_error option \<times> tfile" where
  "null_copy f offset len =
     (case file_WriteAt f offset (replicate (nat (sint len)) 0) of (n, e, f) \<Rightarrow> (word_of_nat n, e, f))"

text \<open>The blocks from \<open>blkOffset\<close> on, \<open>k\<close> of them; the block file has one block of zeros.\<close>

fun clone_null_blocks :: "clone_fn \<Rightarrow> u64 \<Rightarrow> nat \<Rightarrow> u64 \<Rightarrow> u64 \<Rightarrow> tfile \<Rightarrow> u64 \<times> go_error option \<times> tfile" where
  "clone_null_blocks clone blocksize 0 blkOffset cloned f = (cloned, None, f)"
| "clone_null_blocks clone blocksize (Suc k) blkOffset cloned f =
     (case CloneRange clone (replicate (unat blocksize) 0) f 0 blocksize blkOffset of
        (Ok _, f) \<Rightarrow> clone_null_blocks clone blocksize k (blkOffset + blocksize) (cloned + blocksize) f
      | (Err e, f) \<Rightarrow> (cloned, Some e, f)
      | (Panic x, f) \<Rightarrow> (cloned, Some (Errorf x), f))"

definition null_clone :: "clone_fn \<Rightarrow> tfile \<Rightarrow> u64 \<Rightarrow> u64 \<Rightarrow> u64 \<Rightarrow> written res \<times> tfile" where
  "null_clone clone f offset len blocksize =
     (if blocksize = 0 then (Panic ''integer divide by zero'', f)
      else let dstAlignStart = (offset div blocksize + 1) * blocksize;
               dstAlignEnd = (offset + len) div blocksize * blocksize;
               k = (unat dstAlignEnd - unat dstAlignStart + unat blocksize - 1) div unat blocksize
           in case null_copy f offset (dstAlignStart - offset) of
                (c1, Some e, f) \<Rightarrow> (Ok (c1, 0, Some e), f)
              | (c1, None, f) \<Rightarrow>
                  (case null_copy f dstAlignEnd (offset + len - dstAlignEnd) of
                     (c2, Some e, f) \<Rightarrow> (Ok (c1 + c2, 0, Some e), f)
                   | (c2, None, f) \<Rightarrow>
                       (case clone_null_blocks clone blocksize k dstAlignStart 0 f of
                          (cloned, e, f) \<Rightarrow> (Ok (c1 + c2, cloned, e), f))))"

definition null_WriteInto ::
  "clone_fn \<Rightarrow> seed_segment \<Rightarrow> tfile \<Rightarrow> u64 \<Rightarrow> u64 \<Rightarrow> u64 \<Rightarrow> bool \<Rightarrow> written res \<times> tfile" where
  "null_WriteInto clone s f offset len blocksize isBlank =
     (if len \<noteq> segment_Size s then (Ok (0, 0, Some (Errorf ''unable to copy %d bytes to %s : wrong size'')), f)
      else if \<not> ncs_canReflink s then
        (if isBlank then (Ok (0, 0, None), f)
         else case null_copy f offset (segment_Size s) of (n, e, f) \<Rightarrow> (Ok (n, 0, e), f))
      else null_clone clone f offset len blocksize)"

text \<open>\<open>opener\<close> opens a seed file by its name.\<close>

fun segment_WriteInto ::
  "clone_fn \<Rightarrow> (string \<Rightarrow> bytes res) \<Rightarrow> seed_segment \<Rightarrow> tfile \<Rightarrow> u64 \<Rightarrow> u64 \<Rightarrow> u64 \<Rightarrow> bool \<Rightarrow> written res \<times> tfile" where
  "segment_WriteInto clone opener (fileSeedSegment file cs r) f offset len blocksize isBlank =
     file_WriteInto clone (opener file) cs r f offset len blocksize"
| "segment_WriteInto clone opener (nullChunkSection a b r) f offset len blocksize isBlank =
     null_WriteInto clone (nullChunkSection a b r) f offset len blocksize isBlank"

section \<open>Seeds\<close>

type_synonym positions = "chunk_id \<rightharpoonup> nat list"

definition add_pos :: "positions \<Rightarrow> chunk_id \<Rightarrow> nat \<Rightarrow> positions" where
  "add_pos m cid i = m(cid \<mapsto> (case m cid of None \<Rightarrow> [i] | Some l \<Rightarrow> l @ [i]))"

fun positions_from :: "nat \<Rightarrow> IndexChunk list \<Rightarrow> positions \<Rightarrow> positions" where
  "positions_from i [] m = m"
| "positions_from i (c # cs) m = positions_from (Suc i) cs (add_pos m (ic_id c) i)"

record FileSeed =
  fsd_srcFile :: string
  fsd_index :: Index
  fsd_pos :: positions
  fsd_canReflink :: bool
  fsd_isInvalid :: bool

definition NewIndexSeed :: "bool \<Rightarrow> string \<Rightarrow> Index \<Rightarrow> FileSeed" where
  "NewIndexSeed canClone srcFile index =
     \<lparr>fsd_srcFile = srcFile, fsd_index = index, fsd_pos = positions_from 0 (idx_chunks index) Map.empty,
       fsd_canReflink = canClone, fsd_isInvalid = False\<rparr>"

text \<open>The loop of \<open>maxMatchFrom\<close>, with \<open>sp\<close> chunks matched so far; a limit of zero is none.\<close>

fun match_from :: "nat \<Rightarrow> nat \<Rightarrow> IndexChunk list \<Rightarrow> IndexChunk list \<Rightarrow> IndexChunk list" where
  "match_from limit sp (c # cs) (d # ds) =
     (if limit \<noteq> 0 \<and> sp = limit then []
      else if ic_id c \<noteq> ic_id d then []
      else d # match_from limit (Suc sp) cs ds)"
| "match_from limit sp _ _ = []"

definition maxMatchFrom :: "FileSeed \<Rightarrow> IndexChunk list \<Rightarrow> nat \<Rightarrow> nat \<Rightarrow> IndexChunk list" where
  "maxMatchFrom s chunks p limit = match_from limit 0 chunks (drop p (idx_chunks (fsd_index s)))"

fun longest_from :: "FileSeed \<Rightarrow> IndexChunk list \<Rightarrow> nat \<Rightarrow> nat list \<Rightarrow> IndexChunk list \<Rightarrow> IndexChunk list" where
  "longest_from s chunks limit [] best = best"
| "longest_from s chunks limit (p # ps) best =
     (let m = maxMatchFrom s chunks p limit;
          best = (if length m > length best then m else best)
      in if limit \<noteq> 0 \<and> limit = length best then best else longest_from s chunks limit ps best)"

definition FileSeed_LongestMatchWith :: "FileSeed \<Rightarrow> IndexChunk list \<Rightarrow> nat \<times> seed_segment option" where
  "FileSeed_LongestMatchWith s chunks =
     (if chunks = [] \<or> idx_chunks (fsd_index s) = [] \<or> fsd_isInvalid s then (0, None)
      else case fsd_pos s (ic_id (hd chunks)) of
        None \<Rightarrow> (0, None)
      | Some pos \<Rightarrow>
          let limit = (if fsd_canReflink s then 0 else 100); m = longest_from s chunks limit pos []
          in (length m, Some (fileSeedSegment (fsd_srcFile s) m (fsd_canReflink s))))"

text \<open>Chunking the seed file again is a parameter: it yields the new index of a file.\<close>

definition FileSeed_RegenerateIndex :: "(string \<Rightarrow> FormatIndex \<Rightarrow> Index res) \<Rightarrow> FileSeed \<Rightarrow> unit res \<times> FileSeed" where
  "FileSeed_RegenerateIndex indexFromFile s =
     (case indexFromFile (fsd_srcFile s) (idx_index (fsd_index s)) of
        Ok index \<Rightarrow> (Ok (), s\<lparr>fsd_index := index, fsd_isInvalid := False,
            fsd_pos := positions_from 0 (idx_chunks index) Map.empty\<rparr>)
      | Err e \<Rightarrow> (Err e, s)
      | Panic x \<Rightarrow> (Panic x, s))"

record nullChunkSeed =
  ns_id :: chunk_id
  ns_canReflink :: bool

definition newNullChunkSeed :: "codec_fns \<Rightarrow> unit res \<Rightarrow> bool \<Rightarrow> u64 \<Rightarrow> u64 \<Rightarrow> nullChunkSeed res" where
  "newNullChunkSeed cr tempFile canClone blocksize mx =
     bind_res tempFile (\<lambda>_.
     bind_res (if canClone then bind_res (make_bytes blocksize) (\<lambda>_. Ok ()) else Ok ()) (\<lambda>_.
     bind_res (NewNullChunk cr mx) (\<lambda>n. Ok \<lparr>ns_id = nc_id n, ns_canReflink = canClone\<rparr>)))"

fun null_run :: "nullChunkSeed \<Rightarrow> nat \<Rightarrow> nat \<Rightarrow> IndexChunk list \<Rightarrow> nat" where
  "null_run s limit n [] = n"
| "null_run s limit n (c # cs) =
     (if limit \<noteq> 0 \<and> limit = n then n else if ic_id c \<noteq> ns_id s then n else null_run s limit (Suc n) cs)"

definition null_LongestMatchWith :: "nullChunkSeed \<Rightarrow> IndexChunk list \<Rightarrow> nat \<times> seed_segment option" where
  "null_LongestMatchWith s chunks =
     (let n = null_run s (if ns_canReflink s then 0 else 100) 0 chunks
      in if n = 0 then (0, None)
         else (n, Some (nullChunkSection (ic_start (hd chunks))
            (ic_start (chunks ! (n - 1)) + ic_size (chunks ! (n - 1))) (ns_canReflink s))))"

text \<open>The \<open>Seed\<close> interface.\<close>

datatype seed = NullSeed nullChunkSeed | IndexSeed FileSeed

fun Seed_LongestMatchWith :: "seed \<Rightarrow> IndexChunk list \<Rightarrow> nat \<times> seed_segment option" where
  "Seed_LongestMatchWith (NullSeed s) = null_LongestMatchWith s"
| "Seed_LongestMatchWith (IndexSeed s) = FileSeed_LongestMatchWith s"

fun Seed_IsInvalid :: "seed \<Rightarrow> bool" where
  "Seed_IsInvalid (NullSeed s) = False"
| "Seed_IsInvalid (IndexSeed s) = fsd_isInvalid s"

fun Seed_SetInvalid :: "seed \<Rightarrow> bool \<Rightarrow> seed res" where
  "Seed_SetInvalid (NullSeed s) v = Panic ''A nullseed is never expected to be invalid''"
| "Seed_SetInvalid (IndexSeed s) v = Ok (IndexSeed (s\<lparr>fsd_isInvalid := v\<rparr>))"

fun Seed_RegenerateIndex :: "(string \<Rightarrow> FormatIndex \<Rightarrow> Index res) \<Rightarrow> seed \<Rightarrow> unit res \<times> seed" where
  "Seed_RegenerateIndex g (NullSeed s) = (Panic ''A nullseed can't be regenerated'', NullSeed s)"
| "Seed_RegenerateIndex g (IndexSeed s) =
     (case FileSeed_RegenerateIndex g s of (r, s) \<Rightarrow> (r, IndexSeed s))"

section \<open>The self seed\<close>

record selfSeed =
  sf_file :: string
  sf_index :: Index
  sf_pos :: positions
  sf_canReflink :: bool
  sf_written :: nat
  sf_cache :: "(nat \<times> nat) list"

definition newSelfSeed :: "bool \<Rightarrow> string \<Rightarrow> Index \<Rightarrow> selfSeed" where
  "newSelfSeed canClone file index =
     \<lparr>sf_file = file, sf_index = index, sf_pos = Map.empty, sf_canReflink = canClone, sf_written = 0, sf_cache = []\<rparr>"

lemma length_delete_less: "map_of al k \<noteq> None \<Longrightarrow> length (AList.delete k al) < length al"
proof -
  assume "map_of al k \<noteq> None"
  then obtain v where "(k, v) \<in> set al" by (auto dest: map_of_SomeD)
  then show ?thesis by (auto simp: AList.delete_eq intro!: length_filter_less)
qed

text \<open>The loop of \<open>add\<close>: it ends because every round removes an entry of the cache.\<close>

function advance_written :: "selfSeed \<Rightarrow> selfSeed res" where
  "advance_written s =
     (case map_of (sf_cache s) (sf_written s) of
        None \<Rightarrow> Ok s
      | Some next \<Rightarrow>
          if next > length (idx_chunks (sf_index s)) \<and> sf_written s < next then Panic ''index out of range''
          else advance_written (s\<lparr>
            sf_pos := positions_from (sf_written s) (slice (idx_chunks (sf_index s)) (sf_written s) next) (sf_pos s),
            sf_cache := AList.delete (sf_written s) (sf_cache s), sf_written := next\<rparr>))"
  by pat_completeness auto

termination
  by (relation "measure (\<lambda>s. length (sf_cache s))") (auto intro!: length_delete_less)

declare advance_written.simps [simp del]

definition selfSeed_add :: "selfSeed \<Rightarrow> IndexSegment \<Rightarrow> selfSeed res" where
  "selfSeed_add s segment =
     advance_written (s\<lparr>sf_cache := AList.update (seg_first segment) (seg_last segment + 1) (sf_cache s)\<rparr>)"

definition selfSeed_getChunk :: "selfSeed \<Rightarrow> chunk_id \<Rightarrow> seed_segment option" where
  "selfSeed_getChunk s cid =
     (case sf_pos s cid of
        None \<Rightarrow> None
      | Some pos \<Rightarrow>
          Some (fileSeedSegment (sf_file s) (slice (idx_chunks (sf_index s)) (hd pos) (hd pos + 1)) (sf_canReflink s)))"

section \<open>The sequencer\<close>

record SeedSequencer =
  sq_seeds :: "seed list"
  sq_index :: Index
  sq_current :: nat

text \<open>A candidate refers to its seed by the position in the list of seeds.\<close>

record SeedSegmentCandidate =
  cd_seed :: "nat option"
  cd_source :: "seed_segment option"
  cd_segment :: IndexSegment

definition NewSeedSequencer :: "Index \<Rightarrow> seed list \<Rightarrow> SeedSequencer" where
  "NewSeedSequencer idx src = \<lparr>sq_seeds = src, sq_index = idx, sq_current = 0\<rparr>"

fun best_match ::
  "IndexChunk list \<Rightarrow> nat \<Rightarrow> seed list \<Rightarrow> nat option \<times> seed_segment option \<times> nat \<times> u64
   \<Rightarrow> nat option \<times> seed_segment option \<times> nat \<times> u64" where
  "best_match chunks i [] best = best"
| "best_match chunks i (s # ss) best =
     best_match chunks (Suc i) ss
       (case Seed_LongestMatchWith s chunks of
          (n, Some m) \<Rightarrow> if n > 0 \<and> segment_Size m > snd (snd (snd best)) then (Some i, Some m, n, segment_Size m) else best
        | (n, None) \<Rightarrow> best)"

definition SeedSequencer_Next :: "SeedSequencer \<Rightarrow> SeedSegmentCandidate \<times> bool \<times> SeedSequencer" where
  "SeedSequencer_Next r =
     (case best_match (drop (sq_current r) (idx_chunks (sq_index r))) 0 (sq_seeds r) (None, None, 1, 0) of
        (sd, source, advance, _) \<Rightarrow>
          (\<lparr>cd_seed = sd, cd_source = source,
             cd_segment = \<lparr>seg_index = sq_index r, seg_first = sq_current r, seg_last = sq_current r + advance - 1\<rparr>\<rparr>,
           sq_current r + advance \<ge> length (idx_chunks (sq_index r)), r\<lparr>sq_current := sq_current r + advance\<rparr>))"

lemma best_match_advance:
  "0 < fst (snd (snd best)) \<Longrightarrow> 0 < fst (snd (snd (best_match chunks i ss best)))"
  by (induction ss arbitrary: i best) (auto split: prod.splits option.splits)

lemma SeedSequencer_Next_advances:
  assumes "SeedSequencer_Next r = (c, done, r')"
  shows "sq_current r < sq_current r' \<and> sq_index r' = sq_index r \<and> (\<not> done \<longrightarrow> sq_current r' < length (idx_chunks (sq_index r)))"
  using assms best_match_advance[of "(None, None, 1, 0)" "drop (sq_current r) (idx_chunks (sq_index r))" 0 "sq_seeds r"]
  by (auto simp: SeedSequencer_Next_def split: prod.splits)

function SeedSequencer_Plan :: "SeedSequencer \<Rightarrow> SeedSegmentCandidate list \<times> SeedSequencer" where
  "SeedSequencer_Plan r =
     (case SeedSequencer_Next r of (c, fin, r) \<Rightarrow>
        if fin then ([c], r) else case SeedSequencer_Plan r of (cs, r) \<Rightarrow> (c # cs, r))"
  by pat_completeness auto
termination
  by (relation "measure (\<lambda>r. length (idx_chunks (sq_index r)) - sq_current r)")
     (auto dest!: SeedSequencer_Next_advances[OF sym])

declare SeedSequencer_Plan.simps [simp del]

definition SeedSequencer_Rewind :: "SeedSequencer \<Rightarrow> SeedSequencer" where
  "SeedSequencer_Rewind r = r\<lparr>sq_current := 0\<rparr>"

definition isFileSeed :: "SeedSegmentCandidate \<Rightarrow> bool" where
  "isFileSeed c = (case cd_source c of None \<Rightarrow> False | Some s \<Rightarrow> segment_FileName s \<noteq> [])"

fun regenerate_seeds :: "(string \<Rightarrow> FormatIndex \<Rightarrow> Index res) \<Rightarrow> seed list \<Rightarrow> unit res \<times> seed list" where
  "regenerate_seeds g [] = (Ok (), [])"
| "regenerate_seeds g (s # ss) =
     (if Seed_IsInvalid s then
        (case Seed_RegenerateIndex g s of
           (Ok _, s) \<Rightarrow> (case regenerate_seeds g ss of (r, ss) \<Rightarrow> (r, s # ss))
         | (r, s) \<Rightarrow> (r, s # ss))
      else case regenerate_seeds g ss of (r, ss) \<Rightarrow> (r, s # ss))"

definition RegenerateInvalidSeeds :: "(string \<Rightarrow> FormatIndex \<Rightarrow> Index res) \<Rightarrow> SeedSequencer \<Rightarrow> unit res \<times> SeedSequencer" where
  "RegenerateInvalidSeeds g r = (case regenerate_seeds g (sq_seeds r) of (x, ss) \<Rightarrow> (x, r\<lparr>sq_seeds := ss\<rparr>))"

section \<open>Validating a plan\<close>

definition set_invalid :: "nat option \<Rightarrow> seed list \<Rightarrow> seed list res" where
  "set_invalid i ss =
     (case i of
        None \<Rightarrow> Panic ''nil pointer dereference''
      | Some i \<Rightarrow> if i < length ss then bind_res (Seed_SetInvalid (ss ! i) True) (\<lambda>s. Ok (ss[i := s]))
                  else Panic ''nil pointer dereference'')"

definition mark_invalid :: "go_error \<Rightarrow> nat option \<Rightarrow> seed list \<Rightarrow> unit res \<times> seed list" where
  "mark_invalid e i ss = (case set_invalid i ss of Ok ss' \<Rightarrow> (Err e, ss') | Panic x \<Rightarrow> (Panic x, ss) | Err e' \<Rightarrow> (Err e', ss))"

text \<open>
  First every seed file of the plan is opened, then the segments are validated, here one after the
  other; with several workers another invalid segment may be found first, and more seeds than one may be
  marked before the workers stop.
\<close>

fun open_seeds :: "(string \<Rightarrow> bytes res) \<Rightarrow> SeedSegmentCandidate list \<Rightarrow> seed list \<Rightarrow> unit res \<times> seed list" where
  "open_seeds opener [] ss = (Ok (), ss)"
| "open_seeds opener (c # cs) ss =
     (if \<not> isFileSeed c then open_seeds opener cs ss
      else case opener (segment_FileName (the (cd_source c))) of
        Ok _ \<Rightarrow> open_seeds opener cs ss
      | Err e \<Rightarrow> mark_invalid e (cd_seed c) ss
      | Panic x \<Rightarrow> (Panic x, ss))"

fun validate_plan ::
  "codec_fns \<Rightarrow> (string \<Rightarrow> bytes res) \<Rightarrow> SeedSegmentCandidate list \<Rightarrow> seed list \<Rightarrow> unit res \<times> seed list" where
  "validate_plan cr opener [] ss = (Ok (), ss)"
| "validate_plan cr opener (c # cs) ss =
     (if \<not> isFileSeed c then validate_plan cr opener cs ss
      else case bind_res (opener (segment_FileName (the (cd_source c))))
                  (\<lambda>file. segment_Validate cr file (the (cd_source c))) of
        Ok _ \<Rightarrow> validate_plan cr opener cs ss
      | Err e \<Rightarrow> mark_invalid e (cd_seed c) ss
      | Panic x \<Rightarrow> (Panic x, ss))"

definition Plan_Validate ::
  "codec_fns \<Rightarrow> (string \<Rightarrow> bytes res) \<Rightarrow> SeedSegmentCandidate list \<Rightarrow> seed list \<Rightarrow> unit res \<times> seed list" where
  "Plan_Validate cr opener plan ss =
     (case open_seeds opener plan ss of
        (Ok _, ss) \<Rightarrow> validate_plan cr opener plan ss
      | r \<Rightarrow> r)"

end
