(* ===== verification/Assemble.thy ===== *)
theory Assemble
  imports Seeds Stores_Props Filemode
begin

text \<open>
  Assembling a file from an index, seeds and a store (\<^verbatim>\<open>src/assemble.go\<close>), and the statistics about it
  (\<^verbatim>\<open>src/extractstats.go\<close>). The workers process the segments of the plan in parallel, each with a file
  handle of its own; a step of the model is one segment processed by some worker, so that a run is any
  order in which the workers finish. The seed files may change from one step to the next. When the
  caller may cancel the context (\<open>ac_cancelled\<close>), no further segments may be handed out at any time; the
  error is then the one of the workers, that is none.
\<close>

datatype InvalidSeedAction = BailOut | Skip | Regenerate

record ExtractStats =
  ChunksFromSeeds :: u64
  ChunksFromStore :: u64
  ChunksInPlace :: u64
  BytesCopied :: u64
  BytesCloned :: u64
  st_Blocksize :: u64
  BytesTotal :: int
  ChunksTotal :: nat
  st_Seeds :: nat

definition incChunksFromStore :: "ExtractStats \<Rightarrow> ExtractStats" where
  "incChunksFromStore s = s\<lparr>ChunksFromStore := ChunksFromStore s + 1\<rparr>"

definition incChunksInPlace :: "ExtractStats \<Rightarrow> ExtractStats" where
  "incChunksInPlace s = s\<lparr>ChunksInPlace := ChunksInPlace s + 1\<rparr>"

definition addChunksFromSeed :: "u64 \<Rightarrow> ExtractStats \<Rightarrow> ExtractStats" where
  "addChunksFromSeed n s = s\<lparr>ChunksFromSeeds := ChunksFromSeeds s + n\<rparr>"

definition addBytesCopied :: "u64 \<Rightarrow> ExtractStats \<Rightarrow> ExtractStats" where
  "addBytesCopied n s = s\<lparr>BytesCopied := BytesCopied s + n\<rparr>"

definition addBytesCloned :: "u64 \<Rightarrow> ExtractStats \<Rightarrow> ExtractStats" where
  "addBytesCloned n s = s\<lparr>BytesCloned := BytesCloned s + n\<rparr>"

text \<open>What is fixed during a run, and what the workers share.\<close>

record 's asm_env =
  ae_codec :: codec_fns
  ae_get :: "'s get_fn"
  ae_clone :: clone_fn
  ae_name :: string
  ae_blocksize :: u64
  ae_isBlank :: bool
  ae_action :: InvalidSeedAction
  ae_cancelled :: bool

record 's asm_state =
  as_file :: tfile
  as_self :: selfSeed
  as_store :: 's
  as_stats :: ExtractStats

text \<open>Opening a seed; the self seed opens the target itself.\<close>

definition open_source :: "'s asm_env \<Rightarrow> (string \<Rightarrow> bytes res) \<Rightarrow> tfile \<Rightarrow> string \<Rightarrow> bytes res" where
  "open_source env opener f file = (if file = ae_name env then Ok (tf_data f) else opener file)"

definition chunk_in_place :: "'s asm_env \<Rightarrow> tfile \<Rightarrow> IndexChunk \<Rightarrow> bool res" where
  "chunk_in_place env f c =
     (if ae_isBlank env then Ok False
      else bind_res (read_chunk (tf_data f) c) (\<lambda>b. Ok (Digest_Sum (ae_codec env) b = ic_id c)))"

definition chunk_from_store :: "'s asm_env \<Rightarrow> 's asm_state \<Rightarrow> IndexChunk \<Rightarrow> unit res \<times> 's asm_state" where
  "chunk_from_store env st c =
     (let st = st\<lparr>as_stats := incChunksFromStore (as_stats st)\<rparr>
      in case ae_get env (as_store st) (ic_id c) of (r, s) \<Rightarrow>
        let st = st\<lparr>as_store := s\<rparr>
        in case bind_res r (\<lambda>chunk. fst (Chunk_Data (ae_codec env) chunk)) of
             Err e \<Rightarrow> (Err e, st)
           | Panic x \<Rightarrow> (Panic x, st)
           | Ok b \<Rightarrow>
               if unat (ic_size c) \<noteq> length b then (Err (Errorf ''unexpected size for chunk %s''), st)
               else case file_WriteAt (as_file st) (ic_start c) b of (n, e, f) \<Rightarrow>
                 ((case e of None \<Rightarrow> Ok () | Some e \<Rightarrow> Err e), st\<lparr>as_file := f\<rparr>))"

definition chunk_from_self ::
  "'s asm_env \<Rightarrow> (string \<Rightarrow> bytes res) \<Rightarrow> seed_segment \<Rightarrow> 's asm_state \<Rightarrow> IndexChunk \<Rightarrow> unit res \<times> 's asm_state" where
  "chunk_from_self env opener segment st c =
     (case segment_WriteInto (ae_clone env) (open_source env opener (as_file st)) segment (as_file st) (ic_start c) (ic_size c)
             (ae_blocksize env) (ae_isBlank env) of
        (Panic x, f) \<Rightarrow> (Panic x, st\<lparr>as_file := f\<rparr>)
      | (Err e, f) \<Rightarrow> (Err e, st\<lparr>as_file := f\<rparr>)
      | (Ok (copied, cloned, Some e), f) \<Rightarrow> (Err e, st\<lparr>as_file := f\<rparr>)
      | (Ok (copied, cloned, None), f) \<Rightarrow>
          (Ok (), st\<lparr>as_file := f, as_stats := addBytesCloned cloned (addBytesCopied copied (as_stats st))\<rparr>))"

definition writeChunk ::
  "'s asm_env \<Rightarrow> (string \<Rightarrow> bytes res) \<Rightarrow> 's asm_state \<Rightarrow> IndexChunk \<Rightarrow> unit res \<times> 's asm_state" where
  "writeChunk env opener st c =
     (case chunk_in_place env (as_file st) c of
        Err e \<Rightarrow> (Err e, st)
      | Panic x \<Rightarrow> (Panic x, st)
      | Ok True \<Rightarrow> (Ok (), st\<lparr>as_stats := incChunksInPlace (as_stats st)\<rparr>)
      | Ok False \<Rightarrow>
          (case selfSeed_getChunk (as_self st) (ic_id c) of
             Some segment \<Rightarrow> chunk_from_self env opener segment st c
           | None \<Rightarrow> chunk_from_store env st c))"

text \<open>The chunks of a segment are read back and compared after they were written from a seed.\<close>

fun check_written ::
  "'s asm_env \<Rightarrow> (string \<Rightarrow> bytes res) \<Rightarrow> 's asm_state \<Rightarrow> IndexChunk list \<Rightarrow> unit res \<times> 's asm_state" where
  "check_written env opener st [] = (Ok (), st)"
| "check_written env opener st (c # cs) =
     (case read_chunk (tf_data (as_file st)) c of
        Err e \<Rightarrow> (Err e, st)
      | Panic x \<Rightarrow> (Panic x, st)
      | Ok b \<Rightarrow>
          if Digest_Sum (ae_codec env) b = ic_id c then check_written env opener st cs
          else if ae_action env = Regenerate then
            (case writeChunk env opener st c of
               (Ok _, st) \<Rightarrow> check_written env opener st cs
             | r \<Rightarrow> r)
          else (Err (Errorf ''written data in %s doesn't match its expected hash value, seed may have changed during processing''), st))"

definition record_written :: "'s asm_state \<Rightarrow> IndexSegment \<Rightarrow> unit res \<times> 's asm_state" where
  "record_written st seg =
     (case selfSeed_add (as_self st) seg of
        Ok self \<Rightarrow> (Ok (), st\<lparr>as_self := self\<rparr>)
      | Err e \<Rightarrow> (Err e, st)
      | Panic x \<Rightarrow> (Panic x, st))"

definition job_from_seed ::
  "'s asm_env \<Rightarrow> (string \<Rightarrow> bytes res) \<Rightarrow> 's asm_state \<Rightarrow> seed_segment \<Rightarrow> IndexSegment \<Rightarrow> unit res \<times> 's asm_state" where
  "job_from_seed env opener st source seg =
     (let st = st\<lparr>as_stats := addChunksFromSeed (word_of_nat (seg_lengthChunks seg)) (as_stats st)\<rparr>
      in case (seg_start seg, seg_lengthBytes seg) of
           (Ok offset, Ok len) \<Rightarrow>
             (case segment_WriteInto (ae_clone env) (open_source env opener (as_file st)) source (as_file st) offset len
                     (ae_blocksize env) (ae_isBlank env) of
                (Panic x, f) \<Rightarrow> (Panic x, st\<lparr>as_file := f\<rparr>)
              | (Err e, f) \<Rightarrow> (Err e, st\<lparr>as_file := f\<rparr>)
              | (Ok (copied, cloned, Some e), f) \<Rightarrow> (Err e, st\<lparr>as_file := f\<rparr>)
              | (Ok (copied, cloned, None), f) \<Rightarrow>
                  (case seg_chunks seg of
                     Ok cs \<Rightarrow>
                       (case check_written env opener (st\<lparr>as_file := f\<rparr>) cs of
                          (Ok _, st) \<Rightarrow>
                            record_written (st\<lparr>as_stats := addBytesCloned cloned (addBytesCopied copied (as_stats st))\<rparr>) seg
                        | r \<Rightarrow> r)
                   | Err e \<Rightarrow> (Err e, st\<lparr>as_file := f\<rparr>)
                   | Panic x \<Rightarrow> (Panic x, st\<lparr>as_file := f\<rparr>)))
         | _ \<Rightarrow> (Panic ''index out of range'', st))"

definition job_single ::
  "'s asm_env \<Rightarrow> (string \<Rightarrow> bytes res) \<Rightarrow> 's asm_state \<Rightarrow> IndexSegment \<Rightarrow> unit res \<times> 's asm_state" where
  "job_single env opener st seg =
     (case seg_chunks seg of
        Panic x \<Rightarrow> (Panic x, st)
      | Err e \<Rightarrow> (Err e, st)
      | Ok cs \<Rightarrow>
          if length cs \<noteq> 1 then (Panic ''Received an unexpected segment that doesn't contain just a single chunk'', st)
          else case writeChunk env opener st (hd cs) of
            (Ok _, st) \<Rightarrow> record_written st seg
          | r \<Rightarrow> r)"

definition process_job ::
  "'s asm_env \<Rightarrow> (string \<Rightarrow> bytes res) \<Rightarrow> 's asm_state \<Rightarrow> SeedSegmentCandidate \<Rightarrow> unit res \<times> 's asm_state" where
  "process_job env opener st job =
     (case cd_source job of
        Some source \<Rightarrow> job_from_seed env opener st source (cd_segment job)
      | None \<Rightarrow> job_single env opener st (cd_segment job))"

inductive asm_run ::
  "'s asm_env \<Rightarrow> SeedSegmentCandidate multiset \<Rightarrow> 's asm_state \<Rightarrow> unit res \<Rightarrow> 's asm_state \<Rightarrow> bool" for env where
  finished: "asm_run env {#} st (Ok ()) st"
| step: "process_job env opener st job = (Ok (), st') \<Longrightarrow> asm_run env jobs st' r st'' \<Longrightarrow>
     asm_run env (add_mset job jobs) st r st''"
| cancelled: "ae_cancelled env \<Longrightarrow> asm_run env jobs st (Ok ()) st"
| failed: "process_job env opener st job = (r, st') \<Longrightarrow> r \<noteq> Ok () \<Longrightarrow> asm_run env (add_mset job jobs) st r st'"

section \<open>Planning\<close>

text \<open>What is done about a plan that is not valid.\<close>

definition handle_invalid ::
  "(string \<Rightarrow> FormatIndex \<Rightarrow> Index res) \<Rightarrow> InvalidSeedAction \<Rightarrow> go_error \<Rightarrow> SeedSequencer \<Rightarrow> unit res \<times> SeedSequencer" where
  "handle_invalid indexFromFile action e seq =
     (case action of
        BailOut \<Rightarrow> (Err e, seq)
      | Regenerate \<Rightarrow> RegenerateInvalidSeeds indexFromFile seq
      | Skip \<Rightarrow> (Ok (), seq))"

text \<open>
  The attempts to find a valid plan. With \<open>Regenerate\<close> there may be no end to them, when a seed keeps
  changing; \<open>opener k\<close> are the seed files at the \<open>k\<close>-th attempt.
\<close>

partial_function (option) plan_loop ::
  "codec_fns \<Rightarrow> (nat \<Rightarrow> string \<Rightarrow> bytes res) \<Rightarrow> (string \<Rightarrow> FormatIndex \<Rightarrow> Index res) \<Rightarrow> InvalidSeedAction \<Rightarrow> nat
   \<Rightarrow> SeedSegmentCandidate list \<Rightarrow> SeedSequencer \<Rightarrow> (SeedSegmentCandidate list res) option" where
  "plan_loop cr opener indexFromFile action attempt plan seq =
     (case Plan_Validate cr (opener attempt) plan (sq_seeds seq) of
        (Ok _, ss) \<Rightarrow> Some (Ok plan)
      | (Panic x, ss) \<Rightarrow> Some (Panic x)
      | (Err e, ss) \<Rightarrow>
          (case handle_invalid indexFromFile action e (seq\<lparr>sq_seeds := ss\<rparr>) of
             (Ok _, seq) \<Rightarrow>
               (case SeedSequencer_Plan (SeedSequencer_Rewind seq) of (plan, seq) \<Rightarrow>
                  plan_loop cr opener indexFromFile action (Suc attempt) plan seq)
           | (Err e, seq) \<Rightarrow> Some (Err e)
           | (Panic x, seq) \<Rightarrow> Some (Panic x)))"

section \<open>AssembleFile\<close>

text \<open>What the operating system says about the target, before and while it is prepared.\<close>

datatype target = NotExist | StatError go_error | Device bytes | Regular bytes

record setup_faults =
  su_create :: "go_error option"
  su_truncate :: "go_error option"
  su_open :: "go_error option"

definition truncate_target :: "setup_faults \<Rightarrow> bytes \<Rightarrow> int \<Rightarrow> bytes res" where
  "truncate_target su f n =
     (case su_truncate su of
        Some e \<Rightarrow> Err e
      | None \<Rightarrow> if n < 0 then Err (ErrIO ''invalid argument'') else Ok (truncate_to f (nat n)))"

definition prepare_target :: "setup_faults \<Rightarrow> target \<Rightarrow> int \<Rightarrow> (bool \<times> bytes) res" where
  "prepare_target su t len =
     (case t of
        StatError e \<Rightarrow> Err e
      | Device f \<Rightarrow> Ok (False, f)
      | NotExist \<Rightarrow>
          (case su_create su of
             Some e \<Rightarrow> Err e
           | None \<Rightarrow> bind_res (truncate_target su [] len) (\<lambda>f. Ok (True, f)))
      | Regular f \<Rightarrow> bind_res (truncate_target su f len) (\<lambda>f'. Ok (f = [], f')))"

definition initial_stats :: "Index \<Rightarrow> nat \<Rightarrow> u64 \<Rightarrow> ExtractStats" where
  "initial_stats idx seeds blocksize =
     \<lparr>ChunksFromSeeds = 0, ChunksFromStore = 0, ChunksInPlace = 0, BytesCopied = 0, BytesCloned = 0,
       st_Blocksize = blocksize, BytesTotal = Index_Length idx, ChunksTotal = length (idx_chunks idx), st_Seeds = seeds\<rparr>"

text \<open>The parameters of a call, those of the operating system among them.\<close>

record 's asm_call =
  ac_codec :: codec_fns
  ac_get :: "'s get_fn"
  ac_clone :: clone_fn
  ac_canClone :: "string \<Rightarrow> bool"
  ac_name :: string
  ac_blocksize :: u64
  ac_action :: InvalidSeedAction
  ac_setup :: setup_faults
  ac_tempFile :: "unit res"
  ac_opener :: "nat \<Rightarrow> string \<Rightarrow> bytes res"
  ac_regenerate :: "string \<Rightarrow> FormatIndex \<Rightarrow> Index res"
  ac_faults :: "(nat \<times> go_error) option list"
  ac_cancelled :: bool

definition run_env :: "'s asm_call \<Rightarrow> bool \<Rightarrow> 's asm_env" where
  "run_env a isBlank =
     \<lparr>ae_codec = ac_codec a, ae_get = ac_get a, ae_clone = ac_clone a, ae_name = ac_name a, ae_blocksize = ac_blocksize a,
       ae_isBlank = isBlank, ae_action = ac_action a, ae_cancelled = ac_cancelled a\<rparr>"

text \<open>
  Everything before the workers get their first job: the plan and the state they start with. \<open>None\<close>: the
  search for a valid plan does not end.
\<close>

definition assemble_start ::
  "'s asm_call \<Rightarrow> target \<Rightarrow> Index \<Rightarrow> 's \<Rightarrow> seed list \<Rightarrow> (SeedSegmentCandidate list \<times> bool \<times> 's asm_state) res option" where
  "assemble_start a t idx s seeds =
     (case prepare_target (ac_setup a) t (Index_Length idx) of
        Err e \<Rightarrow> Some (Err e)
      | Panic x \<Rightarrow> Some (Panic x)
      | Ok (isBlank, f) \<Rightarrow>
          (case newNullChunkSeed (ac_codec a) (ac_tempFile a) (ac_canClone a (ac_name a)) (ac_blocksize a) (ChunkSizeMax (idx_index idx)) of
             Err e \<Rightarrow> Some (Err e)
           | Panic x \<Rightarrow> Some (Panic x)
           | Ok ns \<Rightarrow>
               let seeds = NullSeed ns # seeds;
                   st = \<lparr>as_file = \<lparr>tf_data = f, tf_faults = ac_faults a\<rparr>,
                         as_self = newSelfSeed (ac_canClone a (ac_name a)) (ac_name a) idx, as_store = s,
                         as_stats = initial_stats idx (length seeds) (ac_blocksize a)\<rparr>
               in case su_open (ac_setup a) of
                    Some e \<Rightarrow> Some (Err (Wrapped ''unable to open file %s, %s'' e))
                  | None \<Rightarrow>
                      (case SeedSequencer_Plan (NewSeedSequencer idx seeds) of (plan, seq) \<Rightarrow>
                         map_option (\<lambda>r. bind_res r (\<lambda>plan. Ok (plan, isBlank, st)))
                           (plan_loop (ac_codec a) (ac_opener a) (ac_regenerate a) (ac_action a) 1 plan seq))))"

inductive AssembleFile ::
  "'s asm_call \<Rightarrow> target \<Rightarrow> Index \<Rightarrow> 's \<Rightarrow> seed list \<Rightarrow> unit res \<Rightarrow> bytes option \<Rightarrow> bool" for a t idx s seeds where
  setup_failed: "assemble_start a t idx s seeds = Some (Err e) \<Longrightarrow> AssembleFile a t idx s seeds (Err e) None"
| setup_panicked: "assemble_start a t idx s seeds = Some (Panic x) \<Longrightarrow> AssembleFile a t idx s seeds (Panic x) None"
| ran: "assemble_start a t idx s seeds = Some (Ok (plan, isBlank, st)) \<Longrightarrow>
     asm_run (run_env a isBlank) (mset plan) st r st' \<Longrightarrow> AssembleFile a t idx s seeds r (Some (tf_data (as_file st')))"

end
