(* ===== verification/Assemble_Props.thy ===== *)
theory Assemble_Props
  imports Assemble
begin

text \<open>
  What assembling a file guarantees: when it ends without an error, every chunk of the index is in its
  place with the right digest, whatever the seeds hold and in whatever order the workers finish.
\<close>

section \<open>Writes and what they leave alone\<close>

text \<open>\<open>frame f f' lo hi\<close>: the file has kept its size and changed only between \<open>lo\<close> and \<open>hi\<close>.\<close>

definition frame :: "bytes \<Rightarrow> bytes \<Rightarrow> nat \<Rightarrow> nat \<Rightarrow> bool" where
  "frame f f' lo hi \<longleftrightarrow> length f' = length f \<and> take lo f' = take lo f \<and> drop hi f' = drop hi f"

lemma frame_refl [simp]: "frame f f lo hi"
  by (simp add: frame_def)

lemma frame_trans: "frame f f' lo hi \<Longrightarrow> frame f' f'' lo hi \<Longrightarrow> frame f f'' lo hi"
  by (simp add: frame_def)

lemma frame_take: "frame f f' lo hi \<Longrightarrow> k \<le> lo \<Longrightarrow> take k f' = take k f"
  unfolding frame_def by (metis min_absorb1 take_take)

lemma frame_drop: "frame f f' lo hi \<Longrightarrow> hi \<le> k \<Longrightarrow> drop k f' = drop k f"
  unfolding frame_def by (metis drop_drop le_add_diff_inverse2)

lemma frame_length: "frame f f' lo hi \<Longrightarrow> length f' = length f"
  by (simp add: frame_def)

lemma frame_mono: "frame f f' lo hi \<Longrightarrow> lo' \<le> lo \<Longrightarrow> hi \<le> hi' \<Longrightarrow> frame f f' lo' hi'"
  unfolding frame_def[of f f' lo' hi'] by (simp add: frame_take frame_drop frame_length)

lemma frame_slice:
  assumes "frame f f' lo hi" "b \<le> lo \<or> hi \<le> a"
  shows "slice f' a b = slice f a b"
  using assms(2)
proof
  assume "b \<le> lo"
  have "slice g a b = drop a (take b g)" for g :: bytes by (simp add: slice_def drop_take)
  then show ?thesis using frame_take[OF assms(1) \<open>b \<le> lo\<close>] by simp
next
  assume "hi \<le> a"
  then show ?thesis using frame_drop[OF assms(1)] by (simp add: slice_def)
qed

lemma frame_write_at: "off + length b \<le> length f \<Longrightarrow> frame f (write_at f off b) off (off + length b)"
  by (auto simp: frame_def write_at_def)

lemma slice_write_at: "off + length b \<le> length f \<Longrightarrow> slice (write_at f off b) off (off + length b) = b"
  by (auto simp: slice_def write_at_def)

lemma frame_WriteAt:
  assumes "file_WriteAt f off b = (n, e, f')" "unat off + length b \<le> hi" "hi \<le> length (tf_data f)"
  shows "frame (tf_data f) (tf_data f') (unat off) hi \<and>
    (e = None \<longrightarrow> slice (tf_data f') (unat off) (unat off + length b) = b)"
proof -
  have "frame (tf_data f) (write_at (tf_data f) (unat off) (take n b)) (unat off) hi" for n
    using assms(2,3) by (intro frame_mono[OF frame_write_at]) (auto simp: min_def)
  from this[of "length b"] this show ?thesis
    using assms slice_write_at[of "unat off" b "tf_data f"]
    by (auto simp: file_WriteAt_def split: if_splits list.splits option.splits prod.splits)
qed

lemma copy_range_frame:
  assumes "copy_range src so len f off = (n, e, f')" "unat off + unat len \<le> length (tf_data f)"
    "length (tf_data f) < 2 ^ 63"
  shows "frame (tf_data f) (tf_data f') (unat off) (unat off + unat len)"
proof -
  have "nat (sint len) = unat len" using assms(2,3) by (simp add: sint_small_u64)
  then show ?thesis using assms
    by (auto simp: copy_range_def split: if_splits prod.splits dest!: frame_WriteAt[where hi = "unat off + unat len"])
qed

lemma null_copy_frame:
  assumes "null_copy f off len = (n, e, f')" "unat off + unat len \<le> length (tf_data f)" "length (tf_data f) < 2 ^ 63"
  shows "frame (tf_data f) (tf_data f') (unat off) (unat off + unat len)"
proof -
  have "nat (sint len) = unat len" using assms(2,3) by (simp add: sint_small_u64)
  then show ?thesis using assms
    by (auto simp: null_copy_def split: prod.splits dest!: frame_WriteAt[where hi = "unat off + unat len"])
qed

text \<open>Segments that are copied, not cloned.\<close>

fun no_reflink :: "seed_segment \<Rightarrow> bool" where
  "no_reflink (fileSeedSegment f cs r) \<longleftrightarrow> \<not> r"
| "no_reflink (nullChunkSection a b r) \<longleftrightarrow> \<not> r"

lemma WriteInto_frame:
  assumes "segment_WriteInto clone opener seg f off len blocksize isBlank = (r, f')" "no_reflink seg"
    "unat off + unat len \<le> length (tf_data f)" "length (tf_data f) < 2 ^ 63"
  shows "frame (tf_data f) (tf_data f') (unat off) (unat off + unat len)"
  using assms
  by (cases seg) (auto simp: file_WriteInto_def null_WriteInto_def dest: copy_range_frame null_copy_frame
      split: if_splits res.splits prod.splits)

section \<open>The layout of an index\<close>

definition lo :: "IndexChunk \<Rightarrow> nat" where
  "lo c = unat (ic_start c)"

definition hi :: "IndexChunk \<Rightarrow> nat" where
  "hi c = unat (ic_start c) + unat (ic_size c)"

definition laid_out :: "IndexChunk list \<Rightarrow> nat \<Rightarrow> bool" where
  "laid_out cs n \<longleftrightarrow> n < 2 ^ 63 \<and> (\<forall>k < length cs. hi (cs ! k) \<le> n) \<and>
     (\<forall>j < length cs. \<forall>k < j. hi (cs ! k) \<le> lo (cs ! j))"

lemma lo_le_hi: "lo c \<le> hi c"
  by (simp add: lo_def hi_def)

lemma laid_out_disjoint:
  assumes "laid_out cs n" "j < length cs" "k < length cs" "j \<noteq> k"
  shows "hi (cs ! j) \<le> lo (cs ! k) \<or> hi (cs ! k) \<le> lo (cs ! j)"
  using assms by (cases "j < k") (auto simp: laid_out_def)

text \<open>A chunk that is in its place.\<close>

definition in_place :: "codec_fns \<Rightarrow> bytes \<Rightarrow> IndexChunk \<Rightarrow> bool" where
  "in_place cr f c \<longleftrightarrow> Digest_Sum cr (slice f (lo c) (hi c)) = ic_id c"

lemma in_place_frame: "in_place cr f c \<Longrightarrow> frame f f' a b \<Longrightarrow> hi c \<le> a \<or> b \<le> lo c \<Longrightarrow> in_place cr f' c"
  using frame_slice by (simp add: in_place_def)

lemma read_chunk_Ok: "read_chunk f c = Ok b \<Longrightarrow> b = slice f (lo c) (hi c)"
  by (auto simp: read_chunk_def read_at_def lo_def hi_def res_simps split: if_splits)

text \<open>\<open>keeps cs J f f'\<close>: the chunks outside \<open>J\<close> have not been touched.\<close>

definition keeps :: "IndexChunk list \<Rightarrow> nat set \<Rightarrow> bytes \<Rightarrow> bytes \<Rightarrow> bool" where
  "keeps cs J f f' \<longleftrightarrow> length f' = length f \<and>
     (\<forall>k < length cs. k \<notin> J \<longrightarrow> slice f' (lo (cs ! k)) (hi (cs ! k)) = slice f (lo (cs ! k)) (hi (cs ! k)))"

lemma keeps_refl [simp]: "keeps cs J f f"
  by (simp add: keeps_def)

lemma keeps_trans: "keeps cs J f f' \<Longrightarrow> keeps cs K f' f'' \<Longrightarrow> keeps cs (J \<union> K) f f''"
  by (simp add: keeps_def)

lemma keeps_in_place: "keeps cs J f f' \<Longrightarrow> k < length cs \<Longrightarrow> k \<notin> J \<Longrightarrow> in_place cr f' (cs ! k) = in_place cr f (cs ! k)"
  by (simp add: keeps_def in_place_def)

lemma frame_keeps:
  assumes "laid_out cs n" "frame f f' (lo (cs ! a)) (hi (cs ! b))" "a \<le> b" "b < length cs"
  shows "keeps cs {a..b} f f'"
  unfolding keeps_def
proof (intro conjI allI impI)
  show "length f' = length f" using assms(2) by (rule frame_length)
  fix k assume k: "k < length cs" "k \<notin> {a..b}"
  then have "hi (cs ! k) \<le> lo (cs ! a) \<or> hi (cs ! b) \<le> lo (cs ! k)"
    using assms by (cases "k < a") (auto simp: laid_out_def)
  then show "slice f' (lo (cs ! k)) (hi (cs ! k)) = slice f (lo (cs ! k)) (hi (cs ! k))"
    using frame_slice[OF assms(2)] by blast
qed

section \<open>The self seed\<close>

definition cache_ok :: "nat set \<Rightarrow> (nat \<times> nat) list \<Rightarrow> bool" where
  "cache_ok D al \<longleftrightarrow> (\<forall>a b. (a, b) \<in> set al \<longrightarrow> {a..<b} \<subseteq> D)"

lemma cache_ok_delete: "cache_ok D al \<Longrightarrow> cache_ok D (AList.delete k al)"
  by (simp add: cache_ok_def AList.delete_eq)

lemma cache_ok_update: "cache_ok D al \<Longrightarrow> {a..<b} \<subseteq> D \<Longrightarrow> cache_ok D (AList.update a b al)"
  by (induction al) (auto simp: cache_ok_def)

definition self_ok :: "IndexChunk list \<Rightarrow> nat set \<Rightarrow> selfSeed \<Rightarrow> bool" where
  "self_ok cs D s \<longleftrightarrow> idx_chunks (sf_index s) = cs \<and> \<not> sf_canReflink s \<and>
     (\<forall>i l. sf_pos s i = Some l \<longrightarrow> l \<noteq> [] \<and> (\<forall>k \<in> set l. k \<in> D \<and> k < length cs \<and> ic_id (cs ! k) = i)) \<and>
     cache_ok D (sf_cache s)"

lemma positions_from_ok:
  assumes "\<And>i l. m i = Some l \<Longrightarrow> l \<noteq> [] \<and> (\<forall>k \<in> set l. P i k)" "\<And>x. x < length ds \<Longrightarrow> P (ic_id (ds ! x)) (n + x)"
    "positions_from n ds m i = Some l"
  shows "l \<noteq> [] \<and> (\<forall>k \<in> set l. P i k)"
  using assms
proof (induction ds arbitrary: n m)
  case (Cons d ds)
  have "P (ic_id d) n" using Cons.prems(2)[of 0] by simp
  then have "\<And>i l. add_pos m (ic_id d) n i = Some l \<Longrightarrow> l \<noteq> [] \<and> (\<forall>k \<in> set l. P i k)"
    using Cons.prems(1) by (fastforce simp: add_pos_def split: if_splits option.splits)
  moreover have "\<And>x. x < length ds \<Longrightarrow> P (ic_id (ds ! x)) (Suc n + x)" using Cons.prems(2)[of "Suc _"] by simp
  ultimately show ?case using Cons.IH[of "add_pos m (ic_id d) n" "Suc n"] Cons.prems(3) by simp
qed simp

lemma advance_written_ok:
  "advance_written s = Ok s' \<Longrightarrow> self_ok cs D s \<Longrightarrow> self_ok cs D s' \<and> sf_file s' = sf_file s"
proof (induction s rule: advance_written.induct)
  case (1 s)
  show ?case
  proof (cases "map_of (sf_cache s) (sf_written s)")
    case None
    then show ?thesis using "1.prems" by (subst (asm) advance_written.simps) auto
  next
    case (Some nx)
    let ?w = "sf_written s"
    let ?s = "s\<lparr>sf_pos := positions_from ?w (slice cs ?w nx) (sf_pos s),
      sf_cache := AList.delete ?w (sf_cache s), sf_written := nx\<rparr>"
    have cs: "idx_chunks (sf_index s) = cs" using "1.prems"(2) by (simp add: self_ok_def)
    have ok: "\<not> (nx > length cs \<and> ?w < nx)" and adv: "advance_written ?s = Ok s'"
      using "1.prems"(1) Some cs by (subst (asm) advance_written.simps; simp split: if_splits)+
    have D: "{?w..<nx} \<subseteq> D" using "1.prems"(2) map_of_SomeD[OF Some] unfolding self_ok_def cache_ok_def by blast
    have "self_ok cs D ?s"
      unfolding self_ok_def
    proof (intro conjI allI impI)
      fix i l assume l: "sf_pos ?s i = Some l"
      have "l \<noteq> [] \<and> (\<forall>k \<in> set l. k \<in> D \<and> k < length cs \<and> ic_id (cs ! k) = i)"
        by (rule positions_from_ok[where P = "\<lambda>i k. k \<in> D \<and> k < length cs \<and> ic_id (cs ! k) = i", OF _ _ l[simplified]])
           (use "1.prems"(2) D ok in \<open>auto simp: self_ok_def slice_def\<close>)
      then show "l \<noteq> []" "\<forall>k \<in> set l. k \<in> D \<and> k < length cs \<and> ic_id (cs ! k) = i" by simp_all
    qed (use "1.prems"(2) cs cache_ok_delete in \<open>simp_all add: self_ok_def\<close>)
    then show ?thesis using "1.IH"[OF Some] ok adv cs by simp
  qed
qed

lemma selfSeed_add_ok:
  assumes "selfSeed_add s seg = Ok s'" "self_ok cs D s" "{seg_first seg..seg_last seg} \<subseteq> D"
  shows "self_ok cs D s' \<and> sf_file s' = sf_file s"
proof -
  let ?s = "s\<lparr>sf_cache := AList.update (seg_first seg) (seg_last seg + 1) (sf_cache s)\<rparr>"
  have "self_ok cs D ?s"
    using assms(2,3) cache_ok_update[of D "sf_cache s" "seg_first seg" "seg_last seg + 1"]
    by (simp add: self_ok_def atLeastLessThanSuc_atLeastAtMost)
  then show ?thesis using advance_written_ok[of ?s s'] assms(1) by (simp add: selfSeed_add_def)
qed

lemma self_ok_mono: "self_ok cs D s \<Longrightarrow> D \<subseteq> E \<Longrightarrow> self_ok cs E s"
  unfolding self_ok_def cache_ok_def by blast

lemma getChunk_Some:
  assumes "selfSeed_getChunk s cid = Some seg" "self_ok cs D s"
  shows "\<exists>k \<in> D. k < length cs \<and> ic_id (cs ! k) = cid \<and> seg = fileSeedSegment (sf_file s) [cs ! k] False"
proof -
  obtain l where l: "sf_pos s cid = Some l" "seg = fileSeedSegment (sf_file s) (slice cs (hd l) (hd l + 1)) False"
    using assms by (auto simp: selfSeed_getChunk_def self_ok_def split: option.splits)
  then have k: "hd l \<in> D \<and> hd l < length cs \<and> ic_id (cs ! hd l) = cid" using assms(2) by (auto simp: self_ok_def)
  then have "slice cs (hd l) (hd l + 1) = [cs ! hd l]" by (simp add: slice_def take_Suc_conv_app_nth hd_drop_conv_nth take_Suc)
  then show ?thesis using l k by auto
qed

section \<open>The invariant of a run\<close>

text \<open>The assumptions about a run, and its invariant: the chunks of \<open>D\<close> are done.\<close>

definition asm_ok :: "'s asm_env \<Rightarrow> IndexChunk list \<Rightarrow> nat \<Rightarrow> bool" where
  "asm_ok env cs n \<longleftrightarrow> laid_out cs n \<and> verified_store (ae_codec env) (ae_get env) \<and> (\<forall>c \<in> set cs. ic_id c \<noteq> zero_id) \<and> \<not> ae_cancelled env"

definition asm_inv :: "'s asm_env \<Rightarrow> IndexChunk list \<Rightarrow> nat \<Rightarrow> nat set \<Rightarrow> 's asm_state \<Rightarrow> bool" where
  "asm_inv env cs n D st \<longleftrightarrow> length (tf_data (as_file st)) = n \<and> self_ok cs D (as_self st) \<and>
     sf_file (as_self st) = ae_name env \<and>
     (\<forall>k \<in> D. k < length cs \<and> in_place (ae_codec env) (tf_data (as_file st)) (cs ! k))"

lemma asm_inv_keeps:
  assumes "asm_inv env cs n D st" "keeps cs J (tf_data (as_file st)) (tf_data (as_file st'))" "as_self st' = as_self st"
    "D \<inter> J = {}"
  shows "asm_inv env cs n D st'"
proof -
  have "in_place (ae_codec env) (tf_data (as_file st')) (cs ! k)" if "k \<in> D" for k
    using keeps_in_place[OF assms(2)] assms(1,4) that unfolding asm_inv_def by blast
  then show ?thesis using assms(1-3) by (simp add: asm_inv_def keeps_def)
qed

lemma from_store_ok:
  assumes "asm_ok env cs n" "k < length cs" "length (tf_data (as_file st)) = n" "chunk_from_store env st (cs ! k) = (r, st')"
  shows "frame (tf_data (as_file st)) (tf_data (as_file st')) (lo (cs ! k)) (hi (cs ! k)) \<and> as_self st' = as_self st \<and>
    (r = Ok () \<longrightarrow> in_place (ae_codec env) (tf_data (as_file st')) (cs ! k))"
proof -
  let ?c = "cs ! k"
  have n: "hi ?c \<le> n" using assms(1,2) by (simp add: asm_ok_def laid_out_def)
  have id: "ic_id ?c \<noteq> zero_id" using assms(1,2) by (simp add: asm_ok_def)
  obtain x s where get: "ae_get env (as_store st) (ic_id ?c) = (x, s)" by (cases "ae_get env (as_store st) (ic_id ?c)")
  show ?thesis
  proof (cases "bind_res x (\<lambda>chunk. fst (Chunk_Data (ae_codec env) chunk))")
    case (Ok b)
    then obtain chunk where chunk: "x = Ok chunk" "fst (Chunk_Data (ae_codec env) chunk) = Ok b" by (auto simp: res_simps)
    then have digest: "Digest_Sum (ae_codec env) b = ic_id ?c"
      using verified_store.get_genuine[of "ae_codec env" "ae_get env"] get assms(1) id
      by (fastforce simp: asm_ok_def genuine_def chunk_valid_def)
    show ?thesis
    proof (cases "unat (ic_size ?c) = length b")
      case True
      obtain m e f where w: "file_WriteAt (as_file st) (ic_start ?c) b = (m, e, f)" by (cases "file_WriteAt (as_file st) (ic_start ?c) b")
      have "frame (tf_data (as_file st)) (tf_data f) (lo ?c) (hi ?c) \<and> (e = None \<longrightarrow> slice (tf_data f) (lo ?c) (hi ?c) = b)"
        using frame_WriteAt[OF w, of "hi ?c"] n True assms(3) by (simp add: lo_def hi_def)
      then show ?thesis using assms(4) get Ok True w digest
        by (auto simp: chunk_from_store_def Let_def in_place_def split: option.splits)
    qed (use assms(4) get Ok in \<open>auto simp: chunk_from_store_def Let_def\<close>)
  qed (use assms(4) get in \<open>auto simp: chunk_from_store_def Let_def\<close>)
qed

lemma from_self_ok:
  assumes "asm_ok env cs n" "asm_inv env cs n D st" "k < length cs" "j \<in> D" "ic_id (cs ! j) = ic_id (cs ! k)"
    "chunk_from_self env opener (fileSeedSegment (ae_name env) [cs ! j] False) st (cs ! k) = (r, st')"
  shows "frame (tf_data (as_file st)) (tf_data (as_file st')) (lo (cs ! k)) (hi (cs ! k)) \<and> as_self st' = as_self st \<and>
    (r = Ok () \<longrightarrow> in_place (ae_codec env) (tf_data (as_file st')) (cs ! k))"
proof -
  let ?c = "cs ! k" and ?d = "cs ! j" and ?f = "as_file st"
  have lay: "hi ?c \<le> n" "hi ?d \<le> n" "n < 2 ^ 63" and n: "length (tf_data ?f) = n"
    using assms(1-4) by (auto simp: asm_ok_def laid_out_def asm_inv_def)
  have d: "Digest_Sum (ae_codec env) (slice (tf_data ?f) (lo ?d) (hi ?d)) = ic_id ?c"
    using assms(2,4,5) by (simp add: asm_inv_def in_place_def)
  let ?seg = "fileSeedSegment (ae_name env) [?d] False"
  obtain w f where w: "segment_WriteInto (ae_clone env) (open_source env opener ?f) ?seg ?f (ic_start ?c) (ic_size ?c)
      (ae_blocksize env) (ae_isBlank env) = (w, f)"
    by (cases "segment_WriteInto (ae_clone env) (open_source env opener ?f) ?seg ?f (ic_start ?c) (ic_size ?c) (ae_blocksize env) (ae_isBlank env)")
  have fr: "frame (tf_data ?f) (tf_data f) (lo ?c) (hi ?c)"
    using WriteInto_frame[OF w] lay n by (simp add: lo_def hi_def)
  have in_place: "in_place (ae_codec env) (tf_data f) ?c" if ok: "w = Ok (copied, cloned, None)" for copied cloned
  proof -
    have sz: "ic_size ?c = ic_size ?d" and cp: "copy_range (tf_data ?f) (ic_start ?d) (ic_size ?c) ?f (ic_start ?c) = (copied, None, f)"
      using w ok by (auto simp: file_WriteInto_def open_source_def split: if_splits prod.splits)
    have sint: "nat (sint (ic_size ?c)) = unat (ic_size ?c)" using lay by (simp add: sint_small_u64 hi_def)
    let ?b = "slice (tf_data ?f) (lo ?d) (hi ?d)"
    have len: "length ?b = unat (ic_size ?c)" using lay n sz by (simp add: lo_def hi_def)
    have b: "take (nat (sint (ic_size ?c))) (drop (unat (ic_start ?d)) (tf_data ?f)) = ?b"
      using sz sint by (simp add: slice_def lo_def hi_def)
    obtain m where "file_WriteAt ?f (ic_start ?c) ?b = (m, None, f)"
      using cp by (auto simp: copy_range_def b split: if_splits prod.splits)
    then have "slice (tf_data f) (lo ?c) (hi ?c) = ?b"
      using frame_WriteAt[of ?f "ic_start ?c" ?b m None f "hi ?c"] lay(1) n len by (simp add: lo_def hi_def)
    then show ?thesis using d by (simp add: in_place_def)
  qed
  then show ?thesis using assms(6) w fr
    by (auto simp: chunk_from_self_def split: res.splits option.splits prod.splits)
qed

lemma writeChunk_ok:
  assumes "asm_ok env cs n" "asm_inv env cs n D st" "k < length cs" "writeChunk env opener st (cs ! k) = (r, st')"
  shows "keeps cs {k} (tf_data (as_file st)) (tf_data (as_file st')) \<and> as_self st' = as_self st \<and>
    (r = Ok () \<longrightarrow> in_place (ae_codec env) (tf_data (as_file st')) (cs ! k))"
proof -
  have "frame (tf_data (as_file st)) (tf_data (as_file st')) (lo (cs ! k)) (hi (cs ! k)) \<and> as_self st' = as_self st \<and>
    (r = Ok () \<longrightarrow> in_place (ae_codec env) (tf_data (as_file st')) (cs ! k))"
  proof (cases "chunk_in_place env (as_file st) (cs ! k)")
    case (Ok b)
    show ?thesis
    proof (cases b)
      case True
      then have "in_place (ae_codec env) (tf_data (as_file st)) (cs ! k)"
        using Ok by (auto simp: chunk_in_place_def in_place_def res_simps dest!: read_chunk_Ok split: if_splits)
      then show ?thesis using assms(4) Ok True by (auto simp: writeChunk_def)
    next
      case False
      show ?thesis
      proof (cases "selfSeed_getChunk (as_self st) (ic_id (cs ! k))")
        case None
        then show ?thesis using assms False Ok from_store_ok[OF assms(1,3), of st r st'] by (simp add: writeChunk_def asm_inv_def)
      next
        case (Some seg)
        then obtain j where "j \<in> D" "ic_id (cs ! j) = ic_id (cs ! k)" "seg = fileSeedSegment (ae_name env) [cs ! j] False"
          using getChunk_Some[OF Some] assms(2) by (auto simp: asm_inv_def)
        then show ?thesis using assms False Ok Some from_self_ok[OF assms(1-3), of j opener r st'] by (simp add: writeChunk_def)
      qed
    qed
  qed (use assms(4) in \<open>auto simp: writeChunk_def\<close>)
  then show ?thesis using frame_keeps[of cs n _ _ k k] assms(1,3) by (auto simp: asm_ok_def)
qed

lemma check_written_ok:
  assumes "asm_ok env cs n" "asm_inv env cs n D st" "distinct ks" "set ks \<subseteq> {..<length cs} - D"
    "check_written env opener st (map ((!) cs) ks) = (r, st')"
  shows "keeps cs (set ks) (tf_data (as_file st)) (tf_data (as_file st')) \<and> as_self st' = as_self st \<and>
    (r = Ok () \<longrightarrow> (\<forall>k \<in> set ks. in_place (ae_codec env) (tf_data (as_file st')) (cs ! k)))"
  using assms(2-)
proof (induction ks arbitrary: st)
  case (Cons k ks)
  let ?data = "\<lambda>st. tf_data (as_file st)"
  have rest: "keeps cs (set (k # ks)) (?data st) (?data st') \<and> as_self st' = as_self st \<and>
      (r = Ok () \<longrightarrow> (\<forall>k \<in> set (k # ks). in_place (ae_codec env) (?data st') (cs ! k)))"
    if s1: "keeps cs {k} (?data st) (?data st1)" "as_self st1 = as_self st" "in_place (ae_codec env) (?data st1) (cs ! k)"
      "check_written env opener st1 (map ((!) cs) ks) = (r, st')" for st1
  proof -
    have "asm_inv env cs n D st1" using asm_inv_keeps[OF Cons.prems(1) s1(1,2)] Cons.prems(3) by auto
    then have IH: "keeps cs (set ks) (?data st1) (?data st') \<and> as_self st' = as_self st1 \<and>
      (r = Ok () \<longrightarrow> (\<forall>k \<in> set ks. in_place (ae_codec env) (?data st') (cs ! k)))"
      using Cons.IH[of st1] Cons.prems s1(4) by simp
    moreover have "in_place (ae_codec env) (?data st') (cs ! k)"
      using keeps_in_place[of cs "set ks" "?data st1" "?data st'" k] IH s1(3) Cons.prems(2,3) by simp
    ultimately show ?thesis using keeps_trans[OF s1(1)] s1(2) by simp
  qed
  have k: "k < length cs" using Cons.prems(3) by simp
  show ?case
  proof (cases "read_chunk (?data st) (cs ! k)")
    case (Ok b)
    show ?thesis
    proof (cases "Digest_Sum (ae_codec env) b = ic_id (cs ! k)")
      case True
      then show ?thesis using rest[of st] Ok Cons.prems(4) read_chunk_Ok[OF Ok] by (simp add: in_place_def)
    next
      case False
      show ?thesis
      proof (cases "ae_action env = Regenerate")
        case True
        obtain r1 st1 where w: "writeChunk env opener st (cs ! k) = (r1, st1)" by (cases "writeChunk env opener st (cs ! k)")
        note w1 = writeChunk_ok[OF assms(1) Cons.prems(1) k w]
        have stop: "keeps cs (set (k # ks)) (?data st) (?data st1)" using w1 by (simp add: keeps_def)
        show ?thesis
        proof (cases "r1 = Ok ()")
          case ok: True
          then show ?thesis using rest[of st1] w w1 Ok False True Cons.prems(4) by simp
        next
          case err: False
          then have "r = r1 \<and> st' = st1" using w Ok False True Cons.prems(4) by (cases r1) simp_all
          then show ?thesis using stop w1 err by simp
        qed
      qed (use Cons.prems(4) Ok False in auto)
    qed
  qed (use Cons.prems(4) in \<open>auto\<close>)
qed simp

section \<open>Jobs\<close>

definition seg_ok :: "IndexChunk list \<Rightarrow> IndexSegment \<Rightarrow> bool" where
  "seg_ok cs seg \<longleftrightarrow> idx_chunks (seg_index seg) = cs \<and> seg_first seg \<le> seg_last seg \<and> seg_last seg < length cs"

abbreviation seg_set :: "IndexSegment \<Rightarrow> nat set" where
  "seg_set seg \<equiv> {seg_first seg..seg_last seg}"

lemma seg_chunks_ok: "seg_ok cs seg \<Longrightarrow> seg_chunks seg = Ok (map ((!) cs) [seg_first seg..<seg_last seg + 1])"
  by (auto simp: seg_ok_def seg_chunks_def slice_def intro!: nth_equalityI simp del: upt_Suc)

lemma seg_bytes_ok:
  assumes "laid_out cs n" "seg_ok cs seg"
  shows "seg_start seg = Ok (ic_start (cs ! seg_first seg)) \<and>
    (\<exists>len. seg_lengthBytes seg = Ok len \<and> lo (cs ! seg_first seg) + unat len = hi (cs ! seg_last seg))"
proof -
  let ?a = "cs ! seg_first seg" and ?b = "cs ! seg_last seg"
  have b: "hi ?b \<le> n" "n < 2 ^ 63" using assms by (auto simp: laid_out_def seg_ok_def)
  have le: "lo ?a \<le> hi ?b"
  proof (cases "seg_first seg = seg_last seg")
    case False
    then have "hi ?a \<le> lo ?b" using assms by (auto simp: laid_out_def seg_ok_def)
    then show ?thesis using lo_le_hi[of ?a] lo_le_hi[of ?b] by linarith
  qed (simp add: lo_le_hi)
  have e: "unat (ic_start ?b + ic_size ?b) = hi ?b" using b by (subst unat_add_small) (simp_all add: hi_def)
  then have "unat (ic_start ?b + ic_size ?b - ic_start ?a) = hi ?b - lo ?a"
    using le by (subst unat_sub) (simp_all add: word_le_nat_alt lo_def)
  then show ?thesis using assms(2) le
    by (simp add: seg_ok_def seg_start_def seg_end_def seg_lengthBytes_def Let_def)
qed

lemma record_written_ok:
  assumes "record_written st1 seg = (Ok (), st')" "asm_inv env cs n D st" "D \<inter> seg_set seg = {}" "seg_ok cs seg"
    "keeps cs (seg_set seg) (tf_data (as_file st)) (tf_data (as_file st1))" "as_self st1 = as_self st"
    "\<forall>k \<in> seg_set seg. in_place (ae_codec env) (tf_data (as_file st1)) (cs ! k)"
  shows "asm_inv env cs n (D \<union> seg_set seg) st'"
proof -
  have inv: "asm_inv env cs n D st1" using asm_inv_keeps[OF assms(2,5,6,3)] .
  obtain self where self: "selfSeed_add (as_self st1) seg = Ok self" "st' = st1\<lparr>as_self := self\<rparr>"
    using assms(1) by (auto simp: record_written_def split: res.splits)
  have "self_ok cs (D \<union> seg_set seg) self \<and> sf_file self = sf_file (as_self st1)"
    using selfSeed_add_ok[OF self(1) self_ok_mono] inv by (auto simp: asm_inv_def)
  then show ?thesis using inv self(2) assms(4,7) by (auto simp: asm_inv_def seg_ok_def)
qed

lemma job_from_seed_ok:
  assumes "asm_ok env cs n" "asm_inv env cs n D st" "seg_ok cs seg" "D \<inter> seg_set seg = {}" "no_reflink source"
    "job_from_seed env opener st source seg = (Ok (), st')"
  shows "asm_inv env cs n (D \<union> seg_set seg) st'"
proof -
  have lay: "laid_out cs n" and n: "length (tf_data (as_file st)) = n" using assms(1,2) by (simp_all add: asm_ok_def asm_inv_def)
  obtain len where seg: "seg_start seg = Ok (ic_start (cs ! seg_first seg))" "seg_lengthBytes seg = Ok len"
    "lo (cs ! seg_first seg) + unat len = hi (cs ! seg_last seg)" using seg_bytes_ok[OF lay assms(3)] by blast
  define st0 where "st0 = st\<lparr>as_stats := addChunksFromSeed (word_of_nat (seg_lengthChunks seg)) (as_stats st)\<rparr>"
  let ?ks = "[seg_first seg..<seg_last seg + 1]"
  obtain copied cloned f st1 where w: "segment_WriteInto (ae_clone env) (open_source env opener (as_file st0)) source (as_file st0)
      (ic_start (cs ! seg_first seg)) len (ae_blocksize env) (ae_isBlank env) = (Ok (copied, cloned, None), f)"
    and c: "check_written env opener (st0\<lparr>as_file := f\<rparr>) (map ((!) cs) ?ks) = (Ok (), st1)"
    and r: "record_written (st1\<lparr>as_stats := addBytesCloned cloned (addBytesCopied copied (as_stats st1))\<rparr>) seg = (Ok (), st')"
    using assms(6) seg seg_chunks_ok[OF assms(3)] unfolding job_from_seed_def Let_def st0_def[symmetric]
    by (auto split: res.splits option.splits prod.splits simp del: upt_Suc)
  have "hi (cs ! seg_last seg) \<le> n" "n < 2 ^ 63" using lay assms(3) by (auto simp: laid_out_def seg_ok_def)
  then have "frame (tf_data (as_file st)) (tf_data f) (lo (cs ! seg_first seg)) (hi (cs ! seg_last seg))"
    using WriteInto_frame[OF w assms(5)] seg(3) n by (simp add: lo_def st0_def)
  then have k1: "keeps cs (seg_set seg) (tf_data (as_file st)) (tf_data f)"
    using frame_keeps[OF lay] assms(3) by (simp add: seg_ok_def)
  then have inv: "asm_inv env cs n D (st0\<lparr>as_file := f\<rparr>)"
    using asm_inv_keeps[OF assms(2), of "seg_set seg"] assms(4) by (simp add: st0_def)
  have ks: "set ?ks = seg_set seg" by auto
  have "set ?ks \<subseteq> {..<length cs} - D" unfolding ks using assms(3,4) by (auto simp: seg_ok_def)
  note chk = check_written_ok[OF assms(1) inv _ this c, unfolded ks]
  then have k2: "keeps cs (seg_set seg) (tf_data (as_file st)) (tf_data (as_file st1))"
    using keeps_trans[OF k1, of "seg_set seg" "tf_data (as_file st1)"] by (simp del: upt_Suc)
  show ?thesis
    by (rule record_written_ok[OF r assms(2,4,3)]) (use k2 chk in \<open>simp_all add: st0_def del: upt_Suc\<close>)
qed

lemma job_single_ok:
  assumes "asm_ok env cs n" "asm_inv env cs n D st" "seg_ok cs seg" "D \<inter> seg_set seg = {}"
    "job_single env opener st seg = (Ok (), st')"
  shows "asm_inv env cs n (D \<union> seg_set seg) st'"
proof -
  have one: "seg_first seg = seg_last seg"
    using assms(3,5) seg_chunks_ok[OF assms(3)] by (auto simp: job_single_def seg_ok_def split: if_splits simp del: upt_Suc)
  obtain st1 where w: "writeChunk env opener st (cs ! seg_last seg) = (Ok (), st1)" "record_written st1 seg = (Ok (), st')"
    using assms(5) seg_chunks_ok[OF assms(3)] one
    by (auto simp: job_single_def split: if_splits res.splits prod.splits)
  have "seg_last seg < length cs" using assms(3) by (simp add: seg_ok_def)
  note w1 = writeChunk_ok[OF assms(1,2) this w(1)]
  show ?thesis
    by (rule record_written_ok[OF w(2) assms(2,4,3)]) (use w1 one in simp_all)
qed

definition job_ok :: "IndexChunk list \<Rightarrow> SeedSegmentCandidate \<Rightarrow> bool" where
  "job_ok cs job \<longleftrightarrow> seg_ok cs (cd_segment job) \<and> (\<forall>source. cd_source job = Some source \<longrightarrow> no_reflink source)"

lemma process_job_ok:
  assumes "asm_ok env cs n" "asm_inv env cs n D st" "job_ok cs job" "D \<inter> seg_set (cd_segment job) = {}"
    "process_job env opener st job = (Ok (), st')"
  shows "asm_inv env cs n (D \<union> seg_set (cd_segment job)) st'"
  using assms job_from_seed_ok[OF assms(1,2)] job_single_ok[OF assms(1,2)]
  by (auto simp: process_job_def job_ok_def split: option.splits)

text \<open>The positions of a list of jobs, as a multiset: none is there twice.\<close>

definition job_positions :: "SeedSegmentCandidate multiset \<Rightarrow> nat multiset" where
  "job_positions jobs = (\<Sum>job \<in># jobs. mset [seg_first (cd_segment job)..<seg_last (cd_segment job) + 1])"

lemma asm_run_inv:
  assumes "asm_run env jobs st r st'" "asm_ok env cs n" "r = Ok ()" "asm_inv env cs n (set_mset D) st"
    "\<forall>job \<in># jobs. job_ok cs job" "D + job_positions jobs = mset [0..<length cs]"
  shows "asm_inv env cs n {..<length cs} st'"
  using assms
proof (induction arbitrary: D rule: asm_run.induct)
  case (finished st)
  then have "set_mset D = {..<length cs}" by (simp add: job_positions_def atLeast_upt flip: set_mset_mset)
  then show ?case using finished by simp
next
  case (step opener st job st' jobs r st'')
  let ?J = "mset [seg_first (cd_segment job)..<seg_last (cd_segment job) + 1]"
  have pos: "D + ?J + job_positions jobs = mset [0..<length cs]"
    using step.prems by (simp add: job_positions_def add.assoc del: upt_Suc)
  have J: "set_mset ?J = seg_set (cd_segment job)" by auto
  have "set_mset D \<inter> set_mset ?J = {}"
  proof (rule ccontr)
    assume "set_mset D \<inter> set_mset ?J \<noteq> {}"
    then obtain k where "k \<in># D" "k \<in># ?J" by blast
    then have "0 < count D k" "0 < count ?J k" unfolding count_greater_zero_iff .
    then have "2 \<le> count (D + ?J + job_positions jobs) k" unfolding count_union by linarith
    moreover have "count (mset [0..<length cs]) k \<le> 1" by (metis distinct_count_atmost_1 distinct_upt le_numeral_extra(4) zero_le)
    ultimately show False unfolding pos by linarith
  qed
  then have "asm_inv env cs n (set_mset (D + ?J)) st'"
    using process_job_ok[OF step.prems(1,3) _ _ step.hyps(1)] step.prems(4) J by (simp del: upt_Suc)
  then show ?case using step.IH[of "D + ?J"] step.prems(1,2,4) pos by (simp del: upt_Suc)
qed (simp_all add: asm_ok_def)

section \<open>Plans\<close>

fun seed_plain :: "seed \<Rightarrow> bool" where
  "seed_plain (NullSeed s) \<longleftrightarrow> \<not> ns_canReflink s"
| "seed_plain (IndexSeed s) \<longleftrightarrow> \<not> fsd_canReflink s"

lemma null_run_le: "null_run s limit n cs \<le> n + length cs"
proof (induction cs arbitrary: n)
  case (Cons c cs)
  then show ?case using Cons.IH[of "Suc n"] by auto
qed simp

lemma match_from_le: "length (match_from limit sp cs ds) \<le> length cs"
  by (induction limit sp cs ds rule: match_from.induct) auto

lemma longest_from_le: "length best \<le> length cs \<Longrightarrow> length (longest_from s cs limit ps best) \<le> length cs"
proof (induction ps arbitrary: best)
  case (Cons p ps)
  have "length (maxMatchFrom s cs p limit) \<le> length cs" by (simp add: maxMatchFrom_def match_from_le)
  then show ?case using Cons.prems Cons.IH[of best] Cons.IH[of "maxMatchFrom s cs p limit"]
    by (cases "limit = 0") (simp_all add: Let_def)
qed simp

text \<open>A seed file that the plan may rely on.\<close>

definition usable_seed :: "seed list \<Rightarrow> nat option \<Rightarrow> bool" where
  "usable_seed ss sd \<longleftrightarrow> (\<exists>i s. sd = Some i \<and> i < length ss \<and> ss ! i = IndexSeed s \<and> \<not> fsd_isInvalid s)"

definition source_plain :: "seed list \<Rightarrow> seed_segment option \<Rightarrow> bool" where
  "source_plain ss source \<longleftrightarrow> ((\<forall>sd \<in> set ss. seed_plain sd) \<longrightarrow> (\<forall>m. source = Some m \<longrightarrow> no_reflink m))"

lemma LongestMatchWith_ok:
  assumes "Seed_LongestMatchWith sd chunks = (n, Some m)"
  shows "n \<le> length chunks \<and> (seed_plain sd \<longrightarrow> no_reflink m) \<and>
    (segment_FileName m \<noteq> [] \<longrightarrow> (\<exists>s. sd = IndexSeed s \<and> \<not> fsd_isInvalid s))"
proof (cases sd)
  case (NullSeed s)
  then show ?thesis using assms null_run_le[of s _ 0 chunks]
    by (auto simp: null_LongestMatchWith_def Let_def split: if_splits)
next
  case (IndexSeed s)
  then show ?thesis using assms longest_from_le[of "[]" chunks s]
    by (auto simp: FileSeed_LongestMatchWith_def Let_def split: if_splits option.splits)
qed

text \<open>What the search for the best match returns.\<close>

definition best_ok :: "seed list \<Rightarrow> IndexChunk list \<Rightarrow> nat option \<times> seed_segment option \<times> nat \<times> u64 \<Rightarrow> bool" where
  "best_ok ss chunks = (\<lambda>(sd, source, n, _). 0 < n \<and> n \<le> length chunks \<and> source_plain ss source \<and>
     (\<forall>m. source = Some m \<and> segment_FileName m \<noteq> [] \<longrightarrow> usable_seed ss sd))"

lemma best_match_ok:
  assumes "i + length ss' = length ss" "ss' = drop i ss" "best_ok ss chunks best"
  shows "best_ok ss chunks (best_match chunks i ss' best)"
  using assms
proof (induction ss' arbitrary: i best)
  case (Cons sd ss')
  have i: "i < length ss" "ss ! i = sd" using Cons.prems(1) nth_via_drop[OF Cons.prems(2)[symmetric]] by simp_all
  then have sd: "sd \<in> set ss" using nth_mem by blast
  have "best_ok ss chunks (Some i, Some m, n, segment_Size m)" if "Seed_LongestMatchWith sd chunks = (n, Some m)" "0 < n" for n m
    using LongestMatchWith_ok[OF that(1)] that(2) i sd by (auto simp: best_ok_def usable_seed_def source_plain_def)
  then have "best_ok ss chunks (case Seed_LongestMatchWith sd chunks of
          (n, Some m) \<Rightarrow> if n > 0 \<and> segment_Size m > snd (snd (snd best)) then (Some i, Some m, n, segment_Size m) else best
        | (n, None) \<Rightarrow> best)"
    using Cons.prems(3) by (auto split: prod.splits option.splits)
  moreover have "ss' = drop (Suc i) ss" using Cons.prems(2) by (metis drop_Suc drop_tl list.sel(3))
  ultimately show ?case using Cons.IH[of "Suc i"] Cons.prems(1) by simp
qed simp

text \<open>A plan for the chunks from position \<open>p\<close> on.\<close>

definition plan_ok :: "seed list \<Rightarrow> IndexChunk list \<Rightarrow> nat \<Rightarrow> SeedSegmentCandidate list \<Rightarrow> bool" where
  "plan_ok ss cs p plan \<longleftrightarrow> (\<forall>job \<in> set plan. seg_ok cs (cd_segment job) \<and> source_plain ss (cd_source job) \<and>
       (isFileSeed job \<longrightarrow> usable_seed ss (cd_seed job))) \<and>
     concat (map (\<lambda>job. [seg_first (cd_segment job)..<seg_last (cd_segment job) + 1]) plan) = [p..<length cs]"

lemma Plan_ok:
  assumes "SeedSequencer_Plan r = (plan, r')" "sq_current r < length (idx_chunks (sq_index r))"
  shows "plan_ok (sq_seeds r) (idx_chunks (sq_index r)) (sq_current r) plan \<and>
    sq_seeds r' = sq_seeds r \<and> sq_index r' = sq_index r"
  using assms
proof (induction r arbitrary: plan r' rule: SeedSequencer_Plan.induct)
  case (1 r)
  let ?cs = "idx_chunks (sq_index r)" and ?p = "sq_current r"
  obtain sd source n mx where b: "best_match (drop ?p ?cs) 0 (sq_seeds r) (None, None, 1, 0) = (sd, source, n, mx)"
    by (metis prod_cases4)
  have best: "best_ok (sq_seeds r) (drop ?p ?cs) (sd, source, n, mx)"
    unfolding b[symmetric] using "1.prems"(2) by (intro best_match_ok) (auto simp: best_ok_def source_plain_def)
  then have n: "0 < n" "?p + n \<le> length ?cs" using "1.prems"(2) by (auto simp: best_ok_def)
  let ?job = "\<lparr>cd_seed = sd, cd_source = source,
      cd_segment = \<lparr>seg_index = sq_index r, seg_first = ?p, seg_last = ?p + n - 1\<rparr>\<rparr>"
  let ?r = "r\<lparr>sq_current := ?p + n\<rparr>"
  have nx: "SeedSequencer_Next r = (?job, ?p + n \<ge> length ?cs, ?r)" using b by (simp add: SeedSequencer_Next_def)
  have job: "seg_ok ?cs (cd_segment ?job) \<and> source_plain (sq_seeds r) (cd_source ?job) \<and>
       (isFileSeed ?job \<longrightarrow> usable_seed (sq_seeds r) (cd_seed ?job))"
    using n best by (auto simp: best_ok_def seg_ok_def isFileSeed_def split: option.splits)
  have pos: "[?p..<?p + n - 1 + 1] = [?p..<?p + n]" using n by simp
  show ?case
  proof (cases "?p + n \<ge> length ?cs")
    case True
    then have "plan = [?job]" "r' = ?r" using "1.prems"(1) nx by (subst (asm) SeedSequencer_Plan.simps; simp)+
    then show ?thesis using job pos True n by (simp add: plan_ok_def del: upt_Suc)
  next
    case False
    obtain cs r2 where rec: "SeedSequencer_Plan ?r = (cs, r2)" by (cases "SeedSequencer_Plan ?r")
    have "plan = ?job # cs" "r' = r2" using "1.prems"(1) nx rec False by (subst (asm) SeedSequencer_Plan.simps; simp)+
    moreover have "plan_ok (sq_seeds r) ?cs (?p + n) cs \<and> sq_seeds r2 = sq_seeds r \<and> sq_index r2 = sq_index r"
      using "1.IH"[OF nx[symmetric] refl False, of cs r2] rec False by simp
    moreover have "[?p..<length ?cs] = [?p..<?p + n] @ [?p + n..<length ?cs]"
      using False upt_add_eq_append[of ?p "?p + n" "length ?cs - (?p + n)"] by simp
    ultimately show ?thesis using job pos by (simp add: plan_ok_def del: upt_Suc)
  qed
qed

text \<open>Validation and regeneration leave the kind of the seeds as it is.\<close>

lemma mark_invalid_ok:
  assumes "mark_invalid e i ss = (r, ss')"
  shows "(\<forall>sd \<in> set ss. seed_plain sd) \<longrightarrow> (\<forall>sd \<in> set ss'. seed_plain sd)"
proof (cases i)
  case (Some k)
  show ?thesis
  proof (cases "k < length ss")
    case True
    then show ?thesis using assms Some nth_mem[OF True]
      by (cases "ss ! k") (auto simp: mark_invalid_def set_invalid_def dest!: subsetD[OF set_update_subset_insert])
  qed (use assms Some in \<open>auto simp: mark_invalid_def set_invalid_def\<close>)
qed (use assms in \<open>auto simp: mark_invalid_def set_invalid_def\<close>)

lemma open_seeds_plain:
  "open_seeds opener plan ss = (r, ss') \<Longrightarrow> \<forall>sd \<in> set ss. seed_plain sd \<Longrightarrow> \<forall>sd \<in> set ss'. seed_plain sd"
  by (induction plan) (auto split: if_splits res.splits dest: mark_invalid_ok)

lemma validate_plan_plain:
  "validate_plan cr opener plan ss = (r, ss') \<Longrightarrow> \<forall>sd \<in> set ss. seed_plain sd \<Longrightarrow> \<forall>sd \<in> set ss'. seed_plain sd"
  by (induction plan) (auto split: if_splits res.splits dest: mark_invalid_ok)

lemma Plan_Validate_plain:
  assumes "Plan_Validate cr opener plan ss = (r, ss')" "\<forall>sd \<in> set ss. seed_plain sd"
  shows "\<forall>sd \<in> set ss'. seed_plain sd"
proof -
  obtain r1 ss1 where o1: "open_seeds opener plan ss = (r1, ss1)" by (cases "open_seeds opener plan ss")
  then show ?thesis using assms open_seeds_plain[OF o1 assms(2)] validate_plan_plain[of cr opener plan ss1]
    by (cases r1) (auto simp: Plan_Validate_def)
qed

lemma regenerate_seeds_plain:
  "regenerate_seeds g ss = (r, ss') \<Longrightarrow> \<forall>sd \<in> set ss. seed_plain sd \<Longrightarrow> \<forall>sd \<in> set ss'. seed_plain sd"
proof (induction ss arbitrary: r ss')
  case (Cons sd ss)
  have "seed_plain (snd (Seed_RegenerateIndex g sd))"
    using Cons.prems(2) by (cases sd) (auto simp: FileSeed_RegenerateIndex_def split: res.splits prod.splits)
  then show ?case using Cons by (auto split: if_splits res.splits prod.splits)
qed simp

text \<open>A sequencer with a plan for all of its index.\<close>

definition planned :: "Index \<Rightarrow> SeedSegmentCandidate list \<Rightarrow> SeedSequencer \<Rightarrow> bool" where
  "planned idx plan seq \<longleftrightarrow> sq_index seq = idx \<and> plan_ok (sq_seeds seq) (idx_chunks idx) 0 plan"

lemma replan:
  assumes "SeedSequencer_Plan (SeedSequencer_Rewind seq) = (plan, seq')" "idx_chunks (sq_index seq) \<noteq> []"
  shows "planned (sq_index seq) plan seq' \<and> sq_seeds seq' = sq_seeds seq"
  using Plan_ok[OF assms(1)] assms(2) by (auto simp: planned_def SeedSequencer_Rewind_def)

lemma handle_invalid_index: "handle_invalid g action e seq = (r, seq') \<Longrightarrow> sq_index seq' = sq_index seq"
  by (auto simp: handle_invalid_def RegenerateInvalidSeeds_def split: InvalidSeedAction.splits prod.splits)

lemma handle_invalid_plain:
  "handle_invalid g action e seq = (r, seq') \<Longrightarrow> \<forall>sd \<in> set (sq_seeds seq). seed_plain sd \<Longrightarrow>
   \<forall>sd \<in> set (sq_seeds seq'). seed_plain sd"
  by (cases action) (auto simp: handle_invalid_def RegenerateInvalidSeeds_def split: prod.splits dest: regenerate_seeds_plain)

lemma plan_loop_ok:
  assumes "plan_loop cr opener g action k plan seq = Some (Ok plan')" "planned idx plan seq"
    "\<forall>sd \<in> set (sq_seeds seq). seed_plain sd" "idx_chunks idx \<noteq> []"
  shows "\<exists>ss. plan_ok ss (idx_chunks idx) 0 plan' \<and> (\<forall>sd \<in> set ss. seed_plain sd)"
proof -
  let ?P = "\<lambda>plan seq y. planned idx plan seq \<and> (\<forall>sd \<in> set (sq_seeds seq). seed_plain sd) \<longrightarrow>
    (\<forall>plan'. y = Ok plan' \<longrightarrow> (\<exists>ss. plan_ok ss (idx_chunks idx) 0 plan' \<and> (\<forall>sd \<in> set ss. seed_plain sd)))"
  have "?P plan seq (Ok plan')"
    using assms(1)
  proof (rule plan_loop.raw_induct[rotated, where P = "\<lambda>_ _ _ _ _. ?P"], goal_cases)
    case (1 loop cr opener g action k plan seq y)
    show ?case
    proof (intro impI allI)
      fix plan' assume p: "planned idx plan seq \<and> (\<forall>sd \<in> set (sq_seeds seq). seed_plain sd)" and y: "y = Ok plan'"
      obtain r ss where v: "Plan_Validate cr (opener k) plan (sq_seeds seq) = (r, ss)" by (cases "Plan_Validate cr (opener k) plan (sq_seeds seq)")
      have ss: "\<forall>sd \<in> set ss. seed_plain sd" using Plan_Validate_plain[OF v] p by blast
      show "\<exists>ss. plan_ok ss (idx_chunks idx) 0 plan' \<and> (\<forall>sd \<in> set ss. seed_plain sd)"
      proof (cases r)
        case (Ok u)
        then show ?thesis using 1(2) v y p by (auto simp: planned_def)
      next
        case (Err e)
        obtain r1 seq1 where h: "handle_invalid g action e (seq\<lparr>sq_seeds := ss\<rparr>) = (r1, seq1)"
          by (cases "handle_invalid g action e (seq\<lparr>sq_seeds := ss\<rparr>)")
        have seq1: "sq_index seq1 = idx" "\<forall>sd \<in> set (sq_seeds seq1). seed_plain sd"
          using handle_invalid_index[OF h] handle_invalid_plain[OF h] ss p by (simp_all add: planned_def)
        obtain plan1 seq2 where pl: "SeedSequencer_Plan (SeedSequencer_Rewind seq1) = (plan1, seq2)"
          by (cases "SeedSequencer_Plan (SeedSequencer_Rewind seq1)")
        have "planned idx plan1 seq2 \<and> sq_seeds seq2 = sq_seeds seq1" using replan[OF pl] seq1(1) assms(4) by simp
        moreover have "loop cr opener g action (Suc k) plan1 seq2 = Some (Ok plan')"
          using 1(2) v Err h pl y by (cases r1) simp_all
        ultimately show ?thesis using 1(1)[of cr opener g action "Suc k" plan1 seq2 "Ok plan'"] seq1(2) by simp
      qed (use 1(2) v y in simp)
    qed
  qed
  then show ?thesis using assms(2,3) by blast
qed

section \<open>The search for a plan ends\<close>

fun seed_valid :: "seed \<Rightarrow> bool" where
  "seed_valid (NullSeed s) \<longleftrightarrow> False"
| "seed_valid (IndexSeed s) \<longleftrightarrow> \<not> fsd_isInvalid s"

abbreviation valid_count :: "seed list \<Rightarrow> nat" where
  "valid_count ss \<equiv> length (filter seed_valid ss)"

lemma mark_invalid_less:
  assumes "usable_seed ss sd" "mark_invalid e sd ss = (r, ss')"
  shows "valid_count ss' < valid_count ss"
proof -
  obtain i s where i: "sd = Some i" "i < length ss" "ss ! i = IndexSeed s" "\<not> fsd_isInvalid s"
    using assms(1) by (auto simp: usable_seed_def)
  then have ss': "ss' = ss[i := IndexSeed (s\<lparr>fsd_isInvalid := True\<rparr>)]"
    using assms(2) by (simp add: mark_invalid_def set_invalid_def)
  have "filter seed_valid ss = filter seed_valid (take i ss) @ IndexSeed s # filter seed_valid (drop (Suc i) ss)"
    using i by (subst id_take_nth_drop[OF i(2)]) simp
  then show ?thesis unfolding ss' upd_conv_take_nth_drop[OF i(2)] by simp
qed

lemma open_seeds_less:
  "open_seeds opener plan ss = (r, ss') \<Longrightarrow> \<forall>job \<in> set plan. isFileSeed job \<longrightarrow> usable_seed ss (cd_seed job) \<Longrightarrow>
   (r = Ok () \<longrightarrow> ss' = ss) \<and> (\<forall>e. r = Err e \<longrightarrow> valid_count ss' < valid_count ss)"
proof (induction plan)
  case (Cons job plan)
  then show ?case
    by (cases "isFileSeed job"; cases "opener (segment_FileName (the (cd_source job)))")
       (auto simp: mark_invalid_def split: res.splits dest!: mark_invalid_less[unfolded mark_invalid_def])
qed auto

lemma validate_plan_less:
  "validate_plan cr opener plan ss = (Err e, ss') \<Longrightarrow> \<forall>job \<in> set plan. isFileSeed job \<longrightarrow> usable_seed ss (cd_seed job) \<Longrightarrow>
   valid_count ss' < valid_count ss"
  by (induction plan) (auto split: if_splits res.splits dest: mark_invalid_less)

lemma Plan_Validate_less:
  assumes "Plan_Validate cr opener plan ss = (Err e, ss')" "plan_ok ss cs p plan"
  shows "valid_count ss' < valid_count ss"
proof -
  have jobs: "\<forall>job \<in> set plan. isFileSeed job \<longrightarrow> usable_seed ss (cd_seed job)" using assms(2) by (simp add: plan_ok_def)
  obtain r ss1 where o1: "open_seeds opener plan ss = (r, ss1)" by (cases "open_seeds opener plan ss")
  then show ?thesis using assms(1) open_seeds_less[OF o1 jobs] validate_plan_less[of cr opener plan ss e ss'] jobs
    by (cases r) (auto simp: Plan_Validate_def)
qed

lemma plan_loop_terminates:
  assumes "action \<noteq> Regenerate" "planned idx plan seq" "idx_chunks idx \<noteq> []"
  shows "\<exists>r. plan_loop cr opener g action k plan seq = Some r"
  using assms(2)
proof (induction "valid_count (sq_seeds seq)" arbitrary: k plan seq rule: less_induct)
  case less
  obtain r ss where v: "Plan_Validate cr (opener k) plan (sq_seeds seq) = (r, ss)" by (cases "Plan_Validate cr (opener k) plan (sq_seeds seq)")
  show ?case
  proof (cases r)
    case (Err e)
    have smaller: "valid_count ss < valid_count (sq_seeds seq)"
      using Plan_Validate_less v Err less.prems by (auto simp: planned_def)
    obtain plan1 seq2 where pl: "SeedSequencer_Plan (SeedSequencer_Rewind (seq\<lparr>sq_seeds := ss\<rparr>)) = (plan1, seq2)"
      by (cases "SeedSequencer_Plan (SeedSequencer_Rewind (seq\<lparr>sq_seeds := ss\<rparr>))")
    have "planned idx plan1 seq2 \<and> sq_seeds seq2 = ss" using replan[OF pl] less.prems assms(3) by (auto simp: planned_def)
    then have "\<exists>r. plan_loop cr opener g action (Suc k) plan1 seq2 = Some r" using less.hyps[of seq2 plan1 "Suc k"] smaller by simp
    then show ?thesis using assms(1) v Err pl
      by (cases action) (subst plan_loop.simps, simp add: handle_invalid_def)+
  qed (subst plan_loop.simps, simp add: v)+
qed

section \<open>Properties\<close>

lemma contiguous_bounds:
  assumes "contiguous mx 0 cs" "total_size cs < 2 ^ 63" "k < length cs"
  shows "lo (cs ! k) = total_size (take k cs)" "hi (cs ! k) = total_size (take (Suc k) cs)"
proof -
  show l: "lo (cs ! k) = total_size (take k cs)" using contiguous_start[OF assms(1) _ assms(3)] assms(2) by (simp add: lo_def)
  show "hi (cs ! k) = total_size (take (Suc k) cs)"
    using l assms(3) by (simp add: hi_def lo_def total_size_def take_Suc_conv_app_nth)
qed

lemma total_size_take_mono: "j \<le> k \<Longrightarrow> total_size (take j cs) \<le> total_size (take k cs)"
proof -
  assume "j \<le> k"
  then have "take k cs = take j cs @ take (k - j) (drop j cs)" by (metis le_add_diff_inverse take_add)
  then show ?thesis by (simp add: total_size_def)
qed

lemma contiguous_laid_out:
  assumes "contiguous mx 0 cs" "total_size cs < 2 ^ 63"
  shows "laid_out cs (total_size cs)"
  unfolding laid_out_def
proof (intro conjI allI impI)
  fix k assume "k < length cs"
  then show "hi (cs ! k) \<le> total_size cs"
    using contiguous_bounds(2)[OF assms] total_size_take_mono[of "Suc k" "length cs" cs] by simp
next
  fix j k assume "j < length cs" "k < j"
  then show "hi (cs ! k) \<le> lo (cs ! j)"
    using contiguous_bounds[OF assms] total_size_take_mono[of "Suc k" j cs] by simp
qed (fact assms(2))

lemma concat_slices:
  assumes "contiguous mx 0 cs" "total_size cs < 2 ^ 63" "length f = total_size cs" "k \<le> length cs"
  shows "concat (map (\<lambda>c. slice f (lo c) (hi c)) (take k cs)) = take (total_size (take k cs)) f"
  using assms(4)
proof (induction k)
  case (Suc k)
  then have "take (Suc k) cs = take k cs @ [cs ! k]" by (simp add: take_Suc_conv_app_nth)
  moreover have "slice f (total_size (take k cs)) (total_size (take (Suc k) cs)) =
      drop (total_size (take k cs)) (take (total_size (take (Suc k) cs)) f)" by (simp add: slice_def drop_take)
  ultimately show ?case using Suc contiguous_bounds[OF assms(1,2), of k] total_size_take_mono[of k "Suc k" cs]
    by (simp del: take_Suc_conv_app_nth) (metis append_take_drop_id le_iff_add min_absorb1 take_take)
qed (simp add: total_size_def)

lemma prepare_target_length:
  "prepare_target su t len = Ok (isBlank, f) \<Longrightarrow> \<forall>d. t \<noteq> Device d \<Longrightarrow> int (length f) = len"
  by (auto simp: prepare_target_def truncate_target_def truncate_to_def res_simps split: target.splits option.splits if_splits)

lemma newNullChunkSeed_plain: "newNullChunkSeed cr tmp False bs mx = Ok ns \<Longrightarrow> seed_plain (NullSeed ns)"
  by (auto simp: newNullChunkSeed_def res_simps)

lemma initial_plan:
  assumes "SeedSequencer_Plan (NewSeedSequencer idx seeds) = (plan, seq)" "idx_chunks idx \<noteq> []"
  shows "planned idx plan seq \<and> sq_seeds seq = seeds"
  using replan[of "NewSeedSequencer idx seeds" plan seq] assms
  by (simp add: NewSeedSequencer_def SeedSequencer_Rewind_def)

lemma assemble_start_ok:
  assumes "assemble_start a t idx s seeds = Some (Ok (plan, isBlank, st))" "\<forall>d. t \<noteq> Device d" "\<forall>x. \<not> ac_canClone a x"
    "\<forall>sd \<in> set seeds. seed_plain sd" "idx_chunks idx \<noteq> []" "Index_Length idx = int n"
  shows "asm_inv (run_env a isBlank) (idx_chunks idx) n {} st \<and> (\<forall>job \<in> set plan. job_ok (idx_chunks idx) job) \<and>
    job_positions (mset plan) = mset [0..<length (idx_chunks idx)]"
proof -
  obtain f ns plan0 seq where f: "prepare_target (ac_setup a) t (Index_Length idx) = Ok (isBlank, f)"
    and ns: "newNullChunkSeed (ac_codec a) (ac_tempFile a) False (ac_blocksize a) (ChunkSizeMax (idx_index idx)) = Ok ns"
    and st: "st = \<lparr>as_file = \<lparr>tf_data = f, tf_faults = ac_faults a\<rparr>, as_self = newSelfSeed False (ac_name a) idx, as_store = s,
                    as_stats = initial_stats idx (Suc (length seeds)) (ac_blocksize a)\<rparr>"
    and pl: "SeedSequencer_Plan (NewSeedSequencer idx (NullSeed ns # seeds)) = (plan0, seq)"
    and loop: "plan_loop (ac_codec a) (ac_opener a) (ac_regenerate a) (ac_action a) 1 plan0 seq = Some (Ok plan)"
    using assms(1,3) by (auto simp: assemble_start_def Let_def res_simps split: res.splits option.splits prod.splits)
  obtain ss where ss: "plan_ok ss (idx_chunks idx) 0 plan" "\<forall>sd \<in> set ss. seed_plain sd"
    using plan_loop_ok[OF loop, of idx] initial_plan[OF pl assms(5)] newNullChunkSeed_plain[OF ns] assms(4,5) by auto
  have "length f = n" using prepare_target_length[OF f assms(2)] assms(6) by simp
  then have "asm_inv (run_env a isBlank) (idx_chunks idx) n {} st"
    by (simp add: st asm_inv_def run_env_def newSelfSeed_def self_ok_def cache_ok_def)
  moreover have "job_positions (mset plan) = mset (concat (map (\<lambda>job. [seg_first (cd_segment job)..<seg_last (cd_segment job) + 1]) plan))"
    by (induction plan) (simp_all add: job_positions_def del: upt_Suc)
  ultimately show ?thesis using ss by (auto simp: plan_ok_def job_ok_def source_plain_def)
qed

lemma Plan_done: "SeedSequencer_Next r = (c, True, r') \<Longrightarrow> SeedSequencer_Plan r = ([c], r')"
  by (subst SeedSequencer_Plan.simps) simp

lemma Plan_more:
  "SeedSequencer_Next r = (c, False, r') \<Longrightarrow> SeedSequencer_Plan r = (case SeedSequencer_Plan r' of (cs, r) \<Rightarrow> (c # cs, r))"
  by (subst SeedSequencer_Plan.simps) simp

lemma plan_loop_valid:
  "Plan_Validate cr (opener k) plan (sq_seeds seq) = (Ok (), ss) \<Longrightarrow> plan_loop cr opener g action k plan seq = Some (Ok plan)"
  by (subst plan_loop.simps) simp

lemma asm_run_cons:
  "process_job env opener st job = (Ok (), st') \<Longrightarrow> asm_run env (mset jobs) st' r st'' \<Longrightarrow> asm_run env (mset (job # jobs)) st r st''"
  by (simp add: asm_run.step)

text \<open>A sample: two chunks, a zero byte that the null seed provides and one from the store, into a new file.\<close>

definition sample_call :: "unit asm_call" where
  "sample_call = \<lparr>ac_codec = toy_codec, ac_get = serve (NewChunk [1]), ac_clone = (\<lambda>_ _ _ _ _. Err (ErrIO ''not supported'')),
     ac_canClone = (\<lambda>_. False), ac_name = ''out'', ac_blocksize = 4096, ac_action = Skip,
     ac_setup = \<lparr>su_create = None, su_truncate = None, su_open = None\<rparr>, ac_tempFile = Ok (),
     ac_opener = (\<lambda>_ _. Err ErrNotExist), ac_regenerate = (\<lambda>_ _. Err ErrNotExist), ac_faults = [], ac_cancelled = False\<rparr>"

definition sample_blob :: "IndexChunk list \<Rightarrow> Index" where
  "sample_blob cs = \<lparr>idx_index = \<lparr>fi_hdr = \<lparr>h_size = 48, h_type = CaFormatIndex\<rparr>, FeatureFlags = 0, ChunkSizeMin = 1,
       ChunkSizeAvg = 1, ChunkSizeMax = 1\<rparr>, idx_chunks = cs\<rparr>"

definition two_chunks :: "IndexChunk list" where
  "two_chunks = [\<lparr>ic_id = pad_sum [0], ic_start = 0, ic_size = 1\<rparr>, \<lparr>ic_id = pad_sum [1], ic_start = 1, ic_size = 1\<rparr>]"

definition sample_null :: seed where "sample_null = NullSeed \<lparr>ns_id = pad_sum [0], ns_canReflink = False\<rparr>"

definition sample_state :: "Index \<Rightarrow> bytes \<Rightarrow> unit asm_state" where
  "sample_state idx f = \<lparr>as_file = \<lparr>tf_data = f, tf_faults = []\<rparr>, as_self = newSelfSeed False ''out'' idx, as_store = (),
     as_stats = initial_stats idx (Suc 0) 4096\<rparr>"

definition sample_jobs :: "SeedSegmentCandidate list" where
  "sample_jobs =
     [\<lparr>cd_seed = Some 0, cd_source = Some (nullChunkSection 0 1 False),
        cd_segment = \<lparr>seg_index = sample_blob two_chunks, seg_first = 0, seg_last = 0\<rparr>\<rparr>,
      \<lparr>cd_seed = None, cd_source = None, cd_segment = \<lparr>seg_index = sample_blob two_chunks, seg_first = 1, seg_last = 1\<rparr>\<rparr>]"

lemma sample_ids: "pad_sum [1] \<noteq> pad_sum [0]" "pad_sum [1] \<noteq> zero_id" "pad_sum [0] \<noteq> zero_id"
  by (simp_all add: pad_sum_def zero_id_def chunk_id_len_def eval_nat_numeral)

lemma sample_null_seed:
  "newNullChunkSeed toy_codec (Ok ()) False 4096 1 = Ok \<lparr>ns_id = pad_sum [0], ns_canReflink = False\<rparr>"
  by (simp add: newNullChunkSeed_def NewNullChunk_def make_bytes_def max_alloc_def toy_codec_def)

lemma sample_len: "Index_Length (sample_blob two_chunks) = 2" "Index_Length (sample_blob []) = 0"
  by (simp_all add: Index_Length_def sample_blob_def two_chunks_def)

lemma sample_max: "ChunkSizeMax (idx_index (sample_blob cs)) = 1"
  by (simp add: sample_blob_def)

lemma sample_plan:
  "SeedSequencer_Plan (NewSeedSequencer (sample_blob two_chunks) [sample_null]) =
     (sample_jobs, \<lparr>sq_seeds = [sample_null], sq_index = sample_blob two_chunks, sq_current = 2\<rparr>)"
proof -
  let ?r = "\<lparr>sq_seeds = [sample_null], sq_index = sample_blob two_chunks, sq_current = 1\<rparr>"
  note nxt = SeedSequencer_Next_def NewSeedSequencer_def sample_null_def sample_blob_def two_chunks_def null_LongestMatchWith_def
    sample_ids
  have "SeedSequencer_Next (NewSeedSequencer (sample_blob two_chunks) [sample_null]) = (sample_jobs ! 0, False, ?r)"
    by (simp add: nxt sample_jobs_def)
  moreover have "SeedSequencer_Next ?r = (sample_jobs ! 1, True, ?r\<lparr>sq_current := 2\<rparr>)"
    by (simp add: nxt sample_jobs_def)
  ultimately show ?thesis by (simp add: Plan_more Plan_done sample_jobs_def del: One_nat_def)
qed

lemma sample_start:
  "assemble_start sample_call NotExist (sample_blob two_chunks) () [] =
     Some (Ok (sample_jobs, True, sample_state (sample_blob two_chunks) [0, 0]))"
  by (simp add: assemble_start_def prepare_target_def truncate_target_def truncate_to_def sample_len sample_max sample_null_seed
      sample_call_def Let_def numeral_2_eq_2 sample_plan plan_loop_valid Plan_Validate_def isFileSeed_def sample_state_def
      sample_jobs_def flip: sample_null_def)

lemmas sample_run = process_job_def job_from_seed_def job_single_def seg_start_def seg_lengthBytes_def seg_end_def Let_def
  null_WriteInto_def seg_chunks_def read_chunk_def run_env_def sample_call_def sample_state_def sample_blob_def two_chunks_def
  slice_def make_bytes_def max_alloc_def read_at_def record_written_def selfSeed_add_def toy_codec_def newSelfSeed_def
  advance_written.simps add_pos_def writeChunk_def chunk_in_place_def selfSeed_getChunk_def chunk_from_store_def serve_def
  Chunk_Data_def NewChunk_def file_WriteAt_def write_at_def sample_ids sample_jobs_def Chunk_ID_def

lemma sample_finishes: "AssembleFile sample_call NotExist (sample_blob two_chunks) () [] (Ok ()) (Some [0, 1])"
proof -
  let ?run = "asm_run (run_env sample_call True) (mset sample_jobs) (sample_state (sample_blob two_chunks) [0, 0]) (Ok ())"
  have "\<exists>st. ?run st \<and> tf_data (as_file st) = [0, 1]"
    unfolding sample_jobs_def
    by (rule exI, rule conjI, rule asm_run_cons[where opener = "\<lambda>_. Err ErrNotExist"], simp add: sample_run,
      rule asm_run_cons[where opener = "\<lambda>_. Err ErrNotExist"], simp add: sample_run, simp, rule asm_run.finished, simp add: sample_run)
  then show ?thesis using AssembleFile.ran[OF sample_start] by force
qed

lemma AssembleFile_chunks:
  assumes "AssembleFile a t idx s seeds (Ok ()) (Some f)" "\<forall>d. t \<noteq> Device d"
    "verified_store (ac_codec a) (ac_get a)" "\<forall>x. \<not> ac_canClone a x" "\<forall>sd \<in> set seeds. seed_plain sd"
    "contiguous mx 0 (idx_chunks idx)" "total_size (idx_chunks idx) < 2 ^ 63" "idx_chunks idx \<noteq> []"
    "\<forall>c \<in> set (idx_chunks idx). ic_id c \<noteq> zero_id" "\<not> ac_cancelled a"
  shows "\<exists>bs. f = concat bs \<and> map (Digest_Sum (ac_codec a)) bs = map ic_id (idx_chunks idx) \<and>
    map length bs = map (\<lambda>c. unat (ic_size c)) (idx_chunks idx)"
proof -
  let ?cs = "idx_chunks idx" and ?n = "total_size (idx_chunks idx)"
  obtain plan isBlank st st' where start: "assemble_start a t idx s seeds = Some (Ok (plan, isBlank, st))"
    and run: "asm_run (run_env a isBlank) (mset plan) st (Ok ()) st'" and f: "f = tf_data (as_file st')"
    using assms(1) by (auto elim: AssembleFile.cases)
  have lay: "laid_out ?cs ?n" using contiguous_laid_out[OF assms(6,7)] .
  have len: "Index_Length idx = int ?n" using contiguous_Index_Length[OF assms(6,7)] .
  note st = assemble_start_ok[OF start assms(2,4,5,8) len]
  have "asm_ok (run_env a isBlank) ?cs ?n" using lay assms(3,9,10) by (simp add: asm_ok_def run_env_def)
  then have inv: "asm_inv (run_env a isBlank) ?cs ?n {..<length ?cs} st'"
    using asm_run_inv[OF run, of ?cs ?n "{#}"] st by simp
  let ?bs = "map (\<lambda>c. slice f (lo c) (hi c)) ?cs"
  have "f = concat ?bs" using concat_slices[OF assms(6,7), of f "length ?cs"] inv f by (simp add: asm_inv_def)
  moreover have "map (Digest_Sum (ac_codec a)) ?bs = map ic_id ?cs"
    using inv f by (intro nth_equalityI) (auto simp: asm_inv_def in_place_def run_env_def)
  moreover have "map length ?bs = map (\<lambda>c. unat (ic_size c)) ?cs"
    using inv lay f by (intro nth_equalityI) (auto simp: asm_inv_def laid_out_def lo_def hi_def)
  ultimately show ?thesis by blast
qed

text \<open>
  (C2) When a file that is not a device has been assembled without an error, it consists exactly of the
  chunks of the index, one after the other, each with the digest of its identifier and the size of the
  index. This holds whatever the target held before, whatever the seed files hold and however they
  change, in whatever order the workers finish, as long as the store hands out genuine chunks, blocks
  are copied, not cloned, and the context is not cancelled. The index has at least one chunk, its chunks
  are contiguous, and none has the identifier of zero bytes, which stands for no digest.
\<close>

theorem assemble_correct:
  assumes "AssembleFile a t idx s seeds (Ok ()) (Some f)" "\<forall>d. t \<noteq> Device d"
    "verified_store (ac_codec a) (ac_get a)" "\<forall>x. \<not> ac_canClone a x" "\<forall>sd \<in> set seeds. seed_plain sd"
    "contiguous mx 0 (idx_chunks idx)" "total_size (idx_chunks idx) < 2 ^ 63" "idx_chunks idx \<noteq> []"
    "\<forall>c \<in> set (idx_chunks idx). ic_id c \<noteq> zero_id" "\<not> ac_cancelled a"
  shows "\<exists>bs. f = concat bs \<and> map (Digest_Sum (ac_codec a)) bs = map ic_id (idx_chunks idx) \<and>
    map length bs = map (\<lambda>c. unat (ic_size c)) (idx_chunks idx)"
  using assms by (rule AssembleFile_chunks)

theorem assemble_correct_witness:
  "AssembleFile sample_call NotExist (sample_blob two_chunks) () [] (Ok ()) (Some [0, 1]) \<and>
   (\<exists>bs. [0, 1] = concat bs \<and> map (Digest_Sum toy_codec) bs = map ic_id two_chunks \<and>
      map length bs = map (\<lambda>c. unat (ic_size c)) two_chunks)"
proof -
  have "verified_store (ac_codec sample_call) (ac_get sample_call)"
    using serve_verified by (simp add: sample_call_def)
  moreover have "contiguous 1 0 (idx_chunks (sample_blob two_chunks))"
    by (simp add: contiguous.simps sample_blob_def two_chunks_def)
  ultimately have "\<exists>bs. [0, 1] = concat bs \<and> map (Digest_Sum (ac_codec sample_call)) bs = map ic_id (idx_chunks (sample_blob two_chunks)) \<and>
      map length bs = map (\<lambda>c. unat (ic_size c)) (idx_chunks (sample_blob two_chunks))"
    by (intro assemble_correct[OF sample_finishes]) (auto simp: sample_call_def sample_blob_def two_chunks_def sample_ids total_size_def)
  then show ?thesis using sample_finishes by (simp add: sample_call_def sample_blob_def)
qed

text \<open>
  Without the hypothesis about the context the result says nothing: a run whose context is cancelled
  before the first segment leaves the file as it was prepared and reports success.
\<close>

lemma assemble_cancelled_succeeds:
  assumes "ac_cancelled a" "assemble_start a t idx s seeds = Some (Ok (plan, isBlank, st))"
  shows "AssembleFile a t idx s seeds (Ok ()) (Some (tf_data (as_file st)))"
  using assms by (auto intro!: AssembleFile.ran asm_run.cancelled simp: run_env_def)

text \<open>
  (C30) The search for a valid plan for an index that has a chunk ends when invalid seeds are skipped or
  make the operation fail, whatever the seed files hold and however they change between the attempts.
\<close>

theorem assemble_plan_terminates:
  assumes "ac_action a \<noteq> Regenerate" "idx_chunks idx \<noteq> []"
  shows "\<exists>r. assemble_start a t idx s seeds = Some r"
proof -
  have "\<exists>r. plan_loop (ac_codec a) (ac_opener a) (ac_regenerate a) (ac_action a) 1 plan seq = Some r"
    if "SeedSequencer_Plan (NewSeedSequencer idx ss) = (plan, seq)" for ss plan seq
    using plan_loop_terminates[OF assms(1)] initial_plan[OF that assms(2)] assms(2) by blast
  then show ?thesis by (fastforce simp: assemble_start_def Let_def split: res.splits option.splits prod.splits)
qed

theorem assemble_plan_terminates_witness:
  "\<exists>r. assemble_start sample_call (Regular [1]) (sample_blob two_chunks) () [IndexSeed (NewIndexSeed False ''seed'' (sample_blob two_chunks))] = Some r"
  by (rule assemble_plan_terminates) (simp_all add: sample_call_def sample_blob_def two_chunks_def)

lemma best_match_empty: "best_match [] i ss best = best"
proof (induction ss arbitrary: i best)
  case (Cons sd ss)
  have "Seed_LongestMatchWith sd [] = (0, None)"
    by (cases sd) (simp_all add: null_LongestMatchWith_def FileSeed_LongestMatchWith_def)
  then show ?case using Cons by simp
qed simp

lemma empty_plan:
  assumes "idx_chunks idx = []"
  shows "fst (SeedSequencer_Plan (NewSeedSequencer idx ss)) =
    [\<lparr>cd_seed = None, cd_source = None, cd_segment = \<lparr>seg_index = idx, seg_first = 0, seg_last = 0\<rparr>\<rparr>]"
  using assms by (subst SeedSequencer_Plan.simps) (simp add: SeedSequencer_Next_def NewSeedSequencer_def best_match_empty)

text \<open>
  An index without chunks cannot be assembled: the sequencer plans a segment with one chunk for it,
  and the worker that gets it panics.
\<close>

theorem assemble_empty_panics:
  assumes "idx_chunks idx = []" "assemble_start a t idx s seeds = Some (Ok (plan, isBlank, st))"
    "asm_run (run_env a isBlank) (mset plan) st r st'" "\<not> ac_cancelled a"
  shows "\<exists>x. r = Panic x"
proof -
  let ?job = "\<lparr>cd_seed = None, cd_source = None, cd_segment = \<lparr>seg_index = idx, seg_first = 0, seg_last = 0\<rparr>\<rparr>"
  obtain ss plan0 seq where pl: "SeedSequencer_Plan (NewSeedSequencer idx ss) = (plan0, seq)"
    and loop: "plan_loop (ac_codec a) (ac_opener a) (ac_regenerate a) (ac_action a) 1 plan0 seq = Some (Ok plan)"
    using assms(2) by (auto simp: assemble_start_def Let_def res_simps split: res.splits option.splits prod.splits)
  have plan0: "plan0 = [?job]" using empty_plan[OF assms(1), of ss] pl by simp
  then have "plan = [?job]"
    using loop by (subst (asm) plan_loop.simps) (simp add: Plan_Validate_def isFileSeed_def)
  then have run: "asm_run (run_env a isBlank) {#?job#} st r st'" using assms(3) by simp
  have panic: "process_job (run_env a isBlank) opener st ?job = (Panic ''slice bounds out of range'', st)" for opener st
    using assms(1) by (simp add: process_job_def job_single_def seg_chunks_def)
  have "\<not> ae_cancelled (run_env a isBlank)" using assms(4) by (simp add: run_env_def)
  with run show ?thesis by (cases rule: asm_run.cases) (auto simp: panic)
qed


theorem assemble_empty_panics_witness:
  "\<exists>x. AssembleFile sample_call NotExist (sample_blob []) () [] (Panic x) (Some [])"
proof -
  let ?job = "\<lparr>cd_seed = None, cd_source = None, cd_segment = \<lparr>seg_index = sample_blob [], seg_first = 0, seg_last = 0\<rparr>\<rparr>"
    and ?st = "sample_state (sample_blob []) []"
  have plan: "SeedSequencer_Plan (NewSeedSequencer (sample_blob []) ss) = ([?job], snd (SeedSequencer_Plan (NewSeedSequencer (sample_blob []) ss)))" for ss
    using empty_plan[of "sample_blob []" ss] by (simp add: prod_eq_iff sample_blob_def)
  have start: "assemble_start sample_call NotExist (sample_blob []) () [] = Some (Ok ([?job], True, ?st))"
    by (subst assemble_start_def, subst plan)
      (simp add: prepare_target_def truncate_target_def truncate_to_def sample_len sample_max sample_null_seed
      sample_call_def Let_def plan_loop_valid Plan_Validate_def isFileSeed_def sample_state_def)
  obtain r where "process_job (run_env sample_call True) (\<lambda>_. Err ErrNotExist) ?st ?job = (r, ?st)" "r \<noteq> Ok ()"
    by (simp add: process_job_def job_single_def seg_chunks_def sample_blob_def)
  then have run: "asm_run (run_env sample_call True) (mset [?job]) ?st r ?st" by (auto intro: asm_run.failed)
  obtain x where "r = Panic x"
    using assemble_empty_panics[OF _ start run] by (auto simp: sample_blob_def sample_call_def)
  then show ?thesis using AssembleFile.ran[OF start run] by (auto simp: sample_state_def)
qed

end
