(* ===== verification/Make.thy ===== *)
theory Make
  imports Chunker_Props Index Chunk
begin

text \<open>
  Chunking a file in parallel (\<^verbatim>\<open>src/make.go\<close>). Every worker runs a chunker of its own from some
  position of the file, puts the chunks into a channel and compares them with those of a worker
  further on; once both have produced the same chunk it stops and leaves the rest to the other. The
  main routine takes the chunks out of the channels, one worker after the other.

  The state holds the workers with their channels and the point in the code each has reached. A step is
  what a worker does between two operations on shared data (sending to or receiving from a channel,
  closing one, looking at another worker), so that a run is any interleaving of the workers and the main
  routine.
\<close>

section \<open>Workers\<close>

record ChunkingStats =
  ChunksAccepted :: u64
  ChunksProduced :: u64

definition incAccepted :: "ChunkingStats \<Rightarrow> ChunkingStats" where
  "incAccepted s = s\<lparr>ChunksAccepted := ChunksAccepted s + 1\<rparr>"

definition incProduced :: "ChunkingStats \<Rightarrow> ChunkingStats" where
  "incProduced s = s\<lparr>ChunksProduced := ChunksProduced s + 1\<rparr>"

text \<open>
  Where a worker is: at the head of its loop; about to send a chunk; in \<open>syncWith\<close> of the next worker,
  with the local variable \<open>prev\<close>; in the second loop of \<open>syncWith\<close>, with the null bytes counted so far; back
  from \<open>syncWith\<close> with their number; sending null chunks, with the last chunk and how many are left;
  looking whether the next worker is to be skipped; and on its way out, where the deferred calls close
  first \<open>done\<close> and then the channel.
\<close>

datatype program_point =
    AtLoop
  | AtSend IndexChunk
  | AtSync IndexChunk IndexChunk
  | AtNulls IndexChunk u64
  | AtSkip IndexChunk u64
  | AtEmit IndexChunk nat
  | AtCheck
  | AtStop
  | AtClose
  | Exited

record pChunker =
  pc_results :: "IndexChunk list"
  pc_cap :: nat
  pc_closed :: bool
  pc_chunker :: Chunker
  pc_offset :: u64
  pc_done :: bool
  pc_err :: "go_error option"
  pc_next :: "nat option"
  pc_eof :: bool
  pc_sync :: IndexChunk
  pc_at :: program_point

record make_state =
  ms_workers :: "pChunker list"
  ms_current :: nat
  ms_chunks :: "IndexChunk list"
  ms_stats :: ChunkingStats

definition zero_chunk :: IndexChunk where
  "zero_chunk = \<lparr>ic_id = zero_id, ic_start = 0, ic_size = 0\<rparr>"

definition set_worker :: "nat \<Rightarrow> pChunker \<Rightarrow> make_state \<Rightarrow> make_state" where
  "set_worker i w st = st\<lparr>ms_workers := (ms_workers st)[i := w]\<rparr>"

text \<open>A receive that does not block: a chunk, or nothing there, or the zero value from a closed channel.\<close>

datatype received = Received IndexChunk pChunker | Nothing | Closed pChunker

definition receive_sync :: "pChunker \<Rightarrow> received" where
  "receive_sync w =
     (case pc_results w of
        c # rs \<Rightarrow> Received c (w\<lparr>pc_results := rs, pc_sync := c\<rparr>)
      | [] \<Rightarrow> if pc_closed w then Closed (w\<lparr>pc_sync := zero_chunk\<rparr>) else Nothing)"

definition stop :: "pChunker \<Rightarrow> pChunker" where
  "stop w = w\<lparr>pc_done := True\<rparr>"

definition active :: "pChunker \<Rightarrow> bool" where
  "active w = (\<not> pc_done w)"

text \<open>The head of the loop: the next chunk from the chunker.\<close>

definition produce :: "codec_fns \<Rightarrow> pChunker \<Rightarrow> (bool \<times> pChunker) res" where
  "produce cr w =
     bind_res (Chunker_Next (pc_chunker w)) (\<lambda>(start, b, err, c).
       let w = w\<lparr>pc_chunker := c\<rparr> in
       case err of
         Some e \<Rightarrow> Ok (False, w\<lparr>pc_err := Some e, pc_at := AtStop\<rparr>)
       | None \<Rightarrow>
           if b = [] then Ok (True, w\<lparr>pc_eof := True, pc_at := AtStop\<rparr>)
           else Ok (True, w\<lparr>pc_at := AtSend \<lparr>ic_id = Digest_Sum cr b, ic_start = start + pc_offset w, ic_size = ulen b\<rparr>\<rparr>))"

text \<open>One round of \<open>syncWith\<close>; \<open>v\<close> is the next worker. The results are both workers.\<close>

definition syncWith :: "NullChunk \<Rightarrow> pChunker \<Rightarrow> pChunker \<Rightarrow> IndexChunk \<Rightarrow> IndexChunk \<Rightarrow> pChunker \<times> pChunker" where
  "syncWith null w v chunk prev =
     (if ic_start chunk > ic_start (pc_sync v) then
        (case receive_sync v of
           Received c v' \<Rightarrow> (w\<lparr>pc_at := AtSync chunk (pc_sync v)\<rparr>, v')
         | Nothing \<Rightarrow> (w\<lparr>pc_at := AtSkip chunk 0\<rparr>, v)
         | Closed v' \<Rightarrow> (w\<lparr>pc_at := AtSkip chunk 0\<rparr>, v'))
      else if ic_start chunk = ic_start (pc_sync v) \<and> ic_size chunk = ic_size (pc_sync v)
      then (w\<lparr>pc_at := AtStop\<rparr>, v)
      else if ic_id (pc_sync v) = nc_id null \<and> ic_id prev = nc_id null
      then (w\<lparr>pc_at := AtNulls chunk (ic_start prev + ic_size prev - ic_start chunk)\<rparr>, v)
      else (w\<lparr>pc_at := AtSkip chunk 0\<rparr>, v))"

definition count_nulls :: "NullChunk \<Rightarrow> pChunker \<Rightarrow> pChunker \<Rightarrow> IndexChunk \<Rightarrow> u64 \<Rightarrow> pChunker \<times> pChunker" where
  "count_nulls null w v chunk n =
     (case receive_sync v of
        Received c v' \<Rightarrow>
          (w\<lparr>pc_at := (if ic_id c \<noteq> nc_id null then AtSkip chunk n else AtNulls chunk (n + ulen (nc_data null)))\<rparr>, v')
      | Nothing \<Rightarrow> (w\<lparr>pc_at := AtSkip chunk n\<rparr>, v)
      | Closed v' \<Rightarrow> (w\<lparr>pc_at := AtSkip chunk n\<rparr>, v'))"

text \<open>After \<open>syncWith\<close>: jumping over the null bytes.\<close>

definition skip_nulls :: "NullChunk \<Rightarrow> pChunker \<Rightarrow> IndexChunk \<Rightarrow> u64 \<Rightarrow> pChunker res" where
  "skip_nulls null w chunk zeroes =
     (if nc_data null = [] then Panic ''integer divide by zero''
      else let numNullChunks = nat (sint zeroes) div length (nc_data null)
           in if numNullChunks = 0 then Ok (w\<lparr>pc_at := AtCheck\<rparr>)
              else case Chunker_Advance (pc_chunker w) (numNullChunks * length (nc_data null)) of
                (Some e, c) \<Rightarrow> Ok (w\<lparr>pc_chunker := c, pc_err := Some e, pc_at := AtStop\<rparr>)
              | (None, c) \<Rightarrow> Ok (w\<lparr>pc_chunker := c, pc_at := AtEmit chunk numNullChunks\<rparr>))"

definition emit_null :: "NullChunk \<Rightarrow> pChunker \<Rightarrow> IndexChunk \<Rightarrow> nat \<Rightarrow> pChunker" where
  "emit_null null w nc k =
     (let nc = \<lparr>ic_id = nc_id null, ic_start = ic_start nc + ic_size nc, ic_size = ulen (nc_data null)\<rparr>
      in w\<lparr>pc_results := pc_results w @ [nc], pc_at := AtEmit nc k\<rparr>)"

text \<open>One step of worker \<open>i\<close>; \<open>None\<close> when it waits for room in its channel or has left.\<close>

definition pChunker_step :: "codec_fns \<Rightarrow> NullChunk \<Rightarrow> nat \<Rightarrow> make_state \<Rightarrow> make_state res option" where
  "pChunker_step cr null i st =
     (let ws = ms_workers st; w = ws ! i in
      case pc_at w of
        AtLoop \<Rightarrow>
          if pc_done w then Some (Ok (set_worker i (w\<lparr>pc_at := AtStop\<rparr>) st))
          else Some (bind_res (produce cr w) (\<lambda>(produced, w).
            Ok (set_worker i w (if produced then st\<lparr>ms_stats := incProduced (ms_stats st)\<rparr> else st))))
      | AtSend chunk \<Rightarrow>
          if length (pc_results w) < pc_cap w
          then Some (Ok (set_worker i (w\<lparr>pc_results := pc_results w @ [chunk],
                 pc_at := (if pc_next w = None then AtCheck else AtSync chunk zero_chunk)\<rparr>) st))
          else None
      | AtSync chunk prev \<Rightarrow>
          (case pc_next w of
             None \<Rightarrow> Some (Panic ''nil pointer dereference'')
           | Some k \<Rightarrow> (case syncWith null w (ws ! k) chunk prev of (w, v) \<Rightarrow>
               Some (Ok (set_worker i w (set_worker k v st)))))
      | AtNulls chunk n \<Rightarrow>
          (case pc_next w of
             None \<Rightarrow> Some (Panic ''nil pointer dereference'')
           | Some k \<Rightarrow> (case count_nulls null w (ws ! k) chunk n of (w, v) \<Rightarrow>
               Some (Ok (set_worker i w (set_worker k v st)))))
      | AtSkip chunk zeroes \<Rightarrow> Some (bind_res (skip_nulls null w chunk zeroes) (\<lambda>w. Ok (set_worker i w st)))
      | AtEmit nc 0 \<Rightarrow> Some (Ok (set_worker i (w\<lparr>pc_at := AtCheck\<rparr>) st))
      | AtEmit nc (Suc k) \<Rightarrow>
          if length (pc_results w) < pc_cap w then Some (Ok (set_worker i (emit_null null w nc k) st)) else None
      | AtCheck \<Rightarrow>
          (case pc_next w of
             None \<Rightarrow> Some (Ok (set_worker i (w\<lparr>pc_at := AtLoop\<rparr>) st))
           | Some k \<Rightarrow> Some (Ok (set_worker i (w\<lparr>pc_at := AtLoop,
               pc_next := (if \<not> active (ws ! k) \<and> pc_results (ws ! k) = [] then pc_next (ws ! k) else Some k)\<rparr>) st)))
      | AtStop \<Rightarrow> Some (Ok (set_worker i (stop w\<lparr>pc_at := AtClose\<rparr>) st))
      | AtClose \<Rightarrow> Some (Ok (set_worker i (w\<lparr>pc_closed := True, pc_at := Exited\<rparr>) st))
      | Exited \<Rightarrow> None)"

text \<open>
  A worker sees at the head of its loop that the context has been cancelled, or its chunker cannot
  read the file.
\<close>

definition interrupt :: "go_error \<Rightarrow> pChunker \<Rightarrow> pChunker" where
  "interrupt e w = w\<lparr>pc_err := Some e, pc_at := AtStop\<rparr>"

section \<open>The main routine\<close>

datatype main_result = Continue make_state | Return "unit res"

definition main_step :: "make_state \<Rightarrow> main_result option" where
  "main_step st =
     (if ms_current st \<ge> length (ms_workers st) then Some (Return (Ok ()))
      else let w = ms_workers st ! ms_current st in
        case pc_results w of
          c # rs \<Rightarrow> Some (Continue ((set_worker (ms_current st) (w\<lparr>pc_results := rs\<rparr>) st)\<lparr>
              ms_chunks := ms_chunks st @ [c], ms_stats := incAccepted (ms_stats st)\<rparr>))
        | [] \<Rightarrow>
            if \<not> pc_closed w then None
            else case pc_err w of
              Some e \<Rightarrow> Some (Return (Err e))
            | None \<Rightarrow> if pc_eof w then Some (Return (Ok ())) else Some (Continue (st\<lparr>ms_current := ms_current st + 1\<rparr>)))"

text \<open>\<open>stops i e\<close>: worker \<open>i\<close> may at some time be stopped by the error \<open>e\<close>.\<close>

inductive make_run :: "codec_fns \<Rightarrow> NullChunk \<Rightarrow> (nat \<Rightarrow> go_error \<Rightarrow> bool) \<Rightarrow> make_state \<Rightarrow> unit res \<Rightarrow> make_state \<Rightarrow> bool"
  for cr null stops where
  returned: "main_step st = Some (Return r) \<Longrightarrow> make_run cr null stops st r st"
| main: "main_step st = Some (Continue st') \<Longrightarrow> make_run cr null stops st' r st'' \<Longrightarrow>
     make_run cr null stops st r st''"
| worker: "i < length (ms_workers st) \<Longrightarrow> pChunker_step cr null i st = Some (Ok st') \<Longrightarrow>
     make_run cr null stops st' r st'' \<Longrightarrow> make_run cr null stops st r st''"
| panicked: "i < length (ms_workers st) \<Longrightarrow> pChunker_step cr null i st = Some (Panic x) \<Longrightarrow>
     make_run cr null stops st (Panic x) st"
| interrupted: "stops i e \<Longrightarrow> i < length (ms_workers st) \<Longrightarrow> pc_at (ms_workers st ! i) = AtLoop \<Longrightarrow>
     make_run cr null stops (set_worker i (interrupt e (ms_workers st ! i)) st) r st'' \<Longrightarrow>
     make_run cr null stops st r st''"

section \<open>IndexFromFile\<close>

text \<open>
  What the operating system says about the file; the workers open it on their own, and \<open>if_read\<close> is the
  error that a worker's reads may at any time end with.
\<close>

record input_file =
  if_data :: bytes
  if_open :: "go_error option"
  if_size :: "u64 res"
  if_workers :: "nat \<Rightarrow> (nat list \<times> bool) res"
  if_read :: "nat \<Rightarrow> go_error option"

definition make_index :: "bool \<Rightarrow> bytes \<Rightarrow> u64 \<Rightarrow> u64 \<Rightarrow> u64 \<Rightarrow> FormatIndex res" where
  "make_index sha512 data mn avg mx =
     (let flags = CaFormatExcludeNoDump OR (if sha512 then CaFormatSHA512256 else 0);
          idx = (\<lambda>ff. \<lparr>fi_hdr = \<lparr>h_size = 0, h_type = 0\<rparr>, FeatureFlags = ff, ChunkSizeMin = mn, ChunkSizeAvg = avg,
                  ChunkSizeMax = mx\<rparr>)
      in case FormatDecoder_Next (NewFormatDecoder (stream_of data)) of
           Ok (Some (FormatEntry h ff mode flags64 uid gid mt), d) \<Rightarrow> Ok (idx (flags OR ff))
         | Panic x \<Rightarrow> Panic x
         | _ \<Rightarrow> Ok (idx flags))"

text \<open>The number of workers and the distance between them.\<close>

definition worker_count :: "int \<Rightarrow> u64 \<Rightarrow> u64 \<Rightarrow> int res" where
  "worker_count n sz mx =
     (if mx = 0 then Panic ''integer divide by zero''
      else let nn = sz div mx + 1 in Ok (if nn < word_of_int n then sint nn else n))"

definition chan_limit :: nat where
  "chan_limit = max_alloc div 48"

text \<open>
  \<open>sizes\<close> and \<open>eager\<close>: how the reads of the worker's file handle are served, up to the end of the file. A read
  that fails is the rule \<open>interrupted\<close> of \<open>make_run\<close>: the chunker returns its error in place of a chunk, at
  whatever chunk the worker has come to.
\<close>

definition new_worker ::
  "(int \<Rightarrow> u32) \<Rightarrow> input_file \<Rightarrow> u64 \<Rightarrow> u64 \<Rightarrow> u64 \<Rightarrow> u64 \<Rightarrow> u64 \<Rightarrow> nat \<Rightarrow> nat \<Rightarrow> pChunker res" where
  "new_worker conv f sz span mn avg mx n i =
     bind_res (if_workers f i) (\<lambda>(sizes, eager).
     let start = span * word_of_nat i in
     if mn = 0 then Panic ''integer divide by zero''
     else let mChunks = (sz - start) div mn + 1 in
     if sint start < 0 then Err (ErrIO ''invalid argument'')
     else bind_res (NewChunker conv \<lparr>rd_data = drop (unat start) (if_data f), rd_end = EOF, rd_sizes = sizes,
            rd_eager = eager, rd_seeker = True\<rparr> mn avg mx) (\<lambda>c.
     if unat mChunks > chan_limit then Panic ''makechan: size out of range''
     else Ok \<lparr>pc_results = [], pc_cap = unat mChunks, pc_closed = False, pc_chunker = c, pc_offset = start, pc_done = False,
       pc_err = None, pc_next = (if Suc i < n then Some (Suc i) else None), pc_eof = False, pc_sync = zero_chunk,
       pc_at = AtLoop\<rparr>))"

fun new_workers ::
  "(int \<Rightarrow> u32) \<Rightarrow> input_file \<Rightarrow> u64 \<Rightarrow> u64 \<Rightarrow> u64 \<Rightarrow> u64 \<Rightarrow> u64 \<Rightarrow> nat \<Rightarrow> nat list \<Rightarrow> pChunker list res" where
  "new_workers conv f sz span mn avg mx n [] = Ok []"
| "new_workers conv f sz span mn avg mx n (i # is) =
     bind_res (new_worker conv f sz span mn avg mx n i) (\<lambda>w.
     bind_res (new_workers conv f sz span mn avg mx n is) (\<lambda>ws. Ok (w # ws)))"

definition make_start ::
  "(int \<Rightarrow> u32) \<Rightarrow> codec_fns \<Rightarrow> bool \<Rightarrow> input_file \<Rightarrow> int \<Rightarrow> u64 \<Rightarrow> u64 \<Rightarrow> u64 \<Rightarrow> (FormatIndex \<times> NullChunk \<times> make_state) res" where
  "make_start conv cr sha512 f n mn avg mx =
     bind_res (case if_open f of None \<Rightarrow> make_index sha512 (if_data f) mn avg mx | Some e \<Rightarrow> Err e) (\<lambda>index.
     bind_res (if_size f) (\<lambda>sz.
     bind_res (worker_count n sz mx) (\<lambda>n.
     if (word_of_int n :: u64) = 0 then Panic ''integer divide by zero''
     else let span = sz div word_of_int n in
     bind_res (NewNullChunk cr mx) (\<lambda>null.
     if n < 0 then Panic ''makeslice: len out of range''
     else bind_res (new_workers conv f sz span mn avg mx (nat n) [0..<nat n]) (\<lambda>ws.
     Ok (index, null, \<lparr>ms_workers = ws, ms_current = 0, ms_chunks = [], ms_stats = \<lparr>ChunksAccepted = 0, ChunksProduced = 0\<rparr>\<rparr>))))))"

definition stops_with :: "bool \<Rightarrow> input_file \<Rightarrow> nat \<Rightarrow> go_error \<Rightarrow> bool" where
  "stops_with cancelled f i e \<longleftrightarrow> cancelled \<and> e = Interrupted \<or> if_read f i = Some e"

text \<open>The result is the index, complete or not, the statistics and the error.\<close>

inductive IndexFromFile ::
  "(int \<Rightarrow> u32) \<Rightarrow> codec_fns \<Rightarrow> bool \<Rightarrow> bool \<Rightarrow> input_file \<Rightarrow> int \<Rightarrow> u64 \<Rightarrow> u64 \<Rightarrow> u64 \<Rightarrow> unit res \<Rightarrow> Index option \<Rightarrow> bool"
  for conv cr sha512 cancelled f n mn avg mx where
  setup_failed: "make_start conv cr sha512 f n mn avg mx = Err e \<Longrightarrow>
     IndexFromFile conv cr sha512 cancelled f n mn avg mx (Err e) None"
| setup_panicked: "make_start conv cr sha512 f n mn avg mx = Panic x \<Longrightarrow>
     IndexFromFile conv cr sha512 cancelled f n mn avg mx (Panic x) None"
| ran: "make_start conv cr sha512 f n mn avg mx = Ok (index, null, st) \<Longrightarrow> make_run cr null (stops_with cancelled f) st r st' \<Longrightarrow>
     IndexFromFile conv cr sha512 cancelled f n mn avg mx r (Some \<lparr>idx_index = index, idx_chunks = ms_chunks st'\<rparr>)"

end
