(* ===== verification/Make_Cuts.thy ===== *)
theory Make_Cuts
  imports Make
begin

text \<open>
  Where a file is cut into chunks, as positions in the file: the end of the chunk that starts at a
  position is monotone in that position, because a boundary depends on the bytes before it only. This
  is what makes it possible that chunkers which start at different positions meet.
\<close>

section \<open>Positions where a file is cut\<close>

record blob =
  bl_codec :: codec_fns
  bl_bnd :: "u32 \<Rightarrow> bool"
  bl_min :: nat
  bl_max :: nat
  bl_data :: bytes

abbreviation end_of :: "blob \<Rightarrow> nat" where
  "end_of k \<equiv> length (bl_data k)"

text \<open>The end of the chunk that starts at a position, and the chunk.\<close>

definition chunk_end :: "blob \<Rightarrow> nat \<Rightarrow> nat" where
  "chunk_end k p = p + cut_len (bl_bnd k) (bl_min k) (bl_max k) (drop p (bl_data k))"

definition chunk_at :: "blob \<Rightarrow> nat \<Rightarrow> IndexChunk" where
  "chunk_at k p = \<lparr>ic_id = Digest_Sum (bl_codec k) (slice (bl_data k) p (chunk_end k p)), ic_start = word_of_nat p,
     ic_size = word_of_nat (chunk_end k p - p)\<rparr>"

lemma chunk_at_end: "ic_start (chunk_at k p) + ic_size (chunk_at k p) = word_of_nat (chunk_end k p)"
proof -
  have "p \<le> chunk_end k p" by (simp add: chunk_end_def)
  then show ?thesis by (simp add: chunk_at_def flip: of_nat_add)
qed

definition blob_ok :: "blob \<Rightarrow> bool" where
  "blob_ok k \<longleftrightarrow> ChunkerWindowSize \<le> bl_min k \<and> bl_min k < bl_max k \<and> end_of k < 2 ^ 63"

lemma cut_bounds:
  assumes "blob_ok k"
  shows "p < end_of k \<Longrightarrow> p < chunk_end k p" "p \<le> end_of k \<Longrightarrow> chunk_end k p \<le> end_of k" "chunk_end k p \<le> p + bl_max k"
    "end_of k \<le> p \<Longrightarrow> chunk_end k p = p"
  using assms cut_len_bounds(1-3)[of "bl_min k" "bl_max k" "bl_bnd k" "drop p (bl_data k)"]
    cut_len_bounds(4)[of "bl_min k" "bl_max k" "drop p (bl_data k)" "bl_bnd k"]
  by (auto simp: chunk_end_def blob_ok_def cut_len_def)

text \<open>A boundary depends on the 48 bytes before it only, not on where the chunk started.\<close>

lemma boundary_drop:
  assumes "ChunkerWindowSize \<le> q"
  shows "boundary_at b (drop p bs) q = boundary_at b bs (p + q)"
proof -
  have "slice (drop p bs) (q - ChunkerWindowSize) q = slice bs (p + q - ChunkerWindowSize) (p + q)"
    using assms by (simp add: slice_def add.commute)
  then show ?thesis by (simp add: boundary_at_def)
qed

lemma first_boundary_ge:
  assumes "\<forall>q. p \<le> q \<and> q < r \<longrightarrow> \<not> boundary_at b bs q" "r \<le> m"
  shows "r \<le> first_boundary b bs p m"
  using assms by (fastforce simp: first_boundary_def find_Some_iff not_less[symmetric] split: option.splits)

lemma first_boundary_none:
  assumes "p \<le> q" "q < first_boundary b bs p m"
  shows "\<not> boundary_at b bs q"
  using assms
proof (induction "q - p" arbitrary: p)
  case 0
  have "p < m" using 0 first_boundary_unfold(2)[of m p b bs] by (cases "p < m") auto
  then show ?case using 0 first_boundary_unfold(1)[of p m b bs] by (auto split: if_splits)
next
  case (Suc d)
  have pm: "p < m" using Suc.prems Suc.hyps(2) first_boundary_unfold(2)[of m p b bs] by (cases "p < m") auto
  then have "q < first_boundary b bs (Suc p) m"
    using Suc.prems Suc.hyps(2) first_boundary_unfold(1)[OF pm, of b bs] by (auto split: if_splits)
  then show ?case using Suc.hyps by (intro Suc.hyps(1)) auto
qed

lemma cut_mono:
  assumes ok: "blob_ok k" and le: "p \<le> q" "q \<le> end_of k"
  shows "chunk_end k p \<le> chunk_end k q"
proof (cases "chunk_end k p \<le> q")
  case True
  have "q \<le> chunk_end k q" by (simp add: chunk_end_def)
  with True show ?thesis by linarith
next
  case False
  let ?b = "bl_bnd k" and ?D = "bl_data k" and ?mn = "bl_min k" and ?mx = "bl_max k"
  have q: "q < end_of k" using False le cut_bounds(4)[OF ok, of p] cut_bounds(2)[OF ok, of p] by linarith
  have W: "ChunkerWindowSize \<le> ?mn" "?mn < ?mx" using ok by (auto simp: blob_ok_def)
  have p: "chunk_end k p \<le> end_of k" using cut_bounds(2)[OF ok] le by simp
  show ?thesis
  proof (cases "end_of k - q \<le> ?mn")
    case True
    then have "chunk_end k q = end_of k" using q by (simp add: chunk_end_def cut_len_def)
    then show ?thesis using p by simp
  next
    case nq: False
    then have "\<not> end_of k - p \<le> ?mn" using le by simp
    then have cp: "chunk_end k p = p + first_boundary ?b (drop p ?D) (Suc ?mn) (min (end_of k - p) ?mx)"
      by (simp add: chunk_end_def cut_len_def)
    have cq: "chunk_end k q = q + first_boundary ?b (drop q ?D) (Suc ?mn) (min (end_of k - q) ?mx)"
      using nq by (simp add: chunk_end_def cut_len_def)
    have "chunk_end k p - q \<le> first_boundary ?b (drop q ?D) (Suc ?mn) (min (end_of k - q) ?mx)"
    proof (rule first_boundary_ge, intro allI impI)
      fix r assume r: "Suc ?mn \<le> r \<and> r < chunk_end k p - q"
      then have "q + r - p < first_boundary ?b (drop p ?D) (Suc ?mn) (min (end_of k - p) ?mx)" using cp le by linarith
      then have "\<not> boundary_at ?b (drop p ?D) (q + r - p)" using r le by (intro first_boundary_none[where p = "Suc ?mn"]) auto
      moreover have "boundary_at ?b (drop p ?D) (q + r - p) = boundary_at ?b ?D (q + r)"
        using boundary_drop[of "q + r - p" ?b p ?D] r W(1) le by fastforce
      ultimately show "\<not> boundary_at ?b (drop q ?D) r" using r W le by (simp add: boundary_drop)
    next
      show "chunk_end k p - q \<le> min (end_of k - q) ?mx" using cut_bounds(3)[OF ok, of p] le p by (auto simp: diff_le_mono)
    qed
    then show ?thesis using cq by linarith
  qed
qed

text \<open>Where the cut is depends on the next \<open>max\<close> bytes only.\<close>

definition null_at :: "blob \<Rightarrow> nat \<Rightarrow> bool" where
  "null_at k p \<longleftrightarrow> p + bl_max k \<le> end_of k \<and> slice (bl_data k) p (p + bl_max k) = replicate (bl_max k) 0"

lemma cut_len_take:
  assumes "mx \<le> length bs" "mn < mx"
  shows "cut_len b mn mx bs = cut_len b mn mx (take mx bs)"
proof -
  have "first_boundary b (take mx bs @ drop mx bs) (Suc mn) mx = first_boundary b (take mx bs) (Suc mn) mx"
    using assms by (intro first_boundary_append) simp
  then show ?thesis using assms by (simp add: cut_len_def)
qed

lemma cut_null:
  assumes "blob_ok k" "null_at k p" "null_at k q" "chunk_end k p = p + bl_max k"
  shows "chunk_end k q = q + bl_max k"
proof -
  have "cut_len (bl_bnd k) (bl_min k) (bl_max k) (drop r (bl_data k)) =
     cut_len (bl_bnd k) (bl_min k) (bl_max k) (replicate (bl_max k) 0)" if "null_at k r" for r
    using that assms(1) by (subst cut_len_take) (auto simp: null_at_def slice_def blob_ok_def)
  then show ?thesis using assms by (simp add: chunk_end_def)
qed

lemma null_at_sub:
  assumes "0 < bl_max k" "\<forall>j < m. null_at k (p + j * bl_max k)" "p \<le> q" "q + bl_max k \<le> p + m * bl_max k"
  shows "null_at k q"
proof -
  let ?mx = "bl_max k" and ?D = "bl_data k"
  have zero: "x < end_of k \<and> ?D ! x = 0" if x: "p \<le> x" "x < p + m * ?mx" for x
  proof -
    let ?j = "(x - p) div ?mx" and ?r = "(x - p) mod ?mx"
    have j: "?j < m" using x assms(1) by (simp add: div_less_iff_less_mult)
    have xr: "x = p + ?j * ?mx + ?r" using x by (simp add: add.assoc)
    have r: "?r < ?mx" using assms(1) by simp
    have n: "p + ?j * ?mx + ?mx \<le> end_of k" "slice ?D (p + ?j * ?mx) (p + ?j * ?mx + ?mx) = replicate ?mx 0"
      using assms(2) j by (auto simp: null_at_def)
    have "slice ?D (p + ?j * ?mx) (p + ?j * ?mx + ?mx) ! ?r = ?D ! (p + ?j * ?mx + ?r)"
      using r n(1) by (simp add: slice_def)
    then show ?thesis using n r xr by (metis add_less_le_mono nth_replicate order_less_le_trans add_strict_left_mono)
  qed
  have "q + ?mx \<le> end_of k" using zero[of "q + ?mx - 1"] assms(1,3,4) by linarith
  moreover have "slice ?D q (q + ?mx) = replicate ?mx 0"
    using zero assms(3,4) calculation by (intro nth_equalityI) (auto simp: slice_def)
  ultimately show ?thesis by (simp add: null_at_def)
qed

text \<open>Chunks in sequence, from a position up to another.\<close>

fun run_of :: "blob \<Rightarrow> nat \<Rightarrow> IndexChunk list \<Rightarrow> nat \<Rightarrow> bool" where
  "run_of k p [] q \<longleftrightarrow> p = q"
| "run_of k p (c # cs) q \<longleftrightarrow> p < end_of k \<and> c = chunk_at k p \<and> run_of k (chunk_end k p) cs q"

lemma run_of_append: "run_of k p (cs @ ds) q \<longleftrightarrow> (\<exists>r. run_of k p cs r \<and> run_of k r ds q)"
  by (induction cs arbitrary: p) auto

lemma run_of_snoc: "run_of k p cs q \<Longrightarrow> q < end_of k \<Longrightarrow> run_of k p (cs @ [chunk_at k q]) (chunk_end k q)"
  by (auto simp: run_of_append)

lemma unat_position: "blob_ok k \<Longrightarrow> p \<le> end_of k \<Longrightarrow> unat (word_of_nat p :: u64) = p"
  by (simp add: blob_ok_def unat_of_nat take_bit_nat_eq_self)

lemma run_of_hd: "blob_ok k \<Longrightarrow> run_of k p cs q \<Longrightarrow> p = (if cs = [] then q else unat (ic_start (hd cs)))"
  by (cases cs) (auto simp: chunk_at_def unat_position)

lemma run_of_le: "blob_ok k \<Longrightarrow> p \<le> end_of k \<Longrightarrow> run_of k p cs q \<Longrightarrow> p \<le> q \<and> q \<le> end_of k"
proof (induction cs arbitrary: p)
  case (Cons c cs)
  then show ?case using cut_bounds(1,2)[of k p] by fastforce
qed simp

text \<open>The whole file: what one chunker produces.\<close>

lemma chunk_list_run:
  assumes "blob_ok k" "p \<le> end_of k"
  shows "run_of k p (map (\<lambda>(s, b). \<lparr>ic_id = Digest_Sum (bl_codec k) b, ic_start = s, ic_size = ulen b\<rparr>)
     (with_starts (word_of_nat p) (chunk_list (bl_bnd k) (bl_min k) (bl_max k) (drop p (bl_data k))))) (end_of k)"
  using assms(2)
proof (induction "end_of k - p" arbitrary: p rule: less_induct)
  case less
  have lt: "bl_min k < bl_max k" using assms(1) by (simp add: blob_ok_def)
  show ?case
  proof (cases "p = end_of k")
    case True
    then show ?thesis by (simp add: chunk_list.simps)
  next
    case False
    then have p: "p < end_of k" using less.prems by simp
    let ?l = "cut_len (bl_bnd k) (bl_min k) (bl_max k) (drop p (bl_data k))"
    have l: "chunk_end k p = p + ?l" "p < chunk_end k p" "chunk_end k p \<le> end_of k"
      using cut_bounds(1,2)[OF assms(1), of p] p by (auto simp: chunk_end_def)
    have cl: "chunk_list (bl_bnd k) (bl_min k) (bl_max k) (drop p (bl_data k)) =
       take ?l (drop p (bl_data k)) # chunk_list (bl_bnd k) (bl_min k) (bl_max k) (drop (chunk_end k p) (bl_data k))"
      using p lt by (subst chunk_list.simps) (simp add: Let_def l(1) add.commute)
    have tk: "take ?l (drop p (bl_data k)) = slice (bl_data k) p (chunk_end k p)" by (simp add: slice_def l(1))
    have len: "length (slice (bl_data k) p (chunk_end k p)) = chunk_end k p - p" using l by simp
    have w: "(word_of_nat p :: u64) + ulen (slice (bl_data k) p (chunk_end k p)) = word_of_nat (chunk_end k p)"
      using l(2) by (simp add: len flip: of_nat_add)
    show ?thesis using less.hyps[of "chunk_end k p"] l p w by (simp add: cl tk chunk_at_def len)
  qed
qed

lemma run_of_unique: "run_of k p cs q \<Longrightarrow> run_of k p ds r \<Longrightarrow> r = end_of k \<Longrightarrow> (\<exists>es. ds = cs @ es) \<and> (q = end_of k \<longrightarrow> ds = cs)"
proof (induction cs arbitrary: p ds)
  case Nil
  then show ?case by (cases ds) auto
next
  case (Cons c cs)
  then show ?case by (cases ds) auto
qed

end
