(* ===== verification/Make_Workers.thy ===== *)
theory Make_Workers
  imports Make_Cuts
begin

text \<open>
  What holds of a single worker of the parallel chunker of \<^verbatim>\<open>src/make.go\<close>: its chunker stands at a position
  of the file, and its channel holds consecutive chunks that end there.
\<close>

section \<open>Chunkers at a position\<close>

definition chunker_at :: "blob \<Rightarrow> Chunker \<Rightarrow> u64 \<Rightarrow> nat \<Rightarrow> bool" where
  "chunker_at k c off p \<longleftrightarrow> chunker_inv c \<and> rd_end (c_r c) = EOF \<and> is_boundary c = bl_bnd k \<and> unat (c_min c) = bl_min k \<and>
     unat (c_max c) = bl_max k \<and> p \<le> end_of k \<and> remaining c = drop p (bl_data k) \<and> c_start c + off = word_of_nat p"

lemma chunker_at_Next:
  assumes "blob_ok k" "chunker_at k c off p"
  shows "\<exists>c'. Chunker_Next c = Ok (c_start c, slice (bl_data k) p (chunk_end k p), None, c') \<and> chunker_at k c' off (chunk_end k p)"
proof -
  obtain c' where c': "Chunker_Next c = Ok (c_start c, take (chunk_cut c) (remaining c), None, c')" "chunker_inv c'"
    "same_cuts c c'" "remaining c' = drop (chunk_cut c) (remaining c)" "c_start c' = c_start c + word_of_nat (chunk_cut c)"
    "rd_end (c_r c') = EOF"
    using Chunker_Next_spec[of c] assms(2) by (auto simp: chunker_at_def)
  have e: "chunk_end k p = p + chunk_cut c" using assms(2) by (simp add: chunk_end_def chunk_cut_def chunker_at_def)
  have "take (chunk_cut c) (remaining c) = slice (bl_data k) p (chunk_end k p)"
    using assms(2) e by (simp add: chunker_at_def slice_def)
  moreover have "chunker_at k c' off (chunk_end k p)"
    using c' assms cut_bounds(2)[OF assms(1), of p] e
    by (auto simp: chunker_at_def same_cuts_def add.commute add.left_commute)
  ultimately show ?thesis using c'(1) by auto
qed

lemma chunker_at_Advance:
  assumes "chunker_at k c off p" "p + m \<le> end_of k"
  shows "\<exists>c'. Chunker_Advance c m = (None, c') \<and> chunker_at k c' off (p + m)"
proof -
  have r: "c_buf c @ rd_data (c_r c) = drop p (bl_data k)" using assms(1) by (simp add: chunker_at_def remaining_def)
  have len: "m \<le> length (c_buf c) + length (rd_data (c_r c))"
    using arg_cong[OF r, of length] assms by (simp add: chunker_at_def)
  have d: "drop m (c_buf c) @ drop (m - length (c_buf c)) (rd_data (c_r c)) = drop (p + m) (bl_data k)"
    using arg_cong[OF r, of "drop m"] by (simp add: add.commute)
  have st: "c_start c + word_of_nat m + off = word_of_nat (p + m)"
    using assms(1) by (simp add: chunker_at_def add.commute add.left_commute)
  show ?thesis
  proof (cases "m \<le> length (c_buf c)")
    case True
    then show ?thesis using assms d st
      by (auto simp: Chunker_Advance_def Let_def chunker_at_def chunker_inv_def remaining_def is_boundary_def fun_eq_iff)
  next
    case False
    then show ?thesis using assms d st len
      by (auto simp: Chunker_Advance_def Let_def chunker_at_def chunker_inv_def remaining_def is_boundary_def fun_eq_iff)
  qed
qed

section \<open>A worker\<close>

definition nulls_from :: "blob \<Rightarrow> nat \<Rightarrow> nat \<Rightarrow> bool" where
  "nulls_from k p m \<longleftrightarrow> (\<forall>j < m. null_at k (p + j * bl_max k) \<and> chunk_end k (p + j * bl_max k) = p + j * bl_max k + bl_max k)"

text \<open>No other chunk of the file has the identifier of the null chunk.\<close>

definition null_ok :: "blob \<Rightarrow> NullChunk \<Rightarrow> bool" where
  "null_ok k null \<longleftrightarrow> nc_data null = replicate (bl_max k) 0 \<and> nc_id null = Digest_Sum (bl_codec k) (replicate (bl_max k) 0) \<and>
     nc_id null \<noteq> zero_id \<and> (\<forall>p < end_of k. ic_id (chunk_at k p) = nc_id null \<longrightarrow> nulls_from k p 1)"

definition wpos :: "blob \<Rightarrow> pChunker \<Rightarrow> nat" where
  "wpos k w = end_of k - length (remaining (pc_chunker w))"

definition wstart :: "pChunker \<Rightarrow> nat" where
  "wstart w = unat (pc_offset w)"

definition chan_end :: "blob \<Rightarrow> pChunker \<Rightarrow> nat" where
  "chan_end k w =
     (case pc_at w of AtSend c \<Rightarrow> unat (ic_start c) | AtEmit nc j \<Rightarrow> wpos k w - j * bl_max k | _ \<Rightarrow> wpos k w)"

definition chan_start :: "blob \<Rightarrow> pChunker \<Rightarrow> nat" where
  "chan_start k w = (if pc_results w = [] then chan_end k w else unat (ic_start (hd (pc_results w))))"

definition chunk_ok :: "blob \<Rightarrow> pChunker \<Rightarrow> IndexChunk \<Rightarrow> bool" where
  "chunk_ok k w c \<longleftrightarrow> (\<exists>x < end_of k. c = chunk_at k x \<and> chunk_end k x = wpos k w \<and> (x = wstart w \<or> chunk_end k (wstart w) \<le> x))"

fun at_ok :: "blob \<Rightarrow> pChunker \<Rightarrow> program_point \<Rightarrow> bool" where
  "at_ok k w (AtSend c) = chunk_ok k w c"
| "at_ok k w (AtSync c prev) = chunk_ok k w c"
| "at_ok k w (AtNulls c n) = chunk_ok k w c"
| "at_ok k w (AtSkip c z) = (chunk_ok k w c \<and> nulls_from k (wpos k w) (nat (sint z) div bl_max k))"
| "at_ok k w (AtEmit nc j) = (j * bl_max k \<le> wpos k w \<and> nulls_from k (wpos k w - j * bl_max k) j \<and>
     ic_start nc + ic_size nc = word_of_nat (wpos k w - j * bl_max k))"
| "at_ok k w _ = True"

definition leaving :: "pChunker \<Rightarrow> bool" where
  "leaving w \<longleftrightarrow> pc_at w = AtStop \<or> pc_at w = AtClose \<or> pc_at w = Exited"

definition worker_ok :: "blob \<Rightarrow> pChunker \<Rightarrow> bool" where
  "worker_ok k w \<longleftrightarrow> chunker_at k (pc_chunker w) (pc_offset w) (wpos k w) \<and>
     wstart w \<le> chan_start k w \<and> wstart w \<le> wpos k w \<and> run_of k (chan_start k w) (pc_results w) (chan_end k w) \<and> at_ok k w (pc_at w) \<and>
     (wpos k w = wstart w \<or> chunk_end k (wstart w) \<le> wpos k w) \<and>
     (pc_done w \<longleftrightarrow> pc_at w = AtClose \<or> pc_at w = Exited) \<and> (pc_closed w \<longleftrightarrow> pc_at w = Exited) \<and>
     (pc_err w \<noteq> None \<or> pc_eof w \<longrightarrow> leaving w) \<and> (pc_eof w \<longrightarrow> wpos k w = end_of k)"

lemma wpos_chunker_at: "chunker_at k (pc_chunker w) off p \<Longrightarrow> wpos k w = p"
  by (simp add: chunker_at_def wpos_def)

lemmas view_defs = wpos_def wstart_def chan_start_def chan_end_def chunk_ok_def leaving_def

lemma produce_ok:
  assumes "blob_ok k" "worker_ok k w" "pc_at w = AtLoop" "\<not> pc_done w" "produce (bl_codec k) w = Ok (b, w')"
  shows "worker_ok k w' \<and> chan_start k w' = chan_start k w \<and> wpos k w' = chunk_end k (wpos k w) \<and>
    (\<exists>at eof c. w' = w\<lparr>pc_chunker := c, pc_eof := eof, pc_at := at\<rparr> \<and> (if wpos k w = end_of k then at = AtStop \<and> eof
       else \<not> eof \<and> at = AtSend (chunk_at k (wpos k w))))"
proof -
  let ?p = "wpos k w"
  have at: "chunker_at k (pc_chunker w) (pc_offset w) ?p" using assms(2) by (simp add: worker_ok_def)
  obtain c where c: "Chunker_Next (pc_chunker w) = Ok (c_start (pc_chunker w), slice (bl_data k) ?p (chunk_end k ?p), None, c)"
    "chunker_at k c (pc_offset w) (chunk_end k ?p)" using chunker_at_Next[OF assms(1) at] by blast
  have p: "?p \<le> end_of k" using at by (simp add: chunker_at_def)
  have cs: "chan_end k w = ?p" using assms(3) by (simp add: chan_end_def)
  have eof: "\<not> pc_eof w" "pc_err w = None" using assms(2,3) by (auto simp: worker_ok_def leaving_def)
  have wp: "wpos k (w\<lparr>pc_chunker := c, pc_eof := e, pc_at := a\<rparr>) = chunk_end k ?p" for e a
    using c(2) by (simp add: wpos_def chunker_at_def)
  show ?thesis
  proof (cases "?p = end_of k")
    case True
    then have s: "slice (bl_data k) ?p (chunk_end k ?p) = []" by (simp add: slice_def)
    have e: "chunk_end k ?p = ?p" using cut_bounds(4)[OF assms(1)] True by simp
    have w': "w' = w\<lparr>pc_chunker := c, pc_eof := True, pc_at := AtStop\<rparr>"
      using assms(5) c(1) s by (simp add: produce_def Let_def)
    have "chan_end k w' = ?p" using wp[where e = True and a = AtStop] e by (simp add: w' chan_end_def)
    moreover have "chan_start k w' = chan_start k w" using calculation cs by (simp add: w' chan_start_def)
    ultimately have "worker_ok k w'" using assms(2,4) c(2) wp[where e = True and a = AtStop] e cs True assms(3)
      by (simp add: worker_ok_def w' wstart_def leaving_def)
    then show ?thesis using \<open>chan_start k w' = chan_start k w\<close> wp w' True by auto
  next
    case False
    then have lt: "?p < end_of k" using p by simp
    then have g: "?p < chunk_end k ?p" "chunk_end k ?p \<le> end_of k" using cut_bounds(1,2)[OF assms(1), of ?p] by auto
    have s: "slice (bl_data k) ?p (chunk_end k ?p) \<noteq> []" "length (slice (bl_data k) ?p (chunk_end k ?p)) = chunk_end k ?p - ?p"
      using g by (auto simp: slice_def)
    have st: "c_start (pc_chunker w) + pc_offset w = word_of_nat ?p" using at by (simp add: chunker_at_def)
    have "w' = w\<lparr>pc_chunker := c, pc_at := AtSend (chunk_at k ?p)\<rparr>"
      using assms(5) c(1) s by (auto simp: produce_def Let_def chunk_at_def st)
    then have w': "w' = w\<lparr>pc_chunker := c, pc_eof := False, pc_at := AtSend (chunk_at k ?p)\<rparr>" using eof(1) by (cases w) simp
    have "chan_end k w' = ?p" using unat_position[OF assms(1) p] by (simp add: w' chan_end_def chunk_at_def)
    moreover have "chan_start k w' = chan_start k w" using calculation cs by (simp add: w' chan_start_def)
    moreover have "chunk_end k (wstart w) \<le> chunk_end k ?p"
      using assms(2) cut_mono[OF assms(1) _ p] by (simp add: worker_ok_def)
    moreover have "at_ok k w' (AtSend (chunk_at k ?p))"
      using wp[where e = False and a = "AtSend (chunk_at k ?p)"] lt assms(2) unfolding w' by (auto simp: chunk_ok_def worker_ok_def wstart_def)
    ultimately have "worker_ok k w'" using assms(2,4) c(2) wp[where e = False and a = "AtSend (chunk_at k ?p)"] cs eof assms(3) g
      unfolding w' worker_ok_def by (simp add: wstart_def)
    then show ?thesis using \<open>chan_start k w' = chan_start k w\<close> wp w' False by auto
  qed
qed


text \<open>The other steps of a worker that concern only itself.\<close>

lemma send_ok:
  assumes "blob_ok k" "worker_ok k w" "pc_at w = AtSend c"
    "w' = w\<lparr>pc_results := pc_results w @ [c], pc_at := (if pc_next w = None then AtCheck else AtSync c zero_chunk)\<rparr>"
  shows "worker_ok k w' \<and> chan_start k w' = chan_start k w \<and> wpos k w' = wpos k w"
proof -
  obtain x where x: "x < end_of k" "c = chunk_at k x" "chunk_end k x = wpos k w" "x = wstart w \<or> chunk_end k (wstart w) \<le> x"
    using assms(2,3) by (auto simp: worker_ok_def chunk_ok_def)
  have u: "unat (ic_start c) = x" using unat_position[OF assms(1), of x] x by (simp add: chunk_at_def)
  then have e: "chan_end k w = x" using assms(3) by (simp add: chan_end_def)
  have wp: "wpos k w' = wpos k w" "chan_end k w' = wpos k w" by (auto simp: assms(4) chan_end_def wpos_def)
  have cs: "chan_start k w' = chan_start k w" using e u by (simp add: assms(4) chan_start_def)
  have "run_of k (chan_start k w) (pc_results w) x" using assms(2) e by (simp add: worker_ok_def)
  then have "run_of k (chan_start k w') (pc_results w') (chan_end k w')"
    using run_of_snoc[of k _ "pc_results w" x] x(1-3) wp cs by (simp add: assms(4))
  moreover have "at_ok k w' (pc_at w')" using x wp by (auto simp: assms(4) chunk_ok_def wstart_def)
  ultimately have "worker_ok k w'"
    using assms(2,3) wp cs by (simp add: worker_ok_def assms(4) wstart_def leaving_def)
  then show ?thesis using wp cs by simp
qed

lemma skip_ok:
  assumes "blob_ok k" "null_ok k null" "worker_ok k w" "pc_at w = AtSkip c z" "skip_nulls null w c z = Ok w'"
  shows "worker_ok k w' \<and> chan_start k w' = chan_start k w \<and> wpos k w \<le> wpos k w' \<and>
    (\<exists>ch at. w' = w\<lparr>pc_chunker := ch, pc_at := at\<rparr> \<and> (at = AtCheck \<or> (\<exists>nc j. at = AtEmit nc j)))"
proof -
  let ?m = "nat (sint z) div bl_max k" and ?p = "wpos k w"
  have mx: "0 < bl_max k" "length (nc_data null) = bl_max k" using assms(1,2) by (auto simp: blob_ok_def null_ok_def)
  have e: "chan_end k w = ?p" using assms(4) by (simp add: chan_end_def)
  obtain x where x: "x < end_of k" "c = chunk_at k x" "chunk_end k x = ?p" "nulls_from k ?p ?m"
    "x = wstart w \<or> chunk_end k (wstart w) \<le> x"
    using assms(3,4) by (auto simp: worker_ok_def chunk_ok_def)
  show ?thesis
  proof (cases "?m = 0")
    case True
    then have w': "w' = w\<lparr>pc_at := AtCheck\<rparr>" using assms(5) mx by (auto simp: skip_nulls_def Let_def split: if_splits)
    have wp: "wpos k w' = ?p" "chan_end k w' = ?p" by (auto simp: w' chan_end_def wpos_def)
    then have cs: "chan_start k w' = chan_start k w" using e by (simp add: w' chan_start_def)
    then have "worker_ok k w'" using assms(3,4) wp e by (simp add: worker_ok_def w' wstart_def leaving_def)
    moreover have "w' = w\<lparr>pc_chunker := pc_chunker w, pc_at := AtCheck\<rparr>" by (simp add: w')
    moreover have "wpos k w \<le> wpos k w'" using wp by simp
    ultimately show ?thesis using cs by blast
  next
    case False
    have last: "?p + (?m - 1) * bl_max k + bl_max k \<le> end_of k"
      using x(4) False by (auto simp: nulls_from_def null_at_def)
    have fit: "?p + ?m * bl_max k \<le> end_of k" using last False by (cases ?m) auto
    have "chunker_at k (pc_chunker w) (pc_offset w) ?p" using assms(3) by (simp add: worker_ok_def)
    then obtain ch where ch: "Chunker_Advance (pc_chunker w) (?m * bl_max k) = (None, ch)"
      "chunker_at k ch (pc_offset w) (?p + ?m * bl_max k)" using chunker_at_Advance fit by blast
    have w': "w' = w\<lparr>pc_chunker := ch, pc_at := AtEmit c ?m\<rparr>"
      using assms(5) mx False ch(1) by (auto simp: skip_nulls_def Let_def split: if_splits)
    have wp: "wpos k w' = ?p + ?m * bl_max k" using ch(2) by (simp add: w' wpos_def chunker_at_def)
    then have ce: "chan_end k w' = ?p" by (simp add: chan_end_def w')
    then have cs: "chan_start k w' = chan_start k w" using e by (simp add: w' chan_start_def)
    have "x \<le> ?p" using x(3) by (simp add: chunk_end_def flip: x(3))
    then have after: "chunk_end k (wstart w) \<le> ?p" using x(3,5) by auto
    have "ic_start c + ic_size c = word_of_nat ?p" using x(2,3) by (simp only: chunk_at_end)
    then have "at_ok k w' (pc_at w')" using wp x(4) by (simp add: w')
    moreover have "pc_err w = None" "\<not> pc_eof w" using assms(3,4) by (auto simp: worker_ok_def leaving_def)
    ultimately have "worker_ok k w'" using assms(3,4) wp ce cs e ch(2) after
      by (simp add: worker_ok_def w' wstart_def leaving_def)
    then show ?thesis using wp cs w' by auto
  qed
qed

lemma emit_ok:
  assumes "blob_ok k" "null_ok k null" "worker_ok k w" "pc_at w = AtEmit nc (Suc j)" "w' = emit_null null w nc j"
  shows "worker_ok k w' \<and> chan_start k w' = chan_start k w \<and> wpos k w' = wpos k w \<and>
    (\<exists>rs nc. w' = w\<lparr>pc_results := rs, pc_at := AtEmit nc j\<rparr>)"
proof -
  let ?mx = "bl_max k" and ?p = "wpos k w - Suc j * bl_max k"
  have a: "Suc j * ?mx \<le> wpos k w" "nulls_from k ?p (Suc j)" "ic_start nc + ic_size nc = word_of_nat ?p"
    using assms(3,4) by (auto simp: worker_ok_def)
  have n0: "null_at k ?p" "chunk_end k ?p = ?p + ?mx" using a(2) by (auto simp: nulls_from_def)
  have mx: "0 < ?mx" using assms(1) by (simp add: blob_ok_def)
  have p: "?p < end_of k" using n0(1) mx by (simp add: null_at_def)
  have pm: "?p + ?mx = wpos k w - j * ?mx" using a(1) by simp
  let ?c = "\<lparr>ic_id = nc_id null, ic_start = ic_start nc + ic_size nc, ic_size = ulen (nc_data null)\<rparr>"
  have c: "?c = chunk_at k ?p"
    using n0 a(3) assms(2) by (simp add: chunk_at_def null_ok_def null_at_def)
  have w': "w' = w\<lparr>pc_results := pc_results w @ [chunk_at k ?p], pc_at := AtEmit (chunk_at k ?p) j\<rparr>"
    using assms(5) c by (simp add: emit_null_def Let_def)
  have wp: "wpos k w' = wpos k w" by (simp add: w' wpos_def)
  have ce: "chan_end k w = ?p" "chan_end k w' = ?p + ?mx"
    using wp pm assms(4) by (simp_all add: chan_end_def w')
  have u: "unat (ic_start (chunk_at k ?p)) = ?p" using unat_position[OF assms(1), of ?p] p by (simp add: chunk_at_def)
  have cs: "chan_start k w' = chan_start k w" using ce u by (simp add: w' chan_start_def)
  have "run_of k (chan_start k w) (pc_results w) ?p" using assms(3) ce by (simp add: worker_ok_def)
  then have run: "run_of k (chan_start k w') (pc_results w') (chan_end k w')"
    using run_of_snoc[OF _ p, of "chan_start k w" "pc_results w"] n0 ce cs by (simp add: w')
  have "nulls_from k (wpos k w - j * ?mx) j"
    unfolding nulls_from_def
  proof (intro allI impI)
    fix i assume "i < j"
    then have "null_at k (?p + Suc i * ?mx) \<and> chunk_end k (?p + Suc i * ?mx) = ?p + Suc i * ?mx + ?mx"
      using a(2) unfolding nulls_from_def by blast
    moreover have "?p + Suc i * ?mx = wpos k w - j * ?mx + i * ?mx" using pm by simp
    ultimately show "null_at k (wpos k w - j * ?mx + i * ?mx) \<and>
      chunk_end k (wpos k w - j * ?mx + i * ?mx) = wpos k w - j * ?mx + i * ?mx + ?mx" by (simp only:)
  qed
  moreover have "ic_start (chunk_at k ?p) + ic_size (chunk_at k ?p) = word_of_nat (wpos k w - j * ?mx)"
    using n0(2) pm by (simp only: chunk_at_end)
  ultimately have "at_ok k w' (pc_at w')" using wp a(1) by (simp add: w')
  then have "worker_ok k w'" using assms(3,4) wp cs run by (simp add: worker_ok_def w' wstart_def leaving_def)
  then show ?thesis using wp cs w' by auto
qed

end
