(* ===== verification/Make_Pairs.thy ===== *)
theory Make_Pairs
  imports Make_Workers
begin

text \<open>
  A worker of \<^verbatim>\<open>src/make.go\<close> and the next one, whose chunks it compares with its own: both loops of
  \<open>syncWith\<close>.
\<close>

section \<open>Two workers\<close>

text \<open>What was last taken out of a channel by the worker before.\<close>

definition sync_ok :: "blob \<Rightarrow> pChunker \<Rightarrow> bool" where
  "sync_ok k v \<longleftrightarrow>
     pc_sync v = zero_chunk \<and> (chan_start k v = wstart v \<or> pc_closed v \<and> pc_results v = []) \<or>
     (\<exists>q < end_of k. wstart v \<le> q \<and> pc_sync v = chunk_at k q \<and> chunk_end k q = chan_start k v)"

fun link_at :: "blob \<Rightarrow> pChunker \<Rightarrow> program_point \<Rightarrow> bool" where
  "link_at k v (AtSync c prev) = (prev = zero_chunk \<or> (\<exists>q < end_of k. prev = chunk_at k q \<and> q < unat (ic_start c) \<and>
     chunk_end k q < end_of k \<and> pc_sync v = chunk_at k (chunk_end k q)))"
| "link_at k v (AtNulls c n) = (\<exists>q m. q < unat (ic_start c) \<and> unat (ic_start c) \<le> q + bl_max k \<and>
     unat n = q + bl_max k - unat (ic_start c) + m * bl_max k \<and> nulls_from k q (m + 2) \<and> chan_start k v = q + (m + 2) * bl_max k)"
| "link_at k v _ = True"

definition plain :: "program_point \<Rightarrow> bool" where
  "plain a = (case a of AtSend _ \<Rightarrow> False | AtEmit _ _ \<Rightarrow> False | AtClose \<Rightarrow> False | Exited \<Rightarrow> False | _ \<Rightarrow> True)"

lemma wpos_update [simp]:
  "wpos k (w\<lparr>pc_at := a\<rparr>) = wpos k w" "wpos k (w\<lparr>pc_results := rs\<rparr>) = wpos k w" "wpos k (w\<lparr>pc_sync := s\<rparr>) = wpos k w"
  "wpos k (w\<lparr>pc_next := x\<rparr>) = wpos k w" "wpos k (w\<lparr>pc_err := e\<rparr>) = wpos k w" "wpos k (w\<lparr>pc_done := d\<rparr>) = wpos k w"
  "wpos k (w\<lparr>pc_closed := d\<rparr>) = wpos k w" "wpos k (w\<lparr>pc_eof := d\<rparr>) = wpos k w"
  by (simp_all add: wpos_def)

lemma wstart_update [simp]:
  "wstart (w\<lparr>pc_at := a\<rparr>) = wstart w" "wstart (w\<lparr>pc_results := rs\<rparr>) = wstart w" "wstart (w\<lparr>pc_sync := s\<rparr>) = wstart w"
  "wstart (w\<lparr>pc_next := x\<rparr>) = wstart w" "wstart (w\<lparr>pc_err := e\<rparr>) = wstart w" "wstart (w\<lparr>pc_done := d\<rparr>) = wstart w"
  "wstart (w\<lparr>pc_closed := d\<rparr>) = wstart w" "wstart (w\<lparr>pc_eof := d\<rparr>) = wstart w" "wstart (w\<lparr>pc_chunker := c\<rparr>) = wstart w"
  by (simp_all add: wstart_def)

lemma chunk_ok_cong: "wpos k w' = wpos k w \<Longrightarrow> wstart w' = wstart w \<Longrightarrow> chunk_ok k w' c = chunk_ok k w c"
  by (simp add: chunk_ok_def)

lemma at_ok_cong: "wpos k w' = wpos k w \<Longrightarrow> wstart w' = wstart w \<Longrightarrow> at_ok k w' a = at_ok k w a"
  using chunk_ok_cong[of k w' w] by (cases a) auto

lemma chan_end_plain: "plain (pc_at w) \<Longrightarrow> chan_end k w = wpos k w"
  by (cases "pc_at w") (simp_all add: plain_def chan_end_def)

lemma at_change:
  assumes "worker_ok k w" "plain (pc_at w)" "plain a" "at_ok k w a" "w' = w\<lparr>pc_at := a\<rparr>" "\<not> leaving w"
  shows "worker_ok k w' \<and> chan_start k w' = chan_start k w"
proof -
  have ce: "chan_end k w' = chan_end k w" using chan_end_plain[of w k] chan_end_plain[of w' k] assms by simp
  then have cs: "chan_start k w' = chan_start k w" by (simp add: chan_start_def assms(5))
  have "\<not> pc_done w" "\<not> pc_closed w" "pc_err w = None" "\<not> pc_eof w" using assms(1,2,6) by (auto simp: worker_ok_def plain_def leaving_def)
  moreover have "a \<noteq> AtClose" "a \<noteq> Exited" using assms(3) by (auto simp: plain_def)
  ultimately have "worker_ok k w'" using assms(1,4) at_ok_cong[of k w' w a] ce cs by (simp add: worker_ok_def assms(5))
  then show ?thesis using cs by simp
qed

lemma receive_ok:
  assumes "blob_ok k" "worker_ok k v" "pc_results v = c # rs" "v' = v\<lparr>pc_results := rs, pc_sync := s\<rparr>"
  shows "worker_ok k v' \<and> c = chunk_at k (chan_start k v) \<and> chan_start k v < end_of k \<and>
    chan_start k v' = chunk_end k (chan_start k v) \<and> wstart v \<le> chan_start k v"
proof -
  have run: "run_of k (chan_start k v) (c # rs) (chan_end k v)" "wstart v \<le> chan_start k v"
    using assms(2,3) by (auto simp: worker_ok_def)
  have wp: "wpos k v' = wpos k v" "wstart v' = wstart v" by (simp_all add: assms(4))
  have ce: "chan_end k v' = chan_end k v" using wp(1) by (simp add: assms(4) chan_end_def split: program_point.splits)
  have "chunk_end k (chan_start k v) = (if rs = [] then chan_end k v else unat (ic_start (hd rs)))"
    using run_of_hd[OF assms(1), of "chunk_end k (chan_start k v)" rs "chan_end k v"] run by simp
  also have "\<dots> = chan_start k v'" using ce by (cases "rs = []") (auto simp: chan_start_def assms(4))
  finally have cs: "chan_start k v' = chunk_end k (chan_start k v)" ..
  have "wstart v \<le> chunk_end k (chan_start k v)" using run(2) by (simp add: chunk_end_def)
  then have "worker_ok k v'"
    using assms(2) run ce cs at_ok_cong[OF wp] by (simp add: worker_ok_def assms(4) leaving_def)
  then show ?thesis using run cs by simp
qed

lemma zero_chunk_simps [simp]: "ic_start zero_chunk = 0" "ic_size zero_chunk = 0" "ic_id zero_chunk = zero_id"
  by (simp_all add: zero_chunk_def)

lemma chunk_at_start: "blob_ok k \<Longrightarrow> p \<le> end_of k \<Longrightarrow> unat (ic_start (chunk_at k p)) = p"
  by (simp add: chunk_at_def unat_position)

lemma chunk_at_inj: "blob_ok k \<Longrightarrow> p \<le> end_of k \<Longrightarrow> q \<le> end_of k \<Longrightarrow> chunk_at k p = chunk_at k q \<longleftrightarrow> p = q"
  by (metis chunk_at_start)

lemma chunk_at_size: "blob_ok k \<Longrightarrow> p < end_of k \<Longrightarrow> ic_size (chunk_at k p) \<noteq> 0"
proof -
  assume a: "blob_ok k" "p < end_of k"
  have "unat (word_of_nat (chunk_end k p - p) :: u64) = chunk_end k p - p"
    using unat_position[OF a(1), of "chunk_end k p - p"] cut_bounds(2)[OF a(1), of p] a(2) by simp
  then show ?thesis using cut_bounds(1)[OF a] by (auto simp: chunk_at_def)
qed

lemma chunk_at_not_zero: "blob_ok k \<Longrightarrow> p < end_of k \<Longrightarrow> zero_chunk \<noteq> chunk_at k p"
  using chunk_at_size by (metis zero_chunk_simps(2))

lemma sync_ok_receive:
  assumes "blob_ok k" "worker_ok k v" "pc_results v = c # rs"
  shows "sync_ok k (v\<lparr>pc_results := rs, pc_sync := c\<rparr>)"
  using receive_ok[OF assms refl, of c] by (auto simp: sync_ok_def)

lemma sync_ok_closed:
  assumes "pc_results v = []" "pc_closed v"
  shows "sync_ok k (v\<lparr>pc_sync := zero_chunk\<rparr>)"
  using assms by (simp add: sync_ok_def)

text \<open>The count of null bytes is right, so that they can be jumped over.\<close>

lemma nulls_skip:
  assumes "blob_ok k" "q < x" "x \<le> q + bl_max k" "x < end_of k" "nulls_from k q (m + 2)"
    "unat (n :: u64) = q + bl_max k - x + m * bl_max k"
  shows "nulls_from k (chunk_end k x) (nat (sint n) div bl_max k)"
proof -
  let ?mx = "bl_max k" and ?e = "chunk_end k x"
  have mx: "0 < ?mx" using assms(1) by (simp add: blob_ok_def)
  have null: "null_at k (q + j * ?mx)" "chunk_end k (q + j * ?mx) = q + j * ?mx + ?mx" if "j < m + 2" for j
    using assms(5) that by (auto simp: nulls_from_def)
  have fit: "q + (m + 2) * ?mx \<le> end_of k" using null(1)[of "m + 1"] by (simp add: null_at_def algebra_simps)
  have "unat n \<le> q + (m + 2) * ?mx" using assms(6) by simp
  moreover have "end_of k < 2 ^ 63" using assms(1) by (simp add: blob_ok_def)
  ultimately have "unat n < 2 ^ 63" using fit by linarith
  then have s: "nat (sint n) = unat n" using sint_small_u64[of n] by simp
  have "q + ?mx - x < ?mx" using assms(2) mx by linarith
  then have d: "nat (sint n) div ?mx = m" using mx by (simp only: s assms(6)) simp
  have lo: "q + ?mx \<le> ?e" using cut_mono[OF assms(1), of q x] null(2)[of 0] assms(2,4) by simp
  have hi: "?e \<le> q + 2 * ?mx" using cut_bounds(3)[OF assms(1), of x] assms(3) by simp
  show ?thesis unfolding d nulls_from_def
  proof (intro allI impI)
    fix j assume j: "j < m"
    have "(j + 3) * ?mx \<le> (m + 2) * ?mx" using j by (intro mult_le_mono1) simp
    then have "?e + j * ?mx + ?mx \<le> q + (m + 2) * ?mx" using hi by (simp add: algebra_simps)
    then have "null_at k (?e + j * ?mx)"
      using null_at_sub[OF mx, where m = "m + 2" and p = q] null(1) lo by simp
    moreover have "chunk_end k (?e + j * ?mx) = ?e + j * ?mx + ?mx"
      using cut_null[OF assms(1) null(1)[of 0] calculation] null(2)[of 0] by simp
    ultimately show "null_at k (?e + j * ?mx) \<and> chunk_end k (?e + j * ?mx) = ?e + j * ?mx + ?mx" by simp
  qed
qed


text \<open>What a round of \<open>syncWith\<close> does to the two workers.\<close>

definition sync_step :: "blob \<Rightarrow> pChunker \<Rightarrow> pChunker \<Rightarrow> pChunker \<Rightarrow> pChunker \<Rightarrow> bool" where
  "sync_step k w v w' v' \<longleftrightarrow> (\<exists>a rs s. w' = w\<lparr>pc_at := a\<rparr> \<and> v' = v\<lparr>pc_results := rs, pc_sync := s\<rparr> \<and> plain a \<and>
     worker_ok k w' \<and> worker_ok k v' \<and> sync_ok k v' \<and> link_at k v' a \<and> chan_start k w' = chan_start k w \<and>
     (pc_results v = [] \<longrightarrow> rs = [] \<and> chan_start k v' = chan_start k v))"

lemma sync_stepI:
  assumes "w' = w\<lparr>pc_at := a\<rparr>" "v' = v\<lparr>pc_results := rs, pc_sync := s\<rparr>" "plain a" "worker_ok k w \<and> plain (pc_at w) \<and> \<not> leaving w"
    "at_ok k w a" "worker_ok k v'" "sync_ok k v'" "link_at k v' a" "pc_results v = [] \<Longrightarrow> rs = [] \<and> chan_start k v' = chan_start k v"
  shows "sync_step k w v w' v'"
  using assms at_change[of k w a w'] unfolding sync_step_def by blast

lemma sync_step_same:
  assumes "w' = w\<lparr>pc_at := a\<rparr>" "v' = v" "plain a" "worker_ok k w \<and> plain (pc_at w) \<and> \<not> leaving w"
    "at_ok k w a" "worker_ok k v" "sync_ok k v" "link_at k v a"
  shows "sync_step k w v w' v'"
  using assms by (intro sync_stepI[where a = a and rs = "pc_results v" and s = "pc_sync v"]) auto

lemma sync_step_receive:
  assumes "blob_ok k" "worker_ok k v" "pc_results v = c # rs" "w' = w\<lparr>pc_at := a\<rparr>" "v' = v\<lparr>pc_results := rs, pc_sync := c\<rparr>" "plain a"
    "worker_ok k w \<and> plain (pc_at w) \<and> \<not> leaving w" "at_ok k w a" "link_at k v' a"
  shows "sync_step k w v w' v'"
  using assms receive_ok[OF assms(1-3,5)] sync_ok_receive[OF assms(1-3)]
  by (intro sync_stepI[where a = a and rs = rs and s = c]) auto

lemma sync_step_closed:
  assumes "worker_ok k v" "pc_results v = []" "pc_closed v" "w' = w\<lparr>pc_at := a\<rparr>" "v' = v\<lparr>pc_sync := zero_chunk\<rparr>" "plain a"
    "worker_ok k w \<and> plain (pc_at w) \<and> \<not> leaving w" "at_ok k w a" "link_at k v' a"
  shows "sync_step k w v w' v'"
proof -
  have ce: "chan_end k v' = chan_end k v" by (simp add: assms(5) chan_end_def split: program_point.splits)
  then have cs: "chan_start k v' = chan_start k v" by (simp add: assms(5) chan_start_def)
  have wp: "wpos k v' = wpos k v" "wstart v' = wstart v" by (simp_all add: assms(5))
  have "worker_ok k v'" using assms(1) ce cs at_ok_cong[OF wp] by (simp add: worker_ok_def assms(5) leaving_def)
  then show ?thesis using assms cs sync_ok_closed[OF assms(2,3), of k]
    by (intro sync_stepI[where a = a and rs = "[]" and s = zero_chunk]) auto
qed

lemma syncWith_ok:
  assumes ok: "blob_ok k" "null_ok k null" and w: "worker_ok k w" and v: "worker_ok k v" "sync_ok k v" and
    link: "link_at k v (pc_at w)" and at: "pc_at w = AtSync c prev" and step: "syncWith null w v c prev = (w', v')"
    and before: "wstart w < wstart v"
  shows "sync_step k w v w' v' \<and>
    (pc_at w' = AtStop \<longrightarrow> v' = v \<and> wpos k w = chan_start k v \<and> chunk_end k (wstart w) < wpos k w) \<and>
    (chan_start k v' = chan_start k v \<or>
      chan_start k v' = chunk_end k (chan_start k v) \<and> (chan_start k v = wstart v \<or> chan_start k v \<le> wpos k w))"
proof -
  obtain x where x: "x < end_of k" "c = chunk_at k x" "chunk_end k x = wpos k w" "x = wstart w \<or> chunk_end k (wstart w) \<le> x"
    and ck: "chunk_ok k w c" using w at by (auto simp: worker_ok_def chunk_ok_def)
  have ux: "unat (ic_start c) = x" using chunk_at_start[OF ok(1)] x by simp
  have p: "worker_ok k w \<and> plain (pc_at w) \<and> \<not> leaving w" using at w by (auto simp: plain_def leaving_def)
  have sk: "plain (AtSkip c 0)" "at_ok k w (AtSkip c 0)" using ck by (auto simp: plain_def nulls_from_def)
  show ?thesis
  proof (cases "ic_start c > ic_start (pc_sync v)")
    case True
    have real: "(\<exists>q < end_of k. pc_sync v = chunk_at k q \<and> chunk_end k q = chan_start k v \<and> q < x \<and> chan_start k v \<le> wpos k w) \<or>
       pc_sync v = zero_chunk \<and> (chan_start k v = wstart v \<or> pc_results v = [])"
    proof (cases "pc_sync v = zero_chunk")
      case False
      then obtain q where q: "q < end_of k" "pc_sync v = chunk_at k q" "chunk_end k q = chan_start k v"
        using v(2) by (auto simp: sync_ok_def)
      then have lt: "q < x" using True ux chunk_at_start[OF ok(1), of q] by (simp add: word_less_nat_alt)
      have "chan_start k v \<le> wpos k w" using q x cut_mono[OF ok(1), of q x] lt by simp
      with q lt show ?thesis by blast
    qed (use v(2) chunk_at_not_zero[OF ok(1)] in \<open>auto simp: sync_ok_def\<close>)
    show ?thesis
    proof (cases "pc_results v")
      case (Cons c' rs)
      then have w': "w' = w\<lparr>pc_at := AtSync c (pc_sync v)\<rparr>" "v' = v\<lparr>pc_results := rs, pc_sync := c'\<rparr>"
        using step True by (auto simp: syncWith_def receive_sync_def)
      note r = receive_ok[OF ok(1) v(1) Cons w'(2)]
      have "link_at k v' (AtSync c (pc_sync v))" using real r ux Cons w'(2) by auto
      then have "sync_step k w v w' v'" using ck by (intro sync_step_receive[OF ok(1) v(1) Cons w' _ p]) (auto simp: plain_def)
      then show ?thesis using r real Cons w'(1) by auto
    next
      case Nil
      show ?thesis
      proof (cases "pc_closed v")
        case closed: True
        have w': "w' = w\<lparr>pc_at := AtSkip c 0\<rparr>" "v' = v\<lparr>pc_sync := zero_chunk\<rparr>"
          using step True closed Nil by (auto simp: syncWith_def receive_sync_def)
        then have s: "sync_step k w v w' v'" by (intro sync_step_closed[OF v(1) Nil closed w' sk(1) p sk(2)]) simp
        then have "chan_start k v' = chan_start k v" using Nil by (auto simp: sync_step_def)
        with s w' show ?thesis by simp
      next
        case False
        then have w': "w' = w\<lparr>pc_at := AtSkip c 0\<rparr>" "v' = v" using step True Nil by (auto simp: syncWith_def receive_sync_def)
        then show ?thesis using sync_step_same[OF w' sk(1) p sk(2) v] by simp
      qed
    qed
  next
    case notbefore: False
    show ?thesis
    proof (cases "ic_start c = ic_start (pc_sync v) \<and> ic_size c = ic_size (pc_sync v)")
      case True
      then have w': "w' = w\<lparr>pc_at := AtStop\<rparr>" "v' = v" using step notbefore by (auto simp: syncWith_def)
      have "ic_size c \<noteq> 0" using chunk_at_size[OF ok(1)] x by simp
      then have "pc_sync v \<noteq> zero_chunk" using True by auto
      then obtain q where q: "q < end_of k" "pc_sync v = chunk_at k q" "chunk_end k q = chan_start k v" "wstart v \<le> q"
        using v(2) by (auto simp: sync_ok_def)
      have "q = x" using True ux chunk_at_start[OF ok(1), of q] q by simp
      then have "chunk_end k (wstart w) < wpos k w" "wpos k w = chan_start k v"
        using x q before cut_bounds(1)[OF ok(1), of x] by auto
      then show ?thesis using sync_step_same[OF w' _ p _ v] w' by (simp add: plain_def)
    next
      case nomatch: False
      show ?thesis
      proof (cases "ic_id (pc_sync v) = nc_id null \<and> ic_id prev = nc_id null")
        case True
        let ?n = "ic_start prev + ic_size prev - ic_start c" and ?mx = "bl_max k"
        have w': "w' = w\<lparr>pc_at := AtNulls c ?n\<rparr>" "v' = v" using step notbefore nomatch True by (auto simp: syncWith_def)
        have "prev \<noteq> zero_chunk" using True ok(2) by (auto simp: null_ok_def)
        then obtain q where q: "q < end_of k" "prev = chunk_at k q" "q < x" "chunk_end k q < end_of k"
           "pc_sync v = chunk_at k (chunk_end k q)" using link at ux by auto
        have nq: "null_at k q" "chunk_end k q = q + ?mx" using ok(2) q True by (auto simp: null_ok_def nulls_from_def)
        have nn: "null_at k (q + ?mx)" "chunk_end k (q + ?mx) = q + ?mx + ?mx"
          using ok(2) q True nq by (auto simp: null_ok_def nulls_from_def)
        have "pc_sync v \<noteq> zero_chunk" using chunk_at_not_zero[OF ok(1) q(4)] q(5) by metis
        then have cs: "chan_start k v = q + ?mx + ?mx"
          using v(2) q(4,5) chunk_at_inj[OF ok(1)] nn(2) nq(2) by (auto simp: sync_ok_def)
        have xq: "x \<le> q + ?mx" using notbefore ux q(4,5) nq(2) chunk_at_start[OF ok(1), of "q + ?mx"]
          by (simp add: word_less_nat_alt)
        have "ic_start prev + ic_size prev = word_of_nat (q + ?mx)" using q(2) nq(2) by (simp only: chunk_at_end)
        then have "?n = word_of_nat (q + ?mx - x)" using xq x(2) by (simp add: chunk_at_def of_nat_diff)
        then have un: "unat ?n = q + ?mx - x" using unat_position[OF ok(1), of "q + ?mx - x"] q(4) nq(2) by simp
        have "nulls_from k q 2" using nq nn by (auto simp: nulls_from_def less_2_cases_iff)
        then have "link_at k v (AtNulls c ?n)" unfolding link_at.simps using un xq q(3) cs ux
          by - (rule exI[of _ q], rule exI[of _ 0], simp add: numeral_2_eq_2)
        then show ?thesis using sync_step_same[OF w' _ p _ v] ck w' by (simp add: plain_def)
      next
        case False
        then have w': "w' = w\<lparr>pc_at := AtSkip c 0\<rparr>" "v' = v" using step notbefore nomatch by (auto simp: syncWith_def)
        then show ?thesis using sync_step_same[OF w' sk(1) p sk(2) v] by simp
      qed
    qed
  qed
qed

lemma count_nulls_ok:
  assumes ok: "blob_ok k" "null_ok k null" and w: "worker_ok k w" and v: "worker_ok k v" "sync_ok k v" and
    link: "link_at k v (pc_at w)" and at: "pc_at w = AtNulls c n" and step: "count_nulls null w v c n = (w', v')"
  shows "sync_step k w v w' v' \<and> pc_at w' \<noteq> AtStop"
proof -
  let ?mx = "bl_max k"
  obtain x where x: "x < end_of k" "c = chunk_at k x" "chunk_end k x = wpos k w" and ck: "chunk_ok k w c"
    using w at by (auto simp: worker_ok_def chunk_ok_def)
  have ux: "unat (ic_start c) = x" using chunk_at_start[OF ok(1)] x by simp
  obtain q m where q: "q < x" "x \<le> q + ?mx" "unat n = q + ?mx - x + m * ?mx" "nulls_from k q (m + 2)"
    "chan_start k v = q + (m + 2) * ?mx" using link at ux by auto
  have p: "worker_ok k w \<and> plain (pc_at w) \<and> \<not> leaving w" using at w by (auto simp: plain_def leaving_def)
  have sk: "plain (AtSkip c n)" "at_ok k w (AtSkip c n)"
    using nulls_skip[OF ok(1) q(1,2) x(1) q(4,3)] x(3) ck by (auto simp: plain_def)
  show ?thesis
  proof (cases "pc_results v")
    case (Cons c' rs)
    let ?a = "if ic_id c' \<noteq> nc_id null then AtSkip c n else AtNulls c (n + ulen (nc_data null))"
    have w': "w' = w\<lparr>pc_at := ?a\<rparr>" "v' = v\<lparr>pc_results := rs, pc_sync := c'\<rparr>"
      using step Cons by (auto simp: count_nulls_def receive_sync_def)
    note r = receive_ok[OF ok(1) v(1) Cons w'(2)]
    have "link_at k v' ?a"
    proof (cases "ic_id c' = nc_id null")
      case True
      then have n1: "nulls_from k (q + (m + 2) * ?mx) 1" using ok(2) r q(5) by (auto simp: null_ok_def)
      have "nulls_from k q (Suc m + 2)"
        unfolding nulls_from_def
      proof (intro allI impI)
        fix j assume "j < Suc m + 2"
        then show "null_at k (q + j * ?mx) \<and> chunk_end k (q + j * ?mx) = q + j * ?mx + ?mx"
          using q(4) n1 by (cases "j = m + 2") (auto simp: nulls_from_def)
      qed
      moreover have "q + m * ?mx + 3 * ?mx \<le> end_of k" "end_of k < 2 ^ 63" "unat n \<le> q + ?mx + m * ?mx"
        using n1 ok(1) q(3) by (auto simp: nulls_from_def null_at_def blob_ok_def algebra_simps)
      then have "unat n + ?mx < 2 ^ 63" by linarith
      then have "unat (n + ulen (nc_data null)) = q + ?mx - x + Suc m * ?mx"
        using q(3) ok(2) unat_add_small[of n "word_of_nat ?mx"] by (simp add: null_ok_def unat_of_nat take_bit_nat_eq_self)
      moreover have "chan_start k v' = q + (Suc m + 2) * ?mx" using r q(5) n1 by (simp add: nulls_from_def)
      ultimately show ?thesis using True ux q(1,2) by (auto simp del: mult_Suc)
    qed simp
    moreover have "plain ?a" "at_ok k w ?a" using sk ck by (auto simp: plain_def)
    ultimately show ?thesis using sync_step_receive[OF ok(1) v(1) Cons w' _ p] w'(1) by auto
  next
    case Nil
    show ?thesis
    proof (cases "pc_closed v")
      case True
      have w': "w' = w\<lparr>pc_at := AtSkip c n\<rparr>" "v' = v\<lparr>pc_sync := zero_chunk\<rparr>"
        using step True Nil by (auto simp: count_nulls_def receive_sync_def)
      then show ?thesis using sync_step_closed[OF v(1) Nil True w' sk(1) p sk(2)] by simp
    next
      case False
      then have w': "w' = w\<lparr>pc_at := AtSkip c n\<rparr>" "v' = v" using step Nil by (auto simp: count_nulls_def receive_sync_def)
      then show ?thesis using sync_step_same[OF w' sk(1) p sk(2) v] by simp
    qed
  qed
qed

end
