(* ===== verification/Make_Links.thy ===== *)
theory Make_Links
  imports Make_Pairs
begin

text \<open>
  The invariant of all workers of \<^verbatim>\<open>src/make.go\<close> and of the main routine, and that the kinds of steps keep it.
\<close>

section \<open>All workers\<close>

definition nx :: "nat \<Rightarrow> pChunker \<Rightarrow> nat" where
  "nx n w = (case pc_next w of None \<Rightarrow> n | Some v \<Rightarrow> v)"

definition idle :: "pChunker \<Rightarrow> bool" where
  "idle w \<longleftrightarrow> pc_done w \<and> pc_results w = []"

text \<open>A worker that leaves because the next one goes on with the same chunks.\<close>

definition synced :: "pChunker \<Rightarrow> bool" where
  "synced w \<longleftrightarrow> leaving w \<and> pc_err w = None \<and> \<not> pc_eof w"

text \<open>
  The workers are a function of their number here. \<open>passed\<close>: another one before it, from \<open>l\<close> on, has
  skipped a worker.
\<close>

type_synonym workers = "nat \<Rightarrow> pChunker"

definition passed :: "nat \<Rightarrow> workers \<Rightarrow> nat \<Rightarrow> nat \<Rightarrow> bool" where
  "passed n W l i \<longleftrightarrow> (\<exists>j. l \<le> j \<and> j < i \<and> i < nx n (W j))"

definition links_ok :: "nat \<Rightarrow> workers \<Rightarrow> nat \<Rightarrow> bool" where
  "links_ok n W l \<longleftrightarrow> (\<forall>i v. i < n \<longrightarrow> pc_next (W i) = Some v \<longrightarrow> i < v \<and> v < n) \<and>
     (\<forall>i u. l \<le> i \<longrightarrow> i < n \<longrightarrow> i < u \<longrightarrow> u < nx n (W i) \<longrightarrow> idle (W u) \<and> nx n (W u) \<le> nx n (W i))"

definition joins_ok :: "blob \<Rightarrow> nat \<Rightarrow> workers \<Rightarrow> nat \<Rightarrow> bool" where
  "joins_ok k n W l \<longleftrightarrow> (\<forall>i. l \<le> i \<longrightarrow> i < n \<longrightarrow> synced (W i) \<longrightarrow> \<not> passed n W l i \<longrightarrow>
     (\<exists>v. pc_next (W i) = Some v \<and> wpos k (W i) = chan_start k (W v)))"

definition pairs_ok :: "blob \<Rightarrow> nat \<Rightarrow> workers \<Rightarrow> nat \<Rightarrow> bool" where
  "pairs_ok k n W l \<longleftrightarrow> (\<forall>v. l < v \<longrightarrow> v < n \<longrightarrow> sync_ok k (W v)) \<and>
     (\<forall>i v. l \<le> i \<longrightarrow> i < n \<longrightarrow> pc_next (W i) = Some v \<longrightarrow> link_at k (W v) (pc_at (W i)))"

text \<open>
  The invariant. Worker \<open>l\<close> is the one whose chunks continue those that were accepted; the workers
  before it have nothing left.
\<close>

definition make_inv :: "blob \<Rightarrow> nat \<Rightarrow> nat \<Rightarrow> workers \<Rightarrow> nat \<Rightarrow> IndexChunk list \<Rightarrow> bool" where
  "make_inv k l n W cur acc \<longleftrightarrow> l < n \<and> cur \<le> l \<and> (\<forall>i < n. worker_ok k (W i)) \<and>
     (\<forall>i j. i < j \<longrightarrow> j < n \<longrightarrow> wstart (W i) < wstart (W j)) \<and> (\<forall>u < l. idle (W u)) \<and>
     links_ok n W l \<and> pairs_ok k n W l \<and> joins_ok k n W l \<and> run_of k 0 acc (chan_start k (W l))"

lemma make_invD:
  assumes "make_inv k l n W cur acc"
  shows "l < n" "cur \<le> l" "i < n \<Longrightarrow> worker_ok k (W i)" "i < j \<Longrightarrow> j < n \<Longrightarrow> wstart (W i) < wstart (W j)"
    "u < l \<Longrightarrow> idle (W u)" "links_ok n W l" "pairs_ok k n W l" "joins_ok k n W l" "run_of k 0 acc (chan_start k (W l))"
  using assms unfolding make_inv_def by blast+

lemma make_invI:
  assumes "l < n" "cur \<le> l" "\<And>i. i < n \<Longrightarrow> worker_ok k (W i)" "\<And>i j. i < j \<Longrightarrow> j < n \<Longrightarrow> wstart (W i) < wstart (W j)"
    "\<And>u. u < l \<Longrightarrow> idle (W u)" "links_ok n W l" "pairs_ok k n W l" "joins_ok k n W l" "run_of k 0 acc (chan_start k (W l))"
  shows "make_inv k l n W cur acc"
  using assms unfolding make_inv_def by blast

lemma pairs_okD:
  assumes "pairs_ok k n W l"
  shows "l < v \<Longrightarrow> v < n \<Longrightarrow> sync_ok k (W v)"
    "l \<le> i \<Longrightarrow> i < n \<Longrightarrow> pc_next (W i) = Some v \<Longrightarrow> link_at k (W v) (pc_at (W i))"
  using assms unfolding pairs_ok_def by blast+

lemma joins_okE:
  assumes "joins_ok k n W l" "l \<le> i" "i < n" "synced (W i)" "\<not> passed n W l i"
  obtains v where "pc_next (W i) = Some v" "wpos k (W i) = chan_start k (W v)"
  using assms unfolding joins_ok_def by blast

lemma links_next:
  assumes "links_ok n W l" "i < n" "pc_next (W i) = Some v"
  shows "i < v" "v < n" "nx n (W i) = v"
proof -
  show "i < v" "v < n" using assms unfolding links_ok_def by blast+
qed (use assms(3) in \<open>simp add: nx_def\<close>)

lemma nx_bounds:
  assumes "links_ok n W l" "i < n"
  shows "i < nx n (W i)" "nx n (W i) \<le> n" "pc_next (W i) = Some v \<Longrightarrow> nx n (W i) = v"
proof -
  have "i < v \<and> v < n" if "pc_next (W i) = Some v" for v using assms that unfolding links_ok_def by blast
  then show "i < nx n (W i)" "nx n (W i) \<le> n" using assms(2) by (cases "pc_next (W i)", force simp: nx_def, force simp: nx_def)+
qed (simp add: nx_def)

lemma links_between:
  assumes "links_ok n W l" "l \<le> i" "i < n" "i < u" "u < nx n (W i)"
  shows "idle (W u)" "nx n (W u) \<le> nx n (W i)"
  using assms unfolding links_ok_def by blast+

text \<open>A worker that has not left is not skipped, and it is the only one that looks at its next worker.\<close>

lemma running_not_passed:
  assumes "links_ok n W l" "i < n" "\<not> pc_done (W i)"
  shows "\<not> passed n W l i"
proof
  assume "passed n W l i"
  then obtain j where "l \<le> j" "j < i" "i < nx n (W j)" by (auto simp: passed_def)
  then show False using links_between(1)[OF assms(1), of j i] assms(2,3) by (simp add: idle_def)
qed

lemma only_consumer:
  assumes "links_ok n W l" "i < n" "l \<le> i" "\<not> pc_done (W i)" "pc_next (W i) = Some v"
    "j < n" "l \<le> j" "j \<noteq> i" "pc_next (W j) = Some v"
  shows "pc_done (W j) \<and> passed n W l j"
proof -
  have v: "nx n (W i) = v" "nx n (W j) = v" "i < v" "j < v"
    using nx_bounds[OF assms(1,2)] nx_bounds[OF assms(1,6)] assms(5,9) by auto
  show ?thesis
  proof (cases "j < i")
    case True
    then show ?thesis using links_between(1)[OF assms(1,7,6) True] v assms(4) by (simp add: idle_def)
  next
    case False
    then have j: "i < j" using assms(8) by simp
    then show ?thesis using links_between(1)[OF assms(1,3,2) j] v assms(3) by (auto simp: passed_def idle_def)
  qed
qed

lemma link_at_cong: "pc_sync v' = pc_sync v \<Longrightarrow> chan_start k v' = chan_start k v \<Longrightarrow> link_at k v' a = link_at k v a"
  by (cases a) auto

text \<open>Steps that a worker takes on its own.\<close>

lemma inv_local:
  assumes inv: "make_inv k l n W cur acc" and i: "i < n" and
    same: "worker_ok k w'" "chan_start k w' = chan_start k (W i)" "pc_sync w' = pc_sync (W i)" "wstart w' = wstart (W i)"
      "pc_next w' = pc_next (W i)" and
    idle: "idle (W i) \<Longrightarrow> idle w'" "pc_closed (W i) \<Longrightarrow> pc_closed w' \<and> pc_results w' = pc_results (W i)" and
    link: "\<And>v. l \<le> i \<Longrightarrow> pc_next (W i) = Some v \<Longrightarrow> link_at k (W v) (pc_at w')" and
    synced: "synced w' \<Longrightarrow> synced (W i) \<and> wpos k w' = wpos k (W i)"
  shows "make_inv k l n (W(i := w')) cur acc"
proof -
  let ?W = "W(i := w')"
  have n: "nx n (?W j) = nx n (W j)" "pc_next (?W j) = pc_next (W j)" "wstart (?W j) = wstart (W j)"
    "chan_start k (?W j) = chan_start k (W j)" "idle (W j) \<longrightarrow> idle (?W j)" "pc_sync (?W j) = pc_sync (W j)" for j
    using same idle by (auto simp: nx_def)
  have sync: "sync_ok k (?W v)" if "sync_ok k (W v)" for v
    using that idle(2) same unfolding sync_ok_def by (auto simp: n)
  note D = make_invD[OF inv]
  have "links_ok n ?W l" using D(6) unfolding links_ok_def by (metis n(1,2,5))
  moreover have "pairs_ok k n ?W l"
    unfolding pairs_ok_def
  proof (intro conjI allI impI)
    show "sync_ok k (?W v)" if "l < v" "v < n" for v using sync pairs_okD(1)[OF D(7) that] .
    show "link_at k (?W v) (pc_at (?W j))" if "l \<le> j" "j < n" "pc_next (?W j) = Some v" for j v
    proof -
      have "pc_next (W j) = Some v" using that(3) unfolding n(2) .
      then have "link_at k (W v) (pc_at (?W j))" using link pairs_okD(2)[OF D(7) that(1,2)] that(1) by (cases "j = i") auto
      then show ?thesis using link_at_cong[of "?W v" "W v"] n by simp
    qed
  qed
  moreover have "joins_ok k n ?W l"
    unfolding joins_ok_def
  proof (intro allI impI)
    fix j assume j: "l \<le> j" "j < n" "synced (?W j)" "\<not> passed n ?W l j"
    have "synced (W j)" "wpos k (?W j) = wpos k (W j)" using j(3) synced by (cases "j = i", simp_all)+
    moreover have "\<not> passed n W l j" using j(4) unfolding passed_def n(1) .
    ultimately show "\<exists>v. pc_next (?W j) = Some v \<and> wpos k (?W j) = chan_start k (?W v)"
      using joins_okE[OF D(8) j(1,2)] n(2,4) by metis
  qed
  moreover have "worker_ok k (?W j)" if "j < n" for j using D(3)[OF that] same(1) by simp
  ultimately show ?thesis using D(1,2,4,5,9) n by (intro make_invI) auto
qed

text \<open>A worker looks at the next one.\<close>

lemma inv_pair:
  assumes inv: "make_inv k l n W cur acc" and i: "i < n" "l \<le> i" "\<not> pc_done (W i)" "pc_next (W i) = Some v" and
    step: "sync_step k (W i) (W v) w' v'" and stop: "pc_at w' = AtStop \<Longrightarrow> wpos k (W i) = chan_start k v'" and notstop: "pc_at (W i) \<noteq> AtStop"
  shows "make_inv k l n (W(v := v', i := w')) cur acc"
proof -
  let ?W = "W(v := v', i := w')"
  obtain a rs s where s: "w' = (W i)\<lparr>pc_at := a\<rparr>" "v' = (W v)\<lparr>pc_results := rs, pc_sync := s\<rparr>" "plain a" "worker_ok k w'"
    "worker_ok k v'" "sync_ok k v'" "link_at k v' a" "chan_start k w' = chan_start k (W i)"
    "pc_results (W v) = [] \<longrightarrow> rs = [] \<and> chan_start k v' = chan_start k (W v)"
    using step unfolding sync_step_def by blast
  note D = make_invD[OF inv]
  note L = D(6)
  note v = links_next(1,2)[OF L i(1,4)]
  have n: "nx n (?W j) = nx n (W j)" "pc_next (?W j) = pc_next (W j)" "wstart (?W j) = wstart (W j)" "wpos k (?W j) = wpos k (W j)"
    "idle (W j) \<longrightarrow> idle (?W j)" "j \<noteq> i \<longrightarrow> pc_at (?W j) = pc_at (W j)" "j \<noteq> i \<longrightarrow> synced (?W j) = synced (W j)" for j
    using s v by (auto simp: nx_def idle_def synced_def leaving_def)
  have "links_ok n ?W l" using L unfolding links_ok_def by (metis n(1,2,5))
  moreover have "pairs_ok k n ?W l"
    unfolding pairs_ok_def
  proof (intro conjI allI impI)
    show "sync_ok k (?W u)" if "l < u" "u < n" for u
    proof -
      have "sync_ok k (W u)" using pairs_okD(1)[OF D(7) that] .
      then have "sync_ok k w'" if "u = i" using s(1,8) that by (simp add: sync_ok_def)
      then show ?thesis using \<open>sync_ok k (W u)\<close> s(6) by simp
    qed
    show "link_at k (?W u) (pc_at (?W j))" if j: "l \<le> j" "j < n" "pc_next (?W j) = Some u" for j u
    proof (cases "j = i")
      case True
      then show ?thesis using j i(4) s v by (simp add: n)
    next
      case False
      have nu: "pc_next (W j) = Some u" using j(3) unfolding n(2) .
      have lk: "link_at k (W u) (pc_at (W j))" using pairs_okD(2)[OF D(7) j(1,2) nu] .
      show ?thesis
      proof (cases "u = v")
        case True
        then have "pc_done (W j)" using only_consumer[OF L i(1-4) j(2,1) False] nu by simp
        then have "pc_at (W j) = AtClose \<or> pc_at (W j) = Exited" using D(3)[OF j(2)] by (simp add: worker_ok_def)
        then show ?thesis using False n(6)[of j] by auto
      next
        case nv: False
        have "link_at k (?W u) (pc_at (W j)) = link_at k (W u) (pc_at (W j))"
          using nv s(1,8) by (intro link_at_cong) auto
        then show ?thesis using lk False n(6)[of j] by simp
      qed
    qed
  qed
  moreover have "joins_ok k n ?W l"
    unfolding joins_ok_def
  proof (intro allI impI)
    fix j assume j: "l \<le> j" "j < n" "synced (?W j)" "\<not> passed n ?W l j"
    then have np: "\<not> passed n W l j" unfolding passed_def n(1) by blast
    show "\<exists>u. pc_next (?W j) = Some u \<and> wpos k (?W j) = chan_start k (?W u)"
    proof (cases "j = i")
      case True
      then have "a = AtStop" using j(3) s(1,3) v by (auto simp: synced_def leaving_def plain_def)
      then show ?thesis using True stop i(4) s(1) v by simp
    next
      case False
      then have "synced (W j)" using j n by blast
      then obtain u where u: "pc_next (W j) = Some u" "wpos k (W j) = chan_start k (W u)"
        using joins_okE[OF D(8) j(1,2) _ np] by blast
      have "u \<noteq> v" using only_consumer[OF L i(1-4) j(2,1) False] np u by blast
      then show ?thesis using u n s(8) by auto
    qed
  qed
  moreover have "worker_ok k (?W j)" if "j < n" for j using D(3)[OF that] s(4,5) by simp
  moreover have "chan_start k (?W l) = chan_start k (W l)" using v i(2) s(8) by auto
  ultimately show ?thesis using D(1,2,4,5,9) n(3,5) by (intro make_invI) auto
qed


text \<open>A worker skips the next one.\<close>

lemma inv_takeover:
  assumes inv: "make_inv k l n W cur acc" and i: "i < n" "l \<le> i" "pc_at (W i) = AtCheck" "pc_next (W i) = Some v" and
    idle: "idle (W v)" and w': "w' = (W i)\<lparr>pc_at := AtLoop, pc_next := pc_next (W v)\<rparr>"
  shows "make_inv k l n (W(i := w')) cur acc"
proof -
  let ?W = "W(i := w')"
  note D = make_invD[OF inv]
  note v = links_next[OF D(6) i(1,4)]
  have run: "\<not> pc_done (W i)" using D(3)[OF i(1)] i(3) by (simp add: worker_ok_def)
  have nw: "nx n w' = nx n (W v)" by (simp add: w' nx_def)
  have wp: "wpos k w' = wpos k (W i)" "wstart w' = wstart (W i)" by (simp_all add: w')
  have ce: "chan_end k w' = chan_end k (W i)" using i(3) wp by (simp add: chan_end_def w')
  then have cs: "chan_start k w' = chan_start k (W i)" by (simp add: chan_start_def w')
  have ok: "worker_ok k w'" using D(3)[OF i(1)] i(3) wp ce cs by (simp add: worker_ok_def w' leaving_def)
  have nv: "v < nx n (W v)" "nx n (W v) \<le> n" using nx_bounds[OF D(6) v(2)] by auto
  have n: "wstart (?W j) = wstart (W j)" "chan_start k (?W j) = chan_start k (W j)" "wpos k (?W j) = wpos k (W j)" "idle (?W j) = idle (W j)"
    "pc_sync (?W j) = pc_sync (W j)" "nx n (W j) \<le> nx n (?W j)" "synced (?W j) \<longrightarrow> j \<noteq> i" for j
    using wp cs i(3) nw nv v by (auto simp: idle_def w' synced_def leaving_def)
  have "links_ok n ?W l"
    unfolding links_ok_def
  proof (intro conjI allI impI)
    fix j u assume "j < n" "pc_next (?W j) = Some u"
    then show "j < u" "u < n"
      using links_next(1,2)[OF D(6), of j u] links_next(1,2)[OF D(6) v(2), of u] v(1) by (cases "j = i", simp_all add: w')+
  next
    fix j u assume j: "l \<le> j" "j < n" "j < u" "u < nx n (?W j)"
    have "idle (W u) \<and> nx n (?W u) \<le> nx n (?W j)"
    proof (cases "j = i")
      case True
      consider "u < v" | "u = v" | "v < u" by linarith
      then have "idle (W u) \<and> nx n (W u) \<le> nx n (W v)"
      proof cases
        case 1
        then show ?thesis using links_between[OF D(6) i(2,1), of u] j(3) True v nv(1) by simp
      next
        case 2
        then show ?thesis using idle by simp
      next
        case 3
        then show ?thesis using links_between[OF D(6) _ v(2) 3] i(2) v(1) j(4) nw True by simp
      qed
      then show ?thesis using True nw j(3) by simp
    next
      case False
      then have u: "idle (W u)" "nx n (W u) \<le> nx n (W j)" using links_between[OF D(6) j(1-3)] j(4) by auto
      moreover have "u \<noteq> i" using u(1) run by (auto simp: idle_def)
      ultimately show ?thesis using False by simp
    qed
    then show "idle (?W u)" "nx n (?W u) \<le> nx n (?W j)" using n(4) by simp_all
  qed
  moreover have "pairs_ok k n ?W l"
    unfolding pairs_ok_def
  proof (intro conjI allI impI)
    show "sync_ok k (?W u)" if "l < u" "u < n" for u
      using pairs_okD(1)[OF D(7) that] cs by (cases "u = i") (simp_all add: sync_ok_def w')
    show "link_at k (?W u) (pc_at (?W j))" if j: "l \<le> j" "j < n" "pc_next (?W j) = Some u" for j u
    proof (cases "j = i")
      case False
      then have "link_at k (W u) (pc_at (W j))" using pairs_okD(2)[OF D(7) j(1,2)] j(3) by simp
      then show ?thesis using link_at_cong[of "?W u" "W u"] n(2,5) False by simp
    qed (simp add: w')
  qed
  moreover have "joins_ok k n ?W l"
    unfolding joins_ok_def
  proof (intro allI impI)
    fix j assume j: "l \<le> j" "j < n" "synced (?W j)" "\<not> passed n ?W l j"
    have "j \<noteq> i" using n(7) j(3) by blast
    moreover have "\<not> passed n W l j" using j(4) n(6) unfolding passed_def by (meson order_less_le_trans)
    ultimately show "\<exists>u. pc_next (?W j) = Some u \<and> wpos k (?W j) = chan_start k (?W u)"
      using joins_okE[OF D(8) j(1,2)] j(3) n(2,3) by (metis fun_upd_other)
  qed
  moreover have "worker_ok k (?W j)" if "j < n" for j using D(3)[OF that] ok by simp
  ultimately show ?thesis using D(1,2,4,5,9) n(1,2,4) by (intro make_invI) auto
qed

text \<open>The main routine takes a chunk, or goes on to the next worker.\<close>

lemma inv_accept:
  assumes "blob_ok k" and inv: "make_inv k l n W cur acc" and c: "pc_results (W cur) = c # rs"
  shows "make_inv k l n (W(cur := (W cur)\<lparr>pc_results := rs\<rparr>)) cur (acc @ [c]) \<and> cur = l"
proof -
  note D = make_invD[OF inv]
  have cur: "cur = l" using D(2) D(5)[of cur] c by (cases "cur < l") (auto simp: idle_def)
  let ?w = "(W l)\<lparr>pc_results := rs\<rparr>" and ?W = "W(l := (W l)\<lparr>pc_results := rs\<rparr>)"
  have "(W l)\<lparr>pc_results := rs, pc_sync := pc_sync (W l)\<rparr> = ?w" by simp
  then have r: "worker_ok k ?w" "c = chunk_at k (chan_start k (W l))" "chan_start k (W l) < end_of k"
    "chan_start k ?w = chunk_end k (chan_start k (W l))"
    using receive_ok[OF assms(1) D(3)[OF D(1)], of c rs _ "pc_sync (W l)"] c cur by auto
  have n: "nx n (?W j) = nx n (W j)" "pc_next (?W j) = pc_next (W j)" "wstart (?W j) = wstart (W j)" "wpos k (?W j) = wpos k (W j)"
    "idle (W j) \<longrightarrow> idle (?W j)" "pc_at (?W j) = pc_at (W j)" "synced (?W j) = synced (W j)" "j \<noteq> l \<Longrightarrow> ?W j = W j" for j
    using c cur by (auto simp: nx_def idle_def synced_def leaving_def)
  have next_ne: "v \<noteq> l" if "l \<le> i" "i < n" "pc_next (W i) = Some v" for i v
    using links_next(1)[OF D(6) that(2,3)] that(1) by simp
  have "links_ok n ?W l" using D(6) unfolding links_ok_def by (metis n(1,2,5))
  moreover have "pairs_ok k n ?W l"
    unfolding pairs_ok_def using pairs_okD[OF D(7)] next_ne n(2,6,8) by (metis less_irrefl)
  moreover have "joins_ok k n ?W l"
    unfolding joins_ok_def passed_def n(1,2,4,7) using D(8) next_ne n(8) unfolding joins_ok_def passed_def by metis
  moreover have "worker_ok k (?W j)" if "j < n" for j using D(3)[OF that] r(1) by simp
  moreover have "run_of k 0 (acc @ [c]) (chan_start k ?w)" using run_of_snoc[OF D(9) r(3)] r(2,4) by simp
  ultimately have "make_inv k l n ?W l (acc @ [c])" using D(1,2,4,5) n(3) by (intro make_invI) auto
  then show ?thesis using cur by simp
qed

lemma inv_next:
  assumes inv: "make_inv k l n W cur acc" and w: "pc_results (W cur) = []" "pc_closed (W cur)" "pc_err (W cur) = None" "\<not> pc_eof (W cur)"
  shows "(cur < l \<longrightarrow> make_inv k l n W (Suc cur) acc) \<and>
    (cur = l \<longrightarrow> (\<exists>v. pc_next (W l) = Some v \<and> wpos k (W l) = chan_start k (W v) \<and> make_inv k v n W (Suc cur) acc))"
proof (intro conjI impI)
  note D = make_invD[OF inv]
  show "make_inv k l n W (Suc cur) acc" if "cur < l" using that D by (intro make_invI) auto
  assume cur: "cur = l"
  have at: "pc_at (W l) = Exited" "pc_done (W l)" using D(3)[OF D(1)] w(2) cur by (auto simp: worker_ok_def)
  have "synced (W l)" "\<not> passed n W l l" using at w cur by (auto simp: synced_def leaving_def passed_def)
  then obtain v where v: "pc_next (W l) = Some v" "wpos k (W l) = chan_start k (W v)" using joins_okE[OF D(8) order_refl D(1)] by blast
  note lv = links_next[OF D(6,1) v(1)]
  have "chan_start k (W l) = wpos k (W l)" using w(1) cur at(1) by (simp add: chan_start_def chan_end_def)
  then have run: "run_of k 0 acc (chan_start k (W v))" using D(9) v(2) by simp
  have idle: "idle (W u)" if "u < v" for u
    using that D(5)[of u] links_between(1)[OF D(6) order_refl D(1), of u] lv(3) w(1) at(2) cur
    by (cases u l rule: linorder_cases) (auto simp: idle_def)
  have links: "links_ok n W v" using D(6) lv(1) unfolding links_ok_def by (meson less_imp_le order_trans)
  have pairs: "pairs_ok k n W v" using D(7) lv(1) unfolding pairs_ok_def by (meson less_trans less_imp_le order_trans)
  have joins: "joins_ok k n W v"
    unfolding joins_ok_def
  proof (intro allI impI)
    fix i assume i: "v \<le> i" "i < n" "synced (W i)" "\<not> passed n W v i"
    have np: "\<not> passed n W l i"
    proof
      assume "passed n W l i"
      then obtain j where j: "l \<le> j" "j < i" "i < nx n (W j)" by (auto simp: passed_def)
      then have "j < v" using i(4) by (metis linorder_not_less passed_def)
      then have "nx n (W j) \<le> v"
        using j(1) lv links_between(2)[OF D(6) order_refl D(1), of j] by (cases "j = l") auto
      then show False using j(3) i(1) by simp
    qed
    have "l \<le> i" using i(1) lv(1) by simp
    then show "\<exists>u. pc_next (W i) = Some u \<and> wpos k (W i) = chan_start k (W u)" using joins_okE[OF D(8) _ i(2,3) np] by blast
  qed
  have "make_inv k v n W (Suc cur) acc"
    using make_invI[OF lv(2) _ D(3,4) idle links pairs joins run, where cur = "Suc cur"] lv(1) cur by simp
  then show "\<exists>v. pc_next (W l) = Some v \<and> wpos k (W l) = chan_start k (W v) \<and> make_inv k v n W (Suc cur) acc" using v by blast
qed

end
