(* ===== verification/Make_Steps.thy ===== *)
theory Make_Steps
  imports Make_Links
begin

text \<open>
  Every step of the parallel chunker is of one of the kinds of \<^verbatim>\<open>Make_Links\<close>, so that the invariant holds
  in every run: what has been accepted is always a beginning of the chunks of the file.
\<close>

section \<open>The steps of a run\<close>

definition local_step :: "blob \<Rightarrow> pChunker \<Rightarrow> pChunker \<Rightarrow> bool" where
  "local_step k w w' \<longleftrightarrow> worker_ok k w' \<and> chan_start k w' = chan_start k w \<and> pc_sync w' = pc_sync w \<and> wstart w' = wstart w \<and>
     pc_next w' = pc_next w \<and> (pc_done w \<longrightarrow> pc_done w' \<and> pc_results w' = pc_results w \<and> pc_err w' = pc_err w \<and> pc_eof w' = pc_eof w) \<and>
     (pc_closed w \<longrightarrow> pc_closed w') \<and> (synced w' \<longrightarrow> synced w \<and> wpos k w' = wpos k w) \<and> (pc_err w \<noteq> None \<longrightarrow> pc_err w' \<noteq> None) \<and>
     wpos k w \<le> wpos k w' \<and> (pc_at w = AtLoop \<longrightarrow> pc_err w' \<noteq> None \<or> wpos k w' = chunk_end k (wpos k w)) \<and>
     (\<forall>v. link_at k v (pc_at w')) \<and> (\<forall>c m. pc_at w' \<noteq> AtNulls c m)"

lemma same_channel: "chan_end k w' = chan_end k w \<Longrightarrow> pc_results w' = pc_results w \<Longrightarrow> chan_start k w' = chan_start k w"
  by (simp add: chan_start_def)

lemma interrupt_local:
  assumes "worker_ok k w" "pc_at w = AtLoop"
  shows "local_step k w (interrupt e w)"
proof -
  have "chan_end k (interrupt e w) = chan_end k w" using assms(2) by (simp add: interrupt_def chan_end_def)
  moreover have "wpos k (interrupt e w) = wpos k w" "wstart (interrupt e w) = wstart w" by (simp_all add: interrupt_def)
  moreover have "chan_start k (interrupt e w) = chan_start k w" using calculation by (intro same_channel) (simp_all add: interrupt_def)
  ultimately show ?thesis using assms by (simp add: local_step_def worker_ok_def interrupt_def leaving_def synced_def)
qed

lemma stop_local:
  assumes "worker_ok k w" "pc_at w = AtStop"
  shows "local_step k w ((stop w)\<lparr>pc_at := AtClose\<rparr>)"
proof -
  let ?w = "(stop w)\<lparr>pc_at := AtClose\<rparr>"
  have "chan_end k ?w = chan_end k w" using assms(2) by (simp add: stop_def chan_end_def)
  moreover have "wpos k ?w = wpos k w" "wstart ?w = wstart w" by (simp_all add: stop_def)
  moreover have "chan_start k ?w = chan_start k w" using calculation by (intro same_channel) (simp_all add: stop_def)
  ultimately show ?thesis using assms by (simp add: local_step_def worker_ok_def stop_def leaving_def synced_def)
qed

lemma close_local:
  assumes "worker_ok k w" "pc_at w = AtClose"
  shows "local_step k w (w\<lparr>pc_closed := True, pc_at := Exited\<rparr>)"
proof -
  let ?w = "w\<lparr>pc_closed := True, pc_at := Exited\<rparr>"
  have "chan_end k ?w = chan_end k w" using assms(2) by (simp add: chan_end_def)
  moreover have "wpos k ?w = wpos k w" "wstart ?w = wstart w" by simp_all
  moreover have "chan_start k ?w = chan_start k w" using calculation by (intro same_channel) simp_all
  ultimately show ?thesis using assms by (simp add: local_step_def worker_ok_def leaving_def synced_def)
qed

lemma produce_local:
  assumes "blob_ok k" "worker_ok k w" "pc_at w = AtLoop" "\<not> pc_done w" "produce (bl_codec k) w = Ok (b, w')"
  shows "local_step k w w'"
proof -
  obtain a e c where p: "worker_ok k w'" "chan_start k w' = chan_start k w" "wpos k w' = chunk_end k (wpos k w)"
    "w' = w\<lparr>pc_chunker := c, pc_eof := e, pc_at := a\<rparr>"
    "if wpos k w = end_of k then a = AtStop \<and> e else \<not> e \<and> a = AtSend (chunk_at k (wpos k w))"
    using produce_ok[OF assms] by blast
  have "pc_err w = None" "\<not> pc_closed w" using assms(2,3) by (auto simp: worker_ok_def leaving_def)
  moreover have "wpos k w \<le> wpos k w'" using p(3) by (simp add: chunk_end_def)
  ultimately show ?thesis using p assms(4)
    by (auto simp: local_step_def synced_def leaving_def wstart_def split: if_splits)
qed

lemma send_local:
  assumes "blob_ok k" "worker_ok k w" "pc_at w = AtSend c"
    "w' = w\<lparr>pc_results := pc_results w @ [c], pc_at := (if pc_next w = None then AtCheck else AtSync c zero_chunk)\<rparr>"
  shows "local_step k w w'"
  using send_ok[OF assms] assms(2,3)
  by (auto simp: local_step_def assms(4) synced_def leaving_def worker_ok_def)

lemma skip_local:
  assumes "blob_ok k" "null_ok k null" "worker_ok k w" "pc_at w = AtSkip c z" "skip_nulls null w c z = Ok w'"
  shows "local_step k w w'"
proof -
  obtain ch a where s: "worker_ok k w'" "chan_start k w' = chan_start k w" "wpos k w \<le> wpos k w'" "w' = w\<lparr>pc_chunker := ch, pc_at := a\<rparr>"
    "a = AtCheck \<or> (\<exists>nc j. a = AtEmit nc j)" using skip_ok[OF assms] by blast
  show ?thesis using s assms(3,4) by (auto simp: local_step_def synced_def leaving_def worker_ok_def wstart_def)
qed

lemma emit_local:
  assumes "blob_ok k" "null_ok k null" "worker_ok k w" "pc_at w = AtEmit nc (Suc j)" "w' = emit_null null w nc j"
  shows "local_step k w w'"
proof -
  obtain rs c where s: "worker_ok k w'" "chan_start k w' = chan_start k w" "wpos k w' = wpos k w" "w' = w\<lparr>pc_results := rs, pc_at := AtEmit c j\<rparr>"
    using emit_ok[OF assms] by blast
  show ?thesis using s assms(3,4) by (auto simp: local_step_def synced_def leaving_def worker_ok_def)
qed

lemma plain_local:
  assumes "worker_ok k w" "pc_at w = AtCheck \<or> pc_at w = AtEmit nc 0" "a = AtCheck \<or> a = AtLoop"
  shows "local_step k w (w\<lparr>pc_at := a\<rparr>)"
proof -
  let ?w = "w\<lparr>pc_at := a\<rparr>"
  have "chan_end k ?w = chan_end k w" using assms(2,3) by (auto simp: chan_end_def)
  moreover have "wpos k ?w = wpos k w" "wstart ?w = wstart w" by simp_all
  moreover have "chan_start k ?w = chan_start k w" using calculation by (intro same_channel) simp_all
  ultimately show ?thesis using assms by (elim disjE) (simp_all add: local_step_def worker_ok_def leaving_def synced_def)
qed

lemma same_next: "pc_next w = x \<Longrightarrow> w\<lparr>pc_at := a, pc_next := x\<rparr> = w\<lparr>pc_at := a\<rparr>"
  by auto

text \<open>Every step of a worker is of one of three kinds.\<close>

lemma step_cases:
  assumes ok: "blob_ok k" "null_ok k null" and w: "worker_ok k (ms_workers st ! i)" and
    nxt: "\<forall>v. pc_next (ms_workers st ! i) = Some v \<longrightarrow> \<not> pc_done (ms_workers st ! i) \<longrightarrow> worker_ok k (ms_workers st ! v) \<and>
      sync_ok k (ms_workers st ! v) \<and> link_at k (ms_workers st ! v) (pc_at (ms_workers st ! i)) \<and>
      wstart (ms_workers st ! i) < wstart (ms_workers st ! v)" and
    step: "pChunker_step (bl_codec k) null i st = Some (Ok st')"
  obtains (local) w' where "ms_workers st' = (ms_workers st)[i := w']" "local_step k (ms_workers st ! i) w'"
      "ms_current st' = ms_current st" "ms_chunks st' = ms_chunks st"
  | (pair) v w' v' where "ms_workers st' = (ms_workers st)[v := v', i := w']" "pc_next (ms_workers st ! i) = Some v"
      "\<not> leaving (ms_workers st ! i)" "sync_step k (ms_workers st ! i) (ms_workers st ! v) w' v'"
      "pc_at w' = AtStop \<Longrightarrow> v' = ms_workers st ! v \<and> wpos k (ms_workers st ! i) = chan_start k v' \<and>
        chunk_end k (wstart (ms_workers st ! i)) < wpos k (ms_workers st ! i)"
      "(\<exists>c m. pc_at (ms_workers st ! i) = AtNulls c m) \<or> chan_start k v' = chan_start k (ms_workers st ! v) \<or>
        chan_start k v' = chunk_end k (chan_start k (ms_workers st ! v)) \<and>
        (chan_start k (ms_workers st ! v) = wstart (ms_workers st ! v) \<or> chan_start k (ms_workers st ! v) \<le> wpos k (ms_workers st ! i))"
      "\<And>c m. pc_at w' = AtNulls c m \<Longrightarrow> (\<exists>c m. pc_at (ms_workers st ! i) = AtNulls c m) \<or> ic_id (pc_sync (ms_workers st ! v)) = nc_id null"
      "pc_at (ms_workers st ! i) \<noteq> AtLoop" "ms_current st' = ms_current st" "ms_chunks st' = ms_chunks st"
  | (takeover) v where "ms_workers st' = (ms_workers st)[i := (ms_workers st ! i)\<lparr>pc_at := AtLoop, pc_next := pc_next (ms_workers st ! v)\<rparr>]"
      "pc_at (ms_workers st ! i) = AtCheck" "pc_next (ms_workers st ! i) = Some v" "idle (ms_workers st ! v)"
      "ms_current st' = ms_current st" "ms_chunks st' = ms_chunks st"
proof (cases "pc_at (ms_workers st ! i)")
  case AtLoop
  then have nd: "\<not> pc_done (ms_workers st ! i)" using w by (simp add: worker_ok_def)
  obtain b w' where p: "produce (bl_codec k) (ms_workers st ! i) = Ok (b, w')" "ms_workers st' = (ms_workers st)[i := w']"
    "ms_current st' = ms_current st" "ms_chunks st' = ms_chunks st"
    using step AtLoop nd by (auto simp: pChunker_step_def Let_def res_simps set_worker_def split: if_splits)
  show thesis using local[OF p(2) produce_local[OF ok(1) w AtLoop nd p(1)] p(3,4)] .
next
  case (AtSend c)
  let ?w' = "(ms_workers st ! i)\<lparr>pc_results := pc_results (ms_workers st ! i) @ [c],
      pc_at := (if pc_next (ms_workers st ! i) = None then AtCheck else AtSync c zero_chunk)\<rparr>"
  have "st' = set_worker i ?w' st" using step AtSend by (auto simp: pChunker_step_def Let_def split: if_splits)
  then show thesis using local[OF _ send_local[OF ok(1) w AtSend refl]] by (simp add: set_worker_def)
next
  case (AtSync c prev)
  then obtain v where v: "pc_next (ms_workers st ! i) = Some v"
    using step by (auto simp: pChunker_step_def Let_def split: option.splits)
  obtain w' v' where s: "syncWith null (ms_workers st ! i) (ms_workers st ! v) c prev = (w', v')" by force
  have st': "st' = set_worker i w' (set_worker v v' st)" using step AtSync v s by (simp add: pChunker_step_def Let_def)
  have "\<not> pc_done (ms_workers st ! i)" using w AtSync by (simp add: worker_ok_def)
  note N = nxt[rule_format, OF v this]
  have link: "link_at k (ms_workers st ! v) (pc_at (ms_workers st ! i))" using N by simp
  have S: "sync_step k (ms_workers st ! i) (ms_workers st ! v) w' v'"
    "pc_at w' = AtStop \<longrightarrow> v' = ms_workers st ! v \<and> wpos k (ms_workers st ! i) = chan_start k (ms_workers st ! v) \<and>
       chunk_end k (wstart (ms_workers st ! i)) < wpos k (ms_workers st ! i)"
    "chan_start k v' = chan_start k (ms_workers st ! v) \<or> chan_start k v' = chunk_end k (chan_start k (ms_workers st ! v)) \<and>
       (chan_start k (ms_workers st ! v) = wstart (ms_workers st ! v) \<or> chan_start k (ms_workers st ! v) \<le> wpos k (ms_workers st ! i))"
    using syncWith_ok[OF ok w _ _ link AtSync s] N by blast+
  have nulls: "ic_id (pc_sync (ms_workers st ! v)) = nc_id null" if "pc_at w' = AtNulls c' m" for c' m
    using that s by (auto simp: syncWith_def split: if_splits received.splits)
  show thesis by (rule pair[OF _ v _ S(1)]) (use S(2,3) st' AtSync nulls in \<open>auto simp: set_worker_def leaving_def\<close>)
next
  case (AtNulls c m)
  then obtain v where v: "pc_next (ms_workers st ! i) = Some v"
    using step by (auto simp: pChunker_step_def Let_def split: option.splits)
  obtain w' v' where s: "count_nulls null (ms_workers st ! i) (ms_workers st ! v) c m = (w', v')" by force
  have st': "st' = set_worker i w' (set_worker v v' st)" using step AtNulls v s by (simp add: pChunker_step_def Let_def)
  have "\<not> pc_done (ms_workers st ! i)" using w AtNulls by (simp add: worker_ok_def)
  note N = nxt[rule_format, OF v this]
  note S = count_nulls_ok[OF ok w _ _ _ AtNulls s]
  show thesis using pair[OF _ v _ conjunct1[OF S]] S N st' AtNulls by (simp add: set_worker_def leaving_def)
next
  case (AtSkip c z)
  then obtain w' where s: "skip_nulls null (ms_workers st ! i) c z = Ok w'" "st' = set_worker i w' st"
    using step by (auto simp: pChunker_step_def Let_def res_simps)
  then show thesis using local[OF _ skip_local[OF ok w AtSkip s(1)]] by (simp add: set_worker_def)
next
  case (AtEmit nc j)
  show thesis
  proof (cases j)
    case 0
    then have "st' = set_worker i ((ms_workers st ! i)\<lparr>pc_at := AtCheck\<rparr>) st" using step AtEmit by (simp add: pChunker_step_def Let_def)
    then show thesis using local[OF _ plain_local[OF w]] AtEmit 0 by (simp add: set_worker_def)
  next
    case (Suc j')
    then have "st' = set_worker i (emit_null null (ms_workers st ! i) nc j') st"
      using step AtEmit by (simp add: pChunker_step_def Let_def split: if_splits)
    then show thesis using local[OF _ emit_local[OF ok w _ refl]] AtEmit Suc by (simp add: set_worker_def)
  qed
next
  case AtCheck
  show thesis
  proof (cases "\<exists>v. pc_next (ms_workers st ! i) = Some v \<and> idle (ms_workers st ! v)")
    case True
    then obtain v where v: "pc_next (ms_workers st ! i) = Some v" "idle (ms_workers st ! v)" by blast
    then have "st' = set_worker i ((ms_workers st ! i)\<lparr>pc_at := AtLoop, pc_next := pc_next (ms_workers st ! v)\<rparr>) st"
      using step AtCheck by (simp add: pChunker_step_def Let_def idle_def active_def)
    then show thesis using takeover[OF _ AtCheck v] by (simp add: set_worker_def)
  next
    case False
    have "st' = set_worker i ((ms_workers st ! i)\<lparr>pc_at := AtLoop\<rparr>) st"
      using step AtCheck False by (auto simp: pChunker_step_def Let_def idle_def active_def same_next split: option.splits if_splits)
    then show thesis using local[OF _ plain_local[OF w]] AtCheck by (simp add: set_worker_def)
  qed
next
  case AtStop
  then have "st' = set_worker i ((stop (ms_workers st ! i))\<lparr>pc_at := AtClose\<rparr>) st" using step by (simp add: pChunker_step_def Let_def)
  then show thesis using local[OF _ stop_local[OF w AtStop]] by (simp add: set_worker_def)
next
  case AtClose
  then have "st' = set_worker i ((ms_workers st ! i)\<lparr>pc_closed := True, pc_at := Exited\<rparr>) st" using step by (simp add: pChunker_step_def Let_def)
  then show thesis using local[OF _ close_local[OF w AtClose]] by (simp add: set_worker_def)
next
  case Exited
  then show thesis using step by (simp add: pChunker_step_def Let_def)
qed


abbreviation state_inv :: "blob \<Rightarrow> nat \<Rightarrow> make_state \<Rightarrow> bool" where
  "state_inv k l st \<equiv> make_inv k l (length (ms_workers st)) ((!) (ms_workers st)) (ms_current st) (ms_chunks st)"

lemma nth_update: "i < length ws \<Longrightarrow> (!) (ws[i := w]) = ((!) ws)(i := w)"
  by (auto simp: fun_eq_iff nth_list_update)

lemma inv_local_step:
  assumes inv: "make_inv k l n W cur acc" and i: "i < n" and step: "local_step k (W i) w'"
  shows "make_inv k l n (W(i := w')) cur acc"
proof -
  have s: "worker_ok k w'" "chan_start k w' = chan_start k (W i)" "pc_sync w' = pc_sync (W i)" "wstart w' = wstart (W i)"
    "pc_next w' = pc_next (W i)" "idle (W i) \<Longrightarrow> idle w'" "link_at k v (pc_at w')" for v
    using step by (auto simp: local_step_def idle_def)
  have "pc_closed (W i) \<Longrightarrow> pc_closed w' \<and> pc_results w' = pc_results (W i)"
    using step make_invD(3)[OF inv i] by (auto simp: local_step_def worker_ok_def)
  moreover have "synced w' \<Longrightarrow> synced (W i) \<and> wpos k w' = wpos k (W i)" using step by (simp add: local_step_def)
  ultimately show ?thesis using inv_local[OF inv i s(1-6)] s(7) by blast
qed

text \<open>What a worker that is not done finds at its next worker.\<close>

lemma running_next:
  assumes inv: "make_inv k l n W cur acc" and i: "i < n" "\<not> pc_done (W i)" "pc_next (W i) = Some v"
  shows "l \<le> i" "i < v" "v < n" "worker_ok k (W v)" "sync_ok k (W v)" "link_at k (W v) (pc_at (W i))" "wstart (W i) < wstart (W v)"
proof -
  note D = make_invD[OF inv]
  show l: "l \<le> i" using D(5)[of i] i(2) by (auto simp: idle_def not_less[symmetric])
  show v: "i < v" "v < n" using links_next[OF D(6) i(1,3)] by auto
  show "worker_ok k (W v)" "wstart (W i) < wstart (W v)" using D(3,4) v by auto
  show "sync_ok k (W v)" "link_at k (W v) (pc_at (W i))" using pairs_okD[OF D(7)] l v i by auto
qed

lemma worker_step_inv:
  assumes ok: "blob_ok k" "null_ok k null" and inv: "state_inv k l st" and i: "i < length (ms_workers st)" and
    step: "pChunker_step (bl_codec k) null i st = Some (Ok st')"
  shows "state_inv k l st' \<and> length (ms_workers st') = length (ms_workers st)"
proof -
  let ?W = "(!) (ms_workers st)"
  note R = running_next[OF inv i]
  have w: "worker_ok k (?W i)" using make_invD(3)[OF inv i] .
  have nx: "\<forall>v. pc_next (?W i) = Some v \<longrightarrow> \<not> pc_done (?W i) \<longrightarrow>
      worker_ok k (?W v) \<and> sync_ok k (?W v) \<and> link_at k (?W v) (pc_at (?W i)) \<and> wstart (?W i) < wstart (?W v)"
    using R by blast
  show ?thesis
  proof (cases rule: step_cases[OF ok w nx step])
    case (1 w')
    note local = this
    show ?thesis using inv_local_step[OF inv i local(2)] local i by (simp add: nth_update)
  next
    case (2 v w' v')
    note pair = this
    have nd: "\<not> pc_done (?W i)" using w pair(3) by (auto simp: worker_ok_def leaving_def)
    have "make_inv k l (length (ms_workers st)) (?W(v := v', i := w')) (ms_current st) (ms_chunks st)"
      using pair(3,5) by (intro inv_pair[OF inv i R(1)[OF nd pair(2)] nd pair(2,4)]) (auto simp: leaving_def)
    then show ?thesis using pair i R(3)[OF nd pair(2)] by (simp add: nth_update)
  next
    case (3 v)
    note takeover = this
    have nd: "\<not> pc_done (?W i)" using w takeover(2) by (auto simp: worker_ok_def)
    show ?thesis using inv_takeover[OF inv i R(1)[OF nd takeover(3)] takeover(2,3,4) refl] takeover i by (simp add: nth_update)
  qed
qed

lemma main_step_inv:
  assumes ok: "blob_ok k" and inv: "state_inv k l st" and step: "main_step st = Some (Continue st')"
  shows "\<exists>l'. state_inv k l' st' \<and> length (ms_workers st') = length (ms_workers st)"
proof -
  let ?W = "(!) (ms_workers st)" and ?c = "ms_current st"
  have c: "?c < length (ms_workers st)" using make_invD(1,2)[OF inv] by simp
  show ?thesis
  proof (cases "pc_results (?W ?c)")
    case (Cons a rs)
    then show ?thesis using inv_accept[OF ok inv Cons] step c
      by (intro exI[of _ l]) (auto simp: main_step_def Let_def set_worker_def nth_update)
  next
    case Nil
    then have "pc_closed (?W ?c)" "pc_err (?W ?c) = None" "\<not> pc_eof (?W ?c)" "st' = st\<lparr>ms_current := ?c + 1\<rparr>"
      using step c by (auto simp: main_step_def Let_def split: if_splits option.splits)
    then show ?thesis using inv_next[OF inv Nil] make_invD(2)[OF inv] by (cases "?c < l") auto
  qed
qed

text \<open>Whatever the main routine has accepted is the beginning of the chunks of the file.\<close>

lemma make_run_prefix:
  assumes "make_run (bl_codec k) null stops st r st'" "blob_ok k" "null_ok k null" "state_inv k l st"
  shows "\<exists>l'. state_inv k l' st'"
  using assms
proof (induction arbitrary: l rule: make_run.induct)
  case (main st st' r st'')
  then show ?case using main_step_inv by blast
next
  case (worker i st st' r st'')
  then show ?case using worker_step_inv by blast
next
  case (interrupted i e st r st'')
  have "local_step k (ms_workers st ! i) (interrupt e (ms_workers st ! i))"
    using interrupt_local make_invD(3)[OF interrupted.prems(3)] interrupted.hyps by simp
  then have "state_inv k l (set_worker i (interrupt e (ms_workers st ! i)) st)"
    using inv_local_step[OF interrupted.prems(3) interrupted.hyps(2)] interrupted.hyps(2) by (simp add: set_worker_def nth_update)
  then show ?case using interrupted.IH interrupted.prems by blast
qed auto

end
