(* ===== verification/Make_Complete.thy ===== *)
theory Make_Complete
  imports Make_Steps
begin

text \<open>
  When the parallel chunker of \<^verbatim>\<open>src/make.go\<close> returns all chunks of the file.
\<close>

section \<open>Completeness\<close>

text \<open>
  Without null chunks a worker never takes chunks out of the channel of the next one that lie further
  on than its own next chunk. When it skips a worker that reached the end of the file, it is therefore
  itself at its last chunk.
\<close>

definition hurt :: "nat \<Rightarrow> workers \<Rightarrow> nat \<Rightarrow> bool" where
  "hurt n W i \<longleftrightarrow> (\<exists>u. i < u \<and> u < nx n (W i) \<and> pc_err (W u) \<noteq> None)"

definition settled :: "blob \<Rightarrow> pChunker \<Rightarrow> bool" where
  "settled k w \<longleftrightarrow> (if pc_at w = AtLoop then chunk_end k (wpos k w) else wpos k w) = end_of k"

definition lag_ok :: "blob \<Rightarrow> nat \<Rightarrow> workers \<Rightarrow> nat \<Rightarrow> bool" where
  "lag_ok k n W l \<longleftrightarrow> (\<forall>i v. l \<le> i \<longrightarrow> i < n \<longrightarrow> \<not> pc_done (W i) \<longrightarrow> pc_next (W i) = Some v \<longrightarrow> hurt n W i \<or>
     chan_start k (W v) = wstart (W v) \<or> chan_start k (W v) = chunk_end k (wstart (W v)) \<or> chan_start k (W v) \<le> chunk_end k (wpos k (W i)))"

definition ends_ok :: "blob \<Rightarrow> nat \<Rightarrow> workers \<Rightarrow> nat \<Rightarrow> bool" where
  "ends_ok k n W l \<longleftrightarrow> (\<forall>i v u. l \<le> i \<longrightarrow> i < n \<longrightarrow> pc_err (W i) = None \<longrightarrow> pc_next (W i) = Some v \<longrightarrow> i < u \<longrightarrow> u < v \<longrightarrow> pc_eof (W u) \<longrightarrow>
     (\<exists>u'. i < u' \<and> u' \<le> u \<and> pc_err (W u') \<noteq> None) \<or> settled k (W i))"

definition main_ok :: "blob \<Rightarrow> workers \<Rightarrow> nat \<Rightarrow> nat \<Rightarrow> bool" where
  "main_ok k W l cur \<longleftrightarrow> (\<forall>u. cur \<le> u \<longrightarrow> u < l \<longrightarrow> pc_eof (W u) \<longrightarrow>
     (\<exists>u'. cur \<le> u' \<and> u' \<le> u \<and> pc_err (W u') \<noteq> None) \<or> chan_start k (W l) = end_of k)"

definition full_inv :: "blob \<Rightarrow> nat \<Rightarrow> nat \<Rightarrow> workers \<Rightarrow> nat \<Rightarrow> bool" where
  "full_inv k l n W cur \<longleftrightarrow> lag_ok k n W l \<and> ends_ok k n W l \<and> main_ok k W l cur \<and>
     (\<forall>i. l \<le> i \<longrightarrow> i < n \<longrightarrow> synced (W i) \<longrightarrow> chunk_end k (wstart (W i)) < wpos k (W i)) \<and>
     (\<forall>i. 0 < i \<longrightarrow> Suc i < n \<longrightarrow> wstart (W i) + bl_max k < end_of k) \<and> (\<forall>i < n. \<forall>c m. pc_at (W i) \<noteq> AtNulls c m)"

lemma full_invD:
  assumes "full_inv k l n W cur"
  shows "lag_ok k n W l" "ends_ok k n W l" "main_ok k W l cur" "l \<le> i \<Longrightarrow> i < n \<Longrightarrow> synced (W i) \<Longrightarrow> chunk_end k (wstart (W i)) < wpos k (W i)"
    "0 < i \<Longrightarrow> Suc i < n \<Longrightarrow> wstart (W i) + bl_max k < end_of k" "i < n \<Longrightarrow> pc_at (W i) \<noteq> AtNulls c m"
  using assms unfolding full_inv_def by blast+

lemma full_invI:
  assumes "lag_ok k n W l" "ends_ok k n W l" "main_ok k W l cur" "\<And>i. l \<le> i \<Longrightarrow> i < n \<Longrightarrow> synced (W i) \<Longrightarrow> chunk_end k (wstart (W i)) < wpos k (W i)"
    "\<And>i. 0 < i \<Longrightarrow> Suc i < n \<Longrightarrow> wstart (W i) + bl_max k < end_of k" "\<And>i c m. i < n \<Longrightarrow> pc_at (W i) \<noteq> AtNulls c m"
  shows "full_inv k l n W cur"
  using assms unfolding full_inv_def by blast

lemma wpos_le: "worker_ok k w \<Longrightarrow> wpos k w \<le> end_of k"
  by (simp add: worker_ok_def chunker_at_def)

lemma run_of_start_le: "run_of k p cs q \<Longrightarrow> p \<le> q"
proof (induction cs arbitrary: p)
  case (Cons c cs)
  then have "chunk_end k p \<le> q" by simp
  then show ?case by (simp add: chunk_end_def)
qed simp

lemma chan_start_le:
  assumes "blob_ok k" "worker_ok k w"
  shows "chan_start k w \<le> end_of k"
proof -
  have "chan_end k w \<le> end_of k"
    using assms chunk_at_start wpos_le[OF assms(2)]
    by (auto simp: worker_ok_def chan_end_def chunk_ok_def split: program_point.splits)
  moreover have "run_of k (chan_start k w) (pc_results w) (chan_end k w)" using assms(2) by (simp add: worker_ok_def)
  then have "chan_start k w \<le> chan_end k w" by (rule run_of_start_le)
  ultimately show ?thesis by linarith
qed

lemma lag_okD:
  assumes "lag_ok k n W l" "l \<le> i" "i < n" "\<not> pc_done (W i)" "pc_next (W i) = Some v" "\<not> hurt n W i"
  shows "chan_start k (W v) = wstart (W v) \<or> chan_start k (W v) = chunk_end k (wstart (W v)) \<or> chan_start k (W v) \<le> chunk_end k (wpos k (W i))"
  using assms unfolding lag_ok_def by blast

text \<open>A change of worker \<open>i\<close> that others do not notice keeps what holds of the others.\<close>

lemma full_update:
  assumes ok: "blob_ok k" and full: "full_inv k l n W cur" and wok: "worker_ok k (W i)" "worker_ok k w'" and
    same: "pc_next w' = pc_next (W i)" "wstart w' = wstart (W i)" "pc_err (W i) \<noteq> None \<longrightarrow> pc_err w' \<noteq> None"
      "pc_done (W i) \<longrightarrow> pc_done w' \<and> pc_eof w' = pc_eof (W i)" "wpos k (W i) \<le> wpos k w'" and
    start: "chan_start k w' = chan_start k (W i)" and
    sett: "settled k (W i) \<Longrightarrow> pc_err w' = None \<Longrightarrow> settled k w'" and
    sync: "l \<le> i \<Longrightarrow> i < n \<Longrightarrow> synced w' \<Longrightarrow> chunk_end k (wstart (W i)) < wpos k w'" and at: "\<And>c m. pc_at w' \<noteq> AtNulls c m" and
    inv: "make_inv k l n W cur acc"
  shows "full_inv k l n (W(i := w')) cur"
proof -
  let ?W = "W(i := w')"
  note F = full_invD[OF full] and D = make_invD[OF inv]
  have n: "nx n (?W j) = nx n (W j)" "pc_next (?W j) = pc_next (W j)" "wstart (?W j) = wstart (W j)" "chan_start k (?W j) = chan_start k (W j)"
    "pc_err (W j) \<noteq> None \<longrightarrow> pc_err (?W j) \<noteq> None" "pc_done (W j) \<longrightarrow> pc_done (?W j) \<and> pc_eof (?W j) = pc_eof (W j)"
    "wpos k (W j) \<le> wpos k (?W j)" "settled k (W j) \<longrightarrow> pc_err (?W j) = None \<longrightarrow> settled k (?W j)" for j
    using same start sett by (auto simp: nx_def)
  have h: "hurt n W j \<longrightarrow> hurt n ?W j" for j unfolding hurt_def n(1) using n(5) by blast
  have wle: "wpos k (?W j) \<le> end_of k" if "j < n" for j using wpos_le[OF D(3)[OF that]] wpos_le[OF wok(2)] by simp
  have cm: "chunk_end k (wpos k (W j)) \<le> chunk_end k (wpos k (?W j))" if "j < n" for j using cut_mono[OF ok n(7) wle[OF that]] .
  have "lag_ok k n ?W l"
    unfolding lag_ok_def n(2)
  proof (intro allI impI)
    fix j v assume j: "l \<le> j" "j < n" "\<not> pc_done (?W j)" "pc_next (W j) = Some v"
    have "\<not> pc_done (W j)" using j(3) n(6) by blast
    then have "hurt n W j \<or> chan_start k (W v) = wstart (W v) \<or> chan_start k (W v) = chunk_end k (wstart (W v)) \<or>
       chan_start k (W v) \<le> chunk_end k (wpos k (W j))" using F(1) j(1,2,4) unfolding lag_ok_def by blast
    then show "hurt n ?W j \<or> chan_start k (?W v) = wstart (?W v) \<or> chan_start k (?W v) = chunk_end k (wstart (?W v)) \<or>
       chan_start k (?W v) \<le> chunk_end k (wpos k (?W j))" unfolding n(3,4) using h cm[OF j(2)] by (meson order_trans)
  qed
  moreover have "ends_ok k n ?W l"
    unfolding ends_ok_def n(2)
  proof (intro allI impI)
    fix j v u assume j: "l \<le> j" "j < n" "pc_err (?W j) = None" "pc_next (W j) = Some v" "j < u" "u < v" "pc_eof (?W u)"
    have "pc_err (W j) = None" using j(3) n(5) by blast
    moreover have "pc_done (W u)"
      using links_between(1)[OF D(6) j(1,2,5)] j(4,6) links_next(3)[OF D(6) j(2,4)] by (simp add: idle_def)
    then have "pc_eof (W u)" using n(6) j(7) by blast
    ultimately have "(\<exists>u'. j < u' \<and> u' \<le> u \<and> pc_err (W u') \<noteq> None) \<or> settled k (W j)"
      using F(2) j(1,2,4,5,6) unfolding ends_ok_def by blast
    then show "(\<exists>u'. j < u' \<and> u' \<le> u \<and> pc_err (?W u') \<noteq> None) \<or> settled k (?W j)" using n(5,8) j(3) by blast
  qed
  moreover have "main_ok k ?W l cur"
    unfolding main_ok_def n(4)
  proof (intro allI impI)
    fix u assume u: "cur \<le> u" "u < l" "pc_eof (?W u)"
    have "pc_done (W u)" using D(5)[OF u(2)] by (simp add: idle_def)
    then have "pc_eof (W u)" using n(6) u(3) by blast
    then show "(\<exists>u'. cur \<le> u' \<and> u' \<le> u \<and> pc_err (?W u') \<noteq> None) \<or> chan_start k (W l) = end_of k"
      using F(3) u(1,2) n(5) unfolding main_ok_def by blast
  qed
  moreover have "chunk_end k (wstart (?W j)) < wpos k (?W j)" if "l \<le> j" "j < n" "synced (?W j)" for j
    using F(4)[OF that(1,2)] that sync same(2) by (cases "j = i") auto
  moreover have "pc_at (?W j) \<noteq> AtNulls c m" if "j < n" for j c m using F(6)[OF that] at by simp
  ultimately show ?thesis using F(5) n(3) by (intro full_invI) auto
qed

lemma full_local:
  assumes ok: "blob_ok k" and inv: "make_inv k l n W cur acc" and full: "full_inv k l n W cur" and i: "i < n" and
    step: "local_step k (W i) w'"
  shows "full_inv k l n (W(i := w')) cur"
proof (rule full_update[OF ok full make_invD(3)[OF inv i]])
  have ge: "wpos k (W i) \<le> wpos k w'" "wpos k w' \<le> end_of k" using step wpos_le[of k w'] by (auto simp: local_step_def)
  show "settled k w'" if "settled k (W i)" "pc_err w' = None"
  proof (cases "pc_at (W i) = AtLoop")
    case True
    then have "wpos k w' = end_of k" using that step by (simp add: local_step_def settled_def)
    then show ?thesis using cut_bounds(4)[OF ok, of "end_of k"] by (simp add: settled_def)
  next
    case False
    then have "wpos k w' = end_of k" using that(1) ge by (simp add: settled_def)
    then show ?thesis using cut_bounds(4)[OF ok, of "end_of k"] by (simp add: settled_def)
  qed
  show "chunk_end k (wstart (W i)) < wpos k w'" if "l \<le> i" "synced w'"
    using step that full_invD(4)[OF full that(1) i] by (auto simp: local_step_def)
qed (use step inv in \<open>auto simp: local_step_def\<close>)


lemma full_pair:
  assumes ok: "blob_ok k" and inv: "make_inv k l n W cur acc" and full: "full_inv k l n W cur" and
    i: "i < n" "l \<le> i" "\<not> pc_done (W i)" "pc_next (W i) = Some v" and step: "sync_step k (W i) (W v) w' v'" and
    stop: "pc_at w' = AtStop \<Longrightarrow> chunk_end k (wstart (W i)) < wpos k (W i)" and
    start: "chan_start k v' = chan_start k (W v) \<or>
        chan_start k v' = chunk_end k (chan_start k (W v)) \<and> (chan_start k (W v) = wstart (W v) \<or> chan_start k (W v) \<le> wpos k (W i))" and
    at: "\<And>c m. pc_at w' \<noteq> AtNulls c m" "pc_at (W i) \<noteq> AtLoop"
  shows "full_inv k l n (W(v := v', i := w')) cur"
proof -
  let ?W = "W(v := v', i := w')"
  note F = full_invD[OF full] and D = make_invD[OF inv]
  note v = links_next(1,2)[OF D(6) i(1,4)]
  obtain a rs s where s: "w' = (W i)\<lparr>pc_at := a\<rparr>" "v' = (W v)\<lparr>pc_results := rs, pc_sync := s\<rparr>" "plain a"
    "chan_start k w' = chan_start k (W i)" using step unfolding sync_step_def by blast
  have n: "nx n (?W j) = nx n (W j)" "pc_next (?W j) = pc_next (W j)" "wstart (?W j) = wstart (W j)" "pc_err (?W j) = pc_err (W j)"
    "pc_done (?W j) = pc_done (W j)" "pc_eof (?W j) = pc_eof (W j)" "wpos k (?W j) = wpos k (W j)" for j
    using s v by (auto simp: nx_def)
  have cs: "chan_start k (?W j) = chan_start k (W j)" if "j \<noteq> v" for j using that s(4) by simp
  have "settled k (W i) \<longrightarrow> settled k w'" using at(2) s(1) cut_bounds(4)[OF ok, of "end_of k"] by (auto simp: settled_def)
  moreover have "settled k v' = settled k (W v)" using s(2) by (simp add: settled_def)
  ultimately have st: "settled k (W j) \<longrightarrow> settled k (?W j)" for j by simp
  have "lag_ok k n ?W l"
    unfolding lag_ok_def n hurt_def
  proof (intro allI impI)
    fix j u assume j: "l \<le> j" "j < n" "\<not> pc_done (W j)" "pc_next (W j) = Some u"
    have old: "hurt n W j \<or> chan_start k (W u) = wstart (W u) \<or> chan_start k (W u) = chunk_end k (wstart (W u)) \<or>
       chan_start k (W u) \<le> chunk_end k (wpos k (W j))" using F(1) j unfolding lag_ok_def by blast
    have "hurt n W j \<or> chan_start k (?W u) = wstart (W u) \<or> chan_start k (?W u) = chunk_end k (wstart (W u)) \<or>
       chan_start k (?W u) \<le> chunk_end k (wpos k (W j))"
    proof (cases "u = v")
      case True
      then have ji: "j = i" using only_consumer[OF D(6) i(1-4) j(2,1)] j(3,4) by blast
      have "chan_start k (?W u) = chan_start k v'" using True v(1) by simp
      then show ?thesis using start old cut_mono[OF ok _ wpos_le[OF D(3)[OF i(1)]], of "chan_start k (W v)"] True ji by auto
    qed (use old cs in simp)
    then show "(\<exists>u. j < u \<and> u < nx n (W j) \<and> pc_err (W u) \<noteq> None) \<or> chan_start k (?W u) = wstart (W u) \<or>
       chan_start k (?W u) = chunk_end k (wstart (W u)) \<or> chan_start k (?W u) \<le> chunk_end k (wpos k (W j))" unfolding hurt_def .
  qed
  moreover have "ends_ok k n ?W l" using F(2) st unfolding ends_ok_def n by blast
  moreover have "main_ok k ?W l cur" using F(3) cs[of l] v(1) i(2) unfolding main_ok_def n by (metis not_le)
  moreover have "chunk_end k (wstart (?W j)) < wpos k (?W j)" if "l \<le> j" "j < n" "synced (?W j)" for j
  proof (cases "j = i")
    case True
    then have "a = AtStop" using that(3) s(1,3) by (auto simp: synced_def leaving_def plain_def)
    then show ?thesis unfolding n using stop s(1) True by simp
  next
    case False
    then have "synced (W j)" using that(3) s(2) by (cases "j = v") (auto simp: synced_def leaving_def)
    then show ?thesis unfolding n using F(4)[OF that(1,2)] by simp
  qed
  moreover have "pc_at (?W j) \<noteq> AtNulls c m" if "j < n" for j c m using F(6)[OF that] F(6)[OF v(2)] at(1) s(2) by simp
  ultimately show ?thesis using F(5) n(3) by (intro full_invI) auto
qed

lemma full_takeover:
  assumes ok: "blob_ok k" and inv: "make_inv k l n W cur acc" and full: "full_inv k l n W cur" and
    i: "i < n" "l \<le> i" "pc_at (W i) = AtCheck" "pc_next (W i) = Some v" and idle: "idle (W v)" and
    w': "w' = (W i)\<lparr>pc_at := AtLoop, pc_next := pc_next (W v)\<rparr>"
  shows "full_inv k l n (W(i := w')) cur"
proof -
  let ?W = "W(i := w')"
  note F = full_invD[OF full] and D = make_invD[OF inv]
  note v = links_next[OF D(6) i(1,4)]
  have run: "\<not> pc_done (W i)" using D(3)[OF i(1)] i(3) by (simp add: worker_ok_def)
  have nw: "nx n w' = nx n (W v)" by (simp add: w' nx_def)
  have ce: "chan_end k w' = chan_end k (W i)" using i(3) by (simp add: chan_end_def w')
  then have cs: "chan_start k w' = chan_start k (W i)" by (simp add: chan_start_def w')
  have n: "wstart (?W j) = wstart (W j)" "pc_err (?W j) = pc_err (W j)" "pc_done (?W j) = pc_done (W j)"
    "pc_eof (?W j) = pc_eof (W j)" "wpos k (?W j) = wpos k (W j)" "chan_start k (?W j) = chan_start k (W j)" for j
    using w' cs by auto
  have wv: "worker_ok k (W v)" "pc_done (W v)" using D(3)[OF v(2)] idle by (auto simp: idle_def)
  have stv: "chan_start k (W v) = wpos k (W v)" "pc_at (W v) \<noteq> AtLoop" "leaving (W v)"
    using wv idle by (auto simp: worker_ok_def idle_def chan_start_def chan_end_def leaving_def)
  have far: "wpos k (W v) \<le> chunk_end k (wpos k (W i))"
    if "\<not> hurt n W i" "pc_err (W v) = None" "pc_next (W v) = Some u" for u
  proof -
    have u: "v < u" "u < n" using links_next[OF D(6) v(2) that(3)] by auto
    have big: "chunk_end k (wstart (W v)) < wpos k (W v)"
    proof (cases "pc_eof (W v)")
      case True
      then have "wpos k (W v) = end_of k" using wv(1) by (simp add: worker_ok_def)
      then show ?thesis using F(5)[of v] u v(1) cut_bounds(3)[OF ok, of "wstart (W v)"] by simp
    next
      case False
      then have "synced (W v)" using stv(3) that(2) by (simp add: synced_def)
      then show ?thesis using F(4)[OF _ v(2)] i(2) v(1) by simp
    qed
    have "wstart (W v) \<le> chunk_end k (wstart (W v))" by (simp add: chunk_end_def)
    then show ?thesis using lag_okD[OF F(1) i(2,1) run i(4) that(1)] stv(1) big by auto
  qed
  have "lag_ok k n ?W l"
    unfolding lag_ok_def n
  proof (intro allI impI)
    fix j u assume j: "l \<le> j" "j < n" "\<not> pc_done (W j)" "pc_next (?W j) = Some u"
    show "hurt n ?W j \<or> chan_start k (W u) = wstart (W u) \<or> chan_start k (W u) = chunk_end k (wstart (W u)) \<or>
       chan_start k (W u) \<le> chunk_end k (wpos k (W j))"
    proof (cases "j = i")
      case True
      then have nv: "pc_next (W v) = Some u" using j(4) w' by simp
      show ?thesis
      proof (cases "hurt n ?W i")
        case True
        then show ?thesis using \<open>j = i\<close> by simp
      next
        case False
        note vu = links_next[OF D(6) v(2) nv]
        have noerr: "pc_err (W x) = None" if "i < x" "x < nx n (W v)" for x
          using False that nw unfolding hurt_def n(2) by auto
        have h: "\<not> hurt n W i" unfolding hurt_def using noerr v(3) vu by (metis less_trans)
        have ev: "pc_err (W v) = None" using noerr v(1) vu by simp
        note le = far[OF h ev nv]
        show ?thesis
        proof (cases "pc_eof (W v)")
          case True
          then have "wpos k (W v) = end_of k" using wv(1) by (simp add: worker_ok_def)
          moreover have "chan_start k (W u) \<le> end_of k" using chan_start_le[OF ok D(3)[OF vu(2)]] .
          ultimately show ?thesis using le \<open>j = i\<close> by simp
        next
          case False
          then have "synced (W v)" using stv(3) ev by (simp add: synced_def)
          moreover have "\<not> passed n W l v"
          proof
            assume "passed n W l v"
            then obtain x where x: "l \<le> x" "x < v" "v < nx n (W x)" by (auto simp: passed_def)
            have "x < n" using x(2) v(2) by simp
            consider "x < i" | "x = i" | "i < x" by linarith
            then show False
            proof cases
              case 1
              then have "idle (W i)" using links_between(1)[OF D(6) x(1) \<open>x < n\<close> 1] x(3) v(1) by simp
              then show False using run by (simp add: idle_def)
            next
              case 2
              then show False using x(3) v(3) by simp
            next
              case 3
              then show False using links_between(2)[OF D(6) i(2,1) 3] x(2,3) v(3) by simp
            qed
          qed
          ultimately obtain u' where "pc_next (W v) = Some u'" "wpos k (W v) = chan_start k (W u')"
            using joins_okE[OF D(8) _ v(2)] i(2) v(1) by (metis less_imp_le order_trans)
          then show ?thesis using le nv \<open>j = i\<close> by simp
        qed
      qed
    next
      case False
      then have "nx n (?W j) = nx n (W j)" by simp
      then have "hurt n ?W j = hurt n W j" unfolding hurt_def n(2) by simp
      then show ?thesis using F(1) j False unfolding lag_ok_def by (metis fun_upd_other)
    qed
  qed
  moreover have "ends_ok k n ?W l"
    unfolding ends_ok_def n
  proof (intro allI impI)
    fix j u x assume j: "l \<le> j" "j < n" "pc_err (W j) = None" "pc_next (?W j) = Some u" "j < x" "x < u" "pc_eof (W x)"
    show "(\<exists>u'. j < u' \<and> u' \<le> x \<and> pc_err (W u') \<noteq> None) \<or> settled k (?W j)"
    proof (cases "j = i")
      case False
      then show ?thesis using F(2) j unfolding ends_ok_def by (metis fun_upd_other)
    next
      case ji: True
      then have nv: "pc_next (W v) = Some u" using j(4) w' by simp
      have goal: "settled k (?W i) \<longleftrightarrow> chunk_end k (wpos k (W i)) = end_of k" by (simp add: settled_def w')
      have le: "chunk_end k (wpos k (W i)) \<le> end_of k" using cut_bounds(2)[OF ok] wpos_le[OF D(3)[OF i(1)]] by simp
      show ?thesis
      proof (cases "\<exists>u'. i < u' \<and> u' \<le> x \<and> pc_err (W u') \<noteq> None")
        case True
        then show ?thesis using ji by blast
      next
        case noerr: False
        consider "x < v" | "v \<le> x" by linarith
        then show ?thesis
        proof cases
          case 1
          then have "settled k (W i)" using F(2) i j(3,5,7) ji noerr unfolding ends_ok_def by blast
          then have "wpos k (W i) = end_of k" using i(3) by (simp add: settled_def)
          then show ?thesis using goal ji cut_bounds(4)[OF ok, of "end_of k"] by simp
        next
          case 2
          have ev: "pc_err (W v) = None" using noerr 2 v(1) by blast
          have h: "\<not> hurt n W i" unfolding hurt_def using noerr 2 v(3) by (metis less_imp_le order_trans)
          have "wpos k (W v) = end_of k"
          proof (cases "x = v")
            case True
            then show ?thesis using j(7) wv(1) by (simp add: worker_ok_def)
          next
            case False
            then have vx: "v < x" "l \<le> v" using 2 i(2) v(1) by auto
            have "(\<exists>u'. v < u' \<and> u' \<le> x \<and> pc_err (W u') \<noteq> None) \<or> settled k (W v)"
              using F(2) vx v(2) ev nv j(6,7) unfolding ends_ok_def by blast
            moreover have "\<nexists>u'. v < u' \<and> u' \<le> x \<and> pc_err (W u') \<noteq> None" using noerr v(1) less_trans by blast
            ultimately have "settled k (W v)" by blast
            then show ?thesis using stv(2) by (simp add: settled_def)
          qed
          then show ?thesis using far[OF h ev nv] le goal ji by simp
        qed
      qed
    qed
  qed
  moreover have "main_ok k ?W l cur" using F(3) unfolding main_ok_def n .
  moreover have "chunk_end k (wstart (?W j)) < wpos k (?W j)" if "l \<le> j" "j < n" "synced (?W j)" for j
    unfolding n using F(4)[OF that(1,2)] that(3) by (cases "j = i") (auto simp: w' synced_def leaving_def)
  moreover have "pc_at (?W j) \<noteq> AtNulls c m" if "j < n" for j c m using F(6)[OF that] w' by simp
  ultimately show ?thesis using F(5) n(1) by (intro full_invI) auto
qed


lemma full_accept:
  assumes ok: "blob_ok k" and inv: "make_inv k l n W l acc" and full: "full_inv k l n W l" and c: "pc_results (W l) = c # rs"
  shows "full_inv k l n (W(l := (W l)\<lparr>pc_results := rs\<rparr>)) l"
proof -
  let ?W = "W(l := (W l)\<lparr>pc_results := rs\<rparr>)"
  note F = full_invD[OF full] and D = make_invD[OF inv]
  have n: "nx n (?W j) = nx n (W j)" "pc_next (?W j) = pc_next (W j)" "wstart (?W j) = wstart (W j)" "pc_err (?W j) = pc_err (W j)"
    "pc_done (?W j) = pc_done (W j)" "pc_eof (?W j) = pc_eof (W j)" "wpos k (?W j) = wpos k (W j)" "pc_at (?W j) = pc_at (W j)"
    "synced (?W j) = synced (W j)" "settled k (?W j) = settled k (W j)" for j
    by (auto simp: nx_def synced_def leaving_def settled_def)
  have next_ne: "v \<noteq> l" if "l \<le> i" "i < n" "pc_next (W i) = Some v" for i v
    using links_next(1)[OF D(6) that(2,3)] that(1) by simp
  have "lag_ok k n ?W l"
    unfolding lag_ok_def hurt_def n
  proof (intro allI impI)
    fix i v assume i: "l \<le> i" "i < n" "\<not> pc_done (W i)" "pc_next (W i) = Some v"
    have "?W v = W v" using next_ne[OF i(1,2,4)] by simp
    then show "(\<exists>u. i < u \<and> u < nx n (W i) \<and> pc_err (W u) \<noteq> None) \<or> chan_start k (?W v) = wstart (W v) \<or>
       chan_start k (?W v) = chunk_end k (wstart (W v)) \<or> chan_start k (?W v) \<le> chunk_end k (wpos k (W i))"
      using F(1) i unfolding lag_ok_def hurt_def by metis
  qed
  moreover have "ends_ok k n ?W l" using F(2) unfolding ends_ok_def n .
  moreover have "main_ok k ?W l l" unfolding main_ok_def by simp
  ultimately show ?thesis using full unfolding full_inv_def n by blast
qed

lemma full_next:
  assumes inv: "make_inv k l n W cur acc" and full: "full_inv k l n W cur" and
    w: "pc_closed (W cur)" "pc_err (W cur) = None"
  shows "cur < l \<Longrightarrow> full_inv k l n W (Suc cur)"
    "cur = l \<Longrightarrow> pc_next (W l) = Some v \<Longrightarrow> wpos k (W l) = chan_start k (W v) \<Longrightarrow> full_inv k v n W (Suc cur)"
proof -
  note F = full_invD[OF full] and D = make_invD[OF inv]
  show "full_inv k l n W (Suc cur)" if "cur < l"
  proof -
    have "main_ok k W l (Suc cur)" using F(3) w(2) unfolding main_ok_def by (metis Suc_leD Suc_leI le_neq_implies_less)
    then show ?thesis using F by (intro full_invI) auto
  qed
  assume c: "cur = l" "pc_next (W l) = Some v" "wpos k (W l) = chan_start k (W v)"
  note v = links_next[OF D(6,1) c(2)]
  have lv: "l \<le> i" if "v \<le> i" for i using that v(1) by simp
  have at: "pc_at (W l) = Exited" using D(3)[OF D(1)] w(1) c(1) by (simp add: worker_ok_def)
  have "main_ok k W v (Suc cur)"
    unfolding main_ok_def
  proof (intro allI impI)
    fix u assume u: "Suc cur \<le> u" "u < v" "pc_eof (W u)"
    then have "(\<exists>u'. l < u' \<and> u' \<le> u \<and> pc_err (W u') \<noteq> None) \<or> settled k (W l)"
      using F(2) D(1) w(2) c(1,2) unfolding ends_ok_def by (metis Suc_le_lessD order_refl)
    then show "(\<exists>u'. Suc cur \<le> u' \<and> u' \<le> u \<and> pc_err (W u') \<noteq> None) \<or> chan_start k (W v) = end_of k"
      using at c by (auto simp: settled_def Suc_le_eq)
  qed
  moreover have "lag_ok k n W v" using F(1) lv unfolding lag_ok_def by blast
  moreover have "ends_ok k n W v" using F(2) lv unfolding ends_ok_def by blast
  ultimately show "full_inv k v n W (Suc cur)" using F(4-6) lv by (intro full_invI) auto
qed


abbreviation state_full :: "blob \<Rightarrow> nat \<Rightarrow> make_state \<Rightarrow> bool" where
  "state_full k l st \<equiv> full_inv k l (length (ms_workers st)) ((!) (ms_workers st)) (ms_current st)"

definition no_nulls :: "blob \<Rightarrow> NullChunk \<Rightarrow> bool" where
  "no_nulls k null \<longleftrightarrow> nc_id null \<noteq> zero_id \<and> (\<forall>p < end_of k. ic_id (chunk_at k p) \<noteq> nc_id null)"

lemma worker_step_full:
  assumes ok: "blob_ok k" "null_ok k null" "no_nulls k null" and inv: "state_inv k l st" and full: "state_full k l st" and
    i: "i < length (ms_workers st)" and step: "pChunker_step (bl_codec k) null i st = Some (Ok st')"
  shows "state_full k l st'"
proof -
  let ?W = "(!) (ms_workers st)"
  note R = running_next[OF inv i] and F = full_invD[OF full]
  have w: "worker_ok k (?W i)" using make_invD(3)[OF inv i] .
  have nx: "\<forall>v. pc_next (?W i) = Some v \<longrightarrow> \<not> pc_done (?W i) \<longrightarrow>
      worker_ok k (?W v) \<and> sync_ok k (?W v) \<and> link_at k (?W v) (pc_at (?W i)) \<and> wstart (?W i) < wstart (?W v)"
    using R by blast
  show ?thesis
  proof (cases rule: step_cases[OF ok(1,2) w nx step])
    case (1 w')
    show ?thesis using full_local[OF ok(1) inv full i 1(2)] 1 i by (simp add: nth_update)
  next
    case (2 v w' v')
    have nd: "\<not> pc_done (?W i)" using w 2(3) by (auto simp: worker_ok_def leaving_def)
    have an: "pc_at (?W i) \<noteq> AtNulls c m" for c m using F(6)[OF i] .
    have "ic_id (pc_sync (?W v)) \<noteq> nc_id null"
      using R(5)[OF nd 2(2)] ok(3) by (auto simp: sync_ok_def no_nulls_def)
    then have at: "pc_at w' \<noteq> AtNulls c m" for c m using 2(7)[of c m] an by blast
    have "full_inv k l (length (ms_workers st)) (?W(v := v', i := w')) (ms_current st)"
      using 2(5,6) an by (intro full_pair[OF ok(1) inv full i R(1)[OF nd 2(2)] nd 2(2,4) _ _ at 2(8)]) auto
    then show ?thesis using 2 i R(3)[OF nd 2(2)] by (simp add: nth_update)
  next
    case (3 v)
    have nd: "\<not> pc_done (?W i)" using w 3(2) by (auto simp: worker_ok_def)
    show ?thesis using full_takeover[OF ok(1) inv full i R(1)[OF nd 3(3)] 3(2,3,4) refl] 3 i by (simp add: nth_update)
  qed
qed

lemma main_step_full:
  assumes ok: "blob_ok k" and inv: "state_inv k l st" and full: "state_full k l st" and step: "main_step st = Some (Continue st')"
  shows "\<exists>l'. state_inv k l' st' \<and> state_full k l' st'"
proof -
  let ?W = "(!) (ms_workers st)" and ?c = "ms_current st"
  have c: "?c < length (ms_workers st)" using make_invD(1,2)[OF inv] by simp
  show ?thesis
  proof (cases "pc_results (?W ?c)")
    case (Cons a rs)
    note A = inv_accept[OF ok inv Cons]
    have cl: "?c = l" using A by simp
    have "full_inv k l (length (ms_workers st)) (?W(l := (?W l)\<lparr>pc_results := rs\<rparr>)) l"
      using inv full Cons cl by (intro full_accept[OF ok, where acc = "ms_chunks st" and c = a]) simp_all
    then show ?thesis using A step c cl
      by (intro exI[of _ l]) (auto simp: main_step_def Let_def set_worker_def nth_update Cons split: list.splits)
  next
    case Nil
    then have w: "pc_closed (?W ?c)" "pc_err (?W ?c) = None" "\<not> pc_eof (?W ?c)" "st' = st\<lparr>ms_current := ?c + 1\<rparr>"
      using step c by (auto simp: main_step_def Let_def split: if_splits option.splits)
    then show ?thesis using inv_next[OF inv Nil] full_next[OF inv full] make_invD(2)[OF inv] by (cases "?c < l") auto
  qed
qed

text \<open>The chunks are complete when the main routine returns without an error.\<close>

lemma main_step_complete:
  assumes inv: "state_inv k l st" and full: "state_full k l st" and step: "main_step st = Some (Return (Ok ()))"
  shows "run_of k 0 (ms_chunks st) (end_of k)"
proof -
  let ?W = "(!) (ms_workers st)" and ?c = "ms_current st"
  note D = make_invD[OF inv]
  have c: "?c < length (ms_workers st)" using D(1,2) by simp
  have w: "pc_results (?W ?c) = []" "pc_closed (?W ?c)" "pc_err (?W ?c) = None" "pc_eof (?W ?c)"
    using step c by (auto simp: main_step_def Let_def split: if_splits option.splits list.splits)
  have "chan_start k (?W l) = end_of k"
  proof (cases "?c < l")
    case True
    then have "(\<exists>u'. ?c \<le> u' \<and> u' \<le> ?c \<and> pc_err (?W u') \<noteq> None) \<or> chan_start k (?W l) = end_of k"
      using full_invD(3)[OF full] w(4) unfolding main_ok_def by blast
    then show ?thesis using w(3) by auto
  next
    case False
    then have l: "?c = l" using D(2) by simp
    have "pc_at (?W l) = Exited" "wpos k (?W l) = end_of k" using D(3)[OF D(1)] w l by (auto simp: worker_ok_def)
    then show ?thesis using w(1) l by (simp add: chan_start_def chan_end_def)
  qed
  then show ?thesis using D(9) by simp
qed

lemma make_run_complete:
  assumes "make_run (bl_codec k) null stops st r st'" "blob_ok k" "null_ok k null" "no_nulls k null" "state_inv k l st" "state_full k l st"
    "r = Ok ()"
  shows "run_of k 0 (ms_chunks st') (end_of k)"
  using assms
proof (induction arbitrary: l rule: make_run.induct)
  case (returned st r)
  then show ?case using main_step_complete by blast
next
  case (main st st' r st'')
  then show ?case using main_step_full by blast
next
  case (worker i st st' r st'')
  then show ?case using worker_step_inv worker_step_full by blast
next
  case (interrupted i e st r st'')
  note i = interrupted.hyps(2,3)
  have s: "local_step k (ms_workers st ! i) (interrupt e (ms_workers st ! i))"
    using interrupt_local make_invD(3)[OF interrupted.prems(4)] i by simp
  have "state_inv k l (set_worker i (interrupt e (ms_workers st ! i)) st)" "state_full k l (set_worker i (interrupt e (ms_workers st ! i)) st)"
    using inv_local_step[OF interrupted.prems(4) i(1) s] full_local[OF interrupted.prems(1,4,5) i(1) s] i(1)
    by (simp_all add: set_worker_def nth_update)
  then show ?case using interrupted.IH interrupted.prems by blast
qed auto

end
