(* ===== verification/Make_Start.thy ===== *)
theory Make_Start
  imports Make_Complete
begin

text \<open>
  The state in which \<open>IndexFromFile\<close> of \<^verbatim>\<open>src/make.go\<close> starts its workers, and that the invariants hold there.
\<close>

section \<open>The initial state\<close>

lemma NewChunker_cuts:
  assumes "NewChunker conv r mn avg mx = Ok c" "NewChunker conv r' mn avg mx = Ok c'"
  shows "is_boundary c' = is_boundary c"
  using NewChunker_fields[OF assms(1)] NewChunker_fields[OF assms(2)]
  by (simp add: Let_def is_boundary_def fun_eq_iff)

lemma new_workers_nth:
  assumes "new_workers conv f sz span mn avg mx n is = Ok ws"
  shows "length ws = length is \<and> (\<forall>j < length is. new_worker conv f sz span mn avg mx n (is ! j) = Ok (ws ! j))"
  using assms
proof (induction "is" arbitrary: ws)
  case (Cons i "is")
  then obtain w ws' where w: "new_worker conv f sz span mn avg mx n i = Ok w" "ws = w # ws'"
    "new_workers conv f sz span mn avg mx n is = Ok ws'" by (auto simp: res_simps)
  then show ?case using Cons.IH[OF w(3)] by (auto simp: nth_Cons split: nat.splits)
qed simp

definition blob_of :: "codec_fns \<Rightarrow> Chunker \<Rightarrow> u64 \<Rightarrow> u64 \<Rightarrow> bytes \<Rightarrow> blob" where
  "blob_of cr c mn mx data = \<lparr>bl_codec = cr, bl_bnd = is_boundary c, bl_min = unat mn, bl_max = unat mx, bl_data = data\<rparr>"

lemma blob_of_simps [simp]:
  "bl_codec (blob_of cr c mn mx data) = cr" "bl_bnd (blob_of cr c mn mx data) = is_boundary c" "bl_min (blob_of cr c mn mx data) = unat mn"
  "bl_max (blob_of cr c mn mx data) = unat mx" "bl_data (blob_of cr c mn mx data) = data"
  by (simp_all add: blob_of_def)

lemma worker_init:
  assumes c: "NewChunker conv r mn avg mx = Ok c" and lt: "mn < mx" and alloc: "10 * unat mx \<le> max_alloc" and
    w: "new_worker conv f sz span mn avg mx n i = Ok w" and fit: "unat span * i \<le> length (if_data f)" "length (if_data f) < 2 ^ 63" and
    k: "k = blob_of cr c mn mx (if_data f)"
  shows "worker_ok k w \<and> wstart w = unat span * i \<and> sync_ok k w \<and> chan_start k w = unat span * i \<and> pc_at w = AtLoop \<and>
    pc_next w = (if Suc i < n then Some (Suc i) else None) \<and> pc_err w = None \<and> \<not> pc_eof w \<and> \<not> pc_done w"
proof -
  let ?s = "span * word_of_nat i"
  have i: "unat (word_of_nat i :: u64) = i" if "span \<noteq> 0"
  proof -
    have "0 < unat span" using that by (simp add: unat_gt_0)
    then have "i \<le> unat span * i" by (cases "unat span") auto
    moreover have "length (if_data f) < 2 ^ 64" using fit(2) by simp
    ultimately have "i < 2 ^ 64" using fit(1) by linarith
    then show ?thesis by (simp add: unat_of_nat take_bit_nat_eq_self)
  qed
  have us: "unat ?s = unat span * i"
  proof (cases "span = 0")
    case False
    then show ?thesis using i fit by (subst unat_word_ariths) simp
  qed simp
  obtain sizes eager c' where w': "NewChunker conv \<lparr>rd_data = drop (unat ?s) (if_data f), rd_end = EOF, rd_sizes = sizes,
       rd_eager = eager, rd_seeker = True\<rparr> mn avg mx = Ok c'"
    "pc_results w = []" "pc_closed w = False" "pc_chunker w = c'" "pc_offset w = ?s" "pc_done w = False" "pc_err w = None"
    "pc_next w = (if Suc i < n then Some (Suc i) else None)" "pc_eof w = False" "pc_sync w = zero_chunk" "pc_at w = AtLoop"
    using w by (auto simp: new_worker_def Let_def res_simps split: if_splits)
  note fl = NewChunker_fields[OF w'(1)] and ci = NewChunker_inv[OF w'(1) lt alloc]
  have "chunker_at k c' ?s (unat ?s)"
    unfolding chunker_at_def
    using ci fl fit(1)[folded us] NewChunker_cuts[OF c w'(1)] by (simp add: k)
  then have at: "chunker_at k c' ?s (unat span * i)" unfolding us .
  have ws: "wstart w = unat span * i" using us w' by (simp add: wstart_def)
  have wp: "wpos k w = unat span * i" using wpos_chunker_at[of k w] at w' by simp
  then have ce: "chan_start k w = unat span * i" "chan_end k w = unat span * i" using w' by (simp_all add: chan_start_def chan_end_def)
  have "worker_ok k w" using at w' ws wp ce by (simp add: worker_ok_def leaving_def)
  moreover have "sync_ok k w" using w' ce ws by (simp add: sync_ok_def)
  ultimately show ?thesis using w' ws ce by simp
qed

text \<open>The distance between the workers.\<close>

lemma worker_spacing:
  assumes "(n - 1) * mx \<le> len" "48 < mx" "0 < n"
  shows "2 \<le> n \<Longrightarrow> 0 < len div n" "0 < i \<Longrightarrow> Suc i < n \<Longrightarrow> len div n * i + mx < len"
proof -
  let ?sp = "len div n"
  have up: "?sp * n \<le> len" "len < ?sp * n + n" using assms(3) dividend_less_times_div[of n len] by (auto simp: algebra_simps)
  show "0 < ?sp" if "2 \<le> n"
  proof -
    define m where "m = n - 2"
    then have m: "n = m + 2" using that by simp
    have "(m + 1) * 49 \<le> (m + 1) * mx" using assms(2) by (intro mult_le_mono) auto
    then have "n \<le> len" using assms(1) m by simp
    then show ?thesis using assms(3) by (simp add: div_greater_zero_iff)
  qed
  show "?sp * i + mx < len" if i: "0 < i" "Suc i < n"
  proof -
    define m where "m = n - 3"
    then have m: "n = m + 3" using i by simp
    have "mx < 2 * ?sp"
    proof (rule ccontr)
      assume "\<not> mx < 2 * ?sp"
      then have "2 * ?sp * n \<le> mx * n" by (intro mult_le_mono1) simp
      moreover have "2 * ?sp * n = 2 * (?sp * n)" by simp
      moreover have "(m + 2) * mx \<le> len" using assms(1) m by simp
      ultimately have "2 * ((m + 2) * mx) < mx * n + 2 * n" using up(2) by linarith
      then have "2 * ((m + 2) * mx) < mx * (m + 3) + 2 * (m + 3)" unfolding m .
      then have "(m + 1) * mx < 2 * (m + 3)" by (simp add: algebra_simps)
      moreover have "(m + 1) * 49 \<le> (m + 1) * mx" using assms(2) by (intro mult_le_mono) auto
      ultimately show False by simp
    qed
    moreover have "?sp * (i + 2) \<le> ?sp * n" using i by (intro mult_le_mono2) simp
    then have "?sp * i + 2 * ?sp \<le> ?sp * n" by (simp add: algebra_simps)
    ultimately show ?thesis using up(1) by linarith
  qed
qed


lemma worker_count_bound:
  assumes "worker_count n sz mx = Ok N" "unat sz = len" "len < 2 ^ 63" "48 < unat mx" "n < 2 ^ 63" "\<not> N < 0" "(word_of_int N :: u64) \<noteq> 0"
  shows "0 < nat N" "(nat N - 1) * unat mx \<le> len" "unat (word_of_int N :: u64) = nat N"
proof -
  show "0 < nat N" using assms(6,7) by (cases "N = 0") auto
  let ?nn = "sz div mx + 1"
  have "len div unat mx \<le> len" by simp
  then have d: "len div unat mx < 2 ^ 63" using assms(3) by linarith
  have "unat (sz div mx) + unat (1 :: u64) < 2 ^ 64" using assms(2,3) d by (simp add: unat_div)
  then have nn: "unat ?nn = len div unat mx + 1" using assms(2) by (simp add: unat_add_small unat_div)
  have le: "nat N \<le> len div unat mx + 1 \<and> N < 2 ^ 63"
  proof (cases "?nn < word_of_int n")
    case True
    have "len div unat mx < 2 ^ 62" using assms(3,4) by (intro div_less_iff_less_mult[THEN iffD2]) (auto intro: order_less_le_trans)
    then have "sint ?nn = int (unat ?nn)" using nn by (intro sint_small_u64) simp
    then show ?thesis using assms(1,4) True nn \<open>len div unat mx < 2 ^ 62\<close> by (auto simp: worker_count_def Let_def split: if_splits)
  next
    case False
    then have N: "N = n" using assms(1) by (auto simp: worker_count_def Let_def split: if_splits)
    have "unat (word_of_int n :: u64) = nat n"
      using assms(5,6) N by (simp add: unsigned_of_int take_bit_int_eq_self)
    then have "nat n \<le> unat ?nn" using False by (simp add: word_le_nat_alt not_less)
    then show ?thesis using nn N assms(5) by simp
  qed
  then show "unat (word_of_int N :: u64) = nat N" using assms(6) by (simp add: unsigned_of_int take_bit_int_eq_self)
  have "(nat N - 1) * unat mx \<le> len div unat mx * unat mx" using le by (intro mult_le_mono1) linarith
  then show "(nat N - 1) * unat mx \<le> len" using div_times_less_eq_dividend[of len "unat mx"] by linarith
qed

lemma make_start_inv:
  assumes start: "make_start conv cr sha512 f n mn avg mx = Ok (index, null, st)" and sz: "if_size f = Ok (ulen (if_data f))"
    and len: "length (if_data f) < 2 ^ 63" and n: "n < 2 ^ 63" and c: "NewChunker conv r mn avg mx = Ok c" and lt: "mn < mx" and
    alloc: "10 * unat mx \<le> max_alloc" and k: "k = blob_of cr c mn mx (if_data f)"
  shows "blob_ok k \<and> state_inv k 0 st \<and> state_full k 0 st \<and> nc_data null = replicate (unat mx) 0 \<and>
    nc_id null = Digest_Sum cr (replicate (unat mx) 0)"
proof -
  let ?D = "if_data f" and ?ws = "ms_workers st"
  obtain N where N: "worker_count n (ulen ?D) mx = Ok N" "(word_of_int N :: u64) \<noteq> 0" "NewNullChunk cr mx = Ok null" "\<not> N < 0"
    "new_workers conv f (ulen ?D) (ulen ?D div word_of_int N) mn avg mx (nat N) [0..<nat N] = Ok ?ws" "ms_current st = 0" "ms_chunks st = []"
    using start sz by (auto simp: make_start_def Let_def res_simps split: if_splits option.splits)
  have mx: "48 \<le> unat mn" "unat mn < unat mx" "48 < unat mx"
    using NewChunker_fields[OF c] lt by (auto simp: word_less_nat_alt)
  have ul: "unat (ulen ?D) = length ?D" using len by (simp add: unat_of_nat take_bit_nat_eq_self)
  note W = worker_count_bound[OF N(1) ul len mx(3) n N(4,2)]
  let ?N = "nat N" and ?sp = "length ?D div nat N"
  have sp: "unat (ulen ?D div word_of_int N) = ?sp" using ul W(3) by (simp add: unat_div)
  note space = worker_spacing[OF W(2) mx(3) W(1)]
  have fit: "?sp * i \<le> length ?D" if "i < ?N" for i
    using that div_times_less_eq_dividend[of "length ?D" ?N] by (meson le_trans less_imp_le mult_le_mono2)
  note nth = new_workers_nth[OF N(5)]
  have L: "length ?ws = ?N" using nth by simp
  have w: "worker_ok k (?ws ! i) \<and> wstart (?ws ! i) = ?sp * i \<and> sync_ok k (?ws ! i) \<and> chan_start k (?ws ! i) = ?sp * i \<and> pc_at (?ws ! i) = AtLoop \<and>
    pc_next (?ws ! i) = (if Suc i < ?N then Some (Suc i) else None) \<and> pc_err (?ws ! i) = None \<and> \<not> pc_eof (?ws ! i) \<and> \<not> pc_done (?ws ! i)" if "i < ?N" for i
    using worker_init[OF c lt alloc _ _ len k, of "ulen ?D" "ulen ?D div word_of_int N" ?N i "?ws ! i"] nth that fit sp by simp
  have nx: "nx ?N (?ws ! i) = Suc i" if "i < ?N" for i using w[OF that] that by (auto simp: nx_def)
  have ok: "blob_ok k" using mx len by (simp add: blob_ok_def k ChunkerWindowSize_def)
  have nsync: "\<not> synced (?ws ! i)" if "i < ?N" for i using w[OF that] by (simp add: synced_def leaving_def)
  have "make_inv k 0 ?N ((!) ?ws) 0 []"
  proof (rule make_invI)
    show "wstart (?ws ! i) < wstart (?ws ! j)" if "i < j" "j < ?N" for i j
      using w[of i] w[of j] that space(1) by simp
    show "links_ok ?N ((!) ?ws) 0"
      unfolding links_ok_def using w nx by (auto split: if_splits)
    show "pairs_ok k ?N ((!) ?ws) 0" unfolding pairs_ok_def using w by simp
    show "joins_ok k ?N ((!) ?ws) 0" unfolding joins_ok_def using nsync by blast
    show "run_of k 0 [] (chan_start k (?ws ! 0))" using w[OF W(1)] by simp
  qed (use w W(1) in auto)
  moreover have "full_inv k 0 ?N ((!) ?ws) 0"
  proof (rule full_invI)
    show "lag_ok k ?N ((!) ?ws) 0" unfolding lag_ok_def using w by (auto split: if_splits)
    show "ends_ok k ?N ((!) ?ws) 0" unfolding ends_ok_def using w by (auto split: if_splits)
    show "main_ok k ((!) ?ws) 0 0" by (simp add: main_ok_def)
    show "wstart (?ws ! i) + bl_max k < end_of k" if "0 < i" "Suc i < ?N" for i using space(2)[OF that] w[of i] that by (simp add: k)
  qed (use nsync w in auto)
  moreover have "nc_data null = replicate (unat mx) 0" "nc_id null = Digest_Sum cr (replicate (unat mx) 0)"
    using N(3) by (auto simp: NewNullChunk_def res_simps)
  ultimately show ?thesis using ok L N(6,7) by simp
qed

end
