(* ===== verification/Make_Runs.thy ===== *)
theory Make_Runs
  imports Make_Start
begin

text \<open>
  The digest of the null chunk, the index of a single chunker, and two complete runs of the workers of
  \<^verbatim>\<open>src/make.go\<close>: one with three workers over a file with a long area of null bytes, in which the last
  chunk is lost, and one with a single worker.
\<close>

section \<open>The single stream\<close>

text \<open>The chunks of an index for the chunks that a chunker returns.\<close>

definition index_chunks :: "codec_fns \<Rightarrow> (u64 \<times> bytes) list \<Rightarrow> IndexChunk list" where
  "index_chunks cr cs = map (\<lambda>(s, b). \<lparr>ic_id = Digest_Sum cr b, ic_start = s, ic_size = ulen b\<rparr>) cs"

text \<open>The digest of the null chunk is that of no other chunk, nor the identifier of no chunk.\<close>

definition null_unique :: "codec_fns \<Rightarrow> nat \<Rightarrow> bool" where
  "null_unique cr mx \<longleftrightarrow> Digest_Sum cr (replicate mx 0) \<noteq> zero_id \<and>
     (\<forall>b. length b \<le> mx \<longrightarrow> Digest_Sum cr b = Digest_Sum cr (replicate mx 0) \<longrightarrow> b = replicate mx 0)"

lemma null_unique_ok:
  assumes "blob_ok k" "null_unique (bl_codec k) (bl_max k)" "nc_data null = replicate (bl_max k) 0"
    "nc_id null = Digest_Sum (bl_codec k) (replicate (bl_max k) 0)"
  shows "null_ok k null"
proof -
  have "nulls_from k p 1" if p: "p < end_of k" "ic_id (chunk_at k p) = nc_id null" for p
  proof -
    let ?s = "slice (bl_data k) p (chunk_end k p)"
    have b: "p < chunk_end k p" "chunk_end k p \<le> end_of k" "chunk_end k p \<le> p + bl_max k"
      using cut_bounds[OF assms(1), of p] p(1) by auto
    then have l: "length ?s = chunk_end k p - p" by simp
    then have s: "?s = replicate (bl_max k) 0" using assms(2,4) p(2) b by (auto simp: null_unique_def chunk_at_def)
    then have "chunk_end k p = p + bl_max k" using l b by simp
    then show ?thesis using s b by (simp add: nulls_from_def null_at_def)
  qed
  then show ?thesis using assms(2-4) by (auto simp: null_ok_def null_unique_def)
qed

lemma single_stream:
  assumes "NewChunker conv src mn avg mx = Ok c" "mn < mx" "10 * unat mx \<le> max_alloc" "rd_end src = EOF" "length (rd_data src) < 2 ^ 63"
    "all_chunks (Suc (length (rd_data src))) c = Ok cs" "k = blob_of cr c mn mx (rd_data src)"
  shows "run_of k 0 (index_chunks cr cs) (end_of k)"
proof -
  have "unat mn < unat mx" "48 \<le> unat mn" using NewChunker_fields[OF assms(1)] assms(2) by (auto simp: word_less_nat_alt)
  then have ok: "blob_ok k" using assms(5,7) by (simp add: blob_ok_def ChunkerWindowSize_def)
  have "cs = with_starts 0 (chunk_list (is_boundary c) (unat mn) (unat mx) (rd_data src))"
    using NewChunker_all_chunks[OF assms(1-4)] assms(6) by simp
  then show ?thesis using chunk_list_run[OF ok, of 0] assms(7) by (simp add: index_chunks_def)
qed

section \<open>A run that loses a chunk\<close>

definition trap_data :: bytes where
  "trap_data = replicate 350 0 @ [79] @ replicate 99 0"

definition trap_codec :: codec_fns where
  "trap_codec = \<lparr>Digest_Sum = (\<lambda>b. if b = replicate 100 0 then replicate 32 7 else 1 # take 31 (b @ replicate 31 2)),
     Compress = (\<lambda>b. b), Decompress = Ok\<rparr>"

definition trap_file :: input_file where
  "trap_file = \<lparr>if_data = trap_data, if_open = None, if_size = Ok 450, if_workers = (\<lambda>_. Ok ([], False)), if_read = (\<lambda>_. None)\<rparr>"

lemma trap_null_unique: "null_unique trap_codec 100"
proof -
  have "1 # xs \<noteq> replicate 32 (7 :: byte)" for xs using replicate_Suc[of 31 "7 :: byte"] by simp
  then show ?thesis by (auto simp: null_unique_def trap_codec_def zero_id_def chunk_id_len_def)
qed

lemma length_trap [simp]: "length trap_data = 450"
  by (simp add: trap_data_def)

lemma nth_trap: "i < 450 \<Longrightarrow> trap_data ! i = (if i = 350 then 79 else 0)"
  by (auto simp: trap_data_def nth_append nth_Cons')

lemma window_zero:
  assumes "48 \<le> q" "q \<le> 350 \<or> 399 \<le> q" "q \<le> 450"
  shows "slice trap_data (q - 48) q = replicate 48 0"
  using assms by (intro nth_equalityI) (auto simp: slice_def nth_trap)

lemma window_trap: "slice trap_data 303 351 = replicate 47 0 @ [79]"
  by (rule nth_equalityI) (auto simp: slice_def nth_trap nth_append)

lemma hash_values: "hash_of (replicate 48 0) = 0x9e489e48" "hash_of (replicate 47 0 @ [79]) = 0x1db7a665"
  by code_simp+

text \<open>Where the chunks of this file end.\<close>

definition trap_boundary :: "(u32 \<Rightarrow> bool) \<Rightarrow> bool" where
  "trap_boundary b \<longleftrightarrow> \<not> b 0x9e489e48 \<and> b 0x1db7a665"

lemma boundary_trap:
  assumes "trap_boundary b"
  shows "48 \<le> q \<Longrightarrow> q \<le> 350 \<or> 399 \<le> q \<Longrightarrow> q \<le> 450 \<Longrightarrow> \<not> boundary_at b trap_data q" "boundary_at b trap_data 351"
  using assms window_zero[of q] window_trap hash_values by (simp_all add: boundary_at_def ChunkerWindowSize_def trap_boundary_def)

lemma first_boundary_eq:
  assumes "p \<le> r" "r \<le> m" "\<forall>q. p \<le> q \<and> q < r \<longrightarrow> \<not> boundary_at b bs q" "r = m \<or> boundary_at b bs r"
  shows "first_boundary b bs p m = r"
proof (rule antisym)
  show "r \<le> first_boundary b bs p m" using first_boundary_ge[OF assms(3,2)] .
  show "first_boundary b bs p m \<le> r"
  proof (rule ccontr)
    assume "\<not> first_boundary b bs p m \<le> r"
    then have lt: "r < first_boundary b bs p m" by simp
    then have "\<not> boundary_at b bs r" "r < m" using first_boundary_none[OF assms(1) lt] first_boundary_bounds[of p m b bs] assms(1,2) by auto
    then show False using assms(4) by simp
  qed
qed

definition trap_blob :: "(u32 \<Rightarrow> bool) \<Rightarrow> blob" where
  "trap_blob b = \<lparr>bl_codec = trap_codec, bl_bnd = b, bl_min = 48, bl_max = 100, bl_data = trap_data\<rparr>"

lemma trap_end:
  assumes "trap_boundary b" "p + 48 < e" "e \<le> 450" "e \<le> p + 100" "e = 450 \<or> e = p + 100 \<or> e = 351" "e \<le> 351 \<or> 350 \<le> p"
  shows "chunk_end (trap_blob b) p = e"
proof -
  have "first_boundary b (drop p trap_data) 49 (min (450 - p) 100) = e - p"
  proof (rule first_boundary_eq)
    show "\<forall>q. 49 \<le> q \<and> q < e - p \<longrightarrow> \<not> boundary_at b (drop p trap_data) q"
    proof (intro allI impI)
      fix q assume q: "49 \<le> q \<and> q < e - p"
      then have "p + q \<le> 350 \<or> 399 \<le> p + q" "p + q \<le> 450" using assms(2,3,6) by auto
      then show "\<not> boundary_at b (drop p trap_data) q"
        using boundary_trap(1)[OF assms(1), of "p + q"] q by (simp add: boundary_drop ChunkerWindowSize_def)
    qed
    show "e - p = min (450 - p) 100 \<or> boundary_at b (drop p trap_data) (e - p)"
      using assms(2-5) boundary_trap(2)[OF assms(1)] by (auto simp: boundary_drop ChunkerWindowSize_def)
  qed (use assms(2-4) in auto)
  then show ?thesis using assms(2-3) by (simp add: chunk_end_def trap_blob_def cut_len_def)
qed

lemma trap_ends:
  assumes "trap_boundary b"
  shows "chunk_end (trap_blob b) 0 = 100" "chunk_end (trap_blob b) 100 = 200" "chunk_end (trap_blob b) 200 = 300" "chunk_end (trap_blob b) 300 = 351"
    "chunk_end (trap_blob b) 150 = 250" "chunk_end (trap_blob b) 250 = 350" "chunk_end (trap_blob b) 350 = 450" "chunk_end (trap_blob b) 351 = 450"
  by (simp_all add: trap_end[OF assms])

text \<open>Steps of the workers in a given order.\<close>

fun steps :: "codec_fns \<Rightarrow> NullChunk \<Rightarrow> nat list \<Rightarrow> make_state \<Rightarrow> make_state" where
  "steps cr null [] st = st"
| "steps cr null (i # is) st = steps cr null is (case pChunker_step cr null i st of Some (Ok st') \<Rightarrow> st' | _ \<Rightarrow> st)"

lemma steps_append: "steps cr null (is @ js) st = steps cr null js (steps cr null is st)"
  by (induction "is" arbitrary: st) auto

lemma step_length:
  "pChunker_step cr null i st = Some (Ok st') \<Longrightarrow> length (ms_workers st') = length (ms_workers st)"
  by (auto simp: pChunker_step_def Let_def set_worker_def res_simps split: program_point.splits option.splits if_splits nat.splits prod.splits)

lemma steps_run:
  "make_run cr null stops (steps cr null is st) r st' \<Longrightarrow> \<forall>i \<in> set is. i < length (ms_workers st) \<Longrightarrow> make_run cr null stops st r st'"
proof (induction "is" arbitrary: st)
  case (Cons i "is")
  show ?case
  proof (cases "\<exists>st1. pChunker_step cr null i st = Some (Ok st1)")
    case True
    then obtain st1 where s: "pChunker_step cr null i st = Some (Ok st1)" by blast
    then have "make_run cr null stops st1 r st'" using Cons step_length[OF s] by simp
    moreover have "i < length (ms_workers st)" using Cons.prems(2) by simp
    ultimately show ?thesis by (metis make_run.worker s)
  next
    case False
    then have "(case pChunker_step cr null i st of Some (Ok st') \<Rightarrow> st' | _ \<Rightarrow> st) = st"
      by (auto split: option.splits res.splits)
    then show ?thesis using Cons by simp
  qed
qed simp

definition next_chunker :: "Chunker \<Rightarrow> Chunker" where
  "next_chunker c = (case Chunker_Next c of Ok (start, b, err, c') \<Rightarrow> c' | _ \<Rightarrow> c)"

lemma produce_at:
  assumes "blob_ok k" "chunker_at k (pc_chunker w) (pc_offset w) p" "p < end_of k"
  shows "produce (bl_codec k) w = Ok (True, w\<lparr>pc_chunker := next_chunker (pc_chunker w), pc_at := AtSend (chunk_at k p)\<rparr>)"
    "chunker_at k (next_chunker (pc_chunker w)) (pc_offset w) (chunk_end k p)"
proof -
  obtain c where c: "Chunker_Next (pc_chunker w) = Ok (c_start (pc_chunker w), slice (bl_data k) p (chunk_end k p), None, c)"
    "chunker_at k c (pc_offset w) (chunk_end k p)" using chunker_at_Next[OF assms(1,2)] by blast
  have g: "p < chunk_end k p" "chunk_end k p \<le> end_of k" using cut_bounds(1,2)[OF assms(1), of p] assms(3) by auto
  have s: "slice (bl_data k) p (chunk_end k p) \<noteq> []" "length (slice (bl_data k) p (chunk_end k p)) = chunk_end k p - p"
    using g by (auto simp: slice_def)
  have st: "c_start (pc_chunker w) + pc_offset w = word_of_nat p" using assms(2) by (simp add: chunker_at_def)
  show "produce (bl_codec k) w = Ok (True, w\<lparr>pc_chunker := next_chunker (pc_chunker w), pc_at := AtSend (chunk_at k p)\<rparr>)"
    using c(1) s by (simp add: produce_def next_chunker_def Let_def chunk_at_def st)
  show "chunker_at k (next_chunker (pc_chunker w)) (pc_offset w) (chunk_end k p)" using c by (simp add: next_chunker_def)
qed

lemma produce_end:
  assumes "blob_ok k" "chunker_at k (pc_chunker w) (pc_offset w) (end_of k)"
  shows "produce (bl_codec k) w = Ok (True, w\<lparr>pc_chunker := next_chunker (pc_chunker w), pc_eof := True, pc_at := AtStop\<rparr>)"
proof -
  obtain c where c: "Chunker_Next (pc_chunker w) = Ok (c_start (pc_chunker w), slice (bl_data k) (end_of k) (chunk_end k (end_of k)), None, c)"
    using chunker_at_Next[OF assms] by blast
  then show ?thesis by (simp add: produce_def next_chunker_def Let_def slice_def)
qed

definition trap_null :: NullChunk where
  "trap_null = \<lparr>nc_data = replicate 100 0, nc_id = replicate 32 7\<rparr>"

definition trap_worker :: "Chunker \<Rightarrow> u64 \<Rightarrow> nat option \<Rightarrow> pChunker" where
  "trap_worker c start nxt = \<lparr>pc_results = [], pc_cap = (case start of _ \<Rightarrow> unat ((450 - start) div 48 + 1)), pc_closed = False, pc_chunker = c, pc_offset = start, pc_done = False,
       pc_err = None, pc_next = nxt, pc_eof = False, pc_sync = zero_chunk, pc_at = AtLoop\<rparr>"

lemma trap_ok: "blob_ok (trap_blob b)"
  by (simp add: blob_ok_def trap_blob_def ChunkerWindowSize_def)

lemma trap_blob_simps [simp]: "bl_codec (trap_blob b) = trap_codec" "bl_data (trap_blob b) = trap_data" "bl_max (trap_blob b) = 100"
  by (simp_all add: trap_blob_def)

lemma trap_starts [simp]: "ic_start (chunk_at k p) = word_of_nat p"
  by (simp add: chunk_at_def)

lemma trap_size: "ic_size (chunk_at k p) = word_of_nat (chunk_end k p - p)"
  by (simp add: chunk_at_def)

lemma trap_nulls:
  assumes "trap_boundary b"
  shows "ic_id (chunk_at (trap_blob b) 150) = nc_id trap_null" "ic_id (chunk_at (trap_blob b) 250) = nc_id trap_null"
    "ic_id (chunk_at (trap_blob b) 350) \<noteq> nc_id trap_null"
proof -
  have z: "slice trap_data p (p + 100) = replicate 100 0" if "p \<le> 250" for p
    using that by (intro nth_equalityI) (auto simp: slice_def nth_trap)
  show "ic_id (chunk_at (trap_blob b) 150) = nc_id trap_null" "ic_id (chunk_at (trap_blob b) 250) = nc_id trap_null"
    using z[of 150] z[of 250] trap_ends[OF assms] by (simp_all add: chunk_at_def trap_null_def trap_codec_def)
  have "hd (slice trap_data 350 450) = 79" by (simp add: slice_def hd_drop_conv_nth nth_trap)
  then have "slice trap_data 350 450 \<noteq> replicate 100 0" by auto
  moreover have "1 # xs \<noteq> replicate 32 (7 :: byte)" for xs using replicate_Suc[of 31 "7 :: byte"] by simp
  ultimately show "ic_id (chunk_at (trap_blob b) 350) \<noteq> nc_id trap_null"
    using trap_ends[OF assms] by (simp add: chunk_at_def trap_null_def trap_codec_def)
qed

lemma trap_null_data: "nc_data trap_null = replicate 100 0"
  by (simp add: trap_null_def)

lemma null_id: "nc_id trap_null \<noteq> zero_id"
  using replicate_Suc[of 31 "7 :: byte"] replicate_Suc[of 31 "0 :: byte"] by (simp add: trap_null_def zero_id_def chunk_id_len_def)

text \<open>One step after the other.\<close>

lemma step_loop:
  "ms_workers st ! i = w \<Longrightarrow> pc_at w = AtLoop \<Longrightarrow> \<not> pc_done w \<Longrightarrow> produce cr w = Ok (True, w') \<Longrightarrow>
   steps cr null (i # is) st = steps cr null is (set_worker i w' (st\<lparr>ms_stats := incProduced (ms_stats st)\<rparr>))"
  by (simp add: pChunker_step_def Let_def)

lemma step_send:
  "ms_workers st ! i = w \<Longrightarrow> pc_at w = AtSend c \<Longrightarrow> length (pc_results w) < pc_cap w \<Longrightarrow>
   steps cr null (i # is) st = steps cr null is (set_worker i (w\<lparr>pc_results := pc_results w @ [c],
                 pc_at := (if pc_next w = None then AtCheck else AtSync c zero_chunk)\<rparr>) st)"
  by (simp add: pChunker_step_def Let_def)

lemma step_sync:
  "ms_workers st ! i = w \<Longrightarrow> pc_at w = AtSync c prev \<Longrightarrow> pc_next w = Some j \<Longrightarrow> syncWith null w (ms_workers st ! j) c prev = (w', v) \<Longrightarrow>
   steps cr null (i # is) st = steps cr null is (set_worker i w' (set_worker j v st))"
  by (simp add: pChunker_step_def Let_def)

lemma step_nulls:
  "ms_workers st ! i = w \<Longrightarrow> pc_at w = AtNulls c n \<Longrightarrow> pc_next w = Some j \<Longrightarrow> count_nulls null w (ms_workers st ! j) c n = (w', v) \<Longrightarrow>
   steps cr null (i # is) st = steps cr null is (set_worker i w' (set_worker j v st))"
  by (simp add: pChunker_step_def Let_def)

lemma step_skip:
  "ms_workers st ! i = w \<Longrightarrow> pc_at w = AtSkip c z \<Longrightarrow> nc_data null \<noteq> [] \<Longrightarrow> nat (sint z) div length (nc_data null) = 0 \<Longrightarrow>
   steps cr null (i # is) st = steps cr null is (set_worker i (w\<lparr>pc_at := AtCheck\<rparr>) st)"
  by (simp add: pChunker_step_def Let_def skip_nulls_def)

lemma step_check:
  "ms_workers st ! i = w \<Longrightarrow> pc_at w = AtCheck \<Longrightarrow>
   steps cr null (i # is) st = steps cr null is (set_worker i (w\<lparr>pc_at := AtLoop, pc_next := (case pc_next w of None \<Rightarrow> None
     | Some k \<Rightarrow> if pc_done (ms_workers st ! k) \<and> pc_results (ms_workers st ! k) = [] then pc_next (ms_workers st ! k) else Some k)\<rparr>) st)"
  by (auto simp: pChunker_step_def Let_def active_def same_next split: option.splits)

lemma step_stop:
  "ms_workers st ! i = w \<Longrightarrow> pc_at w = AtStop \<Longrightarrow>
   steps cr null (i # is) st = steps cr null is (set_worker i (w\<lparr>pc_done := True, pc_at := AtClose\<rparr>) st)"
  by (simp add: pChunker_step_def Let_def stop_def)

lemma step_close:
  "ms_workers st ! i = w \<Longrightarrow> pc_at w = AtClose \<Longrightarrow>
   steps cr null (i # is) st = steps cr null is (set_worker i (w\<lparr>pc_closed := True, pc_at := Exited\<rparr>) st)"
  by (simp add: pChunker_step_def Let_def)

lemmas step_simps = step_loop step_send step_sync step_nulls step_skip step_check step_stop step_close set_worker_def
  syncWith_def receive_sync_def count_nulls_def trap_worker_def

lemma produces:
  assumes "trap_boundary b" "chunker_at (trap_blob b) c off p" "p < 450" "chunk_end (trap_blob b) p = e"
  shows "chunker_at (trap_blob b) (next_chunker c) off e"
    "pc_chunker w = c \<Longrightarrow> pc_offset w = off \<Longrightarrow> produce trap_codec w = Ok (True, w\<lparr>pc_chunker := next_chunker c, pc_at := AtSend (chunk_at (trap_blob b) p)\<rparr>)"
proof -
  have *: "produce trap_codec w = Ok (True, w\<lparr>pc_chunker := next_chunker c, pc_at := AtSend (chunk_at (trap_blob b) p)\<rparr>) \<and> chunker_at (trap_blob b) (next_chunker c) off e"
    if "pc_chunker w = c" "pc_offset w = off" for w
    using produce_at[OF trap_ok, of b w p] assms that by simp
  show "chunker_at (trap_blob b) (next_chunker c) off e" using *[of "trap_worker c off None"] by (simp add: trap_worker_def)
  show "produce trap_codec w = Ok (True, w\<lparr>pc_chunker := next_chunker c, pc_at := AtSend (chunk_at (trap_blob b) p)\<rparr>)"
    if "pc_chunker w = c" "pc_offset w = off" using *[OF that] by simp
qed

lemma produces_end:
  assumes "chunker_at (trap_blob b) c off 450" "pc_chunker w = c" "pc_offset w = off"
  shows "produce trap_codec w = Ok (True, w\<lparr>pc_chunker := next_chunker c, pc_eof := True, pc_at := AtStop\<rparr>)"
  using produce_end[OF trap_ok, of b w] assms by simp

text \<open>The second worker runs to the end of the file before the third one has started.\<close>

lemma no_chunk_simps [simp]: "ic_start zero_chunk = 0" "ic_size zero_chunk = 0" "ic_id zero_chunk = zero_id"
  by (simp_all add: zero_chunk_def)

definition second_left :: "blob \<Rightarrow> Chunker \<Rightarrow> pChunker" where
  "second_left k c = (trap_worker c 150 (Some 2))\<lparr>pc_results := [chunk_at k 150, chunk_at k 250, chunk_at k 350],
     pc_closed := True, pc_done := True, pc_eof := True, pc_at := Exited\<rparr>"

lemma second_worker:
  assumes b: "trap_boundary b" and c: "chunker_at (trap_blob b) c1 150 150"
  shows "\<exists>c s'. steps trap_codec trap_null [1,1,1,1,1, 1,1,1,1,1, 1,1,1,1,1, 1,1,1]
      \<lparr>ms_workers = [w0, trap_worker c1 150 (Some 2), trap_worker c2 300 None], ms_current = 0, ms_chunks = [], ms_stats = s\<rparr> =
      \<lparr>ms_workers = [w0, second_left (trap_blob b) c, trap_worker c2 300 None], ms_current = 0, ms_chunks = [], ms_stats = s'\<rparr>"
proof -
  note e = trap_ends[OF b]
  have P1: "chunker_at (trap_blob b) (next_chunker c1) 150 250" "\<And>w. pc_chunker w = c1 \<Longrightarrow> pc_offset w = 150 \<Longrightarrow> produce trap_codec w = Ok (True, w\<lparr>pc_chunker := next_chunker c1, pc_at := AtSend (chunk_at (trap_blob b) 150)\<rparr>)"
    using produces[OF b c _ e(5)] by auto
  note P2 = produces[OF b P1(1) _ e(6), simplified]
  note P3 = produces[OF b P2(1) _ e(7), simplified]
  note P4 = produces_end[OF P3(1)]
  show ?thesis
    by (simp add: step_simps P1(2) P2(2) P3(2) P4 trap_null_def second_left_def del: steps.simps(2))
qed

definition third_left :: "blob \<Rightarrow> Chunker \<Rightarrow> pChunker" where
  "third_left k c = (trap_worker c 300 None)\<lparr>pc_results := [chunk_at k 300, chunk_at k 351],
     pc_closed := True, pc_done := True, pc_eof := True, pc_at := Exited\<rparr>"

lemma third_worker:
  assumes b: "trap_boundary b" and c: "chunker_at (trap_blob b) c2 300 300"
  shows "\<exists>c s'. steps trap_codec trap_null [2,2,2, 2,2,2, 2,2,2]
      \<lparr>ms_workers = [w0, w1, trap_worker c2 300 None], ms_current = 0, ms_chunks = [], ms_stats = s\<rparr> =
      \<lparr>ms_workers = [w0, w1, third_left (trap_blob b) c], ms_current = 0, ms_chunks = [], ms_stats = s'\<rparr>"
proof -
  note e = trap_ends[OF b]
  have P1: "chunker_at (trap_blob b) (next_chunker c2) 300 351" "\<And>w. pc_chunker w = c2 \<Longrightarrow> pc_offset w = 300 \<Longrightarrow> produce trap_codec w = Ok (True, w\<lparr>pc_chunker := next_chunker c2, pc_at := AtSend (chunk_at (trap_blob b) 300)\<rparr>)"
    using produces[OF b c _ e(4)] by auto
  note P2 = produces[OF b P1(1) _ e(8), simplified]
  note P3 = produces_end[OF P2(1)]
  show ?thesis
    by (simp add: step_simps P1(2) P2(2) P3 trap_null_def third_left_def del: steps.simps(2))
qed

text \<open>The first one takes the chunks of the second for a run of null bytes, up to and with the last one.\<close>

definition first_left :: "blob \<Rightarrow> Chunker \<Rightarrow> pChunker" where
  "first_left k c = (trap_worker c 0 (Some 2))\<lparr>pc_results := [chunk_at k 0, chunk_at k 100, chunk_at k 200, chunk_at k 300],
     pc_closed := True, pc_done := True, pc_at := Exited\<rparr>"

lemma first_worker:
  assumes b: "trap_boundary b" and c: "chunker_at (trap_blob b) c0 0 0"
  shows "\<exists>c s' v1 v2. steps trap_codec trap_null [0,0,0,0,0, 0,0,0,0,0,0, 0,0,0,0,0,0,0, 0,0,0,0,0,0]
      \<lparr>ms_workers = [trap_worker c0 0 (Some 1), second_left (trap_blob b) d1, third_left (trap_blob b) d2], ms_current = 0, ms_chunks = [], ms_stats = s\<rparr> =
      \<lparr>ms_workers = [first_left (trap_blob b) c, (second_left (trap_blob b) d1)\<lparr>pc_results := [], pc_sync := v1\<rparr>, v2], ms_current = 0, ms_chunks = [], ms_stats = s'\<rparr>"
proof -
  note e = trap_ends[OF b]
  have P1: "chunker_at (trap_blob b) (next_chunker c0) 0 100" "\<And>w. pc_chunker w = c0 \<Longrightarrow> pc_offset w = 0 \<Longrightarrow> produce trap_codec w = Ok (True, w\<lparr>pc_chunker := next_chunker c0, pc_at := AtSend (chunk_at (trap_blob b) 0)\<rparr>)"
    using produces[OF b c _ e(1)] by auto
  note P2 = produces[OF b P1(1) _ e(2), simplified]
  note P3 = produces[OF b P2(1) _ e(3), simplified]
  note P4 = produces[OF b P3(1) _ e(4), simplified]
  show ?thesis
    apply (simp add: step_simps P1(2) P2(2) P3(2) P4(2) first_left_def second_left_def third_left_def trap_size e trap_null_data trap_nulls[OF b] null_id null_id[symmetric] del: steps.simps(2))
    done
qed

text \<open>The chunkers and the workers at the start.\<close>

lemma trap_decode: "FormatDecoder_Next (NewFormatDecoder (stream_of trap_data)) = Err (Errorf ''unsupported header type %x'')"
  by code_simp

lemma trap_hash: "discriminatorFromAvg conv 100 = 75" "thresh_odd 75 = Ok 57266231" "TrailingZeros32 75 = 0" "modInverse32 75 = 2519714147"
  by code_simp+

lemma trap_lemire: "\<not> lemire_test 2519714147 57266231 74 0 0 0x9e489e48" "lemire_test 2519714147 57266231 74 0 0 0x1db7a665"
  by code_simp+

definition trap_chunker :: "nat \<Rightarrow> Chunker" where
  "trap_chunker p = \<lparr>c_r = \<lparr>rd_data = drop p trap_data, rd_end = EOF, rd_sizes = [], rd_eager = False, rd_seeker = True\<rparr>,
     c_min = 48, c_avg = 100, c_max = 100, c_start = 0, c_buf = [], c_cap = 0, hitEOF = False, hValue = 0,
     hWindow = replicate 48 0, hIdx = 0, hDiscriminator = 75, hInverseOdd = 2519714147, hThreshOdd = 57266231,
     hDiscMinus1 = 74, hTrailShift = 0, hTrailMask = 0\<rparr>"

lemma trap_NewChunker:
  "NewChunker conv \<lparr>rd_data = drop p trap_data, rd_end = EOF, rd_sizes = [], rd_eager = False, rd_seeker = True\<rparr> 48 100 100 = Ok (trap_chunker p)"
  by (simp add: NewChunker_def ChunkerWindowSize_def trap_hash Let_def trap_chunker_def)

lemma trap_is_boundary: "trap_boundary (is_boundary (trap_chunker 0))"
  using trap_lemire by (simp add: trap_boundary_def is_boundary_def trap_chunker_def)

lemma trap_chunker_at: "p \<le> 450 \<Longrightarrow> chunker_at (trap_blob (is_boundary (trap_chunker 0))) (trap_chunker p) (word_of_nat p) p"
  using NewChunker_inv[OF trap_NewChunker, of p] 
  by (simp add: chunker_at_def fun_eq_iff is_boundary_def trap_blob_def max_alloc_def) (simp add: trap_chunker_def)

lemma trap_null_chunk: "NewNullChunk trap_codec 100 = Ok trap_null"
  by (simp add: NewNullChunk_def trap_null_def trap_codec_def max_alloc_def make_bytes_def)

lemma trap_new_workers: "new_workers conv trap_file 450 150 48 100 100 3 [0,1,2] =
   Ok [trap_worker (trap_chunker 0) 0 (Some 1), trap_worker (trap_chunker 150) 150 (Some 2), trap_worker (trap_chunker 300) 300 None]"
  using trap_NewChunker[of conv 0] trap_NewChunker[of conv 150] trap_NewChunker[of conv 300]
  by (simp add: trap_file_def new_worker_def Let_def trap_worker_def chan_limit_def max_alloc_def)

lemma trap_start:
  "\<exists>index. make_start conv trap_codec sha512 trap_file 3 48 100 100 = Ok (index, trap_null,
     \<lparr>ms_workers = [trap_worker (trap_chunker 0) 0 (Some 1), trap_worker (trap_chunker 150) 150 (Some 2), trap_worker (trap_chunker 300) 300 None],
      ms_current = 0, ms_chunks = [], ms_stats = \<lparr>ChunksAccepted = 0, ChunksProduced = 0\<rparr>\<rparr>)"
proof -
  have "worker_count 3 450 100 = Ok 3" by code_simp
  moreover have "[0..<3] = [0, 1, 2 :: nat]" by code_simp
  ultimately show ?thesis
    using trap_new_workers by (simp add: make_start_def trap_null_chunk make_index_def trap_decode trap_file_def Let_def)
qed

text \<open>The main routine takes what the first worker found and ends at the second one.\<close>

lemmas main_eval = main_step_def first_left_def second_left_def trap_worker_def set_worker_def

lemma trap_main:
  "\<exists>st. make_run cr null stops \<lparr>ms_workers = [first_left k c, (second_left k d)\<lparr>pc_results := [], pc_sync := v1\<rparr>, v2],
      ms_current = 0, ms_chunks = [], ms_stats = s\<rparr> (Ok ()) st \<and> ms_chunks st = [chunk_at k 0, chunk_at k 100, chunk_at k 200, chunk_at k 300]"
  (is "\<exists>st. ?R st \<and> ?C st")
  by (rule exI, rule conjI, rule make_run.main, simp add: main_eval, rule make_run.main, simp add: main_eval,
      rule make_run.main, simp add: main_eval, rule make_run.main, simp add: main_eval, rule make_run.main, simp add: main_eval,
      rule make_run.returned) (simp_all add: main_eval)

lemma trap_run:
  "\<exists>st. make_run trap_codec trap_null stops
     \<lparr>ms_workers = [trap_worker (trap_chunker 0) 0 (Some 1), trap_worker (trap_chunker 150) 150 (Some 2), trap_worker (trap_chunker 300) 300 None],
      ms_current = 0, ms_chunks = [], ms_stats = s\<rparr> (Ok ()) st \<and>
    map (\<lambda>c. (ic_start c, ic_size c)) (ms_chunks st) = [(0, 100), (100, 100), (200, 100), (300, 51)]"
proof -
  let ?k = "trap_blob (is_boundary (trap_chunker 0))"
  note b = trap_is_boundary
  obtain d1 s1 where w1: "steps trap_codec trap_null [1,1,1,1,1, 1,1,1,1,1, 1,1,1,1,1, 1,1,1]
      \<lparr>ms_workers = [trap_worker (trap_chunker 0) 0 (Some 1), trap_worker (trap_chunker 150) 150 (Some 2), trap_worker (trap_chunker 300) 300 None], ms_current = 0, ms_chunks = [], ms_stats = s\<rparr> =
      \<lparr>ms_workers = [trap_worker (trap_chunker 0) 0 (Some 1), second_left ?k d1, trap_worker (trap_chunker 300) 300 None], ms_current = 0, ms_chunks = [], ms_stats = s1\<rparr>"
    using second_worker[OF b trap_chunker_at[of 150, simplified]] by blast
  obtain d2 s2 where w2: "steps trap_codec trap_null [2,2,2, 2,2,2, 2,2,2]
      \<lparr>ms_workers = [trap_worker (trap_chunker 0) 0 (Some 1), second_left ?k d1, trap_worker (trap_chunker 300) 300 None], ms_current = 0, ms_chunks = [], ms_stats = s1\<rparr> =
      \<lparr>ms_workers = [trap_worker (trap_chunker 0) 0 (Some 1), second_left ?k d1, third_left ?k d2], ms_current = 0, ms_chunks = [], ms_stats = s2\<rparr>"
    using third_worker[OF b trap_chunker_at[of 300, simplified]] by blast
  obtain d0 s3 v1 v2 where w0: "steps trap_codec trap_null [0,0,0,0,0, 0,0,0,0,0,0, 0,0,0,0,0,0,0, 0,0,0,0,0,0]
      \<lparr>ms_workers = [trap_worker (trap_chunker 0) 0 (Some 1), second_left ?k d1, third_left ?k d2], ms_current = 0, ms_chunks = [], ms_stats = s2\<rparr> =
      \<lparr>ms_workers = [first_left ?k d0, (second_left ?k d1)\<lparr>pc_results := [], pc_sync := v1\<rparr>, v2], ms_current = 0, ms_chunks = [], ms_stats = s3\<rparr>"
    using first_worker[OF b trap_chunker_at[of 0, simplified]] by blast
  obtain st where st: "make_run trap_codec trap_null stops \<lparr>ms_workers = [first_left ?k d0, (second_left ?k d1)\<lparr>pc_results := [], pc_sync := v1\<rparr>, v2],
      ms_current = 0, ms_chunks = [], ms_stats = s3\<rparr> (Ok ()) st" "ms_chunks st = [chunk_at ?k 0, chunk_at ?k 100, chunk_at ?k 200, chunk_at ?k 300]"
    using trap_main by blast
  note r0 = steps_run[OF st(1)[folded w0]]
  have r1: "make_run trap_codec trap_null stops \<lparr>ms_workers = [trap_worker (trap_chunker 0) 0 (Some 1), second_left ?k d1, third_left ?k d2],
      ms_current = 0, ms_chunks = [], ms_stats = s2\<rparr> (Ok ()) st"
    by (rule r0) simp
  have r2: "make_run trap_codec trap_null stops \<lparr>ms_workers = [trap_worker (trap_chunker 0) 0 (Some 1), second_left ?k d1,
      trap_worker (trap_chunker 300) 300 None], ms_current = 0, ms_chunks = [], ms_stats = s1\<rparr> (Ok ()) st"
    by (rule steps_run[OF r1[folded w2]]) simp
  show ?thesis
    using steps_run[OF r2[folded w1]] st(2) by (intro exI[of _ st]) (simp add: trap_size trap_ends[OF b] del: steps.simps)
qed

section \<open>A run of one worker\<close>

definition plain_file :: input_file where
  "plain_file = \<lparr>if_data = replicate 100 79, if_open = None, if_size = Ok 100, if_workers = (\<lambda>_. Ok ([], False)), if_read = (\<lambda>_. None)\<rparr>"

definition plain_chunker :: Chunker where
  "plain_chunker = (trap_chunker 0)\<lparr>c_r := \<lparr>rd_data = replicate 100 79, rd_end = EOF, rd_sizes = [], rd_eager = False, rd_seeker = True\<rparr>\<rparr>"

definition plain_blob :: blob where
  "plain_blob = \<lparr>bl_codec = trap_codec, bl_bnd = is_boundary plain_chunker, bl_min = 48, bl_max = 100, bl_data = replicate 100 79\<rparr>"

lemma plain_NewChunker:
  "NewChunker conv \<lparr>rd_data = replicate 100 79, rd_end = EOF, rd_sizes = [], rd_eager = False, rd_seeker = True\<rparr> 48 100 100 = Ok plain_chunker"
  by (simp add: NewChunker_def ChunkerWindowSize_def trap_hash Let_def trap_chunker_def plain_chunker_def)

lemma plain_end: "chunk_end plain_blob 0 = 100"
proof -
  have h: "\<not> lemire_test 2519714147 57266231 74 0 0 (hash_of (replicate 48 79))" by code_simp
  have "\<not> boundary_at (is_boundary plain_chunker) (replicate 100 79) q" if "49 \<le> q" "q < 100" for q
  proof -
    have "slice (replicate 100 79) (q - 48) q = replicate 48 (79 :: byte)" using that by (simp add: slice_def min_def)
    then show ?thesis using h by (simp add: boundary_at_def ChunkerWindowSize_def is_boundary_def plain_chunker_def trap_chunker_def)
  qed
  then have "first_boundary (is_boundary plain_chunker) (replicate 100 79) 49 100 = 100"
    by (intro first_boundary_eq) auto
  then show ?thesis by (simp add: chunk_end_def plain_blob_def cut_len_def)
qed

lemma plain_at: "chunker_at plain_blob plain_chunker 0 0"
  using NewChunker_inv[OF plain_NewChunker]
  by (simp add: chunker_at_def plain_blob_def max_alloc_def) (simp add: plain_chunker_def trap_chunker_def)

definition plain_worker :: pChunker where
  "plain_worker = \<lparr>pc_results = [], pc_cap = 3, pc_closed = False, pc_chunker = plain_chunker, pc_offset = 0, pc_done = False,
       pc_err = None, pc_next = None, pc_eof = False, pc_sync = zero_chunk, pc_at = AtLoop\<rparr>"

lemma plain_start:
  "\<exists>index. make_start conv trap_codec sha512 plain_file 1 48 100 100 = Ok (index, trap_null,
     \<lparr>ms_workers = [plain_worker], ms_current = 0, ms_chunks = [], ms_stats = \<lparr>ChunksAccepted = 0, ChunksProduced = 0\<rparr>\<rparr>)"
proof -
  have "worker_count 1 100 100 = Ok 1" by code_simp
  moreover have "\<exists>e. FormatDecoder_Next (NewFormatDecoder (stream_of (replicate 100 79))) = Err e"
  proof -
    have "FormatDecoder_Next (NewFormatDecoder (stream_of (replicate 100 79))) = Err (Errorf ''unsupported header type %x'')" by code_simp
    then show ?thesis by blast
  qed
  ultimately show ?thesis
    using plain_NewChunker[of conv] by (auto simp: make_start_def trap_null_chunk make_index_def Let_def new_worker_def plain_file_def plain_worker_def chan_limit_def max_alloc_def)
qed

lemma plain_run:
  "\<exists>st. make_run trap_codec trap_null stops \<lparr>ms_workers = [plain_worker], ms_current = 0, ms_chunks = [], ms_stats = s\<rparr> (Ok ()) st \<and>
    map (\<lambda>c. (ic_start c, ic_size c)) (ms_chunks st) = [(0, 100)]"
proof -
  have ok: "blob_ok plain_blob" by (simp add: blob_ok_def plain_blob_def ChunkerWindowSize_def)
  have k: "bl_codec plain_blob = trap_codec" "length (bl_data plain_blob) = 100" by (simp_all add: plain_blob_def)
  have at: "chunker_at plain_blob (next_chunker plain_chunker) 0 100"
    using produce_at(2)[OF ok, of plain_worker 0] plain_at plain_end k by (simp add: plain_worker_def)
  have P: "produce trap_codec w = Ok (True, w\<lparr>pc_chunker := next_chunker plain_chunker, pc_at := AtSend (chunk_at plain_blob 0)\<rparr>)"
    if "pc_chunker w = plain_chunker" "pc_offset w = 0" for w
    using produce_at(1)[OF ok, of w 0] plain_at k that by simp
  have E: "produce trap_codec w = Ok (True, w\<lparr>pc_chunker := next_chunker (pc_chunker w), pc_eof := True, pc_at := AtStop\<rparr>)"
    if "pc_chunker w = next_chunker plain_chunker" "pc_offset w = 0" for w
    using produce_end[OF ok, of w] at k that by simp
  obtain w s' where w: "steps trap_codec trap_null [0,0,0, 0,0,0] \<lparr>ms_workers = [plain_worker], ms_current = 0, ms_chunks = [], ms_stats = s\<rparr> =
     \<lparr>ms_workers = [w], ms_current = 0, ms_chunks = [], ms_stats = s'\<rparr>" "pc_results w = [chunk_at plain_blob 0]" "pc_closed w" "pc_eof w" "pc_err w = None"
    by (simp add: step_simps P E plain_worker_def del: steps.simps(2))
  have "\<exists>st. make_run trap_codec trap_null stops \<lparr>ms_workers = [w], ms_current = 0, ms_chunks = [], ms_stats = s'\<rparr> (Ok ()) st \<and>
     ms_chunks st = [chunk_at plain_blob 0]"
    using w(2-5) by - (rule exI, rule conjI, rule make_run.main, simp add: main_eval, rule make_run.returned, simp_all add: main_eval)
  then obtain st where st: "make_run trap_codec trap_null stops \<lparr>ms_workers = [w], ms_current = 0, ms_chunks = [], ms_stats = s'\<rparr> (Ok ()) st"
     "ms_chunks st = [chunk_at plain_blob 0]" by blast
  then show ?thesis using steps_run[OF st(1)[folded w(1)]] plain_end trap_size[of plain_blob 0]
    by (intro exI[of _ st]) (simp del: steps.simps)
qed

end
