(* ===== verification/Make_Props.thy ===== *)
theory Make_Props
  imports Make_Runs
begin

text \<open>
  What \<open>IndexFromFile\<close> of \<^verbatim>\<open>src/make.go\<close> puts into an index, whatever the order in which its workers run.
\<close>

text \<open>
  (C4) Whatever the order in which the workers run, and also when it is cancelled or a worker cannot read, the
  chunks in the index that \<open>IndexFromFile\<close> returns are the first chunks that a single chunker finds in
  the file: with the same boundaries, although every worker but the first starts in the middle of the
  file and areas of null bytes are jumped over. The minimum chunk size is below the maximum, the file does
  not change, and no other data has the digest of the null chunk.
\<close>

theorem parallel_chunking_prefix:
  assumes "IndexFromFile conv cr sha512 cancelled f n mn avg mx r (Some idx)" "n < 2 ^ 63" "mn < mx" "10 * unat mx \<le> max_alloc"
    "if_size f = Ok (ulen (if_data f))" "length (if_data f) < 2 ^ 63" "null_unique cr (unat mx)"
    "NewChunker conv src mn avg mx = Ok c" "rd_data src = if_data f" "rd_end src = EOF"
    "all_chunks (Suc (length (if_data f))) c = Ok cs"
  shows "\<exists>rest. index_chunks cr cs = idx_chunks idx @ rest"
proof -
  define k where "k = blob_of cr c mn mx (if_data f)"
  obtain index null st st' where start: "make_start conv cr sha512 f n mn avg mx = Ok (index, null, st)"
    and run: "make_run cr null (stops_with cancelled f) st r st'" and idx: "idx_chunks idx = ms_chunks st'"
    using assms(1) by (auto elim: IndexFromFile.cases)
  note I = make_start_inv[OF start assms(5,6,2,8,3,4) k_def]
  have "null_ok k null" using null_unique_ok[of k null] I assms(7) by (simp add: k_def)
  then obtain l where "state_inv k l st'" using make_run_prefix[of k null "stops_with cancelled f" st r st' 0] run I by (auto simp: k_def)
  then have "run_of k 0 (ms_chunks st') (chan_start k (ms_workers st' ! l))" by (rule make_invD(9))
  moreover have "run_of k 0 (index_chunks cr cs) (end_of k)"
    using single_stream[OF assms(8,3,4,10)] assms(6,9,11) by (simp add: k_def)
  ultimately show ?thesis using run_of_unique idx by metis
qed

lemma parallel_chunking_prefix_witness:
  "\<exists>idx cs rest. IndexFromFile (\<lambda>_. 0) trap_codec True False trap_file 3 48 100 100 (Ok ()) (Some idx) \<and>
     all_chunks 451 (trap_chunker 0) = Ok cs \<and> index_chunks trap_codec cs = idx_chunks idx @ rest"
proof -
  obtain index where s: "make_start (\<lambda>_. 0) trap_codec True trap_file 3 48 100 100 = Ok (index, trap_null,
     \<lparr>ms_workers = [trap_worker (trap_chunker 0) 0 (Some 1), trap_worker (trap_chunker 150) 150 (Some 2), trap_worker (trap_chunker 300) 300 None],
      ms_current = 0, ms_chunks = [], ms_stats = \<lparr>ChunksAccepted = 0, ChunksProduced = 0\<rparr>\<rparr>)"
    using trap_start by blast
  obtain idx where run: "IndexFromFile (\<lambda>_. 0) trap_codec True False trap_file 3 48 100 100 (Ok ()) (Some idx)"
    using IndexFromFile.ran[OF s] trap_run by blast
  note n = trap_NewChunker[of "\<lambda>_. 0" 0, simplified]
  obtain cs where cs: "all_chunks 451 (trap_chunker 0) = Ok cs"
    using NewChunker_all_chunks[OF n] by (auto simp: max_alloc_def)
  have "\<exists>rest. index_chunks trap_codec cs = idx_chunks idx @ rest"
    by (rule parallel_chunking_prefix[OF run _ _ _ _ _ _ n])
       (simp_all add: trap_file_def max_alloc_def cs trap_null_unique)
  then show ?thesis using run cs by blast
qed

text \<open>
  (C3) When \<open>IndexFromFile\<close> returns without an error for a file that has no run of null bytes as long as the
  maximum chunk size, the index is the one of a single chunker over the whole file, however many
  workers there are and in whatever order they run, also when some worker was cancelled or could not
  read. The minimum chunk size is below the maximum, the file does not change, and no other data has the
  digest of the null chunk.
\<close>

theorem parallel_chunking_sequential:
  assumes "IndexFromFile conv cr sha512 cancelled f n mn avg mx (Ok ()) (Some idx)" "n < 2 ^ 63" "mn < mx" "10 * unat mx \<le> max_alloc"
    "if_size f = Ok (ulen (if_data f))" "length (if_data f) < 2 ^ 63" "null_unique cr (unat mx)"
    "NewChunker conv src mn avg mx = Ok c" "rd_data src = if_data f" "rd_end src = EOF"
    "all_chunks (Suc (length (if_data f))) c = Ok cs"
    "\<forall>p. p + unat mx \<le> length (if_data f) \<longrightarrow> slice (if_data f) p (p + unat mx) \<noteq> replicate (unat mx) 0"
  shows "idx_chunks idx = index_chunks cr cs"
proof -
  define k where "k = blob_of cr c mn mx (if_data f)"
  obtain index null st st' where start: "make_start conv cr sha512 f n mn avg mx = Ok (index, null, st)"
    and run: "make_run cr null (stops_with cancelled f) st (Ok ()) st'" and idx: "idx_chunks idx = ms_chunks st'"
    using assms(1) by (auto elim: IndexFromFile.cases)
  note I = make_start_inv[OF start assms(5,6,2,8,3,4) k_def]
  have null: "null_ok k null" using null_unique_ok[of k null] I assms(7) by (simp add: k_def)
  then have "no_nulls k null"
    using assms(12) by (fastforce simp: no_nulls_def null_ok_def nulls_from_def null_at_def k_def)
  then have "run_of k 0 (ms_chunks st') (end_of k)"
    using make_run_complete[of k null "stops_with cancelled f" st "Ok ()" st' 0] run I null by (simp add: k_def)
  moreover have "run_of k 0 (index_chunks cr cs) (end_of k)"
    using single_stream[OF assms(8,3,4,10)] assms(6,9,11) by (simp add: k_def)
  ultimately show ?thesis using run_of_unique idx by metis
qed

lemma parallel_chunking_sequential_witness:
  "\<exists>idx cs. IndexFromFile (\<lambda>_. 0) trap_codec True False plain_file 1 48 100 100 (Ok ()) (Some idx) \<and>
     all_chunks 101 plain_chunker = Ok cs \<and> idx_chunks idx = index_chunks trap_codec cs \<and> idx_chunks idx \<noteq> []"
proof -
  obtain index where s: "make_start (\<lambda>_. 0) trap_codec True plain_file 1 48 100 100 = Ok (index, trap_null,
     \<lparr>ms_workers = [plain_worker], ms_current = 0, ms_chunks = [], ms_stats = \<lparr>ChunksAccepted = 0, ChunksProduced = 0\<rparr>\<rparr>)"
    using plain_start by blast
  obtain st where st: "make_run trap_codec trap_null (stops_with False plain_file)
     \<lparr>ms_workers = [plain_worker], ms_current = 0, ms_chunks = [], ms_stats = \<lparr>ChunksAccepted = 0, ChunksProduced = 0\<rparr>\<rparr> (Ok ()) st"
     "ms_chunks st \<noteq> []" using plain_run by (metis (no_types, lifting) list.simps(3,8))
  note run = IndexFromFile.ran[OF s st(1)]
  note n = plain_NewChunker[of "\<lambda>_. 0"]
  obtain cs where cs: "all_chunks 101 plain_chunker = Ok cs"
    using NewChunker_all_chunks[OF n] by (auto simp: max_alloc_def)
  have "slice (replicate 100 79) 0 100 \<noteq> replicate 100 (0 :: byte)" by (simp add: slice_def)
  then have "idx_chunks \<lparr>idx_index = index, idx_chunks = ms_chunks st\<rparr> = index_chunks trap_codec cs"
    by (intro parallel_chunking_sequential[OF run _ _ _ _ _ _ n])
       (simp_all add: plain_file_def max_alloc_def cs trap_null_unique)
  then show ?thesis using run cs st(2) by (intro exI[of _ "\<lparr>idx_index = index, idx_chunks = ms_chunks st\<rparr>"]) auto
qed

text \<open>
  (C31) \<open>IndexFromFile\<close> can leave the end of a file out of the index and report success: with three workers,
  the first one, comparing its chunks with those of the second, can take the whole of them for an area
  of null bytes although the last one is not null. It goes on to the third worker and stops there, and
  the main routine, which then visits the second worker, finds that it has seen the end of the file and
  returns.
\<close>

theorem parallel_chunking_truncates:
  "\<exists>idx. IndexFromFile conv trap_codec sha512 False trap_file 3 48 100 100 (Ok ()) (Some idx) \<and>
     map (\<lambda>c. (ic_start c, ic_size c)) (idx_chunks idx) = [(0, 100), (100, 100), (200, 100), (300, 51)] \<and>
     if_size trap_file = Ok 450 \<and> length (if_data trap_file) = 450"
proof -
  obtain index where s: "make_start conv trap_codec sha512 trap_file 3 48 100 100 = Ok (index, trap_null,
     \<lparr>ms_workers = [trap_worker (trap_chunker 0) 0 (Some 1), trap_worker (trap_chunker 150) 150 (Some 2), trap_worker (trap_chunker 300) 300 None],
      ms_current = 0, ms_chunks = [], ms_stats = \<lparr>ChunksAccepted = 0, ChunksProduced = 0\<rparr>\<rparr>)"
    using trap_start by blast
  from IndexFromFile.ran[OF s] trap_run show ?thesis
    by (fastforce simp: trap_file_def)
qed

end
