(* ===== verification/ReadSeeker.thy ===== *)
theory ReadSeeker
  imports Stores_Props Index
begin

text \<open>
  Reading the blob that an index describes at any position (\<^verbatim>\<open>src/readseeker.go\<close>): a position in the blob,
  the chunk it lies in, and the data of that chunk once it has been loaded from the store.

  Positions are Go's \<open>int64\<close>; sums and differences of them are reduced by \<open>i64\<close>.
\<close>

section \<open>The reader\<close>

definition i64 :: "int \<Rightarrow> int" where
  "i64 x = signed_take_bit 63 x"

lemma i64_small: "- (2 ^ 63) \<le> x \<Longrightarrow> x < 2 ^ 63 \<Longrightarrow> i64 x = x"
  by (simp add: i64_def signed_take_bit_int_eq_self)

record 's IndexPos =
  ip_store :: 's
  ip_index :: Index
  ip_length :: int
  ip_pos :: int
  ip_curChunkID :: chunk_id
  ip_curChunk :: bytes
  ip_curChunkIdx :: nat
  ip_curChunkOffset :: int
  ip_nullChunk :: NullChunk

definition NewIndexReadSeeker :: "codec_fns \<Rightarrow> Index \<Rightarrow> 's \<Rightarrow> 's IndexPos res" where
  "NewIndexReadSeeker cr i s =
     (if idx_chunks i = [] then Panic ''index out of range''
      else bind_res (NewNullChunk cr (ChunkSizeMax (idx_index i))) (\<lambda>null.
        Ok \<lparr>ip_store = s, ip_index = i, ip_length = Index_Length i, ip_pos = 0, ip_curChunkID = ic_id (hd (idx_chunks i)),
          ip_curChunk = [], ip_curChunkIdx = 0, ip_curChunkOffset = 0, ip_nullChunk = null\<rparr>))"

text \<open>\<open>sort.Search\<close>: the first index in \<open>{i..<j}\<close> at which a monotone predicate holds, or \<open>j\<close>.\<close>

function sort_search :: "(nat \<Rightarrow> bool) \<Rightarrow> nat \<Rightarrow> nat \<Rightarrow> nat" where
  "sort_search f i j =
     (if i < j then let h = (i + j) div 2 in if f h then sort_search f i h else sort_search f (h + 1) j
      else i)"
  by pat_completeness auto
termination
  by (relation "measure (\<lambda>(f, i, j). j - i)") auto

declare sort_search.simps [simp del]

definition chunk_limit :: "IndexChunk \<Rightarrow> int" where
  "chunk_limit c = sint (ic_start c + ic_size c)"

definition findOffset :: "'s IndexPos \<Rightarrow> int \<Rightarrow> (int \<times> go_error option \<times> 's IndexPos) res" where
  "findOffset ip newPos =
     (let delta = i64 (newPos - ip_pos ip); chunks = idx_chunks (ip_index ip) in
      if delta = 0 then Ok (ip_pos ip, None, ip)
      else if ip_curChunkIdx ip \<ge> length chunks then Panic ''index out of range''
      else if 0 \<le> i64 (delta + ip_curChunkOffset ip) \<and>
        i64 (delta + ip_curChunkOffset ip) < sint (ic_size (chunks ! ip_curChunkIdx ip))
      then let p = i64 (ip_pos ip + delta) in
        Ok (p, None, ip\<lparr>ip_pos := p, ip_curChunkOffset := i64 (ip_curChunkOffset ip + delta)\<rparr>)
      else let found = sort_search (\<lambda>i. newPos < chunk_limit (chunks ! i)) 0 (length chunks);
               newChunkIdx = (if found \<ge> length chunks then length chunks - 1 else found);
               newChunk = chunks ! newChunkIdx in
        if newPos < sint (ic_start newChunk)
        then Ok (ip_pos ip, Some (Errorf ''seek found chunk beginning at position %v, desired position is %v''), ip)
        else if newPos > chunk_limit newChunk
        then Ok (ip_pos ip, Some (Errorf ''seek found chunk ending at position %v, desired position is %v''), ip)
        else Ok (newPos, None, ip\<lparr>
               ip_curChunk := (if ic_id newChunk \<noteq> ip_curChunkID ip then [] else ip_curChunk ip),
               ip_curChunkIdx := newChunkIdx, ip_curChunkID := ic_id newChunk,
               ip_curChunkOffset := i64 (newPos - sint (ic_start newChunk)), ip_pos := newPos\<rparr>))"

definition IndexPos_loadChunk :: "codec_fns \<Rightarrow> 's get_fn \<Rightarrow> 's IndexPos \<Rightarrow> unit res \<times> 's IndexPos" where
  "IndexPos_loadChunk cr get ip =
     (if ip_curChunkID ip = nc_id (ip_nullChunk ip) then (Ok (), ip\<lparr>ip_curChunk := nc_data (ip_nullChunk ip)\<rparr>)
      else case get (ip_store ip) (ip_curChunkID ip) of (r, s) \<Rightarrow>
        let ip = ip\<lparr>ip_store := s\<rparr> in
        case bind_res r (\<lambda>chunk. fst (Chunk_Data cr chunk)) of
          Ok b \<Rightarrow> (Ok (), ip\<lparr>ip_curChunk := b\<rparr>)
        | Err e \<Rightarrow> (Err e, ip)
        | Panic x \<Rightarrow> (Panic x, ip))"

text \<open>\<open>io.SeekStart\<close>, \<open>io.SeekCurrent\<close> and \<open>io.SeekEnd\<close> are 0, 1 and 2.\<close>

definition IndexPos_Seek :: "'s IndexPos \<Rightarrow> int \<Rightarrow> nat \<Rightarrow> (int \<times> go_error option \<times> 's IndexPos) res" where
  "IndexPos_Seek ip offset whence =
     (if whence > 2 then Ok (ip_pos ip, Some (Errorf ''invalid whence''), ip)
      else let newPos = (if whence = 0 then offset else if whence = 1 then i64 (ip_pos ip + offset)
                         else i64 (ip_length ip + offset)) in
        if newPos < 0 then Ok (ip_pos ip, Some (Errorf ''unable to seek before start of file''), ip)
        else bind_res (findOffset ip newPos) (\<lambda>(newOffset, err, ip).
          Ok (newOffset, (if err = None \<and> newPos > ip_length ip then Some EOF else err), ip)))"

text \<open>
  The loop of \<open>Read\<close>, with the number of bytes that are still wanted and those copied so far. It
  need not end, so it has a bound on the number of iterations.
\<close>

fun read_loop ::
  "codec_fns \<Rightarrow> 's get_fn \<Rightarrow> nat \<Rightarrow> nat \<Rightarrow> bytes \<Rightarrow> 's IndexPos \<Rightarrow> (bytes \<times> go_error option \<times> 's IndexPos) res option" where
  "read_loop cr get 0 want acc ip = None"
| "read_loop cr get (Suc fuel) want acc ip =
     (if want = 0 then Some (Ok (acc, None, ip))
      else case (if ip_curChunk ip = [] then IndexPos_loadChunk cr get ip else (Ok (), ip)) of
        (Panic x, ip) \<Rightarrow> Some (Panic x)
      | (Err e, ip) \<Rightarrow> Some (Ok (acc, Some e, ip))
      | (Ok _, ip) \<Rightarrow>
          if ip_curChunkOffset ip < 0 \<or> ip_curChunkOffset ip > int (length (ip_curChunk ip))
          then Some (Panic ''slice bounds out of range'')
          else let remaining = drop (nat (ip_curChunkOffset ip)) (ip_curChunk ip) in
            if remaining = [] \<and> int (ip_curChunkIdx ip) = int (length (idx_chunks (ip_index ip))) - 1
            then Some (Ok (acc, None, ip))
            else let copied = take want remaining in
              case IndexPos_Seek ip (int (length copied)) 1 of
                Panic x \<Rightarrow> Some (Panic x)
              | Err e \<Rightarrow> Some (Err e)
              | Ok (_, Some e, ip) \<Rightarrow> Some (Ok (acc @ copied, Some e, ip))
              | Ok (_, None, ip) \<Rightarrow> read_loop cr get fuel (want - length copied) (acc @ copied) ip)"

text \<open>\<open>Read\<close> into a buffer of \<open>len\<close> bytes: the bytes that it copies and the error.\<close>

definition IndexPos_Read ::
  "codec_fns \<Rightarrow> 's get_fn \<Rightarrow> nat \<Rightarrow> 's IndexPos \<Rightarrow> nat \<Rightarrow> (bytes \<times> go_error option \<times> 's IndexPos) res option" where
  "IndexPos_Read cr get fuel ip len =
     (if ip_pos ip = ip_length ip then Some (Ok ([], Some EOF, ip)) else read_loop cr get fuel len [] ip)"

section \<open>The blob behind an index\<close>

text \<open>The chunks of the index are those of the blob, and their identifiers stand for no other data.\<close>

definition chunk_bytes :: "bytes \<Rightarrow> IndexChunk \<Rightarrow> bytes" where
  "chunk_bytes D c = slice D (unat (ic_start c)) (unat (ic_start c) + unat (ic_size c))"

definition describes :: "codec_fns \<Rightarrow> Index \<Rightarrow> bytes \<Rightarrow> bool" where
  "describes cr i D \<longleftrightarrow>
     contiguous (ChunkSizeMax (idx_index i)) 0 (idx_chunks i) \<and> length D = total_size (idx_chunks i) \<and> length D < 2 ^ 63 \<and>
     (\<forall>c \<in> set (idx_chunks i). ic_size c \<noteq> 0 \<and> ic_id c \<noteq> zero_id \<and>
        Digest_Sum cr (chunk_bytes D c) = ic_id c \<and> (\<forall>b. Digest_Sum cr b = ic_id c \<longrightarrow> b = chunk_bytes D c))"

text \<open>The state of a reader: its position is that of the byte in the current chunk.\<close>

definition reader_inv :: "codec_fns \<Rightarrow> bytes \<Rightarrow> 's IndexPos \<Rightarrow> bool" where
  "reader_inv cr D ip \<longleftrightarrow>
     (let cs = idx_chunks (ip_index ip); c = cs ! ip_curChunkIdx ip in
      describes cr (ip_index ip) D \<and> ip_length ip = int (length D) \<and> ip_curChunkIdx ip < length cs \<and>
      0 \<le> ip_curChunkOffset ip \<and> ip_curChunkOffset ip \<le> int (unat (ic_size c)) \<and>
      (ip_curChunkOffset ip = int (unat (ic_size c)) \<longrightarrow> Suc (ip_curChunkIdx ip) = length cs) \<and>
      ip_pos ip = int (unat (ic_start c)) + ip_curChunkOffset ip \<and> ip_curChunkID ip = ic_id c \<and>
      (ip_curChunk ip = [] \<or> ip_curChunk ip = chunk_bytes D c) \<and>
      nc_id (ip_nullChunk ip) = Digest_Sum cr (nc_data (ip_nullChunk ip)))"

end
