(* ===== verification/ReadSeeker_Props.thy ===== *)
theory ReadSeeker_Props
  imports ReadSeeker
begin

text \<open>
  The reader of \<^verbatim>\<open>src/readseeker.go\<close> behaves like a file with the bytes of the blob.
\<close>

section \<open>Finding a chunk\<close>

lemma sort_search_spec:
  assumes "i \<le> j" "\<And>a b. i \<le> a \<Longrightarrow> a \<le> b \<Longrightarrow> b < j \<Longrightarrow> f a \<Longrightarrow> f b"
  shows "i \<le> sort_search f i j \<and> sort_search f i j \<le> j \<and> (\<forall>k. i \<le> k \<and> k < sort_search f i j \<longrightarrow> \<not> f k) \<and>
    (sort_search f i j < j \<longrightarrow> f (sort_search f i j))"
  using assms
proof (induction f i j rule: sort_search.induct)
  case (1 f i j)
  show ?case
  proof (cases "i < j")
    case True
    define h where "h = (i + j) div 2"
    have h: "i \<le> h" "h < j" using True by (simp_all add: h_def)
    have m: "\<And>a b. i \<le> a \<Longrightarrow> a \<le> b \<Longrightarrow> b < j \<Longrightarrow> f a \<Longrightarrow> f b" by (rule "1.prems"(2))
    show ?thesis
    proof (cases "f h")
      case t: True
      have "sort_search f i j = sort_search f i h" using True t by (simp add: sort_search.simps[of f i j] h_def Let_def)
      moreover have "i \<le> sort_search f i h \<and> sort_search f i h \<le> h \<and> (\<forall>k. i \<le> k \<and> k < sort_search f i h \<longrightarrow> \<not> f k) \<and>
        (sort_search f i h < h \<longrightarrow> f (sort_search f i h))"
        using h m by (intro "1.IH"(1)[OF True h_def t]) (blast intro: order.strict_trans)+
      ultimately show ?thesis using h t by (cases "sort_search f i h = h") auto
    next
      case f: False
      have "sort_search f i j = sort_search f (h + 1) j" using True f by (simp add: sort_search.simps[of f i j] h_def Let_def)
      moreover have "h + 1 \<le> sort_search f (h + 1) j \<and> sort_search f (h + 1) j \<le> j \<and>
        (\<forall>k. h + 1 \<le> k \<and> k < sort_search f (h + 1) j \<longrightarrow> \<not> f k) \<and> (sort_search f (h + 1) j < j \<longrightarrow> f (sort_search f (h + 1) j))"
        using h m by (intro "1.IH"(2)[OF True h_def f]) (simp, meson Suc_leD add_leD1 order.trans)
      moreover have "\<not> f k" if "i \<le> k" "k \<le> h" for k using m[OF that h(2)] f by blast
      ultimately show ?thesis using h by (metis Suc_eq_plus1 le_SucI le_trans not_less_eq_eq)
    qed
  next
    case False
    then have "sort_search f i j = i" by (subst sort_search.simps) simp
    then show ?thesis using False "1.prems"(1) by force
  qed
qed

text \<open>The chunks of a blob in order, with all values as natural numbers.\<close>

definition lo :: "Index \<Rightarrow> nat \<Rightarrow> nat" where
  "lo i k = unat (ic_start (idx_chunks i ! k))"

definition sz :: "Index \<Rightarrow> nat \<Rightarrow> nat" where
  "sz i k = unat (ic_size (idx_chunks i ! k))"

lemma total_size_take: "k < length cs \<Longrightarrow> total_size (take (Suc k) cs) = total_size (take k cs) + unat (ic_size (cs ! k))"
  by (simp add: total_size_def take_Suc_conv_app_nth)

lemma total_size_mono: "j \<le> k \<Longrightarrow> total_size (take j cs) \<le> total_size (take k cs)"
  by (metis le_add1 le_iff_add take_add total_size_def map_append sum_list.append)

lemma describes_chunk:
  assumes "describes cr i D" "k < length (idx_chunks i)"
  shows "lo i k = total_size (take k (idx_chunks i))" "lo i k + sz i k = total_size (take (Suc k) (idx_chunks i))" "0 < sz i k"
    "lo i k + sz i k \<le> length D" "Suc k = length (idx_chunks i) \<Longrightarrow> lo i k + sz i k = length D"
    "sint (ic_start (idx_chunks i ! k)) = int (lo i k)" "sint (ic_size (idx_chunks i ! k)) = int (sz i k)"
    "chunk_limit (idx_chunks i ! k) = int (lo i k + sz i k)"
    "ic_id (idx_chunks i ! k) \<noteq> zero_id" "\<And>b. Digest_Sum cr b = ic_id (idx_chunks i ! k) \<Longrightarrow> b = chunk_bytes D (idx_chunks i ! k)"
    "Digest_Sum cr (chunk_bytes D (idx_chunks i ! k)) = ic_id (idx_chunks i ! k)" "chunk_bytes D (idx_chunks i ! k) = slice D (lo i k) (lo i k + sz i k)" "length D < 2 ^ 63"
proof -
  let ?cs = "idx_chunks i" and ?c = "idx_chunks i ! k"
  have d: "contiguous (ChunkSizeMax (idx_index i)) 0 ?cs" "length D = total_size ?cs" "length D < 2 ^ 63"
    "ic_size ?c \<noteq> 0" "ic_id ?c \<noteq> zero_id" "\<And>b. Digest_Sum cr b = ic_id ?c \<Longrightarrow> b = chunk_bytes D ?c"
    "Digest_Sum cr (chunk_bytes D ?c) = ic_id ?c"
    using assms nth_mem[OF assms(2)] unfolding describes_def by blast+
  show l: "lo i k = total_size (take k ?cs)" using contiguous_start[OF d(1) _ assms(2)] d(2,3) by (simp add: lo_def)
  then show h: "lo i k + sz i k = total_size (take (Suc k) ?cs)" using total_size_take[OF assms(2)] by (simp add: sz_def)
  show "0 < sz i k" using d(4) by (simp add: unat_gt_0 sz_def)
  have "total_size (take (Suc k) ?cs) \<le> total_size (take (length ?cs) ?cs)" using assms(2) by (intro total_size_mono) simp
  then show le: "lo i k + sz i k \<le> length D" using h d(2) by simp
  show "Suc k = length ?cs \<Longrightarrow> lo i k + sz i k = length D" using h d(2) by simp
  show "sint (ic_start ?c) = int (lo i k)" "sint (ic_size ?c) = int (sz i k)" using le d(3) sint_small_u64[of "ic_start ?c"] sint_small_u64[of "ic_size ?c"] unfolding lo_def sz_def by linarith+
  have u: "unat (ic_start ?c + ic_size ?c) = lo i k + sz i k" using le d(3) unfolding lo_def sz_def by (intro unat_add_small) simp
  then show "chunk_limit ?c = int (lo i k + sz i k)"
    unfolding chunk_limit_def using sint_small_u64[of "ic_start ?c + ic_size ?c"] le d(3) unfolding u by linarith
  show "ic_id ?c \<noteq> zero_id" "\<And>b. Digest_Sum cr b = ic_id ?c \<Longrightarrow> b = chunk_bytes D ?c" "length D < 2 ^ 63" "Digest_Sum cr (chunk_bytes D ?c) = ic_id ?c" using d by blast+
  show "chunk_bytes D ?c = slice D (lo i k) (lo i k + sz i k)" by (simp add: chunk_bytes_def lo_def sz_def)
qed

lemma describes_order:
  assumes "describes cr i D" "j < k" "k < length (idx_chunks i)"
  shows "lo i j + sz i j \<le> lo i k"
proof -
  have "j < length (idx_chunks i)" using assms by simp
  then show ?thesis
    using describes_chunk(2)[OF assms(1), of j] describes_chunk(1)[OF assms(1,3)] total_size_mono[of "Suc j" k "idx_chunks i"] assms(2) by simp
qed

lemma describes_next:
  assumes "describes cr i D" "Suc k < length (idx_chunks i)"
  shows "lo i (Suc k) = lo i k + sz i k"
  using describes_chunk(2)[OF assms(1), of k] describes_chunk(1)[OF assms] assms(2) by simp

lemma describes_first: "describes cr i D \<Longrightarrow> idx_chunks i \<noteq> [] \<Longrightarrow> lo i 0 = 0"
  using describes_chunk(1)[of cr i D 0] by (simp add: total_size_def)

text \<open>The bisection finds the chunk that holds a position; the end of the blob belongs to the last one.\<close>

definition chunk_of :: "Index \<Rightarrow> int \<Rightarrow> nat" where
  "chunk_of i p = (let found = sort_search (\<lambda>k. p < chunk_limit (idx_chunks i ! k)) 0 (length (idx_chunks i))
     in if found \<ge> length (idx_chunks i) then length (idx_chunks i) - 1 else found)"

lemma chunk_of_spec:
  assumes "describes cr i D" "idx_chunks i \<noteq> []" "0 \<le> p"
  shows "chunk_of i p < length (idx_chunks i)" "p \<le> int (length D) \<Longrightarrow> int (lo i (chunk_of i p)) \<le> p"
    "p \<le> int (length D) \<Longrightarrow> p \<le> int (lo i (chunk_of i p) + sz i (chunk_of i p))"
    "p < int (length D) \<Longrightarrow> p < int (lo i (chunk_of i p) + sz i (chunk_of i p))"
    "p > int (length D) \<Longrightarrow> lo i (chunk_of i p) + sz i (chunk_of i p) = length D"
    "p = int (lo i (chunk_of i p) + sz i (chunk_of i p)) \<Longrightarrow> Suc (chunk_of i p) = length (idx_chunks i)"
proof -
  let ?n = "length (idx_chunks i)" and ?f = "\<lambda>k. p < chunk_limit (idx_chunks i ! k)"
  define r where "r = sort_search ?f 0 ?n"
  have n: "0 < ?n" using assms(2) by simp
  have lim: "chunk_limit (idx_chunks i ! k) = int (lo i k + sz i k)" if "k < ?n" for k using describes_chunk(8)[OF assms(1) that] .
  have S: "r \<le> ?n" "\<And>k. k < r \<Longrightarrow> \<not> ?f k" "r < ?n \<Longrightarrow> ?f r"
  proof -
    have "?f a \<Longrightarrow> ?f b" if "a \<le> b" "b < ?n" for a b
    proof (cases "a = b")
      case False
      then have "lo i a + sz i a \<le> lo i b" using describes_order[OF assms(1), of a b] that by simp
      then show "?f a \<Longrightarrow> ?f b" using lim[of a] lim[of b] that by simp
    qed simp
    then show "r \<le> ?n" "\<And>k. k < r \<Longrightarrow> \<not> ?f k" "r < ?n \<Longrightarrow> ?f r"
      using sort_search_spec[of 0 ?n ?f] unfolding r_def[symmetric] by blast+
  qed
  let ?m = "?n - 1"
  have m: "?m < ?n" "Suc ?m = ?n" using n by simp_all
  note last = describes_chunk(5)[OF assms(1) m(1) m(2)]
  have before: "int (lo i k) \<le> p" if "k \<le> r" "k < ?n" for k
  proof (cases k)
    case 0
    then show ?thesis using describes_first[OF assms(1,2)] assms(3) by simp
  next
    case (Suc j)
    then show ?thesis using S(2)[of j] lim[of j] describes_next[OF assms(1), of j] that by simp
  qed
  show k: "chunk_of i p < ?n" using n by (simp add: chunk_of_def r_def[symmetric] Let_def)
  have c: "chunk_of i p = (if r < ?n then r else ?m)" using S(1) by (simp add: chunk_of_def r_def[symmetric] Let_def)
  show "p \<le> int (length D) \<Longrightarrow> int (lo i (chunk_of i p)) \<le> p" using before[of "chunk_of i p"] k c S(1) by auto
  show "p \<le> int (length D) \<Longrightarrow> p \<le> int (lo i (chunk_of i p) + sz i (chunk_of i p))" using c S(3) lim[of r] last by (auto split: if_splits)
  show "p < int (length D) \<Longrightarrow> p < int (lo i (chunk_of i p) + sz i (chunk_of i p))" using c S(3) lim[of r] last by (auto split: if_splits)
  have nr: "\<not> r < ?n" if "p \<ge> int (length D)" using that S(3) lim[of r] describes_chunk(4)[OF assms(1), of r] by fastforce
  show "p > int (length D) \<Longrightarrow> lo i (chunk_of i p) + sz i (chunk_of i p) = length D" using c nr last by auto
  show "p = int (lo i (chunk_of i p) + sz i (chunk_of i p)) \<Longrightarrow> Suc (chunk_of i p) = ?n"
    using c S(3) lim[of r] m(2) by (auto split: if_splits)
qed

section \<open>Moving the position\<close>

lemma reader_invI:
  assumes "describes cr (ip_index ip) D" "ip_length ip = int (length D)" "ip_curChunkIdx ip < length (idx_chunks (ip_index ip))"
    "0 \<le> ip_curChunkOffset ip" "ip_curChunkOffset ip \<le> int (sz (ip_index ip) (ip_curChunkIdx ip))"
    "ip_curChunkOffset ip = int (sz (ip_index ip) (ip_curChunkIdx ip)) \<Longrightarrow> Suc (ip_curChunkIdx ip) = length (idx_chunks (ip_index ip))"
    "ip_pos ip = int (lo (ip_index ip) (ip_curChunkIdx ip)) + ip_curChunkOffset ip"
    "ip_curChunkID ip = ic_id (idx_chunks (ip_index ip) ! ip_curChunkIdx ip)"
    "ip_curChunk ip = [] \<or> ip_curChunk ip = chunk_bytes D (idx_chunks (ip_index ip) ! ip_curChunkIdx ip)"
    "nc_id (ip_nullChunk ip) = Digest_Sum cr (nc_data (ip_nullChunk ip))"
  shows "reader_inv cr D ip"
  using assms unfolding reader_inv_def Let_def lo_def sz_def by blast

lemma reader_invD:
  assumes "reader_inv cr D ip"
  shows "describes cr (ip_index ip) D" "ip_length ip = int (length D)" "ip_curChunkIdx ip < length (idx_chunks (ip_index ip))"
    "0 \<le> ip_curChunkOffset ip" "ip_curChunkOffset ip \<le> int (sz (ip_index ip) (ip_curChunkIdx ip))"
    "ip_curChunkOffset ip = int (sz (ip_index ip) (ip_curChunkIdx ip)) \<Longrightarrow> Suc (ip_curChunkIdx ip) = length (idx_chunks (ip_index ip))"
    "ip_pos ip = int (lo (ip_index ip) (ip_curChunkIdx ip)) + ip_curChunkOffset ip"
    "ip_curChunkID ip = ic_id (idx_chunks (ip_index ip) ! ip_curChunkIdx ip)"
    "ip_curChunk ip = [] \<or> ip_curChunk ip = chunk_bytes D (idx_chunks (ip_index ip) ! ip_curChunkIdx ip)"
    "nc_id (ip_nullChunk ip) = Digest_Sum cr (nc_data (ip_nullChunk ip))"
  using assms unfolding reader_inv_def Let_def lo_def sz_def by blast+

lemma reader_pos:
  assumes "reader_inv cr D ip"
  shows "0 \<le> ip_pos ip" "ip_pos ip \<le> int (length D)" "length D < 2 ^ 63"
    "ip_pos ip = int (length D) \<longleftrightarrow> ip_curChunkOffset ip = int (sz (ip_index ip) (ip_curChunkIdx ip))"
proof -
  note I = reader_invD[OF assms]
  note c = describes_chunk[OF I(1,3)]
  show "0 \<le> ip_pos ip" using I(4,7) by simp
  show "ip_pos ip \<le> int (length D)" using I(5,7) c(4) by linarith
  show "length D < 2 ^ 63" using c(13) .
  show "ip_pos ip = int (length D) \<longleftrightarrow> ip_curChunkOffset ip = int (sz (ip_index ip) (ip_curChunkIdx ip))"
    using I(5,6,7) c(4,5) by linarith
qed

lemma findOffset_inside:
  assumes "reader_inv cr D ip" "0 \<le> p" "p \<le> int (length D)"
  shows "\<exists>ip'. findOffset ip p = Ok (p, None, ip') \<and> reader_inv cr D ip' \<and> ip_pos ip' = p \<and> ip_store ip' = ip_store ip \<and> ip_index ip' = ip_index ip"
proof -
  note I = reader_invD[OF assms(1)] and P = reader_pos[OF assms(1)]
  let ?i = "ip_index ip" and ?k = "ip_curChunkIdx ip" and ?d = "p - ip_pos ip"
  let ?cs = "idx_chunks ?i" and ?m = "chunk_of ?i p"
  note c = describes_chunk[OF I(1,3)]
  have L: "int (length D) < 2 ^ 63" using P(3) by simp
  have small: "i64 ?d = ?d" "i64 (?d + ip_curChunkOffset ip) = ?d + ip_curChunkOffset ip" "i64 (ip_pos ip + ?d) = p"
    "i64 (ip_curChunkOffset ip + ?d) = ip_curChunkOffset ip + ?d"
    using P(1,2) I(4,5,7) c(4) assms(2,3) L by (simp_all add: i64_small)
  have ne: "?cs \<noteq> []" using I(3) by auto
  note C = chunk_of_spec[OF I(1) ne assms(2)]
  note m = describes_chunk[OF I(1) C(1)]
  consider "?d = 0" | "?d \<noteq> 0" "0 \<le> ?d + ip_curChunkOffset ip" "?d + ip_curChunkOffset ip < int (sz ?i ?k)"
    | "?d \<noteq> 0" "\<not> (0 \<le> ?d + ip_curChunkOffset ip \<and> ?d + ip_curChunkOffset ip < int (sz ?i ?k))" by blast
  then show ?thesis
  proof cases
    case 1
    then show ?thesis using assms(1) by (simp add: findOffset_def i64_def)
  next
    case 2
    let ?ip = "ip\<lparr>ip_pos := p, ip_curChunkOffset := ip_curChunkOffset ip + ?d\<rparr>"
    have "findOffset ip p = Ok (p, None, ?ip)"
      unfolding findOffset_def Let_def small c(7) using 2 I(3) by simp
    moreover have "reader_inv cr D ?ip" using I 2 by (intro reader_invI) simp_all
    ultimately show ?thesis by (intro exI[of _ ?ip]) simp
  next
    case 3
    have o: "i64 (p - int (lo ?i ?m)) = p - int (lo ?i ?m)"
      using C(2,3)[OF assms(3)] L assms(2,3) by (simp add: i64_small)
    let ?ip = "ip\<lparr>ip_curChunk := (if ic_id (?cs ! ?m) \<noteq> ip_curChunkID ip then [] else ip_curChunk ip), ip_curChunkIdx := ?m,
       ip_curChunkID := ic_id (?cs ! ?m), ip_curChunkOffset := p - int (lo ?i ?m), ip_pos := p\<rparr>"
    have "findOffset ip p = Ok (p, None, ?ip)"
      unfolding findOffset_def Let_def small c(7) chunk_of_def[unfolded Let_def, symmetric] m(6,8) o if_not_P[OF 3(2)]
      using 3(1) I(3) C(2,3)[OF assms(3)] by simp
    moreover have "reader_inv cr D ?ip"
    proof (rule reader_invI)
      show "ip_curChunkOffset ?ip = int (sz (ip_index ?ip) (ip_curChunkIdx ?ip)) \<Longrightarrow> Suc (ip_curChunkIdx ?ip) = length (idx_chunks (ip_index ?ip))"
        using C(6) by simp
      have "chunk_bytes D (?cs ! ?k) = chunk_bytes D (?cs ! ?m)" if "ic_id (?cs ! ?m) = ip_curChunkID ip"
        using that c(11) m(10) I(8) by metis
      then show "ip_curChunk ?ip = [] \<or> ip_curChunk ?ip = chunk_bytes D (idx_chunks (ip_index ?ip) ! ip_curChunkIdx ?ip)"
        using I(9) by auto
    qed (use I C(1) C(2,3)[OF assms(3)] in simp_all)
    ultimately show ?thesis by (intro exI[of _ ?ip]) simp
  qed
qed

definition beyond_end :: go_error where
  "beyond_end = Errorf ''seek found chunk ending at position %v, desired position is %v''"

lemma findOffset_beyond:
  assumes "reader_inv cr D ip" "int (length D) < p" "p < 2 ^ 63"
  shows "findOffset ip p = Ok (ip_pos ip, Some beyond_end, ip)"
proof -
  note I = reader_invD[OF assms(1)] and P = reader_pos[OF assms(1)]
  let ?i = "ip_index ip" and ?k = "ip_curChunkIdx ip" and ?d = "p - ip_pos ip"
  note c = describes_chunk[OF I(1,3)]
  have small: "i64 ?d = ?d" "i64 (?d + ip_curChunkOffset ip) = ?d + ip_curChunkOffset ip"
    using P(1,2) I(4,5,7) c(4) assms(2,3) by (simp_all add: i64_small)
  have ne: "idx_chunks ?i \<noteq> []" using I(3) by auto
  have p: "0 \<le> p" using assms(2) by simp
  note C = chunk_of_spec[OF I(1) ne p]
  note m = describes_chunk[OF I(1) C(1)]
  have "\<not> ?d + ip_curChunkOffset ip < int (sz ?i ?k)" using I(7) c(4) assms(2) by simp
  then show ?thesis
    unfolding findOffset_def Let_def small c(7) chunk_of_def[unfolded Let_def, symmetric] m(6,8)
    using I(3) C(5)[OF assms(2)] P(2) assms(2) by (auto simp: beyond_end_def)
qed

text \<open>The file that a reader stands for: its bytes and a position in them.\<close>

definition seek_target :: "bytes \<Rightarrow> int \<Rightarrow> int \<Rightarrow> nat \<Rightarrow> int" where
  "seek_target D pos offset whence =
     (if whence = 0 then offset else if whence = 1 then i64 (pos + offset) else i64 (int (length D) + offset))"

definition file_seek :: "bytes \<Rightarrow> int \<Rightarrow> int \<Rightarrow> nat \<Rightarrow> int \<times> go_error option" where
  "file_seek D pos offset whence =
     (let p = seek_target D pos offset whence in
      if whence > 2 then (pos, Some (Errorf ''invalid whence''))
      else if p < 0 then (pos, Some (Errorf ''unable to seek before start of file''))
      else if p > int (length D) then (pos, Some beyond_end)
      else (p, None))"

definition file_read :: "bytes \<Rightarrow> int \<Rightarrow> nat \<Rightarrow> bytes \<times> go_error option" where
  "file_read D pos n =
     (if pos = int (length D) then ([], Some EOF) else (take n (drop (nat pos) D), None))"

lemma i64_range: "i64 x < 2 ^ 63" "- (2 ^ 63) \<le> i64 x"
  unfolding i64_def by (rule signed_take_bit_int_less_exp, rule signed_take_bit_int_greater_eq_minus_exp)

lemma Seek_refines:
  assumes "reader_inv cr D ip" "offset < 2 ^ 63" "file_seek D (ip_pos ip) offset whence = (p, e)"
  shows "\<exists>ip'. IndexPos_Seek ip offset whence = Ok (p, e, ip') \<and> reader_inv cr D ip' \<and> ip_pos ip' = p \<and>
    ip_store ip' = ip_store ip \<and> ip_index ip' = ip_index ip"
proof -
  let ?p = "seek_target D (ip_pos ip) offset whence"
  have lt: "?p < 2 ^ 63" using assms(2) i64_range by (simp add: seek_target_def)
  have S: "IndexPos_Seek ip offset whence = (if whence > 2 then Ok (ip_pos ip, Some (Errorf ''invalid whence''), ip)
    else if ?p < 0 then Ok (ip_pos ip, Some (Errorf ''unable to seek before start of file''), ip)
    else bind_res (findOffset ip ?p) (\<lambda>(newOffset, err, ip).
          Ok (newOffset, (if err = None \<and> ?p > ip_length ip then Some EOF else err), ip)))"
    unfolding IndexPos_Seek_def seek_target_def reader_invD(2)[OF assms(1)] by (simp add: Let_def)
  consider "whence > 2" | "\<not> whence > 2" "?p < 0" | "\<not> whence > 2" "?p > int (length D)" "\<not> ?p < 0" | "\<not> whence > 2" "0 \<le> ?p" "?p \<le> int (length D)"
    by linarith
  then show ?thesis
  proof cases
    case 3
    then show ?thesis using S findOffset_beyond[OF assms(1) 3(2) lt] assms(1,3) by (simp add: file_seek_def Let_def)
  next
    case 4
    obtain ip' where "findOffset ip ?p = Ok (?p, None, ip')" "reader_inv cr D ip'" "ip_pos ip' = ?p" "ip_store ip' = ip_store ip" "ip_index ip' = ip_index ip"
      using findOffset_inside[OF assms(1) 4(2,3)] by blast
    then show ?thesis using S 4 assms(3) reader_invD(2)[of cr D ip'] by (simp add: file_seek_def Let_def)
  qed (use S assms(1,3) in \<open>simp_all add: file_seek_def Let_def\<close>)
qed

section \<open>Reading\<close>

context verified_store begin

lemma reader_loads:
  assumes inv: "reader_inv cr D ip" and "\<And>s i x. fst (get s i) \<noteq> Panic x"
  shows "\<exists>s. IndexPos_loadChunk cr get ip = (Ok (), ip\<lparr>ip_store := s, ip_curChunk := chunk_bytes D (idx_chunks (ip_index ip) ! ip_curChunkIdx ip)\<rparr>) \<or>
    (\<exists>e. fst (get (ip_store ip) (ip_curChunkID ip)) = Err e \<and> IndexPos_loadChunk cr get ip = (Err e, ip\<lparr>ip_store := s\<rparr>))"
proof -
  note I = reader_invD[OF inv]
  note c = describes_chunk[OF I(1,3)]
  obtain r s where g: "get (ip_store ip) (ip_curChunkID ip) = (r, s)" by (cases "get (ip_store ip) (ip_curChunkID ip)")
  show ?thesis
  proof (cases "ip_curChunkID ip = nc_id (ip_nullChunk ip)")
    case True
    then have "nc_data (ip_nullChunk ip) = chunk_bytes D (idx_chunks (ip_index ip) ! ip_curChunkIdx ip)"
      using I(8,10) c(10) by metis
    then show ?thesis using True by (intro exI[of _ "ip_store ip"]) (simp add: IndexPos_loadChunk_def)
  next
    case False
    show ?thesis
    proof (cases r)
      case (Ok ch)
      have "ip_curChunkID ip \<noteq> zero_id" using I(8) c(9) by simp
      then obtain b where b: "fst (Chunk_Data cr ch) = Ok b" "Digest_Sum cr b = ip_curChunkID ip"
        using get_genuine[of "ip_store ip" "ip_curChunkID ip" ch s] g Ok by (auto simp: genuine_def chunk_valid_def)
      then have "b = chunk_bytes D (idx_chunks (ip_index ip) ! ip_curChunkIdx ip)" using I(8) c(10) by simp
      then show ?thesis using False g Ok b by (intro exI[of _ s]) (simp add: IndexPos_loadChunk_def)
    next
      case (Err e)
      then show ?thesis using False g by (intro exI[of _ s]) (simp add: IndexPos_loadChunk_def)
    next
      case (Panic x)
      then show ?thesis using assms(2)[of "ip_store ip" "ip_curChunkID ip" x] g by simp
    qed
  qed
qed

lemma reader_loaded:
  assumes inv: "reader_inv cr D ip" and np: "\<And>s i x. fst (get s i) \<noteq> Panic x" and
    L: "L = (if ip_curChunk ip = [] then IndexPos_loadChunk cr get ip else (Ok (), ip))"
  obtains (loaded) ip1 where "L = (Ok (), ip1)" "reader_inv cr D ip1" "ip_index ip1 = ip_index ip" "ip_pos ip1 = ip_pos ip"
      "ip_curChunkIdx ip1 = ip_curChunkIdx ip" "ip_curChunk ip1 = chunk_bytes D (idx_chunks (ip_index ip) ! ip_curChunkIdx ip)"
    | (failed) e s where "fst (get (ip_store ip) (ip_curChunkID ip)) = Err e" "L = (Err e, ip\<lparr>ip_store := s\<rparr>)"
proof (cases "ip_curChunk ip = []")
  case True
  have "reader_inv cr D (ip\<lparr>ip_store := s, ip_curChunk := chunk_bytes D (idx_chunks (ip_index ip) ! ip_curChunkIdx ip)\<rparr>)" for s
    using inv by (simp add: reader_inv_def Let_def)
  then show ?thesis using reader_loads[OF inv np] True loaded failed unfolding L by fastforce
next
  case False
  then show ?thesis using loaded[of ip] reader_invD(9)[OF inv] inv by (simp add: L)
qed

lemma read_loop_step:
  assumes inv: "reader_inv cr D ip" and off: "ip_curChunk ip = chunk_bytes D (idx_chunks (ip_index ip) ! ip_curChunkIdx ip)" and
    b: "b = take want (drop (nat (ip_curChunkOffset ip)) (ip_curChunk ip))"
  shows "b = take (length b) (drop (nat (ip_pos ip)) D)" "0 \<le> ip_curChunkOffset ip" "ip_curChunkOffset ip \<le> int (length (ip_curChunk ip))"
    "\<exists>ip'. IndexPos_Seek ip (int (length b)) 1 = Ok (ip_pos ip + int (length b), None, ip') \<and> reader_inv cr D ip' \<and>
       ip_pos ip' = ip_pos ip + int (length b) \<and> ip_index ip' = ip_index ip"
    "drop (nat (ip_curChunkOffset ip)) (ip_curChunk ip) = [] \<longleftrightarrow> ip_pos ip = int (length D)"
proof -
  note I = reader_invD[OF inv] and P = reader_pos[OF inv]
  note c = describes_chunk[OF I(1,3)]
  have len: "length (ip_curChunk ip) = sz (ip_index ip) (ip_curChunkIdx ip)" using c(4) by (simp add: off c(12))
  show o: "0 \<le> ip_curChunkOffset ip" "ip_curChunkOffset ip \<le> int (length (ip_curChunk ip))" using I(4,5) len by simp_all
  have d: "drop (nat (ip_curChunkOffset ip)) (ip_curChunk ip) =
    take (sz (ip_index ip) (ip_curChunkIdx ip) - nat (ip_curChunkOffset ip)) (drop (nat (ip_pos ip)) D)"
    using I(4,7) by (simp add: off c(12) slice_def drop_take nat_add_distrib add.commute)
  then have b': "b = take (min want (sz (ip_index ip) (ip_curChunkIdx ip) - nat (ip_curChunkOffset ip))) (drop (nat (ip_pos ip)) D)"
    by (simp add: b)
  then show "b = take (length b) (drop (nat (ip_pos ip)) D)" by (metis append_take_drop_id append_eq_conv_conj)
  show "drop (nat (ip_curChunkOffset ip)) (ip_curChunk ip) = [] \<longleftrightarrow> ip_pos ip = int (length D)"
    using P(4) o len by auto
  have lb: "ip_pos ip + int (length b) \<le> int (length D)" using P(1,2) b' by auto
  then have "file_seek D (ip_pos ip) (int (length b)) 1 = (ip_pos ip + int (length b), None)"
    using P(1,3) by (simp add: file_seek_def seek_target_def i64_small Let_def)
  moreover have "int (length b) < 2 ^ 63" using lb P(1,3) by simp
  ultimately show "\<exists>ip'. IndexPos_Seek ip (int (length b)) 1 = Ok (ip_pos ip + int (length b), None, ip') \<and> reader_inv cr D ip' \<and>
       ip_pos ip' = ip_pos ip + int (length b) \<and> ip_index ip' = ip_index ip"
    using Seek_refines[OF inv, of "int (length b)" 1] by blast
qed

lemma read_loop_refines:
  assumes "reader_inv cr D ip" and np: "\<And>s i x. fst (get s i) \<noteq> Panic x" and "want < fuel"
  shows "\<exists>b e ip'. read_loop cr get fuel want acc ip = Some (Ok (acc @ b, e, ip')) \<and> reader_inv cr D ip' \<and> ip_index ip' = ip_index ip \<and>
    ip_pos ip' = ip_pos ip + int (length b) \<and> b = take (length b) (drop (nat (ip_pos ip)) D) \<and>
    (e = None \<longrightarrow> b = take want (drop (nat (ip_pos ip)) D)) \<and>
    (\<forall>x. e = Some x \<longrightarrow> (\<exists>s. \<exists>c \<in> set (idx_chunks (ip_index ip)). fst (get s (ic_id c)) = Err x))"
  using assms(1,3)
proof (induction fuel arbitrary: want acc ip)
  case (Suc fuel)
  note inv = Suc.prems(1)
  note I = reader_invD[OF inv]
  let ?c = "idx_chunks (ip_index ip) ! ip_curChunkIdx ip"
  show ?case
  proof (cases "want = 0")
    case False
    define L where "L = (if ip_curChunk ip = [] then IndexPos_loadChunk cr get ip else (Ok (), ip))"
    have D: "read_loop cr get (Suc fuel) want acc ip = (case L of
        (Panic x, ip) \<Rightarrow> Some (Panic x)
      | (Err e, ip) \<Rightarrow> Some (Ok (acc, Some e, ip))
      | (Ok _, ip) \<Rightarrow>
          if ip_curChunkOffset ip < 0 \<or> ip_curChunkOffset ip > int (length (ip_curChunk ip))
          then Some (Panic ''slice bounds out of range'')
          else let remaining = drop (nat (ip_curChunkOffset ip)) (ip_curChunk ip) in
            if remaining = [] \<and> int (ip_curChunkIdx ip) = int (length (idx_chunks (ip_index ip))) - 1
            then Some (Ok (acc, None, ip))
            else let copied = take want remaining in
              case IndexPos_Seek ip (int (length copied)) 1 of
                Panic x \<Rightarrow> Some (Panic x)
              | Err e \<Rightarrow> Some (Err e)
              | Ok (_, Some e, ip) \<Rightarrow> Some (Ok (acc @ copied, Some e, ip))
              | Ok (_, None, ip) \<Rightarrow> read_loop cr get fuel (want - length copied) (acc @ copied) ip)"
      using False by (simp add: L_def)
    show ?thesis
    proof (rule reader_loaded[OF inv np L_def])
      fix e s assume failed: "fst (get (ip_store ip) (ip_curChunkID ip)) = Err e" "L = (Err e, ip\<lparr>ip_store := s\<rparr>)"
      have "reader_inv cr D (ip\<lparr>ip_store := s\<rparr>)" using inv by (simp add: reader_inv_def)
      then show ?thesis using failed D I(8) nth_mem[OF I(3)] by (simp del: read_loop.simps) blast
    next
      fix ip1 assume L: "L = (Ok (), ip1)" and inv1: "reader_inv cr D ip1" and same: "ip_index ip1 = ip_index ip" "ip_pos ip1 = ip_pos ip"
        "ip_curChunkIdx ip1 = ip_curChunkIdx ip" "ip_curChunk ip1 = chunk_bytes D ?c"
      define b where "b = take want (drop (nat (ip_curChunkOffset ip1)) (ip_curChunk ip1))"
      note S = read_loop_step[OF inv1 _ b_def, unfolded same(1,3), OF same(4)]
      show ?thesis
      proof (cases "ip_pos ip = int (length D)")
        case True
        then have "Suc (ip_curChunkIdx ip) = length (idx_chunks (ip_index ip))" using reader_pos(4)[OF inv] I(6) by blast
        then show ?thesis using D L S(2,3,5) True same inv1 by (simp add: Let_def del: read_loop.simps)
      next
        case False
        then have ne: "drop (nat (ip_curChunkOffset ip1)) (ip_curChunk ip1) \<noteq> []" using S(5) same by simp
        obtain ip2 where ip2: "IndexPos_Seek ip1 (int (length b)) 1 = Ok (ip_pos ip1 + int (length b), None, ip2)" "reader_inv cr D ip2"
          "ip_pos ip2 = ip_pos ip + int (length b)" "ip_index ip2 = ip_index ip" using S(4) same by auto
        have R: "read_loop cr get (Suc fuel) want acc ip = read_loop cr get fuel (want - length b) (acc @ b) ip2"
          using D L S(2,3) ne ip2(1) by (simp add: Let_def b_def[symmetric] del: read_loop.simps)
        have "b \<noteq> []" using ne \<open>want \<noteq> 0\<close> by (simp add: b_def)
        then have less: "want - length b < fuel" using Suc.prems(2) \<open>want \<noteq> 0\<close> by (cases b) auto
        obtain b' e ip' where r: "read_loop cr get fuel (want - length b) (acc @ b) ip2 = Some (Ok ((acc @ b) @ b', e, ip'))" "reader_inv cr D ip'"
          "ip_index ip' = ip_index ip2" "ip_pos ip' = ip_pos ip2 + int (length b')" "b' = take (length b') (drop (nat (ip_pos ip2)) D)"
          "e = None \<longrightarrow> b' = take (want - length b) (drop (nat (ip_pos ip2)) D)"
          "\<forall>x. e = Some x \<longrightarrow> (\<exists>s. \<exists>c \<in> set (idx_chunks (ip_index ip2)). fst (get s (ic_id c)) = Err x)"
          using Suc.IH[OF ip2(2) less, of "acc @ b"] by (elim exE conjE) (rule that)
        have dr: "drop (nat (ip_pos ip2)) D = drop (length b) (drop (nat (ip_pos ip)) D)"
          using reader_pos(1)[OF inv] ip2(3) by (simp add: nat_add_distrib add.commute)
        have bl: "b = take (length b) (drop (nat (ip_pos ip)) D)" "length b \<le> want" using S(1)[unfolded same(2)] by (assumption, simp add: b_def)
        have "b @ take m (drop (length b) (drop (nat (ip_pos ip)) D)) = take (length b + m) (drop (nat (ip_pos ip)) D)" for m
          using bl(1) by (metis take_add)
        then have F: "b @ b' = take (length (b @ b')) (drop (nat (ip_pos ip)) D)" "e = None \<longrightarrow> b @ b' = take want (drop (nat (ip_pos ip)) D)"
          using r(5,6) bl(2) unfolding dr by (metis length_append, metis le_add_diff_inverse)
        have "read_loop cr get (Suc fuel) want acc ip = Some (Ok (acc @ b @ b', e, ip'))" "ip_pos ip' = ip_pos ip + int (length (b @ b'))"
          "ip_index ip' = ip_index ip" using R r(1,3,4) ip2(3,4) by simp_all
        with F r(2) r(7)[unfolded ip2(4)] show ?thesis by blast
      qed
    qed
  qed (use inv in simp)
qed simp

end

section \<open>Sequences of operations\<close>

lemma reader_start:
  assumes "describes cr i D" "NewIndexReadSeeker cr i s = Ok ip"
  shows "reader_inv cr D ip" "ip_pos ip = 0" "ip_index ip = i"
proof -
  have ne: "idx_chunks i \<noteq> []" and ip: "ip_index ip = i" "ip_length ip = Index_Length i" "ip_pos ip = 0" "ip_curChunkID ip = ic_id (idx_chunks i ! 0)"
    "ip_curChunk ip = []" "ip_curChunkIdx ip = 0" "ip_curChunkOffset ip = 0" "nc_id (ip_nullChunk ip) = Digest_Sum cr (nc_data (ip_nullChunk ip))"
    using assms(2) by (auto simp: NewIndexReadSeeker_def NewNullChunk_def res_simps hd_conv_nth split: if_splits)
  have "Index_Length i = int (length D)"
    using contiguous_Index_Length assms(1) unfolding describes_def by metis
  then show "reader_inv cr D ip"
    using assms(1) ip ne describes_first[OF assms(1) ne] describes_chunk(3)[OF assms(1), of 0] by (intro reader_invI) auto
  show "ip_pos ip = 0" "ip_index ip = i" using ip by simp_all
qed

datatype reader_op = ReadOp nat | SeekOp int nat

datatype reader_result = BytesRead bytes "go_error option" | Position int "go_error option"

fun run_reader :: "codec_fns \<Rightarrow> 's get_fn \<Rightarrow> 's IndexPos \<Rightarrow> reader_op list \<Rightarrow> reader_result list option" where
  "run_reader cr get ip [] = Some []"
| "run_reader cr get ip (ReadOp n # ops) =
     (case IndexPos_Read cr get (Suc n) ip n of
        Some (Ok (b, e, ip)) \<Rightarrow> map_option ((#) (BytesRead b e)) (run_reader cr get ip ops)
      | _ \<Rightarrow> None)"
| "run_reader cr get ip (SeekOp offset whence # ops) =
     (case IndexPos_Seek ip offset whence of
        Ok (p, e, ip) \<Rightarrow> map_option ((#) (Position p e)) (run_reader cr get ip ops)
      | _ \<Rightarrow> None)"

fun run_file :: "bytes \<Rightarrow> int \<Rightarrow> reader_op list \<Rightarrow> reader_result list" where
  "run_file D pos [] = []"
| "run_file D pos (ReadOp n # ops) =
     (case file_read D pos n of (b, e) \<Rightarrow> BytesRead b e # run_file D (pos + int (length b)) ops)"
| "run_file D pos (SeekOp offset whence # ops) =
     (case file_seek D pos offset whence of (p, e) \<Rightarrow> Position p e # run_file D p ops)"

fun op_ok :: "reader_op \<Rightarrow> bool" where
  "op_ok (ReadOp n) \<longleftrightarrow> True"
| "op_ok (SeekOp offset whence) \<longleftrightarrow> - (2 ^ 63) \<le> offset \<and> offset < 2 ^ 63"

definition never_panics :: "'s get_fn \<Rightarrow> bool" where
  "never_panics get \<longleftrightarrow> (\<forall>s i x. fst (get s i) \<noteq> Panic x)"

definition serves :: "'s get_fn \<Rightarrow> Index \<Rightarrow> bool" where
  "serves get i \<longleftrightarrow> (\<forall>s. \<forall>c \<in> set (idx_chunks i). \<forall>e. fst (get s (ic_id c)) \<noteq> Err e)"

context verified_store begin

lemma Read_prefix:
  assumes "reader_inv cr D ip" "never_panics get"
  shows "\<exists>b e ip'. IndexPos_Read cr get (Suc n) ip n = Some (Ok (b, e, ip')) \<and> reader_inv cr D ip' \<and> ip_index ip' = ip_index ip \<and>
    ip_pos ip' = ip_pos ip + int (length b) \<and> b = take (length b) (drop (nat (ip_pos ip)) D) \<and> (e = None \<longrightarrow> (b, e) = file_read D (ip_pos ip) n) \<and>
    (\<forall>x. e = Some x \<longrightarrow> (b, e) = file_read D (ip_pos ip) n \<or> (\<exists>s. \<exists>c \<in> set (idx_chunks (ip_index ip)). fst (get s (ic_id c)) = Err x))"
proof (cases "ip_pos ip = int (length D)")
  case True
  then show ?thesis using assms(1) reader_invD(2)[OF assms(1)] by (simp add: IndexPos_Read_def file_read_def)
next
  case False
  have np: "\<And>s i x. fst (get s i) \<noteq> Panic x" using assms(2) unfolding never_panics_def by blast
  have "IndexPos_Read cr get (Suc n) ip n = read_loop cr get (Suc n) n [] ip"
    using False reader_invD(2)[OF assms(1)] by (simp add: IndexPos_Read_def)
  moreover have "file_read D (ip_pos ip) n = (take n (drop (nat (ip_pos ip)) D), None)" using False by (simp add: file_read_def)
  moreover note read_loop_refines[OF assms(1) np lessI, where want = n and acc = "[]", unfolded append_Nil]
  ultimately show ?thesis by (auto simp del: read_loop.simps)
qed

lemma run_reader_refines:
  assumes "reader_inv cr D ip" "never_panics get" "serves get (ip_index ip)" "list_all op_ok ops"
  shows "run_reader cr get ip ops = Some (run_file D (ip_pos ip) ops)"
  using assms(1,3,4)
proof (induction ops arbitrary: ip)
  case (Cons a ops)
  show ?case
  proof (cases a)
    case (ReadOp n)
    obtain b e ip' where r: "IndexPos_Read cr get (Suc n) ip n = Some (Ok (b, e, ip'))" "reader_inv cr D ip'" "ip_index ip' = ip_index ip"
      "ip_pos ip' = ip_pos ip + int (length b)" "(b, e) = file_read D (ip_pos ip) n"
      using Read_prefix[OF Cons.prems(1) assms(2), of n] Cons.prems(2) unfolding serves_def
      by (elim exE conjE) (metis option.exhaust)
    have "run_reader cr get ip' ops = Some (run_file D (ip_pos ip') ops)"
      using Cons.IH[OF r(2)] Cons.prems(2,3) r(3) by simp
    then show ?thesis using ReadOp r(1,4) r(5)[symmetric] by simp
  next
    case (SeekOp offset whence)
    obtain p e where f: "file_seek D (ip_pos ip) offset whence = (p, e)" by (cases "file_seek D (ip_pos ip) offset whence")
    obtain ip' where s: "IndexPos_Seek ip offset whence = Ok (p, e, ip')" "reader_inv cr D ip'" "ip_pos ip' = p" "ip_index ip' = ip_index ip"
      using Seek_refines[OF Cons.prems(1) _ f] Cons.prems(3) SeekOp by auto
    have "run_reader cr get ip' ops = Some (run_file D (ip_pos ip') ops)"
      using Cons.IH[OF s(2)] Cons.prems(2,3) s(4) by simp
    then show ?thesis using SeekOp s f by simp
  qed
qed simp

end

section \<open>Properties\<close>

definition reader_codec :: codec_fns where
  "reader_codec = \<lparr>Digest_Sum = (\<lambda>b. if b = [1, 2, 3] then replicate 32 1 else if b = [4, 5] then replicate 32 2 else replicate 32 3),
     Compress = (\<lambda>b. b), Decompress = Ok\<rparr>"

definition reader_blob :: Index where
  "reader_blob = \<lparr>idx_index = \<lparr>fi_hdr = \<lparr>h_size = 48, h_type = CaFormatIndex\<rparr>, FeatureFlags = CaFormatSHA512256,
       ChunkSizeMin = 1, ChunkSizeAvg = 2, ChunkSizeMax = 3\<rparr>,
     idx_chunks = [\<lparr>ic_id = replicate 32 1, ic_start = 0, ic_size = 3\<rparr>, \<lparr>ic_id = replicate 32 2, ic_start = 3, ic_size = 2\<rparr>]\<rparr>"

text \<open>A store with a fixed set of chunks.\<close>

definition held_get :: "codec_fns \<Rightarrow> (chunk_id \<times> bytes) list \<Rightarrow> unit get_fn" where
  "held_get cr m s i = ((case map_of m i of None \<Rightarrow> Err (ChunkMissing i) | Some b \<Rightarrow> NewChunkWithID cr i b False), s)"

lemma held_verified: "verified_store cr (held_get cr m)"
  by unfold_locales (auto simp: held_get_def genuine_def intro: NewChunkWithID_valid split: option.splits)

lemma held_never_panics: "never_panics (held_get cr m)"
  by (auto simp: never_panics_def held_get_def NewChunkWithID_def verify_new_def split: option.splits prod.splits)

lemma reader_ids: "replicate 32 1 \<noteq> zero_id" "replicate 32 2 \<noteq> zero_id" "replicate 32 3 \<noteq> (replicate 32 1 :: bytes)"
  "replicate 32 2 \<noteq> (replicate 32 1 :: bytes)" "replicate 32 3 \<noteq> (replicate 32 2 :: bytes)"
  by (simp_all add: zero_id_def chunk_id_len_def replicate_eq_replicate)

lemma reader_describes: "describes reader_codec reader_blob [1, 2, 3, 4, 5]"
  using reader_ids by (auto simp: describes_def reader_blob_def reader_codec_def total_size_def chunk_bytes_def slice_def split: if_splits)

definition reader_initial :: "unit IndexPos" where
  "reader_initial = \<lparr>ip_store = (), ip_index = reader_blob, ip_length = 5, ip_pos = 0, ip_curChunkID = replicate 32 1, ip_curChunk = [],
     ip_curChunkIdx = 0, ip_curChunkOffset = 0, ip_nullChunk = \<lparr>nc_data = [0, 0, 0], nc_id = replicate 32 3\<rparr>\<rparr>"

lemma reader_new: "NewIndexReadSeeker reader_codec reader_blob () = Ok reader_initial"
proof -
  have "replicate 3 0 = [0, 0, 0 :: byte]" by (simp add: numeral_3_eq_3)
  then have "make_bytes 3 = Ok [0, 0, 0]" by (simp add: make_bytes_def max_alloc_def)
  then show ?thesis by (simp add: NewIndexReadSeeker_def NewNullChunk_def reader_blob_def reader_initial_def Index_Length_def reader_codec_def)
qed

lemma reader_serves: "serves (held_get reader_codec [(replicate 32 1, [1, 2, 3]), (replicate 32 2, [4, 5])]) reader_blob"
  using reader_ids
  by (auto simp: serves_def held_get_def reader_blob_def NewChunkWithID_def verify_new_def Chunk_ID_def Chunk_Data_def reader_codec_def)

text \<open>
  (C7) A reader over an index is a file: with a store that hands out genuine chunks and has those of the
  index, every sequence of reads and seeks, from the start or anywhere, returns the bytes, positions and
  errors that it would return for a file with the bytes of the blob. Every read ends.
\<close>

theorem index_reader_refines:
  assumes "verified_store cr get" "never_panics get" "serves get i" "describes cr i D" "NewIndexReadSeeker cr i s = Ok ip" "list_all op_ok ops"
  shows "run_reader cr get ip ops = Some (run_file D 0 ops)"
  using verified_store.run_reader_refines[OF assms(1) reader_start(1)[OF assms(4,5)] assms(2)] assms(3,6) reader_start[OF assms(4,5)] by simp

theorem index_reader_refines_witness:
  "run_reader reader_codec (held_get reader_codec [(replicate 32 1, [1, 2, 3]), (replicate 32 2, [4, 5])]) reader_initial
     [ReadOp 4, SeekOp 1 0, ReadOp 10, ReadOp 1, SeekOp 7 0] =
   Some [BytesRead [1, 2, 3, 4] None, Position 1 None, BytesRead [2, 3, 4, 5] None, BytesRead [] (Some EOF), Position 5 (Some beyond_end)]"
proof -
  have "run_file [1, 2, 3, 4, 5] 0 [ReadOp 4, SeekOp 1 0, ReadOp 10, ReadOp 1, SeekOp 7 0] =
    [BytesRead [1, 2, 3, 4] None, Position 1 None, BytesRead [2, 3, 4, 5] None, BytesRead [] (Some EOF), Position 5 (Some beyond_end)]"
    by code_simp
  then show ?thesis
    using index_reader_refines[OF held_verified held_never_panics reader_serves reader_describes reader_new,
        of "[ReadOp 4, SeekOp 1 0, ReadOp 10, ReadOp 1, SeekOp 7 0]"] by simp
qed

text \<open>
  When the store fails to deliver a chunk, a read that is under way returns that error with the
  bytes before the chunk, all of them right, and the position is behind them, so that the next read
  goes on from there.
\<close>

theorem index_reader_errors:
  assumes "verified_store cr get" "never_panics get" "reader_inv cr D ip"
  shows "\<exists>b e ip'. IndexPos_Read cr get (Suc n) ip n = Some (Ok (b, e, ip')) \<and> reader_inv cr D ip' \<and>
    ip_pos ip' = ip_pos ip + int (length b) \<and> b = take (length b) (drop (nat (ip_pos ip)) D) \<and>
    ((b, e) = file_read D (ip_pos ip) n \<or> (\<exists>x s. \<exists>c \<in> set (idx_chunks (ip_index ip)). e = Some x \<and> fst (get s (ic_id c)) = Err x))"
  using verified_store.Read_prefix[OF assms(1,3,2), of n] by (metis option.exhaust)

theorem index_reader_errors_witness:
  "\<exists>b e ip'. IndexPos_Read reader_codec (held_get reader_codec [(replicate 32 1, [1, 2, 3])]) 5 reader_initial 4 = Some (Ok (b, e, ip')) \<and>
    reader_inv reader_codec [1, 2, 3, 4, 5] ip' \<and> ip_pos ip' = int (length b) \<and> b = take (length b) [1, 2, 3, 4, 5]"
proof -
  have "ip_pos reader_initial = 0" by (simp add: reader_initial_def)
  moreover have "Suc 4 = 5" by simp
  ultimately show ?thesis
    using index_reader_errors[OF held_verified held_never_panics[of _ "[(replicate 32 1, [1, 2, 3])]"] reader_start(1)[OF reader_describes reader_new],
      where n = 4] by (metis add_0 drop0 nat_0)
qed

end
