(* ===== verification/Path.thy ===== *)
theory Path
  imports Prelude
begin

text \<open>
  The functions of Go's packages \<open>path\<close> and \<open>path/filepath\<close> (on a system with \<open>/\<close> as separator) that the
  archive code uses: \<open>Clean\<close>, \<open>Join\<close>, \<open>Dir\<close> and \<open>Base\<close>.
\<close>

section \<open>Components\<close>

text \<open>The parts of a path between the slashes, and a path of parts.\<close>

fun split_path :: "string \<Rightarrow> string list" where
  "split_path [] = [[]]"
| "split_path (c # cs) =
     (if c = CHR ''/'' then [] # split_path cs
      else case split_path cs of p # ps \<Rightarrow> (c # p) # ps | [] \<Rightarrow> [[c]])"

fun join_path :: "string list \<Rightarrow> string" where
  "join_path [] = []"
| "join_path [p] = p"
| "join_path (p # q # ps) = p @ ''/'' @ join_path (q # ps)"

text \<open>
  \<open>Clean\<close> takes one part after the other; the parts kept so far are in reverse order. A \<open>..\<close> removes
  the part before it, is dropped at the root and kept at the start of a relative path.
\<close>

fun clean_parts :: "bool \<Rightarrow> string list \<Rightarrow> string list \<Rightarrow> string list" where
  "clean_parts rooted kept [] = rev kept"
| "clean_parts rooted kept (p # ps) =
     (if p = '''' \<or> p = ''.'' then clean_parts rooted kept ps
      else if p = ''..'' then
        (case kept of
           k # ks \<Rightarrow> if k = ''..'' then clean_parts rooted (p # kept) ps else clean_parts rooted ks ps
         | [] \<Rightarrow> if rooted then clean_parts rooted [] ps else clean_parts rooted [p] ps)
      else clean_parts rooted (p # kept) ps)"

definition path_Clean :: "string \<Rightarrow> string" where
  "path_Clean p =
     (let rooted = (case p of c # _ \<Rightarrow> c = CHR ''/'' | [] \<Rightarrow> False);
          parts = clean_parts rooted [] (split_path p)
      in if rooted then ''/'' @ join_path parts
         else if parts = [] then ''.'' else join_path parts)"

text \<open>\<open>Join\<close> of two elements.\<close>

definition path_Join :: "string \<Rightarrow> string \<Rightarrow> string" where
  "path_Join a b =
     (if a = '''' \<and> b = '''' then '''' else if a = '''' then path_Clean b else path_Clean (a @ ''/'' @ b))"

text \<open>\<open>Dir\<close>: everything up to the last slash, cleaned.\<close>

definition path_Dir :: "string \<Rightarrow> string" where
  "path_Dir p = path_Clean (rev (dropWhile (\<lambda>c. c \<noteq> CHR ''/'') (rev p)))"

definition path_Base :: "string \<Rightarrow> string" where
  "path_Base p =
     (if p = '''' then ''.''
      else let q = rev (takeWhile (\<lambda>c. c \<noteq> CHR ''/'') (dropWhile (\<lambda>c. c = CHR ''/'') (rev p)))
           in if q = '''' then ''/'' else q)"

section \<open>Clean paths\<close>

text \<open>A name that is one part of a path and stands for itself.\<close>

definition plain_part :: "string \<Rightarrow> bool" where
  "plain_part p \<longleftrightarrow> CHR ''/'' \<notin> set p \<and> p \<noteq> '''' \<and> p \<noteq> ''.'' \<and> p \<noteq> ''..''"

text \<open>The path of a list of names below the current directory.\<close>

definition rel_path :: "string list \<Rightarrow> string" where
  "rel_path ps = (if ps = [] then ''.'' else join_path ps)"

lemma split_path_ne [simp]: "split_path p \<noteq> []"
  by (induction p) (auto split: list.splits)

lemma split_path_append:
  "CHR ''/'' \<notin> set p \<Longrightarrow> split_path (p @ CHR ''/'' # q) = p # split_path q"
  by (induction p) auto

lemma split_path_plain: "CHR ''/'' \<notin> set p \<Longrightarrow> split_path p = [p]"
  by (induction p) auto

lemma split_join: "\<forall>p \<in> set ps. CHR ''/'' \<notin> set p \<Longrightarrow> ps \<noteq> [] \<Longrightarrow> split_path (join_path ps) = ps"
  by (induction ps rule: join_path.induct) (auto simp: split_path_append split_path_plain)

lemma clean_parts_plain: "\<forall>p \<in> set ps. plain_part p \<Longrightarrow> clean_parts r kept ps = rev kept @ ps"
  by (induction ps arbitrary: kept) (auto simp: plain_part_def)

lemma join_path_not_rooted:
  assumes "\<forall>p \<in> set ps. plain_part p" "ps \<noteq> []"
  shows "\<exists>c cs. join_path ps = c # cs \<and> c \<noteq> CHR ''/''"
proof -
  obtain p ps' where ps: "ps = p # ps'" using assms(2) by (cases ps) auto
  then obtain c p' where p: "p = c # p'" "c \<noteq> CHR ''/''" using assms(1) by (cases p) (auto simp: plain_part_def)
  show ?thesis using ps p by (cases ps') auto
qed

lemma Clean_join:
  assumes "\<forall>p \<in> set ps. plain_part p" "ps \<noteq> []"
  shows "path_Clean (join_path ps) = join_path ps"
proof -
  obtain c cs where j: "join_path ps = c # cs" "c \<noteq> CHR ''/''" using join_path_not_rooted[OF assms] by blast
  have s: "split_path (join_path ps) = ps" using assms by (intro split_join) (auto simp: plain_part_def)
  have r: "(case join_path ps of c # _ \<Rightarrow> c = CHR ''/'' | [] \<Rightarrow> False) = False" using j by simp
  show ?thesis unfolding path_Clean_def Let_def r s using assms(2) clean_parts_plain[OF assms(1), of False "[]"] by simp
qed

lemma join_path_snoc: "ps \<noteq> [] \<Longrightarrow> join_path (ps @ [q]) = join_path ps @ ''/'' @ q"
  by (induction ps rule: join_path.induct) auto

text \<open>Going into a directory and leaving it again.\<close>

lemma Join_rel:
  assumes "\<forall>p \<in> set ps. plain_part p" "plain_part q"
  shows "path_Join (rel_path ps) q = rel_path (ps @ [q])"
proof (cases "ps = []")
  case True
  have "path_Clean (''.'' @ ''/'' @ q) = q"
    using assms(2) split_path_append[of "''.''" q] split_path_plain[of q] clean_parts_plain[of "[q]" False "[]"]
    by (auto simp: path_Clean_def Let_def plain_part_def)
  then show ?thesis using True by (simp add: path_Join_def rel_path_def)
next
  case False
  have "path_Clean (join_path (ps @ [q])) = join_path (ps @ [q])" using assms by (intro Clean_join) auto
  then show ?thesis using False join_path_not_rooted[OF assms(1) False] by (auto simp: path_Join_def rel_path_def join_path_snoc)
qed

lemma Join_rel_empty: "\<forall>p \<in> set ps. plain_part p \<Longrightarrow> path_Join (rel_path ps) '''' = rel_path ps"
proof (cases "ps = []")
  case True
  then show ?thesis by (simp add: path_Join_def rel_path_def path_Clean_def)
next
  case False
  assume p: "\<forall>p \<in> set ps. plain_part p"
  have "split_path (join_path ps @ ''/'') = ps @ ['''']"
    using p False by (induction ps rule: join_path.induct) (auto simp: split_path_append plain_part_def)
  moreover have "clean_parts r kept (ps @ ['''']) = rev kept @ ps" for r kept
    using p by (induction ps arbitrary: kept) (auto simp: plain_part_def)
  ultimately show ?thesis using False join_path_not_rooted[OF p False]
    by (auto simp: path_Join_def rel_path_def path_Clean_def Let_def)
qed

lemma Dir_rel_snoc:
  assumes "\<forall>p \<in> set ps. plain_part p" "plain_part q"
  shows "path_Dir (rel_path (ps @ [q])) = rel_path ps"
proof -
  have q: "CHR ''/'' \<notin> set q" using assms(2) by (simp add: plain_part_def)
  show ?thesis
  proof (cases "ps = []")
    case True
    have d: "dropWhile (\<lambda>c. c \<noteq> CHR ''/'') (rev q) = []" using q by (simp add: dropWhile_eq_Nil_conv) metis
    have "path_Dir q = ''.''" unfolding path_Dir_def d by (simp add: path_Clean_def)
    then show ?thesis using True by (simp add: rel_path_def)
  next
    case False
    have "dropWhile (\<lambda>c. c \<noteq> CHR ''/'') (rev (join_path ps @ ''/'' @ q)) = rev (join_path ps @ ''/'')"
      using dropWhile_append2[of "rev q" "\<lambda>c. c \<noteq> CHR ''/''" "CHR ''/'' # rev (join_path ps)"] q by auto
    then have "path_Dir (rel_path (ps @ [q])) = path_Clean (join_path ps @ ''/'')"
      using False by (simp add: path_Dir_def rel_path_def join_path_snoc)
    also have "\<dots> = rel_path ps"
      using Join_rel_empty[OF assms(1)] False join_path_not_rooted[OF assms(1) False] by (auto simp: path_Join_def rel_path_def)
    finally show ?thesis .
  qed
qed

lemma Dir_dot: "path_Dir (rel_path []) = rel_path []"
  by (simp add: path_Dir_def rel_path_def path_Clean_def)

end
