(* ===== verification/Archive.thy ===== *)
theory Archive
  imports Format_Props Path "HOL-Library.AList"
begin

text \<open>
  Reading an archive: the decoder that turns casync elements into the nodes of a file system
  (\<^verbatim>\<open>src/archive.go\<close>) and the extraction of an archive through a \<open>FilesystemWriter\<close> (\<^verbatim>\<open>src/untar.go\<close>,
  \<^verbatim>\<open>src/filesystem.go\<close>).

  A Go map of extended attributes is an association list with distinct keys.
\<close>

section \<open>How far the decoder reads\<close>

lemma read_full_le: "read_full s n = Ok (b, s') \<Longrightarrow> length (s_data s') \<le> length (s_data s)"
  by (auto simp: read_full_def split: if_splits)

lemma ReadUint64_shrinks: "ReadUint64 s = Ok (v, s') \<Longrightarrow> length (s_data s') \<le> length (s_data s)"
  using ReadUint64_shorter by fastforce

lemma read_goodbye_items_le: "read_goodbye_items n s = Ok (is, s') \<Longrightarrow> length (s_data s') \<le> length (s_data s)"
  by (induction n arbitrary: s "is") (auto simp: res_simps dest!: ReadUint64_shrinks, fastforce)

lemma read_table_items_le: "read_table_items s = Ok (is, s') \<Longrightarrow> length (s_data s') \<le> length (s_data s)"
proof (induction s arbitrary: "is" s' rule: read_table_items.induct)
  case (1 s)
  show ?case
  proof -
    obtain off s1 where u: "ReadUint64 s = Ok (off, s1)" "(if off = 0 then Ok ([], s1) else bind_res (ReadID s1) (\<lambda>(c, s2).
        bind_res (read_table_items s2) (\<lambda>(is, s3). Ok (\<lparr>ti_offset = off, ti_chunk = c\<rparr> # is, s3)))) = Ok (is, s')"
      using "1.prems" by (subst (asm) read_table_items.simps) (auto simp: res_simps)
    show ?thesis
    proof (cases "off = 0")
      case False
      then obtain c s2 is' where c: "ReadID s1 = Ok (c, s2)" "read_table_items s2 = Ok (is', s')" using u(2) by (auto simp: res_simps)
      then show ?thesis using "1.IH"[OF u(1) refl False c(1) refl c(2)] ReadUint64_shrinks[OF u(1)] ReadID_shorter[OF c(1)] by simp
    qed (use u ReadUint64_shrinks in auto)
  qed
qed

lemma read_body_le: "read_body h k s = Ok (b, s') \<Longrightarrow> length (s_data s') \<le> length (s_data s)"
  by (auto simp: read_body_def res_simps dest: read_full_le)

lemma read_name_le: "read_name h k s = Ok (b, s') \<Longrightarrow> length (s_data s') \<le> length (s_data s)"
  by (auto simp: read_name_def res_simps dest: read_body_le)

lemmas reads_le = ReadUint64_shrinks read_goodbye_items_le read_table_items_le read_body_le read_name_le

lemma decode_parts_le:
  "decode_entry h s = Ok (e, s') \<Longrightarrow> length (s_data s') \<le> length (s_data s)"
  "decode_goodbye h s = Ok (e, s') \<Longrightarrow> length (s_data s') \<le> length (s_data s)"
  "decode_index h s = Ok (e, s') \<Longrightarrow> length (s_data s') \<le> length (s_data s)"
  "decode_table h s = Ok (e, s') \<Longrightarrow> length (s_data s') \<le> length (s_data s)"
  "decode_acl mk h s = Ok (e, s') \<Longrightarrow> length (s_data s') \<le> length (s_data s)"
  "decode_acl_default h s = Ok (e, s') \<Longrightarrow> length (s_data s') \<le> length (s_data s)"
  "decode_device h s = Ok (e, s') \<Longrightarrow> length (s_data s') \<le> length (s_data s)"
  "decode_name mk' h s = Ok (e, s') \<Longrightarrow> length (s_data s') \<le> length (s_data s)"
  by (auto simp: decode_entry_def decode_goodbye_def decode_index_def decode_table_def decode_acl_def decode_acl_default_def
      decode_device_def decode_name_def Let_def res_simps split: if_splits dest!: reads_le)

lemma decode_elem_le: "decode_elem h s = Ok (e, d) \<Longrightarrow> length (s_data (d_stream d)) \<le> length (s_data s)"
  by (auto simp: decode_elem_def Let_def res_simps split: if_splits dest: decode_parts_le reads_le)

lemma Next_shorter:
  assumes "FormatDecoder_Next d = Ok (Some e, d')"
  shows "length (s_data (d_stream d')) < length (s_data (d_stream d))"
proof -
  obtain h s where s: "ReadHeader (drain d) = Ok (h, s)" "decode_elem h s = Ok (e, d')"
    using assms by (auto simp: FormatDecoder_Next_def Let_def res_simps split: res.splits if_splits)
  have "length (s_data s) < length (s_data (drain d))"
    using s(1) by (auto simp: ReadHeader_def res_simps dest!: ReadUint64_shorter)
  moreover have "length (s_data (drain d)) \<le> length (s_data (d_stream d))"
    by (auto simp: drain_def split: option.splits)
  ultimately show ?thesis using decode_elem_le[OF s(2)] by simp
qed

section \<open>Nodes\<close>

record node_info =
  ni_name :: string
  ni_uid :: int
  ni_gid :: int
  ni_mode :: file_mode
  ni_mtime :: int
  ni_xattrs :: "(string \<times> string) list"

datatype archive_node =
    NodeDirectory node_info
  | NodeFile node_info u64 stream
  | NodeDevice node_info u64 u64
  | NodeSymlink node_info string

record ArchiveDecoder =
  ad_d :: FormatDecoder
  ad_dir :: string
  ad_last :: "format_element option"

definition NewArchiveDecoder :: "stream \<Rightarrow> ArchiveDecoder" where
  "NewArchiveDecoder s = \<lparr>ad_d = NewFormatDecoder s, ad_dir = ''.'', ad_last = None\<rparr>"

text \<open>The local variables of \<open>Next\<close>: the elements of a node that were seen so far.\<close>

record node_parts =
  np_entry :: "format_element option"
  np_payload :: "(FormatHeader \<times> stream) option"
  np_symlink :: "string option"
  np_device :: "(u64 \<times> u64) option"
  np_xattrs :: "(string \<times> string) list"
  np_name :: string

definition no_parts :: node_parts where
  "no_parts = \<lparr>np_entry = None, np_payload = None, np_symlink = None, np_device = None, np_xattrs = [], np_name = []\<rparr>"

text \<open>
  What the \<open>switch\<close> does with an element: go on with more elements, leave the loop, with the element
  put back or not, or fail.
\<close>

datatype arch_step = More node_parts string | Leave node_parts "format_element option" | Fail go_error

definition with_entry :: "node_parts \<Rightarrow> arch_step \<Rightarrow> arch_step" where
  "with_entry np r = (if np_entry np = None then Fail (InvalidFormat []) else r)"

fun arch_element :: "format_element \<Rightarrow> node_parts \<Rightarrow> string \<Rightarrow> arch_step" where
  "arch_element (FormatEntry h ff mode fl uid gid mt) np dir =
     (if np_entry np \<noteq> None then Fail (InvalidFormat [])
      else More (np\<lparr>np_entry := Some (FormatEntry h ff mode fl uid gid mt)\<rparr>) dir)"
| "arch_element (FormatPayload h s) np dir = with_entry np (Leave (np\<lparr>np_payload := Some (h, s)\<rparr>) None)"
| "arch_element (FormatXAttr h nv) np dir =
     (if CHR 0x00 \<notin> set nv then Fail (InvalidFormat [])
      else let k = takeWhile (\<lambda>c. c \<noteq> CHR 0x00) nv; v = drop (length k + 1) nv
           in with_entry np (More (np\<lparr>np_xattrs := AList.update k v (np_xattrs np)\<rparr>) dir))"
| "arch_element (FormatSymlink h t) np dir = with_entry np (More (np\<lparr>np_symlink := Some t\<rparr>) dir)"
| "arch_element (FormatDevice h mj mi) np dir = with_entry np (More (np\<lparr>np_device := Some (mj, mi)\<rparr>) dir)"
| "arch_element (FormatFilename h nm) np dir =
     (if np_entry np \<noteq> None then Leave np (Some (FormatFilename h nm)) else More (np\<lparr>np_name := nm\<rparr>) dir)"
| "arch_element (FormatGoodbye h items) np dir =
     (if np_entry np \<noteq> None then Leave np (Some (FormatGoodbye h items)) else More np (path_Dir dir))"
| "arch_element (FormatIndexElem i) np dir = Fail (Errorf ''unsupported element %s in archive'')"
| "arch_element (FormatTable h items) np dir = Fail (Errorf ''unsupported element %s in archive'')"
| "arch_element _ np dir = More np dir"

text \<open>The element that was put back, or the next one of the stream.\<close>

definition next_element :: "ArchiveDecoder \<Rightarrow> (format_element option \<times> ArchiveDecoder) res" where
  "next_element a =
     (case ad_last a of
        Some c \<Rightarrow> Ok (Some c, a\<lparr>ad_last := None\<rparr>)
      | None \<Rightarrow> bind_res (FormatDecoder_Next (ad_d a)) (\<lambda>(c, d). Ok (c, a\<lparr>ad_d := d\<rparr>)))"

abbreviation left_in :: "ArchiveDecoder \<Rightarrow> nat" where
  "left_in a \<equiv> length (s_data (d_stream (ad_d a)))"

lemma next_element_less:
  "next_element a = Ok (Some c, a') \<Longrightarrow> left_in a' < left_in a \<or> ad_last a \<noteq> None \<and> ad_last a' = None \<and> left_in a' = left_in a"
  by (auto simp: next_element_def res_simps dest: Next_shorter split: option.splits)

text \<open>The loop of \<open>Next\<close>; no parts at the end of the archive.\<close>

function arch_loop :: "ArchiveDecoder \<Rightarrow> node_parts \<Rightarrow> (node_parts option \<times> ArchiveDecoder) res" where
  "arch_loop a np =
     bind_res (next_element a) (\<lambda>(c, a).
     case c of
       None \<Rightarrow> Ok (None, a)
     | Some c \<Rightarrow>
         (case arch_element c np (ad_dir a) of
            Fail e \<Rightarrow> Err e
          | Leave np l \<Rightarrow> Ok (Some np, a\<lparr>ad_last := l\<rparr>)
          | More np dir \<Rightarrow> arch_loop (a\<lparr>ad_dir := dir\<rparr>) np))"
  by pat_completeness auto
termination
  by (relation "measures [\<lambda>(a, np). left_in a, \<lambda>(a, np). if ad_last a = None then 0 else 1]")
     (auto dest: next_element_less)

declare arch_loop.simps [simp del]

definition make_node :: "node_parts \<Rightarrow> string \<Rightarrow> (archive_node \<times> string) res" where
  "make_node np dir =
     (case np_entry np of
        Some (FormatEntry h ff mode fl uid gid mt) \<Rightarrow>
          (let info = (\<lambda>nm. \<lparr>ni_name = nm, ni_uid = uid, ni_gid = gid, ni_mode = mode, ni_mtime = mt, ni_xattrs = np_xattrs np\<rparr>);
               path = path_Join dir (np_name np)
           in case np_payload np of
                Some (hp, s) \<Rightarrow> Ok (NodeFile (info path) (h_size hp - 16) s, dir)
              | None \<Rightarrow>
                  (case np_device np of
                     Some (mj, mi) \<Rightarrow> Ok (NodeDevice (info path) mj mi, dir)
                   | None \<Rightarrow>
                       (case np_symlink np of
                          Some t \<Rightarrow> Ok (NodeSymlink (info path) t, dir)
                        | None \<Rightarrow> Ok (NodeDirectory (info path), path))))
      | _ \<Rightarrow> Panic ''nil pointer dereference'')"

definition ArchiveDecoder_Next :: "ArchiveDecoder \<Rightarrow> (archive_node option \<times> ArchiveDecoder) res" where
  "ArchiveDecoder_Next a =
     bind_res (arch_loop a no_parts) (\<lambda>(np, a).
     case np of
       None \<Rightarrow> Ok (None, a)
     | Some np \<Rightarrow> bind_res (make_node np (ad_dir a)) (\<lambda>(n, dir). Ok (Some n, a\<lparr>ad_dir := dir\<rparr>)))"

section \<open>Extracting\<close>

text \<open>
  The operations of a file system. \<open>CreateFile\<close> reads the contents from the decoder's stream; the
  number is how many bytes of them it took.
\<close>

record 'f FilesystemWriter =
  CreateDir :: "'f \<Rightarrow> archive_node \<Rightarrow> unit res \<times> 'f"
  CreateFile :: "'f \<Rightarrow> archive_node \<Rightarrow> unit res \<times> nat \<times> 'f"
  CreateSymlink :: "'f \<Rightarrow> archive_node \<Rightarrow> unit res \<times> 'f"
  CreateDevice :: "'f \<Rightarrow> archive_node \<Rightarrow> unit res \<times> 'f"

definition create_node :: "'f FilesystemWriter \<Rightarrow> 'f \<Rightarrow> archive_node \<Rightarrow> unit res \<times> nat \<times> 'f" where
  "create_node w f n =
     (case n of
        NodeDirectory _ \<Rightarrow> (case CreateDir w f n of (r, f) \<Rightarrow> (r, 0, f))
      | NodeFile _ _ _ \<Rightarrow> CreateFile w f n
      | NodeDevice _ _ _ \<Rightarrow> (case CreateDevice w f n of (r, f) \<Rightarrow> (r, 0, f))
      | NodeSymlink _ _ \<Rightarrow> (case CreateSymlink w f n of (r, f) \<Rightarrow> (r, 0, f)))"

text \<open>Every node takes at least one element from the stream.\<close>

lemma arch_loop_cases:
  assumes "arch_loop a np = Ok (Some np', a')"
  obtains (leave) c a1 l where "next_element a = Ok (Some c, a1)" "arch_element c np (ad_dir a1) = Leave np' l" "a' = a1\<lparr>ad_last := l\<rparr>"
    | (more) c a1 np1 dir where "next_element a = Ok (Some c, a1)" "arch_element c np (ad_dir a1) = More np1 dir"
      "arch_loop (a1\<lparr>ad_dir := dir\<rparr>) np1 = Ok (Some np', a')"
proof -
  obtain c a1 where n: "next_element a = Ok (c, a1)" and r: "(case c of None \<Rightarrow> Ok (None, a1)
     | Some c \<Rightarrow> (case arch_element c np (ad_dir a1) of Fail e \<Rightarrow> Err e | Leave np l \<Rightarrow> Ok (Some np, a1\<lparr>ad_last := l\<rparr>)
          | More np dir \<Rightarrow> arch_loop (a1\<lparr>ad_dir := dir\<rparr>) np)) = Ok (Some np', a')"
    using assms by (subst (asm) arch_loop.simps) (auto simp: bind_res_Ok_iff)
  then obtain e where e: "c = Some e" by (cases c) auto
  show thesis
  proof (cases "arch_element e np (ad_dir a1)")
    case (More np1 dir)
    then show thesis using more n r e by simp
  next
    case (Leave np1 l)
    then show thesis using leave n r e by simp
  qed (use r e in simp)
qed

lemma next_element_le: "next_element a = Ok (Some c, a') \<Longrightarrow> left_in a' \<le> left_in a"
  using next_element_less by fastforce

lemma arch_loop_le: "arch_loop a np = Ok (Some np', a') \<Longrightarrow> left_in a' \<le> left_in a"
proof (induction a np rule: arch_loop.induct)
  case (1 a np)
  show ?case
    using "1.prems"
  proof (cases rule: arch_loop_cases)
    case (leave c a1 l)
    then show ?thesis using next_element_le[OF leave(1)] by simp
  next
    case (more c a1 np1 dir)
    then show ?thesis using next_element_le[OF more(1)] "1.IH"[OF more(1) refl refl more(2,3)] by simp
  qed
qed

lemma arch_loop_less_stream:
  assumes "arch_loop a np = Ok (Some np', a')" "ad_last a = None"
  shows "left_in a' < left_in a"
  using assms(1)
proof (cases rule: arch_loop_cases)
  case (leave c a1 l)
  then show ?thesis using next_element_less[OF leave(1)] assms(2) by simp
next
  case (more c a1 np1 dir)
  then show ?thesis using next_element_less[OF more(1)] arch_loop_le[OF more(3)] assms(2) by simp
qed

lemma arch_loop_less:
  assumes "arch_loop a np = Ok (Some np', a')" "np_entry np = None"
  shows "left_in a' < left_in a"
  using assms(1)
proof (cases rule: arch_loop_cases)
  case (leave c a1 l)
  then show ?thesis using assms(2) by (cases c) (auto simp: with_entry_def Let_def split: if_splits)
next
  case (more c a1 np1 dir)
  show ?thesis
  proof (cases "ad_last a = None")
    case True
    then show ?thesis using arch_loop_less_stream[OF assms(1)] by blast
  next
    case False
    then have "ad_last a1 = None" "left_in a1 = left_in a" using more(1) by (auto simp: next_element_def)
    then show ?thesis using arch_loop_less_stream[OF more(3)] by simp
  qed
qed

lemma Next_node_shorter:
  assumes "ArchiveDecoder_Next a = Ok (Some n, a')"
  shows "left_in a' < left_in a"
proof -
  obtain np a1 where np: "arch_loop a no_parts = Ok (Some np, a1)" "left_in a' = left_in a1"
    using assms by (auto simp: ArchiveDecoder_Next_def res_simps split: option.splits)
  then show ?thesis using arch_loop_less[OF np(1)] by (simp add: no_parts_def)
qed

text \<open>The caller of \<open>Next\<close> reads \<open>k\<close> bytes of the contents of a file.\<close>

definition read_contents :: "ArchiveDecoder \<Rightarrow> nat \<Rightarrow> ArchiveDecoder" where
  "read_contents a k = a\<lparr>ad_d := snd (payload_read (ad_d a) k)\<rparr>"

lemma read_contents_le: "left_in (read_contents a k) \<le> left_in a"
  by (auto simp: read_contents_def payload_read_def Let_def split: option.splits)

text \<open>
  \<open>UnTar\<close>, after the decoder has been set up. \<open>ctx\<close> says for every look at the context whether it has
  been cancelled by then.
\<close>

function untar_loop :: "'f FilesystemWriter \<Rightarrow> bool list \<Rightarrow> ArchiveDecoder \<Rightarrow> 'f \<Rightarrow> unit res \<times> 'f" where
  "untar_loop w ctx a f =
     (if ctx \<noteq> [] \<and> hd ctx then (Err Interrupted, f)
      else case ArchiveDecoder_Next a of
        Err e \<Rightarrow> (Err e, f)
      | Panic x \<Rightarrow> (Panic x, f)
      | Ok (None, a) \<Rightarrow> (Ok (), f)
      | Ok (Some n, a) \<Rightarrow>
          (case create_node w f n of
             (Ok _, k, f) \<Rightarrow> untar_loop w (tl ctx) (read_contents a k) f
           | (Err e, k, f) \<Rightarrow> (Err e, f)
           | (Panic x, k, f) \<Rightarrow> (Panic x, f)))"
  by pat_completeness auto
termination
  by (relation "measure (\<lambda>(w, ctx, a, f). left_in a)")
     (auto dest!: Next_node_shorter intro: le_less_trans[OF read_contents_le])

declare untar_loop.simps [simp del]

definition UnTar :: "'f FilesystemWriter \<Rightarrow> bool list \<Rightarrow> stream \<Rightarrow> 'f \<Rightarrow> unit res \<times> 'f" where
  "UnTar w ctx s f = untar_loop w ctx (NewArchiveDecoder s) f"

end
