(* ===== verification/Tar.thy ===== *)
theory Tar
  imports Archive Goodbye
begin

text \<open>
  Writing an archive (\<^verbatim>\<open>src/tar.go\<close>, \<^verbatim>\<open>src/sip.go\<close> and the \<open>File\<close> type of \<^verbatim>\<open>src/filesystem.go\<close>). The file
  system is read through its \<open>Next\<close> operation, which delivers one file after the other in the order of
  a walk through the tree; \<open>tar\<close> calls itself for every entry of a directory. The \<open>SipHash\<close> function is
  that of another package and a parameter.
\<close>

section \<open>Files\<close>

record File =
  f_name :: string
  f_path :: string
  f_mode :: file_mode
  f_size :: u64
  f_linkTarget :: string
  f_modTime :: int
  f_uid :: int
  f_gid :: int
  f_devMajor :: u64
  f_devMinor :: u64
  f_xattrs :: "(string \<times> string) list"
  f_data :: stream

definition IsDir :: "File \<Rightarrow> bool" where
  "IsDir f = isDir (f_mode f)"

definition IsRegular :: "File \<Rightarrow> bool" where
  "IsRegular f = isRegular (f_mode f)"

definition IsSymlink :: "File \<Rightarrow> bool" where
  "IsSymlink f = isSymlink (f_mode f)"

definition IsDevice :: "File \<Rightarrow> bool" where
  "IsDevice f = isDevice (f_mode f)"

type_synonym 'r next_fn = "'r \<Rightarrow> File res \<times> 'r"

text \<open>The state of a run: the output, the source with the file put back, and the looks at the context to come.\<close>

record ('w, 'r) tar_state =
  ts_w :: 'w
  ts_fs :: 'r
  ts_buf :: "File option"
  ts_ctx :: "bool list"

definition fsBufReader_Next :: "'r next_fn \<Rightarrow> ('w, 'r) tar_state \<Rightarrow> File res \<times> ('w, 'r) tar_state" where
  "fsBufReader_Next nxt st =
     (case ts_buf st of
        Some f \<Rightarrow> (Ok f, st\<lparr>ts_buf := None\<rparr>)
      | None \<Rightarrow> (case nxt (ts_fs st) of (r, fs) \<Rightarrow> (r, st\<lparr>ts_fs := fs\<rparr>)))"

definition fsBufReader_Buffer :: "('w, 'r) tar_state \<Rightarrow> File \<Rightarrow> ('w, 'r) tar_state res" where
  "fsBufReader_Buffer st f =
     (if ts_buf st \<noteq> None then Panic ''can only unbuffer one file'' else Ok (st\<lparr>ts_buf := Some f\<rparr>))"

section \<open>Elements\<close>

definition TarFeatureFlags :: u64 where
  "TarFeatureFlags = CaFormatWith32BitUIDs OR CaFormatWithNSecTime OR CaFormatWithPermissions OR CaFormatWithSymlinks OR
     CaFormatWithDeviceNodes OR CaFormatWithFIFOs OR CaFormatWithSockets OR CaFormatWithXattrs OR CaFormatSHA512256 OR
     CaFormatExcludeNoDump OR CaFormatExcludeFile"

definition entry_element :: "File \<Rightarrow> format_element" where
  "entry_element f = FormatEntry \<lparr>h_size = 64, h_type = CaFormatEntry\<rparr> TarFeatureFlags (f_mode f) 0 (f_uid f) (f_gid f) (f_modTime f)"

text \<open>\<open>sort.Strings\<close> compares bytes.\<close>

fun string_less :: "string \<Rightarrow> string \<Rightarrow> bool" where
  "string_less _ [] \<longleftrightarrow> False"
| "string_less [] (b # bs) \<longleftrightarrow> True"
| "string_less (a # as) (b # bs) \<longleftrightarrow> (of_char a :: nat) < of_char b \<or> a = b \<and> string_less as bs"

definition xattr_element :: "string \<times> string \<Rightarrow> format_element" where
  "xattr_element kv = FormatXAttr \<lparr>h_size = ulen (fst kv) + 1 + ulen (snd kv) + 1 + 16, h_type = CaFormatXAttr\<rparr>
     (fst kv @ [CHR 0x00] @ snd kv)"

definition sorted_xattrs :: "(string \<times> string) list \<Rightarrow> (string \<times> string) list" where
  "sorted_xattrs xs = map (\<lambda>k. (k, the (map_of xs k))) (sort_slice string_less (map fst xs))"

definition filename_element :: "string \<Rightarrow> format_element" where
  "filename_element nm = FormatFilename \<lparr>h_size = word_of_nat (16 + length nm + 1), h_type = CaFormatFilename\<rparr> nm"

definition SipHash :: "(u64 \<Rightarrow> u64 \<Rightarrow> bytes \<Rightarrow> u64) \<Rightarrow> bytes \<Rightarrow> u64" where
  "SipHash hash b = hash CaFormatGoodbyeHashKey0 CaFormatGoodbyeHashKey1 b"

definition goodbye_item :: "(u64 \<Rightarrow> u64 \<Rightarrow> bytes \<Rightarrow> u64) \<Rightarrow> string \<Rightarrow> nat \<Rightarrow> nat \<Rightarrow> FormatGoodbyeItem" where
  "goodbye_item hash nm start n =
     \<lparr>gi_offset = word_of_nat start, gi_size = word_of_nat (n - start), gi_hash = SipHash hash (bytes_of_string nm)\<rparr>"

text \<open>The goodbye element of a directory of which \<open>n\<close> bytes have been written.\<close>

definition goodbye_element :: "FormatGoodbyeItem list \<Rightarrow> nat \<Rightarrow> format_element res" where
  "goodbye_element items n =
     bind_res (makeGoodbyeBST (map (\<lambda>i. i\<lparr>gi_offset := word_of_nat n - gi_offset i\<rparr>) items)) (\<lambda>items.
     let items = items @ [\<lparr>gi_offset = word_of_nat n, gi_size = word_of_nat (16 + length items * 24 + 24),
                           gi_hash = CaFormatGoodbyeTailMarker\<rparr>]
     in Ok (FormatGoodbye \<lparr>h_size = word_of_nat (16 + length items * 24), h_type = CaFormatGoodbye\<rparr> items))"

definition payload_element :: "File \<Rightarrow> format_element" where
  "payload_element f = FormatPayload \<lparr>h_size = 16 + f_size f, h_type = CaFormatPayload\<rparr> (f_data f)"

definition symlink_element :: "File \<Rightarrow> format_element" where
  "symlink_element f = FormatSymlink \<lparr>h_size = word_of_nat (16 + length (f_linkTarget f) + 1), h_type = CaFormatSymlink\<rparr> (f_linkTarget f)"

definition device_element :: "File \<Rightarrow> format_element" where
  "device_element f = FormatDevice \<lparr>h_size = 32, h_type = CaFormatDevice\<rparr> (f_devMajor f) (f_devMinor f)"

section \<open>The walk\<close>

text \<open>Encoding an element after \<open>n\<close> bytes.\<close>

definition tar_encode ::
  "'w write_fn \<Rightarrow> nat \<Rightarrow> format_element \<Rightarrow> ('w, 'r) tar_state \<Rightarrow> nat \<times> go_error option \<times> ('w, 'r) tar_state" where
  "tar_encode wr n e st = (case Encode wr (ts_w st) e of (nn, err, w) \<Rightarrow> (n + nn, err, st\<lparr>ts_w := w\<rparr>))"

fun tar_encode_all ::
  "'w write_fn \<Rightarrow> nat \<Rightarrow> format_element list \<Rightarrow> ('w, 'r) tar_state \<Rightarrow> nat \<times> go_error option \<times> ('w, 'r) tar_state" where
  "tar_encode_all wr n [] st = (n, None, st)"
| "tar_encode_all wr n (e # es) st =
     (case tar_encode wr n e st of
        (n, Some err, st) \<Rightarrow> (n, Some err, st)
      | (n, None, st) \<Rightarrow> tar_encode_all wr n es st)"

text \<open>The elements of a file that is not a directory, after the entry and the attributes.\<close>

definition tar_leaf ::
  "'w write_fn \<Rightarrow> nat \<Rightarrow> File \<Rightarrow> ('w, 'r) tar_state \<Rightarrow> nat \<times> go_error option \<times> ('w, 'r) tar_state" where
  "tar_leaf wr n f st =
     (if IsRegular f then tar_encode wr n (payload_element f) st
      else if IsSymlink f then tar_encode wr n (symlink_element f) st
      else if IsDevice f then tar_encode wr n (device_element f) st
      else (n, Some (Errorf ''unable to determine node type of %s''), st))"

text \<open>The end of a directory.\<close>

definition tar_goodbye ::
  "'w write_fn \<Rightarrow> nat \<Rightarrow> FormatGoodbyeItem list \<Rightarrow> ('w, 'r) tar_state \<Rightarrow> (nat \<times> go_error option \<times> ('w, 'r) tar_state) res" where
  "tar_goodbye wr n items st = bind_res (goodbye_element items n) (\<lambda>e. Ok (tar_encode wr n e st))"

definition look_at_context :: "('w, 'r) tar_state \<Rightarrow> bool \<times> ('w, 'r) tar_state" where
  "look_at_context st = (ts_ctx st \<noteq> [] \<and> hd (ts_ctx st), st\<lparr>ts_ctx := tl (ts_ctx st)\<rparr>)"

text \<open>
  \<open>tar\<close> for a file and, below it, its loop over the entries of the directory \<open>dir\<close>, with the bytes
  written for the directory so far. The source need not end, so there is a bound on the depth of
  the calls.
\<close>

fun tar ::
    "'w write_fn \<Rightarrow> 'r next_fn \<Rightarrow> (u64 \<Rightarrow> u64 \<Rightarrow> bytes \<Rightarrow> u64) \<Rightarrow> nat \<Rightarrow> File option \<Rightarrow> ('w, 'r) tar_state \<Rightarrow>
     (nat \<times> go_error option \<times> ('w, 'r) tar_state) res option"
  and tar_entries ::
    "'w write_fn \<Rightarrow> 'r next_fn \<Rightarrow> (u64 \<Rightarrow> u64 \<Rightarrow> bytes \<Rightarrow> u64) \<Rightarrow> nat \<Rightarrow> string \<Rightarrow> nat \<Rightarrow> FormatGoodbyeItem list \<Rightarrow>
     ('w, 'r) tar_state \<Rightarrow> (nat \<times> go_error option \<times> ('w, 'r) tar_state) res option" where
  "tar wr nxt hash 0 f st = None"
| "tar wr nxt hash (Suc fuel) f st =
     (case look_at_context st of (stopped, st) \<Rightarrow>
      if stopped then Some (Ok (0, Some Interrupted, st))
      else case f of
        None \<Rightarrow>
          (case fsBufReader_Next nxt st of
             (Ok f, st) \<Rightarrow> tar wr nxt hash fuel (Some f) st
           | (Err e, st) \<Rightarrow> Some (Ok (0, Some e, st))
           | (Panic x, st) \<Rightarrow> Some (Panic x))
      | Some f \<Rightarrow>
          if \<not> (IsDir f \<or> IsRegular f \<or> IsSymlink f \<or> IsDevice f) then Some (Ok (0, None, st))
          else (case tar_encode_all wr 0 (entry_element f # map xattr_element (sorted_xattrs (f_xattrs f))) st of
             (n, Some e, st) \<Rightarrow> Some (Ok (n, Some e, st))
           | (n, None, st) \<Rightarrow>
               if IsDir f then tar_entries wr nxt hash fuel (f_path f) n [] st
               else Some (Ok (tar_leaf wr n f st))))"
| "tar_entries wr nxt hash 0 dir n items st = None"
| "tar_entries wr nxt hash (Suc fuel) dir n items st =
     (case fsBufReader_Next nxt st of
        (Panic x, st) \<Rightarrow> Some (Panic x)
      | (Err e, st) \<Rightarrow> if e = EOF then Some (tar_goodbye wr n items st) else Some (Ok (n, Some e, st))
      | (Ok f, st) \<Rightarrow>
          if path_Dir (f_path f) \<noteq> dir
          then Some (bind_res (fsBufReader_Buffer st f) (\<lambda>st. tar_goodbye wr n items st))
          else let start = n; nm = path_Base (f_name f) in
            case tar_encode wr n (filename_element nm) st of
              (n, Some e, st) \<Rightarrow> Some (Ok (n, Some e, st))
            | (n, None, st) \<Rightarrow>
                (case tar wr nxt hash fuel (Some f) st of
                   Some (Ok (nn, None, st)) \<Rightarrow>
                     tar_entries wr nxt hash fuel dir (n + nn) (items @ [goodbye_item hash nm start (n + nn)]) st
                 | Some (Ok (nn, Some e, st)) \<Rightarrow> Some (Ok (n + nn, Some e, st))
                 | Some (Err e) \<Rightarrow> Some (Err e)
                 | Some (Panic x) \<Rightarrow> Some (Panic x)
                 | None \<Rightarrow> None))"

definition Tar ::
  "'w write_fn \<Rightarrow> 'r next_fn \<Rightarrow> (u64 \<Rightarrow> u64 \<Rightarrow> bytes \<Rightarrow> u64) \<Rightarrow> nat \<Rightarrow> bool list \<Rightarrow> 'w \<Rightarrow> 'r \<Rightarrow> (go_error option \<times> 'w) res option" where
  "Tar wr nxt hash fuel ctx w fs =
     map_option (\<lambda>r. bind_res r (\<lambda>(n, err, st). Ok (err, ts_w st)))
       (tar wr nxt hash fuel None \<lparr>ts_w = w, ts_fs = fs, ts_buf = None, ts_ctx = ctx\<rparr>)"

end
