(* ===== verification/Archive_Nodes.thy ===== *)
theory Archive_Nodes
  imports Tar
begin

text \<open>
  What the archive decoder does with a list of elements, and that extracting a stream of bytes creates
  the nodes of the elements it encodes.
\<close>

section \<open>Nodes of a list of elements\<close>

text \<open>What the decoder does with a list of elements, instead of the bytes of a stream.\<close>

definition named :: "string \<Rightarrow> node_parts" where
  "named nm = no_parts\<lparr>np_name := nm\<rparr>"

lemma named_Nil [simp]: "named [] = no_parts"
  by (simp add: named_def no_parts_def)

lemma named_simps [simp]: "np_entry (named nm) = None" "np_name (named nm) = nm" "np_payload (named nm) = None"
  "np_symlink (named nm) = None" "np_device (named nm) = None" "np_xattrs (named nm) = []" "(named nm)\<lparr>np_name := x\<rparr> = named x"
  by (simp_all add: named_def no_parts_def)

fun list_loop :: "format_element list \<Rightarrow> node_parts \<Rightarrow> string \<Rightarrow> (node_parts option \<times> format_element list \<times> string) res" where
  "list_loop [] np dir = Ok (None, [], dir)"
| "list_loop (e # es) np dir =
     (case arch_element e np dir of
        Fail x \<Rightarrow> Err x
      | Leave np' l \<Rightarrow> Ok (Some np', (case l of Some c \<Rightarrow> c # es | None \<Rightarrow> es), dir)
      | More np' dir' \<Rightarrow> list_loop es np' dir')"

lemma list_loop_le: "list_loop es np dir = Ok (Some np', es', dir') \<Longrightarrow> length es' \<le> length es"
  by (induction es np dir rule: list_loop.induct) (auto split: arch_step.splits option.splits)

lemma list_loop_less: "list_loop es np dir = Ok (Some np', es', dir') \<Longrightarrow> np_entry np = None \<Longrightarrow> length es' < length es"
proof (cases es)
  case (Cons e es1)
  assume *: "list_loop es np dir = Ok (Some np', es', dir')" "np_entry np = None"
  have "\<not> (\<exists>n l. arch_element e np dir = Leave n l)" using *(2) by (cases e) (auto simp: with_entry_def Let_def)
  then obtain n d where "list_loop es1 n d = Ok (Some np', es', dir')" using * Cons by (auto split: arch_step.splits)
  then show ?thesis using list_loop_le Cons by fastforce
qed simp

function list_nodes :: "format_element list \<Rightarrow> string \<Rightarrow> string \<Rightarrow> archive_node list \<times> unit res" where
  "list_nodes es nm dir =
     (case list_loop es (named nm) dir of
        Err e \<Rightarrow> ([], Err e)
      | Panic x \<Rightarrow> ([], Panic x)
      | Ok (None, es', dir') \<Rightarrow> ([], Ok ())
      | Ok (Some np, es', dir') \<Rightarrow>
          (case make_node np dir' of
             Err e \<Rightarrow> ([], Err e)
           | Panic x \<Rightarrow> ([], Panic x)
           | Ok (n, dir'') \<Rightarrow> (case list_nodes es' [] dir'' of (ns, r) \<Rightarrow> (n # ns, r))))"
  by pat_completeness auto
termination
  by (relation "measure (\<lambda>(es, nm, dir). length es)") (auto dest: list_loop_less)

declare list_nodes.simps [simp del]

text \<open>The decoder will return these elements.\<close>

definition feeds :: "ArchiveDecoder \<Rightarrow> format_element list \<Rightarrow> bool" where
  "feeds a es \<longleftrightarrow>
     (\<exists>es'. es = (case ad_last a of Some c \<Rightarrow> c # es' | None \<Rightarrow> es') \<and> list_all wf_element es' \<and>
        drain (ad_d a) = stream_of (concat (map encode_bytes es')))"

lemma Next_end: "drain d = stream_of [] \<Longrightarrow> FormatDecoder_Next d = Ok (None, \<lparr>d_stream = stream_of [], d_advance = None\<rparr>)"
  by (simp add: FormatDecoder_Next_def ReadHeader_def ReadUint64_def read_full_def stream_of_def)

lemma feeds_Nil: "feeds a [] \<Longrightarrow> \<exists>a'. next_element a = Ok (None, a')"
  using Next_end by (auto simp: feeds_def next_element_def split: option.splits)

lemma feeds_Cons: "feeds a (e # es) \<Longrightarrow> \<exists>a'. next_element a = Ok (Some e, a') \<and> ad_last a' = None \<and> ad_dir a' = ad_dir a \<and> feeds a' es"
proof (cases "ad_last a")
  case None
  assume "feeds a (e # es)"
  then have wf: "wf_element e" "list_all wf_element es" and dr: "drain (ad_d a) = strm (encode_bytes e @ concat (map encode_bytes es)) EOF"
    using None by (auto simp: feeds_def stream_of_def)
  obtain d where "FormatDecoder_Next (ad_d a) = Ok (Some e, d)" "drain d = strm (concat (map encode_bytes es)) EOF"
    using Next_encode_bytes[OF wf(1) dr] by blast
  then show ?thesis using None wf by (auto simp: next_element_def feeds_def stream_of_def)
qed (auto simp: feeds_def next_element_def)

lemma feeds_dir [simp]: "feeds (a\<lparr>ad_dir := d\<rparr>) es = feeds a es"
  by (simp add: feeds_def)

lemma feeds_last: "feeds a es \<Longrightarrow> ad_last a = None \<Longrightarrow> feeds (a\<lparr>ad_last := l\<rparr>) (case l of Some c \<Rightarrow> c # es | None \<Rightarrow> es)"
  by (auto simp: feeds_def split: option.splits)

lemma feeds_read [simp]: "feeds (read_contents a k) es = feeds a es"
  by (simp add: feeds_def read_contents_def drain_payload_read)

lemma dir_read [simp]: "ad_dir (read_contents a k) = ad_dir a"
  by (simp add: read_contents_def)

lemma arch_loop_list:
  "feeds a es \<Longrightarrow> case list_loop es np (ad_dir a) of
     Err x \<Rightarrow> arch_loop a np = Err x
   | Panic x \<Rightarrow> False
   | Ok (r, es', dir') \<Rightarrow> \<exists>a'. arch_loop a np = Ok (r, a') \<and> (r \<noteq> None \<longrightarrow> feeds a' es' \<and> ad_dir a' = dir')"
proof (induction es arbitrary: a np)
  case Nil
  then show ?case using feeds_Nil[OF Nil] by (subst arch_loop.simps) auto
next
  case (Cons e es)
  obtain a' where a': "next_element a = Ok (Some e, a')" "ad_last a' = None" "ad_dir a' = ad_dir a" "feeds a' es"
    using feeds_Cons[OF Cons.prems] by blast
  show ?case
  proof (cases "arch_element e np (ad_dir a)")
    case (More np' dir)
    have eq: "arch_loop a np = arch_loop (a'\<lparr>ad_dir := dir\<rparr>) np'" using a' More by (subst arch_loop.simps) simp
    show ?thesis using Cons.IH[of "a'\<lparr>ad_dir := dir\<rparr>" np'] a'(4) More unfolding eq by simp
  next
    case (Leave np' l)
    have "arch_loop a np = Ok (Some np', a'\<lparr>ad_last := l\<rparr>)" using a' Leave by (subst arch_loop.simps) simp
    then show ?thesis using feeds_last[OF a'(4,2), of l] a'(3) Leave by simp
  next
    case (Fail x)
    then show ?thesis using a' by (subst arch_loop.simps) simp
  qed
qed

section \<open>Creating nodes\<close>

fun create_nodes :: "'f FilesystemWriter \<Rightarrow> archive_node list \<Rightarrow> unit res \<Rightarrow> 'f \<Rightarrow> unit res \<times> 'f" where
  "create_nodes w [] r f = (r, f)"
| "create_nodes w (n # ns) r f =
     (case create_node w f n of
        (Ok _, k, f) \<Rightarrow> create_nodes w ns r f
      | (Err e, k, f) \<Rightarrow> (Err e, f)
      | (Panic x, k, f) \<Rightarrow> (Panic x, f))"

lemma untar_loop_list:
  "feeds a es \<Longrightarrow> untar_loop w [] a f = create_nodes w (fst (list_nodes es [] (ad_dir a))) (snd (list_nodes es [] (ad_dir a))) f"
proof (induction "length es" arbitrary: es a f rule: less_induct)
  case less
  let ?L = "list_loop es no_parts (ad_dir a)"
  note A = arch_loop_list[OF less.prems, of no_parts]
  have U: "untar_loop w [] a f = (case ArchiveDecoder_Next a of Err e \<Rightarrow> (Err e, f) | Panic x \<Rightarrow> (Panic x, f) | Ok (None, a) \<Rightarrow> (Ok (), f)
      | Ok (Some n, a) \<Rightarrow> (case create_node w f n of
             (Ok _, k, f) \<Rightarrow> untar_loop w [] (read_contents a k) f | (Err e, k, f) \<Rightarrow> (Err e, f) | (Panic x, k, f) \<Rightarrow> (Panic x, f)))"
    by (subst untar_loop.simps) (simp only: list.sel(2) simp_thms if_False)
  consider (err) x where "?L = Err x" | (fin) es' dir' where "?L = Ok (None, es', dir')" | (node) np es' dir' where "?L = Ok (Some np, es', dir')"
    using A by (cases ?L) (auto, metis option.exhaust)
  then show ?case
  proof cases
    case err
    then show ?thesis using A U by (simp add: ArchiveDecoder_Next_def list_nodes.simps[of es "[]"])
  next
    case fin
    then show ?thesis using A U by (auto simp: ArchiveDecoder_Next_def list_nodes.simps[of es "[]"])
  next
    case node
    obtain a' where a': "arch_loop a no_parts = Ok (Some np, a')" "feeds a' es'" "ad_dir a' = dir'" using A node by auto
    show ?thesis
    proof (cases "make_node np dir'")
      case (Ok p)
      obtain n dir'' where p: "p = (n, dir'')" by (cases p)
      have N: "ArchiveDecoder_Next a = Ok (Some n, a'\<lparr>ad_dir := dir''\<rparr>)" using a' Ok p by (simp add: ArchiveDecoder_Next_def)
      obtain ns r where ns: "list_nodes es' [] dir'' = (ns, r)" by (cases "list_nodes es' [] dir''")
      have L: "list_nodes es [] (ad_dir a) = (n # ns, r)" using node Ok p ns by (simp add: list_nodes.simps[of es "[]"])
      have lt: "length es' < length es" using list_loop_less[OF node] by (simp add: no_parts_def)
      have "untar_loop w [] (read_contents (a'\<lparr>ad_dir := dir''\<rparr>) k) g = create_nodes w ns r g" for k g
        using less.hyps[OF lt, of "read_contents (a'\<lparr>ad_dir := dir''\<rparr>) k" g] a'(2) ns by simp
      then show ?thesis using U N L by (auto split: prod.splits res.splits)
    qed (use a' node U in \<open>simp_all add: ArchiveDecoder_Next_def list_nodes.simps[of es "[]"]\<close>)
  qed
qed

end
