(* ===== verification/Tar_Trees.thy ===== *)
theory Tar_Trees
  imports Archive_Nodes
begin

text \<open>
  Trees of files, the elements and the nodes that stand for them, and that decoding the elements of a
  tree gives its nodes.
\<close>

section \<open>Trees\<close>

datatype ftree = FNode (node_file: File) (node_children: "ftree list")

fun files_of :: "ftree \<Rightarrow> File list" where
  "files_of (FNode f cs) = f # concat (map files_of cs)"

definition supported :: "File \<Rightarrow> bool" where
  "supported f \<longleftrightarrow> IsDir f \<or> IsRegular f \<or> IsSymlink f \<or> IsDevice f"

abbreviation base_name :: "ftree \<Rightarrow> string" where
  "base_name t \<equiv> path_Base (f_name (node_file t))"

text \<open>The nodes that are to be created for a tree: those of the supported files, in the order of the walk.\<close>

definition node_of :: "string list \<Rightarrow> File \<Rightarrow> archive_node" where
  "node_of ps f =
     (let info = \<lparr>ni_name = rel_path ps, ni_uid = f_uid f, ni_gid = f_gid f, ni_mode = f_mode f, ni_mtime = f_modTime f,
            ni_xattrs = sorted_xattrs (f_xattrs f)\<rparr>
      in if IsDir f then NodeDirectory info
         else if IsRegular f then NodeFile info (f_size f) (f_data f)
         else if IsSymlink f then NodeSymlink info (f_linkTarget f)
         else NodeDevice info (f_devMajor f) (f_devMinor f))"

fun tree_nodes :: "string list \<Rightarrow> ftree \<Rightarrow> archive_node list" where
  "tree_nodes ps (FNode f cs) =
     (if supported f then node_of ps f # concat (map (\<lambda>c. tree_nodes (ps @ [base_name c]) c) cs) else [])"

text \<open>The elements that stand for a tree in an archive, after the name of its root.\<close>

definition leaf_element :: "File \<Rightarrow> format_element" where
  "leaf_element f = (if IsRegular f then payload_element f else if IsSymlink f then symlink_element f else device_element f)"

definition head_elements :: "File \<Rightarrow> format_element list" where
  "head_elements f = entry_element f # map xattr_element (sorted_xattrs (f_xattrs f))"

definition bytes_in :: "format_element list \<Rightarrow> nat" where
  "bytes_in es = length (concat (map encode_bytes es))"

definition the_goodbye :: "FormatGoodbyeItem list \<Rightarrow> nat \<Rightarrow> format_element" where
  "the_goodbye items n = (case goodbye_element items n of Ok e \<Rightarrow> e | _ \<Rightarrow> FormatGoodbye \<lparr>h_size = 0, h_type = 0\<rparr> [])"

fun node_elements :: "(u64 \<Rightarrow> u64 \<Rightarrow> bytes \<Rightarrow> u64) \<Rightarrow> ftree \<Rightarrow> format_element list"
  and entries_elements :: "(u64 \<Rightarrow> u64 \<Rightarrow> bytes \<Rightarrow> u64) \<Rightarrow> nat \<Rightarrow> FormatGoodbyeItem list \<Rightarrow> ftree list \<Rightarrow> format_element list" where
  "node_elements hash (FNode f cs) =
     (if \<not> supported f then []
      else head_elements f @ (if IsDir f then entries_elements hash (bytes_in (head_elements f)) [] cs else [leaf_element f]))"
| "entries_elements hash n items [] = [the_goodbye items n]"
| "entries_elements hash n items (c # cs) =
     (let es = filename_element (base_name c) # node_elements hash c; n' = n + bytes_in es
      in es @ entries_elements hash n' (items @ [goodbye_item hash (base_name c) n n']) cs)"

text \<open>Trees that an archive can hold.\<close>

definition wf_file :: "File \<Rightarrow> bool" where
  "wf_file f \<longleftrightarrow>
     go_mode_ok (f_mode f) \<and> (\<forall>i \<in> {f_uid f, f_gid f, f_modTime f}. - (2 ^ 63) \<le> i \<and> i < 2 ^ 63) \<and>
     distinct (map fst (f_xattrs f)) \<and>
     (\<forall>(k, v) \<in> set (f_xattrs f). CHR 0x00 \<notin> set k \<and> length k + length v + 2 \<le> max_alloc) \<and>
     (IsRegular f \<longrightarrow> s_end (f_data f) = EOF \<and> f_size f = ulen (s_data (f_data f)) \<and> length (s_data (f_data f)) < 2 ^ 63) \<and>
     (IsSymlink f \<longrightarrow> length (f_linkTarget f) + 1 \<le> max_alloc)"

fun wf_tree :: "ftree \<Rightarrow> bool" where
  "wf_tree (FNode f cs) \<longleftrightarrow>
     wf_file f \<and> (cs \<noteq> [] \<longrightarrow> IsDir f) \<and> 24 * (length cs + 1) \<le> max_alloc \<and>
     (\<forall>c \<in> set cs. wf_tree c \<and> plain_part (base_name c) \<and> length (base_name c) + 1 \<le> max_alloc \<and> path_Dir (f_path (node_file c)) = f_path f)"

fun dir_paths :: "ftree \<Rightarrow> string list" where
  "dir_paths (FNode f cs) = (if IsDir f then [f_path f] else []) @ concat (map dir_paths cs)"

section \<open>Decoding the elements of a tree\<close>

lemma list_nodes_name: "list_nodes (filename_element x # es) nm dir = list_nodes es x dir"
  by (subst (1 2) list_nodes.simps) (simp add: filename_element_def)

lemma list_nodes_goodbye: "list_nodes (FormatGoodbye h is # es) nm dir = list_nodes es nm (path_Dir dir)"
  by (subst (1 2) list_nodes.simps) simp

lemma list_nodes_Nil: "list_nodes [] nm dir = ([], Ok ())"
  by (subst list_nodes.simps) simp

lemma goodbye_element_Ok: "\<exists>h is. goodbye_element items n = Ok (FormatGoodbye h is) \<and> length is = Suc (length items) \<and>
   h = \<lparr>h_size = word_of_nat (16 + length is * 24), h_type = CaFormatGoodbye\<rparr> \<and> gi_hash (last is) = CaFormatGoodbyeTailMarker"
proof -
  obtain out where "makeGoodbyeBST (map (\<lambda>i. i\<lparr>gi_offset := word_of_nat n - gi_offset i\<rparr>) items) = Ok out" "length out = length items"
    using makeGoodbyeBST_inorder[of "map (\<lambda>i. i\<lparr>gi_offset := word_of_nat n - gi_offset i\<rparr>) items"] by auto
  then show ?thesis by (simp add: goodbye_element_def Let_def)
qed

lemma list_nodes_the_goodbye: "list_nodes (the_goodbye items n # es) nm dir = list_nodes es nm (path_Dir dir)"
  using goodbye_element_Ok[of items n] list_nodes_goodbye by (auto simp: the_goodbye_def)

lemma xattr_parts:
  "CHR 0x00 \<notin> set k \<Longrightarrow> takeWhile (\<lambda>c. c \<noteq> CHR 0x00) (k @ CHR 0x00 # v) = k"
  by (induction k) auto

lemma update_new: "k \<notin> fst ` set xs \<Longrightarrow> AList.update k v xs = xs @ [(k, v)]"
  by (induction xs) auto

lemma list_loop_xattrs:
  assumes "\<forall>(k, v) \<in> set xs. CHR 0x00 \<notin> set k" "distinct (map fst xs)" "np_entry np \<noteq> None" "fst ` set (np_xattrs np) \<inter> fst ` set xs = {}"
  shows "list_loop (map xattr_element xs @ es) np dir = list_loop es (np\<lparr>np_xattrs := np_xattrs np @ xs\<rparr>) dir"
  using assms
proof (induction xs arbitrary: np)
  case (Cons x xs)
  obtain k v where x: "x = (k, v)" by (cases x)
  have "arch_element (xattr_element x) np dir = More (np\<lparr>np_xattrs := np_xattrs np @ [(k, v)]\<rparr>) dir"
    using Cons.prems x xattr_parts[of k v] update_new[of k "np_xattrs np" v] by (auto simp: xattr_element_def with_entry_def Let_def)
  moreover have "list_loop (map xattr_element xs @ es) (np\<lparr>np_xattrs := np_xattrs np @ [(k, v)]\<rparr>) dir =
    list_loop es (np\<lparr>np_xattrs := (np_xattrs np @ [(k, v)]) @ xs\<rparr>) dir"
    using Cons.IH[of "np\<lparr>np_xattrs := np_xattrs np @ [(k, v)]\<rparr>"] Cons.prems x by auto
  ultimately show ?case using x by simp
qed simp

lemma sorted_xattrs_ok:
  assumes "wf_file f"
  shows "\<forall>(k, v) \<in> set (sorted_xattrs (f_xattrs f)). CHR 0x00 \<notin> set k \<and> length k + length v + 2 \<le> max_alloc"
    "distinct (map fst (sorted_xattrs (f_xattrs f)))" "set (sorted_xattrs (f_xattrs f)) = set (f_xattrs f)"
proof -
  have d: "distinct (map fst (f_xattrs f))" using assms by (simp add: wf_file_def)
  show s: "set (sorted_xattrs (f_xattrs f)) = set (f_xattrs f)"
  proof -
    have "(k, the (map_of (f_xattrs f) k)) = (k, v)" if "(k, v) \<in> set (f_xattrs f)" for k v using map_of_is_SomeI[OF d that] by simp
    then show ?thesis by (force simp: sorted_xattrs_def)
  qed
  then show "\<forall>(k, v) \<in> set (sorted_xattrs (f_xattrs f)). CHR 0x00 \<notin> set k \<and> length k + length v + 2 \<le> max_alloc"
    using assms by (simp add: wf_file_def)
  have "map fst (sorted_xattrs (f_xattrs f)) = sort_slice string_less (map fst (f_xattrs f))"
    by (simp add: sorted_xattrs_def comp_def)
  moreover have "distinct (sort_slice string_less (map fst (f_xattrs f)))"
    using d by (metis mset_eq_imp_distinct_iff mset_sort_slice)
  ultimately show "distinct (map fst (sorted_xattrs (f_xattrs f)))" by simp
qed

definition prepend :: "'a list \<Rightarrow> 'a list \<times> 'b \<Rightarrow> 'a list \<times> 'b" where
  "prepend xs r = (xs @ fst r, snd r)"

definition starts_entry :: "format_element list \<Rightarrow> bool" where
  "starts_entry es \<longleftrightarrow> (\<exists>e es'. es = e # es' \<and> (is_FormatFilename e \<or> is_FormatGoodbye e))"

lemma list_loop_head:
  assumes "wf_file f"
  shows "list_loop (head_elements f @ es) (named nm) dir =
    list_loop es ((named nm)\<lparr>np_entry := Some (entry_element f), np_xattrs := sorted_xattrs (f_xattrs f)\<rparr>) dir"
proof -
  note x = sorted_xattrs_ok[OF assms]
  have "\<forall>(k, v) \<in> set (sorted_xattrs (f_xattrs f)). CHR 0x00 \<notin> set k" using x(1) by auto
  from list_loop_xattrs[OF this x(2), of "(named nm)\<lparr>np_entry := Some (entry_element f)\<rparr>" es dir]
  show ?thesis by (simp add: head_elements_def entry_element_def)
qed

lemma list_loop_starts: "starts_entry es \<Longrightarrow> np_entry np \<noteq> None \<Longrightarrow> list_loop es np dir = Ok (Some np, es, dir)"
  by (auto simp: starts_entry_def is_FormatFilename_def is_FormatGoodbye_def)

lemma starts_entries: "starts_entry (entries_elements hash n items cs @ es)"
proof (cases cs)
  case Nil
  then show ?thesis using goodbye_element_Ok[of items n] by (auto simp: starts_entry_def the_goodbye_def)
qed (simp add: starts_entry_def filename_element_def Let_def)

abbreviation leaf_parts :: "string \<Rightarrow> File \<Rightarrow> node_parts" where
  "leaf_parts nm f \<equiv> (named nm)\<lparr>np_entry := Some (entry_element f), np_xattrs := sorted_xattrs (f_xattrs f)\<rparr>"

lemma list_nodes_leaf:
  assumes "wf_file f" "supported f" "\<not> IsDir f" "path_Join D nm = rel_path ps" "starts_entry es"
  shows "list_nodes (head_elements f @ leaf_element f # es) nm D = prepend [node_of ps f] (list_nodes es [] D)"
proof -
  let ?np = "leaf_parts nm f"
  let ?np' = "if IsRegular f then ?np\<lparr>np_payload := Some (\<lparr>h_size = 16 + f_size f, h_type = CaFormatPayload\<rparr>, f_data f)\<rparr>
     else if IsSymlink f then ?np\<lparr>np_symlink := Some (f_linkTarget f)\<rparr> else ?np\<lparr>np_device := Some (f_devMajor f, f_devMinor f)\<rparr>"
  have "list_loop (head_elements f @ leaf_element f # es) (named nm) D = list_loop (leaf_element f # es) ?np D"
    using list_loop_head[OF assms(1)] .
  also have "\<dots> = Ok (Some ?np', es, D)"
    using list_loop_starts[OF assms(5)] by (simp add: leaf_element_def payload_element_def symlink_element_def device_element_def with_entry_def)
  finally have L: "list_loop (head_elements f @ leaf_element f # es) (named nm) D = Ok (Some ?np', es, D)" .
  have "make_node ?np' D = Ok (node_of ps f, D)"
    using assms(3,4) by (auto simp: make_node_def entry_element_def node_of_def Let_def)
  then show ?thesis by (subst list_nodes.simps) (simp only: L res.case prod.case option.case prepend_def split: prod.split, simp)
qed

lemma list_nodes_dir:
  assumes "wf_file f" "IsDir f" "path_Join D nm = rel_path ps" "starts_entry es"
  shows "list_nodes (head_elements f @ es) nm D = prepend [node_of ps f] (list_nodes es [] (rel_path ps))"
proof -
  let ?np = "leaf_parts nm f"
  have L: "list_loop (head_elements f @ es) (named nm) D = Ok (Some ?np, es, D)"
    using list_loop_head[OF assms(1)] list_loop_starts[OF assms(4)] by simp
  have "make_node ?np D = Ok (node_of ps f, rel_path ps)"
    using assms(2,3) by (simp add: make_node_def entry_element_def node_of_def Let_def)
  then show ?thesis by (subst list_nodes.simps) (simp only: L res.case prod.case option.case prepend_def split: prod.split, simp)
qed

lemma prepend_simps [simp]: "prepend [] r = r" "prepend xs (prepend ys r) = prepend (xs @ ys) r" "fst (prepend xs r) = xs @ fst r" "snd (prepend xs r) = snd r"
  by (simp_all add: prepend_def)

lemma list_nodes_tree:
  "wf_tree t \<Longrightarrow> path_Join D nm = rel_path ps \<Longrightarrow> path_Dir (rel_path ps) = D \<or> \<not> IsDir (node_file t) \<Longrightarrow> \<forall>p \<in> set ps. plain_part p \<Longrightarrow>
    starts_entry es \<or> IsDir (node_file t) \<Longrightarrow>
    \<exists>nm'. list_nodes (node_elements hash t @ es) nm D = prepend (tree_nodes ps t) (list_nodes es nm' D)"
  "\<forall>c \<in> set cs. wf_tree c \<and> plain_part (base_name c) \<Longrightarrow> \<forall>p \<in> set ps. plain_part p \<Longrightarrow>
    \<exists>nm'. list_nodes (entries_elements hash n items cs @ es) nm (rel_path ps) =
      prepend (concat (map (\<lambda>c. tree_nodes (ps @ [base_name c]) c) cs)) (list_nodes es nm' (path_Dir (rel_path ps)))"
proof (induction hash t and hash n items cs arbitrary: nm ps D es and nm ps es rule: node_elements_entries_elements.induct)
  case (1 hash f cs)
  have wf: "wf_file f" "cs \<noteq> [] \<longrightarrow> IsDir f" "\<forall>c \<in> set cs. wf_tree c \<and> plain_part (base_name c)" using "1.prems"(1) by auto
  consider (none) "\<not> supported f" | (dir) "supported f" "IsDir f" | (leaf) "supported f" "\<not> IsDir f" by blast
  then show ?case
  proof cases
    case none
    then show ?thesis by (intro exI[of _ nm]) simp
  next
    case dir
    obtain nm' where "list_nodes (entries_elements hash (bytes_in (head_elements f)) [] cs @ es) [] (rel_path ps) =
      prepend (concat (map (\<lambda>c. tree_nodes (ps @ [base_name c]) c) cs)) (list_nodes es nm' (path_Dir (rel_path ps)))"
      using "1.IH" dir wf(3) "1.prems"(4) by blast
    then show ?thesis
      using list_nodes_dir[OF wf(1) dir(2) "1.prems"(2) starts_entries] dir "1.prems"(3) by (intro exI[of _ nm']) simp
  next
    case leaf
    then have "starts_entry es" "cs = []" using "1.prems"(5) wf(2) by auto
    then show ?thesis
      using list_nodes_leaf[OF wf(1) leaf "1.prems"(2)] leaf by (intro exI[of _ "[]"]) simp
  qed
next
  case (2 hash n items)
  then show ?case by (intro exI[of _ nm]) (simp add: list_nodes_the_goodbye)
next
  case (3 hash n items c cs)
  let ?n = "n + bytes_in (filename_element (base_name c) # node_elements hash c)"
  let ?items = "items @ [goodbye_item hash (base_name c) n ?n]"
  let ?es = "entries_elements hash ?n ?items cs @ es"
  have c: "wf_tree c" "plain_part (base_name c)" using "3.prems"(1) by auto
  have ps: "\<forall>p \<in> set (ps @ [base_name c]). plain_part p" using c "3.prems"(2) by auto
  have D: "path_Dir (rel_path (ps @ [base_name c])) = rel_path ps \<or> \<not> IsDir (node_file c)" using Dir_rel_snoc[OF "3.prems"(2) c(2)] by simp
  obtain nm1 where 1: "list_nodes (node_elements hash c @ ?es) (base_name c) (rel_path ps) =
      prepend (tree_nodes (ps @ [base_name c]) c) (list_nodes ?es nm1 (rel_path ps))"
    using "3.IH"(1)[OF c(1) Join_rel[OF "3.prems"(2) c(2)] D ps, of ?es] starts_entries by blast
  obtain nm2 where 2: "list_nodes ?es nm1 (rel_path ps) =
      prepend (concat (map (\<lambda>c. tree_nodes (ps @ [base_name c]) c) cs)) (list_nodes es nm2 (path_Dir (rel_path ps)))"
    using "3.IH"(2)[OF refl refl _ "3.prems"(2), of es nm1] "3.prems"(1) by auto
  show ?case using 1 2 by (intro exI[of _ nm2]) (simp add: Let_def list_nodes_name)
qed

end
