(* ===== verification/Tar_Write.thy ===== *)
theory Tar_Write
  imports Tar_Trees
begin

text \<open>
  What \<open>tar\<close> of \<^verbatim>\<open>src/tar.go\<close> writes for the walk of a tree: exactly the elements of the tree.
\<close>

section \<open>Writing a tree\<close>

text \<open>A source that delivers the files of a list.\<close>

fun list_next :: "File list next_fn" where
  "list_next [] = (Err EOF, [])"
| "list_next (f # fs) = (Ok f, fs)"

definition pending :: "('w, File list) tar_state \<Rightarrow> File list" where
  "pending st = (case ts_buf st of Some f \<Rightarrow> f # ts_fs st | None \<Rightarrow> ts_fs st)"

definition calm :: "(sink, 'r) tar_state \<Rightarrow> bool" where
  "calm st \<longleftrightarrow> ts_ctx st = [] \<and> sk_room (ts_w st) = None"

definition wrote_to :: "(sink, File list) tar_state \<Rightarrow> format_element list \<Rightarrow> File list \<Rightarrow> (sink, File list) tar_state \<Rightarrow> bool" where
  "wrote_to st es fs st' \<longleftrightarrow> calm st' \<and> pending st' = fs \<and> sk_out (ts_w st') = sk_out (ts_w st) @ concat (map encode_bytes es)"

lemma Next_pending:
  "pending st = f # fs \<Longrightarrow> \<exists>st'. fsBufReader_Next list_next st = (Ok f, st') \<and> ts_buf st' = None \<and> ts_fs st' = fs \<and> ts_w st' = ts_w st \<and> ts_ctx st' = ts_ctx st"
  "pending st = [] \<Longrightarrow> \<exists>st'. fsBufReader_Next list_next st = (Err EOF, st') \<and> pending st' = [] \<and> ts_w st' = ts_w st \<and> ts_ctx st' = ts_ctx st"
  by (auto simp: pending_def fsBufReader_Next_def split: option.splits)

lemma Encode_sink:
  assumes "source_ok e" "sk_room w = None"
  shows "\<exists>w'. Encode sink_write w e = (length (encode_bytes e), None, w') \<and> sk_out w' = sk_out w @ encode_bytes e \<and> sk_room w' = None"
  using encode_all_sink[of "[e]" w] assms by (cases "Encode sink_write w e") (auto simp: encode_all_def then_write_def)

lemma tar_encode_sink:
  assumes "source_ok e" "calm st"
  shows "\<exists>st'. tar_encode sink_write n e st = (n + length (encode_bytes e), None, st') \<and> wrote_to st [e] (pending st) st' \<and> ts_buf st' = ts_buf st"
proof -
  obtain w' where "Encode sink_write (ts_w st) e = (length (encode_bytes e), None, w')" "sk_out w' = sk_out (ts_w st) @ encode_bytes e" "sk_room w' = None"
    using Encode_sink[OF assms(1)] assms(2) by (auto simp: calm_def)
  then show ?thesis using assms(2) by (auto simp: tar_encode_def wrote_to_def calm_def pending_def split: option.split)
qed

lemma wrote_to_trans: "wrote_to st es fs st' \<Longrightarrow> wrote_to st' es' fs' st'' \<Longrightarrow> wrote_to st (es @ es') fs' st''"
  by (auto simp: wrote_to_def)

lemma tar_encode_all_sink:
  "list_all source_ok es \<Longrightarrow> calm st \<Longrightarrow> \<exists>st'. tar_encode_all sink_write n es st = (n + bytes_in es, None, st') \<and> wrote_to st es (pending st) st'"
proof (induction es arbitrary: n st)
  case Nil
  then show ?case by (simp add: bytes_in_def wrote_to_def)
next
  case (Cons e es)
  obtain st1 where 1: "tar_encode sink_write n e st = (n + length (encode_bytes e), None, st1)" "wrote_to st [e] (pending st) st1"
    using tar_encode_sink[of e st n] Cons.prems by auto
  then have c1: "calm st1" "pending st1 = pending st" by (auto simp: wrote_to_def)
  obtain st2 where 2: "tar_encode_all sink_write (n + length (encode_bytes e)) es st1 = (n + length (encode_bytes e) + bytes_in es, None, st2)"
    "wrote_to st1 es (pending st1) st2" using Cons.IH[OF _ c1(1), of "n + length (encode_bytes e)"] Cons.prems(1) by auto
  have "wrote_to st (e # es) (pending st) st2" using wrote_to_trans[OF 1(2) 2(2)] c1 by simp
  then show ?case using 1 2 by (intro exI[of _ st2]) (simp add: bytes_in_def)
qed

lemma head_source_ok: "list_all source_ok (head_elements f)"
  by (auto simp: head_elements_def entry_element_def xattr_element_def list_all_iff)

text \<open>The file after a directory does not belong to it.\<close>

definition outside :: "File list \<Rightarrow> string set \<Rightarrow> bool" where
  "outside fs P \<longleftrightarrow> (case fs of [] \<Rightarrow> True | g # _ \<Rightarrow> path_Dir (f_path g) \<notin> P)"

lemma bytes_in_append: "bytes_in (es @ es') = bytes_in es + bytes_in es'"
  by (simp add: bytes_in_def)

lemma goodbye_source_ok: "source_ok (the_goodbye items n)" "goodbye_element items n = Ok (the_goodbye items n)"
  using goodbye_element_Ok[of items n] by (auto simp: the_goodbye_def)

lemma tar_goodbye_sink:
  assumes "calm st"
  shows "\<exists>st'. tar_goodbye sink_write n items st = Ok (n + bytes_in [the_goodbye items n], None, st') \<and> wrote_to st [the_goodbye items n] (pending st) st'"
  using tar_encode_sink[OF goodbye_source_ok(1) assms, of n items n] by (auto simp: tar_goodbye_def goodbye_source_ok(2) bytes_in_def)

lemma look_calm: "calm st \<Longrightarrow> look_at_context st = (False, st)"
  by (cases st) (simp add: look_at_context_def calm_def)

lemma tar_leaf_sink:
  assumes "wf_file f" "supported f" "\<not> IsDir f" "calm st"
  shows "\<exists>st'. tar_leaf sink_write n f st = (n + bytes_in [leaf_element f], None, st') \<and> wrote_to st [leaf_element f] (pending st) st'"
proof -
  have "source_ok (leaf_element f)"
    using assms(1) by (auto simp: leaf_element_def payload_element_def symlink_element_def device_element_def wf_file_def)
  moreover have "tar_leaf sink_write n f st = tar_encode sink_write n (leaf_element f) st"
    using assms(2,3) by (auto simp: tar_leaf_def leaf_element_def supported_def)
  ultimately show ?thesis using tar_encode_sink[of "leaf_element f" st n] assms(4) by (auto simp: bytes_in_def)
qed

lemma dir_paths_children: "c \<in> set cs \<Longrightarrow> set (dir_paths c) \<subseteq> set (dir_paths (FNode f cs))"
  by auto

lemma tar_entries_end:
  assumes "calm st" "pending st = rest" "outside rest P" "d \<in> P" "0 < fuel"
  shows "\<exists>st'. tar_entries sink_write list_next hash fuel d n items st = Some (Ok (n + bytes_in [the_goodbye items n], None, st')) \<and>
    wrote_to st [the_goodbye items n] rest st'"
proof (cases rest)
  case Nil
  obtain st1 where st1: "fsBufReader_Next list_next st = (Err EOF, st1)" "pending st1 = []" "ts_w st1 = ts_w st" "ts_ctx st1 = ts_ctx st"
    using Next_pending(2)[of st] assms(2) Nil by blast
  then have "calm st1" using assms(1) by (simp add: calm_def)
  then obtain st2 where "tar_goodbye sink_write n items st1 = Ok (n + bytes_in [the_goodbye items n], None, st2)" "wrote_to st1 [the_goodbye items n] [] st2"
    using tar_goodbye_sink[of st1 n items] st1(2) by auto
  then show ?thesis using st1 Nil assms(5) by (cases fuel) (auto simp: wrote_to_def)
next
  case (Cons g fs)
  obtain st1 where st1: "fsBufReader_Next list_next st = (Ok g, st1)" "ts_buf st1 = None" "ts_fs st1 = fs" "ts_w st1 = ts_w st" "ts_ctx st1 = ts_ctx st"
    using Next_pending(1)[of st g fs] assms(2) Cons by blast
  let ?st = "st1\<lparr>ts_buf := Some g\<rparr>"
  have b: "fsBufReader_Buffer st1 g = Ok ?st" "calm ?st" "pending ?st = rest" using st1 Cons assms(1) by (simp_all add: fsBufReader_Buffer_def calm_def pending_def)
  obtain st2 where "tar_goodbye sink_write n items ?st = Ok (n + bytes_in [the_goodbye items n], None, st2)" "wrote_to ?st [the_goodbye items n] rest st2"
    using tar_goodbye_sink[OF b(2), of n items] b(3) by auto
  moreover have "path_Dir (f_path g) \<noteq> d" using assms(3,4) Cons by (auto simp: outside_def)
  ultimately show ?thesis using st1 b assms(5) by (cases fuel) (auto simp: wrote_to_def)
qed

lemma tar_tree:
  "wf_tree t \<Longrightarrow> distinct (dir_paths t) \<Longrightarrow> calm st \<Longrightarrow> pending st = concat (map files_of (node_children t)) @ rest \<Longrightarrow>
    outside rest (set (dir_paths t)) \<Longrightarrow> 3 * length (files_of t) \<le> fuel \<Longrightarrow>
    \<exists>st'. tar sink_write list_next hash fuel (Some (node_file t)) st = Some (Ok (bytes_in (node_elements hash t), None, st')) \<and>
      wrote_to st (node_elements hash t) rest st'"
  "\<forall>c \<in> set cs. wf_tree c \<and> path_Dir (f_path (node_file c)) = d \<Longrightarrow> distinct (d # concat (map dir_paths cs)) \<Longrightarrow> calm st \<Longrightarrow>
    pending st = concat (map files_of cs) @ rest \<Longrightarrow> outside rest (insert d (set (concat (map dir_paths cs)))) \<Longrightarrow>
    3 * length (concat (map files_of cs)) + 1 \<le> fuel \<Longrightarrow>
    \<exists>st'. tar_entries sink_write list_next hash fuel d n items st = Some (Ok (n + bytes_in (entries_elements hash n items cs), None, st')) \<and>
      wrote_to st (entries_elements hash n items cs) rest st'"
proof (induction hash t and hash n items cs arbitrary: st rest fuel and d st rest fuel rule: node_elements_entries_elements.induct)
  case (1 hash f cs)
  have wf: "wf_file f" "cs \<noteq> [] \<longrightarrow> IsDir f" "\<forall>c \<in> set cs. wf_tree c \<and> path_Dir (f_path (node_file c)) = f_path f" using "1.prems"(1) by auto
  obtain fuel' where fuel: "fuel = Suc fuel'" "3 * length (concat (map files_of cs)) + 2 \<le> fuel'" using "1.prems"(6) by (cases fuel) auto
  obtain st1 where h: "tar_encode_all sink_write 0 (head_elements f) st = (bytes_in (head_elements f), None, st1)" "wrote_to st (head_elements f) (pending st) st1"
    using tar_encode_all_sink[OF head_source_ok[of f] "1.prems"(3), of 0] by auto
  have c1: "calm st1" "pending st1 = pending st" using h(2) by (auto simp: wrote_to_def)
  have T: "tar sink_write list_next hash fuel (Some f) st = (if \<not> supported f then Some (Ok (0, None, st))
    else if IsDir f then tar_entries sink_write list_next hash fuel' (f_path f) (bytes_in (head_elements f)) [] st1
    else Some (Ok (tar_leaf sink_write (bytes_in (head_elements f)) f st1)))"
    using fuel(1) h(1) look_calm[OF "1.prems"(3)] by (simp add: supported_def head_elements_def)
  consider (none) "\<not> supported f" | (dir) "supported f" "IsDir f" | (leaf) "supported f" "\<not> IsDir f" by blast
  then show ?case
  proof cases
    case none
    then have "cs = []" using wf(2) by (auto simp: supported_def)
    then show ?thesis using T none "1.prems"(3,4) by (simp add: bytes_in_def wrote_to_def)
  next
    case dir
    let ?es = "entries_elements hash (bytes_in (head_elements f)) [] cs"
    have "\<exists>st'. tar_entries sink_write list_next hash fuel' (f_path f) (bytes_in (head_elements f)) [] st1 =
        Some (Ok (bytes_in (head_elements f) + bytes_in ?es, None, st')) \<and> wrote_to st1 ?es rest st'"
      by (rule "1.IH") (use dir wf(3) c1 "1.prems" fuel(2) in auto)
    then obtain st2 where 2: "tar_entries sink_write list_next hash fuel' (f_path f) (bytes_in (head_elements f)) [] st1 =
        Some (Ok (bytes_in (head_elements f) + bytes_in ?es, None, st2))" "wrote_to st1 ?es rest st2" by blast
    show ?thesis using T dir 2(1) wrote_to_trans[OF h(2) 2(2)] by (simp add: bytes_in_append)
  next
    case leaf
    then have "cs = []" using wf(2) by auto
    obtain st2 where 2: "tar_leaf sink_write (bytes_in (head_elements f)) f st1 = (bytes_in (head_elements f) + bytes_in [leaf_element f], None, st2)"
      "wrote_to st1 [leaf_element f] (pending st1) st2" using tar_leaf_sink[OF wf(1) leaf c1(1)] by blast
    show ?thesis using T leaf 2(1) wrote_to_trans[OF h(2) 2(2)] c1 "1.prems"(4) \<open>cs = []\<close> by (simp add: bytes_in_append)
  qed
next
  case (2 hash n items)
  then show ?case using tar_entries_end[of st rest "{d}" d fuel hash n items] by auto
next
  case (3 hash n items c cs)
  let ?nm = "base_name c" and ?f = "node_file c"
  let ?es = "filename_element ?nm # node_elements hash c"
  let ?n = "n + bytes_in ?es"
  let ?items = "items @ [goodbye_item hash ?nm n ?n]"
  have c: "wf_tree c" "path_Dir (f_path ?f) = d" using "3.prems"(1) by auto
  have files: "files_of c = ?f # concat (map files_of (node_children c))" by (cases c) simp
  obtain fuel' where fuel: "fuel = Suc fuel'" "3 * length (files_of c) \<le> fuel'" "3 * length (concat (map files_of cs)) + 1 \<le> fuel'"
    using "3.prems"(6) files by (cases fuel) auto
  obtain st1 where st1: "fsBufReader_Next list_next st = (Ok ?f, st1)" "ts_buf st1 = None"
    "ts_fs st1 = concat (map files_of (node_children c)) @ concat (map files_of cs) @ rest" "ts_w st1 = ts_w st" "ts_ctx st1 = ts_ctx st"
    using Next_pending(1)[of st ?f] "3.prems"(4) files by auto
  have c1: "calm st1" using "3.prems"(3) st1 by (simp add: calm_def)
  obtain st2 where st2: "tar_encode sink_write n (filename_element ?nm) st1 = (n + length (encode_bytes (filename_element ?nm)), None, st2)"
    "wrote_to st1 [filename_element ?nm] (pending st1) st2" using tar_encode_sink[OF _ c1, of "filename_element ?nm" n] by (auto simp: filename_element_def)
  have c2: "calm st2" "pending st2 = concat (map files_of (node_children c)) @ concat (map files_of cs) @ rest"
    using st2(2) st1 by (auto simp: wrote_to_def pending_def)
  have "\<exists>st'. tar sink_write list_next hash fuel' (Some ?f) st2 = Some (Ok (bytes_in (node_elements hash c), None, st')) \<and>
      wrote_to st2 (node_elements hash c) (concat (map files_of cs) @ rest) st'"
  proof (rule "3.IH"(1)[OF c(1) _ c2 _ fuel(2)])
    show "distinct (dir_paths c)" using "3.prems"(2) by simp
    show "outside (concat (map files_of cs) @ rest) (set (dir_paths c))"
    proof (cases cs)
      case Nil
      then show ?thesis using "3.prems"(5) by (auto simp: outside_def split: list.splits)
    next
      case (Cons c' cs')
      then have "path_Dir (f_path (node_file c')) = d" using "3.prems"(1) by simp
      moreover have "\<exists>r. concat (map files_of cs) @ rest = node_file c' # r" using Cons by (cases c') simp
      ultimately show ?thesis using "3.prems"(2) by (auto simp: outside_def)
    qed
  qed
  then obtain st3 where st3: "tar sink_write list_next hash fuel' (Some ?f) st2 = Some (Ok (bytes_in (node_elements hash c), None, st3))"
    "wrote_to st2 (node_elements hash c) (concat (map files_of cs) @ rest) st3" by blast
  have c3: "calm st3" "pending st3 = concat (map files_of cs) @ rest" using st3(2) by (auto simp: wrote_to_def)
  have n: "n + length (encode_bytes (filename_element ?nm)) + bytes_in (node_elements hash c) = ?n" by (simp add: bytes_in_def)
  have "\<exists>st'. tar_entries sink_write list_next hash fuel' d ?n ?items st3 =
      Some (Ok (?n + bytes_in (entries_elements hash ?n ?items cs), None, st')) \<and> wrote_to st3 (entries_elements hash ?n ?items cs) rest st'"
    by (rule "3.IH"(2)[OF refl refl _ _ c3 _ fuel(3)]) (use "3.prems" in \<open>auto simp: outside_def split: list.splits\<close>)
  then obtain st4 where st4: "tar_entries sink_write list_next hash fuel' d ?n ?items st3 =
      Some (Ok (?n + bytes_in (entries_elements hash ?n ?items cs), None, st4))" "wrote_to st3 (entries_elements hash ?n ?items cs) rest st4" by blast
  have R: "tar_entries sink_write list_next hash fuel d n items st = tar_entries sink_write list_next hash fuel' d ?n ?items st3"
    using fuel(1) st1(1) st2(1) st3(1) c(2) unfolding n[symmetric] by (simp add: Let_def)
  have W: "wrote_to st (?es @ entries_elements hash ?n ?items cs) rest st4"
    using wrote_to_trans[OF wrote_to_trans[OF st2(2) st3(2)] st4(2)] st1(4) by (simp add: wrote_to_def)
  have E: "entries_elements hash n items (c # cs) = ?es @ entries_elements hash ?n ?items cs" by (simp add: Let_def)
  show ?case unfolding E bytes_in_append add.assoc[symmetric] R st4(1) by (intro exI[of _ st4] conjI refl W)
qed

end
