(* ===== verification/Tar_Props.thy ===== *)
theory Tar_Props
  imports Tar_Write
begin

text \<open>
  Archives from end to end: writing and extracting, truncated archives, and names that climb out of the
  target directory.
\<close>

section \<open>Well-formed elements\<close>

lemma entry_wf: "wf_file f \<Longrightarrow> wf_element (entry_element f)"
  by (simp add: entry_element_def wf_file_def)

lemma xattr_wf: "length k + length v + 2 \<le> max_alloc \<Longrightarrow> wf_element (xattr_element (k, v))"
  by (simp add: xattr_element_def body_size_def)

lemma head_wf:
  assumes "wf_file f"
  shows "list_all wf_element (head_elements f)"
  using sorted_xattrs_ok(1)[OF assms] entry_wf[OF assms] by (auto simp: head_elements_def list_all_iff intro!: xattr_wf)

lemma leaf_wf:
  assumes "wf_file f" "supported f" "\<not> IsDir f"
  shows "wf_element (leaf_element f)"
  using assms
  by (auto simp: leaf_element_def payload_element_def symlink_element_def device_element_def wf_file_def body_size_def)

lemma goodbye_wf: "24 * (length items + 1) \<le> max_alloc \<Longrightarrow> wf_element (the_goodbye items n)"
  using goodbye_element_Ok[of items n] by (auto simp: the_goodbye_def body_size_def mult.commute)

lemma filename_wf: "length nm + 1 \<le> max_alloc \<Longrightarrow> wf_element (filename_element nm)"
  by (simp add: filename_element_def body_size_def)

lemma tree_wf:
  "wf_tree t \<Longrightarrow> list_all wf_element (node_elements hash t)"
  "\<forall>c \<in> set cs. wf_tree c \<and> length (base_name c) + 1 \<le> max_alloc \<Longrightarrow> 24 * (length items + length cs + 1) \<le> max_alloc \<Longrightarrow>
    list_all wf_element (entries_elements hash n items cs)"
proof (induction hash t and hash n items cs rule: node_elements_entries_elements.induct)
  case (1 hash f cs)
  then show ?case using head_wf[of f] leaf_wf[of f] by auto
next
  case (2 hash n items)
  then show ?case using goodbye_wf by simp
next
  case (3 hash n items c cs)
  then show ?case using filename_wf[of "base_name c"] by (auto simp: Let_def)
qed

lemma Tar_elements:
  assumes "wf_tree t" "distinct (dir_paths t)" "3 * length (files_of t) < fuel"
  shows "\<exists>w. Tar sink_write list_next hash fuel [] empty_sink (files_of t) = Some (Ok (None, w)) \<and> sk_out w = concat (map encode_bytes (node_elements hash t))"
proof -
  let ?st = "\<lparr>ts_w = empty_sink, ts_fs = files_of t, ts_buf = None, ts_ctx = []\<rparr>"
  let ?st1 = "?st\<lparr>ts_fs := concat (map files_of (node_children t))\<rparr>"
  obtain fuel' where fuel: "fuel = Suc fuel'" "3 * length (files_of t) \<le> fuel'" using assms(3) by (cases fuel) auto
  have files: "files_of t = node_file t # concat (map files_of (node_children t))" by (cases t) simp
  have c: "calm ?st1" by (simp add: calm_def empty_sink_def)
  obtain st' where st': "tar sink_write list_next hash fuel' (Some (node_file t)) ?st1 = Some (Ok (bytes_in (node_elements hash t), None, st'))"
    "wrote_to ?st1 (node_elements hash t) [] st'"
    using tar_tree(1)[OF assms(1,2) c _ _ fuel(2), of "[]" hash] by (auto simp: pending_def outside_def)
  have out: "sk_out (ts_w st') = concat (map encode_bytes (node_elements hash t))" using st'(2) by (simp add: wrote_to_def empty_sink_def)
  have "tar sink_write list_next hash fuel None ?st = tar sink_write list_next hash fuel' (Some (node_file t)) ?st1"
    using files by (simp add: fuel(1) look_at_context_def fsBufReader_Next_def)
  then show ?thesis using st'(1) out by (simp add: Tar_def)
qed

section \<open>Truncated archives\<close>

lemma list_loop_cut:
  "list_loop es np dir = Ok (r, es', dir') \<Longrightarrow>
   \<exists>j \<le> length es. es' = drop j es \<and> (r = None \<longrightarrow> es' = []) \<and>
     (\<exists>x. list_loop (take k es) np dir = Ok x \<and> (case x of (r', es'', dir'') \<Rightarrow> r' = None \<or> r' = r \<and> es'' = take (k - j) es' \<and> dir'' = dir'))"
proof (induction es arbitrary: np dir k)
  case (Cons e es)
  show ?case
  proof (cases k)
    case 0
    have "\<exists>j \<le> length (e # es). es' = drop j (e # es) \<and> (r = None \<longrightarrow> es' = [])"
    proof (cases "arch_element e np dir")
      case (More np1 dir1)
      then have "list_loop es np1 dir1 = Ok (r, es', dir')" using Cons.prems by simp
      from Cons.IH[OF this, of 0] obtain j where "j \<le> length es" "es' = drop j es" "r = None \<longrightarrow> es' = []" by blast
      then show ?thesis by (intro exI[of _ "Suc j"]) simp
    next
      case (Leave np1 l)
      have "l = None \<or> l = Some e" using Leave by (cases e) (auto simp: with_entry_def Let_def split: if_splits)
      then show ?thesis using Leave Cons.prems by (elim disjE) (auto intro: exI[of _ 0] exI[of _ 1])
    qed (use Cons.prems in simp)
    then show ?thesis using 0 by auto
  next
    case (Suc k')
    show ?thesis
    proof (cases "arch_element e np dir")
      case (More np1 dir1)
      then obtain j x where "j \<le> length es" "es' = drop j es" "r = None \<longrightarrow> es' = []" "list_loop (take k' es) np1 dir1 = Ok x"
        "case x of (r', es'', dir'') \<Rightarrow> r' = None \<or> r' = r \<and> es'' = take (k' - j) es' \<and> dir'' = dir'" using Cons.IH[of np1 dir1 k'] Cons.prems by auto
      then show ?thesis using Suc More by (intro exI[of _ "Suc j"]) auto
    next
      case (Leave np1 l)
      have "l = None \<or> l = Some e" using Leave by (cases e) (auto simp: with_entry_def Let_def split: if_splits)
      then show ?thesis using Leave Cons.prems Suc by (elim disjE) (auto intro: exI[of _ 0] exI[of _ 1])
    qed (use Cons.prems in simp)
  qed
qed simp

lemma list_nodes_cut:
  "list_nodes es nm dir = (ns, Ok ()) \<Longrightarrow> \<exists>m. list_nodes (take k es) nm dir = (take m ns, Ok ())"
proof (induction "length es" arbitrary: es nm dir ns k rule: less_induct)
  case less
  obtain r es' dir' where L: "list_loop es (named nm) dir = Ok (r, es', dir')"
    using less.prems by (subst (asm) list_nodes.simps) (cases "list_loop es (named nm) dir", auto)
  obtain j x where j: "j \<le> length es" "es' = drop j es" "list_loop (take k es) (named nm) dir = Ok x"
    "case x of (r', es'', dir'') \<Rightarrow> r' = None \<or> r' = r \<and> es'' = take (k - j) es' \<and> dir'' = dir'" using list_loop_cut[OF L, of k] by blast
  obtain r' es'' dir'' where x: "x = (r', es'', dir'')" by (cases x)
  show ?case
  proof (cases r')
    case None
    then have "list_nodes (take k es) nm dir = ([], Ok ())" using j(3) x by (subst list_nodes.simps) simp
    then show ?thesis by (intro exI[of _ 0]) simp
  next
    case (Some np)
    then have r: "r = Some np" "es'' = take (k - j) es'" "dir'' = dir'" using j(4) x by auto
    obtain n d ns' where n: "make_node np dir' = Ok (n, d)" "list_nodes es' [] d = (ns', Ok ())" "ns = n # ns'"
      using less.prems L r(1) by (subst (asm) list_nodes.simps) (auto split: res.splits prod.splits)
    have "length es' < length es" using list_loop_less[OF L[unfolded r(1)]] by simp
    then obtain m where "list_nodes es'' [] d = (take m ns', Ok ())" using less.hyps[of es' "[]" d ns' "k - j"] n(2) r(2) by blast
    then have "list_nodes (take k es) nm dir = (take (Suc m) ns, Ok ())" using j(3) x Some r(3) n by (subst list_nodes.simps) simp
    then show ?thesis by blast
  qed
qed

text \<open>A target that keeps a list of the nodes.\<close>

definition recorder :: "archive_node list FilesystemWriter" where
  "recorder = \<lparr>CreateDir = (\<lambda>ns n. (Ok (), ns @ [n])), CreateFile = (\<lambda>ns n. (Ok (), 0, ns @ [n])),
     CreateSymlink = (\<lambda>ns n. (Ok (), ns @ [n])), CreateDevice = (\<lambda>ns n. (Ok (), ns @ [n]))\<rparr>"

lemma create_nodes_recorder: "create_nodes recorder ns r ms = (r, ms @ ns)"
  by (induction ns arbitrary: ms) (auto simp: create_node_def recorder_def split: archive_node.splits)

lemma UnTar_elements:
  assumes "list_all wf_element es"
  shows "UnTar fw [] (stream_of (concat (map encode_bytes es))) fs =
    create_nodes fw (fst (list_nodes es [] ''.'')) (snd (list_nodes es [] ''.'')) fs"
proof -
  have "feeds (NewArchiveDecoder (stream_of (concat (map encode_bytes es)))) es" using assms by (simp add: feeds_def NewArchiveDecoder_def)
  then show ?thesis
    using untar_loop_list[of "NewArchiveDecoder (stream_of (concat (map encode_bytes es)))" es fw fs] by (simp add: UnTar_def NewArchiveDecoder_def)
qed

lemma tree_list_nodes:
  assumes "wf_tree t" "IsDir (node_file t)"
  shows "list_nodes (node_elements hash t) [] ''.'' = (tree_nodes [] t, Ok ())"
proof -
  obtain nm' where "list_nodes (node_elements hash t @ []) [] ''.'' = prepend (tree_nodes [] t) (list_nodes [] nm' ''.'')"
    using list_nodes_tree(1)[OF assms(1), of "''.''" "[]" "[]" "[]" hash] assms(2) Join_rel_empty[of "[]"] Dir_dot by (auto simp: rel_path_def)
  then show ?thesis by (simp add: list_nodes_Nil prepend_def)
qed

section \<open>Properties\<close>

definition sample_file :: "string \<Rightarrow> file_mode \<Rightarrow> bytes \<Rightarrow> File" where
  "sample_file nm m b = \<lparr>f_name = nm, f_path = nm, f_mode = m, f_size = ulen b, f_linkTarget = ''a'', f_modTime = 7, f_uid = 1000, f_gid = 100,
     f_devMajor = 0, f_devMinor = 0, f_xattrs = [(''user.b'', ''2''), (''user.a'', ''1'')], f_data = stream_of b\<rparr>"

definition sample_tree :: ftree where
  "sample_tree = FNode (sample_file ''.'' 0x800001ed []) [FNode (sample_file ''a'' 0x1a4 [1, 2, 3]) [],
     FNode (sample_file ''s'' 0x010001ed []) [], FNode (sample_file ''l'' 0x080001ff []) []]"

lemma sample_tree_ok: "wf_tree sample_tree" "distinct (dir_paths sample_tree)" "IsDir (node_file sample_tree)" "length (files_of sample_tree) = 4"
proof -
  have m: "go_mode_ok 0x800001ed" "go_mode_ok 0x1a4" "go_mode_ok 0x010001ed" "go_mode_ok 0x080001ff" by code_simp+
  have b: "path_Base ''a'' = ''a''" "path_Base ''s'' = ''s''" "path_Base ''l'' = ''l''" "path_Dir ''a'' = ''.''" "path_Dir ''s'' = ''.''" "path_Dir ''l'' = ''.''"
    by code_simp+
  show d: "IsDir (node_file sample_tree)" by code_simp
  have f: "wf_file (sample_file nm m b)" if "go_mode_ok m" "length b < 2 ^ 63" for nm m b
    using that by (simp add: wf_file_def sample_file_def stream_of_def max_alloc_def)
  show "wf_tree sample_tree"
    using d f m b by (simp add: sample_tree_def plain_part_def) (simp add: sample_file_def max_alloc_def)
  show "distinct (dir_paths sample_tree)" "length (files_of sample_tree) = 4" by code_simp+
qed

text \<open>
  (C5) Archives keep the tree: \<open>Tar\<close> over a walk of a tree of files returns without an error, and \<open>UnTar\<close>
  of what it wrote creates exactly the nodes of the tree in the order of the walk, every one with its
  path, owner, mode, modification time, extended attributes (sorted by name) and contents, and stops at
  the first operation of the target file system that fails. Files that an archive cannot hold, such as
  sockets, are left out. This is so however much of the contents of a file the target reads.
\<close>

theorem tar_untar_roundtrip:
  assumes "wf_tree t" "distinct (dir_paths t)" "IsDir (node_file t)" "3 * length (files_of t) < fuel"
  shows "\<exists>w. Tar sink_write list_next hash fuel [] empty_sink (files_of t) = Some (Ok (None, w)) \<and>
    UnTar fw [] (stream_of (sk_out w)) fs = create_nodes fw (tree_nodes [] t) (Ok ()) fs"
  using Tar_elements[OF assms(1,2,4), of hash] UnTar_elements[OF tree_wf(1)[OF assms(1)], of fw hash fs] tree_list_nodes[OF assms(1,3), of hash] by auto

theorem tar_untar_roundtrip_witness:
  "\<exists>w. Tar sink_write list_next (\<lambda>_ _ b. ulen b) 13 [] empty_sink (files_of sample_tree) = Some (Ok (None, w)) \<and>
    UnTar recorder [] (stream_of (sk_out w)) [] = (Ok (), tree_nodes [] sample_tree) \<and> length (tree_nodes [] sample_tree) = 3"
proof -
  have "length (tree_nodes [] sample_tree) = 3" by code_simp
  then show ?thesis
    using tar_untar_roundtrip[OF sample_tree_ok(1-3), of 13 "\<lambda>_ _ b. ulen b" recorder "[]"] sample_tree_ok(4)
    by (simp add: create_nodes_recorder)
qed

text \<open>
  A truncated archive is taken for a complete one: when the archive of a tree ends after any of its
  elements, \<open>UnTar\<close> creates the first nodes of the tree and reports success. It does not notice that the
  goodbye elements, which end the directories, are missing.
\<close>

theorem untar_truncated_archive:
  assumes "wf_tree t" "IsDir (node_file t)" "es = take k (node_elements hash t)"
  shows "\<exists>m. UnTar recorder [] (stream_of (concat (map encode_bytes es))) [] = (Ok (), take m (tree_nodes [] t))"
proof -
  obtain m where m: "list_nodes es [] ''.'' = (take m (tree_nodes [] t), Ok ())"
    using list_nodes_cut[OF tree_list_nodes[OF assms(1,2)], of k] assms(3) by blast
  have "list_all wf_element es" using tree_wf(1)[OF assms(1), of hash] assms(3) by (auto simp: list_all_iff dest: in_set_takeD)
  then show ?thesis using UnTar_elements[of es recorder "[]"] m by (intro exI[of _ m]) (simp add: create_nodes_recorder)
qed

theorem untar_truncated_archive_witness:
  "\<exists>m. UnTar recorder [] (stream_of (concat (map encode_bytes (take 4 (node_elements (\<lambda>_ _ b. ulen b) sample_tree))))) [] =
     (Ok (), take m (tree_nodes [] sample_tree))"
  by (rule untar_truncated_archive[OF sample_tree_ok(1,3) refl])

text \<open>
  The names in an archive are not checked: an archive with a name that climbs out of its directory
  is extracted without an error, and the target file system is asked to create a file outside of the
  directory it was given.
\<close>

definition climbing_elements :: "format_element list" where
  "climbing_elements =
     [entry_element (sample_file ''.'' 0x800001ed []), filename_element ''../x'', entry_element (sample_file ''x'' 0x1a4 [1]),
      payload_element (sample_file ''x'' 0x1a4 [1]), the_goodbye [] 0]"

theorem archive_name_escapes:
  "\<exists>w n d. encode_all sink_write climbing_elements empty_sink = (n, None, w) \<and>
    UnTar recorder [] (stream_of (sk_out w)) [] =
      (Ok (), [NodeDirectory d, NodeFile \<lparr>ni_name = ''../x'', ni_uid = 1000, ni_gid = 100, ni_mode = 0x1a4, ni_mtime = 7, ni_xattrs = []\<rparr> 1 (stream_of [1])])"
proof -
  let ?f = "sample_file ''x'' 0x1a4 [1]"
  have m: "go_mode_ok 0x800001ed" "go_mode_ok 0x1a4" by code_simp+
  have wf: "list_all wf_element climbing_elements"
    using m goodbye_wf[of "[]" 0] filename_wf[of "''../x''"]
    by (simp add: climbing_elements_def entry_element_def payload_element_def sample_file_def stream_of_def max_alloc_def)
  have j: "path_Join ''.'' ''../x'' = ''../x''" "path_Join ''.'' [] = ''.''" by code_simp+
  obtain h g where g: "the_goodbye [] 0 = FormatGoodbye h g" using goodbye_element_Ok[of "[]" 0] by (auto simp: the_goodbye_def)
  have "\<exists>d. list_nodes climbing_elements [] ''.'' = ([NodeDirectory d, NodeFile \<lparr>ni_name = ''../x'', ni_uid = 1000, ni_gid = 100, ni_mode = 0x1a4,
      ni_mtime = 7, ni_xattrs = []\<rparr> 1 (stream_of [1])], Ok ())"
    by (subst list_nodes.simps, simp add: climbing_elements_def entry_element_def filename_element_def payload_element_def make_node_def Let_def j no_parts_def,
        subst list_nodes.simps, simp add: make_node_def Let_def j with_entry_def no_parts_def sample_file_def,
        subst list_nodes.simps, simp add: g no_parts_def)
  moreover have "list_all source_ok climbing_elements" using wf by (auto simp: list_all_iff wf_source_ok)
  then obtain w n where "encode_all sink_write climbing_elements empty_sink = (n, None, w)" "sk_out w = concat (map encode_bytes climbing_elements)"
    using encode_all_sink[of climbing_elements empty_sink] by (auto simp: empty_sink_def)
  ultimately show ?thesis using UnTar_elements[OF wf, of recorder "[]"] by (auto simp: create_nodes_recorder)
qed

end
