(* ===== verification/Dedup.thy ===== *)
theory Dedup
  imports Stores_Props
begin

text \<open>
  The queues that merge concurrent requests for the same chunk (\<^verbatim>\<open>src/dedupqueue.go\<close>,
  \<^verbatim>\<open>src/writededupqueue.go\<close>). Any number of callers run \<open>GetChunk\<close>, \<open>HasChunk\<close> and \<open>StoreChunk\<close> at the same
  time; the state holds the requests that are in flight, the requests themselves, and for every caller
  the point in the code it has reached. A step of a caller is what it does between two operations on
  shared data: taking a lock, calling the store, waiting for or closing the channel of a request.
\<close>

section \<open>Requests\<close>

text \<open>What the interface value \<open>data\<close> of a request holds.\<close>

datatype any = AnyNil | AnyChunk "Chunk option" | AnyBool bool

record request =
  rq_data :: any
  rq_err :: "go_error option"
  rq_done :: bool

definition newRequest :: request where
  "newRequest = \<lparr>rq_data = AnyNil, rq_err = None, rq_done = False\<rparr>"

definition markDone :: "any \<Rightarrow> go_error option \<Rightarrow> request \<Rightarrow> request" where
  "markDone data err r = \<lparr>rq_data = data, rq_err = err, rq_done = True\<rparr>"

datatype qname = GetQ | HasQ | StoreQ

text \<open>
  The calls: \<open>GetChunk\<close> and \<open>HasChunk\<close> of a \<open>DedupQueue\<close>, which are also those that a \<open>WriteDedupQueue\<close>
  makes, and \<open>GetChunk\<close> and \<open>StoreChunk\<close> of a \<open>WriteDedupQueue\<close>.
\<close>

datatype call = DedupGet chunk_id | DedupHas chunk_id | WriteGet chunk_id | WriteStore Chunk

type_synonym outcome = "(any \<times> go_error option) res"

datatype caller_at =
    AtCheck
  | AtLoad
  | AtWait qname nat
  | AtUpstream qname nat
  | AtMark qname nat any "go_error option"
  | AtDelete qname nat any "go_error option"
  | Returned outcome

record 's dedup_state =
  dq_store :: 's
  dq_requests :: "qname \<Rightarrow> chunk_id \<Rightarrow> nat option"
  dq_heap :: "request list"
  dq_callers :: "(call \<times> caller_at) list"

record 's store_fns =
  st_get :: "'s get_fn"
  st_has :: "'s has_fn"
  st_put :: "'s put_fn"

definition call_id :: "codec_fns \<Rightarrow> call \<Rightarrow> chunk_id" where
  "call_id cr c =
     (case c of DedupGet i \<Rightarrow> i | DedupHas i \<Rightarrow> i | WriteGet i \<Rightarrow> i | WriteStore ch \<Rightarrow> fst (Chunk_ID cr ch))"

definition call_queue :: "call \<Rightarrow> qname" where
  "call_queue c = (case c of DedupGet i \<Rightarrow> GetQ | DedupHas i \<Rightarrow> HasQ | WriteGet i \<Rightarrow> GetQ | WriteStore ch \<Rightarrow> StoreQ)"

section \<open>The operations of a queue\<close>

definition loadOrStore ::
  "qname \<Rightarrow> chunk_id \<Rightarrow> 's dedup_state \<Rightarrow> nat \<times> bool \<times> 's dedup_state" where
  "loadOrStore q i st =
     (case dq_requests st q i of
        Some r \<Rightarrow> (r, True, st)
      | None \<Rightarrow>
          let r = length (dq_heap st) in
          (r, False, st\<lparr>dq_requests := (dq_requests st)(q := (dq_requests st q)(i \<mapsto> r)), dq_heap := dq_heap st @ [newRequest]\<rparr>))"

definition delete_request :: "qname \<Rightarrow> chunk_id \<Rightarrow> 's dedup_state \<Rightarrow> 's dedup_state" where
  "delete_request q i st = st\<lparr>dq_requests := (dq_requests st)(q := (dq_requests st q)(i := None))\<rparr>"

text \<open>
  The result of a caller that waited for the request of another: of \<open>GetChunk\<close> by the type of the
  data, of \<open>HasChunk\<close> with a type assertion that panics, of \<open>StoreChunk\<close> only the error.
\<close>

definition waited :: "call \<Rightarrow> request \<Rightarrow> outcome" where
  "waited c r =
     (case c of
        WriteStore _ \<Rightarrow> Ok (AnyNil, rq_err r)
      | DedupHas _ \<Rightarrow> (case rq_data r of AnyBool b \<Rightarrow> Ok (AnyBool b, rq_err r) | _ \<Rightarrow> Panic ''interface conversion'')
      | _ \<Rightarrow>
          (case rq_data r of
             AnyNil \<Rightarrow> Ok (AnyChunk None, rq_err r)
           | AnyChunk ch \<Rightarrow> Ok (AnyChunk ch, rq_err r)
           | AnyBool b \<Rightarrow> Ok (AnyChunk None, Some (Errorf ''internal error: unexpected type %T''))))"

text \<open>The call of the store behind the queue, with the data and the error for \<open>markDone\<close>.\<close>

definition upstream_store :: "'s store_fns \<Rightarrow> Chunk \<Rightarrow> 's \<Rightarrow> (any \<times> go_error option) res \<times> 's" where
  "upstream_store fns ch s =
     (case st_put fns s ch of
        (Ok _, s) \<Rightarrow> (Ok (AnyChunk (Some ch), None), s) | (Err e, s) \<Rightarrow> (Ok (AnyChunk (Some ch), Some e), s) | (Panic x, s) \<Rightarrow> (Panic x, s))"

definition upstream :: "'s store_fns \<Rightarrow> codec_fns \<Rightarrow> call \<Rightarrow> 's \<Rightarrow> (any \<times> go_error option) res \<times> 's" where
  "upstream fns cr c s =
     (case c of
        DedupHas i \<Rightarrow>
          (case st_has fns s i of
             (Ok b, s) \<Rightarrow> (Ok (AnyBool b, None), s) | (Err e, s) \<Rightarrow> (Ok (AnyBool False, Some e), s) | (Panic x, s) \<Rightarrow> (Panic x, s))
      | WriteStore ch \<Rightarrow> upstream_store fns ch s
      | _ \<Rightarrow>
          (case st_get fns s (call_id cr c) of
             (Ok ch, s) \<Rightarrow> (Ok (AnyChunk (Some ch), None), s) | (Err e, s) \<Rightarrow> (Ok (AnyChunk None, Some e), s) | (Panic x, s) \<Rightarrow> (Panic x, s)))"

text \<open>What the caller that made the request returns itself.\<close>

definition own_result :: "call \<Rightarrow> any \<Rightarrow> go_error option \<Rightarrow> outcome" where
  "own_result c data err = (case c of WriteStore _ \<Rightarrow> Ok (AnyNil, err) | _ \<Rightarrow> Ok (data, err))"

section \<open>Steps\<close>

definition set_caller :: "nat \<Rightarrow> caller_at \<Rightarrow> 's dedup_state \<Rightarrow> 's dedup_state" where
  "set_caller i p st = st\<lparr>dq_callers := (dq_callers st)[i := (fst (dq_callers st ! i), p)]\<rparr>"

text \<open>Where \<open>GetChunk\<close> of a \<open>WriteDedupQueue\<close> goes on: it waits when the chunk is being stored.\<close>

definition check_storing :: "chunk_id \<Rightarrow> 's dedup_state \<Rightarrow> caller_at" where
  "check_storing i st = (case dq_requests st StoreQ i of Some r \<Rightarrow> AtWait StoreQ r | None \<Rightarrow> AtLoad)"

text \<open>One step of caller \<open>i\<close>; \<open>None\<close> when it waits or has returned.\<close>

definition caller_step :: "'s store_fns \<Rightarrow> codec_fns \<Rightarrow> nat \<Rightarrow> 's dedup_state \<Rightarrow> 's dedup_state option" where
  "caller_step fns cr i st =
     (let c = fst (dq_callers st ! i); cid = call_id cr c; q = call_queue c in
      case snd (dq_callers st ! i) of
        AtCheck \<Rightarrow> Some (set_caller i (check_storing cid st) st)
      | AtLoad \<Rightarrow>
          (case loadOrStore q cid st of (r, isInFlight, st) \<Rightarrow>
             Some (set_caller i (if isInFlight then AtWait q r else AtUpstream q r) st))
      | AtWait q r \<Rightarrow>
          if rq_done (dq_heap st ! r) then Some (set_caller i (Returned (waited c (dq_heap st ! r))) st) else None
      | AtUpstream q r \<Rightarrow>
          (case upstream fns cr c (dq_store st) of
             (Ok (data, err), s) \<Rightarrow> Some (set_caller i (AtMark q r data err) (st\<lparr>dq_store := s\<rparr>))
           | (Err e, s) \<Rightarrow> None
           | (Panic x, s) \<Rightarrow> Some (set_caller i (Returned (Panic x)) (st\<lparr>dq_store := s\<rparr>)))
      | AtMark q r data err \<Rightarrow>
          if rq_done (dq_heap st ! r) then Some (set_caller i (Returned (Panic ''close of closed channel'')) st)
          else Some (set_caller i (AtDelete q r data err) (st\<lparr>dq_heap := (dq_heap st)[r := markDone data err (dq_heap st ! r)]\<rparr>))
      | AtDelete q r data err \<Rightarrow> Some (set_caller i (Returned (own_result c data err)) (delete_request q cid st))
      | Returned x \<Rightarrow> None)"

text \<open>A new queue, and callers at the start of their calls.\<close>

definition NewWriteDedupQueue :: "'s \<Rightarrow> call list \<Rightarrow> 's dedup_state" where
  "NewWriteDedupQueue s calls =
     \<lparr>dq_store = s, dq_requests = (\<lambda>q i. None), dq_heap = [],
      dq_callers = map (\<lambda>c. (c, case c of WriteGet i \<Rightarrow> AtCheck | _ \<Rightarrow> AtLoad)) calls\<rparr>"

inductive dedup_run :: "'s store_fns \<Rightarrow> codec_fns \<Rightarrow> 's dedup_state \<Rightarrow> 's dedup_state \<Rightarrow> bool" for fns cr where
  start: "dedup_run fns cr st st"
| step: "dedup_run fns cr st st' \<Longrightarrow> i < length (dq_callers st') \<Longrightarrow> caller_step fns cr i st' = Some st'' \<Longrightarrow> dedup_run fns cr st st''"

definition all_returned :: "'s dedup_state \<Rightarrow> bool" where
  "all_returned st \<longleftrightarrow> (\<forall>(c, p) \<in> set (dq_callers st). \<exists>x. p = Returned x)"

end
