(* ===== verification/Dedup_Props.thy ===== *)
theory Dedup_Props
  imports Dedup
begin

text \<open>
  What the deduplicating queues guarantee, whatever the order in which the callers take their steps: at
  most one request per chunk reaches the store, every answer is one the store gave for that chunk, no
  caller panics of its own, and no caller is left waiting.
\<close>

section \<open>The invariant\<close>

abbreviation pos :: "'s dedup_state \<Rightarrow> nat \<Rightarrow> caller_at" where
  "pos st k \<equiv> snd (dq_callers st ! k)"

abbreviation the_call :: "'s dedup_state \<Rightarrow> nat \<Rightarrow> call" where
  "the_call st k \<equiv> fst (dq_callers st ! k)"

text \<open>The request that a caller has made and not yet dropped from the queue.\<close>

fun holds_request :: "caller_at \<Rightarrow> nat option" where
  "holds_request (AtUpstream q r) = Some r"
| "holds_request (AtMark q r d e) = Some r"
| "holds_request (AtDelete q r d e) = Some r"
| "holds_request _ = None"

definition may_wait :: "qname \<Rightarrow> call \<Rightarrow> bool" where
  "may_wait q c \<longleftrightarrow> q = call_queue c \<or> (q = StoreQ \<and> call_queue c = GetQ)"

text \<open>The results of a caller, given what the requests of a queue hold for a chunk.\<close>

definition answers :: "(qname \<Rightarrow> chunk_id \<Rightarrow> any \<Rightarrow> go_error option \<Rightarrow> bool) \<Rightarrow> chunk_id \<Rightarrow> call \<Rightarrow> any \<Rightarrow> go_error option \<Rightarrow> bool" where
  "answers good i c d e \<longleftrightarrow>
     (case call_queue c of StoreQ \<Rightarrow> d = AnyNil \<and> (\<exists>d. good StoreQ i d e) | q \<Rightarrow> good q i d e \<or> (q = GetQ \<and> good StoreQ i d e))"

text \<open>A contract of the store behind the queue: what its answers satisfy, with the type of their data.\<close>

locale dedup_upstream =
  fixes fns :: "'s store_fns" and cr :: codec_fns
    and good :: "qname \<Rightarrow> chunk_id \<Rightarrow> any \<Rightarrow> go_error option \<Rightarrow> bool"
    and calls :: "call list"
  assumes upstream_good:
      "upstream fns cr c s = (Ok (d, e), s') \<Longrightarrow> c \<in> set calls \<Longrightarrow> good (call_queue c) (call_id cr c) d e"
    and good_has: "good HasQ i d e \<Longrightarrow> \<exists>b. d = AnyBool b"
    and good_get: "good GetQ i d e \<Longrightarrow> \<exists>ch. d = AnyChunk ch"
    and good_store: "good StoreQ i d e \<Longrightarrow> \<exists>ch. d = AnyChunk ch"
begin

definition caller_ok :: "'s dedup_state \<Rightarrow> call \<Rightarrow> caller_at \<Rightarrow> bool" where
  "caller_ok st c p \<longleftrightarrow>
     (let q0 = call_queue c; i = call_id cr c in
      case p of
        AtCheck \<Rightarrow> q0 = GetQ
      | AtLoad \<Rightarrow> True
      | AtWait q r \<Rightarrow>
          may_wait q c \<and> r < length (dq_heap st) \<and>
          (if rq_done (dq_heap st ! r) then good q i (rq_data (dq_heap st ! r)) (rq_err (dq_heap st ! r))
           else dq_requests st q i = Some r)
      | AtUpstream q r \<Rightarrow> q = q0 \<and> dq_requests st q i = Some r \<and> \<not> rq_done (dq_heap st ! r)
      | AtMark q r d e \<Rightarrow> q = q0 \<and> dq_requests st q i = Some r \<and> \<not> rq_done (dq_heap st ! r) \<and> good q i d e
      | AtDelete q r d e \<Rightarrow> q = q0 \<and> dq_requests st q i = Some r \<and> rq_done (dq_heap st ! r) \<and> good q i d e
      | Returned (Ok (d, e)) \<Rightarrow> answers good i c d e
      | Returned (Err _) \<Rightarrow> False
      | Returned (Panic x) \<Rightarrow> \<exists>s s'. upstream fns cr c s = (Panic x, s'))"

definition table_ok :: "'s dedup_state \<Rightarrow> bool" where
  "table_ok st \<longleftrightarrow>
     (\<forall>q i r. dq_requests st q i = Some r \<longrightarrow>
        r < length (dq_heap st) \<and>
        (rq_done (dq_heap st ! r) \<longrightarrow> good q i (rq_data (dq_heap st ! r)) (rq_err (dq_heap st ! r))) \<and>
        (\<forall>q' i'. dq_requests st q' i' = Some r \<longrightarrow> q' = q \<and> i' = i))"

definition holders_differ :: "'s dedup_state \<Rightarrow> bool" where
  "holders_differ st \<longleftrightarrow>
     (\<forall>k < length (dq_callers st). \<forall>l < length (dq_callers st). \<forall>r.
        holds_request (pos st k) = Some r \<longrightarrow> holds_request (pos st l) = Some r \<longrightarrow> k = l)"

definition dedup_inv :: "'s dedup_state \<Rightarrow> bool" where
  "dedup_inv st \<longleftrightarrow>
     map fst (dq_callers st) = calls \<and> table_ok st \<and> holders_differ st \<and>
     (\<forall>k < length (dq_callers st). caller_ok st (the_call st k) (pos st k))"

lemma dedup_invD:
  assumes "dedup_inv st" "k < length (dq_callers st)"
  shows "caller_ok st (the_call st k) (pos st k)" "the_call st k \<in> set calls"
proof -
  show "caller_ok st (the_call st k) (pos st k)" using assms by (simp add: dedup_inv_def)
  have "map fst (dq_callers st) = calls" using assms by (simp add: dedup_inv_def)
  then show "the_call st k \<in> set calls" using assms(2) by (metis nth_mem nth_map length_map)
qed

lemma table_okD:
  assumes "dedup_inv st" "dq_requests st q i = Some r"
  shows "r < length (dq_heap st)"
    "rq_done (dq_heap st ! r) \<Longrightarrow> good q i (rq_data (dq_heap st ! r)) (rq_err (dq_heap st ! r))"
    "dq_requests st q' i' = Some r \<Longrightarrow> q' = q \<and> i' = i"
  using assms unfolding dedup_inv_def table_ok_def by blast+

text \<open>A caller that holds a request: the request is the one in the queue for its chunk, and nobody else holds it.\<close>

lemma holderD:
  assumes "dedup_inv st" "k < length (dq_callers st)" "holds_request (pos st k) = Some r"
  shows "dq_requests st (call_queue (the_call st k)) (call_id cr (the_call st k)) = Some r"
    "l < length (dq_callers st) \<Longrightarrow> holds_request (pos st l) = Some r \<Longrightarrow> l = k"
proof -
  show "dq_requests st (call_queue (the_call st k)) (call_id cr (the_call st k)) = Some r"
    using dedup_invD(1)[OF assms(1,2)] assms(3)
    by (cases "pos st k") (auto simp: caller_ok_def Let_def)
  show "l < length (dq_callers st) \<Longrightarrow> holds_request (pos st l) = Some r \<Longrightarrow> l = k"
    using assms unfolding dedup_inv_def holders_differ_def by blast
qed

text \<open>
  A step keeps the invariant when it moves one caller, keeps the table in order and what the others
  rely on, and when the moved caller holds at most what it held or a request nobody holds.
\<close>

lemma dedup_invI:
  assumes iv: "dedup_inv st" and i: "i < length (dq_callers st)"
    and cs: "dq_callers st' = dq_callers st"
    and tab: "table_ok st'"
    and own: "caller_ok st' (the_call st i) p"
    and others: "\<And>k. k < length (dq_callers st) \<Longrightarrow> k \<noteq> i \<Longrightarrow> caller_ok st' (the_call st k) (pos st k)"
    and new: "\<And>k r. k < length (dq_callers st) \<Longrightarrow> k \<noteq> i \<Longrightarrow> holds_request p = Some r \<Longrightarrow> holds_request (pos st k) \<noteq> Some r"
  shows "dedup_inv (set_caller i p st')"
proof -
  let ?st = "set_caller i p st'"
  have heap: "dq_heap ?st = dq_heap st'" "dq_requests ?st = dq_requests st'" by (simp_all add: set_caller_def)
  have at_k: "the_call ?st k = the_call st k" "pos ?st k = (if k = i then p else pos st k)"
    if "k < length (dq_callers st)" for k
    using that i by (auto simp: set_caller_def cs nth_list_update)
  have len: "length (dq_callers ?st) = length (dq_callers st)" by (simp add: set_caller_def cs)
  have ok: "caller_ok ?st c p' = caller_ok st' c p'" for c p'
    unfolding caller_ok_def heap ..
  have "map fst (dq_callers ?st) = map fst (dq_callers st)"
    using at_k(1) len by (auto intro: nth_equalityI)
  moreover have "holders_differ ?st"
    using holderD(2)[OF iv] new at_k len unfolding holders_differ_def
    by (smt (verit, best))
  moreover have "table_ok ?st" using tab by (simp add: table_ok_def heap)
  ultimately show ?thesis
    using iv own others at_k len by (auto simp: dedup_inv_def ok)
qed

text \<open>A change that keeps the requests of the queues and the requests already made.\<close>

lemma caller_ok_mono:
  assumes "caller_ok st c p" "table_ok st"
    and "\<And>q i r. dq_requests st q i = Some r \<Longrightarrow> dq_requests st' q i = Some r"
    and "length (dq_heap st) \<le> length (dq_heap st')"
    and "\<And>r. r < length (dq_heap st) \<Longrightarrow> dq_heap st' ! r = dq_heap st ! r"
  shows "caller_ok st' c p"
proof -
  have lt: "dq_requests st q i = Some r \<Longrightarrow> r < length (dq_heap st)" for q i r
    using assms(2) unfolding table_ok_def by blast
  show ?thesis
    using assms(1,3-5) lt
    by (cases p) (auto simp: caller_ok_def Let_def split: res.splits intro: order_less_le_trans)
qed

lemma same_state:
  assumes "dedup_inv st" "i < length (dq_callers st)" "caller_ok st (the_call st i) p"
    and "\<And>r. holds_request p = Some r \<Longrightarrow> holds_request (pos st i) = Some r"
  shows "dedup_inv (set_caller i p (st\<lparr>dq_store := s\<rparr>))"
proof (rule dedup_invI[OF assms(1,2)])
  have ok: "caller_ok (st\<lparr>dq_store := s\<rparr>) c p' = caller_ok st c p'" for c p'
    by (cases p') (simp_all add: caller_ok_def Let_def)
  show "table_ok (st\<lparr>dq_store := s\<rparr>)" using assms(1) by (simp add: dedup_inv_def table_ok_def)
  show "caller_ok (st\<lparr>dq_store := s\<rparr>) (the_call st i) p" using assms(3) ok by simp
  show "caller_ok (st\<lparr>dq_store := s\<rparr>) (the_call st k) (pos st k)" if "k < length (dq_callers st)" for k
    using dedup_invD(1)[OF assms(1) that] ok by simp
  show "holds_request (pos st k) \<noteq> Some r"
    if "k < length (dq_callers st)" "k \<noteq> i" "holds_request p = Some r" for k r
    using holderD(2)[OF assms(1,2) assms(4)[OF that(3)]] that by blast
qed simp

lemma check_step:
  assumes "dedup_inv st" "i < length (dq_callers st)" "pos st i = AtCheck"
    and "caller_step fns cr i st = Some st'"
  shows "dedup_inv st'"
proof -
  have st': "st' = set_caller i (case dq_requests st StoreQ (call_id cr (the_call st i)) of Some r \<Rightarrow> AtWait StoreQ r | None \<Rightarrow> AtLoad)
      (st\<lparr>dq_store := dq_store st\<rparr>)"
    using assms(3,4) by (auto simp: caller_step_def check_storing_def Let_def split: option.splits)
  have "call_queue (the_call st i) = GetQ"
    using dedup_invD(1)[OF assms(1,2)] assms(3) by (simp add: caller_ok_def Let_def)
  then show ?thesis unfolding st'
    using table_okD[OF assms(1)] by (intro same_state assms) (auto simp: caller_ok_def Let_def may_wait_def split: option.splits)
qed

lemma load_step:
  assumes iv: "dedup_inv st" and i: "i < length (dq_callers st)" and p: "pos st i = AtLoad"
    and st': "caller_step fns cr i st = Some st'"
  shows "dedup_inv st'"
proof (cases "dq_requests st (call_queue (the_call st i)) (call_id cr (the_call st i))")
  case (Some r)
  have eq: "st' = set_caller i (AtWait (call_queue (the_call st i)) r) (st\<lparr>dq_store := dq_store st\<rparr>)"
    using st' p Some by (simp add: caller_step_def check_storing_def loadOrStore_def Let_def)
  moreover have "caller_ok st (the_call st i) (AtWait (call_queue (the_call st i)) r)"
    using table_okD(1,2)[OF iv Some] Some by (simp add: caller_ok_def may_wait_def Let_def)
  ultimately show ?thesis unfolding eq by (intro same_state iv i) simp_all
next
  case None
  let ?q = "call_queue (the_call st i)" and ?i = "call_id cr (the_call st i)" and ?r = "length (dq_heap st)"
  let ?st = "st\<lparr>dq_requests := (dq_requests st)(?q := (dq_requests st ?q)(?i \<mapsto> ?r)), dq_heap := dq_heap st @ [newRequest]\<rparr>"
  have eq: "st' = set_caller i (AtUpstream ?q ?r) ?st"
    using st' p None by (simp add: caller_step_def check_storing_def loadOrStore_def Let_def)
  have tab: "table_ok st" using iv by (simp add: dedup_inv_def)
  have keep: "dq_requests ?st q j = Some r" if "dq_requests st q j = Some r" for q j r
    using that None by auto
  show ?thesis unfolding eq
  proof (rule dedup_invI[OF iv i])
    show "table_ok ?st"
      using tab unfolding table_ok_def
      by (auto simp: nth_append newRequest_def intro: less_SucI split: if_splits dest: less_imp_neq)
    show "caller_ok ?st (the_call st i) (AtUpstream ?q ?r)"
      by (simp add: caller_ok_def Let_def newRequest_def)
    show "caller_ok ?st (the_call st k) (pos st k)" if "k < length (dq_callers st)" for k
      using dedup_invD(1)[OF iv that] tab by (rule caller_ok_mono) (use keep in \<open>auto simp: nth_append\<close>)
    show "holds_request (pos st k) \<noteq> Some r"
      if "k < length (dq_callers st)" "holds_request (AtUpstream ?q ?r) = Some r" for k r
      using holderD(1)[OF iv that(1)] table_okD(1)[OF iv] that(2) by fastforce
  qed simp
qed

lemma answers_waited:
  assumes "may_wait q c" "good q i (rq_data r) (rq_err r)"
  shows "\<exists>d e. waited c r = Ok (d, e) \<and> answers good i c d e"
  using assms good_get[of i] good_has[of i] good_store[of i]
  by (cases c; cases q; cases "rq_data r")
     (fastforce simp: waited_def answers_def may_wait_def call_queue_def)+

lemma wait_step:
  assumes "dedup_inv st" "i < length (dq_callers st)" "pos st i = AtWait q r"
    and "caller_step fns cr i st = Some st'"
  shows "dedup_inv st'"
proof -
  have st': "st' = set_caller i (Returned (waited (the_call st i) (dq_heap st ! r))) (st\<lparr>dq_store := dq_store st\<rparr>)"
    and d: "rq_done (dq_heap st ! r)"
    using assms(3,4) by (auto simp: caller_step_def check_storing_def Let_def split: if_splits)
  have "may_wait q (the_call st i)" "good q (call_id cr (the_call st i)) (rq_data (dq_heap st ! r)) (rq_err (dq_heap st ! r))"
    using dedup_invD(1)[OF assms(1,2)] assms(3) d by (simp_all add: caller_ok_def Let_def)
  from answers_waited[OF this] show ?thesis unfolding st'
    by (intro same_state assms) (auto simp: caller_ok_def Let_def)
qed

lemma upstream_step:
  assumes "dedup_inv st" "i < length (dq_callers st)" "pos st i = AtUpstream q r"
    and "caller_step fns cr i st = Some st'"
  shows "dedup_inv st'"
proof -
  obtain x s where u: "upstream fns cr (the_call st i) (dq_store st) = (x, s)" by fastforce
  have at_i: "q = call_queue (the_call st i)" "dq_requests st q (call_id cr (the_call st i)) = Some r" "\<not> rq_done (dq_heap st ! r)"
    using dedup_invD(1)[OF assms(1,2)] assms(3) by (auto simp: caller_ok_def Let_def)
  show ?thesis
  proof (cases x)
    case (Ok de)
    obtain d e where de: "de = (d, e)" by fastforce
    have "st' = set_caller i (AtMark q r d e) (st\<lparr>dq_store := s\<rparr>)"
      using assms(3,4) u Ok de by (simp add: caller_step_def check_storing_def Let_def)
    moreover have "caller_ok st (the_call st i) (AtMark q r d e)"
      using at_i upstream_good[OF u[unfolded Ok de] dedup_invD(2)[OF assms(1,2)]] by (simp add: caller_ok_def Let_def)
    ultimately show ?thesis using assms(3) by (auto intro!: same_state[OF assms(1,2)])
  next
    case (Panic y)
    have "st' = set_caller i (Returned (Panic y)) (st\<lparr>dq_store := s\<rparr>)"
      using assms(3,4) u Panic by (simp add: caller_step_def check_storing_def Let_def)
    moreover have "caller_ok st (the_call st i) (Returned (Panic y))"
      using u Panic by (auto simp: caller_ok_def Let_def)
    ultimately show ?thesis by (auto intro!: same_state[OF assms(1,2)])
  qed (use assms(3,4) u in \<open>simp add: caller_step_def check_storing_def Let_def\<close>)
qed

lemma mark_step:
  assumes iv: "dedup_inv st" and i: "i < length (dq_callers st)" and p: "pos st i = AtMark q r d e"
    and st': "caller_step fns cr i st = Some st'"
  shows "dedup_inv st'"
proof -
  let ?i = "call_id cr (the_call st i)"
  let ?st = "st\<lparr>dq_heap := (dq_heap st)[r := markDone d e (dq_heap st ! r)]\<rparr>"
  have at_i: "q = call_queue (the_call st i)" "dq_requests st q ?i = Some r" "\<not> rq_done (dq_heap st ! r)" "good q ?i d e"
    using dedup_invD(1)[OF iv i] p by (auto simp: caller_ok_def Let_def)
  note rlt = table_okD(1)[OF iv at_i(2)] and only = table_okD(3)[OF iv at_i(2)]
  have eq: "st' = set_caller i (AtDelete q r d e) ?st"
    using st' p at_i(3) by (simp add: caller_step_def check_storing_def Let_def)
  have here: "dq_heap ?st ! r' = (if r' = r then markDone d e (dq_heap st ! r) else dq_heap st ! r')" for r'
    using rlt by (simp add: nth_list_update)
  have holder: "holds_request (pos st i) = Some r" using p by simp
  show ?thesis unfolding eq
  proof (rule dedup_invI[OF iv i])
    show "table_ok ?st"
      using table_okD[OF iv] at_i(4) only rlt unfolding table_ok_def here
      by (auto simp: markDone_def)
    show "caller_ok ?st (the_call st i) (AtDelete q r d e)"
      using at_i rlt by (simp add: caller_ok_def Let_def markDone_def)
    show "caller_ok ?st (the_call st k) (pos st k)" if k: "k < length (dq_callers st)" "k \<noteq> i" for k
    proof -
      have other: "holds_request (pos st k) \<noteq> Some r" using holderD(2)[OF iv i holder k(1)] k(2) by blast
      show ?thesis
        using dedup_invD(1)[OF iv k(1)] other only at_i(3,4) rlt
        by (cases "pos st k") (auto simp: caller_ok_def Let_def nth_list_update markDone_def split: if_splits)
    qed
    show "holds_request (pos st k) \<noteq> Some r'"
      if "k < length (dq_callers st)" "k \<noteq> i" "holds_request (AtDelete q r d e) = Some r'" for k r'
      using holderD(2)[OF iv i holder that(1)] that by auto
  qed simp
qed

lemma delete_step:
  assumes iv: "dedup_inv st" and i: "i < length (dq_callers st)" and p: "pos st i = AtDelete q r d e"
    and st': "caller_step fns cr i st = Some st'"
  shows "dedup_inv st'"
proof -
  let ?i = "call_id cr (the_call st i)"
  let ?st = "delete_request q ?i st"
  have at_i: "q = call_queue (the_call st i)" "dq_requests st q ?i = Some r" "rq_done (dq_heap st ! r)" "good q ?i d e"
    using dedup_invD(1)[OF iv i] p by (auto simp: caller_ok_def Let_def)
  have eq: "st' = set_caller i (Returned (own_result (the_call st i) d e)) ?st"
    using st' p by (simp add: caller_step_def check_storing_def Let_def)
  have holder: "holds_request (pos st i) = Some r" using p by simp
  show ?thesis unfolding eq
  proof (rule dedup_invI[OF iv i])
    show "table_ok ?st"
      using table_okD[OF iv] unfolding table_ok_def delete_request_def by (auto split: if_splits)
    show "caller_ok ?st (the_call st i) (Returned (own_result (the_call st i) d e))"
      using at_i by (cases "the_call st i") (auto simp: caller_ok_def Let_def own_result_def answers_def call_queue_def)
    show "caller_ok ?st (the_call st k) (pos st k)" if k: "k < length (dq_callers st)" "k \<noteq> i" for k
    proof -
      have other: "holds_request (pos st k) \<noteq> Some r" using holderD(2)[OF iv i holder k(1)] k(2) by blast
      show ?thesis
        using dedup_invD(1)[OF iv k(1)] other at_i(2,3)
        by (cases "pos st k") (auto simp: caller_ok_def Let_def delete_request_def split: if_splits)
    qed
  qed (simp_all add: delete_request_def)
qed

lemma dedup_inv_step:
  assumes "dedup_inv st" "i < length (dq_callers st)" "caller_step fns cr i st = Some st'"
  shows "dedup_inv st'"
proof (cases "pos st i")
  case (Returned x)
  then show ?thesis using assms(3) by (simp add: caller_step_def check_storing_def Let_def)
qed (use assms in \<open>auto intro: check_step load_step wait_step upstream_step mark_step delete_step\<close>)

lemma dedup_inv_start: "dedup_inv (NewWriteDedupQueue s calls)"
  by (auto simp: dedup_inv_def NewWriteDedupQueue_def table_ok_def holders_differ_def caller_ok_def call_queue_def
      comp_def Let_def split: call.splits)

lemma dedup_inv_run: "dedup_run fns cr (NewWriteDedupQueue s calls) st \<Longrightarrow> dedup_inv st"
proof (induction "NewWriteDedupQueue s calls" st rule: dedup_run.induct)
  case start
  then show ?case by (rule dedup_inv_start)
next
  case (step st' i st'')
  show ?case by (rule dedup_inv_step[OF step(2-4)])
qed

lemma one_upstream:
  assumes "dedup_inv st" "k < length (dq_callers st)" "l < length (dq_callers st)"
    and "pos st k = AtUpstream q r" "pos st l = AtUpstream q r'"
    and "call_id cr (the_call st k) = call_id cr (the_call st l)"
  shows "k = l"
proof -
  have "dq_requests st q (call_id cr (the_call st k)) = Some r" "dq_requests st q (call_id cr (the_call st k)) = Some r'"
    using dedup_invD(1)[OF assms(1,2)] dedup_invD(1)[OF assms(1,3)] assms(4-) by (auto simp: caller_ok_def Let_def)
  then show ?thesis using holderD(2)[OF assms(1,3), of r k] assms by simp
qed

end

section \<open>Progress\<close>

fun rank :: "caller_at \<Rightarrow> nat" where
  "rank AtCheck = 5"
| "rank AtLoad = 4"
| "rank (AtUpstream q r) = 3"
| "rank (AtMark q r d e) = 2"
| "rank (AtDelete q r d e) = 1"
| "rank (AtWait q r) = 1"
| "rank (Returned x) = 0"

text \<open>The number of steps the callers can take at most.\<close>

definition steps_left :: "'s dedup_state \<Rightarrow> nat" where
  "steps_left st = sum_list (map (rank \<circ> snd) (dq_callers st))"

lemma steps_left_set_caller:
  assumes "i < length (dq_callers st)" "dq_callers st' = dq_callers st" "rank p < rank (pos st i)"
  shows "steps_left (set_caller i p st') < steps_left st"
proof -
  let ?f = "rank \<circ> snd"
  have "map ?f (dq_callers (set_caller i p st')) = (map ?f (dq_callers st))[i := rank p]"
    by (simp add: set_caller_def assms(2) map_update)
  moreover have "rank (pos st i) \<le> sum_list (map ?f (dq_callers st))"
    using assms(1) by (intro member_le_sum_list) auto
  ultimately show ?thesis using assms(1,3) by (simp add: steps_left_def sum_list_update)
qed

lemma caller_step_decreases:
  assumes "i < length (dq_callers st)" "caller_step fns cr i st = Some st'"
  shows "steps_left st' < steps_left st"
  using assms(2)
  by (auto simp: caller_step_def check_storing_def Let_def loadOrStore_def delete_request_def intro!: steps_left_set_caller[OF assms(1)]
      split: caller_at.splits option.splits if_splits prod.splits res.splits)

lemma upstream_no_err: "upstream fns cr c s \<noteq> (Err e, s')"
  by (auto simp: upstream_def upstream_store_def split: call.splits prod.splits res.splits)

text \<open>As long as no call of the store panics, every request in a queue has a caller at work on it.\<close>

definition attended :: "'s dedup_state \<Rightarrow> bool" where
  "attended st \<longleftrightarrow>
     (\<forall>q i r. dq_requests st q i = Some r \<longrightarrow> (\<exists>k < length (dq_callers st). holds_request (pos st k) = Some r))"

lemma attendedI:
  assumes at: "attended st" and i: "i < length (dq_callers st)" and cs: "dq_callers st' = dq_callers st"
    and own: "\<And>r. holds_request (pos st i) = Some r \<Longrightarrow> holds_request p = Some r \<or> (\<forall>q j. dq_requests st' q j \<noteq> Some r)"
    and new: "\<And>q j r. dq_requests st' q j = Some r \<Longrightarrow> dq_requests st q j = Some r \<or> holds_request p = Some r"
  shows "attended (set_caller i p st')"
  unfolding attended_def
proof (intro allI impI)
  fix q j r
  assume "dq_requests (set_caller i p st') q j = Some r"
  then have r: "dq_requests st' q j = Some r" by (simp add: set_caller_def)
  have len: "length (dq_callers (set_caller i p st')) = length (dq_callers st)" by (simp add: set_caller_def cs)
  have pos: "pos (set_caller i p st') k = (if k = i then p else pos st k)" if "k < length (dq_callers st)" for k
    using that by (simp add: set_caller_def cs nth_list_update)
  show "\<exists>k < length (dq_callers (set_caller i p st')). holds_request (pos (set_caller i p st') k) = Some r"
  proof (cases "holds_request p = Some r")
    case True
    then show ?thesis using i len pos by (intro exI[of _ i]) simp
  next
    case False
    then obtain k where k: "k < length (dq_callers st)" "holds_request (pos st k) = Some r"
      using at new[OF r] unfolding attended_def by blast
    then have "k \<noteq> i" using own r False by blast
    then show ?thesis using k len pos by (intro exI[of _ k]) simp
  qed
qed

context dedup_upstream
begin

lemma attended_step:
  assumes iv: "dedup_inv st" and at: "attended st" and i: "i < length (dq_callers st)"
    and st': "caller_step fns cr i st = Some st'"
    and np: "\<And>c s x s'. upstream fns cr c s \<noteq> (Panic x, s')"
  shows "attended st'"
proof (cases "pos st i")
  case (AtDelete q r d e)
  have r: "dq_requests st q (call_id cr (the_call st i)) = Some r"
    using dedup_invD(1)[OF iv i] AtDelete by (auto simp: caller_ok_def Let_def)
  have eq: "st' = set_caller i (Returned (own_result (the_call st i) d e)) (delete_request q (call_id cr (the_call st i)) st)"
    using st' AtDelete by (simp add: caller_step_def check_storing_def Let_def)
  show ?thesis unfolding eq
  proof (rule attendedI[OF at i])
    fix r'
    assume "holds_request (pos st i) = Some r'"
    then have "r' = r" using AtDelete by simp
    then show "holds_request (Returned (own_result (the_call st i) d e)) = Some r' \<or>
        (\<forall>q' j. dq_requests (delete_request q (call_id cr (the_call st i)) st) q' j \<noteq> Some r')"
      by (auto simp: delete_request_def dest: table_okD(3)[OF iv r])
  qed (auto simp: delete_request_def split: if_splits)
next
  case (AtMark q r d e)
  then have "\<not> rq_done (dq_heap st ! r)"
    using dedup_invD(1)[OF iv i] by (simp add: caller_ok_def Let_def)
  then show ?thesis
    using st' AtMark by (auto simp: caller_step_def check_storing_def Let_def intro!: attendedI[OF at i])
qed (use st' np upstream_no_err[of fns cr] in
  \<open>auto simp: caller_step_def check_storing_def Let_def loadOrStore_def intro!: attendedI[OF at i] split: option.splits if_splits prod.splits res.splits\<close>)

lemma dedup_progress:
  assumes iv: "dedup_inv st" and at: "attended st" and nr: "\<not> all_returned st"
  shows "\<exists>k < length (dq_callers st). caller_step fns cr k st \<noteq> None"
proof (rule ccontr)
  assume stuck: "\<not> ?thesis"
  have none: "caller_step fns cr k st = None" if "k < length (dq_callers st)" for k
    using stuck that by blast
  have free: "False" if "k < length (dq_callers st)" "holds_request (pos st k) \<noteq> None" for k
    using none[OF that(1)] that(2) upstream_no_err[of fns cr "the_call st k" "dq_store st"]
    by (cases "pos st k") (auto simp: caller_step_def check_storing_def Let_def split: prod.splits res.splits if_splits)
  obtain k where k: "k < length (dq_callers st)" "\<nexists>x. pos st k = Returned x"
    using nr by (auto simp: all_returned_def in_set_conv_nth split: prod.splits)
  obtain q r where w: "pos st k = AtWait q r" "\<not> rq_done (dq_heap st ! r)"
    using none[OF k(1)] k(2) free[OF k(1)]
    by (cases "pos st k") (auto simp: caller_step_def check_storing_def Let_def split: option.splits prod.splits if_splits)
  then have "dq_requests st q (call_id cr (the_call st k)) = Some r"
    using dedup_invD(1)[OF iv k(1)] by (simp add: caller_ok_def Let_def)
  then show False using at free unfolding attended_def by (metis option.distinct(1))
qed

lemma attended_run:
  assumes "\<And>c s x s'. upstream fns cr c s \<noteq> (Panic x, s')"
  shows "dedup_run fns cr (NewWriteDedupQueue s calls) st \<Longrightarrow> attended st"
proof (induction "NewWriteDedupQueue s calls" st rule: dedup_run.induct)
  case start
  then show ?case by (simp add: attended_def NewWriteDedupQueue_def)
next
  case (step st' i st'')
  show ?case by (rule attended_step[OF dedup_inv_run[OF step(1)] step(2-4) assms])
qed

end

section \<open>Queues over any store\<close>

text \<open>The answers that the store can give to the calls of a queue for a chunk.\<close>

definition from_upstream ::
  "'s store_fns \<Rightarrow> codec_fns \<Rightarrow> call list \<Rightarrow> qname \<Rightarrow> chunk_id \<Rightarrow> any \<Rightarrow> go_error option \<Rightarrow> bool" where
  "from_upstream fns cr calls q i d e \<longleftrightarrow>
     (\<exists>c \<in> set calls. \<exists>s s'. call_queue c = q \<and> call_id cr c = i \<and> upstream fns cr c s = (Ok (d, e), s'))"

lemma upstream_types:
  assumes "upstream fns cr c s = (Ok (d, e), s')"
  shows "case call_queue c of HasQ \<Rightarrow> \<exists>b. d = AnyBool b | _ \<Rightarrow> \<exists>ch. d = AnyChunk ch"
  using assms by (cases c) (auto simp: upstream_def upstream_store_def call_queue_def split: prod.splits res.splits)

interpretation any_store: dedup_upstream fns cr "from_upstream fns cr calls" calls for fns cr calls
proof unfold_locales
  fix i d e
  show "from_upstream fns cr calls HasQ i d e \<Longrightarrow> \<exists>b. d = AnyBool b"
    "from_upstream fns cr calls GetQ i d e \<Longrightarrow> \<exists>ch. d = AnyChunk ch"
    "from_upstream fns cr calls StoreQ i d e \<Longrightarrow> \<exists>ch. d = AnyChunk ch"
    unfolding from_upstream_def by (auto dest: upstream_types)
qed (auto simp: from_upstream_def)

lemma from_get:
  assumes "from_upstream fns cr calls GetQ i d e"
  shows "(\<exists>ch s s'. d = AnyChunk (Some ch) \<and> e = None \<and> st_get fns s i = (Ok ch, s')) \<or> (d = AnyChunk None \<and> e \<noteq> None)"
proof -
  obtain c s s' where c: "call_queue c = GetQ" "call_id cr c = i" "upstream fns cr c s = (Ok (d, e), s')"
    using assms unfolding from_upstream_def by blast
  then have "upstream fns cr c s = (case st_get fns s i of
      (Ok ch, s) \<Rightarrow> (Ok (AnyChunk (Some ch), None), s) | (Err e, s) \<Rightarrow> (Ok (AnyChunk None, Some e), s) | (Panic x, s) \<Rightarrow> (Panic x, s))"
    by (cases c) (auto simp: upstream_def upstream_store_def call_queue_def)
  then show ?thesis using c(3) by (auto split: prod.splits res.splits)
qed

lemma from_has: "from_upstream fns cr calls HasQ i d e \<Longrightarrow> \<exists>b. d = AnyBool b"
  unfolding from_upstream_def by (auto dest: upstream_types)

lemma from_store:
  assumes "from_upstream fns cr calls StoreQ i d e"
  shows "\<exists>ch. d = AnyChunk (Some ch) \<and> WriteStore ch \<in> set calls \<and> fst (Chunk_ID cr ch) = i"
proof -
  obtain c s s' where c: "c \<in> set calls" "call_queue c = StoreQ" "call_id cr c = i" "upstream fns cr c s = (Ok (d, e), s')"
    using assms unfolding from_upstream_def by blast
  moreover obtain ch where "c = WriteStore ch" using c(2) by (cases c) (auto simp: call_queue_def)
  ultimately show ?thesis
    by (auto simp: upstream_def upstream_store_def call_id_def split: prod.splits res.splits)
qed

text \<open>
  (C18) Concurrent requests for the same chunk result in one request to the store: whatever the order of
  the steps of any number of callers, at no time are two of them in a call of the store through the same
  queue for the same chunk.
\<close>

theorem dedup_single_upstream:
  assumes "dedup_run fns cr (NewWriteDedupQueue s calls) st"
    and "k < length (dq_callers st)" "l < length (dq_callers st)"
    and "dq_callers st ! k = (c, AtUpstream q r)" "dq_callers st ! l = (c', AtUpstream q r')"
    and "call_id cr c = call_id cr c'"
  shows "k = l"
  by (rule any_store.one_upstream[OF any_store.dedup_inv_run[OF assms(1)] assms(2,3)]) (simp_all add: assms(4-6))

text \<open>
  Every answer is one that the store gave for the same chunk. A chunk that \<open>GetChunk\<close> returns without
  an error from a queue over a store that verifies what it hands out has the requested identifier, or it
  is the very chunk that a caller was storing under that identifier at the time. \<open>GetChunk\<close> never
  returns the internal error for an unexpected type, and a caller panics only when the store panicked in its own call.
\<close>

theorem dedup_genuine:
  assumes "dedup_run fns cr (NewWriteDedupQueue s calls) st" "verified_store cr (st_get fns)"
    and "k < length (dq_callers st)" "dq_callers st ! k = (c, Returned x)"
  shows "case x of
      Ok (AnyChunk (Some ch), None) \<Rightarrow> call_queue c = GetQ \<and>
        (genuine cr (call_id cr c) ch \<or> WriteStore ch \<in> set calls \<and> fst (Chunk_ID cr ch) = call_id cr c)
    | Ok (AnyChunk ch, e) \<Rightarrow> call_queue c = GetQ \<and> (e = None \<longrightarrow> ch \<noteq> None)
    | Ok (AnyBool b, e) \<Rightarrow> call_queue c = HasQ
    | Ok (AnyNil, e) \<Rightarrow> call_queue c = StoreQ
    | Err e \<Rightarrow> False
    | Panic m \<Rightarrow> \<exists>s s'. upstream fns cr c s = (Panic m, s')"
proof (cases x)
  case (Ok de)
  have "answers (from_upstream fns cr calls) (call_id cr c) c (fst de) (snd de)"
    using any_store.dedup_invD(1)[OF any_store.dedup_inv_run[OF assms(1)] assms(3)] assms(4) Ok
    by (simp add: any_store.caller_ok_def Let_def split: prod.splits)
  then consider (get) "call_queue c = GetQ" "from_upstream fns cr calls GetQ (call_id cr c) (fst de) (snd de)"
    | (storing) "call_queue c = GetQ" "from_upstream fns cr calls StoreQ (call_id cr c) (fst de) (snd de)"
    | (has) "call_queue c = HasQ" "from_upstream fns cr calls HasQ (call_id cr c) (fst de) (snd de)"
    | (store) "call_queue c = StoreQ" "fst de = AnyNil"
    by (auto simp: answers_def split: qname.splits)
  then show ?thesis
  proof cases
    case get
    with from_get[OF get(2)] verified_store.get_genuine[OF assms(2)] Ok show ?thesis
      by (auto split: prod.splits option.splits)
  next
    case storing
    with from_store[OF storing(2)] Ok show ?thesis by (auto split: prod.splits option.splits)
  next
    case has
    with from_has[OF has(2)] Ok show ?thesis by (auto split: prod.splits)
  qed (use Ok in \<open>auto split: prod.splits\<close>)
qed (use any_store.dedup_invD(1)[OF any_store.dedup_inv_run[OF assms(1)] assms(3)] assms(4) in
  \<open>auto simp: any_store.caller_ok_def Let_def\<close>)

text \<open>
  (C19) No caller is left behind: while the calls of the store return, in every state that the callers
  can reach either all have returned or one of them can take a step, and every step brings the callers
  nearer to their end, of which they are at most five steps each away at the start.
\<close>

theorem dedup_completes:
  assumes "dedup_run fns cr (NewWriteDedupQueue s calls) st"
    and "\<forall>c s x s'. upstream fns cr c s \<noteq> (Panic x, s')"
  shows "(all_returned st \<or> (\<exists>k < length (dq_callers st). caller_step fns cr k st \<noteq> None)) \<and>
    (\<forall>k st'. k < length (dq_callers st) \<longrightarrow> caller_step fns cr k st = Some st' \<longrightarrow> steps_left st' < steps_left st) \<and>
    steps_left (NewWriteDedupQueue s calls) \<le> 5 * length calls"
proof (intro conjI allI impI)
  show "all_returned st \<or> (\<exists>k < length (dq_callers st). caller_step fns cr k st \<noteq> None)"
    using any_store.dedup_progress[OF any_store.dedup_inv_run[OF assms(1)] any_store.attended_run[OF _ assms(1)]] assms(2) by blast
  show "steps_left (NewWriteDedupQueue s calls) \<le> 5 * length calls"
    unfolding steps_left_def NewWriteDedupQueue_def by (induction calls) (auto split: call.splits)
qed (rule caller_step_decreases)

section \<open>Four callers of a queue over a directory\<close>

fun run_order :: "'s store_fns \<Rightarrow> codec_fns \<Rightarrow> nat list \<Rightarrow> 's dedup_state \<Rightarrow> 's dedup_state option" where
  "run_order fns cr [] st = Some st"
| "run_order fns cr (k # ks) st =
     (if k < length (dq_callers st) then Option.bind (caller_step fns cr k st) (run_order fns cr ks) else None)"

lemma run_order_run: "run_order fns cr ks st' = Some st'' \<Longrightarrow> dedup_run fns cr st st' \<Longrightarrow> dedup_run fns cr st st''"
proof (induction ks arbitrary: st')
  case (Cons k ks)
  then show ?case by (auto split: if_splits bind_splits intro: dedup_run.step)
qed simp

definition dir_fns :: "local_state store_fns" where
  "dir_fns = (let s = local_store ''/s'' False in \<lparr>st_get = local_get toy_codec s, st_has = local_has s, st_put = local_put toy_codec s\<rparr>)"

definition sample_chunk :: Chunk where
  "sample_chunk = NewChunk [1, 2, 3]"

definition sample_calls :: "call list" where
  "sample_calls = (let i = pad_sum [1, 2, 3] in [WriteStore sample_chunk, WriteGet i, DedupGet i, DedupGet i])"

definition sample_queue :: "nat list \<Rightarrow> local_state dedup_state option" where
  "sample_queue ks = run_order dir_fns toy_codec ks (NewWriteDedupQueue ([], []) sample_calls)"

lemma toy_fromStorage: "fromStorage toy_codec ls b \<noteq> Panic m"
proof -
  have "fromStorage_rev toy_codec ls b \<noteq> Panic m" for ls
  proof (induction ls arbitrary: b)
    case (Cons l ls)
    then show ?case
      by (cases l; cases "strip_header b"; cases b) (auto simp: toy_codec_def split: if_splits)
  qed simp
  then show ?thesis by (simp add: fromStorage_def)
qed

lemma toy_Storage: "fst (Chunk_Storage toy_codec c ls) \<noteq> Panic m"
proof -
  have "toStorage toy_codec ls b \<noteq> Panic m" for b
  proof (induction ls arbitrary: b)
    case (Cons l ls)
    then show ?case by (cases l) (auto simp: toy_codec_def)
  qed simp
  then show ?thesis using toy_fromStorage by (auto simp: Chunk_Storage_def Chunk_Data_def split: prod.splits res.splits)
qed

lemma NewChunkFromStorage_no_panic: "NewChunkFromStorage cr i b ls skip \<noteq> Panic m"
  by (simp add: NewChunkFromStorage_def verify_new_def split: prod.split)

lemma dir_no_panic: "upstream dir_fns toy_codec c s \<noteq> (Panic x, s')"
proof -
  have get: "LocalStore_GetChunk toy_codec s fs i \<noteq> Panic m" for s fs i m
    by (auto simp: LocalStore_GetChunk_def NewChunkFromStorage_no_panic split: res.splits go_error.splits)
  have has: "LocalStore_HasChunk s fs i \<noteq> Panic m" for s fs i m
    by (auto simp: LocalStore_HasChunk_def os_Stat_def split: res.splits option.splits)
  have put: "LocalStore_StoreChunk toy_codec s flt fs c \<noteq> (Panic m, y)" for s flt fs c m y
    using toy_Storage by (auto simp: LocalStore_StoreChunk_def store_bytes_def Let_def split: prod.splits res.splits option.splits)
  show ?thesis
    using get has put
    by (cases c) (auto simp: upstream_def upstream_store_def dir_fns_def local_get_def local_has_def local_put_def Let_def split: prod.splits res.splits)
qed

lemma sample_queue_run:
  assumes "sample_queue ks = Some st"
  shows "dedup_run dir_fns toy_codec (NewWriteDedupQueue ([], []) sample_calls) st"
  using run_order_run[OF assms[unfolded sample_queue_def] dedup_run.start] .

lemma sample_queue_at:
  "map_option (map snd \<circ> dq_callers) (sample_queue [0, 1, 2, 3]) =
     Some [AtUpstream StoreQ 0, AtWait StoreQ 0, AtUpstream GetQ 1, AtWait GetQ 1]"
  by code_simp

lemma sample_queue_calls:
  assumes "sample_queue ks = Some st"
  shows "map fst (dq_callers st) = sample_calls"
  using any_store.dedup_inv_run[OF sample_queue_run[OF assms]] by (simp add: any_store.dedup_inv_def)

theorem dedup_single_upstream_witness:
  "\<exists>st. sample_queue [0, 1, 2, 3] = Some st \<and>
     {k. k < 4 \<and> (\<exists>c r. dq_callers st ! k = (c, AtUpstream GetQ r) \<and> call_id toy_codec c = pad_sum [1, 2, 3])} = {2}"
proof -
  obtain st where st: "sample_queue [0, 1, 2, 3] = Some st"
    and ps: "map snd (dq_callers st) = [AtUpstream StoreQ 0, AtWait StoreQ 0, AtUpstream GetQ 1, AtWait GetQ 1]"
    using sample_queue_at by auto
  have len: "length (dq_callers st) = 4" using arg_cong[OF ps, of length] by simp
  have two: "dq_callers st ! 2 = (DedupGet (pad_sum [1, 2, 3]), AtUpstream GetQ 1)"
    using arg_cong[OF ps, of "\<lambda>l. l ! 2"] arg_cong[OF sample_queue_calls[OF st], of "\<lambda>l. l ! 2"] len
    by (simp add: sample_calls_def Let_def prod_eq_iff)
  have "k = 2" if "k < 4" "dq_callers st ! k = (c, AtUpstream GetQ r)" "call_id toy_codec c = pad_sum [1, 2, 3]" for k c r
    using dedup_single_upstream[OF sample_queue_run[OF st] _ _ that(2) two] that len by (simp add: call_id_def)
  then show ?thesis using st two by (auto simp: call_id_def)
qed

lemma sample_queue_end:
  "map_option (\<lambda>st. dq_callers st ! 1) (sample_queue [0, 1, 2, 3, 0, 0, 1]) =
     Some (WriteGet (pad_sum [1, 2, 3]), Returned (Ok (AnyChunk (Some sample_chunk), None)))"
  by code_simp

theorem dedup_genuine_witness:
  "\<exists>st. sample_queue [0, 1, 2, 3, 0, 0, 1] = Some st \<and>
     dq_callers st ! 1 = (WriteGet (pad_sum [1, 2, 3]), Returned (Ok (AnyChunk (Some sample_chunk), None))) \<and>
     (genuine toy_codec (pad_sum [1, 2, 3]) sample_chunk \<or>
      WriteStore sample_chunk \<in> set sample_calls \<and> fst (Chunk_ID toy_codec sample_chunk) = pad_sum [1, 2, 3])"
proof -
  obtain st where st: "sample_queue [0, 1, 2, 3, 0, 0, 1] = Some st"
    and one: "dq_callers st ! 1 = (WriteGet (pad_sum [1, 2, 3]), Returned (Ok (AnyChunk (Some sample_chunk), None)))"
    using sample_queue_end by auto
  have "length (dq_callers st) = 4"
    using arg_cong[OF sample_queue_calls[OF st], of length] by (simp add: sample_calls_def Let_def)
  moreover have "verified_store toy_codec (st_get dir_fns)"
    using local_dir.verified_store_axioms[of toy_codec "''/s''" False] by (simp add: dir_fns_def Let_def)
  ultimately show ?thesis
    using dedup_genuine[OF sample_queue_run[OF st] _ _ one] st one by (simp add: call_id_def)
qed

theorem dedup_completes_witness:
  "\<exists>st. sample_queue [0, 1, 2, 3] = Some st \<and> (\<exists>k < 4. caller_step dir_fns toy_codec k st \<noteq> None)"
proof -
  obtain st where st: "sample_queue [0, 1, 2, 3] = Some st"
    and ps: "map snd (dq_callers st) = [AtUpstream StoreQ 0, AtWait StoreQ 0, AtUpstream GetQ 1, AtWait GetQ 1]"
    using sample_queue_at by auto
  have len: "length (dq_callers st) = 4" using arg_cong[OF ps, of length] by simp
  have "(fst (dq_callers st ! 0), AtUpstream StoreQ 0) \<in> set (dq_callers st)"
    using arg_cong[OF ps, of "\<lambda>l. l ! 0"] len nth_mem[of 0 "dq_callers st"] by (metis prod.collapse nth_Cons_0 nth_map zero_less_numeral)
  then have "\<not> all_returned st" by (auto simp: all_returned_def)
  then show ?thesis
    using dedup_completes[OF sample_queue_run[OF st]] dir_no_panic st len by auto
qed

end
