(* ===== verification/Sparse.thy ===== *)
theory Sparse
  imports ReadSeeker_Props Seeds
begin

text \<open>
  The copy-on-read file (\<^verbatim>\<open>src/sparse-file.go\<close>). The state is that of the loader and of the file on disk.
  Reads of several handles and the preloading of chunks go on at the same time: the steps of a read are
  finding the chunks it needs under the lock, loading one of them, and reading the file. Loading a chunk is
  one step, because \<open>sync.Once\<close> lets no other reader pass while it goes on and nothing else touches the
  part of the file that it writes. The bitmap package is a parameter.
\<close>

section \<open>Bitmaps and files\<close>

record bitmap_fns =
  bm_New :: "nat \<Rightarrow> bytes"
  bm_Get :: "bytes \<Rightarrow> int \<Rightarrow> bool res"
  bm_Set :: "bytes \<Rightarrow> nat \<Rightarrow> bool \<Rightarrow> bytes"
  bm_Data :: "bytes \<Rightarrow> bytes"

text \<open>What the package documents: bitmaps are byte slices with a bit for every position.\<close>

definition bitmap_ok :: "bitmap_fns \<Rightarrow> bool" where
  "bitmap_ok bm \<longleftrightarrow>
     (\<forall>n. length (bm_New bm n) = (n + 7) div 8) \<and>
     (\<forall>n i. i < n \<longrightarrow> bm_Get bm (bm_New bm n) (int i) = Ok False) \<and>
     (\<forall>b i. i < 8 * length b \<longrightarrow> (\<exists>v. bm_Get bm b (int i) = Ok v)) \<and>
     (\<forall>b i j v. i < 8 * length b \<longrightarrow> j < 8 * length b \<longrightarrow>
        bm_Get bm (bm_Set bm b i v) (int j) = (if j = i then Ok v else bm_Get bm b (int j))) \<and>
     (\<forall>b i v. length (bm_Set bm b i v) = length b) \<and> (\<forall>b. bm_Data bm b = b)"

text \<open>
  The file behind the loader, how the following calls of \<open>os.OpenFile\<close> on it end, and which of the
  following calls of \<open>ReadAt\<close> fail: after how many bytes and with which error.
\<close>

record disk =
  dk_file :: tfile
  dk_open :: "go_error option list"
  dk_read :: "(nat \<times> go_error) option list"

definition open_disk :: "disk \<Rightarrow> go_error option \<times> disk" where
  "open_disk d = (case dk_open d of [] \<Rightarrow> (None, d) | e # es \<Rightarrow> (e, d\<lparr>dk_open := es\<rparr>))"

text \<open>\<open>os.File.ReadAt\<close> with the bytes that it could read.\<close>

definition file_ReadAt :: "bytes \<Rightarrow> int \<Rightarrow> nat \<Rightarrow> bytes \<times> go_error option" where
  "file_ReadAt data off n =
     (if off < 0 then ([], Some (ErrIO ''negative offset''))
      else let b = take n (drop (nat off) data) in (b, if length b < n then Some EOF else None))"

definition read_disk :: "disk \<Rightarrow> int \<Rightarrow> nat \<Rightarrow> (bytes \<times> go_error option) \<times> disk" where
  "read_disk d off n =
     (let x = file_ReadAt (tf_data (dk_file d)) off n in
      case dk_read d of
        [] \<Rightarrow> (x, d)
      | None # es \<Rightarrow> (x, d\<lparr>dk_read := es\<rparr>)
      | Some (m, e) # es \<Rightarrow> ((take m (fst x), Some e), d\<lparr>dk_read := es\<rparr>))"

section \<open>The loader\<close>

record sparseIndexChunk =
  sic_chunk :: IndexChunk
  sic_once :: bool

record 's sparseFileLoader =
  sl_done :: bytes
  sl_s :: 's
  sl_nullChunk :: NullChunk
  sl_chunks :: "sparseIndexChunk list"

definition newSparseFileLoader :: "codec_fns \<Rightarrow> bitmap_fns \<Rightarrow> Index \<Rightarrow> 's \<Rightarrow> 's sparseFileLoader res" where
  "newSparseFileLoader cr bm idx s =
     bind_res (NewNullChunk cr (ChunkSizeMax (idx_index idx))) (\<lambda>null.
     Ok \<lparr>sl_done = bm_New bm (length (idx_chunks idx)), sl_s = s, sl_nullChunk = null,
       sl_chunks = map (\<lambda>c. \<lparr>sic_chunk = c, sic_once = False\<rparr>) (idx_chunks idx)\<rparr>)"

fun last_chunk :: "u64 \<Rightarrow> sparseIndexChunk list \<Rightarrow> int \<Rightarrow> int" where
  "last_chunk end [] lastChunk = lastChunk"
| "last_chunk end (c # cs) lastChunk =
     (if end < ic_start (sic_chunk c) then lastChunk else last_chunk end cs (lastChunk + 1))"

definition indexRange :: "'s sparseFileLoader \<Rightarrow> int \<Rightarrow> int \<Rightarrow> int \<times> int" where
  "indexRange l start len =
     (let chunks = sl_chunks l; end = (word_of_int (i64 (start + len - 1)) :: u64);
          firstChunk = sort_search (\<lambda>i. start < chunk_limit (sic_chunk (chunks ! i))) 0 (length chunks) in
      if len < 1 then (int firstChunk, int firstChunk)
      else if firstChunk \<ge> length chunks then (int (length chunks) - 1, int (length chunks) - 1)
      else (int firstChunk, last_chunk end (drop (firstChunk + 1) chunks) (int firstChunk)))"

text \<open>The chunks of a range that have to be loaded.\<close>

fun chunks_needed :: "bitmap_fns \<Rightarrow> 's sparseFileLoader \<Rightarrow> int list \<Rightarrow> nat list res" where
  "chunks_needed bm l [] = Ok []"
| "chunks_needed bm l (i # is) =
     bind_res (bm_Get bm (sl_done l) i) (\<lambda>b.
     if b then chunks_needed bm l is
     else if i < 0 \<or> int (length (sl_chunks l)) \<le> i then Panic ''index out of range''
     else if ic_id (sic_chunk (sl_chunks l ! nat i)) = nc_id (sl_nullChunk l) then chunks_needed bm l is
     else bind_res (chunks_needed bm l is) (\<lambda>js. Ok (nat i # js)))"

definition range_needed :: "bitmap_fns \<Rightarrow> 's sparseFileLoader \<Rightarrow> int \<Rightarrow> int \<Rightarrow> nat list res" where
  "range_needed bm l start len = (case indexRange l start len of (first, final) \<Rightarrow> chunks_needed bm l [first..final])"

text \<open>The function that \<open>once.Do\<close> runs.\<close>

definition fetch_chunk ::
  "codec_fns \<Rightarrow> 's get_fn \<Rightarrow> bitmap_fns \<Rightarrow> nat \<Rightarrow> 's sparseFileLoader \<Rightarrow> disk \<Rightarrow> unit res \<times> 's sparseFileLoader \<times> disk" where
  "fetch_chunk cr get bm i l d =
     (let c = sic_chunk (sl_chunks l ! i) in
      case get (sl_s l) (ic_id c) of (r, s) \<Rightarrow>
        let l = l\<lparr>sl_s := s\<rparr> in
        case bind_res r (\<lambda>chunk. fst (Chunk_Data cr chunk)) of
          Err e \<Rightarrow> (Err e, l, d)
        | Panic x \<Rightarrow> (Panic x, l, d)
        | Ok b \<Rightarrow>
            (case open_disk d of
               (Some e, d) \<Rightarrow> (Err e, l, d)
             | (None, d) \<Rightarrow>
                 (case file_WriteAt (dk_file d) (ic_start c) b of
                    (n, Some e, f) \<Rightarrow> (Err e, l, d\<lparr>dk_file := f\<rparr>)
                  | (n, None, f) \<Rightarrow> (Ok (), l\<lparr>sl_done := bm_Set bm (sl_done l) i True\<rparr>, d\<lparr>dk_file := f\<rparr>))))"

definition loadChunk ::
  "codec_fns \<Rightarrow> 's get_fn \<Rightarrow> bitmap_fns \<Rightarrow> nat \<Rightarrow> 's sparseFileLoader \<Rightarrow> disk \<Rightarrow> unit res \<times> 's sparseFileLoader \<times> disk" where
  "loadChunk cr get bm i l d =
     (if i \<ge> length (sl_chunks l) then (Panic ''index out of range'', l, d)
      else if sic_once (sl_chunks l ! i) then (Ok (), l, d)
      else fetch_chunk cr get bm i (l\<lparr>sl_chunks := (sl_chunks l)[i := (sl_chunks l ! i)\<lparr>sic_once := True\<rparr>]\<rparr>) d)"

text \<open>The state file.\<close>

definition writeState :: "bitmap_fns \<Rightarrow> 's sparseFileLoader \<Rightarrow> bytes" where
  "writeState bm l = bm_Data bm (sl_done l)"

definition stateFromReader :: "bytes res \<Rightarrow> 's sparseFileLoader \<Rightarrow> bytes res" where
  "stateFromReader r l =
     bind_res r (\<lambda>b.
     let chunks = length (sl_chunks l) in
     if chunks mod 8 = 0 \<and> length b \<noteq> chunks div 8 \<or> chunks mod 8 \<noteq> 0 \<and> length b \<noteq> 1 + chunks div 8
     then Err (Errorf ''sparse state file does not match the index'')
     else Ok b)"

definition loadState :: "bytes res \<Rightarrow> 's sparseFileLoader \<Rightarrow> 's sparseFileLoader res" where
  "loadState r l = bind_res (stateFromReader r l) (\<lambda>done'. Ok (l\<lparr>sl_done := done'\<rparr>))"

text \<open>The chunks that the feeder hands to the workers.\<close>

fun marked :: "bitmap_fns \<Rightarrow> bytes \<Rightarrow> nat list \<Rightarrow> nat list res" where
  "marked bm state [] = Ok []"
| "marked bm state (i # is) =
     bind_res (bm_Get bm state (int i)) (\<lambda>b. bind_res (marked bm state is) (\<lambda>js. Ok (if b then i # js else js)))"

definition preloadChunksFromState :: "bitmap_fns \<Rightarrow> bytes res \<Rightarrow> 's sparseFileLoader \<Rightarrow> nat list res" where
  "preloadChunksFromState bm r l =
     bind_res (stateFromReader r l) (\<lambda>state. marked bm state [0..<length (sl_chunks l)])"

section \<open>Sparse files\<close>

record SparseFileOptions =
  StateSaveFile :: string
  StateInitFile :: string
  StateInitConcurrency :: nat

text \<open>The reads of several handles: the position and the length of a read, and how far it is.\<close>

datatype read_progress = ToRange | ToLoad "nat list" | ToRead | Finished "(bytes \<times> go_error option) res"

record 's SparseFile =
  sf_loader :: "'s sparseFileLoader"
  sf_disk :: disk
  sf_preload :: "nat list"
  sf_workers :: nat
  sf_reads :: "((int \<times> nat) \<times> read_progress) list"

text \<open>
  The results of the operations on the files: the errors of \<open>OpenFile\<close>, \<open>Stat\<close> and \<open>Truncate\<close>, and of
  opening and reading a state file.
\<close>

record sparse_os =
  so_open :: "go_error option"
  so_stat :: "go_error option"
  so_truncate :: "go_error option"
  so_state :: "string \<Rightarrow> bytes res res"

definition os_step :: "go_error option \<Rightarrow> unit res" where
  "os_step e = (case e of None \<Rightarrow> Ok () | Some e \<Rightarrow> Err e)"

text \<open>The state that was saved, if it can be used.\<close>

definition saved_state :: "sparse_os \<Rightarrow> SparseFileOptions \<Rightarrow> 's sparseFileLoader \<Rightarrow> 's sparseFileLoader option" where
  "saved_state os opts l =
     (if StateSaveFile opts = [] then None
      else case so_state os (StateSaveFile opts) of
        Ok r \<Rightarrow> (case loadState r l of Ok l \<Rightarrow> Some l | _ \<Rightarrow> None)
      | _ \<Rightarrow> None)"

definition NewSparseFile ::
  "codec_fns \<Rightarrow> bitmap_fns \<Rightarrow> sparse_os \<Rightarrow> disk \<Rightarrow> Index \<Rightarrow> 's \<Rightarrow> SparseFileOptions \<Rightarrow> 's SparseFile res" where
  "NewSparseFile cr bm os d idx s opts =
     bind_res (os_step (so_open os)) (\<lambda>_.
     bind_res (newSparseFileLoader cr bm idx s) (\<lambda>loader.
     bind_res (os_step (so_stat os)) (\<lambda>_.
     let data = tf_data (dk_file d); sparseFileMatch = (int (length data) = Index_Length idx) in
     case (if sparseFileMatch then saved_state os opts loader else None) of
       Some loader \<Rightarrow> Ok \<lparr>sf_loader = loader, sf_disk = d, sf_preload = [], sf_workers = 0, sf_reads = []\<rparr>
     | None \<Rightarrow>
         bind_res (if Index_Length idx < 0 then Err (ErrIO ''invalid argument'') else os_step (so_truncate os)) (\<lambda>_.
         let d = d\<lparr>dk_file := (dk_file d)\<lparr>tf_data := truncate_to data (nat (Index_Length idx))\<rparr>\<rparr> in
         bind_res
           (if StateInitFile opts = [] then Ok []
            else bind_res (so_state os (StateInitFile opts)) (\<lambda>r. preloadChunksFromState bm r loader))
           (\<lambda>preload. Ok \<lparr>sf_loader = loader, sf_disk = d, sf_preload = preload, sf_workers = StateInitConcurrency opts, sf_reads = []\<rparr>)))))"

definition SparseFile_Length :: "Index \<Rightarrow> int" where
  "SparseFile_Length idx = Index_Length idx"

text \<open>\<open>WriteState\<close>: the bytes of the new state file, if there is to be one.\<close>

definition SparseFile_WriteState :: "bitmap_fns \<Rightarrow> SparseFileOptions \<Rightarrow> 's SparseFile \<Rightarrow> (string \<times> bytes) option" where
  "SparseFile_WriteState bm opts sf =
     (if StateSaveFile opts = [] then None else Some (StateSaveFile opts, writeState bm (sf_loader sf)))"

text \<open>\<open>ReadAt\<close> of a handle begins.\<close>

definition begin_ReadAt :: "int \<Rightarrow> nat \<Rightarrow> 's SparseFile \<Rightarrow> 's SparseFile" where
  "begin_ReadAt off n sf = sf\<lparr>sf_reads := sf_reads sf @ [((off, n), ToRange)]\<rparr>"

definition set_read :: "nat \<Rightarrow> read_progress \<Rightarrow> 's SparseFile \<Rightarrow> 's SparseFile" where
  "set_read k p sf = sf\<lparr>sf_reads := (sf_reads sf)[k := (fst (sf_reads sf ! k), p)]\<rparr>"

definition read_step :: "codec_fns \<Rightarrow> 's get_fn \<Rightarrow> bitmap_fns \<Rightarrow> nat \<Rightarrow> 's SparseFile \<Rightarrow> 's SparseFile option" where
  "read_step cr get bm k sf =
     (case sf_reads sf ! k of ((off, n), p) \<Rightarrow>
      case p of
        ToRange \<Rightarrow>
          Some (set_read k (case range_needed bm (sf_loader sf) off (int n) of
                              Ok is \<Rightarrow> ToLoad is | Err e \<Rightarrow> Finished (Ok ([], Some e)) | Panic x \<Rightarrow> Finished (Panic x)) sf)
      | ToLoad [] \<Rightarrow> Some (set_read k ToRead sf)
      | ToLoad (i # is) \<Rightarrow>
          (case loadChunk cr get bm i (sf_loader sf) (sf_disk sf) of (r, l, d) \<Rightarrow>
             Some (set_read k (case r of Ok _ \<Rightarrow> ToLoad is | Err e \<Rightarrow> Finished (Ok ([], Some e)) | Panic x \<Rightarrow> Finished (Panic x))
               (sf\<lparr>sf_loader := l, sf_disk := d\<rparr>)))
      | ToRead \<Rightarrow> (case read_disk (sf_disk sf) off n of (x, d) \<Rightarrow> Some (set_read k (Finished (Ok x)) (sf\<lparr>sf_disk := d\<rparr>)))
      | Finished r \<Rightarrow> None)"

text \<open>A worker loads a chunk that the feeder has handed to it, one of the first that are left; errors are ignored.\<close>

definition preload_step :: "codec_fns \<Rightarrow> 's get_fn \<Rightarrow> bitmap_fns \<Rightarrow> nat \<Rightarrow> 's SparseFile \<Rightarrow> 's SparseFile" where
  "preload_step cr get bm k sf =
     (case loadChunk cr get bm (sf_preload sf ! k) (sf_loader sf) (sf_disk sf) of (r, l, d) \<Rightarrow>
        sf\<lparr>sf_loader := l, sf_disk := d, sf_preload := take k (sf_preload sf) @ drop (Suc k) (sf_preload sf)\<rparr>)"

inductive sparse_run :: "codec_fns \<Rightarrow> 's get_fn \<Rightarrow> bitmap_fns \<Rightarrow> 's SparseFile \<Rightarrow> 's SparseFile \<Rightarrow> bool" for cr get bm where
  start: "sparse_run cr get bm sf sf"
| begin_read: "sparse_run cr get bm sf sf' \<Longrightarrow> sparse_run cr get bm sf (begin_ReadAt off n sf')"
| read_on: "sparse_run cr get bm sf sf' \<Longrightarrow> k < length (sf_reads sf') \<Longrightarrow> read_step cr get bm k sf' = Some sf'' \<Longrightarrow> sparse_run cr get bm sf sf''"
| preload_one: "sparse_run cr get bm sf sf' \<Longrightarrow> k < length (sf_preload sf') \<Longrightarrow> k < sf_workers sf' \<Longrightarrow> sparse_run cr get bm sf (preload_step cr get bm k sf')"

end
