(* ===== verification/Sparse_Props.thy ===== *)
theory Sparse_Props
  imports Sparse
begin

text \<open>
  What reading through a sparse file gives: the bytes of the blob, as long as no chunk failed to load and
  the file was blank, in whatever order readers and workers go on; and what goes wrong otherwise.
\<close>

section \<open>Files that agree with the blob\<close>

text \<open>The bytes of a chunk of the index are in the file.\<close>

definition filled :: "Index \<Rightarrow> bytes \<Rightarrow> bytes \<Rightarrow> nat \<Rightarrow> bool" where
  "filled i D F k \<longleftrightarrow> (\<forall>p. lo i k \<le> p \<longrightarrow> p < lo i k + sz i k \<longrightarrow> F ! p = D ! p)"

text \<open>A range of the file and a chunk have bytes in common.\<close>

definition touches :: "Index \<Rightarrow> int \<Rightarrow> nat \<Rightarrow> nat \<Rightarrow> bool" where
  "touches i off n k \<longleftrightarrow>
     k < length (idx_chunks i) \<and> int (lo i k) < off + int n \<and> off < int (lo i k + sz i k)"

lemma chunk_limit_eq:
  assumes "describes cr i D" "k < length (idx_chunks i)"
  shows "chunk_limit (idx_chunks i ! k) = int (lo i k + sz i k)" "lo i k + sz i k \<le> length D"
proof -
  have D: "length D = total_size (idx_chunks i)" "length D < 2 ^ 63" using assms(1) by (simp_all add: describes_def)
  show le: "lo i k + sz i k \<le> length D"
    using describes_chunk(2)[OF assms] total_size_mono[of "Suc k" "length (idx_chunks i)" "idx_chunks i"] assms(2) D(1) by simp
  have "unat (ic_start (idx_chunks i ! k) + ic_size (idx_chunks i ! k)) = lo i k + sz i k"
    unfolding lo_def sz_def using le D(2) by (intro unat_add_small) (simp add: lo_def sz_def)
  then show "chunk_limit (idx_chunks i ! k) = int (lo i k + sz i k)"
    using le D(2) unfolding chunk_limit_def by (subst sint_small_u64) simp_all
qed

lemma chunk_at_position:
  assumes "describes cr i D" "p < length D"
  obtains k where "k < length (idx_chunks i)" "lo i k \<le> p" "p < lo i k + sz i k"
proof -
  have ne: "idx_chunks i \<noteq> []" using assms by (auto simp: describes_def total_size_def)
  define k where "k = (LEAST k. p < total_size (take (Suc k) (idx_chunks i)))"
  have ex: "p < total_size (take (Suc (length (idx_chunks i) - 1)) (idx_chunks i))"
    using assms ne by (simp add: describes_def)
  have k: "p < total_size (take (Suc k) (idx_chunks i))" "k \<le> length (idx_chunks i) - 1"
    unfolding k_def by (rule LeastI[where P = "\<lambda>k. p < total_size (take (Suc k) (idx_chunks i))", OF ex],
      rule Least_le[where P = "\<lambda>k. p < total_size (take (Suc k) (idx_chunks i))", OF ex])
  then have len: "k < length (idx_chunks i)" using ne by (cases "idx_chunks i") auto
  have "total_size (take k (idx_chunks i)) \<le> p"
  proof (cases k)
    case (Suc j)
    then have "\<not> p < total_size (take (Suc j) (idx_chunks i))"
      unfolding k_def by (metis lessI not_less_Least)
    then show ?thesis using Suc by simp
  qed (simp add: total_size_def)
  then show ?thesis using that[OF len] k(1) describes_chunk(1,2)[OF assms(1) len] by simp
qed

lemma filled_range:
  assumes "describes cr i D" "length F = length D" "0 \<le> off" "\<And>k. touches i off n k \<Longrightarrow> filled i D F k"
  shows "file_ReadAt F off n = file_ReadAt D off n"
proof -
  have "take n (drop (nat off) F) = take n (drop (nat off) D)"
  proof (rule nth_equalityI)
    fix j assume "j < length (take n (drop (nat off) F))"
    then have j: "j < n" "nat off + j < length D" using assms(2) by auto
    obtain k where k: "k < length (idx_chunks i)" "lo i k \<le> nat off + j" "nat off + j < lo i k + sz i k"
      using chunk_at_position[OF assms(1) j(2)] .
    then have "filled i D F k" using j assms(3) by (intro assms(4)) (auto simp: touches_def)
    then show "take n (drop (nat off) F) ! j = take n (drop (nat off) D) ! j"
      using k j assms(2) by (simp add: filled_def)
  qed (simp add: assms(2))
  then show ?thesis by (simp add: file_ReadAt_def Let_def)
qed

text \<open>Writing a part of a chunk of the blob at its place.\<close>

lemma write_prefix:
  assumes "describes cr i D" "k < length (idx_chunks i)" "length F = length D"
    and F'_def: "F' = write_at F (lo i k) (take m (chunk_bytes D (idx_chunks i ! k)))"
  shows "length F' = length D" "j < length (idx_chunks i) \<Longrightarrow> filled i D F j \<Longrightarrow> filled i D F' j" "sz i k \<le> m \<Longrightarrow> filled i D F' k"
    "p < length D \<Longrightarrow> p < lo i k \<or> lo i k + sz i k \<le> p \<Longrightarrow> F' ! p = F ! p"
proof -
  have le: "lo i k + sz i k \<le> length D" by (rule chunk_limit_eq(2)[OF assms(1,2)])
  let ?m = "min m (sz i k)"
  have b: "take m (chunk_bytes D (idx_chunks i ! k)) = take ?m (drop (lo i k) D)"
    using le by (simp add: chunk_bytes_def slice_def lo_def sz_def min.commute)
  have F': "F' = take (lo i k) F @ take ?m (drop (lo i k) D) @ drop (lo i k + ?m) F"
    using le assms(3) unfolding F'_def b write_at_def by auto
  have nth: "F' ! p = (if lo i k \<le> p \<and> p < lo i k + ?m then D ! p else F ! p)" if "p < length D" for p
    using le assms(3) that unfolding F' by (auto simp: nth_append)
  show "length F' = length D" using le assms(3) by (simp add: F')
  show "filled i D F' j" if "j < length (idx_chunks i)" "filled i D F j"
    using that nth chunk_limit_eq(2)[OF assms(1) that(1)] by (simp add: filled_def)
  show "filled i D F' k" if "sz i k \<le> m"
    using that nth le by (simp add: filled_def)
  show "F' ! p = F ! p" if "p < length D" "p < lo i k \<or> lo i k + sz i k \<le> p"
    using nth[OF that(1)] that(2) by auto
qed

section \<open>The chunks of a range\<close>

abbreviation chunks_of :: "'s sparseFileLoader \<Rightarrow> IndexChunk list" where
  "chunks_of l \<equiv> map sic_chunk (sl_chunks l)"

definition plain_read :: "bytes \<Rightarrow> int \<Rightarrow> nat \<Rightarrow> bool" where
  "plain_read D off n \<longleftrightarrow> D \<noteq> [] \<and> 0 \<le> off \<and> off + int n < 2 ^ 63 \<and> (0 < n \<or> off < int (length D))"

lemma last_chunk_bounds: "m \<le> last_chunk e cs m \<and> last_chunk e cs m \<le> m + int (length cs)"
  by (induction e cs m rule: last_chunk.induct) auto

lemma last_chunk_covers:
  assumes "\<And>j. j \<le> k \<Longrightarrow> ic_start (sic_chunk (cs ! j)) \<le> e" "k < length cs"
  shows "m + int k < last_chunk e cs m"
  using assms
proof (induction e cs m arbitrary: k rule: last_chunk.induct)
  case (2 e c cs m)
  have c: "\<not> e < ic_start (sic_chunk c)" using "2.prems"(1)[of 0] by simp
  show ?case
  proof (cases k)
    case 0
    then show ?thesis using c last_chunk_bounds[of "m + 1" e cs] by simp
  next
    case (Suc k')
    have "m + 1 + int k' < last_chunk e cs (m + 1)"
      using "2.prems" Suc by (intro "2.IH"[OF c]) (use "2.prems"(1)[of "Suc _"] in \<open>auto\<close>)
    then show ?thesis using c Suc by simp
  qed
qed simp

lemma unat_position_word: "unat (word_of_int (i64 p) :: u64) = nat p" if "0 \<le> p" "p < 2 ^ 63"
proof -
  have "i64 p = p" using that by (intro i64_small) auto
  moreover have "take_bit 64 p = p" using that by (intro take_bit_int_eq_self) auto
  ultimately show ?thesis by (simp add: unat_eq_nat_uint uint_word_of_int take_bit_eq_mod)
qed

text \<open>The chunk the binary search finds: the first that ends after the position.\<close>

lemma range_start:
  assumes d: "describes cr i D" and l: "chunks_of l = idx_chunks i"
    and s: "s = sort_search (\<lambda>j. off < chunk_limit (sic_chunk (sl_chunks l ! j))) 0 (length (sl_chunks l))"
  shows "s \<le> length (idx_chunks i)" "j < s \<Longrightarrow> int (lo i j + sz i j) \<le> off"
    "s < length (idx_chunks i) \<Longrightarrow> off < int (lo i s + sz i s)"
proof -
  let ?f = "\<lambda>j. off < chunk_limit (sic_chunk (sl_chunks l ! j))"
  have len: "length (sl_chunks l) = length (idx_chunks i)" using l by (metis length_map)
  have lim: "?f j \<longleftrightarrow> off < int (lo i j + sz i j)" if "j < length (idx_chunks i)" for j
    using that chunk_limit_eq(1)[OF d that] len l by (metis nth_map)
  have mono: "?f b" if "a \<le> b" "b < length (sl_chunks l)" "?f a" for a b
  proof (cases "a = b")
    case False
    then have ab: "a < b" "b < length (idx_chunks i)" "a < length (idx_chunks i)" using that len by auto
    have "off < int (lo i a + sz i a)" using that(3) lim[OF ab(3)] by blast
    then have "off < int (lo i b + sz i b)" using describes_order[OF d ab(1,2)] by linarith
    then show ?thesis using lim[OF ab(2)] by blast
  qed (use that in blast)
  have "0 \<le> s \<and> s \<le> length (sl_chunks l) \<and> (\<forall>k. 0 \<le> k \<and> k < s \<longrightarrow> \<not> ?f k) \<and> (s < length (sl_chunks l) \<longrightarrow> ?f s)"
    unfolding s by (rule sort_search_spec) (use mono in blast)+
  then show "s \<le> length (idx_chunks i)" "j < s \<Longrightarrow> int (lo i j + sz i j) \<le> off"
    "s < length (idx_chunks i) \<Longrightarrow> off < int (lo i s + sz i s)"
    using lim len by force+
qed

text \<open>The range of a read inside one chunk is that chunk.\<close>

lemma indexRange_single:
  assumes d: "describes cr i D" and l: "chunks_of l = idx_chunks i" and k: "k < length (idx_chunks i)"
    and n: "0 < n" "int (lo i k) \<le> off" "off + int n \<le> int (lo i k + sz i k)"
  shows "indexRange l off (int n) = (int k, int k)"
proof -
  define s where "s = sort_search (\<lambda>j. off < chunk_limit (sic_chunk (sl_chunks l ! j))) 0 (length (sl_chunks l))"
  note rs = range_start[OF d l s_def]
  have len: "length (sl_chunks l) = length (idx_chunks i)" using l by (metis length_map)
  have s: "s = k"
  proof (rule linorder_cases[of s k])
    assume "s < k"
    then show ?thesis using rs(3) k n describes_order[OF d \<open>s < k\<close> k] by linarith
  next
    assume "k < s"
    then show ?thesis using rs(2)[of k] n by linarith
  qed
  let ?fin = "word_of_int (i64 (off + int n - 1)) :: u64"
  have "unat ?fin = nat (off + int n - 1)"
    using n chunk_limit_eq(2)[OF d k] d by (intro unat_position_word) (auto simp: describes_def)
  moreover have "unat (ic_start (sic_chunk (sl_chunks l ! Suc k))) = lo i k + sz i k" if "Suc k < length (idx_chunks i)"
    using that len l describes_next[OF d that] unfolding lo_def by (metis nth_map)
  moreover have "nat (off + int n - 1) < lo i k + sz i k" using n by linarith
  ultimately have before: "?fin < ic_start (sic_chunk (sl_chunks l ! Suc k))" if "Suc k < length (idx_chunks i)"
    using that unfolding word_less_nat_alt by simp
  have "last_chunk ?fin (drop (Suc k) (sl_chunks l)) (int k) = int k"
  proof (cases "drop (Suc k) (sl_chunks l)")
    case (Cons c cs)
    then have "Suc k < length (idx_chunks i)" "c = sl_chunks l ! Suc k"
      using len by (metis drop_all list.discI not_less, metis Cons_nth_drop_Suc drop_all list.inject list.discI not_less)
    then show ?thesis using before Cons by simp
  qed simp
  then show ?thesis using n k len s unfolding indexRange_def Let_def s_def[symmetric] by simp
qed

lemma indexRange_covers:
  assumes d: "describes cr i D" and l: "chunks_of l = idx_chunks i" and r: "plain_read D off n"
    and rng: "indexRange l off (int n) = (first, final)"
  shows "0 \<le> first" "final < int (length (idx_chunks i))" "touches i off n k \<Longrightarrow> first \<le> int k \<and> int k \<le> final"
proof -
  let ?cs = "idx_chunks i"
  let ?f = "\<lambda>j. off < chunk_limit (sic_chunk (sl_chunks l ! j))"
  define s where "s = sort_search ?f 0 (length (sl_chunks l))"
  have len: "length (sl_chunks l) = length ?cs" using l by (metis length_map)
  have nth: "sic_chunk (sl_chunks l ! j) = ?cs ! j" if "j < length ?cs" for j
    using that len l by (metis nth_map)
  have lim: "?f j \<longleftrightarrow> off < int (lo i j + sz i j)" if "j < length ?cs" for j
    using that chunk_limit_eq(1)[OF d that] nth by simp
  note rs = range_start[OF d l s_def]
  have s: "s \<le> length ?cs" "\<And>j. j < s \<Longrightarrow> \<not> ?f j" "s < length ?cs \<Longrightarrow> ?f s"
  proof -
    show "\<not> ?f j" if "j < s" for j using rs(1) rs(2)[OF that] lim[of j] that by simp
  qed (use rs lim in auto)
  have ne: "?cs \<noteq> []" using d r by (auto simp: describes_def total_size_def plain_read_def)
  have D: "length D < 2 ^ 63" using d by (simp add: describes_def)
  have off: "0 \<le> off" "off + int n < 2 ^ 63" using r by (simp_all add: plain_read_def)
  have from_s: "s \<le> k" if "touches i off n k" for k
    using that lim s(2)[of k] by (force simp: touches_def)
  let ?fin = "word_of_int (i64 (off + int n - 1)) :: u64"
  have eq: "(first, final) = (if int n < 1 then (int s, int s)
      else if s \<ge> length ?cs then (int (length ?cs) - 1, int (length ?cs) - 1)
      else (int s, last_chunk ?fin (drop (s + 1) (sl_chunks l)) (int s)))"
    using rng unfolding indexRange_def Let_def s_def[symmetric] unfolding len by (rule sym)
  note bounds = last_chunk_bounds[of "int s" ?fin "drop (s + 1) (sl_chunks l)"]
  consider (empty) "n = 0" | (past) "0 < n" "s \<ge> length ?cs" | (inside) "0 < n" "s < length ?cs" by linarith
  then have "0 \<le> first \<and> final < int (length ?cs) \<and> (\<forall>k. touches i off n k \<longrightarrow> first \<le> int k \<and> int k \<le> final)"
  proof cases
    case empty
    then have "nat off < length D" using r by (auto simp: plain_read_def)
    then obtain j where "j < length ?cs" "nat off < lo i j + sz i j" using chunk_at_position[OF d] by metis
    then have "s < length ?cs" using s(2)[of j] lim[of j] off by force
    moreover have "k \<le> s" if "touches i off n k" for k
    proof (rule ccontr)
      assume "\<not> k \<le> s"
      then have "lo i s + sz i s \<le> lo i k" using that by (intro describes_order[OF d]) (auto simp: touches_def)
      then show False using s(3) lim[OF calculation] that empty calculation by (auto simp: touches_def)
    qed
    ultimately show ?thesis using eq empty from_s by auto
  next
    case past
    then have "\<not> touches i off n k" for k using from_s[of k] by (auto simp: touches_def)
    then show ?thesis using eq past ne by (auto simp: Suc_le_eq)
  next
    case inside
    have e: "unat ?fin = nat (off + int n - 1)"
      using off inside by (intro unat_position_word) auto
    have "int k \<le> last_chunk ?fin (drop (s + 1) (sl_chunks l)) (int s)" if t: "touches i off n k" for k
    proof (cases "k = s")
      case False
      then obtain k' where k': "k = s + 1 + k'" using from_s[OF t] by (metis add.assoc add.commute le_neq_implies_less less_iff_Suc_add plus_1_eq_Suc)
      have "int s + int k' < last_chunk ?fin (drop (s + 1) (sl_chunks l)) (int s)"
      proof (rule last_chunk_covers)
        show "k' < length (drop (s + 1) (sl_chunks l))" using t k' len by (auto simp: touches_def)
        fix j assume j: "j \<le> k'"
        have "lo i (s + 1 + j) \<le> lo i k"
          using describes_order[OF d, of "s + 1 + j" k] j k' t by (cases "j = k'") (auto simp: touches_def)
        then have "lo i (s + 1 + j) \<le> unat ?fin" using t e by (auto simp: touches_def)
        then show "ic_start (sic_chunk (drop (s + 1) (sl_chunks l) ! j)) \<le> ?fin"
          using nth[of "s + 1 + j"] j k' t len by (simp add: lo_def word_le_nat_alt touches_def)
      qed
      then show ?thesis using k' by simp
    qed (use bounds in simp)
    then show ?thesis using eq inside from_s bounds len by auto
  qed
  then show "0 \<le> first" "final < int (length ?cs)" "touches i off n k \<Longrightarrow> first \<le> int k \<and> int k \<le> final" by blast+
qed

section \<open>The invariant\<close>

definition is_null :: "Index \<Rightarrow> 's sparseFileLoader \<Rightarrow> nat \<Rightarrow> bool" where
  "is_null i l k \<longleftrightarrow> ic_id (idx_chunks i ! k) = nc_id (sl_nullChunk l)"

definition is_done :: "bitmap_fns \<Rightarrow> 's sparseFileLoader \<Rightarrow> nat \<Rightarrow> bool" where
  "is_done bm l k \<longleftrightarrow> bm_Get bm (sl_done l) (int k) = Ok True"

text \<open>A chunk whose loading was tried and did not succeed.\<close>

definition was_tried :: "'s sparseFileLoader \<Rightarrow> nat \<Rightarrow> bool" where
  "was_tried l k \<longleftrightarrow> sic_once (sl_chunks l ! k)"

definition failed_chunk :: "bitmap_fns \<Rightarrow> 's sparseFileLoader \<Rightarrow> nat \<Rightarrow> bool" where
  "failed_chunk bm l k \<longleftrightarrow> k < length (sl_chunks l) \<and> was_tried l k \<and> \<not> is_done bm l k"

text \<open>What is marked, and the null chunks, is in the file.\<close>

definition loader_ok :: "bitmap_fns \<Rightarrow> Index \<Rightarrow> bytes \<Rightarrow> 's sparseFileLoader \<Rightarrow> disk \<Rightarrow> bool" where
  "loader_ok bm i D l d \<longleftrightarrow>
     chunks_of l = idx_chunks i \<and> length (tf_data (dk_file d)) = length D \<and> length (sl_chunks l) \<le> 8 * length (sl_done l) \<and>
     (\<forall>k < length (idx_chunks i). is_null i l k \<or> is_done bm l k \<longrightarrow> filled i D (tf_data (dk_file d)) k)"

text \<open>The answer of a read that is right, but for the errors \<open>E\<close> of reading the file.\<close>

definition read_answer :: "(nat \<times> go_error) set \<Rightarrow> bytes \<Rightarrow> int \<Rightarrow> nat \<Rightarrow> (bytes \<times> go_error option) res \<Rightarrow> bool" where
  "read_answer E D off n r \<longleftrightarrow>
     r = Ok (file_ReadAt D off n) \<or> (\<exists>(m, e) \<in> E. r = Ok (take m (fst (file_ReadAt D off n)), Some e))"

fun read_ok :: "(nat \<times> go_error) set \<Rightarrow> bitmap_fns \<Rightarrow> Index \<Rightarrow> bytes \<Rightarrow> 's sparseFileLoader \<Rightarrow> (int \<times> nat) \<times> read_progress \<Rightarrow> bool" where
  "read_ok E bm i D l ((off, n), ToRange) \<longleftrightarrow> True"
| "read_ok E bm i D l ((off, n), ToLoad ks) \<longleftrightarrow>
     (\<forall>k \<in> set ks. k < length (idx_chunks i) \<and> (is_done bm l k \<longrightarrow> was_tried l k)) \<and>
     (\<forall>k. touches i off n k \<longrightarrow> k \<in> set ks \<or> is_null i l k \<or> is_done bm l k)"
| "read_ok E bm i D l ((off, n), ToRead) \<longleftrightarrow> (\<forall>k. touches i off n k \<longrightarrow> is_null i l k \<or> is_done bm l k)"
| "read_ok E bm i D l ((off, n), Finished r) \<longleftrightarrow> read_answer E D off n r"

definition sparse_inv :: "(nat \<times> go_error) set \<Rightarrow> bitmap_fns \<Rightarrow> Index \<Rightarrow> bytes \<Rightarrow> 's SparseFile \<Rightarrow> bool" where
  "sparse_inv E bm i D sf \<longleftrightarrow>
     loader_ok bm i D (sf_loader sf) (sf_disk sf) \<and> (\<forall>f. Some f \<in> set (dk_read (sf_disk sf)) \<longrightarrow> f \<in> E) \<and>
     ((\<exists>k. failed_chunk bm (sf_loader sf) k) \<or>
      (\<forall>((off, n), p) \<in> set (sf_reads sf). plain_read D off n \<longrightarrow> read_ok E bm i D (sf_loader sf) ((off, n), p)))"

lemma read_ok_mono:
  assumes "read_ok E bm i D l r" "sl_nullChunk l' = sl_nullChunk l" "\<And>k. k < length (idx_chunks i) \<Longrightarrow> is_done bm l k \<Longrightarrow> is_done bm l' k"
    and "\<And>k. k < length (idx_chunks i) \<Longrightarrow> was_tried l k \<Longrightarrow> was_tried l' k"
    and "\<And>k. k < length (idx_chunks i) \<Longrightarrow> is_done bm l' k \<Longrightarrow> is_done bm l k \<or> was_tried l' k"
  shows "read_ok E bm i D l' r"
  using assms by (induction E bm i D l r rule: read_ok.induct) (auto simp: is_null_def touches_def; blast)+

lemma bitmap_set:
  assumes "bitmap_ok bm" "k < 8 * length b" "j < 8 * length b"
  shows "bm_Get bm (bm_Set bm b k True) (int j) = (if j = k then Ok True else bm_Get bm b (int j))"
  using assms unfolding bitmap_ok_def by blast

lemma chunks_needed_spec:
  assumes "bitmap_ok bm" "chunks_of l = idx_chunks i" "length (sl_chunks l) \<le> 8 * length (sl_done l)"
    and "\<forall>j \<in> set js. 0 \<le> j \<and> j < int (length (idx_chunks i))"
  shows "\<exists>ks. chunks_needed bm l js = Ok ks \<and> (\<forall>k \<in> set ks. k < length (idx_chunks i) \<and> \<not> is_done bm l k) \<and>
    (\<forall>k. int k \<in> set js \<longrightarrow> k \<in> set ks \<or> is_null i l k \<or> is_done bm l k)"
  using assms(4)
proof (induction js)
  case (Cons j js)
  then obtain ks where ks: "chunks_needed bm l js = Ok ks" "\<forall>k \<in> set ks. k < length (idx_chunks i) \<and> \<not> is_done bm l k"
    "\<forall>k. int k \<in> set js \<longrightarrow> k \<in> set ks \<or> is_null i l k \<or> is_done bm l k" by auto
  have len: "length (sl_chunks l) = length (idx_chunks i)" using assms(2) by (metis length_map)
  have j: "0 \<le> j" "j < int (length (idx_chunks i))" "int (nat j) = j" using Cons.prems by auto
  have "nat j < 8 * length (sl_done l)" using j assms(3) len by linarith
  then obtain v where v: "bm_Get bm (sl_done l) j = Ok v" using assms(1) j unfolding bitmap_ok_def by metis
  have nth: "sic_chunk (sl_chunks l ! nat j) = idx_chunks i ! nat j"
    using j len assms(2) by (metis nat_less_iff nth_map)
  show ?case
    using ks v j nth len by (cases v) (auto simp: is_done_def is_null_def)
qed simp

lemma range_needed_spec:
  assumes "bitmap_ok bm" "describes cr i D" "chunks_of l = idx_chunks i" "length (sl_chunks l) \<le> 8 * length (sl_done l)" "plain_read D off n"
  shows "\<exists>ks. range_needed bm l off (int n) = Ok ks \<and> read_ok E bm i D l ((off, n), ToLoad ks)"
proof -
  obtain a b where ab: "indexRange l off (int n) = (a, b)" by fastforce
  note r = indexRange_covers[OF assms(2,3,5) ab]
  obtain ks where "chunks_needed bm l [a..b] = Ok ks" "\<forall>k \<in> set ks. k < length (idx_chunks i) \<and> \<not> is_done bm l k"
    "\<forall>k. int k \<in> set [a..b] \<longrightarrow> k \<in> set ks \<or> is_null i l k \<or> is_done bm l k"
    using chunks_needed_spec[OF assms(1,3,4), of "[a..b]"] r(1,2) by auto
  then show ?thesis using r(3) ab by (auto simp: range_needed_def)
qed

lemma loadChunk_reads: "loadChunk cr get bm k l dk = (r, l', dk') \<Longrightarrow> dk_read dk' = dk_read dk"
  by (auto simp: loadChunk_def fetch_chunk_def open_disk_def Let_def
      split: if_splits prod.splits res.splits list.splits option.splits)

context verified_store begin

text \<open>The bytes that are written are those of the blob, also when the write is cut short.\<close>

lemma fetched_bytes:
  assumes "describes cr i D" "k < length (idx_chunks i)" "get s (ic_id (idx_chunks i ! k)) = (Ok ch, s')"
  shows "fst (Chunk_Data cr ch) = Ok (chunk_bytes D (idx_chunks i ! k))"
proof -
  note c = describes_chunk[OF assms(1,2)]
  obtain b where "fst (Chunk_Data cr ch) = Ok b" "Digest_Sum cr b = ic_id (idx_chunks i ! k)"
    using get_genuine[OF assms(3)] c(9) by (auto simp: genuine_def chunk_valid_def)
  then show ?thesis using c(10) by simp
qed

lemma fetch_chunk_ok:
  assumes bm: "bitmap_ok bm" and d: "describes cr i D" and ok: "loader_ok bm i D l dk" and k: "k < length (idx_chunks i)"
    and r: "fetch_chunk cr get bm k l dk = (r, l', dk')"
  shows "loader_ok bm i D l' dk'" "map sic_once (sl_chunks l') = map sic_once (sl_chunks l)" "sl_nullChunk l' = sl_nullChunk l"
    "\<And>j. j < length (idx_chunks i) \<Longrightarrow> is_done bm l' j = (is_done bm l j \<or> (j = k \<and> r = Ok ()))"
    "\<And>p. p < length D \<Longrightarrow> p < lo i k \<or> lo i k + sz i k \<le> p \<Longrightarrow> tf_data (dk_file dk') ! p = tf_data (dk_file dk) ! p"
proof -
  let ?c = "idx_chunks i ! k" and ?F = "tf_data (dk_file dk)"
  have cs: "chunks_of l = idx_chunks i" and lenF: "length ?F = length D" and lend: "length (sl_chunks l) \<le> 8 * length (sl_done l)"
    and fil: "\<And>j. j < length (idx_chunks i) \<Longrightarrow> is_null i l j \<or> is_done bm l j \<Longrightarrow> filled i D ?F j"
    using ok unfolding loader_ok_def by blast+
  have len: "length (sl_chunks l) = length (idx_chunks i)" using cs by (metis length_map)
  have c: "sic_chunk (sl_chunks l ! k) = ?c" using k len cs by (metis nth_map)
  obtain g s where g: "get (sl_s l) (ic_id ?c) = (g, s)" by fastforce
  obtain oe dk1 where o: "open_disk dk = (oe, dk1)" "dk_file dk1 = dk_file dk"
    by (cases "dk_open dk") (auto simp: open_disk_def)
  obtain n we f where w: "file_WriteAt (dk_file dk) (ic_start ?c) (chunk_bytes D ?c) = (n, we, f)" by (metis prod.collapse)
  have start: "\<not> sint (ic_start ?c) < 0"
  proof -
    have "unat (ic_start ?c) < 2 ^ 63" using chunk_limit_eq(2)[OF d k] d by (simp add: lo_def describes_def)
    then show ?thesis by (simp add: sint_small_u64)
  qed
  have size: "length (chunk_bytes D ?c) = sz i k"
    using chunk_limit_eq(2)[OF d k] by (simp add: chunk_bytes_def lo_def sz_def)
  obtain m where m: "tf_data f = write_at ?F (lo i k) (take m (chunk_bytes D ?c))" "we = None \<Longrightarrow> sz i k \<le> m"
    using w start size that[of "sz i k"] by (auto simp: file_WriteAt_def lo_def split: list.splits option.splits)
  note wp = write_prefix[OF d k lenF m(1)]
  have good: "loader_ok bm i D (l\<lparr>sl_s := s\<rparr>) dk2" if "dk_file dk2 = dk_file dk \<or> dk_file dk2 = f" for dk2
    using that cs lenF lend fil wp(1,2) by (auto simp: loader_ok_def is_null_def is_done_def)
  have dn: "is_done bm (l\<lparr>sl_s := s, sl_done := bm_Set bm (sl_done l) k True\<rparr>) j = (is_done bm l j \<or> j = k)" if "j < length (idx_chunks i)" for j
    using bitmap_set[OF bm, of k "sl_done l" j] that k len lend by (auto simp: is_done_def)
  have len': "length (bm_Set bm (sl_done l) k True) = length (sl_done l)" using bm by (simp add: bitmap_ok_def)
  have final: "loader_ok bm i D (l\<lparr>sl_s := s, sl_done := bm_Set bm (sl_done l) k True\<rparr>) dk2" if "dk_file dk2 = f" "we = None" for dk2
    using cs lend fil wp m(2) dn len' that by (auto simp: loader_ok_def is_null_def)
  have "(r, l', dk') = (r, l\<lparr>sl_s := s\<rparr>, dk') \<and> r \<noteq> Ok () \<and> (dk_file dk' = dk_file dk \<or> dk_file dk' = f) \<or>
      (r, l', dk') = (Ok (), l\<lparr>sl_s := s, sl_done := bm_Set bm (sl_done l) k True\<rparr>, dk') \<and> dk_file dk' = f \<and> we = None"
  proof (cases g)
    case (Ok ch)
    then show ?thesis
      using r g o w fetched_bytes[OF d k g[unfolded Ok]] by (auto simp: fetch_chunk_def c Let_def split: option.splits)
  qed (use r g in \<open>auto simp: fetch_chunk_def c Let_def\<close>)
  then consider (err) "l' = l\<lparr>sl_s := s\<rparr>" "r \<noteq> Ok ()" "dk_file dk' = dk_file dk \<or> dk_file dk' = f"
    | (fin) "r = Ok ()" "l' = l\<lparr>sl_s := s, sl_done := bm_Set bm (sl_done l) k True\<rparr>" "dk_file dk' = f" "we = None" by blast
  then have "loader_ok bm i D l' dk' \<and> sl_chunks l' = sl_chunks l \<and> sl_nullChunk l' = sl_nullChunk l \<and>
      (\<forall>j. j < length (idx_chunks i) \<longrightarrow> is_done bm l' j = (is_done bm l j \<or> (j = k \<and> r = Ok ()))) \<and>
      (\<forall>p. p < length D \<longrightarrow> p < lo i k \<or> lo i k + sz i k \<le> p \<longrightarrow> tf_data (dk_file dk') ! p = ?F ! p)"
  proof cases
    case err
    then show ?thesis using good wp(4) by (auto simp: is_done_def)
  next
    case fin
    then show ?thesis using final dn wp(4) by simp
  qed
  then show "loader_ok bm i D l' dk'" "map sic_once (sl_chunks l') = map sic_once (sl_chunks l)" "sl_nullChunk l' = sl_nullChunk l"
    "\<And>j. j < length (idx_chunks i) \<Longrightarrow> is_done bm l' j = (is_done bm l j \<or> (j = k \<and> r = Ok ()))"
    "\<And>p. p < length D \<Longrightarrow> p < lo i k \<or> lo i k + sz i k \<le> p \<Longrightarrow> tf_data (dk_file dk') ! p = ?F ! p" by auto
qed

lemma loadChunk_ok:
  assumes bm: "bitmap_ok bm" and d: "describes cr i D" and ok: "loader_ok bm i D l dk"
    and r: "loadChunk cr get bm k l dk = (r, l', dk')"
  shows "loader_ok bm i D l' dk'" "sl_nullChunk l' = sl_nullChunk l"
    "j < length (idx_chunks i) \<Longrightarrow> is_done bm l j \<Longrightarrow> is_done bm l' j"
    "failed_chunk bm l j \<Longrightarrow> failed_chunk bm l' j"
    "k < length (idx_chunks i) \<Longrightarrow> is_done bm l k \<longrightarrow> was_tried l k \<Longrightarrow> failed_chunk bm l' k \<or> (r = Ok () \<and> is_done bm l' k)"
    "j < length (idx_chunks i) \<Longrightarrow> was_tried l j \<Longrightarrow> was_tried l' j"
    "j < length (idx_chunks i) \<Longrightarrow> is_done bm l' j \<Longrightarrow> is_done bm l j \<or> was_tried l' j"
    "p < length D \<Longrightarrow> was_tried l k \<or> k \<ge> length (idx_chunks i) \<or> p < lo i k \<or> lo i k + sz i k \<le> p \<Longrightarrow>
      tf_data (dk_file dk') ! p = tf_data (dk_file dk) ! p"
    "k < length (idx_chunks i) \<Longrightarrow> was_tried l' k"
proof -
  have cs: "chunks_of l = idx_chunks i" using ok by (simp add: loader_ok_def)
  have len: "length (sl_chunks l) = length (idx_chunks i)" using cs by (metis length_map)
  have all: "loader_ok bm i D l' dk' \<and> sl_nullChunk l' = sl_nullChunk l \<and>
      (\<forall>j. j < length (idx_chunks i) \<longrightarrow> is_done bm l j \<longrightarrow> is_done bm l' j) \<and>
      (\<forall>j. failed_chunk bm l j \<longrightarrow> failed_chunk bm l' j) \<and>
      (k < length (idx_chunks i) \<longrightarrow> (is_done bm l k \<longrightarrow> was_tried l k) \<longrightarrow> failed_chunk bm l' k \<or> (r = Ok () \<and> is_done bm l' k)) \<and>
      (\<forall>j. j < length (idx_chunks i) \<longrightarrow> was_tried l j \<longrightarrow> was_tried l' j) \<and>
      (\<forall>j. j < length (idx_chunks i) \<longrightarrow> is_done bm l' j \<longrightarrow> is_done bm l j \<or> was_tried l' j) \<and>
      (\<forall>p. p < length D \<longrightarrow> was_tried l k \<or> k \<ge> length (idx_chunks i) \<or> p < lo i k \<or> lo i k + sz i k \<le> p \<longrightarrow>
        tf_data (dk_file dk') ! p = tf_data (dk_file dk) ! p) \<and>
      (k < length (idx_chunks i) \<longrightarrow> was_tried l' k)"
  proof (cases "k < length (idx_chunks i) \<and> \<not> was_tried l k")
    case False
    then show ?thesis using r ok len by (auto simp: loadChunk_def failed_chunk_def was_tried_def split: if_splits)
  next
    case True
    let ?l = "l\<lparr>sl_chunks := (sl_chunks l)[k := (sl_chunks l ! k)\<lparr>sic_once := True\<rparr>]\<rparr>"
    have f: "fetch_chunk cr get bm k ?l dk = (r, l', dk')" using r True len by (simp add: loadChunk_def was_tried_def)
    have cs': "chunks_of ?l = chunks_of l"
      using True len by (auto simp: map_update list_update_same_conv)
    have ok': "loader_ok bm i D ?l dk"
      using ok cs' unfolding loader_ok_def is_null_def is_done_def by simp
    note fo = fetch_chunk_ok[OF bm d ok' _ f]
    have k: "k < length (idx_chunks i)" using True by simp
    have len': "length (sl_chunks l') = length (sl_chunks l)" using arg_cong[OF fo(2)[OF k], of length] by simp
    have tried: "was_tried l' j = (was_tried l j \<or> j = k)" if "j < length (idx_chunks i)" for j
      using arg_cong[OF fo(2)[OF k], of "\<lambda>x. x ! j"] that len' k len by (auto simp: was_tried_def nth_list_update)
    have dn: "is_done bm l' j = (is_done bm l j \<or> (j = k \<and> r = Ok ()))" if "j < length (idx_chunks i)" for j
      using fo(4)[OF k that] by (simp add: is_done_def)
    show ?thesis
      using fo(1,3)[OF k] fo(5)[OF k] tried dn len len' True k by (auto simp: failed_chunk_def)
  qed
  show "loader_ok bm i D l' dk'" "sl_nullChunk l' = sl_nullChunk l"
    "j < length (idx_chunks i) \<Longrightarrow> is_done bm l j \<Longrightarrow> is_done bm l' j"
    "failed_chunk bm l j \<Longrightarrow> failed_chunk bm l' j"
    "k < length (idx_chunks i) \<Longrightarrow> is_done bm l k \<longrightarrow> was_tried l k \<Longrightarrow> failed_chunk bm l' k \<or> (r = Ok () \<and> is_done bm l' k)"
    "j < length (idx_chunks i) \<Longrightarrow> was_tried l j \<Longrightarrow> was_tried l' j"
    "j < length (idx_chunks i) \<Longrightarrow> is_done bm l' j \<Longrightarrow> is_done bm l j \<or> was_tried l' j"
    "p < length D \<Longrightarrow> was_tried l k \<or> k \<ge> length (idx_chunks i) \<or> p < lo i k \<or> lo i k + sz i k \<le> p \<Longrightarrow>
      tf_data (dk_file dk') ! p = tf_data (dk_file dk) ! p"
    "k < length (idx_chunks i) \<Longrightarrow> was_tried l' k"
    using all by blast+
qed

lemma read_step_inv:
  assumes bm: "bitmap_ok bm" and d: "describes cr i D" and iv: "sparse_inv E bm i D sf" and k: "k < length (sf_reads sf)"
    and st: "read_step cr get bm k sf = Some sf'"
  shows "sparse_inv E bm i D sf'"
proof -
  obtain off n p where p: "sf_reads sf ! k = ((off, n), p)" by (metis prod.collapse)
  let ?l = "sf_loader sf" and ?dk = "sf_disk sf"
  have lo: "loader_ok bm i D ?l ?dk" using iv by (simp add: sparse_inv_def)
  have L: "chunks_of ?l = idx_chunks i" "length (tf_data (dk_file ?dk)) = length D" "length (sl_chunks ?l) \<le> 8 * length (sl_done ?l)"
    "\<And>j. j < length (idx_chunks i) \<Longrightarrow> is_null i ?l j \<or> is_done bm ?l j \<Longrightarrow> filled i D (tf_data (dk_file ?dk)) j"
    using lo unfolding loader_ok_def by blast+
  have goal: "sparse_inv E bm i D (set_read k q (sf\<lparr>sf_loader := l', sf_disk := dk'\<rparr>))"
    if "loader_ok bm i D l' dk'" "set (dk_read dk') \<subseteq> set (dk_read ?dk)" "sl_nullChunk l' = sl_nullChunk ?l"
      "\<And>j. j < length (idx_chunks i) \<Longrightarrow> is_done bm ?l j \<Longrightarrow> is_done bm l' j"
      "\<And>j. failed_chunk bm ?l j \<Longrightarrow> failed_chunk bm l' j"
      "\<And>j. j < length (idx_chunks i) \<Longrightarrow> was_tried ?l j \<Longrightarrow> was_tried l' j"
      "\<And>j. j < length (idx_chunks i) \<Longrightarrow> is_done bm l' j \<Longrightarrow> is_done bm ?l j \<or> was_tried l' j"
      "\<nexists>j. failed_chunk bm l' j \<Longrightarrow> plain_read D off n \<Longrightarrow> read_ok E bm i D ?l ((off, n), p) \<Longrightarrow> read_ok E bm i D l' ((off, n), q)"
    for l' dk' q
  proof (cases "\<exists>j. failed_chunk bm l' j")
    case False
    then have old: "\<forall>((off, n), p) \<in> set (sf_reads sf). plain_read D off n \<longrightarrow> read_ok E bm i D ?l ((off, n), p)"
      using iv that(5) by (auto simp: sparse_inv_def)
    have "plain_read D off' n' \<longrightarrow> read_ok E bm i D l' ((off', n'), p')"
      if m: "((off', n'), p') \<in> set ((sf_reads sf)[k := ((off, n), q)])" for off' n' p'
    proof -
      have "((off', n'), p') = ((off, n), q) \<or> ((off', n'), p') \<in> set (sf_reads sf)"
        using set_update_subset_insert[of "sf_reads sf" k "((off, n), q)"] m by blast
      moreover have "((off, n), p) \<in> set (sf_reads sf)" using k p by (metis nth_mem)
      ultimately show ?thesis
        using old \<open>\<nexists>j. failed_chunk bm l' j \<Longrightarrow> plain_read D off n \<Longrightarrow> read_ok E bm i D ?l ((off, n), p) \<Longrightarrow> read_ok E bm i D l' ((off, n), q)\<close> False
          read_ok_mono[OF _ \<open>sl_nullChunk l' = sl_nullChunk ?l\<close> \<open>\<And>j. j < length (idx_chunks i) \<Longrightarrow> is_done bm ?l j \<Longrightarrow> is_done bm l' j\<close>
            \<open>\<And>j. j < length (idx_chunks i) \<Longrightarrow> was_tried ?l j \<Longrightarrow> was_tried l' j\<close>
            \<open>\<And>j. j < length (idx_chunks i) \<Longrightarrow> is_done bm l' j \<Longrightarrow> is_done bm ?l j \<or> was_tried l' j\<close>]
        by blast
    qed
    then show ?thesis using that(1,2) iv p by (auto simp: sparse_inv_def set_read_def)
  qed (use that(1,2) iv in \<open>auto simp: sparse_inv_def set_read_def\<close>)
  have same: "sparse_inv E bm i D (set_read k q sf)"
    if "plain_read D off n \<Longrightarrow> read_ok E bm i D ?l ((off, n), p) \<Longrightarrow> read_ok E bm i D ?l ((off, n), q)" for q
    using goal[OF lo subset_refl refl _ _ _ _ that] by simp
  show ?thesis
  proof (cases p)
    case ToRange
    then show ?thesis
      using st p range_needed_spec[OF bm d L(1,3), of off n] by (auto simp: read_step_def intro!: same)
  next
    case (ToLoad ks)
    show ?thesis
    proof (cases ks)
      case Nil
      then show ?thesis using st p ToLoad by (auto simp: read_step_def intro!: same)
    next
      case (Cons j js)
      obtain r l' dk' where ld: "loadChunk cr get bm j ?l ?dk = (r, l', dk')" by (metis prod.collapse)
      note lc = loadChunk_ok[OF bm d lo ld]
      have sf': "sf' = set_read k (case r of Ok _ \<Rightarrow> ToLoad js | Err e \<Rightarrow> Finished (Ok ([], Some e)) | Panic x \<Rightarrow> Finished (Panic x))
          (sf\<lparr>sf_loader := l', sf_disk := dk'\<rparr>)"
        using st p ToLoad Cons ld by (simp add: read_step_def)
      show ?thesis unfolding sf'
      proof (rule goal[OF lc(1) _ lc(2-4,6,7)])
        show "set (dk_read dk') \<subseteq> set (dk_read ?dk)" using loadChunk_reads[OF ld] by simp
      next
        assume nf: "\<nexists>j. failed_chunk bm l' j" and ro: "read_ok E bm i D ?l ((off, n), p)"
        have j: "j < length (idx_chunks i)" "is_done bm ?l j \<longrightarrow> was_tried ?l j" using ro ToLoad Cons by simp_all
        have "r = Ok ()" "is_done bm l' j" using lc(5)[OF j] nf by blast+
        moreover have "read_ok E bm i D l' ((off, n), p)" using read_ok_mono[OF ro lc(2,3,6,7)] .
        ultimately show "read_ok E bm i D l' ((off, n), case r of Ok _ \<Rightarrow> ToLoad js | Err e \<Rightarrow> Finished (Ok ([], Some e)) | Panic x \<Rightarrow> Finished (Panic x))"
          using ToLoad Cons by auto
      qed
    qed
  next
    case ToRead
    have same_bytes: "file_ReadAt (tf_data (dk_file ?dk)) off n = file_ReadAt D off n"
      if "plain_read D off n" "read_ok E bm i D ?l ((off, n), p)"
      by (rule filled_range[OF d L(2)]) (use that ToRead L(4) in \<open>auto simp: plain_read_def touches_def\<close>)
    obtain x dk' where x: "read_disk ?dk off n = (x, dk')" by fastforce
    have dk': "loader_ok bm i D ?l dk'" "set (dk_read dk') \<subseteq> set (dk_read ?dk)"
      using x lo by (auto simp: read_disk_def Let_def loader_ok_def split: list.splits option.splits)
    have E: "\<forall>f. Some f \<in> set (dk_read ?dk) \<longrightarrow> f \<in> E" using iv by (simp add: sparse_inv_def)
    have "sf' = set_read k (Finished (Ok x)) (sf\<lparr>sf_loader := ?l, sf_disk := dk'\<rparr>)"
      using st p ToRead x by (simp add: read_step_def)
    moreover have "read_ok E bm i D ?l ((off, n), Finished (Ok x))"
      if "plain_read D off n" "read_ok E bm i D ?l ((off, n), p)"
      using x same_bytes[OF that] E by (auto simp: read_disk_def Let_def read_answer_def split: list.splits option.splits)
    ultimately show ?thesis using goal[OF dk' refl] by simp
  qed (use st p in \<open>simp add: read_step_def\<close>)
qed

lemma preload_step_inv:
  assumes bm: "bitmap_ok bm" and d: "describes cr i D" and iv: "sparse_inv E bm i D sf"
  shows "sparse_inv E bm i D (preload_step cr get bm k sf)"
proof -
  obtain r l' dk' where ld: "loadChunk cr get bm (sf_preload sf ! k) (sf_loader sf) (sf_disk sf) = (r, l', dk')" by (metis prod.collapse)
  have "loader_ok bm i D (sf_loader sf) (sf_disk sf)" using iv by (simp add: sparse_inv_def)
  note lc = loadChunk_ok[OF bm d this ld]
  have "read_ok E bm i D (sf_loader sf) x \<Longrightarrow> read_ok E bm i D l' x" for x by (rule read_ok_mono[OF _ lc(2,3,6,7)])
  then show ?thesis
    using iv lc(1,4) ld loadChunk_reads[OF ld] by (fastforce simp: sparse_inv_def preload_step_def)
qed

lemma sparse_run_inv:
  assumes "bitmap_ok bm" "describes cr i D" "sparse_run cr get bm sf sf'" "sparse_inv E bm i D sf"
  shows "sparse_inv E bm i D sf'"
  using assms(3,4)
proof (induction rule: sparse_run.induct)
  case (begin_read sf sf' off n)
  then show ?case by (auto simp: sparse_inv_def begin_ReadAt_def)
next
  case (read_on sf sf' k sf'')
  then show ?case using read_step_inv[OF assms(1,2)] by blast
next
  case (preload_one sf sf' k)
  then show ?case using preload_step_inv[OF assms(1,2)] by blast
qed

end

section \<open>A chunk that failed to load\<close>

lemma read_step_state:
  assumes "read_step cr get bm k sf = Some sf'"
  obtains (load) j r where "loadChunk cr get bm j (sf_loader sf) (sf_disk sf) = (r, sf_loader sf', sf_disk sf')"
  | (still) "sf_loader sf' = sf_loader sf" "dk_file (sf_disk sf') = dk_file (sf_disk sf)"
  using assms
  by (auto simp: read_step_def set_read_def read_disk_def Let_def
      split: prod.splits read_progress.splits list.splits option.splits)

text \<open>What every load keeps, a run keeps.\<close>

lemma sparse_run_loads:
  assumes "sparse_run cr get bm sf sf'" "P (sf_loader sf) (sf_disk sf)" "\<And>l d d'. P l d \<Longrightarrow> dk_file d' = dk_file d \<Longrightarrow> P l d'"
    "\<And>j l dk r l' dk'. P l dk \<Longrightarrow> loadChunk cr get bm j l dk = (r, l', dk') \<Longrightarrow> P l' dk'"
  shows "P (sf_loader sf') (sf_disk sf')"
  using assms(1,2)
proof (induction rule: sparse_run.induct)
  case (read_on sf sf' k sf'')
  have old: "P (sf_loader sf') (sf_disk sf')" by (rule read_on.IH) (rule read_on.prems)
  from read_on(3) show ?case
  proof (cases rule: read_step_state)
    case load
    then show ?thesis using assms(4)[OF old] by blast
  next
    case still
    then show ?thesis using assms(3)[OF old] by simp
  qed
next
  case (preload_one sf sf' k)
  have old: "P (sf_loader sf') (sf_disk sf')" by (rule preload_one.IH) (rule preload_one.prems)
  show ?case using assms(4)[OF old] by (auto simp: preload_step_def split: prod.splits)
qed (simp_all add: begin_ReadAt_def)

lemma read_step_reads: "read_step cr get bm k sf = Some sf' \<Longrightarrow> dk_read (sf_disk sf) = [] \<Longrightarrow> dk_read (sf_disk sf') = []"
  by (auto simp: read_step_def set_read_def read_disk_def Let_def dest!: loadChunk_reads
      split: prod.splits read_progress.splits list.splits)

lemma sparse_run_reads:
  "sparse_run cr get bm sf sf' \<Longrightarrow> dk_read (sf_disk sf) = [] \<Longrightarrow> dk_read (sf_disk sf') = []"
proof (induction rule: sparse_run.induct)
  case (preload_one sf sf' k)
  then show ?case by (auto simp: preload_step_def dest!: loadChunk_reads split: prod.splits)
qed (auto simp: begin_ReadAt_def dest: read_step_reads)

definition blank_at :: "Index \<Rightarrow> bytes \<Rightarrow> nat \<Rightarrow> bool" where
  "blank_at i F k \<longleftrightarrow> (\<forall>p. lo i k \<le> p \<longrightarrow> p < lo i k + sz i k \<longrightarrow> F ! p = 0)"

text \<open>In a file that was blank the chunks that nobody tried to load are blank; a chunk may stay so for ever.\<close>

definition fresh :: "bitmap_fns \<Rightarrow> Index \<Rightarrow> bytes \<Rightarrow> 's sparseFileLoader \<Rightarrow> disk \<Rightarrow> bool" where
  "fresh bm i D l d \<longleftrightarrow> loader_ok bm i D l d \<and>
     (\<forall>k < length (idx_chunks i). (is_done bm l k \<longrightarrow> was_tried l k) \<and> (\<not> was_tried l k \<longrightarrow> blank_at i (tf_data (dk_file d)) k))"

definition given_up :: "bitmap_fns \<Rightarrow> Index \<Rightarrow> bytes \<Rightarrow> nat \<Rightarrow> 's sparseFileLoader \<Rightarrow> disk \<Rightarrow> bool" where
  "given_up bm i D k l d \<longleftrightarrow> loader_ok bm i D l d \<and> k < length (idx_chunks i) \<and> failed_chunk bm l k \<and> blank_at i (tf_data (dk_file d)) k"

text \<open>The way of a read inside such a chunk.\<close>

definition inside :: "Index \<Rightarrow> nat \<Rightarrow> int \<Rightarrow> nat \<Rightarrow> bool" where
  "inside i k off n \<longleftrightarrow> 0 < n \<and> int (lo i k) \<le> off \<and> off + int n \<le> int (lo i k + sz i k)"

definition blank_read :: "nat \<Rightarrow> nat \<Rightarrow> read_progress \<Rightarrow> bool" where
  "blank_read k n p \<longleftrightarrow> p \<in> {ToRange, ToLoad [k], ToLoad [], ToRead, Finished (Ok (replicate n 0, None))}"

definition late_reads :: "Index \<Rightarrow> nat \<Rightarrow> nat \<Rightarrow> 's SparseFile \<Rightarrow> bool" where
  "late_reads i k m sf \<longleftrightarrow> dk_read (sf_disk sf) = [] \<and> m \<le> length (sf_reads sf) \<and>
     (\<forall>j off n p. m \<le> j \<and> j < length (sf_reads sf) \<and> sf_reads sf ! j = ((off, n), p) \<and> inside i k off n \<longrightarrow> blank_read k n p)"

lemma blank_ReadAt:
  assumes "describes cr i D" "k < length (idx_chunks i)" "length F = length D" "blank_at i F k" "inside i k off n"
  shows "file_ReadAt F off n = (replicate n 0, None)"
proof -
  have le: "lo i k + sz i k \<le> length F" "lo i k \<le> nat off" "nat off + n \<le> lo i k + sz i k" "0 \<le> off"
    using chunk_limit_eq(2)[OF assms(1,2)] assms(3,5) by (auto simp: inside_def)
  then have "take n (drop (nat off) F) = replicate n 0"
    using assms(4) by (intro nth_equalityI) (auto simp: blank_at_def)
  then show ?thesis using le by (simp add: file_ReadAt_def)
qed

lemma range_needed_given_up:
  assumes "bitmap_ok bm" "describes cr i D" "given_up bm i D k l d" "inside i k off n"
  shows "range_needed bm l off (int n) \<in> {Ok [], Ok [k]}"
proof -
  have l: "chunks_of l = idx_chunks i" "length (sl_chunks l) \<le> 8 * length (sl_done l)" and k: "k < length (idx_chunks i)" "\<not> is_done bm l k"
    using assms(3) unfolding given_up_def loader_ok_def failed_chunk_def by blast+
  have len: "length (sl_chunks l) = length (idx_chunks i)" using l(1) by (metis length_map)
  obtain v where "bm_Get bm (sl_done l) (int k) = Ok v"
    using assms(1) l(2) k(1) len unfolding bitmap_ok_def by (metis less_le_trans)
  then have "bm_Get bm (sl_done l) (int k) = Ok False" using k(2) by (cases v) (auto simp: is_done_def)
  moreover have "indexRange l off (int n) = (int k, int k)"
    using indexRange_single[OF assms(2) l(1) k(1)] assms(4) by (simp add: inside_def)
  ultimately show ?thesis using k(1) len by (simp add: range_needed_def)
qed

context verified_store begin

lemma load_elsewhere:
  assumes "bitmap_ok bm" "describes cr i D" "loader_ok bm i D l dk" "loadChunk cr get bm j l dk = (r, l', dk')"
    "k < length (idx_chunks i)" "was_tried l k \<or> \<not> was_tried l' k" "blank_at i (tf_data (dk_file dk)) k"
  shows "blank_at i (tf_data (dk_file dk')) k"
proof -
  note lc = loadChunk_ok[OF assms(1-4)]
  have "was_tried l j \<or> j \<ge> length (idx_chunks i) \<or> p < lo i j \<or> lo i j + sz i j \<le> p" if p: "lo i k \<le> p" "p < lo i k + sz i k" for p
  proof (cases "j < length (idx_chunks i) \<and> j \<noteq> k")
    case True
    then show ?thesis using describes_order[OF assms(2), of j k] describes_order[OF assms(2), of k j] assms(5) p by linarith
  next
    case False
    then show ?thesis using assms(6) lc(9) assms(5) by auto
  qed
  moreover have "p < length D" if "p < lo i k + sz i k" for p using that chunk_limit_eq(2)[OF assms(2,5)] by simp
  ultimately show ?thesis using lc(8) assms(7) by (auto simp: blank_at_def)
qed

lemma fresh_load:
  assumes "bitmap_ok bm" "describes cr i D" "fresh bm i D l dk" "loadChunk cr get bm j l dk = (r, l', dk')"
  shows "fresh bm i D l' dk'"
proof -
  have lo: "loader_ok bm i D l dk" using assms(3) by (simp add: fresh_def)
  note lc = loadChunk_ok[OF assms(1,2) lo assms(4)]
  show ?thesis using assms(3) lc(1,6,7) load_elsewhere[OF assms(1,2) lo assms(4)] unfolding fresh_def by blast
qed

lemma run_fresh:
  assumes "bitmap_ok bm" "describes cr i D" "sparse_run cr get bm sf sf'" "fresh bm i D (sf_loader sf) (sf_disk sf)"
  shows "fresh bm i D (sf_loader sf') (sf_disk sf')"
proof (rule sparse_run_loads[where P = "fresh bm i D", OF assms(3,4)])
  show "fresh bm i D l d \<Longrightarrow> dk_file d' = dk_file d \<Longrightarrow> fresh bm i D l d'" for l d d'
    by (simp add: fresh_def loader_ok_def)
qed (rule fresh_load[OF assms(1,2)])

text \<open>A request to the store that fails ends the read with its error, and leaves the chunk blank and given up.\<close>

lemma failing_step:
  assumes "bitmap_ok bm" "describes cr i D" "fresh bm i D (sf_loader sf) (sf_disk sf)" "k < length (idx_chunks i)"
    "h < length (sf_reads sf)" "sf_reads sf ! h = (q, ToLoad (k # ks))" "\<not> was_tried (sf_loader sf) k"
    "get (sl_s (sf_loader sf)) (ic_id (idx_chunks i ! k)) = (Err e, s')" "read_step cr get bm h sf = Some sf'"
  shows "sf_reads sf' ! h = (q, Finished (Ok ([], Some e)))" "given_up bm i D k (sf_loader sf') (sf_disk sf')" "sf_disk sf' = sf_disk sf"
proof -
  let ?l = "sf_loader sf" and ?dk = "sf_disk sf"
  have lo: "loader_ok bm i D ?l ?dk" and cs: "chunks_of ?l = idx_chunks i"
    and bl: "\<not> is_done bm ?l k" "blank_at i (tf_data (dk_file ?dk)) k"
    using assms(3,4,7) unfolding fresh_def loader_ok_def by blast+
  have len: "length (sl_chunks ?l) = length (idx_chunks i)" using cs by (metis length_map)
  have c: "sic_chunk (sl_chunks ?l ! k) = idx_chunks i ! k" using assms(4) len cs by (metis nth_map)
  obtain l' where ld: "loadChunk cr get bm k ?l ?dk = (Err e, l', ?dk)" and l': "sl_done l' = sl_done ?l"
    using assms(4,7,8) len by (auto simp: loadChunk_def was_tried_def fetch_chunk_def c Let_def)
  note lc = loadChunk_ok[OF assms(1,2) lo ld]
  have sf': "sf' = set_read h (Finished (Ok ([], Some e))) (sf\<lparr>sf_loader := l', sf_disk := ?dk\<rparr>)"
    using assms(6,9) ld by (cases q) (simp add: read_step_def)
  have "length (sl_chunks l') = length (idx_chunks i)" using lc(1) unfolding loader_ok_def by (metis length_map)
  then show "given_up bm i D k (sf_loader sf') (sf_disk sf')"
    using lc(1) lc(9)[OF assms(4)] bl l' assms(4) unfolding sf' by (simp add: given_up_def failed_chunk_def is_done_def set_read_def)
  show "sf_reads sf' ! h = (q, Finished (Ok ([], Some e)))" "sf_disk sf' = sf_disk sf"
    using assms(5,6) unfolding sf' by (simp_all add: set_read_def)
qed

lemma given_up_load:
  assumes "bitmap_ok bm" "describes cr i D" "given_up bm i D k l dk" "loadChunk cr get bm j l dk = (r, l', dk')"
  shows "given_up bm i D k l' dk'"
proof -
  have lo: "loader_ok bm i D l dk" using assms(3) by (simp add: given_up_def)
  note lc = loadChunk_ok[OF assms(1,2) lo assms(4)]
  show ?thesis using assms(3) lc(1,4) load_elsewhere[OF assms(1,2) lo assms(4)]
    unfolding given_up_def by (auto simp: failed_chunk_def)
qed

lemma run_given_up:
  assumes "bitmap_ok bm" "describes cr i D" "sparse_run cr get bm sf sf'" "given_up bm i D k (sf_loader sf) (sf_disk sf)"
  shows "given_up bm i D k (sf_loader sf') (sf_disk sf')"
proof (rule sparse_run_loads[where P = "given_up bm i D k", OF assms(3,4)])
  show "given_up bm i D k l d \<Longrightarrow> dk_file d' = dk_file d \<Longrightarrow> given_up bm i D k l d'" for l d d'
    by (simp add: given_up_def loader_ok_def)
qed (rule given_up_load[OF assms(1,2)])

lemma blank_step:
  assumes "bitmap_ok bm" "describes cr i D" "given_up bm i D k (sf_loader sf) (sf_disk sf)" "dk_read (sf_disk sf) = []"
    "h < length (sf_reads sf)" "sf_reads sf ! h = ((off, n), p)" "inside i k off n" "blank_read k n p" "read_step cr get bm h sf = Some sf'"
  shows "\<exists>p'. sf_reads sf' ! h = ((off, n), p') \<and> blank_read k n p'"
proof -
  have l: "chunks_of (sf_loader sf) = idx_chunks i" "length (tf_data (dk_file (sf_disk sf))) = length D" "k < length (idx_chunks i)"
    "was_tried (sf_loader sf) k" "blank_at i (tf_data (dk_file (sf_disk sf))) k"
    using assms(3) unfolding given_up_def loader_ok_def failed_chunk_def by blast+
  have "length (sl_chunks (sf_loader sf)) = length (idx_chunks i)" using l(1) by (metis length_map)
  then have load: "loadChunk cr get bm k (sf_loader sf) (sf_disk sf) = (Ok (), sf_loader sf, sf_disk sf)"
    using l(3,4) by (simp add: loadChunk_def was_tried_def)
  have rd: "read_disk (sf_disk sf) off n = ((replicate n 0, None), sf_disk sf)"
    using blank_ReadAt[OF assms(2) l(3,2,5) assms(7)] assms(4) by (simp add: read_disk_def)
  show ?thesis
    using assms(5,6,8,9) load rd range_needed_given_up[OF assms(1-3,7)]
    by (auto simp: blank_read_def read_step_def set_read_def)
qed

lemma run_late_reads:
  assumes "bitmap_ok bm" "describes cr i D" "sparse_run cr get bm sf sf'" "given_up bm i D k (sf_loader sf) (sf_disk sf)" "late_reads i k m sf"
  shows "late_reads i k m sf'"
  using assms(3-5)
proof (induction rule: sparse_run.induct)
  case (begin_read sf sf' off n)
  then show ?case by (auto simp: late_reads_def begin_ReadAt_def nth_append blank_read_def)
next
  case (read_on sf sf' h sf'')
  then have late: "late_reads i k m sf'" and up: "given_up bm i D k (sf_loader sf') (sf_disk sf')"
    using run_given_up[OF assms(1,2)] by blast+
  have others: "length (sf_reads sf'') = length (sf_reads sf')" "j \<noteq> h \<Longrightarrow> sf_reads sf'' ! j = sf_reads sf' ! j" for j
    using read_on(3) by (auto simp: read_step_def set_read_def split: prod.splits read_progress.splits list.splits)
  have "blank_read k n p" if "m \<le> j" "j < length (sf_reads sf'')" "sf_reads sf'' ! j = ((off, n), p)" "inside i k off n" for j off n p
  proof (cases "j = h")
    case True
    obtain off0 n0 p0 where old: "sf_reads sf' ! h = ((off0, n0), p0)" by (metis prod.collapse)
    then have "(off0, n0) = (off, n)"
      using read_on(2,3) that(3) True by (auto simp: read_step_def set_read_def split: prod.splits read_progress.splits list.splits)
    then show ?thesis
      using blank_step[OF assms(1,2) up _ read_on(2) _ that(4) _ read_on(3)] late old that True others(1) by (auto simp: late_reads_def)
  next
    case False
    then show ?thesis using late others that by (auto simp: late_reads_def)
  qed
  then show ?case using late others(1) read_step_reads[OF read_on(3)] by (auto simp: late_reads_def)
next
  case (preload_one sf sf' j)
  then show ?case by (auto simp: late_reads_def preload_step_def dest!: loadChunk_reads split: prod.splits)
qed

end

section \<open>New and reopened files\<close>

lemma NewSparseFile_loader:
  assumes "NewSparseFile cr bm os d idx s opts = Ok sf"
  obtains l where "newSparseFileLoader cr bm idx s = Ok l" "sf_reads sf = []" "tf_data (dk_file (sf_disk sf)) = tf_data (dk_file d)"
      "dk_read (sf_disk sf) = dk_read d"
      "int (length (tf_data (dk_file d))) = Index_Length idx" "saved_state os opts l = Some (sf_loader sf)"
  | l where "newSparseFileLoader cr bm idx s = Ok l" "sf_reads sf = []" "sf_loader sf = l"
      "tf_data (dk_file (sf_disk sf)) = truncate_to (tf_data (dk_file d)) (nat (Index_Length idx))"
      "dk_read (sf_disk sf) = dk_read d"
  using assms
  by (auto simp: NewSparseFile_def res_simps Let_def split: option.splits if_splits)

lemma new_loader:
  assumes "bitmap_ok bm" "newSparseFileLoader cr bm idx s = Ok l"
  shows "chunks_of l = idx_chunks idx" "length (sl_chunks l) \<le> 8 * length (sl_done l)"
    "k < length (idx_chunks idx) \<Longrightarrow> \<not> is_done bm l k" "NewNullChunk cr (ChunkSizeMax (idx_index idx)) = Ok (sl_nullChunk l)"
  using assms by (auto simp: newSparseFileLoader_def res_simps bitmap_ok_def is_done_def comp_def)

lemma null_is_blank:
  assumes "describes cr i D" "k < length (idx_chunks i)" "NewNullChunk cr mx = Ok (sl_nullChunk l)" "is_null i l k"
    and "lo i k \<le> p" "p < lo i k + sz i k"
  shows "D ! p = 0"
proof -
  obtain n where null: "nc_data (sl_nullChunk l) = replicate n 0" "nc_id (sl_nullChunk l) = Digest_Sum cr (nc_data (sl_nullChunk l))"
    using assms(3) by (cases "sl_nullChunk l") (auto simp: NewNullChunk_def res_simps)
  then have b: "chunk_bytes D (idx_chunks i ! k) = replicate n 0"
    using describes_chunk(10)[OF assms(1,2)] assms(4) by (metis is_null_def)
  have "chunk_bytes D (idx_chunks i ! k) ! (p - lo i k) = D ! p" "p - lo i k < length (chunk_bytes D (idx_chunks i ! k))"
    using assms(5,6) chunk_limit_eq(2)[OF assms(1,2)] by (auto simp: chunk_bytes_def slice_def lo_def sz_def)
  then show ?thesis unfolding b by simp
qed

lemma describes_length: "describes cr i D \<Longrightarrow> Index_Length i = int (length D)"
  using contiguous_Index_Length unfolding describes_def by metis

lemma new_file_inv:
  assumes bm: "bitmap_ok bm" and d: "describes cr idx D" and n: "NewSparseFile cr bm os dk idx s opts = Ok sf"
    and blank: "tf_data (dk_file dk) = []" and ne: "D \<noteq> []" and E: "E = {f. Some f \<in> set (dk_read dk)}"
  shows "sparse_inv E bm idx D sf"
  using n
proof (cases rule: NewSparseFile_loader)
  case (1 l)
  then show ?thesis using blank ne describes_length[OF d] by simp
next
  case (2 l)
  note nl = new_loader[OF bm 2(1)]
  have F: "tf_data (dk_file (sf_disk sf)) = replicate (length D) 0"
    using 2(4) blank describes_length[OF d] by (simp add: truncate_to_def)
  have "filled idx D (replicate (length D) 0) k" if "k < length (idx_chunks idx)" "is_null idx l k" for k
    using null_is_blank[OF d that(1) nl(4) that(2)] chunk_limit_eq(2)[OF d that(1)] by (simp add: filled_def)
  then show ?thesis using 2(2,3,5) nl F E by (auto simp: sparse_inv_def loader_ok_def)
qed

lemma new_file_fresh:
  assumes bm: "bitmap_ok bm" and d: "describes cr idx D" and n: "NewSparseFile cr bm os dk idx s opts = Ok sf"
    and blank: "tf_data (dk_file dk) = []" and ne: "D \<noteq> []"
  shows "fresh bm idx D (sf_loader sf) (sf_disk sf)"
proof -
  have lo: "loader_ok bm idx D (sf_loader sf) (sf_disk sf)"
    using new_file_inv[OF assms refl] by (simp add: sparse_inv_def)
  show ?thesis using n
  proof (cases rule: NewSparseFile_loader)
    case (1 l)
    then show ?thesis using blank ne describes_length[OF d] by simp
  next
    case (2 l)
    have "tf_data (dk_file (sf_disk sf)) = replicate (length D) 0"
      using 2(4) blank describes_length[OF d] by (simp add: truncate_to_def)
    then have "blank_at idx (tf_data (dk_file (sf_disk sf))) k" if "k < length (idx_chunks idx)" for k
      using chunk_limit_eq(2)[OF d that] by (simp add: blank_at_def)
    then show ?thesis using lo new_loader(3)[OF bm 2(1)] 2(3) by (simp add: fresh_def)
  qed
qed

lemma sparse_run_null: "sparse_run cr get bm sf sf' \<Longrightarrow> sl_nullChunk (sf_loader sf') = sl_nullChunk (sf_loader sf)"
proof (induction rule: sparse_run.induct)
  case (read_on sf sf' k sf'')
  have "sl_nullChunk (sf_loader sf'') = sl_nullChunk (sf_loader sf')"
    using read_on(3)
    by (auto simp: read_step_def set_read_def loadChunk_def fetch_chunk_def Let_def
        split: prod.splits read_progress.splits list.splits if_splits res.splits option.splits)
  then show ?case using read_on.IH by simp
next
  case (preload_one sf sf' k)
  have "sl_nullChunk (sf_loader (preload_step cr get bm k sf')) = sl_nullChunk (sf_loader sf')"
    by (auto simp: preload_step_def loadChunk_def fetch_chunk_def Let_def split: prod.splits res.splits option.splits)
  then show ?case using preload_one.IH by simp
qed (simp_all add: begin_ReadAt_def)

text \<open>A file that is opened again with the state that was saved.\<close>

lemma reopened_inv:
  assumes bm: "bitmap_ok bm" and d: "describes cr idx D" and iv: "sparse_inv E' bm idx D old"
    and null: "NewNullChunk cr (ChunkSizeMax (idx_index idx)) = Ok (sl_nullChunk (sf_loader old))"
    and n: "NewSparseFile cr bm os dk idx s opts = Ok sf"
    and F: "tf_data (dk_file dk) = tf_data (dk_file (sf_disk old))"
    and st: "SparseFile_WriteState bm opts old = Some (f, b)" "so_state os f = Ok (Ok b)" and E: "E = {f. Some f \<in> set (dk_read dk)}"
  shows "sparse_inv E bm idx D sf"
proof -
  let ?F = "tf_data (dk_file (sf_disk old))"
  have lo: "length ?F = length D" "length (sl_chunks (sf_loader old)) \<le> 8 * length (sl_done (sf_loader old))" "chunks_of (sf_loader old) = idx_chunks idx"
    "\<And>k. k < length (idx_chunks idx) \<Longrightarrow> is_null idx (sf_loader old) k \<or> is_done bm (sf_loader old) k \<Longrightarrow> filled idx D ?F k"
    using iv unfolding sparse_inv_def loader_ok_def by blast+
  have f: "f = StateSaveFile opts" "b = sl_done (sf_loader old)"
    using st(1) bm by (auto simp: SparseFile_WriteState_def writeState_def bitmap_ok_def split: if_splits)
  show ?thesis
    using n
  proof (cases rule: NewSparseFile_loader)
    case (1 l)
    note nl = new_loader[OF bm 1(1)]
    have "sf_loader sf = l\<lparr>sl_done := sl_done (sf_loader old)\<rparr>"
      using 1(6) st(2) f by (auto simp: saved_state_def loadState_def stateFromReader_def res_simps Let_def split: if_splits)
    moreover have "length (sl_chunks l) = length (sl_chunks (sf_loader old))" using nl(1) lo(3) by (metis length_map)
    moreover have "sl_nullChunk l = sl_nullChunk (sf_loader old)" using nl(4) null by simp
    ultimately show ?thesis using 1 F E lo nl(1) by (auto simp: sparse_inv_def loader_ok_def is_null_def is_done_def)
  next
    case (2 l)
    note nl = new_loader[OF bm 2(1)]
    have "sl_nullChunk l = sl_nullChunk (sf_loader old)" using nl(4) null by simp
    moreover have "tf_data (dk_file (sf_disk sf)) = ?F"
      using 2(4) F lo(1) describes_length[OF d] by (simp add: truncate_to_def)
    ultimately show ?thesis using 2 E lo nl by (auto simp: sparse_inv_def loader_ok_def is_null_def)
  qed
qed

text \<open>
  (C8) Reading through a sparse file that did not exist before gives the bytes of the blob: in whatever
  order the reads of all handles and the preloading workers go on, as long as no chunk has failed to load,
  every read that has returned returned what reading a file with the bytes of the blob returns; when
  reading the file itself fails, the error and the bytes of the blob up to it.
\<close>

theorem sparse_read_correct:
  assumes "verified_store cr get" "bitmap_ok bm" "describes cr idx D"
    and "NewSparseFile cr bm os d idx s opts = Ok sf" "tf_data (dk_file d) = []" "sparse_run cr get bm sf sf'"
    and "\<nexists>k. failed_chunk bm (sf_loader sf') k" "((off, n), Finished r) \<in> set (sf_reads sf')" "plain_read D off n"
  shows "r = Ok (file_ReadAt D off n) \<or>
    (\<exists>m e. Some (m, e) \<in> set (dk_read d) \<and> r = Ok (take m (fst (file_ReadAt D off n)), Some e))"
proof -
  have "D \<noteq> []" using assms(9) by (simp add: plain_read_def)
  from new_file_inv[OF assms(2-5) this refl] have "sparse_inv {f. Some f \<in> set (dk_read d)} bm idx D sf'"
    by (rule verified_store.sparse_run_inv[OF assms(1-3,6)])
  then show ?thesis using assms(7-9) by (fastforce simp: sparse_inv_def read_answer_def)
qed

text \<open>
  (C32) The saved state can be relied on, for a file that did not exist before the first session: when it
  is opened again with the state that was written, whatever had failed to load until then, every read of
  the second session returns the bytes of the blob again (or the error of reading the file, and the
  bytes up to it), as long as no chunk has failed to load in that session, although the chunks that are
  marked in the state are not loaded once more. Empty reads at or behind the end of the file are left
  out, here as above.
\<close>

theorem sparse_restart_correct:
  assumes "verified_store cr get" "bitmap_ok bm" "describes cr idx D"
    and "NewSparseFile cr bm os d idx s opts = Ok sf" "tf_data (dk_file d) = []" "sparse_run cr get bm sf old"
    and "SparseFile_WriteState bm opts old = Some (f, b)" "so_state os' f = Ok (Ok b)" "tf_data (dk_file d') = tf_data (dk_file (sf_disk old))"
    and "NewSparseFile cr bm os' d' idx s' opts = Ok sf'" "sparse_run cr get bm sf' sf''"
    and "\<nexists>k. failed_chunk bm (sf_loader sf'') k" "((off, n), Finished r) \<in> set (sf_reads sf'')" "plain_read D off n"
  shows "r = Ok (file_ReadAt D off n) \<or>
    (\<exists>m e. Some (m, e) \<in> set (dk_read d') \<and> r = Ok (take m (fst (file_ReadAt D off n)), Some e))"
proof -
  have "D \<noteq> []" using assms(14) by (simp add: plain_read_def)
  note first = new_file_inv[OF assms(2-5) this refl]
  have old: "sparse_inv {f. Some f \<in> set (dk_read d)} bm idx D old" by (rule verified_store.sparse_run_inv[OF assms(1-3,6) first])
  have null: "NewNullChunk cr (ChunkSizeMax (idx_index idx)) = Ok (sl_nullChunk (sf_loader old))"
    using assms(4)
  proof (cases rule: NewSparseFile_loader)
    case (1 l)
    then show ?thesis using assms(5) \<open>D \<noteq> []\<close> describes_length[OF assms(3)] by simp
  next
    case (2 l)
    then show ?thesis using new_loader(4)[OF assms(2) 2(1)] sparse_run_null[OF assms(6)] by simp
  qed
  have "sparse_inv {f. Some f \<in> set (dk_read d')} bm idx D sf''"
    by (rule verified_store.sparse_run_inv[OF assms(1-3,11) reopened_inv[OF assms(2,3) old null assms(10,9,7,8) refl]])
  then show ?thesis using assms(12-14) by (fastforce simp: sparse_inv_def read_answer_def)
qed

section \<open>Two chunks on a disk\<close>

definition bits :: bitmap_fns where
  "bits = \<lparr>bm_New = (\<lambda>n. replicate ((n + 7) div 8) 0),
     bm_Get = (\<lambda>b i. if 0 \<le> i \<and> i < 8 * int (length b) then Ok (bit (b ! (nat i div 8)) (nat i mod 8)) else Panic ''index out of range''),
     bm_Set = (\<lambda>b i v. if v then b[i div 8 := set_bit (i mod 8) (b ! (i div 8))] else b[i div 8 := unset_bit (i mod 8) (b ! (i div 8))]),
     bm_Data = (\<lambda>b. b)\<rparr>"

lemma bits_ok: "bitmap_ok bits"
proof -
  have div8: "j div 8 < length b" if "j < 8 * length b" for j and b :: bytes using that by simp
  have neq: "i mod 8 \<noteq> j mod 8" if "i \<noteq> j" "i div 8 = j div 8" for i j :: nat
    using that by (metis div_mult_mod_eq)
  show ?thesis
    unfolding bitmap_ok_def
    by (auto simp: bits_def nth_list_update bit_set_bit_iff bit_unset_bit_iff div8 nat_add_distrib dest: neq)
qed

datatype sparse_op = Begin int nat | Step nat | Preload nat

fun sparse_ops :: "codec_fns \<Rightarrow> 's get_fn \<Rightarrow> bitmap_fns \<Rightarrow> sparse_op list \<Rightarrow> 's SparseFile \<Rightarrow> 's SparseFile option" where
  "sparse_ops cr get bm [] sf = Some sf"
| "sparse_ops cr get bm (Begin off n # xs) sf = sparse_ops cr get bm xs (begin_ReadAt off n sf)"
| "sparse_ops cr get bm (Step k # xs) sf =
     (if k < length (sf_reads sf) then Option.bind (read_step cr get bm k sf) (sparse_ops cr get bm xs) else None)"
| "sparse_ops cr get bm (Preload k # xs) sf =
     (if k < length (sf_preload sf) \<and> k < sf_workers sf then sparse_ops cr get bm xs (preload_step cr get bm k sf) else None)"

lemma sparse_ops_run: "sparse_ops cr get bm xs sf' = Some sf'' \<Longrightarrow> sparse_run cr get bm sf sf' \<Longrightarrow> sparse_run cr get bm sf sf''"
proof (induction cr get bm xs sf' rule: sparse_ops.induct)
  case (3 cr get bm k xs sf')
  then show ?case by (auto split: if_splits bind_splits intro: sparse_run.read_on)
qed (auto split: if_splits intro: sparse_run.intros)

lemma sparse_ops_reads:
  assumes "map_option sf_reads (sparse_ops cr get bm xs sf) = Some rs"
  obtains sf' where "sparse_run cr get bm sf sf'" "sf_reads sf' = rs"
proof -
  obtain sf' where "sparse_ops cr get bm xs sf = Some sf'" "sf_reads sf' = rs" using assms by auto
  then show thesis using that[OF sparse_ops_run[OF _ sparse_run.start]] by blast
qed

definition blank_disk :: disk where
  "blank_disk = \<lparr>dk_file = \<lparr>tf_data = [], tf_faults = []\<rparr>, dk_open = [], dk_read = []\<rparr>"

definition save_opts :: SparseFileOptions where
  "save_opts = \<lparr>StateSaveFile = ''state'', StateInitFile = [], StateInitConcurrency = 0\<rparr>"

definition good_os :: "bytes res res \<Rightarrow> sparse_os" where
  "good_os st = \<lparr>so_open = None, so_stat = None, so_truncate = None, so_state = (\<lambda>_. st)\<rparr>"

text \<open>A store that fails at the first request.\<close>

definition flaky_get :: "bool get_fn" where
  "flaky_get s i = (if s then (Err (ErrIO ''connection reset''), False)
     else (fst (held_get reader_codec [(replicate 32 1, [1, 2, 3]), (replicate 32 2, [4, 5])] () i), False))"

definition reader_loader :: "'s \<Rightarrow> bytes \<Rightarrow> 's sparseFileLoader" where
  "reader_loader s dn = \<lparr>sl_done = dn, sl_s = s, sl_nullChunk = \<lparr>nc_data = [0, 0, 0], nc_id = replicate 32 3\<rparr>,
     sl_chunks = map (\<lambda>c. \<lparr>sic_chunk = c, sic_once = False\<rparr>) (idx_chunks reader_blob)\<rparr>"

definition new_sparse :: "'s \<Rightarrow> bytes \<Rightarrow> bytes \<Rightarrow> 's SparseFile" where
  "new_sparse s dn data = \<lparr>sf_loader = reader_loader s dn, sf_disk = \<lparr>dk_file = \<lparr>tf_data = data, tf_faults = []\<rparr>, dk_open = [], dk_read = []\<rparr>,
     sf_preload = [], sf_workers = 0, sf_reads = []\<rparr>"

lemma new_reader_loader: "newSparseFileLoader reader_codec bits reader_blob s = Ok (reader_loader s [0])"
proof -
  have "replicate 3 0 = [0, 0, 0 :: byte]" by (simp add: numeral_3_eq_3)
  then have "make_bytes 3 = Ok [0, 0, 0]" by (simp add: make_bytes_def max_alloc_def)
  then show ?thesis by (simp add: newSparseFileLoader_def NewNullChunk_def reader_blob_def reader_loader_def reader_codec_def bits_def)
qed

lemma new_reader_sparse:
  "NewSparseFile reader_codec bits (good_os (Err ErrNotExist)) blank_disk reader_blob s save_opts = Ok (new_sparse s [0] [0, 0, 0, 0, 0])"
proof -
  have "replicate 5 0 = [0, 0, 0, 0, 0 :: byte]" by (simp add: eval_nat_numeral)
  moreover have "Index_Length reader_blob = 5" by code_simp
  ultimately show ?thesis
    by (simp add: NewSparseFile_def new_reader_loader good_os_def os_step_def blank_disk_def save_opts_def truncate_to_def new_sparse_def)
qed

lemma none_failed: "list_all (\<lambda>k. \<not> failed_chunk bm l k) [0..<length (sl_chunks l)] \<Longrightarrow> \<nexists>k. failed_chunk bm l k"
  by (auto simp: list_all_iff failed_chunk_def)

definition two_reads :: "bool SparseFile option" where
  "two_reads = sparse_ops reader_codec flaky_get bits
     [Begin 1 3, Begin 4 3, Step 1, Step 0, Step 1, Step 0, Step 0, Step 1, Step 1, Step 0, Step 0] (new_sparse False [0] [0, 0, 0, 0, 0])"

lemma two_reads_end:
  "map_option (\<lambda>sf. (sf_reads sf ! 0, sl_done (sf_loader sf), sf_disk sf, list_all (\<lambda>k. \<not> failed_chunk bits (sf_loader sf) k) [0..<length (sl_chunks (sf_loader sf))], length (sf_reads sf))) two_reads =
     Some (((1, 3), Finished (Ok ([2, 3, 4], None))), [3], \<lparr>dk_file = \<lparr>tf_data = [1, 2, 3, 4, 5], tf_faults = []\<rparr>, dk_open = [], dk_read = []\<rparr>, True, 2)"
  by code_simp

lemma two_reads_run:
  obtains sf where "two_reads = Some sf" "sparse_run reader_codec flaky_get bits (new_sparse False [0] [0, 0, 0, 0, 0]) sf"
    "((1, 3), Finished (Ok ([2, 3, 4], None))) \<in> set (sf_reads sf)" "\<nexists>k. failed_chunk bits (sf_loader sf) k"
    "sl_done (sf_loader sf) = [3]" "tf_data (dk_file (sf_disk sf)) = [1, 2, 3, 4, 5]"
proof -
  obtain sf where sf: "two_reads = Some sf" "sf_reads sf ! 0 = ((1, 3), Finished (Ok ([2, 3, 4], None)))" "length (sf_reads sf) = 2"
    "list_all (\<lambda>k. \<not> failed_chunk bits (sf_loader sf) k) [0..<length (sl_chunks (sf_loader sf))]"
    "sl_done (sf_loader sf) = [3]" "tf_data (dk_file (sf_disk sf)) = [1, 2, 3, 4, 5]"
    using two_reads_end by auto
  show thesis
  proof (rule that[OF sf(1)])
    show "sparse_run reader_codec flaky_get bits (new_sparse False [0] [0, 0, 0, 0, 0]) sf"
      using sf(1) unfolding two_reads_def by (rule sparse_ops_run) (rule sparse_run.start)
    show "((1, 3), Finished (Ok ([2, 3, 4], None))) \<in> set (sf_reads sf)" using sf(2,3) nth_mem[of 0 "sf_reads sf"] by simp
  qed (use sf none_failed in \<open>simp_all\<close>)
qed

lemma flaky_verified: "verified_store reader_codec flaky_get"
  by unfold_locales (auto simp: flaky_get_def prod_eq_iff intro!: verified_store.get_genuine[OF held_verified, of _ "[(replicate 32 1, [1, 2, 3]), (replicate 32 2, [4, 5])]" "()" _ _ "()"] split: if_splits)

theorem sparse_read_correct_witness:
  "\<exists>sf. two_reads = Some sf \<and> ((1, 3), Finished (Ok ([2, 3, 4], None))) \<in> set (sf_reads sf) \<and>
     Ok ([2, 3, 4], None) = (Ok (file_ReadAt [1, 2, 3, 4, 5] 1 3) :: (bytes \<times> go_error option) res)"
proof -
  obtain sf where sf: "two_reads = Some sf" "sparse_run reader_codec flaky_get bits (new_sparse False [0] [0, 0, 0, 0, 0]) sf"
    "((1, 3), Finished (Ok ([2, 3, 4], None))) \<in> set (sf_reads sf)" "\<nexists>k. failed_chunk bits (sf_loader sf) k"
    using two_reads_run by blast
  have "Ok ([2, 3, 4], None) = (Ok (file_ReadAt [1, 2, 3, 4, 5] 1 3) :: (bytes \<times> go_error option) res)"
    using sparse_read_correct[OF flaky_verified bits_ok reader_describes new_reader_sparse _ sf(2,4,3)]
    by (simp add: blank_disk_def plain_read_def)
  then show ?thesis using sf by blast
qed

lemma reopened_sparse:
  "NewSparseFile reader_codec bits (good_os (Ok (Ok [3]))) (sf_disk (new_sparse () [] [1, 2, 3, 4, 5])) reader_blob s save_opts =
     Ok (new_sparse s [3] [1, 2, 3, 4, 5])"
proof -
  have "Index_Length reader_blob = 5" "length (idx_chunks reader_blob) = 2" by code_simp+
  then show ?thesis
    by (simp add: NewSparseFile_def new_reader_loader good_os_def os_step_def save_opts_def new_sparse_def saved_state_def loadState_def
        stateFromReader_def reader_loader_def)
qed

definition second_run :: "bool SparseFile option" where
  "second_run = sparse_ops reader_codec flaky_get bits [Begin 2 2, Step 0, Step 0, Step 0] (new_sparse True [3] [1, 2, 3, 4, 5])"

lemma second_run_end:
  "map_option (\<lambda>sf. (sf_reads sf, list_all (\<lambda>k. \<not> failed_chunk bits (sf_loader sf) k) [0..<length (sl_chunks (sf_loader sf))])) second_run =
     Some ([((2, 2), Finished (Ok ([3, 4], None)))], True)"
  by code_simp

theorem sparse_restart_correct_witness:
  "\<exists>sf. second_run = Some sf \<and> ((2, 2), Finished (Ok ([3, 4], None))) \<in> set (sf_reads sf) \<and>
     Ok ([3, 4], None) = (Ok (file_ReadAt [1, 2, 3, 4, 5] 2 2) :: (bytes \<times> go_error option) res)"
proof -
  obtain old where old: "sparse_run reader_codec flaky_get bits (new_sparse False [0] [0, 0, 0, 0, 0]) old"
    "sl_done (sf_loader old) = [3]" "tf_data (dk_file (sf_disk old)) = [1, 2, 3, 4, 5]"
    using two_reads_run by blast
  have w: "SparseFile_WriteState bits save_opts old = Some (''state'', [3])"
    using old(2) by (simp add: SparseFile_WriteState_def save_opts_def writeState_def bits_def)
  obtain sf where sf: "second_run = Some sf" "sf_reads sf = [((2, 2), Finished (Ok ([3, 4], None)))]" "\<nexists>k. failed_chunk bits (sf_loader sf) k"
    using second_run_end none_failed by fastforce
  have run: "sparse_run reader_codec flaky_get bits (new_sparse True [3] [1, 2, 3, 4, 5]) sf"
    using sf(1) unfolding second_run_def by (rule sparse_ops_run) (rule sparse_run.start)
  have "Ok ([3, 4], None) = (Ok (file_ReadAt [1, 2, 3, 4, 5] 2 2) :: (bytes \<times> go_error option) res)"
    using sparse_restart_correct[OF flaky_verified bits_ok reader_describes new_reader_sparse _ old(1) w _ _ reopened_sparse run sf(3)]
    by (simp add: blank_disk_def plain_read_def good_os_def old(3) new_sparse_def sf(2))
  then show ?thesis using sf by auto
qed

text \<open>
  (C33) A chunk that fails to load once is never asked for again. In a sparse file that did not exist
  before, let a read come to a chunk that was not loaded yet, and let the store answer the request
  with an error: that read returns the error, but every read inside the chunk that begins later returns,
  in whatever order everything goes on, the zeros of the blank file and no error (as long as reading
  the file itself does not fail).
\<close>

theorem sparse_failed_load_blank:
  assumes "verified_store cr get" "bitmap_ok bm" "describes cr idx D"
    and "NewSparseFile cr bm os d idx s opts = Ok sf0" "tf_data (dk_file d) = []" "dk_read d = []" "sparse_run cr get bm sf0 sf1"
    and "h < length (sf_reads sf1)" "sf_reads sf1 ! h = (q, ToLoad (k # ks))" "k < length (idx_chunks idx)" "\<not> was_tried (sf_loader sf1) k"
    and "get (sl_s (sf_loader sf1)) (ic_id (idx_chunks idx ! k)) = (Err e, s')" "read_step cr get bm h sf1 = Some sf"
    and "sparse_run cr get bm sf sf'" "length (sf_reads sf) \<le> j" "j < length (sf_reads sf')" "sf_reads sf' ! j = ((off, n), Finished r)"
    and "0 < n" "int (lo idx k) \<le> off" "off + int n \<le> int (lo idx k + sz idx k)"
  shows "sf_reads sf ! h = (q, Finished (Ok ([], Some e))) \<and> r = Ok (replicate n 0, None)"
proof -
  have "D \<noteq> []" using describes_chunk(3,4)[OF assms(3,10)] by auto
  have blank: "fresh bm idx D (sf_loader sf0) (sf_disk sf0)" by (rule new_file_fresh[OF assms(2-5) \<open>D \<noteq> []\<close>])
  have fr: "fresh bm idx D (sf_loader sf1) (sf_disk sf1)" by (rule verified_store.run_fresh[OF assms(1-3,7) blank])
  note fs = verified_store.failing_step[OF assms(1-3) fr assms(10,8,9,11-13)]
  have "dk_read (sf_disk sf0) = []" using assms(4) by (cases rule: NewSparseFile_loader) (use assms(6) in simp_all)
  from sparse_run_reads[OF assms(7) this] have "late_reads idx k (length (sf_reads sf)) sf" by (auto simp: late_reads_def fs(3))
  from verified_store.run_late_reads[OF assms(1-3,14) fs(2) this] have "blank_read k n (Finished r)"
    using assms(15-20) unfolding late_reads_def inside_def by blast
  then show ?thesis using fs(1) by (simp add: blank_read_def)
qed

definition failed_read :: "bool SparseFile option" where
  "failed_read = sparse_ops reader_codec flaky_get bits [Begin 1 3, Step 0] (new_sparse True [0] [0, 0, 0, 0, 0])"

definition after_failure :: "bool SparseFile option" where
  "after_failure = Option.bind (Option.bind failed_read (read_step reader_codec flaky_get bits 0))
     (sparse_ops reader_codec flaky_get bits [Begin 0 2, Step 1, Step 1, Step 1, Step 1])"

lemma failed_read_state:
  "map_option (\<lambda>sf. (sf_reads sf, was_tried (sf_loader sf) 0, sl_s (sf_loader sf))) failed_read = Some ([((1, 3), ToLoad [0, 1])], False, True)"
  by code_simp

lemma after_failure_reads:
  "map_option (\<lambda>sf. length (sf_reads sf)) (Option.bind failed_read (read_step reader_codec flaky_get bits 0)) = Some 1"
  "map_option (\<lambda>sf. (length (sf_reads sf), sf_reads sf ! 1)) after_failure = Some (2, ((0, 2), Finished (Ok ([0, 0], None))))"
  by code_simp+

theorem sparse_failed_load_blank_witness:
  "\<exists>sf1 sf sf'. failed_read = Some sf1 \<and> read_step reader_codec flaky_get bits 0 sf1 = Some sf \<and>
     sparse_run reader_codec flaky_get bits sf sf' \<and> sf_reads sf ! 0 = ((1, 3), Finished (Ok ([], Some (ErrIO ''connection reset'')))) \<and>
     sf_reads sf' ! 1 = ((0, 2), Finished (Ok ([0, 0], None))) \<and> Ok ([0, 0], None) = (Ok (replicate 2 0, None) :: (bytes \<times> go_error option) res)"
proof -
  obtain sf1 where sf1: "failed_read = Some sf1" "sf_reads sf1 = [((1, 3), ToLoad [0, 1])]" "\<not> was_tried (sf_loader sf1) 0" "sl_s (sf_loader sf1)"
    using failed_read_state by auto
  obtain sf where sf: "read_step reader_codec flaky_get bits 0 sf1 = Some sf" "length (sf_reads sf) = 1"
    using after_failure_reads(1) unfolding sf1(1) by auto
  obtain sf' where sf': "sparse_ops reader_codec flaky_get bits [Begin 0 2, Step 1, Step 1, Step 1, Step 1] sf = Some sf'"
    "length (sf_reads sf') = 2" "sf_reads sf' ! 1 = ((0, 2), Finished (Ok ([0, 0], None)))"
    using after_failure_reads(2) unfolding after_failure_def sf1(1) by (auto simp: sf(1))
  have run: "sparse_run reader_codec flaky_get bits sf sf'" by (rule sparse_ops_run[OF sf'(1) sparse_run.start])
  have run0: "sparse_run reader_codec flaky_get bits (new_sparse True [0] [0, 0, 0, 0, 0]) sf1"
    using sf1(1) unfolding failed_read_def by (rule sparse_ops_run) (rule sparse_run.start)
  have chunk: "0 < length (idx_chunks reader_blob)" "lo reader_blob 0 = 0" "sz reader_blob 0 = 3" by code_simp+
  have "sf_reads sf ! 0 = ((1, 3), Finished (Ok ([], Some (ErrIO ''connection reset'')))) \<and>
    Ok ([0, 0], None) = (Ok (replicate 2 0, None) :: (bytes \<times> go_error option) res)"
    by (rule sparse_failed_load_blank[where s' = False and j = 1 and off = 0,
          OF flaky_verified bits_ok reader_describes new_reader_sparse _ _ run0 _ _ chunk(1) sf1(3) _ sf(1) run])
       (simp_all add: blank_disk_def sf1(2,4) sf(2) sf'(2) sf'(3)[unfolded One_nat_def] chunk flaky_get_def)
  then show ?thesis using sf1(1) sf(1) run sf'(3) by blast
qed

text \<open>
  Null chunks are never loaded, because a new file is blank; but an existing file is only brought to
  the right size. When it has that size already, what it holds shows where the null chunks belong.
\<close>

definition null_codec :: codec_fns where
  "null_codec = reader_codec\<lparr>Digest_Sum := (\<lambda>b. if b = [0, 0, 0] then replicate 32 3 else replicate 32 1)\<rparr>"

definition null_blob :: Index where
  "null_blob = reader_blob\<lparr>idx_chunks := [\<lparr>ic_id = replicate 32 3, ic_start = 0, ic_size = 3\<rparr>]\<rparr>"

definition stale_file :: "unit SparseFile" where
  "stale_file = \<lparr>sf_loader = \<lparr>sl_done = [0], sl_s = (), sl_nullChunk = \<lparr>nc_data = [0, 0, 0], nc_id = replicate 32 3\<rparr>,
       sl_chunks = [\<lparr>sic_chunk = hd (idx_chunks null_blob), sic_once = False\<rparr>]\<rparr>,
     sf_disk = \<lparr>dk_file = \<lparr>tf_data = [9, 9, 9], tf_faults = []\<rparr>, dk_open = [], dk_read = []\<rparr>, sf_preload = [], sf_workers = 0, sf_reads = []\<rparr>"

theorem sparse_stale_null_chunks:
  "\<exists>sf sf'. NewSparseFile null_codec bits (good_os (Err ErrNotExist)) (sf_disk stale_file) null_blob () save_opts = Ok sf \<and>
     describes null_codec null_blob [0, 0, 0] \<and> sparse_run null_codec (held_get null_codec [(replicate 32 3, [0, 0, 0])]) bits sf sf' \<and>
     sf_reads sf' = [((0, 3), Finished (Ok ([9, 9, 9], None)))]"
proof -
  have "replicate 3 0 = [0, 0, 0 :: byte]" by (simp add: numeral_3_eq_3)
  then have mk: "make_bytes 3 = Ok [0, 0, 0]" by (simp add: make_bytes_def max_alloc_def)
  have "Index_Length null_blob = 3" by code_simp
  then have new: "NewSparseFile null_codec bits (good_os (Err ErrNotExist)) (sf_disk stale_file) null_blob () save_opts = Ok stale_file"
    by (simp add: NewSparseFile_def newSparseFileLoader_def NewNullChunk_def null_blob_def reader_blob_def mk good_os_def os_step_def stale_file_def
        save_opts_def saved_state_def truncate_to_def null_codec_def bits_def)
  have d: "describes null_codec null_blob [0, 0, 0]"
    using reader_ids by (auto simp: describes_def null_blob_def reader_blob_def null_codec_def total_size_def chunk_bytes_def slice_def zero_id_def
        chunk_id_len_def replicate_eq_replicate split: if_splits)
  have "map_option sf_reads (sparse_ops null_codec (held_get null_codec [(replicate 32 3, [0, 0, 0])]) bits [Begin 0 3, Step 0, Step 0, Step 0] stale_file) =
    Some [((0, 3), Finished (Ok ([9, 9, 9], None)))]" by code_simp
  then obtain sf' where sf': "sparse_run null_codec (held_get null_codec [(replicate 32 3, [0, 0, 0])]) bits stale_file sf'"
    "sf_reads sf' = [((0, 3), Finished (Ok ([9, 9, 9], None)))]"
    by (rule sparse_ops_reads)
  show ?thesis by (intro exI[of _ stale_file] exI[of _ sf'] conjI new d sf')
qed

end
