(* ===== verification/Pipeline.thy ===== *)
theory Pipeline
  imports Make_Props Assemble_Props ReadSeeker_Props
begin

text \<open>
  The operations that fill a store with several workers: \<open>ChunkStream\<close> (\<^verbatim>\<open>src/index.go\<close>), which cuts a stream and
  stores its chunks, and \<open>ChopFile\<close> (\<^verbatim>\<open>src/chop.go\<close>), which stores the parts of a file that an index names. A feeder
  hands jobs to a number of workers; all workers share a \<open>ChunkStorage\<close>. The steps of a worker are the
  operations on what it shares with the others: the map of results, the set of processed chunks and
  the store.
\<close>

section \<open>Storing a chunk step by step\<close>

datatype job_at = JobStart | JobMark | JobHas | JobPut | JobDone "unit res"

record job =
  jb_num :: nat
  jb_chunk :: IndexChunk
  jb_data :: Chunk
  jb_at :: job_at

text \<open>\<open>ChunkStorage.StoreChunk\<close> from one lock or call of the store to the next.\<close>

definition storage_step ::
  "codec_fns \<Rightarrow> 's has_fn \<Rightarrow> 's put_fn \<Rightarrow> Chunk \<Rightarrow> job_at \<Rightarrow> 's ChunkStorage \<Rightarrow> job_at \<times> 's ChunkStorage" where
  "storage_step cr has put c p s =
     (case Chunk_ID cr c of (cid, c) \<Rightarrow>
      case p of
        JobMark \<Rightarrow> (case markProcessed s cid of (seen, s) \<Rightarrow> (if seen then JobDone (Ok ()) else JobHas, s))
      | JobHas \<Rightarrow>
          (case has (cs_ws s) cid of (r, ws) \<Rightarrow>
             ((case r of Err e \<Rightarrow> JobDone (Err e) | Panic x \<Rightarrow> JobDone (Panic x) | Ok b \<Rightarrow> if b then JobDone (Ok ()) else JobPut), s\<lparr>cs_ws := ws\<rparr>))
      | JobPut \<Rightarrow>
          (case put (cs_ws s) c of
             (Ok _, ws) \<Rightarrow> (JobDone (Ok ()), s\<lparr>cs_ws := ws\<rparr>)
           | (Err e, ws) \<Rightarrow> (JobDone (Err e), unmarkProcessed (s\<lparr>cs_ws := ws\<rparr>) cid)
           | (Panic x, ws) \<Rightarrow> (JobDone (Panic x), s\<lparr>cs_ws := ws\<rparr>))
      | p \<Rightarrow> (p, s))"

text \<open>The workers and what they share. \<open>pl_err\<close> is the first error that a worker returned.\<close>

record 's pool =
  pl_storage :: "'s ChunkStorage"
  pl_jobs :: "job list"
  pl_err :: "go_error option"
  pl_panic :: "string option"

definition new_pool :: "'s \<Rightarrow> 's pool" where
  "new_pool ws = \<lparr>pl_storage = NewChunkStorage ws, pl_jobs = [], pl_err = None, pl_panic = None\<rparr>"

definition is_failed :: "job \<Rightarrow> bool" where
  "is_failed j \<longleftrightarrow> (case jb_at j of JobDone (Err e) \<Rightarrow> True | _ \<Rightarrow> False)"

definition is_busy :: "job \<Rightarrow> bool" where
  "is_busy j \<longleftrightarrow> (case jb_at j of JobDone r \<Rightarrow> False | _ \<Rightarrow> True)"

text \<open>A worker is ready to take a job: of those that have not ended with an error, one has nothing to do.\<close>

definition worker_free :: "nat \<Rightarrow> 's pool \<Rightarrow> bool" where
  "worker_free n p \<longleftrightarrow> length (filter (\<lambda>j. is_busy j \<or> is_failed j) (pl_jobs p)) < n"

definition put_job :: "nat \<Rightarrow> job \<Rightarrow> 's pool \<Rightarrow> 's pool" where
  "put_job k j p =
     p\<lparr>pl_jobs := (pl_jobs p)[k := j],
       pl_err := (case (pl_err p, jb_at j) of (None, JobDone (Err e)) \<Rightarrow> Some e | (e, _) \<Rightarrow> e),
       pl_panic := (case jb_at j of JobDone (Panic x) \<Rightarrow> Some x | _ \<Rightarrow> pl_panic p)\<rparr>"

definition pool_step :: "codec_fns \<Rightarrow> 's has_fn \<Rightarrow> 's put_fn \<Rightarrow> nat \<Rightarrow> 's pool \<Rightarrow> 's pool" where
  "pool_step cr has put k p =
     (let j = pl_jobs p ! k in
      case storage_step cr has put (jb_data j) (jb_at j) (pl_storage p) of (q, s) \<Rightarrow>
        put_job k (j\<lparr>jb_at := q\<rparr>) (p\<lparr>pl_storage := s\<rparr>))"

definition all_done :: "'s pool \<Rightarrow> bool" where
  "all_done p \<longleftrightarrow> list_all (\<lambda>j. \<not> is_busy j) (pl_jobs p)"

section \<open>ChunkStream\<close>

datatype feed = Feeding | Fed | FeedFailed go_error | FeedPanic string

record 's stream_state =
  ss_chunker :: Chunker
  ss_num :: nat
  ss_feed :: feed
  ss_pool :: "'s pool"
  ss_results :: "(nat \<times> IndexChunk) list"

definition stream_start :: "Chunker \<Rightarrow> 's \<Rightarrow> 's stream_state" where
  "stream_start c ws = \<lparr>ss_chunker = c, ss_num = 0, ss_feed = Feeding, ss_pool = new_pool ws, ss_results = []\<rparr>"

text \<open>The feeder cuts the next chunk and hands it to a worker.\<close>

definition stream_feed :: "'s stream_state \<Rightarrow> 's stream_state" where
  "stream_feed st =
     (case Chunker_Next (ss_chunker st) of
        Panic x \<Rightarrow> st\<lparr>ss_feed := FeedPanic x\<rparr>
      | Err e \<Rightarrow> st\<lparr>ss_feed := FeedFailed e\<rparr>
      | Ok (start, b, err, c) \<Rightarrow>
          let st = st\<lparr>ss_chunker := c\<rparr> in
          case err of
            Some e \<Rightarrow> st\<lparr>ss_feed := FeedFailed e\<rparr>
          | None \<Rightarrow>
              if b = [] then st\<lparr>ss_feed := Fed\<rparr>
              else let j = \<lparr>jb_num = ss_num st, jb_chunk = \<lparr>ic_id = zero_id, ic_start = start, ic_size = ulen b\<rparr>, jb_data = NewChunk b, jb_at = JobStart\<rparr>
                   in st\<lparr>ss_num := ss_num st + 1, ss_pool := (ss_pool st)\<lparr>pl_jobs := pl_jobs (ss_pool st) @ [j]\<rparr>\<rparr>)"

text \<open>Whether a worker is needed for that.\<close>

definition stream_has_next :: "'s stream_state \<Rightarrow> bool" where
  "stream_has_next st =
     (case Chunker_Next (ss_chunker st) of Ok (start, b, err, c) \<Rightarrow> err = None \<and> b \<noteq> [] | _ \<Rightarrow> False)"

text \<open>The feeder ends early when the context is done: it was cancelled, or a worker has failed.\<close>

definition stream_stop :: "bool \<Rightarrow> 's stream_state \<Rightarrow> 's stream_state option" where
  "stream_stop cancelled st = (if cancelled \<or> pl_err (ss_pool st) \<noteq> None then Some (st\<lparr>ss_feed := Fed\<rparr>) else None)"

text \<open>A worker computes the identifier, records the result, and stores the chunk.\<close>

definition stream_work :: "codec_fns \<Rightarrow> 's has_fn \<Rightarrow> 's put_fn \<Rightarrow> nat \<Rightarrow> 's stream_state \<Rightarrow> 's stream_state" where
  "stream_work cr has put k st =
     (let j = pl_jobs (ss_pool st) ! k in
      if jb_at j = JobStart then
        case Chunk_ID cr (jb_data j) of (cid, chunk) \<Rightarrow>
          let idxChunk = (jb_chunk j)\<lparr>ic_id := cid\<rparr> in
          st\<lparr>ss_results := AList.update (jb_num j) idxChunk (ss_results st),
             ss_pool := put_job k (j\<lparr>jb_chunk := idxChunk, jb_data := chunk, jb_at := JobMark\<rparr>) (ss_pool st)\<rparr>
      else st\<lparr>ss_pool := pool_step cr has put k (ss_pool st)\<rparr>)"

inductive stream_run ::
  "codec_fns \<Rightarrow> 's has_fn \<Rightarrow> 's put_fn \<Rightarrow> nat \<Rightarrow> bool \<Rightarrow> 's stream_state \<Rightarrow> 's stream_state \<Rightarrow> bool" for cr has put n cancelled where
  stream_init: "stream_run cr has put n cancelled st st"
| stream_fed: "stream_run cr has put n cancelled st st' \<Longrightarrow> ss_feed st' = Feeding \<Longrightarrow> \<not> stream_has_next st' \<or> worker_free n (ss_pool st') \<Longrightarrow>
     stream_run cr has put n cancelled st (stream_feed st')"
| stream_stopped: "stream_run cr has put n cancelled st st' \<Longrightarrow> ss_feed st' = Feeding \<Longrightarrow> stream_stop cancelled st' = Some st'' \<Longrightarrow>
     stream_run cr has put n cancelled st st''"
| stream_worked: "stream_run cr has put n cancelled st st' \<Longrightarrow> k < length (pl_jobs (ss_pool st')) \<Longrightarrow> is_busy (pl_jobs (ss_pool st') ! k) \<Longrightarrow>
     stream_run cr has put n cancelled st (stream_work cr has put k st')"

definition stream_index :: "'s stream_state \<Rightarrow> Index" where
  "stream_index st =
     (let c = ss_chunker st; results = ss_results st in
      \<lparr>idx_index = \<lparr>fi_hdr = \<lparr>h_size = 0, h_type = 0\<rparr>, FeatureFlags = CaFormatExcludeNoDump OR CaFormatSHA512256,
         ChunkSizeMin = c_min c, ChunkSizeAvg = c_avg c, ChunkSizeMax = c_max c\<rparr>,
       idx_chunks = map (\<lambda>i. case map_of results i of Some c \<Rightarrow> c | None \<Rightarrow> zero_chunk) [0..<length results]\<rparr>)"

inductive ChunkStream ::
  "codec_fns \<Rightarrow> 's has_fn \<Rightarrow> 's put_fn \<Rightarrow> bool \<Rightarrow> Chunker \<Rightarrow> 's \<Rightarrow> nat \<Rightarrow> Index res \<Rightarrow> 's \<Rightarrow> bool" for cr has put cancelled c ws n where
  completed: "stream_run cr has put n cancelled (stream_start c ws) st \<Longrightarrow> ss_feed st = Fed \<Longrightarrow> all_done (ss_pool st) \<Longrightarrow> pl_panic (ss_pool st) = None \<Longrightarrow>
     ChunkStream cr has put cancelled c ws n (case pl_err (ss_pool st) of Some e \<Rightarrow> Err e | None \<Rightarrow> Ok (stream_index st)) (cs_ws (pl_storage (ss_pool st)))"
| chunker_failed: "stream_run cr has put n cancelled (stream_start c ws) st \<Longrightarrow> ss_feed st = FeedFailed e \<Longrightarrow>
     ChunkStream cr has put cancelled c ws n (Err e) (cs_ws (pl_storage (ss_pool st)))"
| chunker_panicked: "stream_run cr has put n cancelled (stream_start c ws) st \<Longrightarrow> ss_feed st = FeedPanic x \<Longrightarrow>
     ChunkStream cr has put cancelled c ws n (Panic x) (cs_ws (pl_storage (ss_pool st)))"
| worker_panicked: "stream_run cr has put n cancelled (stream_start c ws) st \<Longrightarrow> pl_panic (ss_pool st) = Some x \<Longrightarrow>
     ChunkStream cr has put cancelled c ws n (Panic x) (cs_ws (pl_storage (ss_pool st)))"

section \<open>ChopFile\<close>

text \<open>\<open>readChunkFromFile\<close>; a file that ends too early gives \<open>EOF\<close> or \<open>ErrUnexpectedEOF\<close>.\<close>

definition readChunkFromFile :: "codec_fns \<Rightarrow> bytes \<Rightarrow> IndexChunk \<Rightarrow> Chunk res" where
  "readChunkFromFile cr data c =
     bind_res (make_bytes (ic_size c)) (\<lambda>buf.
     if sint (ic_start c) < 0 then Err (ErrIO ''invalid argument'')
     else let b = take (length buf) (drop (unat (ic_start c)) data) in
       if length b < length buf then Err (if b = [] then EOF else ErrUnexpectedEOF)
       else NewChunkWithID cr (ic_id c) b False)"

record 's chop_state =
  ch_left :: "IndexChunk list"
  ch_feed :: feed
  ch_pool :: "'s pool"

definition chop_start :: "IndexChunk list \<Rightarrow> 's \<Rightarrow> 's chop_state" where
  "chop_start chunks ws = \<lparr>ch_left = chunks, ch_feed = Feeding, ch_pool = new_pool ws\<rparr>"

definition chop_feed :: "'s chop_state \<Rightarrow> 's chop_state" where
  "chop_feed st =
     (case ch_left st of
        [] \<Rightarrow> st\<lparr>ch_feed := Fed\<rparr>
      | c # cs \<Rightarrow>
          let j = \<lparr>jb_num = length (pl_jobs (ch_pool st)), jb_chunk = c, jb_data = NewChunk [], jb_at = JobStart\<rparr>
          in st\<lparr>ch_left := cs, ch_pool := (ch_pool st)\<lparr>pl_jobs := pl_jobs (ch_pool st) @ [j]\<rparr>\<rparr>)"

definition chop_work :: "codec_fns \<Rightarrow> 's has_fn \<Rightarrow> 's put_fn \<Rightarrow> bytes \<Rightarrow> nat \<Rightarrow> 's chop_state \<Rightarrow> 's chop_state" where
  "chop_work cr has put data k st =
     (let j = pl_jobs (ch_pool st) ! k in
      if jb_at j = JobStart then
        st\<lparr>ch_pool := put_job k
          (case readChunkFromFile cr data (jb_chunk j) of
             Ok chunk \<Rightarrow> j\<lparr>jb_data := chunk, jb_at := JobMark\<rparr>
           | Err e \<Rightarrow> j\<lparr>jb_at := JobDone (Err e)\<rparr>
           | Panic x \<Rightarrow> j\<lparr>jb_at := JobDone (Panic x)\<rparr>) (ch_pool st)\<rparr>
      else st\<lparr>ch_pool := pool_step cr has put k (ch_pool st)\<rparr>)"

inductive chop_run ::
  "codec_fns \<Rightarrow> 's has_fn \<Rightarrow> 's put_fn \<Rightarrow> bytes \<Rightarrow> nat \<Rightarrow> bool \<Rightarrow> 's chop_state \<Rightarrow> 's chop_state \<Rightarrow> bool" for cr has put data n cancelled where
  chop_init: "chop_run cr has put data n cancelled st st"
| chop_fed: "chop_run cr has put data n cancelled st st' \<Longrightarrow> ch_feed st' = Feeding \<Longrightarrow> ch_left st' = [] \<or> worker_free n (ch_pool st') \<Longrightarrow>
     chop_run cr has put data n cancelled st (chop_feed st')"
| chop_stopped: "chop_run cr has put data n cancelled st st' \<Longrightarrow> ch_feed st' = Feeding \<Longrightarrow> cancelled \<or> pl_err (ch_pool st') \<noteq> None \<Longrightarrow>
     chop_run cr has put data n cancelled st (st'\<lparr>ch_feed := Fed\<rparr>)"
| chop_worked: "chop_run cr has put data n cancelled st st' \<Longrightarrow> k < length (pl_jobs (ch_pool st')) \<Longrightarrow> is_busy (pl_jobs (ch_pool st') ! k) \<Longrightarrow>
     chop_run cr has put data n cancelled st (chop_work cr has put data k st')"

text \<open>The file is opened once for every worker before the workers start; \<open>opened\<close> is how that ends.\<close>

inductive ChopFile ::
  "codec_fns \<Rightarrow> 's has_fn \<Rightarrow> 's put_fn \<Rightarrow> bool \<Rightarrow> bytes res \<Rightarrow> IndexChunk list \<Rightarrow> 's \<Rightarrow> nat \<Rightarrow> unit res \<Rightarrow> 's \<Rightarrow> bool" for cr has put cancelled opened chunks ws n where
  chopped: "opened = Ok data \<or> n = 0 \<Longrightarrow> chop_run cr has put data n cancelled (chop_start chunks ws) st \<Longrightarrow> ch_feed st = Fed \<Longrightarrow> all_done (ch_pool st) \<Longrightarrow>
     pl_panic (ch_pool st) = None \<Longrightarrow>
     ChopFile cr has put cancelled opened chunks ws n (case pl_err (ch_pool st) of Some e \<Rightarrow> Err e | None \<Rightarrow> Ok ()) (cs_ws (pl_storage (ch_pool st)))"
| chop_not_opened: "opened = Err e \<Longrightarrow> 0 < n \<Longrightarrow> ChopFile cr has put cancelled opened chunks ws n (Err (Errorf ''unable to open file %s, %s'')) ws"
| chop_panicked: "opened = Ok data \<Longrightarrow> chop_run cr has put data n cancelled (chop_start chunks ws) st \<Longrightarrow> pl_panic (ch_pool st) = Some x \<Longrightarrow>
     ChopFile cr has put cancelled opened chunks ws n (Panic x) (cs_ws (pl_storage (ch_pool st)))"

end
