(* ===== verification/Pipeline_Props.thy ===== *)
theory Pipeline_Props
  imports Pipeline
begin

text \<open>
  What filling a store with several workers guarantees: when it ends without an error and was not
  cancelled, every chunk is in the store, and the index of a stream is the one of a single chunker,
  whatever the order in which the workers take their steps.
\<close>

section \<open>The pool of workers\<close>

text \<open>Run to its end without interruption, the steps are \<open>StoreChunk\<close>.\<close>

lemma storage_step_sequence:
  "ChunkStorage_StoreChunk cr has put s c = (r, s') \<longleftrightarrow>
     (\<exists>p q s1 s2. storage_step cr has put c JobMark s = (p, s1) \<and> storage_step cr has put c p s1 = (q, s2) \<and>
        storage_step cr has put c q s2 = (JobDone r, s'))"
  by (cases "Chunk_ID cr c"; cases "has (cs_ws s) (fst (Chunk_ID cr c))")
     (auto simp: ChunkStorage_StoreChunk_def storage_step_def markProcessed_def unmarkProcessed_def Let_def
       split: prod.splits res.splits bool.splits if_splits)

abbreviation job_id :: "codec_fns \<Rightarrow> job \<Rightarrow> chunk_id" where
  "job_id cr j \<equiv> fst (Chunk_ID cr (jb_data j))"

definition storing :: "codec_fns \<Rightarrow> 's pool \<Rightarrow> chunk_id \<Rightarrow> bool" where
  "storing cr p i \<longleftrightarrow> (\<exists>j \<in> set (pl_jobs p). job_id cr j = i \<and> (jb_at j = JobHas \<or> jb_at j = JobPut))"

abbreviation went_wrong :: "'s pool \<Rightarrow> bool" where
  "went_wrong p \<equiv> pl_err p \<noteq> None \<or> pl_panic p \<noteq> None"

context write_store begin

definition settled :: "'s pool \<Rightarrow> chunk_id \<Rightarrow> bool" where
  "settled p i \<longleftrightarrow> present (cs_ws (pl_storage p)) i \<or> storing cr p i \<or> went_wrong p"

definition job_ok :: "'s pool \<Rightarrow> job \<Rightarrow> bool" where
  "job_ok p j \<longleftrightarrow>
     (case jb_at j of
        JobStart \<Rightarrow> True
      | JobDone (Ok _) \<Rightarrow> is_chunk_id (job_id cr j) \<and> settled p (job_id cr j)
      | JobDone (Err e) \<Rightarrow> pl_err p \<noteq> None
      | JobDone (Panic x) \<Rightarrow> pl_panic p \<noteq> None
      | _ \<Rightarrow> is_chunk_id (job_id cr j))"

definition pool_ok :: "'s pool \<Rightarrow> bool" where
  "pool_ok p \<longleftrightarrow>
     inv (cs_ws (pl_storage p)) \<and> (\<forall>i \<in> cs_processed (pl_storage p). is_chunk_id i \<and> settled p i) \<and>
     (\<forall>j \<in> set (pl_jobs p). job_ok p j)"

lemma pool_ok_new: "inv ws \<Longrightarrow> pool_ok (new_pool ws)"
  by (simp add: pool_ok_def new_pool_def NewChunkStorage_def)

lemma pool_ok_add:
  assumes "pool_ok p" "jb_at j = JobStart"
  shows "pool_ok (p\<lparr>pl_jobs := pl_jobs p @ [j]\<rparr>)"
proof -
  let ?p = "p\<lparr>pl_jobs := pl_jobs p @ [j]\<rparr>"
  have s: "settled ?p i \<longleftrightarrow> settled p i" for i using assms(2) by (auto simp: settled_def storing_def)
  have "job_ok p x \<Longrightarrow> job_ok ?p x" for x by (auto simp: job_ok_def s split: job_at.splits res.splits)
  then show ?thesis using assms by (auto simp: pool_ok_def s job_ok_def[of ?p j])
qed

text \<open>A move of one job keeps the pool in order, when what was settled stays so.\<close>

lemma settled_put:
  assumes k: "k < length (pl_jobs p)"
    and mono: "\<And>i. is_chunk_id i \<Longrightarrow> present (cs_ws (pl_storage p)) i \<Longrightarrow> present (cs_ws s') i"
    and keep: "jb_at (pl_jobs p ! k) = JobHas \<or> jb_at (pl_jobs p ! k) = JobPut \<Longrightarrow>
        is_chunk_id (job_id cr (pl_jobs p ! k)) \<Longrightarrow> settled (put_job k j (p\<lparr>pl_storage := s'\<rparr>)) (job_id cr (pl_jobs p ! k))"
    and i: "is_chunk_id i" "settled p i"
  shows "settled (put_job k j (p\<lparr>pl_storage := s'\<rparr>)) i"
proof (cases "storing cr p i")
  case True
  then obtain x where x: "x \<in> set (pl_jobs p)" "job_id cr x = i" "jb_at x = JobHas \<or> jb_at x = JobPut"
    by (auto simp: storing_def)
  show ?thesis
  proof (cases "x = pl_jobs p ! k")
    case True
    then show ?thesis using keep x(2,3) i(1) by simp
  next
    case False
    then have "x \<in> set (pl_jobs (put_job k j (p\<lparr>pl_storage := s'\<rparr>)))"
      using x(1) k unfolding put_job_def by (auto simp: in_set_conv_nth nth_list_update)
    then show ?thesis using x by (auto simp: settled_def storing_def)
  qed
next
  case False
  have "went_wrong p \<Longrightarrow> went_wrong (put_job k j (p\<lparr>pl_storage := s'\<rparr>))"
    by (auto simp: put_job_def split: option.splits job_at.splits res.splits)
  then show ?thesis using i mono False by (auto simp: settled_def put_job_def)
qed

lemma pool_ok_put:
  assumes p: "pool_ok p" and k: "k < length (pl_jobs p)"
    and iv: "inv (cs_ws s')" and mono: "\<And>i. is_chunk_id i \<Longrightarrow> present (cs_ws (pl_storage p)) i \<Longrightarrow> present (cs_ws s') i"
    and keep: "jb_at (pl_jobs p ! k) = JobHas \<or> jb_at (pl_jobs p ! k) = JobPut \<Longrightarrow>
        is_chunk_id (job_id cr (pl_jobs p ! k)) \<Longrightarrow> settled (put_job k j (p\<lparr>pl_storage := s'\<rparr>)) (job_id cr (pl_jobs p ! k))"
    and procd: "\<And>i. i \<in> cs_processed s' \<Longrightarrow> i \<in> cs_processed (pl_storage p) \<or> is_chunk_id i \<and> settled (put_job k j (p\<lparr>pl_storage := s'\<rparr>)) i"
    and own: "job_ok (put_job k j (p\<lparr>pl_storage := s'\<rparr>)) j"
  shows "pool_ok (put_job k j (p\<lparr>pl_storage := s'\<rparr>))"
proof -
  let ?p = "put_job k j (p\<lparr>pl_storage := s'\<rparr>)"
  have wrong: "pl_err p \<noteq> None \<Longrightarrow> pl_err ?p \<noteq> None" "pl_panic p \<noteq> None \<Longrightarrow> pl_panic ?p \<noteq> None"
    by (auto simp: put_job_def split: option.splits job_at.splits res.splits)
  have st: "pl_storage ?p = s'" by (simp add: put_job_def)
  have jobs: "x = j \<or> x \<in> set (pl_jobs p)" if "x \<in> set (pl_jobs ?p)" for x
    using set_update_subset_insert[of "pl_jobs p" k j] that by (auto simp: put_job_def)
  note settled = settled_put[OF k mono keep]
  have old: "job_ok ?p x" if "job_ok p x" for x
    using that settled wrong by (auto simp: job_ok_def split: job_at.splits res.splits)
  have ok: "\<And>i. i \<in> cs_processed (pl_storage p) \<Longrightarrow> is_chunk_id i \<and> settled p i" "\<And>x. x \<in> set (pl_jobs p) \<Longrightarrow> job_ok p x"
    using p unfolding pool_ok_def by blast+
  have "is_chunk_id i \<and> settled ?p i" if "i \<in> cs_processed s'" for i
    using procd[OF that] ok(1)[of i] settled[of i] by blast
  moreover have "job_ok ?p x" if "x \<in> set (pl_jobs ?p)" for x
    using jobs[OF that] own old[OF ok(2)] by blast
  ultimately show ?thesis using iv st by (simp add: pool_ok_def)
qed

lemma pool_step_ok:
  assumes p: "pool_ok p" and k: "k < length (pl_jobs p)" and ns: "jb_at (pl_jobs p ! k) \<noteq> JobStart" and busy: "is_busy (pl_jobs p ! k)"
  shows "pool_ok (pool_step cr has put k p)"
proof -
  let ?j = "pl_jobs p ! k" and ?s = "pl_storage p"
  obtain cid c where id: "Chunk_ID cr (jb_data ?j) = (cid, c)" by fastforce
  have again: "fst (Chunk_ID cr c) = cid" using Chunk_ID_again[OF id] .
  have jk: "job_ok p ?j" and iv: "inv (cs_ws ?s)" using p k by (simp_all add: pool_ok_def)
  then have cid: "is_chunk_id cid"
    using ns busy id by (auto simp: job_ok_def is_busy_def split: job_at.splits)
  obtain q s' where q: "storage_step cr has put (jb_data ?j) (jb_at ?j) ?s = (q, s')" by fastforce
  let ?p = "put_job k (?j\<lparr>jb_at := q\<rparr>) (p\<lparr>pl_storage := s'\<rparr>)"
  have step: "pool_step cr has put k p = ?p" using q by (simp add: pool_step_def Let_def)
  have mem: "?j\<lparr>jb_at := q\<rparr> \<in> set (pl_jobs ?p)" using k by (simp add: put_job_def set_update_memI)
  have err: "q = JobDone (Err e) \<Longrightarrow> pl_err ?p \<noteq> None" and pan: "q = JobDone (Panic x) \<Longrightarrow> pl_panic ?p \<noteq> None" for e x
    by (auto simp: put_job_def split: option.splits)
  have st: "pl_storage ?p = s'" by (simp add: put_job_def)
  have goes: "storing cr ?p cid" if "q = JobHas \<or> q = JobPut" using mem that id unfolding storing_def by force
  consider (mark) "jb_at ?j = JobMark" | (has) "jb_at ?j = JobHas" | (put) "jb_at ?j = JobPut"
    using ns busy by (cases "jb_at ?j") (auto simp: is_busy_def)
  then have "pool_ok ?p"
  proof cases
    case mark
    then have s': "s' = ?s\<lparr>cs_processed := insert cid (cs_processed ?s)\<rparr>"
      and q': "q = (if cid \<in> cs_processed ?s then JobDone (Ok ()) else JobHas)"
      using q id by (auto simp: storage_step_def markProcessed_def)
    have old: "settled ?p i" if "i \<in> cs_processed ?s" for i
      by (rule settled_put[OF k]) (use p that mark s' in \<open>auto simp: pool_ok_def\<close>)
    have new: "settled ?p cid"
      using old goes q' by (cases "cid \<in> cs_processed ?s") (auto simp: settled_def)
    show ?thesis
      by (rule pool_ok_put[OF p k]) (use mark s' iv new id cid q' in \<open>auto simp: job_ok_def\<close>)
  next
    case has
    obtain r ws where h: "has (cs_ws ?s) cid = (r, ws)" by fastforce
    have s': "s' = ?s\<lparr>cs_ws := ws\<rparr>"
      and q': "q = (case r of Err e \<Rightarrow> JobDone (Err e) | Panic x \<Rightarrow> JobDone (Panic x) | Ok b \<Rightarrow> if b then JobDone (Ok ()) else JobPut)"
      using q id has h by (auto simp: storage_step_def)
    note hi = has_inv[OF h iv]
    have new: "settled ?p cid"
      using goes q' err pan has_Ok[of "cs_ws ?s" cid _ ws] h iv st s' by (cases r) (auto simp: settled_def)
    show ?thesis
      by (rule pool_ok_put[OF p k]) (use has s' hi new id cid q' err pan in \<open>auto simp: job_ok_def split: res.splits\<close>)
  next
    case put
    obtain r ws where h: "put (cs_ws ?s) c = (r, ws)" by fastforce
    have s': "cs_ws s' = ws" "cs_processed s' \<subseteq> cs_processed ?s"
      and q': "q = JobDone r"
      using q id put h by (auto simp: storage_step_def unmarkProcessed_def split: res.splits)
    have pi: "inv ws \<and> (present (cs_ws ?s) i \<longrightarrow> present ws i)" if "is_chunk_id i" for i
      using put_inv[OF h iv] again cid that by simp
    have new: "settled ?p cid"
      using q' err pan put_Ok[of "cs_ws ?s" c ws] h iv st s' again cid by (cases r) (auto simp: settled_def)
    show ?thesis
      by (rule pool_ok_put[OF p k]) (use put s' pi new id cid q' err pan in \<open>auto simp: job_ok_def split: res.splits\<close>)
  qed
  then show ?thesis unfolding step .
qed

text \<open>When all has gone well, every chunk that was handed to a worker is in the store.\<close>

lemma pool_done:
  assumes "pool_ok p" "all_done p" "pl_err p = None" "pl_panic p = None" "j \<in> set (pl_jobs p)"
  shows "present (cs_ws (pl_storage p)) (job_id cr j)"
proof -
  have nb: "\<not> is_busy x" if "x \<in> set (pl_jobs p)" for x using assms(2) that by (auto simp: all_done_def list_all_iff)
  then have "\<not> storing cr p i" for i by (fastforce simp: storing_def is_busy_def)
  moreover have "job_ok p j" using assms(1,5) by (simp add: pool_ok_def)
  ultimately show ?thesis
    using nb[OF assms(5)] assms(3,4) by (auto simp: job_ok_def is_busy_def settled_def split: job_at.splits res.splits)
qed

end

section \<open>The jobs of a stream\<close>

text \<open>A job and the chunk of the stream it is about.\<close>

definition job_for :: "codec_fns \<Rightarrow> (nat \<times> IndexChunk) list \<Rightarrow> nat \<Rightarrow> job \<Rightarrow> u64 \<times> bytes \<Rightarrow> bool" where
  "job_for cr results k j sb \<longleftrightarrow>
     jb_num j = k \<and> ic_start (jb_chunk j) = fst sb \<and> ic_size (jb_chunk j) = ulen (snd sb) \<and>
     (if jb_at j = JobStart then jb_data j = NewChunk (snd sb) \<and> map_of results k = None
      else ic_id (jb_chunk j) = Digest_Sum cr (snd sb) \<and> job_id cr j = Digest_Sum cr (snd sb) \<and> map_of results k = Some (jb_chunk j))"

definition stream_inv :: "codec_fns \<Rightarrow> bool \<Rightarrow> (u64 \<times> bytes) list \<Rightarrow> 's stream_state \<Rightarrow> bool" where
  "stream_inv cr cancelled cs st \<longleftrightarrow>
     (let jobs = pl_jobs (ss_pool st) in
      ss_num st = length jobs \<and> length jobs \<le> length cs \<and> distinct (map fst (ss_results st)) \<and>
      dom (map_of (ss_results st)) \<subseteq> {..<length jobs} \<and>
      (\<forall>sb \<in> set cs. snd sb \<noteq> []) \<and>
      (\<forall>k < length jobs. job_for cr (ss_results st) k (jobs ! k) (cs ! k)) \<and>
      (ss_feed st = Feeding \<longrightarrow> (\<exists>m. all_chunks m (ss_chunker st) = Ok (drop (length jobs) cs))) \<and>
      (ss_feed st = Fed \<longrightarrow> length jobs = length cs \<or> pl_err (ss_pool st) \<noteq> None \<or> cancelled))"

lemma stream_invD:
  assumes "stream_inv cr cancelled cs st"
  shows "ss_num st = length (pl_jobs (ss_pool st))" "length (pl_jobs (ss_pool st)) \<le> length cs" "distinct (map fst (ss_results st))"
    "dom (map_of (ss_results st)) \<subseteq> {..<length (pl_jobs (ss_pool st))}" "\<And>sb. sb \<in> set cs \<Longrightarrow> snd sb \<noteq> []"
    "\<And>k. k < length (pl_jobs (ss_pool st)) \<Longrightarrow> job_for cr (ss_results st) k (pl_jobs (ss_pool st) ! k) (cs ! k)"
    "ss_feed st = Feeding \<Longrightarrow> \<exists>m. all_chunks m (ss_chunker st) = Ok (drop (length (pl_jobs (ss_pool st))) cs)"
    "ss_feed st = Fed \<Longrightarrow> length (pl_jobs (ss_pool st)) = length cs \<or> pl_err (ss_pool st) \<noteq> None \<or> cancelled"
  using assms unfolding stream_inv_def Let_def by blast+

lemma NewChunk_ID: "b \<noteq> [] \<Longrightarrow> fst (Chunk_ID cr (NewChunk b)) = Digest_Sum cr b"
  by (simp add: Chunk_ID_def NewChunk_def Chunk_Data_def)

lemma all_chunks_nonempty: "all_chunks m c = Ok cs \<Longrightarrow> sb \<in> set cs \<Longrightarrow> snd sb \<noteq> []"
  by (induction m arbitrary: c cs) (auto simp: res_simps split: option.splits if_splits)

lemma stream_inv_start: "all_chunks m c = Ok cs \<Longrightarrow> stream_inv cr cancelled cs (stream_start c ws)"
  by (auto simp: stream_inv_def stream_start_def new_pool_def dest: all_chunks_nonempty)

lemma map_of_none: "dom (map_of xs) \<subseteq> {..<n} \<Longrightarrow> map_of xs (n :: nat) = None"
  by (meson domIff lessThan_iff less_irrefl subsetD)

lemma stream_feed_inv:
  assumes iv: "stream_inv cr cancelled cs st" and f: "ss_feed st = Feeding"
  shows "stream_inv cr cancelled cs (stream_feed st)"
proof -
  note I = stream_invD[OF iv]
  let ?n = "length (pl_jobs (ss_pool st))"
  obtain m where m: "all_chunks m (ss_chunker st) = Ok (drop ?n cs)" using I(7)[OF f] by blast
  then obtain m' start b err c where nx: "m = Suc m'" "Chunker_Next (ss_chunker st) = Ok (start, b, err, c)"
    by (cases m) (auto simp: res_simps)
  have err: "err = None" using m nx by (auto simp: res_simps split: option.splits)
  show ?thesis
  proof (cases "b = []")
    case True
    then have "drop ?n cs = []" using m nx err by (auto simp: res_simps)
    then have "length cs = ?n" using I(2) by simp
    then show ?thesis using iv nx err True by (simp add: stream_feed_def stream_inv_def Let_def)
  next
    case False
    then obtain cs' where cs': "all_chunks m' c = Ok cs'" "drop ?n cs = (start, b) # cs'"
      using m nx err by (auto simp: res_simps)
    then have n: "?n < length cs" by (metis drop_all not_less list.distinct(1))
    have nth: "cs ! ?n = (start, b)" "drop (Suc ?n) cs = cs'"
      using cs'(2) Cons_nth_drop_Suc[OF n] by auto
    let ?j = "\<lparr>jb_num = ss_num st, jb_chunk = \<lparr>ic_id = zero_id, ic_start = start, ic_size = ulen b\<rparr>, jb_data = NewChunk b, jb_at = JobStart\<rparr>"
    have eq: "stream_feed st = st\<lparr>ss_chunker := c, ss_num := ss_num st + 1, ss_pool := (ss_pool st)\<lparr>pl_jobs := pl_jobs (ss_pool st) @ [?j]\<rparr>\<rparr>"
      using nx err False by (simp add: stream_feed_def Let_def)
    have "job_for cr (ss_results st) k ((pl_jobs (ss_pool st) @ [?j]) ! k) (cs ! k)" if "k < Suc ?n" for k
      using that I(1,6) nth map_of_none[OF I(4)] by (cases "k = ?n") (auto simp: nth_append job_for_def)
    then show ?thesis
      unfolding eq stream_inv_def Let_def using I n f cs'(1) nth(2) by auto
  qed
qed

lemma put_job_simps [simp]: "pl_jobs (put_job k j p) = (pl_jobs p)[k := j]"
  by (simp add: put_job_def)

lemma put_job_err: "pl_err p \<noteq> None \<Longrightarrow> pl_err (put_job k j p) \<noteq> None"
  by (auto simp: put_job_def split: option.splits job_at.splits res.splits)

lemma storage_step_not_start: "storage_step cr has put c p s = (q, s') \<Longrightarrow> p \<noteq> JobStart \<Longrightarrow> q \<noteq> JobStart"
  by (auto simp: storage_step_def split: prod.splits job_at.splits res.splits if_splits)

lemma stream_work_inv:
  assumes iv: "stream_inv cr cancelled cs st" and k: "k < length (pl_jobs (ss_pool st))"
  shows "stream_inv cr cancelled cs (stream_work cr has put k st)"
proof -
  note I = stream_invD[OF iv]
  let ?j = "pl_jobs (ss_pool st) ! k"
  have jk: "job_for cr (ss_results st) k ?j (cs ! k)" using I(6)[OF k] .
  show ?thesis
  proof (cases "jb_at ?j = JobStart")
    case True
    obtain cid c where id: "Chunk_ID cr (jb_data ?j) = (cid, c)" by fastforce
    have "snd (cs ! k) \<noteq> []" using I(2,5) k by simp
    then have cid: "cid = Digest_Sum cr (snd (cs ! k))" "fst (Chunk_ID cr c) = cid"
      using id jk True NewChunk_ID[of "snd (cs ! k)" cr] Chunk_ID_again[OF id] by (auto simp: job_for_def)
    let ?c = "(jb_chunk ?j)\<lparr>ic_id := cid\<rparr>"
    let ?j' = "?j\<lparr>jb_chunk := ?c, jb_data := c, jb_at := JobMark\<rparr>" and ?r = "AList.update k ?c (ss_results st)"
    have num: "jb_num ?j = k" using jk by (simp add: job_for_def)
    have eq: "stream_work cr has put k st = st\<lparr>ss_results := ?r, ss_pool := put_job k ?j' (ss_pool st)\<rparr>"
      using True id num by (simp add: stream_work_def Let_def)
    have r: "map_of ?r i = (if i = k then Some ?c else map_of (ss_results st) i)" for i by (simp add: update_conv)
    have "job_for cr ?r i ((pl_jobs (ss_pool st))[k := ?j'] ! i) (cs ! i)" if "i < length (pl_jobs (ss_pool st))" for i
      using I(6)[OF that] jk cid k r num True by (cases "i = k") (auto simp: job_for_def)
    moreover have "distinct (map fst ?r)" using I(3) by (rule distinct_update)
    moreover have "dom (map_of ?r) \<subseteq> {..<length (pl_jobs (ss_pool st))}"
      using I(4) k by (auto simp: update_conv')
    moreover have "pl_err (put_job k ?j' (ss_pool st)) = pl_err (ss_pool st)" by (simp add: put_job_def split: option.splits)
    ultimately show ?thesis unfolding eq stream_inv_def Let_def using I by simp
  next
    case False
    obtain q s' where q: "storage_step cr has put (jb_data ?j) (jb_at ?j) (pl_storage (ss_pool st)) = (q, s')" by fastforce
    have qs: "q \<noteq> JobStart" using storage_step_not_start[OF q False] .
    let ?p = "put_job k (?j\<lparr>jb_at := q\<rparr>) ((ss_pool st)\<lparr>pl_storage := s'\<rparr>)"
    have eq: "stream_work cr has put k st = st\<lparr>ss_pool := ?p\<rparr>"
      using False q by (simp add: stream_work_def pool_step_def Let_def)
    have "job_for cr (ss_results st) i ((pl_jobs (ss_pool st))[k := ?j\<lparr>jb_at := q\<rparr>] ! i) (cs ! i)" if "i < length (pl_jobs (ss_pool st))" for i
      using I(6)[OF that] jk k qs False by (cases "i = k") (auto simp: job_for_def)
    moreover have "pl_err (ss_pool st) \<noteq> None \<Longrightarrow> pl_err ?p \<noteq> None" using put_job_err[of "(ss_pool st)\<lparr>pl_storage := s'\<rparr>"] by simp
    ultimately show ?thesis unfolding eq stream_inv_def Let_def using I by auto
  qed
qed

lemma stream_run_inv:
  assumes "all_chunks m c = Ok cs" "stream_run cr has put n cancelled (stream_start c ws) st"
  shows "stream_inv cr cancelled cs st"
  using assms(2)
proof (induction "stream_start c ws" st rule: stream_run.induct)
  case stream_init
  then show ?case using stream_inv_start[OF assms(1)] .
next
  case (stream_fed st')
  then show ?case using stream_feed_inv by blast
next
  case (stream_stopped st' st'')
  then have "st'' = st'\<lparr>ss_feed := Fed\<rparr>" "cancelled \<or> pl_err (ss_pool st') \<noteq> None" by (auto simp: stream_stop_def split: if_splits)
  then show ?case using stream_stopped(2) by (simp add: stream_inv_def Let_def; blast)
next
  case (stream_worked st' k)
  then show ?case using stream_work_inv by blast
qed

text \<open>The index that is built from the results.\<close>

lemma stream_index_chunks:
  assumes iv: "stream_inv cr cancelled cs st" and len: "length (pl_jobs (ss_pool st)) = length cs" and dn: "all_done (ss_pool st)"
  shows "idx_chunks (stream_index st) = index_chunks cr cs"
proof -
  note I = stream_invD[OF iv]
  let ?jobs = "pl_jobs (ss_pool st)"
  have j: "map_of (ss_results st) k = Some (jb_chunk (?jobs ! k)) \<and>
      jb_chunk (?jobs ! k) = \<lparr>ic_id = Digest_Sum cr (snd (cs ! k)), ic_start = fst (cs ! k), ic_size = ulen (snd (cs ! k))\<rparr>" if k: "k < length cs" for k
  proof -
    have "\<not> is_busy (?jobs ! k)" using dn k len by (simp add: all_done_def list_all_length)
    then have "jb_at (?jobs ! k) \<noteq> JobStart" by (auto simp: is_busy_def)
    then show ?thesis using I(6)[of k] k len by (simp add: job_for_def)
  qed
  have "dom (map_of (ss_results st)) = {..<length cs}"
    using I(4) len j by (auto simp: domIff)
  then have "card (fst ` set (ss_results st)) = length cs" by (simp add: dom_map_of_conv_image_fst)
  then have n: "length (ss_results st) = length cs" using distinct_card[OF I(3)] by simp
  show ?thesis
    unfolding stream_index_def Let_def index_chunks_def
    using j by (auto intro!: nth_equalityI simp: n split: prod.splits)
qed

context write_store begin

text \<open>A job that has got its chunk.\<close>

lemma pool_ok_begin:
  assumes p: "pool_ok p" and k: "k < length (pl_jobs p)" and at: "jb_at (pl_jobs p ! k) = JobStart"
    and j: "jb_at j = JobMark \<and> is_chunk_id (job_id cr j) \<or> (\<exists>e. jb_at j = JobDone (Err e)) \<or> (\<exists>x. jb_at j = JobDone (Panic x))"
  shows "pool_ok (put_job k j p)"
proof -
  have "pool_ok (put_job k j (p\<lparr>pl_storage := pl_storage p\<rparr>))"
  proof (rule pool_ok_put[OF p k])
    show "job_ok (put_job k j (p\<lparr>pl_storage := pl_storage p\<rparr>)) j"
      using j by (auto simp: job_ok_def put_job_def split: option.splits)
  qed (use p at in \<open>auto simp: pool_ok_def\<close>)
  then show ?thesis by simp
qed

lemma stream_pool_ok:
  assumes "stream_run cr has put n cancelled (stream_start c ws) st" "all_chunks m c = Ok cs" "inv ws" "\<And>b. is_chunk_id (Digest_Sum cr b)"
  shows "pool_ok (ss_pool st)"
  using assms(1)
proof (induction "stream_start c ws" st rule: stream_run.induct)
  case stream_init
  then show ?case using pool_ok_new[OF assms(3)] by (simp add: stream_start_def)
next
  case (stream_fed st')
  then show ?case
    by (auto simp: stream_feed_def Let_def intro!: pool_ok_add split: res.splits prod.splits option.splits)
next
  case (stream_stopped st' st'')
  then show ?case by (auto simp: stream_stop_def split: if_splits)
next
  case (stream_worked st' k)
  note iv = stream_run_inv[OF assms(2) stream_worked(1)]
  let ?j = "pl_jobs (ss_pool st') ! k"
  show ?case
  proof (cases "jb_at ?j = JobStart")
    case True
    obtain cid c' where id: "Chunk_ID cr (jb_data ?j) = (cid, c')" by fastforce
    have "snd (cs ! k) \<noteq> []" "jb_data ?j = NewChunk (snd (cs ! k))"
      using stream_invD(2,5,6)[OF iv] stream_worked(3) True by (auto simp: job_for_def)
    then have "is_chunk_id cid" using id NewChunk_ID[of "snd (cs ! k)" cr] assms(4) by (metis fst_conv)
    then show ?thesis
      using True id Chunk_ID_again[OF id] pool_ok_begin[OF stream_worked(2,3) True] by (simp add: stream_work_def Let_def)
  next
    case False
    then show ?thesis using pool_step_ok[OF stream_worked(2,3) False stream_worked(4)] by (simp add: stream_work_def Let_def)
  qed
qed

lemma ChunkStream_ok:
  assumes "ChunkStream cr has put False c ws n (Ok idx) ws'" "all_chunks m c = Ok cs" "inv ws" "\<And>b. is_chunk_id (Digest_Sum cr b)"
  shows "idx_chunks idx = index_chunks cr cs \<and> (\<forall>x \<in> set (idx_chunks idx). present ws' (ic_id x))"
  using assms(1)
proof cases
  case (completed st)
  then have e: "pl_err (ss_pool st) = None" "idx = stream_index st" by (auto split: option.splits)
  note iv = stream_run_inv[OF assms(2) completed(3)] and ok = stream_pool_ok[OF completed(3) assms(2-4)]
  have len: "length (pl_jobs (ss_pool st)) = length cs" using stream_invD(8)[OF iv] completed(4) e by simp
  have idx: "idx_chunks idx = index_chunks cr cs" using stream_index_chunks[OF iv len completed(5)] e(2) by simp
  have "present ws' (ic_id (index_chunks cr cs ! k))" if k: "k < length cs" for k
  proof -
    let ?j = "pl_jobs (ss_pool st) ! k"
    have "\<not> is_busy ?j" using completed(5) k len by (simp add: all_done_def list_all_length)
    then have "job_id cr ?j = Digest_Sum cr (snd (cs ! k))"
      using stream_invD(6)[OF iv, of k] k len by (auto simp: job_for_def is_busy_def split: if_splits)
    moreover have "present ws' (job_id cr ?j)" using pool_done[OF ok completed(5) e(1) completed(6)] k len completed(2) by simp
    ultimately show ?thesis using k by (simp add: index_chunks_def case_prod_beta)
  qed
  moreover have "length (index_chunks cr cs) = length cs" by (simp add: index_chunks_def)
  ultimately show ?thesis using idx by (auto simp: in_set_conv_nth)
qed

end

section \<open>The jobs of ChopFile\<close>

definition chop_job :: "codec_fns \<Rightarrow> bytes \<Rightarrow> job \<Rightarrow> bool" where
  "chop_job cr data j \<longleftrightarrow>
     jb_at j = JobStart \<or> (\<exists>e. jb_at j = JobDone (Err e)) \<or> (\<exists>x. jb_at j = JobDone (Panic x)) \<or>
     readChunkFromFile cr data (jb_chunk j) = Ok (jb_data j)"

definition chop_inv :: "codec_fns \<Rightarrow> bytes \<Rightarrow> bool \<Rightarrow> IndexChunk list \<Rightarrow> 's chop_state \<Rightarrow> bool" where
  "chop_inv cr data cancelled chunks st \<longleftrightarrow>
     map jb_chunk (pl_jobs (ch_pool st)) @ ch_left st = chunks \<and>
     (\<forall>j \<in> set (pl_jobs (ch_pool st)). chop_job cr data j) \<and>
     (ch_feed st = Fed \<longrightarrow> ch_left st = [] \<or> pl_err (ch_pool st) \<noteq> None \<or> cancelled)"

lemma chop_feed_inv: "chop_inv cr data cancelled chunks st \<Longrightarrow> ch_feed st = Feeding \<Longrightarrow> chop_inv cr data cancelled chunks (chop_feed st)"
  by (auto simp: chop_inv_def chop_feed_def chop_job_def Let_def split: list.splits)

lemma chop_inv_put:
  assumes "chop_inv cr data cancelled chunks st" "k < length (pl_jobs (ch_pool st))" "jb_chunk j = jb_chunk (pl_jobs (ch_pool st) ! k)"
    and "chop_job cr data j"
    and "pl_jobs p = pl_jobs (ch_pool st)" "pl_err p = pl_err (ch_pool st)"
  shows "chop_inv cr data cancelled chunks (st\<lparr>ch_pool := put_job k j p\<rparr>)"
proof -
  have "map jb_chunk ((pl_jobs (ch_pool st))[k := j]) = map jb_chunk (pl_jobs (ch_pool st))"
    using assms(2,3) by (simp add: map_update list_update_same_conv)
  moreover have "x = j \<or> x \<in> set (pl_jobs (ch_pool st))" if "x \<in> set ((pl_jobs (ch_pool st))[k := j])" for x
    using set_update_subset_insert that by fastforce
  ultimately show ?thesis
    using assms put_job_err[of p k j] unfolding chop_inv_def by (simp; blast)
qed

lemma chop_work_inv:
  assumes iv: "chop_inv cr data cancelled chunks st" and k: "k < length (pl_jobs (ch_pool st))" and b: "is_busy (pl_jobs (ch_pool st) ! k)"
  shows "chop_inv cr data cancelled chunks (chop_work cr has put data k st)"
proof -
  let ?j = "pl_jobs (ch_pool st) ! k"
  show ?thesis
  proof (cases "jb_at ?j = JobStart")
    case True
    then show ?thesis
      unfolding chop_work_def Let_def
      using chop_inv_put[OF iv k] by (cases "readChunkFromFile cr data (jb_chunk ?j)") (auto simp: chop_job_def)
  next
    case False
    obtain q s' where q: "storage_step cr has put (jb_data ?j) (jb_at ?j) (pl_storage (ch_pool st)) = (q, s')" by fastforce
    have "readChunkFromFile cr data (jb_chunk ?j) = Ok (jb_data ?j)"
      using iv k b False by (fastforce simp: chop_inv_def chop_job_def is_busy_def)
    then show ?thesis
      using False q chop_inv_put[OF iv k, of "?j\<lparr>jb_at := q\<rparr>" "(ch_pool st)\<lparr>pl_storage := s'\<rparr>"] by (simp add: chop_work_def pool_step_def chop_job_def Let_def)
  qed
qed

lemma chop_run_inv:
  assumes "chop_run cr has put data n cancelled (chop_start chunks ws) st"
  shows "chop_inv cr data cancelled chunks st"
  using assms
proof (induction "chop_start chunks ws :: 'a chop_state" st rule: chop_run.induct)
  case chop_init
  then show ?case by (simp add: chop_inv_def chop_start_def new_pool_def)
next
  case (chop_fed st')
  then show ?case using chop_feed_inv by blast
next
  case (chop_stopped st')
  then show ?case by (auto simp: chop_inv_def)
next
  case (chop_worked st' k)
  then show ?case using chop_work_inv by blast
qed

lemma readChunk_Ok:
  assumes "readChunkFromFile cr data c = Ok ch"
  shows "fst (Chunk_ID cr ch) = ic_id c" "unat (ic_start c) + unat (ic_size c) \<le> length data \<or> ic_size c = 0"
    "ic_size c \<noteq> 0 \<Longrightarrow> Digest_Sum cr (chunk_bytes data c) = ic_id c"
proof -
  let ?b = "take (unat (ic_size c)) (drop (unat (ic_start c)) data)"
  have n: "NewChunkWithID cr (ic_id c) ?b False = Ok ch" "unat (ic_size c) \<le> length ?b"
    using assms by (auto simp: readChunkFromFile_def res_simps Let_def split: if_splits)
  show "fst (Chunk_ID cr ch) = ic_id c"
    using n(1) Chunk_ID_again by (fastforce simp: NewChunkWithID_def verify_new_def split: prod.splits if_splits)
  show len: "unat (ic_start c) + unat (ic_size c) \<le> length data \<or> ic_size c = 0"
    using n(2) unat_gt_0[of "ic_size c"] by auto
  show "Digest_Sum cr (chunk_bytes data c) = ic_id c" if "ic_size c \<noteq> 0"
  proof -
    have "unat (ic_size c) \<noteq> 0" using that by (simp add: unat_eq_zero)
    then have "?b \<noteq> []" using n(2) by auto
    then show ?thesis
      using n(1) by (auto simp: NewChunkWithID_def verify_new_def Chunk_ID_def Chunk_Data_def chunk_bytes_def slice_def split: prod.splits if_splits)
  qed
qed

context write_store begin

lemma chop_pool_ok:
  assumes "chop_run cr has put data n cancelled (chop_start chunks ws) st" "inv ws" "\<forall>c \<in> set chunks. is_chunk_id (ic_id c)"
  shows "pool_ok (ch_pool st)"
  using assms(1)
proof (induction "chop_start chunks ws" st rule: chop_run.induct)
  case chop_init
  then show ?case using pool_ok_new[OF assms(2)] by (simp add: chop_start_def)
next
  case (chop_fed st')
  then show ?case by (auto simp: chop_feed_def Let_def intro!: pool_ok_add split: list.splits)
next
  case (chop_stopped st')
  then show ?case by simp
next
  case (chop_worked st' k)
  note iv = chop_run_inv[OF chop_worked(1)]
  let ?j = "pl_jobs (ch_pool st') ! k"
  show ?case
  proof (cases "jb_at ?j = JobStart")
    case True
    have "jb_chunk ?j \<in> set chunks" using iv chop_worked(3) by (auto simp: chop_inv_def)
    then have "is_chunk_id (ic_id (jb_chunk ?j))" using assms(3) by blast
    then show ?thesis
      using True readChunk_Ok(1)[of cr data "jb_chunk ?j"] pool_ok_begin[OF chop_worked(2,3) True]
      by (auto simp: chop_work_def Let_def split: res.splits)
  next
    case False
    then show ?thesis using pool_step_ok[OF chop_worked(2,3) False chop_worked(4)] by (simp add: chop_work_def Let_def)
  qed
qed

lemma ChopFile_ok:
  assumes "ChopFile cr has put False (Ok data) chunks ws n (Ok ()) ws'" "inv ws" "\<forall>c \<in> set chunks. is_chunk_id (ic_id c)" "c \<in> set chunks" "0 < n"
  shows "present ws' (ic_id c) \<and> (\<exists>ch. readChunkFromFile cr data c = Ok ch)"
  using assms(1)
proof cases
  case (chopped data' st)
  then have d: "data' = data" and e: "pl_err (ch_pool st) = None" using assms(5) by (auto split: option.splits)
  note run = chopped(4)[unfolded d]
  note iv = chop_run_inv[OF run] and ok = chop_pool_ok[OF run assms(2,3)]
  obtain j where j: "j \<in> set (pl_jobs (ch_pool st))" "jb_chunk j = c"
    using iv chopped(5) e assms(4) by (auto simp: chop_inv_def)
  have "\<not> is_busy j" "job_ok (ch_pool st) j" using chopped(6) ok j(1) by (auto simp: all_done_def list_all_iff pool_ok_def)
  then have "readChunkFromFile cr data c = Ok (jb_data j)"
    using iv j e chopped(7) by (fastforce simp: chop_inv_def chop_job_def is_busy_def job_ok_def split: job_at.splits)
  moreover have "present ws' (job_id cr j)" using pool_done[OF ok chopped(6) e chopped(7) j(1)] chopped(2) by simp
  ultimately show ?thesis using readChunk_Ok(1) by metis
qed

end

section \<open>Filling a directory\<close>

lemma local_present_iff: "local_present s ws i \<longleftrightarrow> LocalStore_HasChunk s (fst ws) i = Ok True"
  by (simp add: local_present_def)

text \<open>
  (C9) \<open>ChunkStream\<close> into a directory store: when it returns an index, and its context was not cancelled, the
  index is the one of a single chunker over the whole stream, and the store has every chunk of it, whatever
  the number of workers and the order in which they take their steps. The reader ends with \<open>io.EOF\<close> and the
  minimum chunk size is below the maximum.
\<close>

theorem chunk_stream_complete:
  assumes "ChunkStream cr (local_has s) (local_put cr s) False c ws n (Ok idx) ws'" "NewChunker conv r mn avg mx = Ok c" "mn < mx"
    "10 * unat mx \<le> max_alloc" "rd_end r = EOF" "local_inv ws" "codec_ok cr"
  shows "idx_chunks idx = index_chunks cr (with_starts 0 (chunk_list (is_boundary c) (unat mn) (unat mx) (rd_data r))) \<and>
    (\<forall>x \<in> set (idx_chunks idx). LocalStore_HasChunk s (fst ws') (ic_id x) = Ok True)"
  using local_dir.ChunkStream_ok[OF assms(1) NewChunker_all_chunks[OF assms(2-5)] assms(6) sum_len[OF assms(7)]]
  by (simp add: local_present_iff)

text \<open>
  \<open>ChopFile\<close>: when it returns without an error and its context was not cancelled, every chunk of the
  list was found in the file with the right digest and is in the store.
\<close>

theorem chop_file_complete:
  assumes "ChopFile cr (local_has s) (local_put cr s) False (Ok data) chunks ws n (Ok ()) ws'" "local_inv ws" "0 < n"
    "\<forall>c \<in> set chunks. is_chunk_id (ic_id c) \<and> ic_size c \<noteq> 0"
  shows "\<forall>c \<in> set chunks. LocalStore_HasChunk s (fst ws') (ic_id c) = Ok True \<and>
    unat (ic_start c) + unat (ic_size c) \<le> length data \<and> Digest_Sum cr (chunk_bytes data c) = ic_id c"
proof
  fix c assume c: "c \<in> set chunks"
  have ids: "\<forall>c \<in> set chunks. is_chunk_id (ic_id c)" using assms(4) by blast
  note ok = local_dir.ChopFile_ok[OF assms(1,2) ids c assms(3)]
  then obtain ch where "readChunkFromFile cr data c = Ok ch" by blast
  from readChunk_Ok[OF this] show "LocalStore_HasChunk s (fst ws') (ic_id c) = Ok True \<and>
      unat (ic_start c) + unat (ic_size c) \<le> length data \<and> Digest_Sum cr (chunk_bytes data c) = ic_id c"
    using ok assms(4) c by (auto simp: local_present_iff)
qed

section \<open>A stream of three bytes\<close>

definition three_source :: source where
  "three_source = \<lparr>rd_data = [1, 2, 3], rd_end = EOF, rd_sizes = [], rd_eager = False, rd_seeker = False\<rparr>"

lemma three_chunks: "mx > mn \<Longrightarrow> 3 \<le> mn \<Longrightarrow> chunk_list b mn mx [1, 2, 3] = [[1, 2, 3]]"
  by (simp add: chunk_list.simps[of _ _ _ "[1, 2, 3]"] chunk_list.simps[of _ _ _ "[]"] cut_len_def Let_def)

definition dir_has :: "local_state has_fn" where "dir_has = local_has (local_store ''/s'' False)"

definition dir_put :: "local_state put_fn" where "dir_put = local_put toy_codec (local_store ''/s'' False)"

definition three_job :: "Chunk \<Rightarrow> chunk_id \<Rightarrow> job_at \<Rightarrow> job" where
  "three_job c i p = \<lparr>jb_num = 0, jb_chunk = \<lparr>ic_id = i, ic_start = 0, ic_size = 3\<rparr>, jb_data = c, jb_at = p\<rparr>"

definition marked_pool :: "local_state pool" where
  "marked_pool = (let p = new_pool ([], []) in put_job 0 (three_job (snd (Chunk_ID toy_codec (NewChunk [1, 2, 3]))) (pad_sum [1, 2, 3]) JobMark)
     (p\<lparr>pl_jobs := [three_job (NewChunk [1, 2, 3]) zero_id JobStart]\<rparr>))"

definition stored_pool :: "local_state pool" where
  "stored_pool = ((pool_step toy_codec dir_has dir_put 0) ^^ 3) marked_pool"

lemma stored_pool_steps:
  "list_all (\<lambda>i. let p = ((pool_step toy_codec dir_has dir_put 0) ^^ i) marked_pool in
     length (pl_jobs p) = 1 \<and> is_busy (pl_jobs p ! 0) \<and> jb_at (pl_jobs p ! 0) \<noteq> JobStart) [0, 1, 2]"
  "all_done stored_pool" "pl_err stored_pool = None" "pl_panic stored_pool = None"
  "map_of (fst (cs_ws (pl_storage stored_pool))) ''/s/0102/0102030101010101010101010101010101010101010101010101010101010101.cacnk'' \<noteq> None"
  by code_simp+

lemma three_next:
  assumes "NewChunker conv three_source 64 100 200 = Ok c"
  obtains c1 c2 where "Chunker_Next c = Ok (0, [1, 2, 3], None, c1)" "Chunker_Next c1 = Ok (3, [], None, c2)" "c_max c2 = 200"
proof -
  note f = NewChunker_fields[OF assms] and i = NewChunker_inv[OF assms]
  have inv: "chunker_inv c" "remaining c = [1, 2, 3]" using i by (simp_all add: max_alloc_def three_source_def)
  have cut: "chunk_cut c = 3" using f inv by (simp add: chunk_cut_def cut_len_def)
  obtain c1 where c1: "Chunker_Next c = Ok (0, [1, 2, 3], None, c1)" "chunker_inv c1" "same_cuts c c1" "remaining c1 = []" "c_start c1 = 3" "rd_end (c_r c1) = EOF"
    using Chunker_Next_spec[OF inv(1)] f cut inv(2) by (auto simp: three_source_def)
  obtain c2 where "Chunker_Next c1 = Ok (3, [], None, c2)" "same_cuts c1 c2"
    using Chunker_Next_spec[OF c1(2,6)] c1 by auto
  then show thesis using that c1 f by (auto simp: same_cuts_def)
qed

lemma three_run:
  assumes "NewChunker conv three_source 64 100 200 = Ok c" "0 < n"
  obtains idx where "ChunkStream toy_codec dir_has dir_put False c ([], []) n (Ok idx) (cs_ws (pl_storage stored_pool))"
    "idx_chunks idx = [\<lparr>ic_id = pad_sum [1, 2, 3], ic_start = 0, ic_size = 3\<rparr>]" "ChunkSizeMax (idx_index idx) = 200"
proof -
  obtain c1 c2 where nx: "Chunker_Next c = Ok (0, [1, 2, 3], None, c1)" "Chunker_Next c1 = Ok (3, [], None, c2)" "c_max c2 = 200"
    using three_next[OF assms(1)] .
  let ?ws = "([], []) :: local_state" and ?r = "[(0, \<lparr>ic_id = pad_sum [1, 2, 3], ic_start = 0, ic_size = 3\<rparr>)]"
  let ?run = "stream_run toy_codec dir_has dir_put n False (stream_start c ?ws)"
  let ?st = "\<lambda>p. \<lparr>ss_chunker = c1, ss_num = 1, ss_feed = Feeding, ss_pool = p, ss_results = ?r\<rparr>"
  let ?st1 = "\<lparr>ss_chunker = c1, ss_num = 1, ss_feed = Feeding,
      ss_pool = (new_pool ?ws)\<lparr>pl_jobs := [three_job (NewChunk [1, 2, 3]) zero_id JobStart]\<rparr>, ss_results = []\<rparr>"
  have "stream_feed (stream_start c ?ws) = ?st1"
    using nx(1) by (simp add: stream_feed_def stream_start_def new_pool_def three_job_def Let_def)
  then have r1: "?run ?st1"
    using stream_run.stream_fed[OF stream_run.stream_init, of "stream_start c ?ws" n toy_codec dir_has dir_put False] assms(2)
    by (simp add: stream_start_def new_pool_def worker_free_def)
  define ch where "ch = snd (Chunk_ID toy_codec (NewChunk [1, 2, 3]))"
  have "fst (Chunk_ID toy_codec (NewChunk [1, 2, 3])) = pad_sum [1, 2, 3]" by code_simp
  then have id: "Chunk_ID toy_codec (NewChunk [1, 2, 3]) = (pad_sum [1, 2, 3], ch)" by (simp add: ch_def prod_eq_iff)
  have "stream_work toy_codec dir_has dir_put 0 ?st1 = ?st marked_pool"
    using id by (simp add: stream_work_def three_job_def marked_pool_def Let_def)
  then have m0: "?run (?st marked_pool)"
    using stream_run.stream_worked[OF r1, of 0] by (simp add: three_job_def is_busy_def)
  have more: "?run (?st (pool_step toy_codec dir_has dir_put 0 p))"
    if "?run (?st p)" "length (pl_jobs p) = 1 \<and> is_busy (pl_jobs p ! 0) \<and> jb_at (pl_jobs p ! 0) \<noteq> JobStart" for p
    using stream_run.stream_worked[OF that(1), of 0] that(2) by (simp add: stream_work_def Let_def)
  have "?run (?st stored_pool)"
    unfolding stored_pool_def numeral_3_eq_3 funpow.simps comp_def id_apply
    using more[OF more[OF more[OF m0]]] stored_pool_steps(1) by (simp add: Let_def numeral_2_eq_2)
  from stream_run.stream_fed[OF this] have fin: "?run (?st stored_pool\<lparr>ss_chunker := c2, ss_feed := Fed\<rparr>)"
    using nx(2) by (simp add: stream_has_next_def stream_feed_def)
  have "ChunkStream toy_codec dir_has dir_put False c ?ws n (Ok (stream_index (?st stored_pool\<lparr>ss_chunker := c2, ss_feed := Fed\<rparr>))) (cs_ws (pl_storage stored_pool))"
    using ChunkStream.completed[OF fin] stored_pool_steps by simp
  then show thesis by (rule that) (simp_all add: stream_index_def Let_def nx(3))
qed

theorem chunk_stream_complete_witness:
  "\<exists>c idx. NewChunker (\<lambda>_. 0) three_source 64 100 200 = Ok c \<and>
     ChunkStream toy_codec dir_has dir_put False c ([], []) 2 (Ok idx) (cs_ws (pl_storage stored_pool)) \<and>
     idx_chunks idx = index_chunks toy_codec (with_starts 0 (chunk_list (is_boundary c) (unat (64 :: u64)) (unat (200 :: u64)) [1, 2, 3])) \<and>
     (\<forall>x \<in> set (idx_chunks idx). LocalStore_HasChunk (local_store ''/s'' False) (fst (cs_ws (pl_storage stored_pool))) (ic_id x) = Ok True)"
proof -
  obtain c where c: "NewChunker (\<lambda>_. 0) three_source 64 100 200 = Ok c"
    using NewChunker_succeeds[of 64 100 200 "\<lambda>_. 0" three_source] by (auto simp: discriminator_100)
  obtain idx where idx: "ChunkStream toy_codec dir_has dir_put False c ([], []) 2 (Ok idx) (cs_ws (pl_storage stored_pool))"
    using three_run[OF c] by (metis zero_less_numeral)
  have data: "rd_data three_source = [1, 2, 3]" by (simp add: three_source_def)
  show ?thesis
    using chunk_stream_complete[OF idx[unfolded dir_has_def dir_put_def] c] c idx toy_codec_ok
    by (auto simp: max_alloc_def three_source_def local_inv_def)
qed

definition three_list :: "IndexChunk list" where
  "three_list = [\<lparr>ic_id = pad_sum [1, 2, 3], ic_start = 0, ic_size = 3\<rparr>]"

lemma three_read: "readChunkFromFile toy_codec [1, 2, 3] \<lparr>ic_id = pad_sum [1, 2, 3], ic_start = 0, ic_size = 3\<rparr> = Ok (snd (Chunk_ID toy_codec (NewChunk [1, 2, 3])))"
proof -
  have "NewChunkWithID toy_codec (pad_sum [1, 2, 3]) [1, 2, 3] False = Ok (snd (Chunk_ID toy_codec (NewChunk [1, 2, 3])))" by code_simp
  then show ?thesis by (simp add: readChunkFromFile_def make_bytes_def max_alloc_def)
qed

lemma three_chop:
  "ChopFile toy_codec dir_has dir_put False (Ok [1, 2, 3]) three_list ([], []) 1 (Ok ()) (cs_ws (pl_storage stored_pool))"
proof -
  let ?run = "chop_run toy_codec dir_has dir_put [1, 2, 3] 1 False (chop_start three_list ([], []))"
  let ?st = "\<lambda>p. \<lparr>ch_left = [], ch_feed = Feeding, ch_pool = p\<rparr> :: local_state chop_state"
  let ?p = "(new_pool ([], []))\<lparr>pl_jobs := [three_job (NewChunk []) (pad_sum [1, 2, 3]) JobStart]\<rparr> :: local_state pool"
  have "chop_feed (chop_start three_list ([], [])) = ?st ?p"
    by (simp add: chop_feed_def chop_start_def three_list_def new_pool_def three_job_def)
  moreover have "?run (chop_feed (chop_start three_list ([], [])))"
    by (rule chop_run.chop_fed[OF chop_run.chop_init]) (simp_all add: chop_start_def new_pool_def worker_free_def)
  ultimately have r1: "?run (?st ?p)" by simp
  have "chop_work toy_codec dir_has dir_put [1, 2, 3] 0 (?st ?p) = ?st marked_pool"
    by (simp add: chop_work_def three_job_def three_read marked_pool_def new_pool_def put_job_def Let_def)
  then have m0: "?run (?st marked_pool)"
    using chop_run.chop_worked[OF r1, of 0] by (simp add: three_job_def is_busy_def)
  have more: "?run (?st (pool_step toy_codec dir_has dir_put 0 p))"
    if "?run (?st p)" "length (pl_jobs p) = 1 \<and> is_busy (pl_jobs p ! 0) \<and> jb_at (pl_jobs p ! 0) \<noteq> JobStart" for p
    using chop_run.chop_worked[OF that(1), of 0] that(2) by (simp add: chop_work_def Let_def)
  have "?run (?st stored_pool)"
    unfolding stored_pool_def numeral_3_eq_3 funpow.simps comp_def id_apply
    using more[OF more[OF more[OF m0]]] stored_pool_steps(1) by (simp add: Let_def numeral_2_eq_2)
  from chop_run.chop_fed[OF this] have "?run (?st stored_pool\<lparr>ch_feed := Fed\<rparr>)" by (simp add: chop_feed_def)
  from ChopFile.chopped[OF _ this, of "Ok [1, 2, 3]"] show ?thesis using stored_pool_steps by simp
qed

theorem chop_file_complete_witness:
  "ChopFile toy_codec dir_has dir_put False (Ok [1, 2, 3]) three_list ([], []) 1 (Ok ()) (cs_ws (pl_storage stored_pool)) \<and>
   list_all (\<lambda>c. LocalStore_HasChunk (local_store ''/s'' False) (fst (cs_ws (pl_storage stored_pool))) (ic_id c) = Ok True \<and>
     unat (ic_start c) + unat (ic_size c) \<le> length [1, 2, 3 :: byte] \<and> Digest_Sum toy_codec (chunk_bytes [1, 2, 3] c) = ic_id c) three_list"
proof -
  have "\<forall>c \<in> set three_list. LocalStore_HasChunk (local_store ''/s'' False) (fst (cs_ws (pl_storage stored_pool))) (ic_id c) = Ok True \<and>
     unat (ic_start c) + unat (ic_size c) \<le> length [1, 2, 3 :: byte] \<and> Digest_Sum toy_codec (chunk_bytes [1, 2, 3] c) = ic_id c"
    by (rule chop_file_complete[OF three_chop[unfolded dir_has_def dir_put_def]])
       (simp_all add: three_list_def local_inv_def is_chunk_id_def pad_sum_def chunk_id_len_def)
  then show ?thesis using three_chop by (simp add: list_all_iff)
qed

end
