(* ===== verification/HTTP.thy ===== *)
theory HTTP
  imports Stores_Props Index Path
begin

text \<open>
  Chunks and indexes over HTTP: the client (\<^verbatim>\<open>src/remotehttp.go\<close>, \<^verbatim>\<open>src/remotehttpindex.go\<close>), the handlers of the
  servers (\<^verbatim>\<open>src/httphandlerbase.go\<close>, \<^verbatim>\<open>src/httphandler.go\<close>, \<^verbatim>\<open>src/httpindexhandler.go\<close>) and index files in a
  directory (\<^verbatim>\<open>src/localindex.go\<close>).

  The network is a parameter: what \<open>http.Client.Do\<close> returns for a request, with a state for all that is on
  the other side. So are the parsing of references and requests and the loading of certificates.
  A response is its status and its body. Waiting between attempts, logging and closing of bodies have no counterpart.
\<close>

section \<open>The client\<close>

record url =
  u_Scheme :: string
  u_Host :: string
  u_Path :: string

record http_request =
  rq_Method :: string
  rq_URL :: url
  rq_Authorization :: string
  rq_Cookie :: string
  rq_Body :: bytes

text \<open>
  \<open>url_Parse\<close> resolves a reference against a location (\<open>nil\<close> when that fails), \<open>NewRequest\<close> tells whether
  a request can be made, and \<open>client_Do\<close> gives the status and the body, which may end in an error.
\<close>

record 'w net_fns =
  url_Parse :: "url \<Rightarrow> string \<Rightarrow> url option"
  url_String :: "url \<Rightarrow> string"
  http_NewRequest :: "string \<Rightarrow> url \<Rightarrow> go_error option"
  client_Do :: "'w \<Rightarrow> http_request \<Rightarrow> (int \<times> bytes res) res \<times> 'w"

record client_config =
  cc_InsecureSkipVerify :: bool
  cc_Certificate :: "bytes option"
  cc_RootCAs :: "bytes option"
  cc_MaxIdleConnsPerHost :: int
  cc_Timeout :: int

record RemoteHTTPBase =
  rb_location :: url
  rb_client :: client_config
  rb_opt :: StoreOptions
  rb_converters :: converters

definition LoadX509KeyPair_step :: "(string \<Rightarrow> string \<Rightarrow> bytes res) \<Rightarrow> StoreOptions \<Rightarrow> bytes option res" where
  "LoadX509KeyPair_step load o' =
     (if ClientCert o' \<noteq> '''' \<and> ClientKey o' \<noteq> '''' then
        case load (ClientCert o') (ClientKey o') of
          Ok c \<Rightarrow> Ok (Some c)
        | Err e \<Rightarrow> Err (Errorf ''failed to load client certificate from %s'')
        | Panic x \<Rightarrow> Panic x
      else Ok None)"

definition CACert_step :: "(string \<Rightarrow> bytes res) \<Rightarrow> (bytes \<Rightarrow> bool) \<Rightarrow> StoreOptions \<Rightarrow> bytes option res" where
  "CACert_step readFile appendPEM o' =
     (if CACert o' \<noteq> '''' then
        bind_res (readFile (CACert o')) (\<lambda>b.
        if appendPEM b then Ok (Some b) else Err (Errorf ''no CA certificates found in ca-cert file''))
      else Ok None)"

text \<open>Durations are in nanoseconds.\<close>

definition client_timeout :: "StoreOptions \<Rightarrow> int" where
  "client_timeout o' = (if Timeout o' = 0 then 60 * 1000000000 else if Timeout o' < 0 then 0 else Timeout o')"

definition NewRemoteHTTPStoreBase ::
  "(string \<Rightarrow> string \<Rightarrow> bytes res) \<Rightarrow> (string \<Rightarrow> bytes res) \<Rightarrow> (bytes \<Rightarrow> bool) \<Rightarrow> url \<Rightarrow> StoreOptions \<Rightarrow> RemoteHTTPBase res" where
  "NewRemoteHTTPStoreBase load readFile appendPEM location o' =
     (if u_Scheme location \<noteq> ''http'' \<and> u_Scheme location \<noteq> ''https'' then
        Err (Errorf ''unsupported scheme %s, expected http or https'')
      else
        let location = (if u_Path location \<noteq> [] \<and> last (u_Path location) = CHR ''/'' then location
                        else location\<lparr>u_Path := u_Path location @ ''/''\<rparr>) in
        bind_res (LoadX509KeyPair_step load o') (\<lambda>cert.
        bind_res (CACert_step readFile appendPEM o') (\<lambda>roots.
        Ok \<lparr>rb_location = location,
            rb_client = \<lparr>cc_InsecureSkipVerify = TrustInsecure o', cc_Certificate = cert, cc_RootCAs = roots,
              cc_MaxIdleConnsPerHost = opt_N o', cc_Timeout = client_timeout o'\<rparr>,
            rb_opt = o', rb_converters = options_converters o'\<rparr>)))"

definition RemoteHTTPBase_String :: "'w net_fns \<Rightarrow> RemoteHTTPBase \<Rightarrow> string" where
  "RemoteHTTPBase_String net r = url_String net (rb_location r)"

text \<open>One request. The body is what the reader of \<open>getReader\<close> delivers, nothing for a \<open>nil\<close> reader.\<close>

definition IssueHttpRequest ::
  "'w net_fns \<Rightarrow> RemoteHTTPBase \<Rightarrow> 'w \<Rightarrow> string \<Rightarrow> url \<Rightarrow> bytes \<Rightarrow> (int \<times> bytes) res \<times> 'w" where
  "IssueHttpRequest net r w meth u body =
     (case http_NewRequest net meth u of
        Some e \<Rightarrow> (Err e, w)
      | None \<Rightarrow>
          let req = \<lparr>rq_Method = meth, rq_URL = u, rq_Authorization = HTTPAuth (rb_opt r), rq_Cookie = HTTPCookie (rb_opt r),
                     rq_Body = body\<rparr> in
          (case client_Do net w req of
             (Err e, w) \<Rightarrow> (Err (Wrapped (url_String net u) e), w)
           | (Panic x, w) \<Rightarrow> (Panic x, w)
           | (Ok (status, resp), w) \<Rightarrow>
               (case resp of
                  Err e \<Rightarrow> (Err (Wrapped (url_String net u) e), w)
                | Panic x \<Rightarrow> (Panic x, w)
                | Ok b \<Rightarrow> (Ok (status, b), w))))"

definition is_retryable :: "(int \<times> bytes) res \<Rightarrow> bool" where
  "is_retryable x \<longleftrightarrow> (case x of Err e \<Rightarrow> True | Ok (status, b) \<Rightarrow> status \<ge> 500 \<and> status < 600 | Panic p \<Rightarrow> False)"

text \<open>What is returned when no attempt is left: no status and no body, with the error, which may be \<open>nil\<close>.\<close>

definition give_up :: "(int \<times> bytes) res \<Rightarrow> (int \<times> bytes) res" where
  "give_up x = (case x of Err e \<Rightarrow> Err e | Ok _ \<Rightarrow> Ok (0, []) | Panic p \<Rightarrow> Panic p)"

function retry_loop ::
  "'w net_fns \<Rightarrow> RemoteHTTPBase \<Rightarrow> string \<Rightarrow> url \<Rightarrow> bytes \<Rightarrow> int \<Rightarrow> 'w \<Rightarrow> (int \<times> bytes) res \<times> 'w" where
  "retry_loop net r meth u body attempt w =
     (let attempt = attempt + 1 in
      case IssueHttpRequest net r w meth u body of (x, w) \<Rightarrow>
        if is_retryable x then
          if attempt \<ge> ErrorRetry (rb_opt r) then (give_up x, w) else retry_loop net r meth u body attempt w
        else (x, w))"
  by pat_completeness auto
termination by (relation "measure (\<lambda>(net, r, meth, u, body, attempt, w). nat (ErrorRetry (rb_opt r) - attempt))") auto

declare retry_loop.simps [simp del]

text \<open>A \<open>nil\<close> URL is dereferenced for the log.\<close>

definition IssueRetryableHttpRequest ::
  "'w net_fns \<Rightarrow> RemoteHTTPBase \<Rightarrow> 'w \<Rightarrow> string \<Rightarrow> url option \<Rightarrow> bytes \<Rightarrow> (int \<times> bytes) res \<times> 'w" where
  "IssueRetryableHttpRequest net r w meth u body =
     (case u of None \<Rightarrow> (Panic ''nil pointer dereference'', w) | Some u \<Rightarrow> retry_loop net r meth u body 0 w)"

definition GetObject :: "'w net_fns \<Rightarrow> RemoteHTTPBase \<Rightarrow> 'w \<Rightarrow> string \<Rightarrow> bytes res \<times> 'w" where
  "GetObject net r w name =
     (case IssueRetryableHttpRequest net r w ''GET'' (url_Parse net (rb_location r) name) [] of (x, w) \<Rightarrow>
        (bind_res x (\<lambda>(status, b).
           if status = 200 then Ok b
           else if status = 404 then Err (NoSuchObject name)
           else Err (Errorf ''unexpected status code %d from %s'')), w))"

definition StoreObject :: "'w net_fns \<Rightarrow> RemoteHTTPBase \<Rightarrow> 'w \<Rightarrow> string \<Rightarrow> bytes \<Rightarrow> unit res \<times> 'w" where
  "StoreObject net r w name body =
     (case IssueRetryableHttpRequest net r w ''PUT'' (url_Parse net (rb_location r) name) body of (x, w) \<Rightarrow>
        (bind_res x (\<lambda>(status, b). if status \<noteq> 200 \<and> status \<noteq> 201 then Err (Errorf (string_of_bytes b)) else Ok ()), w))"

definition NewRemoteHTTPStore ::
  "(string \<Rightarrow> string \<Rightarrow> bytes res) \<Rightarrow> (string \<Rightarrow> bytes res) \<Rightarrow> (bytes \<Rightarrow> bool) \<Rightarrow> url \<Rightarrow> StoreOptions \<Rightarrow> RemoteHTTPBase res" where
  "NewRemoteHTTPStore load readFile appendPEM location o' = NewRemoteHTTPStoreBase load readFile appendPEM location o'"

definition RemoteHTTP_nameFromID :: "RemoteHTTPBase \<Rightarrow> chunk_id \<Rightarrow> string res" where
  "RemoteHTTP_nameFromID r cid =
     (let sID = ChunkID_String cid in
      if length sID < 4 then Panic ''slice bounds out of range''
      else Ok (path_Join (take 4 sID) sID @ (if Uncompressed (rb_opt r) then UncompressedChunkExt else CompressedChunkExt)))"

definition RemoteHTTP_GetChunk :: "codec_fns \<Rightarrow> 'w net_fns \<Rightarrow> RemoteHTTPBase \<Rightarrow> 'w get_fn" where
  "RemoteHTTP_GetChunk cr net r w cid =
     (case RemoteHTTP_nameFromID r cid of
        Panic x \<Rightarrow> (Panic x, w)
      | Err e \<Rightarrow> (Err e, w)
      | Ok p \<Rightarrow>
          (case GetObject net r w p of
             (Err e, w) \<Rightarrow> (Err (case e of NoSuchObject _ \<Rightarrow> ChunkMissing cid | _ \<Rightarrow> e), w)
           | (Panic x, w) \<Rightarrow> (Panic x, w)
           | (Ok b, w) \<Rightarrow> (NewChunkFromStorage cr cid b (rb_converters r) (SkipVerify (rb_opt r)), w)))"

definition RemoteHTTP_HasChunk :: "'w net_fns \<Rightarrow> RemoteHTTPBase \<Rightarrow> 'w has_fn" where
  "RemoteHTTP_HasChunk net r w cid =
     (case RemoteHTTP_nameFromID r cid of
        Panic x \<Rightarrow> (Panic x, w)
      | Err e \<Rightarrow> (Err e, w)
      | Ok p \<Rightarrow>
          (case IssueRetryableHttpRequest net r w ''HEAD'' (url_Parse net (rb_location r) p) [] of (x, w) \<Rightarrow>
             (bind_res x (\<lambda>(status, b).
                if status = 200 then Ok True
                else if status = 404 then Ok False
                else Err (Errorf ''unexpected status code: %d'')), w)))"

definition RemoteHTTP_StoreChunk :: "codec_fns \<Rightarrow> 'w net_fns \<Rightarrow> RemoteHTTPBase \<Rightarrow> 'w put_fn" where
  "RemoteHTTP_StoreChunk cr net r w chunk =
     (case Chunk_ID cr chunk of (cid, chunk) \<Rightarrow>
      case RemoteHTTP_nameFromID r cid of
        Panic x \<Rightarrow> (Panic x, w)
      | Err e \<Rightarrow> (Err e, w)
      | Ok p \<Rightarrow>
          (case fst (Chunk_Storage cr chunk (rb_converters r)) of
             Err e \<Rightarrow> (Err e, w)
           | Panic x \<Rightarrow> (Panic x, w)
           | Ok b \<Rightarrow> StoreObject net r w p b))"

section \<open>The index client\<close>

definition RemoteHTTPIndex_GetIndexReader :: "'w net_fns \<Rightarrow> RemoteHTTPBase \<Rightarrow> 'w \<Rightarrow> string \<Rightarrow> stream res \<times> 'w" where
  "RemoteHTTPIndex_GetIndexReader net r w name =
     (case GetObject net r w name of (x, w) \<Rightarrow> (bind_res x (\<lambda>b. Ok (stream_of b)), w))"

definition RemoteHTTPIndex_GetIndex :: "hash_algorithm \<Rightarrow> 'w net_fns \<Rightarrow> RemoteHTTPBase \<Rightarrow> 'w \<Rightarrow> string \<Rightarrow> Index res \<times> 'w" where
  "RemoteHTTPIndex_GetIndex digest net r w name =
     (case RemoteHTTPIndex_GetIndexReader net r w name of (x, w) \<Rightarrow> (bind_res x (IndexFromReader digest), w))"

text \<open>The pipe delivers what \<open>WriteTo\<close> writes; an error of it is dropped and ends the body early.\<close>

definition RemoteHTTPIndex_StoreIndex :: "'w net_fns \<Rightarrow> RemoteHTTPBase \<Rightarrow> 'w \<Rightarrow> string \<Rightarrow> Index \<Rightarrow> unit res \<times> 'w" where
  "RemoteHTTPIndex_StoreIndex net r w name idx =
     (case Index_WriteTo idx empty_sink of (n, err, k) \<Rightarrow> StoreObject net r w name (sk_out k))"

section \<open>The handlers\<close>

text \<open>
  A request as the handler sees it. The body is a stream, which may end in an error. The text of an
  error is a parameter, \<open>etext\<close>.
\<close>

record server_request =
  sr_Method :: string
  sr_Path :: string
  sr_Authorization :: string
  sr_Body :: stream

record response =
  rs_status :: int
  rs_body :: bytes

record HTTPHandlerBase =
  hb_handlerType :: string
  hb_writable :: bool
  hb_authorization :: string

definition respond :: "int \<Rightarrow> string \<Rightarrow> response" where
  "respond status t = \<lparr>rs_status = status, rs_body = bytes_of_string t\<rparr>"

text \<open>\<open>http.Error\<close> and \<open>fmt.Fprintln\<close>.\<close>

definition http_Error :: "string \<Rightarrow> int \<Rightarrow> response" where
  "http_Error t status = respond status (t @ [CHR 0x0A])"

definition HTTPHandlerBase_get :: "(go_error \<Rightarrow> string) \<Rightarrow> HTTPHandlerBase \<Rightarrow> string \<Rightarrow> bytes \<Rightarrow> go_error option \<Rightarrow> response" where
  "HTTPHandlerBase_get etext h name b err =
     (case err of
        None \<Rightarrow> \<lparr>rs_status = 200, rs_body = b\<rparr>
      | Some (ChunkMissing _) \<Rightarrow> respond 404 (hb_handlerType h @ '' '' @ name @ '' not found'')
      | Some (NoSuchObject _) \<Rightarrow> respond 404 (hb_handlerType h @ '' '' @ name @ '' not found'')
      | Some e \<Rightarrow> http_Error (''failed to retrieve '' @ hb_handlerType h @ '' '' @ name @ '':'' @ etext e) 500)"

definition validateWritable :: "HTTPHandlerBase \<Rightarrow> string \<Rightarrow> response option" where
  "validateWritable h storeName =
     (if hb_writable h then None
      else Some (http_Error (''writing to upstream '' @ hb_handlerType h @ '' store '' @ [CHR 0x27] @ storeName @ [CHR 0x27] @ '' is not enabled'') 400))"

record HTTPHandler =
  hh_base :: HTTPHandlerBase
  hh_name :: string
  hh_SkipVerifyWrite :: bool
  hh_converters :: converters
  hh_compressed :: bool

definition NewHTTPHandler :: "string \<Rightarrow> bool \<Rightarrow> bool \<Rightarrow> converters \<Rightarrow> string \<Rightarrow> HTTPHandler" where
  "NewHTTPHandler name writable skipVerifyWrite convs auth =
     \<lparr>hh_base = \<lparr>hb_handlerType = ''chunk'', hb_writable = writable, hb_authorization = auth\<rparr>, hh_name = name,
      hh_SkipVerifyWrite = skipVerifyWrite, hh_converters = convs, hh_compressed = hasCompression convs\<rparr>"

text \<open>\<open>path.Join\<close> of several elements.\<close>

definition path_Join_list :: "string list \<Rightarrow> string" where
  "path_Join_list ps = (let qs = filter (\<lambda>p. p \<noteq> '''') ps in if qs = [] then '''' else path_Clean (join_path qs))"

definition idFromPath :: "HTTPHandler \<Rightarrow> string \<Rightarrow> chunk_id res" where
  "idFromPath h p =
     (if \<not> hh_compressed h \<and> suffix CompressedChunkExt p then
        Err (Errorf ''compressed chunk requested from http chunk store serving uncompressed chunks'')
      else
        let ext = (if hh_compressed h then CompressedChunkExt else UncompressedChunkExt);
            sID = trim_suffix (path_Base p) ext in
        if length sID < 4 \<or> p \<noteq> path_Join_list [''/'', take 4 sID, sID @ ext] then
          Err (Errorf ''expected format /<prefix>/<chunkid>%s'')
        else ChunkIDFromString sID)"

definition HTTPHandler_get :: "(go_error \<Rightarrow> string) \<Rightarrow> codec_fns \<Rightarrow> 's get_fn \<Rightarrow> HTTPHandler \<Rightarrow> 's \<Rightarrow> chunk_id \<Rightarrow> response res \<times> 's" where
  "HTTPHandler_get etext cr get h s cid =
     (case get s cid of (x, s) \<Rightarrow>
        ((case bind_res x (\<lambda>chunk. fst (Chunk_Storage cr chunk (hh_converters h))) of
            Ok b \<Rightarrow> Ok (HTTPHandlerBase_get etext (hh_base h) (ChunkID_String cid) b None)
          | Err e \<Rightarrow> Ok (HTTPHandlerBase_get etext (hh_base h) (ChunkID_String cid) [] (Some e))
          | Panic p \<Rightarrow> Panic p), s))"

definition HTTPHandler_head :: "(go_error \<Rightarrow> string) \<Rightarrow> 's has_fn \<Rightarrow> HTTPHandler \<Rightarrow> 's \<Rightarrow> chunk_id \<Rightarrow> response res \<times> 's" where
  "HTTPHandler_head etext has h s cid =
     (case has s cid of (x, s) \<Rightarrow>
        ((case x of
            Err e \<Rightarrow> Ok (http_Error (etext e) 500)
          | Ok hasChunk \<Rightarrow> Ok \<lparr>rs_status = if hasChunk then 200 else 404, rs_body = []\<rparr>
          | Panic p \<Rightarrow> Panic p), s))"

text \<open>\<open>io.Copy\<close> from a stream into a buffer.\<close>

definition read_all :: "stream \<Rightarrow> bytes res" where
  "read_all s = (if s_end s = EOF then Ok (s_data s) else Err (s_end s))"

text \<open>The store may not be a \<open>WriteStore\<close>: then there is no \<open>put\<close>.\<close>

definition HTTPHandler_put ::
  "(go_error \<Rightarrow> string) \<Rightarrow> codec_fns \<Rightarrow> 's put_fn option \<Rightarrow> HTTPHandler \<Rightarrow> 's \<Rightarrow> chunk_id \<Rightarrow> server_request \<Rightarrow> response res \<times> 's" where
  "HTTPHandler_put etext cr put h s cid r =
     (case validateWritable (hh_base h) (hh_name h) of
        Some resp \<Rightarrow> (Ok resp, s)
      | None \<Rightarrow>
          (case put of
             None \<Rightarrow> (Ok (http_Error (''upstream chunk store '' @ [CHR 0x27] @ hh_name h @ [CHR 0x27] @ '' does not support writing'') 400), s)
           | Some put \<Rightarrow>
               (case read_all (sr_Body r) of
                  Err e \<Rightarrow> (Ok (http_Error (etext e) 500), s)
                | Panic p \<Rightarrow> (Panic p, s)
                | Ok b \<Rightarrow>
                    (case NewChunkFromStorage cr cid b (hh_converters h) (hh_SkipVerifyWrite h) of
                       Err e \<Rightarrow> (Ok (http_Error (etext e) 400), s)
                     | Panic p \<Rightarrow> (Panic p, s)
                     | Ok chunk \<Rightarrow>
                         (case put s chunk of
                            (Err e, s) \<Rightarrow> (Ok (http_Error (etext e) 500), s)
                          | (Panic p, s) \<Rightarrow> (Panic p, s)
                          | (Ok _, s) \<Rightarrow> (Ok \<lparr>rs_status = 200, rs_body = []\<rparr>, s))))))"

definition HTTPHandler_ServeHTTP ::
  "(go_error \<Rightarrow> string) \<Rightarrow> codec_fns \<Rightarrow> 's get_fn \<Rightarrow> 's has_fn \<Rightarrow> 's put_fn option \<Rightarrow> HTTPHandler \<Rightarrow> 's \<Rightarrow> server_request \<Rightarrow> response res \<times> 's" where
  "HTTPHandler_ServeHTTP etext cr get has put h s r =
     (if hb_authorization (hh_base h) \<noteq> '''' \<and> sr_Authorization r \<noteq> hb_authorization (hh_base h) then (Ok (http_Error ''Unauthorized'' 401), s)
      else case idFromPath h (sr_Path r) of
        Err e \<Rightarrow> (Ok (http_Error (etext e) 400), s)
      | Panic p \<Rightarrow> (Panic p, s)
      | Ok cid \<Rightarrow>
          if sr_Method r = ''GET'' then HTTPHandler_get etext cr get h s cid
          else if sr_Method r = ''HEAD'' then HTTPHandler_head etext has h s cid
          else if sr_Method r = ''PUT'' then HTTPHandler_put etext cr put h s cid r
          else (Ok (respond 405 ''only GET, PUT and HEAD are supported''), s))"

section \<open>Index files in a directory\<close>

text \<open>
  The directory of a \<open>LocalIndexStore\<close>: its files, and the errors of the coming calls of \<open>os.Create\<close> with
  the number of bytes that can be written to the new file.
\<close>

record index_dir =
  xd_files :: "string \<rightharpoonup> bytes"
  xd_create :: "(go_error option \<times> nat option) list"

definition LocalIndexStore_GetIndexReader :: "string \<Rightarrow> index_dir \<Rightarrow> string \<Rightarrow> stream res" where
  "LocalIndexStore_GetIndexReader path d name =
     (case xd_files d (path @ name) of None \<Rightarrow> Err ErrNotExist | Some b \<Rightarrow> Ok (stream_of b))"

definition LocalIndexStore_GetIndex :: "hash_algorithm \<Rightarrow> string \<Rightarrow> index_dir \<Rightarrow> string \<Rightarrow> Index res" where
  "LocalIndexStore_GetIndex digest path d name =
     bind_res (LocalIndexStore_GetIndexReader path d name) (\<lambda>f.
     case IndexFromReader digest f of
       Err ErrNotExist \<Rightarrow> Err (Errorf ''Index file does not exist: %v'')
     | r \<Rightarrow> r)"

definition LocalIndexStore_StoreIndex :: "string \<Rightarrow> index_dir \<Rightarrow> string \<Rightarrow> Index \<Rightarrow> unit res \<times> index_dir" where
  "LocalIndexStore_StoreIndex path d name idx =
     (case (case xd_create d of [] \<Rightarrow> (None, None) | x # _ \<Rightarrow> x) of
        (Some e, room) \<Rightarrow> (Err e, d\<lparr>xd_create := tl (xd_create d)\<rparr>)
      | (None, room) \<Rightarrow>
          (case Index_WriteTo idx \<lparr>sk_out = [], sk_room = room\<rparr> of (n, err, k) \<Rightarrow>
             ((case err of None \<Rightarrow> Ok () | Some e \<Rightarrow> Err e),
              d\<lparr>xd_create := tl (xd_create d), xd_files := (xd_files d)(path @ name \<mapsto> sk_out k)\<rparr>)))"

text \<open>\<open>NewLocalIndexStore\<close>, with the result of \<open>os.Stat\<close>: whether the path is a directory.\<close>

definition NewLocalIndexStore :: "bool res \<Rightarrow> string \<Rightarrow> string res" where
  "NewLocalIndexStore stat path =
     bind_res stat (\<lambda>isDir.
     if \<not> isDir then Err (Errorf ''%s is not a directory'')
     else Ok (if suffix ''/'' path then path else path @ ''/''))"

section \<open>The handler of indexes\<close>

type_synonym 's get_index = "'s \<Rightarrow> string \<Rightarrow> Index res"
type_synonym 's get_index_reader = "'s \<Rightarrow> string \<Rightarrow> stream res"
type_synonym 's put_index = "'s \<Rightarrow> string \<Rightarrow> Index \<Rightarrow> unit res \<times> 's"

record HTTPIndexHandler =
  xh_base :: HTTPHandlerBase
  xh_name :: string

definition NewHTTPIndexHandler :: "string \<Rightarrow> bool \<Rightarrow> string \<Rightarrow> HTTPIndexHandler" where
  "NewHTTPIndexHandler name writable auth =
     \<lparr>xh_base = \<lparr>hb_handlerType = ''index'', hb_writable = writable, hb_authorization = auth\<rparr>, xh_name = name\<rparr>"

definition HTTPIndexHandler_get :: "(go_error \<Rightarrow> string) \<Rightarrow> 's get_index \<Rightarrow> HTTPIndexHandler \<Rightarrow> 's \<Rightarrow> string \<Rightarrow> response res" where
  "HTTPIndexHandler_get etext get h s indexName =
     (case get s indexName of
        Err e \<Rightarrow> Ok (http_Error (etext e) (if e = ErrNotExist then 404 else 400))
      | Panic p \<Rightarrow> Panic p
      | Ok idx \<Rightarrow>
          (case Index_WriteTo idx empty_sink of
             (n, Some e, k) \<Rightarrow> Ok (http_Error (etext e) 500)
           | (n, None, k) \<Rightarrow> Ok (HTTPHandlerBase_get etext (xh_base h) indexName (sk_out k) None)))"

definition HTTPIndexHandler_head :: "'s get_index_reader \<Rightarrow> 's \<Rightarrow> string \<Rightarrow> response res" where
  "HTTPIndexHandler_head reader s indexName =
     (case reader s indexName of
        Err e \<Rightarrow> Ok \<lparr>rs_status = 200, rs_body = []\<rparr>
      | Panic p \<Rightarrow> Panic p
      | Ok _ \<Rightarrow> Ok \<lparr>rs_status = 404, rs_body = []\<rparr>)"

definition HTTPIndexHandler_put ::
  "(go_error \<Rightarrow> string) \<Rightarrow> hash_algorithm \<Rightarrow> 's put_index option \<Rightarrow> HTTPIndexHandler \<Rightarrow> 's \<Rightarrow> string \<Rightarrow> server_request \<Rightarrow> response res \<times> 's" where
  "HTTPIndexHandler_put etext digest put h s indexName r =
     (case validateWritable (xh_base h) (xh_name h) of
        Some resp \<Rightarrow> (Ok resp, s)
      | None \<Rightarrow>
          (case put of
             None \<Rightarrow> (Ok (http_Error (''upstream index store '' @ [CHR 0x27] @ xh_name h @ [CHR 0x27] @ '' does not support writing'') 400), s)
           | Some put \<Rightarrow>
               (case IndexFromReader digest (sr_Body r) of
                  Err e \<Rightarrow> (Ok (http_Error (''invalid index: '' @ etext e) 415), s)
                | Panic p \<Rightarrow> (Panic p, s)
                | Ok idx \<Rightarrow>
                    (case put s indexName idx of
                       (Err e, s) \<Rightarrow> (Ok (http_Error (etext e) 500), s)
                     | (Panic p, s) \<Rightarrow> (Panic p, s)
                     | (Ok _, s) \<Rightarrow> (Ok \<lparr>rs_status = 200, rs_body = []\<rparr>, s)))))"

definition HTTPIndexHandler_ServeHTTP ::
  "(go_error \<Rightarrow> string) \<Rightarrow> hash_algorithm \<Rightarrow> 's get_index \<Rightarrow> 's get_index_reader \<Rightarrow> 's put_index option \<Rightarrow> HTTPIndexHandler \<Rightarrow> 's \<Rightarrow>
     server_request \<Rightarrow> response res \<times> 's" where
  "HTTPIndexHandler_ServeHTTP etext digest get reader put h s r =
     (let indexName = path_Base (sr_Path r) in
      if sr_Method r = ''GET'' then (HTTPIndexHandler_get etext get h s indexName, s)
      else if sr_Method r = ''HEAD'' then (HTTPIndexHandler_head reader s indexName, s)
      else if sr_Method r = ''PUT'' then HTTPIndexHandler_put etext digest put h s indexName r
      else (Ok (respond 405 ''only GET, PUT and HEAD are supported''), s))"

section \<open>A client and a handler\<close>

text \<open>
  A network between a client and a handler, as the documentation of \<open>net/http\<close> describes it: the handler gets the
  method, the path, the headers and the body of a request, the client gets the status and, unless the method is \<open>HEAD\<close>,
  the body. A handler that panics drops the connection. The network can fail: a request can be lost, or a
  response, or the end of the body of one.
\<close>

datatype link_fault = NoFault | RequestLost go_error | ResponseLost go_error | BodyCut go_error

definition server_view :: "http_request \<Rightarrow> server_request" where
  "server_view q = \<lparr>sr_Method = rq_Method q, sr_Path = u_Path (rq_URL q), sr_Authorization = rq_Authorization q, sr_Body = stream_of (rq_Body q)\<rparr>"

definition client_view :: "http_request \<Rightarrow> response res \<Rightarrow> (int \<times> bytes res) res" where
  "client_view q x = (case x of Ok resp \<Rightarrow> Ok (rs_status resp, Ok (if rq_Method q = ''HEAD'' then [] else rs_body resp)) | _ \<Rightarrow> Err EOF)"

definition link_Do ::
  "('s \<Rightarrow> server_request \<Rightarrow> response res \<times> 's) \<Rightarrow> 's \<times> link_fault list \<Rightarrow> http_request \<Rightarrow> (int \<times> bytes res) res \<times> ('s \<times> link_fault list)" where
  "link_Do srv w q =
     (let flt = (case snd w of [] \<Rightarrow> NoFault | f # _ \<Rightarrow> f); (x, s) = srv (fst w) (server_view q) in
      case flt of
        RequestLost e \<Rightarrow> (Err e, (fst w, tl (snd w)))
      | ResponseLost e \<Rightarrow> (Err e, (s, tl (snd w)))
      | BodyCut e \<Rightarrow> (bind_res (client_view q x) (\<lambda>(status, b). Ok (status, Err e)), (s, tl (snd w)))
      | NoFault \<Rightarrow> (client_view q x, (s, tl (snd w))))"

definition link_net ::
  "(url \<Rightarrow> string \<Rightarrow> url option) \<Rightarrow> ('s \<Rightarrow> server_request \<Rightarrow> response res \<times> 's) \<Rightarrow> ('s \<times> link_fault list) net_fns" where
  "link_net parse srv =
     \<lparr>url_Parse = parse, url_String = u_Path, http_NewRequest = (\<lambda>_ _. None), client_Do = link_Do srv\<rparr>"

end
