(* ===== verification/HTTP_Props.thy ===== *)
theory HTTP_Props
  imports HTTP Pipeline_Props
begin

text \<open>
  Properties of the HTTP client and handlers: how often a request is sent, what a client gets from an
  arbitrary server, that a client of a handler over an unreliable network keeps the contract of the store
  behind it, and the round trips of chunks and indexes.
\<close>

section \<open>Retrying\<close>

text \<open>The state after some requests have been sent, and the answer to the next one.\<close>

definition after_tries :: "'w net_fns \<Rightarrow> RemoteHTTPBase \<Rightarrow> string \<Rightarrow> url \<Rightarrow> bytes \<Rightarrow> nat \<Rightarrow> 'w \<Rightarrow> 'w" where
  "after_tries net r meth u body i w = ((\<lambda>w. snd (IssueHttpRequest net r w meth u body)) ^^ i) w"

definition answer :: "'w net_fns \<Rightarrow> RemoteHTTPBase \<Rightarrow> string \<Rightarrow> url \<Rightarrow> bytes \<Rightarrow> nat \<Rightarrow> 'w \<Rightarrow> (int \<times> bytes) res" where
  "answer net r meth u body i w = fst (IssueHttpRequest net r (after_tries net r meth u body i w) meth u body)"

lemma after_tries_0 [simp]: "after_tries net r meth u body 0 w = w"
  by (simp add: after_tries_def)

lemma tries_shift:
  assumes "IssueHttpRequest net r w meth u body = (x, w')"
  shows "after_tries net r meth u body (Suc i) w = after_tries net r meth u body i w'"
    "answer net r meth u body (Suc i) w = answer net r meth u body i w'" "answer net r meth u body 0 w = x"
  using assms by (simp_all add: answer_def after_tries_def funpow_Suc_right del: funpow.simps(2))

lemma retry_attempts:
  "\<exists>k. int k < max 1 (ErrorRetry (rb_opt r) - attempt) \<and> (\<forall>i < k. is_retryable (answer net r meth u body i w)) \<and>
     retry_loop net r meth u body attempt w =
       (let x = answer net r meth u body k w in if is_retryable x then give_up x else x, after_tries net r meth u body (Suc k) w) \<and>
     (is_retryable (answer net r meth u body k w) \<longrightarrow> int (Suc k) = max 1 (ErrorRetry (rb_opt r) - attempt))"
proof (induction net r meth u body attempt w rule: retry_loop.induct)
  case (1 net r meth u body attempt w)
  obtain x w' where s: "IssueHttpRequest net r w meth u body = (x, w')" by fastforce
  note sh = tries_shift[OF s]
  show ?case
  proof (cases "is_retryable x \<and> \<not> ErrorRetry (rb_opt r) \<le> attempt + 1")
    case True
    then have c: "is_retryable x" "\<not> ErrorRetry (rb_opt r) \<le> attempt + 1" by auto
    obtain k where k: "int k < max 1 (ErrorRetry (rb_opt r) - (attempt + 1))" "\<forall>i < k. is_retryable (answer net r meth u body i w')"
      "retry_loop net r meth u body (attempt + 1) w' =
         (let x = answer net r meth u body k w' in if is_retryable x then give_up x else x, after_tries net r meth u body (Suc k) w')"
      "is_retryable (answer net r meth u body k w') \<longrightarrow> int (Suc k) = max 1 (ErrorRetry (rb_opt r) - (attempt + 1))"
      using 1[OF refl s[symmetric] c] by blast
    have "is_retryable (answer net r meth u body i w)" if "i < Suc k" for i
      using that k(2) c(1) sh by (cases i) auto
    moreover have "retry_loop net r meth u body attempt w = retry_loop net r meth u body (attempt + 1) w'"
      using c s by (subst retry_loop.simps) (simp add: Let_def)
    ultimately show ?thesis using k c(2) by (intro exI[of _ "Suc k"]) (auto simp: sh)
  next
    case False
    then have "retry_loop net r meth u body attempt w = (if is_retryable x then give_up x else x, w')"
      using s by (subst retry_loop.simps) (auto simp: Let_def)
    then show ?thesis using False sh(3) sh(1)[of 0] by (intro exI[of _ 0]) auto
  qed
qed

lemma retry_last:
  assumes "retry_loop net r meth u body a w = (x, w')" "I w"
    and "\<And>w y w'. I w \<Longrightarrow> IssueHttpRequest net r w meth u body = (y, w') \<Longrightarrow> I w'"
  shows "\<exists>w1 y. I w1 \<and> IssueHttpRequest net r w1 meth u body = (y, w') \<and> x = (if is_retryable y then give_up y else y) \<and> I w'"
proof -
  have suc: "after_tries net r meth u body (Suc i) w = snd (IssueHttpRequest net r (after_tries net r meth u body i w) meth u body)" for i
    by (simp add: after_tries_def)
  have it: "I (after_tries net r meth u body i w)" for i
  proof (induction i)
    case (Suc i)
    then show ?case unfolding suc by (rule assms(3)) (rule prod.collapse[symmetric])
  qed (simp add: assms(2))
  obtain k where k: "x = (let x = answer net r meth u body k w in if is_retryable x then give_up x else x)" "w' = after_tries net r meth u body (Suc k) w"
    using retry_attempts[of r a net meth u body w] assms(1) by auto
  show ?thesis using it[of k] it[of "Suc k"] k
    by (intro exI[of _ "after_tries net r meth u body k w"] exI[of _ "answer net r meth u body k w"]) (auto simp: Let_def answer_def suc)
qed

text \<open>
  A request is sent again only after an error or a status of the 500s, and at most \<open>ErrorRetry\<close> times in all, but
  at least once. The result is the last answer; when that one could be retried still, all attempts have been made and status and body are dropped.
\<close>

theorem http_retry_bound:
  "\<exists>k. int k < max 1 (ErrorRetry (rb_opt r)) \<and> (\<forall>i < k. is_retryable (answer net r meth u body i w)) \<and>
     IssueRetryableHttpRequest net r w meth (Some u) body =
       (let x = answer net r meth u body k w in if is_retryable x then give_up x else x, after_tries net r meth u body (Suc k) w) \<and>
     (is_retryable (answer net r meth u body k w) \<longrightarrow> int (Suc k) = max 1 (ErrorRetry (rb_opt r)))"
  using retry_attempts[of r 0 net meth u body w] by (simp add: IssueRetryableHttpRequest_def)

section \<open>Names and paths\<close>

lemma hex_plain [simp]: "CHR ''/'' \<notin> set (hex_encode bs)" "CHR ''.'' \<notin> set (hex_encode bs)" "CHR ''k'' \<notin> set (hex_encode bs)"
  using hex_encode_chars[of bs] by auto

lemma take_plain: "c \<notin> set s \<Longrightarrow> c \<notin> set (take n s)"
  by (meson in_set_takeD)

lemma plain_no_dots: "CHR ''/'' \<notin> set s \<Longrightarrow> CHR ''.'' \<notin> set s \<Longrightarrow> s \<noteq> [] \<Longrightarrow> plain_part s"
  by (auto simp: plain_part_def)

definition chunk_path_of :: "string \<Rightarrow> string \<Rightarrow> string" where
  "chunk_path_of s ext = join_path [take 4 s, s @ ext]"

lemma plain_chunk_parts:
  assumes "CHR ''/'' \<notin> set s" "CHR ''.'' \<notin> set s" "4 \<le> length s" "ext \<in> {UncompressedChunkExt, CompressedChunkExt}"
  shows "\<forall>p \<in> set [take 4 s, s @ ext]. plain_part p"
proof -
  have "s \<noteq> []" "take 4 s \<noteq> []" using assms(3) by auto
  then have "plain_part (take 4 s)" using assms(1,2) by (intro plain_no_dots take_plain) auto
  moreover have "plain_part (s @ ext)"
  proof (cases s)
    case (Cons c cs)
    then show ?thesis using assms by (auto simp: plain_part_def UncompressedChunkExt_def CompressedChunkExt_def)
  qed (use assms in auto)
  ultimately show ?thesis by simp
qed

lemma rooted_Clean:
  assumes "\<forall>p \<in> set ps. plain_part p" "ps \<noteq> []"
  shows "path_Clean (''/'' @ ''/'' @ join_path ps) = ''/'' @ join_path ps"
proof -
  have "split_path (''/'' @ ''/'' @ join_path ps) = [] # [] # ps"
    using split_join[of ps] assms by (simp add: plain_part_def)
  then show ?thesis using clean_parts_plain[OF assms(1), of True "[]"] by (simp add: path_Clean_def)
qed

lemma Base_chunk:
  assumes "CHR ''/'' \<notin> set q" "q \<noteq> []"
  shows "path_Base (p @ ''/'' @ q) = q"
proof -
  have "dropWhile (\<lambda>c. c = CHR ''/'') (rev q @ CHR ''/'' # rev p) = rev q @ CHR ''/'' # rev p"
    using assms by (cases "rev q") (auto simp: rev_eq_Cons_iff)
  moreover have "takeWhile (\<lambda>c. c \<noteq> CHR ''/'') (rev q @ CHR ''/'' # rev p) = rev q"
    using assms(1) by (subst takeWhile_append2) auto
  ultimately show ?thesis using assms(2) by (simp add: path_Base_def Let_def)
qed

definition http_ext :: "bool \<Rightarrow> string" where
  "http_ext unc = (if unc then UncompressedChunkExt else CompressedChunkExt)"

lemma http_ext_cases: "http_ext unc \<in> {UncompressedChunkExt, CompressedChunkExt}"
  by (simp add: http_ext_def)

lemma hex_encode_Nil [simp]: "hex_encode cid = [] \<longleftrightarrow> cid = []"
  by (cases cid) simp_all

lemma nameFromID_path:
  assumes "RemoteHTTP_nameFromID r cid = Ok p"
  shows "4 \<le> length (hex_encode cid)" "p = chunk_path_of (hex_encode cid) (http_ext (Uncompressed (rb_opt r)))"
proof -
  show l: "4 \<le> length (hex_encode cid)" using assms by (simp add: RemoteHTTP_nameFromID_def ChunkID_String_def Let_def split: if_splits)
  have "\<forall>q \<in> set [take 4 (hex_encode cid), hex_encode cid]. plain_part q"
    using plain_chunk_parts[OF hex_plain(1,2) l, of UncompressedChunkExt] by (simp add: UncompressedChunkExt_def)
  note cl = Clean_join[OF this]
  have "take 4 (hex_encode cid) \<noteq> []" using l by auto
  then have "path_Join (take 4 (hex_encode cid)) (hex_encode cid) = join_path [take 4 (hex_encode cid), hex_encode cid]"
    using cl by (simp add: path_Join_def)
  then show "p = chunk_path_of (hex_encode cid) (http_ext (Uncompressed (rb_opt r)))"
    using assms l by (auto simp: RemoteHTTP_nameFromID_def ChunkID_String_def Let_def chunk_path_of_def http_ext_def)
qed

lemma nameFromID_Ok:
  assumes "is_chunk_id cid"
  shows "RemoteHTTP_nameFromID r cid = Ok (chunk_path_of (hex_encode cid) (http_ext (Uncompressed (rb_opt r))))"
proof -
  have "4 \<le> length (hex_encode cid)" using assms by (simp add: is_chunk_id_def chunk_id_len_def)
  then obtain p where "RemoteHTTP_nameFromID r cid = Ok p" by (simp add: RemoteHTTP_nameFromID_def ChunkID_String_def Let_def)
  then show ?thesis using nameFromID_path(2) by simp
qed

lemma trim_ext:
  "trim_suffix (hex_encode cid @ http_ext unc) (http_ext unc) = hex_encode cid"
  "trim_suffix (hex_encode cid) CompressedChunkExt = hex_encode cid"
proof -
  have "CHR ''k'' \<in> set CompressedChunkExt" by (simp add: CompressedChunkExt_def)
  then have "\<not> suffix CompressedChunkExt (hex_encode cid)" using hex_plain(3)[of cid] set_mono_suffix by blast
  then show "trim_suffix (hex_encode cid) CompressedChunkExt = hex_encode cid" by (simp add: trim_suffix_def)
qed (simp add: trim_suffix_def suffix_def)

lemma idFromPath_chunk:
  assumes "4 \<le> length (hex_encode cid)"
  shows "idFromPath h (''/'' @ chunk_path_of (hex_encode cid) (http_ext unc)) =
    (if hh_compressed h = (\<not> unc) then ChunkIDFromString (hex_encode cid)
     else if unc then Err (Errorf ''expected format /<prefix>/<chunkid>%s'')
     else Err (Errorf ''compressed chunk requested from http chunk store serving uncompressed chunks''))"
proof -
  let ?s = "hex_encode cid" and ?e = "http_ext (\<not> hh_compressed h)"
  let ?p = "''/'' @ chunk_path_of ?s (http_ext unc)"
  have p: "?p = (''/'' @ take 4 ?s) @ ''/'' @ (?s @ http_ext unc)" by (simp add: chunk_path_of_def)
  have base: "path_Base ?p = ?s @ http_ext unc"
    unfolding p by (rule Base_chunk) (use assms in \<open>auto simp: http_ext_def CompressedChunkExt_def UncompressedChunkExt_def\<close>)
  have join: "path_Join_list [''/'', take 4 ?s, ?s @ e] = ''/'' @ chunk_path_of ?s e" if "e \<in> {UncompressedChunkExt, CompressedChunkExt}" for e
  proof -
    have "take 4 ?s \<noteq> []" "?s \<noteq> []" using assms by auto
    then show ?thesis
      using rooted_Clean[OF plain_chunk_parts[OF hex_plain(1,2) assms that]] by (simp add: path_Join_list_def chunk_path_of_def)
  qed
  have suff: "suffix CompressedChunkExt ?p \<longleftrightarrow> \<not> unc"
  proof
    show "suffix CompressedChunkExt ?p" if "\<not> unc" 
      using that suffixI[of ?p "''/'' @ take 4 ?s @ ''/'' @ ?s" "http_ext unc"] by (simp add: chunk_path_of_def http_ext_def)
    show "\<not> unc" if h: "suffix CompressedChunkExt ?p"
    proof
      assume u: "unc"
      have "CHR ''k'' \<in> set CompressedChunkExt" by (simp add: CompressedChunkExt_def)
      then have "CHR ''k'' \<in> set ?p" using h set_mono_suffix by blast
      then show False using u hex_plain(3)[of cid] by (auto simp: chunk_path_of_def http_ext_def UncompressedChunkExt_def dest: in_set_takeD)
    qed
  qed
  have e: "(if hh_compressed h then CompressedChunkExt else UncompressedChunkExt) = ?e" by (simp add: http_ext_def)
  show ?thesis
  proof (cases "hh_compressed h = (\<not> unc)")
    case True
    then show ?thesis using assms suff join[OF http_ext_cases] base trim_ext(1)[of cid unc] unfolding idFromPath_def e by (simp add: Let_def)
  next
    case False
    have "?p \<noteq> ''/'' @ chunk_path_of ?s CompressedChunkExt" if unc
      using that by (simp add: chunk_path_of_def http_ext_def UncompressedChunkExt_def CompressedChunkExt_def)
    then show ?thesis using False assms suff join[of CompressedChunkExt] base trim_ext(2)[of cid]
      by (cases unc) (auto simp: idFromPath_def Let_def http_ext_def UncompressedChunkExt_def)
  qed
qed

lemma ChunkIDFromString_hex: "ChunkIDFromString (hex_encode cid) = (if is_chunk_id cid then Ok cid else Err (Errorf ''chunk id string not of right size''))"
  by (simp add: ChunkIDFromString_def ChunkIDFromSlice_def is_chunk_id_def)

text \<open>The handler reads from a path no other identifier than the client put there.\<close>

lemma idFromPath_name:
  assumes "RemoteHTTP_nameFromID r cid = Ok p" "idFromPath h (''/'' @ p) = Ok cid'"
  shows "cid' = cid \<and> is_chunk_id cid"
  using assms(2) unfolding nameFromID_path(2)[OF assms(1)] idFromPath_chunk[OF nameFromID_path(1)[OF assms(1)]]
  by (auto simp: ChunkIDFromString_hex split: if_splits)

section \<open>Over an unreliable network\<close>

text \<open>
  What resolving a reference has to do: a plain name below the root of a server is found there.
\<close>

definition plain_name :: "string \<Rightarrow> bool" where
  "plain_name n \<longleftrightarrow> list_all plain_part (split_path n) \<and>
     list_all (\<lambda>c. let k = of_char c :: nat in 48 \<le> k \<and> k \<le> 57 \<or> 97 \<le> k \<and> k \<le> 122 \<or> c = CHR ''.'' \<or> c = CHR ''/'') n"

definition resolves :: "(url \<Rightarrow> string \<Rightarrow> url option) \<Rightarrow> url \<Rightarrow> bool" where
  "resolves parse loc \<longleftrightarrow> (\<forall>n. plain_name n \<longrightarrow> parse loc n = Some (loc\<lparr>u_Path := ''/'' @ n\<rparr>))"

definition chunk_net ::
  "(url \<Rightarrow> string \<Rightarrow> url option) \<Rightarrow> (go_error \<Rightarrow> string) \<Rightarrow> codec_fns \<Rightarrow> 's get_fn \<Rightarrow> 's has_fn \<Rightarrow> 's put_fn \<Rightarrow> HTTPHandler \<Rightarrow> ('s \<times> link_fault list) net_fns" where
  "chunk_net parse etext cr get has put h = link_net parse (HTTPHandler_ServeHTTP etext cr get has (Some put) h)"

definition served :: "RemoteHTTPBase \<Rightarrow> string \<Rightarrow> string \<Rightarrow> bytes \<Rightarrow> server_request" where
  "served r meth p body = \<lparr>sr_Method = meth, sr_Path = p, sr_Authorization = HTTPAuth (rb_opt r), sr_Body = stream_of body\<rparr>"

lemma served_simps [simp]: "sr_Method (served r meth p body) = meth" "sr_Path (served r meth p body) = p"
  "sr_Authorization (served r meth p body) = HTTPAuth (rb_opt r)" "sr_Body (served r meth p body) = stream_of body"
  by (simp_all add: served_def)

lemma hex_lower: "c \<in> set (hex_encode bs) \<Longrightarrow> 48 \<le> (of_char c :: nat) \<and> (of_char c :: nat) \<le> 57 \<or> 97 \<le> (of_char c :: nat) \<and> (of_char c :: nat) \<le> 102"
  using hex_encode_chars[of bs] by auto

lemma plain_chunk_name: "4 \<le> length (hex_encode cid) \<Longrightarrow> plain_name (chunk_path_of (hex_encode cid) (http_ext unc))"
proof -
  assume l: "4 \<le> length (hex_encode cid)"
  note parts = plain_chunk_parts[OF hex_plain(1,2) l http_ext_cases[of unc]]
  have "split_path (chunk_path_of (hex_encode cid) (http_ext unc)) = [take 4 (hex_encode cid), hex_encode cid @ http_ext unc]"
    unfolding chunk_path_of_def by (rule split_join) (use parts in \<open>auto simp: plain_part_def\<close>)
  then have "list_all plain_part (split_path (chunk_path_of (hex_encode cid) (http_ext unc)))" using parts by simp
  moreover have "list_all (\<lambda>c. let k = of_char c :: nat in 48 \<le> k \<and> k \<le> 57 \<or> 97 \<le> k \<and> k \<le> 122 \<or> c = CHR ''.'' \<or> c = CHR ''/'') (hex_encode cid)"
    using hex_lower[of _ cid] by (fastforce simp: list_all_iff Let_def)
  then have "list_all (\<lambda>c. let k = of_char c :: nat in 48 \<le> k \<and> k \<le> 57 \<or> 97 \<le> k \<and> k \<le> 122 \<or> c = CHR ''.'' \<or> c = CHR ''/'')
      (chunk_path_of (hex_encode cid) (http_ext unc))"
    by (auto simp: chunk_path_of_def http_ext_def CompressedChunkExt_def UncompressedChunkExt_def list_all_iff dest: in_set_takeD)
  ultimately show ?thesis by (simp add: plain_name_def)
qed

lemma chunk_url:
  assumes "RemoteHTTP_nameFromID r cid = Ok p" "resolves parse loc"
  shows "parse loc p = Some (loc\<lparr>u_Path := ''/'' @ p\<rparr>)"
  using assms(2) plain_chunk_name[OF nameFromID_path(1)[OF assms(1)]] unfolding resolves_def nameFromID_path(2)[OF assms(1)] by blast

lemma link_issue:
  assumes "IssueHttpRequest (link_net parse srv) r w meth u body = (y, w')"
  shows "fst w' = fst w \<or> (\<exists>x. srv (fst w) (served r meth (u_Path u) body) = (x, fst w'))"
    "y = Ok (st, b) \<Longrightarrow> \<exists>resp. srv (fst w) (served r meth (u_Path u) body) = (Ok resp, fst w') \<and> rs_status resp = st \<and> b = (if meth = ''HEAD'' then [] else rs_body resp)"
    "y = Err e \<Longrightarrow> \<exists>m e'. e = Wrapped m e'"
  using assms
  by (auto simp: IssueHttpRequest_def link_net_def link_Do_def Let_def server_view_def client_view_def served_def
      split: prod.splits res.splits link_fault.splits list.splits)

lemma NewChunkFromStorage_ID:
  assumes "NewChunkFromStorage cr cid b ms sv = Ok c"
  shows "fst (Chunk_ID cr c) = cid"
proof (cases sv)
  case True
  then show ?thesis using assms by (auto simp: NewChunkFromStorage_def verify_new_def Chunk_ID_def)
next
  case False
  then have "Chunk_ID cr \<lparr>ch_data = [], ch_storage = b, ch_converters = ms, ch_id = cid, ch_idCalculated = False\<rparr> = (cid, c)"
    using assms by (auto simp: NewChunkFromStorage_def verify_new_def split: prod.splits if_splits)
  then show ?thesis by (rule Chunk_ID_again)
qed

lemma serve_head:
  assumes "HTTPHandler_ServeHTTP etext cr get has put h s q = (x, s')" "sr_Method q = ''HEAD''"
  shows "s' = s \<or> (\<exists>i y. has s i = (y, s'))"
    "x = Ok resp \<Longrightarrow> rs_status resp = 200 \<or> rs_status resp = 404 \<Longrightarrow> \<exists>i. idFromPath h (sr_Path q) = Ok i \<and> has s i = (Ok (rs_status resp = 200), s')"
  using assms
  by (auto simp: HTTPHandler_ServeHTTP_def HTTPHandler_head_def http_Error_def respond_def split: if_splits res.splits prod.splits)

lemma serve_put:
  assumes "HTTPHandler_ServeHTTP etext cr get has (Some put) h s q = (x, s')" "sr_Method q = ''PUT''"
  shows "s' = s \<or> (\<exists>c y. put s c = (y, s') \<and> idFromPath h (sr_Path q) = Ok (fst (Chunk_ID cr c)))"
    "x = Ok resp \<Longrightarrow> rs_status resp = 200 \<or> rs_status resp = 201 \<Longrightarrow>
     \<exists>i b c. idFromPath h (sr_Path q) = Ok i \<and> read_all (sr_Body q) = Ok b \<and>
       NewChunkFromStorage cr i b (hh_converters h) (hh_SkipVerifyWrite h) = Ok c \<and> put s c = (Ok (), s')"
  using assms
  by (auto simp: HTTPHandler_ServeHTTP_def HTTPHandler_put_def validateWritable_def http_Error_def respond_def
      dest: NewChunkFromStorage_ID split: if_splits res.splits prod.splits option.splits)

text \<open>The contract of a store that is reached over HTTP: it is the contract of the store behind the handler.\<close>

locale http_service = write_store cr has put inv present
  for cr has put inv and present :: "'s \<Rightarrow> chunk_id \<Rightarrow> bool" +
  fixes get :: "'s get_fn" and etext :: "go_error \<Rightarrow> string" and h :: HTTPHandler and r :: RemoteHTTPBase
    and parse :: "url \<Rightarrow> string \<Rightarrow> url option"
  assumes names: "resolves parse (rb_location r)"
begin

lemma has_over_http:
  assumes "RemoteHTTP_HasChunk (chunk_net parse etext cr get has put h) r w cid = (x, w')" "inv (fst w)"
  shows "inv (fst w') \<and> (\<forall>i. present (fst w) i \<longrightarrow> present (fst w') i) \<and>
    (\<forall>b. x = Ok b \<longrightarrow> b = present (fst w') cid \<and> (\<exists>s1. inv s1 \<and> has s1 cid = (Ok b, fst w')))"
proof (cases "RemoteHTTP_nameFromID r cid")
  case (Ok p)
  let ?u = "(rb_location r)\<lparr>u_Path := ''/'' @ p\<rparr>" and ?I = "\<lambda>w1. inv (fst w1) \<and> (\<forall>i. present (fst w) i \<longrightarrow> present (fst w1) i)"
  note net = chunk_net_def[of parse etext cr get has put h]
  obtain z where z: "retry_loop (chunk_net parse etext cr get has put h) r ''HEAD'' ?u [] 0 w = (z, w')"
    "x = bind_res z (\<lambda>(status, b). if status = 200 then Ok True else if status = 404 then Ok False else Err (Errorf ''unexpected status code: %d''))"
    using assms(1) Ok chunk_url[OF Ok names]
    by (auto simp: RemoteHTTP_HasChunk_def IssueRetryableHttpRequest_def net link_net_def split: prod.splits)
  have step: "?I w2" if "?I w1" "IssueHttpRequest (chunk_net parse etext cr get has put h) r w1 ''HEAD'' ?u [] = (y, w2)" for w1 y w2
    using link_issue(1)[OF that(2)[unfolded net]] that(1) has_inv by (fastforce dest: serve_head(1))
  obtain w1 y where y: "?I w1" "IssueHttpRequest (chunk_net parse etext cr get has put h) r w1 ''HEAD'' ?u [] = (y, w')"
    "z = (if is_retryable y then give_up y else y)" "?I w'"
    using retry_last[of "chunk_net parse etext cr get has put h" r "''HEAD''" ?u "[]" 0 w z w' ?I] z(1) assms(2) step by blast
  have "b = present (fst w') cid \<and> (\<exists>s1. inv s1 \<and> has s1 cid = (Ok b, fst w'))" if b: "x = Ok b" for b
  proof -
    obtain st bd where "z = Ok (st, bd)" "st = 200 \<or> st = 404" "b = (st = 200)"
      using b z(2) by (auto simp: res_simps split: if_splits)
    then have "y = Ok (st, bd)" using y(3) by (auto simp: give_up_def is_retryable_def split: res.splits if_splits)
    from link_issue(2)[OF y(2)[unfolded net] this] obtain resp where
      "HTTPHandler_ServeHTTP etext cr get has (Some put) h (fst w1) (served r ''HEAD'' (''/'' @ p) []) = (Ok resp, fst w')" "rs_status resp = st"
      by auto
    from serve_head(2)[OF this(1)] this(2) \<open>st = 200 \<or> st = 404\<close> \<open>b = (st = 200)\<close> obtain i
      where "idFromPath h (''/'' @ p) = Ok i" "has (fst w1) i = (Ok b, fst w')" by auto
    then show ?thesis using has_Ok y(1) idFromPath_name[OF Ok] by blast
  qed
  then show ?thesis using y(4) by blast
qed (use assms in \<open>auto simp: RemoteHTTP_HasChunk_def\<close>)

lemma put_over_http:
  assumes "RemoteHTTP_StoreChunk cr (chunk_net parse etext cr get has put h) r w c = (x, w')" "inv (fst w)"
  shows "inv (fst w') \<and> (\<forall>i. is_chunk_id i \<longrightarrow> present (fst w) i \<longrightarrow> present (fst w') i) \<and>
    (x = Ok () \<longrightarrow> present (fst w') (fst (Chunk_ID cr c)) \<and>
      (\<exists>s1 body c'. inv s1 \<and> fst (Chunk_Storage cr (snd (Chunk_ID cr c)) (rb_converters r)) = Ok body \<and> is_chunk_id (fst (Chunk_ID cr c)) \<and>
         NewChunkFromStorage cr (fst (Chunk_ID cr c)) body (hh_converters h) (hh_SkipVerifyWrite h) = Ok c' \<and> put s1 c' = (Ok (), fst w')))"
proof -
  let ?net = "chunk_net parse etext cr get has put h" and ?I = "\<lambda>w1. inv (fst w1) \<and> (\<forall>i. is_chunk_id i \<longrightarrow> present (fst w) i \<longrightarrow> present (fst w1) i)"
  let ?cid = "fst (Chunk_ID cr c)"
  note net = chunk_net_def[of parse etext cr get has put h]
  show ?thesis
  proof (cases "RemoteHTTP_nameFromID r ?cid")
    case (Ok p)
    let ?u = "(rb_location r)\<lparr>u_Path := ''/'' @ p\<rparr>"
    show ?thesis
    proof (cases "fst (Chunk_Storage cr (snd (Chunk_ID cr c)) (rb_converters r))")
      case (Ok body)
      note name = \<open>RemoteHTTP_nameFromID r ?cid = Ok p\<close>
      obtain z where z: "retry_loop ?net r ''PUT'' ?u body 0 w = (z, w')"
        "x = bind_res z (\<lambda>(status, b). if status \<noteq> 200 \<and> status \<noteq> 201 then Err (Errorf (string_of_bytes b)) else Ok ())"
        using assms(1) Ok name chunk_url[OF name names]
        by (auto simp: RemoteHTTP_StoreChunk_def StoreObject_def IssueRetryableHttpRequest_def net link_net_def split: prod.splits)
      have ids: "is_chunk_id i \<and> i = ?cid" if "idFromPath h (''/'' @ p) = Ok i" for i using idFromPath_name[OF name that] by simp
      have step: "?I w2" if iw: "?I w1" and sent: "IssueHttpRequest ?net r w1 ''PUT'' ?u body = (y, w2)" for w1 y w2
      proof -
        consider "fst w2 = fst w1" | v where "HTTPHandler_ServeHTTP etext cr get has (Some put) h (fst w1) (served r ''PUT'' (''/'' @ p) body) = (v, fst w2)"
          using link_issue(1)[OF sent[unfolded net]] by auto
        then show ?thesis
        proof cases
          case 2
          then consider "fst w2 = fst w1" | c' v' where "put (fst w1) c' = (v', fst w2)" "is_chunk_id (fst (Chunk_ID cr c'))"
            using serve_put(1)[OF 2] ids by auto
          then show ?thesis using iw put_inv by cases (simp, blast)
        qed (use iw in simp)
      qed
      obtain w1 y where y: "?I w1" "IssueHttpRequest ?net r w1 ''PUT'' ?u body = (y, w')" "z = (if is_retryable y then give_up y else y)" "?I w'"
        using retry_last[of ?net r "''PUT''" ?u body 0 w z w' ?I] z(1) assms(2) step by blast
      have "present (fst w') ?cid \<and> (\<exists>s1 c'. inv s1 \<and> is_chunk_id ?cid \<and>
          NewChunkFromStorage cr ?cid body (hh_converters h) (hh_SkipVerifyWrite h) = Ok c' \<and> put s1 c' = (Ok (), fst w'))" if ok: "x = Ok ()"
      proof -
        obtain st bd where "z = Ok (st, bd)" "st = 200 \<or> st = 201" using ok z(2) by (auto simp: res_simps split: if_splits)
        then have "y = Ok (st, bd)" using y(3) by (auto simp: give_up_def is_retryable_def split: res.splits if_splits)
        from link_issue(2)[OF y(2)[unfolded net] this] obtain resp where
          "HTTPHandler_ServeHTTP etext cr get has (Some put) h (fst w1) (served r ''PUT'' (''/'' @ p) body) = (Ok resp, fst w')" "rs_status resp = st"
          by auto
        from serve_put(2)[OF this(1)] this(2) \<open>st = 200 \<or> st = 201\<close> obtain i c'
          where c': "idFromPath h (''/'' @ p) = Ok i" "NewChunkFromStorage cr i body (hh_converters h) (hh_SkipVerifyWrite h) = Ok c'" "put (fst w1) c' = (Ok (), fst w')"
          by (auto simp: read_all_def stream_of_def)
        note i = ids[OF c'(1)] and id = NewChunkFromStorage_ID[OF c'(2)]
        then have "present (fst w') ?cid" using put_Ok[OF c'(3)] y(1) by auto
        then show ?thesis using c' y(1) i by auto
      qed
      then show ?thesis using y(4) Ok by blast
    qed (use assms Ok in \<open>auto simp: RemoteHTTP_StoreChunk_def split: prod.splits\<close>)
  qed (use assms in \<open>auto simp: RemoteHTTP_StoreChunk_def split: prod.splits\<close>)
qed

end

sublocale http_service \<subseteq> http: write_store cr "RemoteHTTP_HasChunk (chunk_net parse etext cr get has put h) r"
  "RemoteHTTP_StoreChunk cr (chunk_net parse etext cr get has put h) r" "\<lambda>w. inv (fst w)" "\<lambda>w. present (fst w)"
proof unfold_locales
  fix w cid x w' i c u b
  show "RemoteHTTP_HasChunk (chunk_net parse etext cr get has put h) r w cid = (x, w') \<Longrightarrow> inv (fst w) \<Longrightarrow>
      inv (fst w') \<and> (present (fst w) i \<longrightarrow> present (fst w') i)"
    "RemoteHTTP_HasChunk (chunk_net parse etext cr get has put h) r w cid = (Ok b, w') \<Longrightarrow> inv (fst w) \<Longrightarrow> b = present (fst w') cid"
    using has_over_http by blast+
  show "RemoteHTTP_StoreChunk cr (chunk_net parse etext cr get has put h) r w c = (u, w') \<Longrightarrow> inv (fst w) \<Longrightarrow> is_chunk_id (fst (Chunk_ID cr c)) \<Longrightarrow>
      is_chunk_id i \<Longrightarrow> inv (fst w') \<and> (present (fst w) i \<longrightarrow> present (fst w') i)"
    "RemoteHTTP_StoreChunk cr (chunk_net parse etext cr get has put h) r w c = (Ok (), w') \<Longrightarrow> inv (fst w) \<Longrightarrow> is_chunk_id (fst (Chunk_ID cr c)) \<Longrightarrow>
      present (fst w') (fst (Chunk_ID cr c))"
    using put_over_http by blast+
qed

definition root_parse :: "url \<Rightarrow> string \<Rightarrow> url option" where
  "root_parse loc n = Some (loc\<lparr>u_Path := ''/'' @ n\<rparr>)"

lemma root_resolves: "resolves root_parse loc"
  by (simp add: resolves_def root_parse_def)

interpretation http_dir: http_service cr "local_has s" "local_put cr s" local_inv "local_present s" "local_get cr s" etext h r root_parse
  for cr s etext h r
  by unfold_locales (rule root_resolves)

lemma http_dir_service:
  "resolves parse (rb_location r) \<Longrightarrow> http_service cr (local_has s) (local_put cr s) local_inv (local_present s) r parse"
  by (intro http_service.intro http_service_axioms.intro local_dir.write_store_axioms)

text \<open>A directory behind a handler and a network.\<close>

definition dir_net ::
  "(url \<Rightarrow> string \<Rightarrow> url option) \<Rightarrow> (go_error \<Rightarrow> string) \<Rightarrow> codec_fns \<Rightarrow> LocalStore \<Rightarrow> HTTPHandler \<Rightarrow> (local_state \<times> link_fault list) net_fns" where
  "dir_net parse etext cr s h = chunk_net parse etext cr (local_get cr s) (local_has s) (local_put cr s) h"

section \<open>The client alone\<close>

lemma http_get_valid:
  assumes "\<not> SkipVerify (rb_opt r)" "RemoteHTTP_GetChunk cr net r w cid = (Ok c, w')" "cid \<noteq> zero_id"
  shows "chunk_valid cr cid c"
  using assms NewChunkFromStorage_valid
  by (auto simp: RemoteHTTP_GetChunk_def split: res.splits prod.splits go_error.splits)

section \<open>A network without faults\<close>

lemma issue_clean:
  "IssueHttpRequest (link_net parse srv) r (s, []) meth u body =
     (case srv s (served r meth (u_Path u) body) of
        (Ok resp, s') \<Rightarrow> (Ok (rs_status resp, if meth = ''HEAD'' then [] else rs_body resp), (s', []))
      | (_, s') \<Rightarrow> (Err (Wrapped (u_Path u) EOF), (s', [])))"
  by (auto simp: IssueHttpRequest_def link_net_def link_Do_def Let_def server_view_def client_view_def served_def split: prod.splits res.splits)

lemma retry_at_once:
  assumes "IssueHttpRequest net r w meth u body = (x, w')" "\<not> is_retryable x"
  shows "retry_loop net r meth u body a w = (x, w')"
  using assms by (subst retry_loop.simps) (simp add: Let_def)

text \<open>A handler that fits the client: the same converters, and the right authorization or none.\<close>

definition fits :: "RemoteHTTPBase \<Rightarrow> HTTPHandler \<Rightarrow> bool" where
  "fits r h \<longleftrightarrow> rb_converters r = options_converters (rb_opt r) \<and> hh_converters h = rb_converters r \<and>
     hh_compressed h = hasCompression (rb_converters r) \<and>
     (hb_authorization (hh_base h) = '''' \<or> hb_authorization (hh_base h) = HTTPAuth (rb_opt r))"

lemma fits_path:
  assumes "fits r h" "is_chunk_id cid"
  shows "idFromPath h (''/'' @ chunk_path_of (hex_encode cid) (http_ext (Uncompressed (rb_opt r)))) = Ok cid"
proof -
  have "4 \<le> length (hex_encode cid)" using assms(2) by (simp add: is_chunk_id_def chunk_id_len_def)
  moreover have "hh_compressed h = (\<not> Uncompressed (rb_opt r))"
    using assms(1) by (auto simp: fits_def options_converters_def hasCompression_def)
  ultimately show ?thesis using idFromPath_chunk[of cid h "Uncompressed (rb_opt r)"] assms(2) by (simp add: ChunkIDFromString_hex)
qed

lemma fits_get:
  assumes "fits r h" "is_chunk_id cid" "p = chunk_path_of (hex_encode cid) (http_ext (Uncompressed (rb_opt r)))"
  shows "HTTPHandler_ServeHTTP etext cr get has put h s (served r ''GET'' (''/'' @ p) []) = HTTPHandler_get etext cr get h s cid"
  using assms(1) fits_path[OF assms(1,2)] assms(3) by (auto simp: HTTPHandler_ServeHTTP_def fits_def)

lemma GetObject_url:
  assumes "is_chunk_id cid" "resolves parse (rb_location r)" "p = chunk_path_of (hex_encode cid) (http_ext (Uncompressed (rb_opt r)))"
  shows "GetObject (chunk_net parse etext cr get has put h) r w p =
     (case retry_loop (chunk_net parse etext cr get has put h) r ''GET'' ((rb_location r)\<lparr>u_Path := ''/'' @ p\<rparr>) [] 0 w of (x, w) \<Rightarrow>
        (bind_res x (\<lambda>(status, b). if status = 200 then Ok b else if status = 404 then Err (NoSuchObject p)
           else Err (Errorf ''unexpected status code %d from %s'')), w))"
proof -
  have "url_Parse (chunk_net parse etext cr get has put h) = parse" by (simp add: chunk_net_def link_net_def)
  moreover have "parse (rb_location r) p = Some ((rb_location r)\<lparr>u_Path := ''/'' @ p\<rparr>)"
    using chunk_url[OF nameFromID_Ok[OF assms(1)] assms(2)] assms(3) by blast
  ultimately show ?thesis unfolding GetObject_def IssueRetryableHttpRequest_def by (simp only: option.case)
qed

lemma get_clean:
  assumes "fits r h" "is_chunk_id cid" "resolves parse (rb_location r)" "get s cid = (x, s)"
  shows "RemoteHTTP_GetChunk cr (chunk_net parse etext cr get has put h) r (s, []) cid =
    ((case bind_res x (\<lambda>c. fst (Chunk_Storage cr c (rb_converters r))) of
        Ok b \<Rightarrow> NewChunkFromStorage cr cid b (rb_converters r) (SkipVerify (rb_opt r))
      | Err (ChunkMissing _) \<Rightarrow> Err (ChunkMissing cid)
      | Err (NoSuchObject _) \<Rightarrow> Err (ChunkMissing cid)
      | Err _ \<Rightarrow> Err (Errorf ''unexpected status code %d from %s'')
      | Panic _ \<Rightarrow> Err (Wrapped (''/'' @ chunk_path_of (hex_encode cid) (http_ext (Uncompressed (rb_opt r)))) EOF)), (s, []))"
proof -
  define p where "p = chunk_path_of (hex_encode cid) (http_ext (Uncompressed (rb_opt r)))"
  let ?net = "chunk_net parse etext cr get has put h" and ?u = "(rb_location r)\<lparr>u_Path := ''/'' @ p\<rparr>"
  obtain y where y: "IssueHttpRequest ?net r (s, []) ''GET'' ?u [] = (y, (s, []))"
    "y = (case fst (HTTPHandler_get etext cr get h s cid) of Ok resp \<Rightarrow> Ok (rs_status resp, rs_body resp) | _ \<Rightarrow> Err (Wrapped (''/'' @ p) EOF))"
    unfolding chunk_net_def issue_clean using fits_get[OF assms(1,2) p_def, of etext cr get has "Some put" s] assms(4)
    by (auto simp: HTTPHandler_get_def split: prod.splits res.splits)
  obtain z w' where z: "retry_loop ?net r ''GET'' ?u [] 0 (s, []) = (z, w')" by (rule prod.exhaust)
  have zz: "z = (if is_retryable y then give_up y else y) \<and> w' = (s, [])"
  proof -
    have "\<exists>w1 y'. w1 = (s, []) \<and> IssueHttpRequest ?net r w1 ''GET'' ?u [] = (y', w') \<and> z = (if is_retryable y' then give_up y' else y') \<and> w' = (s, [])"
    proof (rule retry_last[OF z refl])
      show "w2 = (s, [])" if "w1 = (s, [])" "IssueHttpRequest ?net r w1 ''GET'' ?u [] = (y', w2)" for w1 y' w2
        using that(2) unfolding that(1) y(1) by blast
    qed
    then show ?thesis using y(1) by (elim exE conjE) (simp only: prod.inject)
  qed
  have conv: "hh_converters h = rb_converters r" using assms(1) by (simp add: fits_def)
  have go: "GetObject ?net r (s, []) p = (bind_res z (\<lambda>(status, b). if status = 200 then Ok b else if status = 404 then Err (NoSuchObject p)
           else Err (Errorf ''unexpected status code %d from %s'')), (s, []))"
    using GetObject_url[OF assms(2,3) p_def, of etext cr get has put h "(s, [])"] z zz by simp
  show ?thesis
    unfolding RemoteHTTP_GetChunk_def nameFromID_Ok[OF assms(2)] p_def[symmetric] res.case go
    using zz y(2) assms(4) conv
    by (auto simp: HTTPHandler_get_def HTTPHandlerBase_get_def respond_def http_Error_def is_retryable_def give_up_def
        split: res.splits go_error.splits)
qed

lemma http_get_holds:
  assumes "codec_ok cr" "fits r h" "resolves parse (rb_location r)" "get s (Digest_Sum cr b) = (Ok c, s)" "holds cr c b"
  shows "\<exists>c'. RemoteHTTP_GetChunk cr (chunk_net parse etext cr get has put h) r (s, []) (Digest_Sum cr b) = (Ok c', (s, [])) \<and> holds cr c' b"
proof -
  obtain sb where sb: "fst (Chunk_Storage cr c (rb_converters r)) = Ok sb" "fromStorage cr (rb_converters r) sb = Ok b" "sb \<noteq> []"
    using holds_Storage[OF assms(1,5)] by blast
  have "b \<noteq> []" using assms(5) by (simp add: holds_def)
  then obtain c' where "NewChunkFromStorage cr (Digest_Sum cr b) sb (rb_converters r) (SkipVerify (rb_opt r)) = Ok c'" "holds cr c' b"
    using NewChunkFromStorage_holds[OF sb(2,3) _ refl] by blast
  then show ?thesis using get_clean[of r h "Digest_Sum cr b" parse get s "Ok c" cr etext has put, OF assms(2) sum_len[OF assms(1)] assms(3,4)] sb(1) by simp
qed

lemma local_put_get:
  assumes "codec_ok cr" "holds cr c b" "local_inv st" "local_put cr s st c = (Ok (), st')"
  shows "\<exists>c'. LocalStore_GetChunk cr s (fst st') (Digest_Sum cr b) = Ok c' \<and> holds cr c' b"
proof -
  let ?id = "Digest_Sum cr b"
  obtain flt states where st: "LocalStore_StoreChunk cr s flt (fst st) c = (Ok (), states)" "fst st' = last states" "CHR ''/'' \<notin> set (of_name flt)"
    using assms(3,4) by (cases "snd st") (auto simp: local_put_def local_inv_def no_faults_def Let_def split: prod.splits)
  obtain sb where sb: "fromStorage cr (ls_converters s) sb = Ok b" "sb \<noteq> []"
    "store_bytes flt (fst st) (fst (nameFromID s ?id)) (snd (nameFromID s ?id)) sb = (Ok (), states)"
    using StoreChunk_holds[OF assms(1,2) st(1)] by blast
  have "map_of (last states) (snd (nameFromID s ?id)) = Some (clean_file sb)"
    using store_bytes_states[OF sb(3) tmp_not_chunk[OF st(3) sum_len[OF assms(1)]]] by simp
  then show ?thesis using GetChunk_file[OF _ sb(1,2)] assms(2) st(2) by (simp add: holds_def)
qed


text \<open>
  Whatever a server or the network sends, a client that verifies hands out only chunks whose data have the
  digest that was asked for.
\<close>

theorem http_client_integrity:
  assumes "\<not> SkipVerify (rb_opt r)" "RemoteHTTP_GetChunk cr net r w cid = (Ok c, w')" "cid \<noteq> zero_id"
  shows "(\<exists>b. fst (Chunk_Data cr c) = Ok b \<and> Digest_Sum cr b = cid) \<and> fst (Chunk_ID cr c) = cid"
  using http_get_valid[OF assms] by (simp add: chunk_valid_def)


text \<open>
  (C34) Storing over HTTP, with any handler on a directory store and over a network that may lose requests and
  responses: when \<open>StoreChunk\<close> of the client reports success the directory has the chunk, no chunk is lost from
  it in any case, and an answer of \<open>HasChunk\<close> is what the directory says.
\<close>

theorem http_write_store:
  assumes "resolves parse (rb_location r)" "local_inv (fst w)"
  shows "(RemoteHTTP_StoreChunk cr (dir_net parse etext cr s h) r w c = (x, w') \<longrightarrow>
      (x = Ok () \<longrightarrow> LocalStore_HasChunk s (fst (fst w')) (fst (Chunk_ID cr c)) = Ok True) \<and>
      (\<forall>i. is_chunk_id i \<longrightarrow> LocalStore_HasChunk s (fst (fst w)) i = Ok True \<longrightarrow> LocalStore_HasChunk s (fst (fst w')) i = Ok True)) \<and>
    (RemoteHTTP_HasChunk (dir_net parse etext cr s h) r w cid = (Ok b, w'') \<longrightarrow> LocalStore_HasChunk s (fst (fst w'')) cid = Ok b)"
proof -
  note srv = http_dir_service[OF assms(1), of cr s]
  have "LocalStore_HasChunk s (fst (fst w'')) cid = Ok b" if "RemoteHTTP_HasChunk (dir_net parse etext cr s h) r w cid = (Ok b, w'')"
  proof -
    note over = http_service.has_over_http[OF srv that[unfolded dir_net_def] assms(2)]
    obtain s1 where "local_has s s1 cid = (Ok b, fst w'')" using over by blast
    then show ?thesis unfolding local_has_def prod.inject by (elim conjE) simp
  qed
  moreover have "(x = Ok () \<longrightarrow> LocalStore_HasChunk s (fst (fst w')) (fst (Chunk_ID cr c)) = Ok True) \<and>
      (\<forall>i. is_chunk_id i \<longrightarrow> LocalStore_HasChunk s (fst (fst w)) i = Ok True \<longrightarrow> LocalStore_HasChunk s (fst (fst w')) i = Ok True)"
    if "RemoteHTTP_StoreChunk cr (dir_net parse etext cr s h) r w c = (x, w')"
    using http_service.put_over_http[OF srv that[unfolded dir_net_def] assms(2)] unfolding local_present_iff by blast
  ultimately show ?thesis by blast
qed


text \<open>
  (C10) A chunk that was stored over HTTP, at whatever attempt, can be read back over HTTP with its data, compressed or
  not, when client and handler have the same settings.
\<close>

theorem http_chunk_roundtrip:
  assumes "codec_ok cr" "holds cr c b" "fits r h" "resolves parse (rb_location r)" "local_inv st"
    and "RemoteHTTP_StoreChunk cr (dir_net parse etext cr s h) r (st, faults) c = (Ok (), (st', faults'))"
  shows "\<exists>c'. RemoteHTTP_GetChunk cr (dir_net parse etext cr s h) r (st', []) (Digest_Sum cr b) = (Ok c', (st', [])) \<and> holds cr c' b"
proof -
  let ?id = "Digest_Sum cr b"
  have cid: "fst (Chunk_ID cr c) = ?id" "holds cr (snd (Chunk_ID cr c)) b" using holds_ID[OF assms(2)] by auto
  obtain s1 body c1 where c1: "local_inv s1" "fst (Chunk_Storage cr (snd (Chunk_ID cr c)) (rb_converters r)) = Ok body"
    "NewChunkFromStorage cr ?id body (hh_converters h) (hh_SkipVerifyWrite h) = Ok c1" "local_put cr s s1 c1 = (Ok (), st')"
    using http_service.put_over_http[OF http_dir_service[OF assms(4)] assms(6)[unfolded dir_net_def]] assms(5) cid by auto
  have "fromStorage cr (rb_converters r) body = Ok b" "body \<noteq> []"
    using holds_Storage[OF assms(1) cid(2), of "rb_converters r"] c1(2) by auto
  then have "holds cr c1 b"
    using NewChunkFromStorage_holds[of cr "rb_converters r" body b ?id "hh_SkipVerifyWrite h"] c1(3) assms(2,3) by (auto simp: fits_def holds_def)
  then obtain c2 where "LocalStore_GetChunk cr s (fst st') ?id = Ok c2" "holds cr c2 b"
    using local_put_get[OF assms(1) _ c1(1,4)] by blast
  then show ?thesis using http_get_holds[OF assms(1,3,4), of "local_get cr s" st' b c2] unfolding dir_net_def by (simp add: local_get_def)
qed

lemma has_clean:
  assumes "fits r h" "is_chunk_id cid" "resolves parse (rb_location r)" "has s cid = (Ok b, s')"
  shows "RemoteHTTP_HasChunk (chunk_net parse etext cr get has put h) r (s, []) cid = (Ok b, (s', []))"
proof -
  define p where "p = chunk_path_of (hex_encode cid) (http_ext (Uncompressed (rb_opt r)))"
  let ?net = "chunk_net parse etext cr get has put h" and ?u = "(rb_location r)\<lparr>u_Path := ''/'' @ p\<rparr>"
  have "HTTPHandler_ServeHTTP etext cr get has (Some put) h s (served r ''HEAD'' (''/'' @ p) []) = (Ok \<lparr>rs_status = if b then 200 else 404, rs_body = []\<rparr>, s')"
    using assms(1,4) fits_path[OF assms(1,2)] p_def by (auto simp: HTTPHandler_ServeHTTP_def HTTPHandler_head_def fits_def)
  then have "IssueHttpRequest ?net r (s, []) ''HEAD'' ?u [] = (Ok (if b then 200 else 404, []), (s', []))"
    unfolding chunk_net_def issue_clean by simp
  then have "retry_loop ?net r ''HEAD'' ?u [] 0 (s, []) = (Ok (if b then 200 else 404, []), (s', []))"
    by (rule retry_at_once) (simp add: is_retryable_def)
  moreover have "url_Parse ?net (rb_location r) p = Some ?u"
    using chunk_url[OF nameFromID_Ok[OF assms(2)] assms(3)] p_def unfolding chunk_net_def link_net_def by simp
  ultimately show ?thesis
    unfolding RemoteHTTP_HasChunk_def IssueRetryableHttpRequest_def nameFromID_Ok[OF assms(2)] p_def[symmetric] by simp
qed

text \<open>An error of the store behind the handler is answered with status 500, and retried until the attempts are used up.\<close>

lemma has_clean_error:
  assumes "fits r h" "is_chunk_id cid" "resolves parse (rb_location r)" "has s cid = (Err e, s)"
  shows "RemoteHTTP_HasChunk (chunk_net parse etext cr get has put h) r (s, []) cid =
    (Err (Errorf ''unexpected status code: %d''), (s, []))"
proof -
  define p where "p = chunk_path_of (hex_encode cid) (http_ext (Uncompressed (rb_opt r)))"
  let ?net = "chunk_net parse etext cr get has put h" and ?u = "(rb_location r)\<lparr>u_Path := ''/'' @ p\<rparr>"
  have "HTTPHandler_ServeHTTP etext cr get has (Some put) h s (served r ''HEAD'' (''/'' @ p) []) = (Ok (http_Error (etext e) 500), s)"
    using assms(1,4) fits_path[OF assms(1,2)] p_def by (auto simp: HTTPHandler_ServeHTTP_def HTTPHandler_head_def fits_def)
  then have y: "IssueHttpRequest ?net r (s, []) ''HEAD'' ?u [] = (Ok (500, []), (s, []))"
    unfolding chunk_net_def issue_clean by (simp add: http_Error_def respond_def)
  obtain z w' where z: "retry_loop ?net r ''HEAD'' ?u [] 0 (s, []) = (z, w')" by (rule prod.exhaust)
  have "\<exists>w1 y'. w1 = (s, []) \<and> IssueHttpRequest ?net r w1 ''HEAD'' ?u [] = (y', w') \<and> z = (if is_retryable y' then give_up y' else y') \<and> w' = (s, [])"
  proof (rule retry_last[OF z refl])
    show "w2 = (s, [])" if "w1 = (s, [])" "IssueHttpRequest ?net r w1 ''HEAD'' ?u [] = (y', w2)" for w1 y' w2
      using that(2) unfolding that(1) y by blast
  qed
  then obtain y' where "IssueHttpRequest ?net r (s, []) ''HEAD'' ?u [] = (y', w')" "z = (if is_retryable y' then give_up y' else y')"
    and w': "w' = (s, [])" by blast
  then have "z = Ok (0, [])" unfolding y prod.inject by (elim conjE, hypsubst) (simp add: is_retryable_def give_up_def)
  moreover have "url_Parse ?net (rb_location r) p = Some ?u"
    using chunk_url[OF nameFromID_Ok[OF assms(2)] assms(3)] p_def unfolding chunk_net_def link_net_def by simp
  ultimately show ?thesis using z w'
    unfolding RemoteHTTP_HasChunk_def IssueRetryableHttpRequest_def nameFromID_Ok[OF assms(2)] p_def[symmetric] by simp
qed

lemma NewChunkFromStorage_Ok_holds:
  assumes "NewChunkFromStorage cr cid sb ms False = Ok c" "cid \<noteq> zero_id" "Digest_Sum cr [] \<noteq> cid"
  shows "\<exists>b. holds cr c b \<and> Digest_Sum cr b = cid"
  using assms
  by (auto simp: NewChunkFromStorage_def verify_new_def Chunk_ID_def Chunk_Data_def holds_def split: if_splits res.splits prod.splits)

lemma GetChunk_cases:
  assumes "\<not> SkipVerify (ls_Opt s)" "cid \<noteq> zero_id" "Digest_Sum cr [] \<noteq> cid"
  shows "(\<exists>c b. LocalStore_GetChunk cr s fs cid = Ok c \<and> holds cr c b \<and> Digest_Sum cr b = cid) \<or>
    LocalStore_GetChunk cr s fs cid = Err (ChunkMissing cid) \<or> (\<exists>i. LocalStore_GetChunk cr s fs cid = Err (ChunkInvalid cid i))"
proof -
  have new: "(\<exists>c b. NewChunkFromStorage cr cid sb (ls_converters s) False = Ok c \<and> holds cr c b \<and> Digest_Sum cr b = cid) \<or>
    (\<exists>i. NewChunkFromStorage cr cid sb (ls_converters s) False = Err (ChunkInvalid cid i))" for sb
    using NewChunkFromStorage_Ok_holds[OF _ assms(2,3)]
    by (cases "NewChunkFromStorage cr cid sb (ls_converters s) False")
       (fastforce simp: NewChunkFromStorage_def verify_new_def split: prod.splits if_splits)+
  show ?thesis using new[of "[]"] new assms(1)
    by (cases "os_ReadFile fs (snd (nameFromID s cid))") (auto simp: LocalStore_GetChunk_def Let_def split: go_error.split)
qed


text \<open>
  (C11) Over a network without faults the client is the directory behind the handler: \<open>HasChunk\<close> gives
  the same answer, or an error when the directory gives one, \<open>GetChunk\<close> gives a chunk with the same data, a missing chunk is reported as missing, and another
  error of the directory is an error that is not taken for a missing chunk.
\<close>

theorem http_store_refines:
  assumes "codec_ok cr" "fits r h" "resolves parse (rb_location r)" "\<not> SkipVerify (ls_Opt s)"
    and "is_chunk_id cid" "cid \<noteq> zero_id" "Digest_Sum cr [] \<noteq> cid"
  shows "RemoteHTTP_HasChunk (dir_net parse etext cr s h) r (st, []) cid =
      ((case LocalStore_HasChunk s (fst st) cid of Ok b \<Rightarrow> Ok b | _ \<Rightarrow> Err (Errorf ''unexpected status code: %d'')), (st, [])) \<and>
    (\<exists>x. RemoteHTTP_GetChunk cr (dir_net parse etext cr s h) r (st, []) cid = (x, (st, [])) \<and>
      (case LocalStore_GetChunk cr s (fst st) cid of
         Ok c \<Rightarrow> \<exists>c'. x = Ok c' \<and> fst (Chunk_Data cr c') = fst (Chunk_Data cr c)
       | Err (ChunkMissing _) \<Rightarrow> x = Err (ChunkMissing cid)
       | _ \<Rightarrow> \<exists>e. x = Err e \<and> (\<forall>i. e \<noteq> ChunkMissing i)))"
proof
  consider (answer) b where "local_has s st cid = (Ok b, st)" | (refused) e where "local_has s st cid = (Err e, st)"
    by (cases "LocalStore_HasChunk s (fst st) cid") (auto simp: local_has_def HasChunk_eq split: option.splits)
  then show "RemoteHTTP_HasChunk (dir_net parse etext cr s h) r (st, []) cid =
      ((case LocalStore_HasChunk s (fst st) cid of Ok b \<Rightarrow> Ok b | _ \<Rightarrow> Err (Errorf ''unexpected status code: %d'')), (st, []))"
    unfolding dir_net_def
    by cases (simp_all add: has_clean[OF assms(2,5,3)] has_clean_error[OF assms(2,5,3)], simp_all add: local_has_def)
  note gc = get_clean[OF assms(2,5,3), of "local_get cr s" st "LocalStore_GetChunk cr s (fst st) cid" cr etext "local_has s" "local_put cr s", folded dir_net_def]
  consider (ok) c b where "LocalStore_GetChunk cr s (fst st) cid = Ok c" "holds cr c b" "Digest_Sum cr b = cid"
    | (missing) "LocalStore_GetChunk cr s (fst st) cid = Err (ChunkMissing cid)" | (bad) i where "LocalStore_GetChunk cr s (fst st) cid = Err (ChunkInvalid cid i)"
    using GetChunk_cases[OF assms(4,6,7), of "fst st"] by blast
  then show "\<exists>x. RemoteHTTP_GetChunk cr (dir_net parse etext cr s h) r (st, []) cid = (x, (st, [])) \<and>
      (case LocalStore_GetChunk cr s (fst st) cid of
         Ok c \<Rightarrow> \<exists>c'. x = Ok c' \<and> fst (Chunk_Data cr c') = fst (Chunk_Data cr c)
       | Err (ChunkMissing _) \<Rightarrow> x = Err (ChunkMissing cid)
       | _ \<Rightarrow> \<exists>e. x = Err e \<and> (\<forall>i. e \<noteq> ChunkMissing i))"
  proof cases
    case ok
    then have "local_get cr s st (Digest_Sum cr b) = (Ok c, st)" by (simp add: local_get_def)
    from http_get_holds[where get = "local_get cr s" and s = st and etext = etext and has = "local_has s" and put = "local_put cr s", OF assms(1-3) this ok(2), folded dir_net_def]
    show ?thesis using ok holds_Data[of cr _ b] by (auto simp del: fst_conv)
  qed (use gc in \<open>simp_all add: local_get_def\<close>)
qed


text \<open>
  A handler with an authorization answers requests without it with status 401 and does not touch the store. A
  \<open>PUT\<close> changes the store only when the handler is writable, by storing the chunk in the body under the
  identifier in the path, and unless verification is turned off the data of the chunk have that digest.
\<close>

theorem http_handler_guards:
  assumes "HTTPHandler_ServeHTTP etext cr get has put h s q = (x, s')"
  shows "(hb_authorization (hh_base h) \<noteq> '''' \<longrightarrow> sr_Authorization q \<noteq> hb_authorization (hh_base h) \<longrightarrow>
      s' = s \<and> (\<exists>resp. x = Ok resp \<and> rs_status resp = 401)) \<and>
    (sr_Method q = ''PUT'' \<longrightarrow> s' \<noteq> s \<longrightarrow> hb_writable (hh_base h) \<and>
      (\<exists>f cid b c y. put = Some f \<and> idFromPath h (sr_Path q) = Ok cid \<and> read_all (sr_Body q) = Ok b \<and> f s c = (y, s') \<and>
        NewChunkFromStorage cr cid b (hh_converters h) (hh_SkipVerifyWrite h) = Ok c \<and>
        (\<not> hh_SkipVerifyWrite h \<longrightarrow> cid \<noteq> zero_id \<longrightarrow> chunk_valid cr cid c)))"
proof (intro conjI impI)
  assume "sr_Method q = ''PUT''" "s' \<noteq> s"
  then obtain f cid b c y where "put = Some f" "idFromPath h (sr_Path q) = Ok cid" "read_all (sr_Body q) = Ok b" "f s c = (y, s')"
    "NewChunkFromStorage cr cid b (hh_converters h) (hh_SkipVerifyWrite h) = Ok c" "hb_writable (hh_base h)"
    using assms by (auto simp: HTTPHandler_ServeHTTP_def HTTPHandler_put_def validateWritable_def split: if_splits res.splits option.splits prod.splits)
  moreover have "chunk_valid cr cid c" if "\<not> hh_SkipVerifyWrite h" "cid \<noteq> zero_id"
    using NewChunkFromStorage_valid[of cr cid b "hh_converters h" c] calculation(5) that by simp
  ultimately show "\<exists>f cid b c y. put = Some f \<and> idFromPath h (sr_Path q) = Ok cid \<and> read_all (sr_Body q) = Ok b \<and> f s c = (y, s') \<and>
        NewChunkFromStorage cr cid b (hh_converters h) (hh_SkipVerifyWrite h) = Ok c \<and>
        (\<not> hh_SkipVerifyWrite h \<longrightarrow> cid \<noteq> zero_id \<longrightarrow> chunk_valid cr cid c)" "hb_writable (hh_base h)" by blast+
qed (use assms in \<open>auto simp: HTTPHandler_ServeHTTP_def http_Error_def respond_def split: if_splits\<close>)


definition index_net ::
  "(url \<Rightarrow> string \<Rightarrow> url option) \<Rightarrow> (go_error \<Rightarrow> string) \<Rightarrow> hash_algorithm \<Rightarrow> string \<Rightarrow> HTTPIndexHandler \<Rightarrow> (index_dir \<times> link_fault list) net_fns" where
  "index_net parse etext digest path h = link_net parse
     (HTTPIndexHandler_ServeHTTP etext digest (LocalIndexStore_GetIndex digest path) (LocalIndexStore_GetIndexReader path)
       (Some (LocalIndexStore_StoreIndex path)) h)"

lemma index_request:
  assumes "resolves parse (rb_location r)" "plain_name name"
    and "HTTPIndexHandler_ServeHTTP etext digest (LocalIndexStore_GetIndex digest path) (LocalIndexStore_GetIndexReader path)
       (Some (LocalIndexStore_StoreIndex path)) h d (served r meth (''/'' @ name) body) = (Ok resp, d')"
    and "rs_status resp = 200" "meth \<noteq> ''HEAD''"
  shows "IssueRetryableHttpRequest (index_net parse etext digest path h) r (d, []) meth (url_Parse (index_net parse etext digest path h) (rb_location r) name) body =
    (Ok (200, rs_body resp), (d', []))"
proof -
  let ?net = "index_net parse etext digest path h" and ?u = "(rb_location r)\<lparr>u_Path := ''/'' @ name\<rparr>"
  have "url_Parse ?net (rb_location r) name = Some ?u" using assms(1,2) by (simp add: index_net_def link_net_def resolves_def)
  moreover have "IssueHttpRequest ?net r (d, []) meth ?u body = (Ok (200, rs_body resp), (d', []))"
    unfolding index_net_def issue_clean using assms(3-5) by simp
  then have "retry_loop ?net r meth ?u body 0 (d, []) = (Ok (200, rs_body resp), (d', []))"
    by (rule retry_at_once) (simp add: is_retryable_def)
  ultimately show ?thesis by (simp add: IssueRetryableHttpRequest_def)
qed

text \<open>
  (C35) An index that is stored over HTTP in a directory, under a name of small letters, digits and dots, with a writable
  handler and when nothing fails, can be read back. The authorization of the handler and that of the
  client do not matter: the handler of indexes never looks at it.
\<close>

theorem http_index_roundtrip:
  assumes "wf_index digest i" "plain_part name" "plain_name name" "resolves parse (rb_location r)" "xd_create d = []" "hb_writable (xh_base h)"
  shows "\<exists>d'. RemoteHTTPIndex_StoreIndex (index_net parse etext digest path h) r (d, []) name i = (Ok (), (d', [])) \<and>
    RemoteHTTPIndex_GetIndex digest (index_net parse etext digest path h) r (d', []) name = (Ok i, (d', []))"
proof -
  obtain n k where w: "Index_WriteTo i empty_sink = (n, None, k)" "IndexFromReader digest (stream_of (sk_out k)) = Ok i"
    using WriteTo_read_back[OF assms(1)] by blast
  have base: "path_Base (''/'' @ name) = name" using Base_chunk[of name "[]"] assms(2) by (simp add: plain_part_def)
  define d' where "d' = d\<lparr>xd_files := (xd_files d)(path @ name \<mapsto> sk_out k)\<rparr>"
  have "LocalIndexStore_StoreIndex path d name i = (Ok (), d')"
    using w(1) assms(5) by (simp add: LocalIndexStore_StoreIndex_def empty_sink_def d'_def)
  then have "HTTPIndexHandler_ServeHTTP etext digest (LocalIndexStore_GetIndex digest path) (LocalIndexStore_GetIndexReader path)
       (Some (LocalIndexStore_StoreIndex path)) h d (served r ''PUT'' (''/'' @ name) (sk_out k)) = (Ok \<lparr>rs_status = 200, rs_body = []\<rparr>, d')"
    using base w(2) assms(6) by (simp add: HTTPIndexHandler_ServeHTTP_def HTTPIndexHandler_put_def validateWritable_def Let_def)
  from index_request[OF assms(4,3) this]
  have "RemoteHTTPIndex_StoreIndex (index_net parse etext digest path h) r (d, []) name i = (Ok (), (d', []))"
    using w(1) by (simp add: RemoteHTTPIndex_StoreIndex_def StoreObject_def)
  moreover have "LocalIndexStore_GetIndex digest path d' name = Ok i"
    using w(2) by (simp add: LocalIndexStore_GetIndex_def LocalIndexStore_GetIndexReader_def d'_def)
  then have "HTTPIndexHandler_ServeHTTP etext digest (LocalIndexStore_GetIndex digest path) (LocalIndexStore_GetIndexReader path)
       (Some (LocalIndexStore_StoreIndex path)) h d' (served r ''GET'' (''/'' @ name) []) = (Ok \<lparr>rs_status = 200, rs_body = sk_out k\<rparr>, d')"
    using base w(1) by (simp add: HTTPIndexHandler_ServeHTTP_def HTTPIndexHandler_get_def HTTPHandlerBase_get_def Let_def)
  from index_request[OF assms(4,3) this]
  have "RemoteHTTPIndex_GetIndex digest (index_net parse etext digest path h) r (d', []) name = (Ok i, (d', []))"
    using w(2) by (simp add: RemoteHTTPIndex_GetIndex_def RemoteHTTPIndex_GetIndexReader_def GetObject_def)
  ultimately show ?thesis by blast
qed

definition http_client :: RemoteHTTPBase where
  "http_client =
     \<lparr>rb_location = \<lparr>u_Scheme = ''http'', u_Host = ''store'', u_Path = ''/''\<rparr>,
      rb_client = \<lparr>cc_InsecureSkipVerify = False, cc_Certificate = None, cc_RootCAs = None, cc_MaxIdleConnsPerHost = 0, cc_Timeout = 60000000000\<rparr>,
      rb_opt = NewStoreOptionsWithDefaults, rb_converters = [Compressor]\<rparr>"

lemma http_client_new:
  "NewRemoteHTTPStore load readFile appendPEM \<lparr>u_Scheme = ''http'', u_Host = ''store'', u_Path = ''''\<rparr> NewStoreOptionsWithDefaults = Ok http_client"
  by (simp add: NewRemoteHTTPStore_def NewRemoteHTTPStoreBase_def LoadX509KeyPair_step_def CACert_step_def client_timeout_def
      NewStoreOptionsWithDefaults_def zero_options_def options_converters_def http_client_def Let_def)

definition http_handler :: HTTPHandler where
  "http_handler = NewHTTPHandler ''/s'' True False [Compressor] ''''"

definition http_net :: "(local_state \<times> link_fault list) net_fns" where
  "http_net = dir_net root_parse (\<lambda>_. ''error'') toy_codec (local_store ''/s'' False) http_handler"

lemma http_fits: "fits http_client http_handler"
  by (simp add: fits_def http_client_def http_handler_def NewHTTPHandler_def options_converters_def NewStoreOptionsWithDefaults_def)

definition http_stored :: "unit res \<times> local_state \<times> link_fault list" where
  "http_stored = RemoteHTTP_StoreChunk toy_codec http_net http_client (([], []), [ResponseLost EOF, BodyCut ErrUnexpectedEOF]) (NewChunk [1, 2, 3])"

lemma http_stored_ok: "fst http_stored = Ok ()"
  by code_simp

abbreviation http_directory :: local_state where
  "http_directory \<equiv> fst (snd http_stored)"

abbreviation http_id :: chunk_id where
  "http_id \<equiv> Digest_Sum toy_codec [1, 2, 3]"

lemma http_client_simps [simp]: "resolves root_parse (rb_location r)" "SkipVerify (rb_opt http_client) = False" "ErrorRetry (rb_opt http_client) = 3"
  by (simp_all add: root_resolves http_client_def NewStoreOptionsWithDefaults_def DefaultErrorRetry_def)

lemma http_ids: "http_id \<noteq> zero_id" "Digest_Sum toy_codec [] \<noteq> http_id" "is_chunk_id http_id"
  by code_simp+

lemma http_stored_eq:
  "RemoteHTTP_StoreChunk toy_codec http_net http_client (([], []), [ResponseLost EOF, BodyCut ErrUnexpectedEOF]) (NewChunk [1, 2, 3]) =
     (Ok (), (http_directory, snd (snd http_stored)))"
  using http_stored_ok by (simp add: http_stored_def prod_eq_iff)

theorem http_retry_bound_witness:
  "\<exists>k. int k < 3 \<and> list_all (\<lambda>i. is_retryable (answer http_net http_client ''GET'' (rb_location http_client) [] i (([], []), [RequestLost EOF]))) [0..<k] \<and>
     IssueRetryableHttpRequest http_net http_client (([], []), [RequestLost EOF]) ''GET'' (Some (rb_location http_client)) [] =
       (let x = answer http_net http_client ''GET'' (rb_location http_client) [] k (([], []), [RequestLost EOF]) in if is_retryable x then give_up x else x,
        after_tries http_net http_client ''GET'' (rb_location http_client) [] (Suc k) (([], []), [RequestLost EOF]))"
  using http_retry_bound[of http_client http_net "''GET''" "rb_location http_client" "[]" "(([], []), [RequestLost EOF])"]
  by (auto simp: list_all_iff)

theorem http_client_integrity_witness:
  "\<exists>c w'. RemoteHTTP_GetChunk toy_codec http_net http_client (http_directory, []) http_id = (Ok c, w') \<and>
     (\<exists>b. fst (Chunk_Data toy_codec c) = Ok b \<and> Digest_Sum toy_codec b = http_id) \<and> fst (Chunk_ID toy_codec c) = http_id"
proof -
  have "case RemoteHTTP_GetChunk toy_codec http_net http_client (http_directory, []) http_id of (Ok c, _) \<Rightarrow> True | _ \<Rightarrow> False" by code_simp
  then obtain c w' where g: "RemoteHTTP_GetChunk toy_codec http_net http_client (http_directory, []) http_id = (Ok c, w')"
    by (auto split: prod.splits res.splits)
  then show ?thesis using http_client_integrity[OF _ g http_ids(1)] by auto
qed

theorem http_write_store_witness:
  "LocalStore_HasChunk (local_store ''/s'' False) (fst http_directory) (fst (Chunk_ID toy_codec (NewChunk [1, 2, 3]))) = Ok True"
  using http_write_store[of root_parse http_client "(([], []), [ResponseLost EOF, BodyCut ErrUnexpectedEOF])" toy_codec "\<lambda>_. ''error''"
      "local_store ''/s'' False" http_handler "NewChunk [1, 2, 3]" "Ok ()" "(http_directory, snd (snd http_stored))"]
    http_stored_eq unfolding http_net_def by (simp add: local_inv_def)

theorem http_chunk_roundtrip_witness:
  "\<exists>c'. RemoteHTTP_GetChunk toy_codec http_net http_client (http_directory, []) http_id = (Ok c', (http_directory, [])) \<and> holds toy_codec c' [1, 2, 3]"
  unfolding http_net_def
  by (rule http_chunk_roundtrip[OF toy_codec_ok _ http_fits _ _ http_stored_eq[unfolded http_net_def]]) (simp_all add: holds_NewChunk local_inv_def)

theorem http_store_refines_witness:
  "RemoteHTTP_HasChunk http_net http_client (http_directory, []) http_id =
      ((case LocalStore_HasChunk (local_store ''/s'' False) (fst http_directory) http_id of Ok b \<Rightarrow> Ok b
        | _ \<Rightarrow> Err (Errorf ''unexpected status code: %d'')), (http_directory, [])) \<and>
    (\<exists>x. RemoteHTTP_GetChunk toy_codec http_net http_client (http_directory, []) http_id = (x, (http_directory, [])) \<and>
      (case LocalStore_GetChunk toy_codec (local_store ''/s'' False) (fst http_directory) http_id of
         Ok c \<Rightarrow> \<exists>c'. x = Ok c' \<and> fst (Chunk_Data toy_codec c') = fst (Chunk_Data toy_codec c)
       | Err (ChunkMissing _) \<Rightarrow> x = Err (ChunkMissing http_id)
       | _ \<Rightarrow> \<exists>e. x = Err e \<and> (\<forall>i. e \<noteq> ChunkMissing i)))"
  unfolding http_net_def
  by (rule http_store_refines[OF toy_codec_ok http_fits _ _ http_ids(3,1,2)]) (simp_all add: local_store_def NewStoreOptionsWithDefaults_def Let_def)

definition http_put :: server_request where
  "http_put = served http_client ''PUT'' (''/'' @ chunk_path_of (hex_encode http_id) CompressedChunkExt) (Compress toy_codec [1, 2, 3])"

theorem http_handler_guards_witness:
  "\<exists>x s'. HTTPHandler_ServeHTTP (\<lambda>_. ''error'') toy_codec (local_get toy_codec (local_store ''/s'' False)) (local_has (local_store ''/s'' False))
       (Some (local_put toy_codec (local_store ''/s'' False))) http_handler ([], []) http_put = (x, s') \<and> s' \<noteq> ([], []) \<and> hb_writable (hh_base http_handler) \<and>
     (\<exists>cid b c. idFromPath http_handler (sr_Path http_put) = Ok cid \<and> read_all (sr_Body http_put) = Ok b \<and>
       NewChunkFromStorage toy_codec cid b (hh_converters http_handler) (hh_SkipVerifyWrite http_handler) = Ok c)"
proof -
  let ?serve = "HTTPHandler_ServeHTTP (\<lambda>_. ''error'') toy_codec (local_get toy_codec (local_store ''/s'' False)) (local_has (local_store ''/s'' False))
       (Some (local_put toy_codec (local_store ''/s'' False))) http_handler ([], []) http_put"
  obtain x s' where r: "?serve = (x, s')" by (rule prod.exhaust)
  have "fst (snd ?serve) \<noteq> []" by code_simp
  then have ne: "s' \<noteq> ([], [])" using r by auto
  have "sr_Method http_put = ''PUT''" by (simp add: http_put_def)
  with http_handler_guards[OF r] ne r show ?thesis by blast
qed

definition http_indexes :: HTTPIndexHandler where
  "http_indexes = NewHTTPIndexHandler ''/i/'' True ''Bearer secret''"

theorem http_index_roundtrip_witness:
  "\<exists>d'. RemoteHTTPIndex_StoreIndex (index_net root_parse (\<lambda>_. ''error'') SHA512256 ''/i/'' http_indexes) http_client
       (\<lparr>xd_files = Map.empty, xd_create = []\<rparr>, []) ''a.caibx'' sample_index = (Ok (), (d', [])) \<and>
    RemoteHTTPIndex_GetIndex SHA512256 (index_net root_parse (\<lambda>_. ''error'') SHA512256 ''/i/'' http_indexes) http_client (d', []) ''a.caibx'' = (Ok sample_index, (d', []))"
  by (rule http_index_roundtrip[OF sample_index_wf])
     (simp_all add: plain_part_def plain_name_def http_indexes_def NewHTTPIndexHandler_def)

end
