(* ===== verification/Buckets.thy ===== *)
theory Buckets
  imports HTTP
begin

text \<open>
  Stores on other servers: S3 (\<^verbatim>\<open>src/s3.go\<close>, \<^verbatim>\<open>src/s3index.go\<close>), Google Storage (\<^verbatim>\<open>src/gcs.go\<close>,
  \<^verbatim>\<open>src/gcsindex.go\<close>) and SFTP (\<^verbatim>\<open>src/sftp.go\<close>, \<^verbatim>\<open>src/sftpindex.go\<close>). The clients are third-party packages: their calls
  are parameters, functions of a state that stands for the server. What the stores rely on is stated with the properties.
  Waiting between attempts and logging have no counterpart.
\<close>

section \<open>Names of objects\<close>

text \<open>All three put an object below a prefix and the first four digits of the identifier.\<close>

definition object_name :: "string \<Rightarrow> bool \<Rightarrow> chunk_id \<Rightarrow> string res" where
  "object_name pre unc cid =
     (let sID = ChunkID_String cid in
      if length sID < 4 then Panic ''slice bounds out of range''
      else Ok (pre @ take 4 sID @ ''/'' @ sID @ (if unc then UncompressedChunkExt else CompressedChunkExt)))"

text \<open>\<open>strings.TrimPrefix\<close> and \<open>strings.Trim\<close> of slashes.\<close>

definition trim_prefix :: "string \<Rightarrow> string \<Rightarrow> string" where
  "trim_prefix s p = (if prefix p s then drop (length p) s else s)"

definition trim_slashes :: "string \<Rightarrow> string" where
  "trim_slashes s = rev (dropWhile (\<lambda>c. c = CHR ''/'') (rev (dropWhile (\<lambda>c. c = CHR ''/'') s)))"

definition object_id :: "string \<Rightarrow> bool \<Rightarrow> string \<Rightarrow> chunk_id res" where
  "object_id pre unc name =
     (let ext = (if unc then UncompressedChunkExt else CompressedChunkExt) in
      if \<not> suffix ext name then Err (Errorf ''object %s is not a chunk'')
      else
        let n = trim_suffix (trim_prefix name pre) ext; fragments = split_path n in
        if length fragments \<noteq> 2 then Err (Errorf ''incorrect chunk name for object %s'')
        else if \<not> prefix (fragments ! 0) (fragments ! 1) then Err (Errorf ''incorrect chunk name for object %s'')
        else ChunkIDFromString (fragments ! 1))"

section \<open>S3\<close>

text \<open>
  The client: \<open>GetObject\<close> with what reading the object delivers, \<open>PutObject\<close>, \<open>StatObject\<close>, \<open>RemoveObject\<close>, the keys
  that \<open>ListObjectsV2\<close> delivers, and the code of an error of the server.
\<close>

record 'w s3_client =
  s3_GetObject :: "'w \<Rightarrow> string \<Rightarrow> string \<Rightarrow> stream res \<times> 'w"
  s3_PutObject :: "'w \<Rightarrow> string \<Rightarrow> string \<Rightarrow> bytes \<Rightarrow> go_error option \<times> 'w"
  s3_StatObject :: "'w \<Rightarrow> string \<Rightarrow> string \<Rightarrow> go_error option \<times> 'w"
  s3_RemoveObject :: "'w \<Rightarrow> string \<Rightarrow> string \<Rightarrow> go_error option \<times> 'w"
  s3_ListObjects :: "'w \<Rightarrow> string \<Rightarrow> string \<Rightarrow> string res list"
  s3_ErrorCode :: "go_error \<Rightarrow> string option"

record S3Store =
  s3_Location :: string
  s3_bucket :: string
  s3_prefix :: string
  s3_opt :: StoreOptions
  s3_converters :: converters

text \<open>\<open>connect\<close> tells whether a client can be made for a host, with or without TLS.\<close>

definition NewS3StoreBase :: "(string \<Rightarrow> bool \<Rightarrow> go_error option) \<Rightarrow> string \<Rightarrow> url \<Rightarrow> StoreOptions \<Rightarrow> S3Store res" where
  "NewS3StoreBase connect loc u o' =
     (if \<not> prefix ''s3+http'' (u_Scheme u) then Err (Errorf ''invalid scheme %s, expected s3+http or s3+https'')
      else
        let useSSL = sublist ''https'' (u_Scheme u); bPath = trim_slashes (u_Path u) in
        if bPath = '''' then Err (Errorf ''expected bucket name in path of %s'')
        else
          let f = split_path bPath; pre = join_path (tl f) in
          case connect (u_Host u) useSSL of
            Some e \<Rightarrow> Err (Wrapped loc e)
          | None \<Rightarrow> Ok \<lparr>s3_Location = loc, s3_bucket = hd f, s3_prefix = (if pre \<noteq> '''' then pre @ ''/'' else pre),
                        s3_opt = o', s3_converters = options_converters o'\<rparr>)"

definition S3_nameFromID :: "S3Store \<Rightarrow> chunk_id \<Rightarrow> string res" where
  "S3_nameFromID s cid = object_name (s3_prefix s) (Uncompressed (s3_opt s)) cid"

definition S3_idFromName :: "S3Store \<Rightarrow> string \<Rightarrow> chunk_id res" where
  "S3_idFromName s name = object_id (s3_prefix s) (Uncompressed (s3_opt s)) name"

text \<open>The error that is returned when reading the object has failed.\<close>

definition s3_read_error :: "'w s3_client \<Rightarrow> chunk_id \<Rightarrow> go_error \<Rightarrow> go_error" where
  "s3_read_error cl cid e =
     (case s3_ErrorCode cl e of
        None \<Rightarrow> e
      | Some code \<Rightarrow>
          if code = ''NoSuchBucket'' then Errorf ''bucket %s does not exist''
          else if code = ''NoSuchKey'' then ChunkMissing cid
          else Wrapped ''chunk %s could not be retrieved from s3 store'' e)"

function s3_get_loop :: "'w s3_client \<Rightarrow> S3Store \<Rightarrow> chunk_id \<Rightarrow> string \<Rightarrow> int \<Rightarrow> 'w \<Rightarrow> bytes res \<times> 'w" where
  "s3_get_loop cl s cid name attempt w =
     (let attempt = attempt + 1 in
      case s3_GetObject cl w (s3_bucket s) name of
        (Err e, w) \<Rightarrow>
          if attempt \<le> ErrorRetry (s3_opt s) then s3_get_loop cl s cid name attempt w else (Err (Wrapped (s3_Location s) e), w)
      | (Panic x, w) \<Rightarrow> (Panic x, w)
      | (Ok obj, w) \<Rightarrow>
          (case read_all obj of
             Err e \<Rightarrow> if attempt \<le> ErrorRetry (s3_opt s) then s3_get_loop cl s cid name attempt w else (Err (s3_read_error cl cid e), w)
           | r \<Rightarrow> (r, w)))"
  by pat_completeness auto
termination by (relation "measure (\<lambda>(cl, s, cid, name, attempt, w). nat (ErrorRetry (s3_opt s) - attempt))") auto

declare s3_get_loop.simps [simp del]

definition S3_GetChunk :: "codec_fns \<Rightarrow> 'w s3_client \<Rightarrow> S3Store \<Rightarrow> 'w get_fn" where
  "S3_GetChunk cr cl s w cid =
     (case S3_nameFromID s cid of
        Ok name \<Rightarrow>
          (case s3_get_loop cl s cid name 0 w of (r, w) \<Rightarrow>
             (bind_res r (\<lambda>b. NewChunkFromStorage cr cid b (s3_converters s) (SkipVerify (s3_opt s))), w))
      | Err e \<Rightarrow> (Err e, w)
      | Panic x \<Rightarrow> (Panic x, w))"

function s3_put_loop :: "'w s3_client \<Rightarrow> S3Store \<Rightarrow> string \<Rightarrow> bytes \<Rightarrow> int \<Rightarrow> 'w \<Rightarrow> unit res \<times> 'w" where
  "s3_put_loop cl s name b attempt w =
     (let attempt = attempt + 1 in
      case s3_PutObject cl w (s3_bucket s) name b of
        (Some e, w) \<Rightarrow>
          if attempt < ErrorRetry (s3_opt s) then s3_put_loop cl s name b attempt w else (Err (Wrapped (s3_Location s) e), w)
      | (None, w) \<Rightarrow> (Ok (), w))"
  by pat_completeness auto
termination by (relation "measure (\<lambda>(cl, s, name, b, attempt, w). nat (ErrorRetry (s3_opt s) - attempt))") auto

declare s3_put_loop.simps [simp del]

definition S3_StoreChunk :: "codec_fns \<Rightarrow> 'w s3_client \<Rightarrow> S3Store \<Rightarrow> 'w put_fn" where
  "S3_StoreChunk cr cl s w chunk =
     (case Chunk_ID cr chunk of (cid, chunk) \<Rightarrow>
      case S3_nameFromID s cid of
        Ok name \<Rightarrow>
          (case fst (Chunk_Storage cr chunk (s3_converters s)) of
             Ok b \<Rightarrow> s3_put_loop cl s name b 0 w
           | Err e \<Rightarrow> (Err e, w)
           | Panic x \<Rightarrow> (Panic x, w))
      | Err e \<Rightarrow> (Err e, w)
      | Panic x \<Rightarrow> (Panic x, w))"

definition S3_HasChunk :: "'w s3_client \<Rightarrow> S3Store \<Rightarrow> 'w has_fn" where
  "S3_HasChunk cl s w cid =
     (case S3_nameFromID s cid of
        Ok name \<Rightarrow> (case s3_StatObject cl w (s3_bucket s) name of (e, w) \<Rightarrow> (Ok (e = None), w))
      | Err e \<Rightarrow> (Err e, w)
      | Panic x \<Rightarrow> (Panic x, w))"

definition err_res :: "go_error option \<Rightarrow> unit res" where
  "err_res e = (case e of None \<Rightarrow> Ok () | Some e \<Rightarrow> Err e)"

definition S3_RemoveChunk :: "'w s3_client \<Rightarrow> S3Store \<Rightarrow> 'w \<Rightarrow> chunk_id \<Rightarrow> unit res \<times> 'w" where
  "S3_RemoveChunk cl s w cid =
     (case S3_nameFromID s cid of
        Ok name \<Rightarrow> (case s3_RemoveObject cl w (s3_bucket s) name of (e, w) \<Rightarrow> (err_res e, w))
      | Err e \<Rightarrow> (Err e, w)
      | Panic x \<Rightarrow> (Panic x, w))"

text \<open>
  The loop over the objects of a listing that S3 and Google Storage share. \<open>done'\<close> tells whether the context is done when so
  many objects are left; Google Storage does not look at it.
\<close>

fun prune_objects ::
  "(string \<Rightarrow> chunk_id res) \<Rightarrow> ('w \<Rightarrow> chunk_id \<Rightarrow> unit res \<times> 'w) \<Rightarrow> (nat \<Rightarrow> bool) \<Rightarrow> chunk_id set \<Rightarrow> string res list \<Rightarrow> 'w \<Rightarrow> unit res \<times> 'w" where
  "prune_objects idFromName remove done' ids [] w = (Ok (), w)"
| "prune_objects idFromName remove done' ids (Err e # ks) w = (Err e, w)"
| "prune_objects idFromName remove done' ids (Panic x # ks) w = (Panic x, w)"
| "prune_objects idFromName remove done' ids (Ok k # ks) w =
     (if done' (length ks) then (Err Interrupted, w)
      else case idFromName k of
        Ok cid \<Rightarrow>
          if cid \<in> ids then prune_objects idFromName remove done' ids ks w
          else (case remove w cid of
                  (Ok _, w) \<Rightarrow> prune_objects idFromName remove done' ids ks w
                | (r, w) \<Rightarrow> (r, w))
      | _ \<Rightarrow> prune_objects idFromName remove done' ids ks w)"

definition S3_Prune :: "'w s3_client \<Rightarrow> S3Store \<Rightarrow> (nat \<Rightarrow> bool) \<Rightarrow> chunk_id set \<Rightarrow> 'w \<Rightarrow> unit res \<times> 'w" where
  "S3_Prune cl s done' ids w =
     prune_objects (S3_idFromName s) (S3_RemoveChunk cl s) done' ids (s3_ListObjects cl w (s3_bucket s) (s3_prefix s)) w"

definition S3Index_GetIndexReader :: "'w s3_client \<Rightarrow> S3Store \<Rightarrow> 'w \<Rightarrow> string \<Rightarrow> stream res \<times> 'w" where
  "S3Index_GetIndexReader cl s w name =
     (case s3_GetObject cl w (s3_bucket s) (s3_prefix s @ name) of
        (Err e, w) \<Rightarrow> (Err (Wrapped (s3_Location s) e), w)
      | (Panic x, w) \<Rightarrow> (Panic x, w)
      | (Ok obj, w) \<Rightarrow> (Ok obj, w))"

definition S3Index_GetIndex :: "hash_algorithm \<Rightarrow> 'w s3_client \<Rightarrow> S3Store \<Rightarrow> 'w \<Rightarrow> string \<Rightarrow> Index res \<times> 'w" where
  "S3Index_GetIndex digest cl s w name = (case S3Index_GetIndexReader cl s w name of (r, w) \<Rightarrow> (bind_res r (IndexFromReader digest), w))"

definition S3Index_StoreIndex :: "'w s3_client \<Rightarrow> S3Store \<Rightarrow> 'w \<Rightarrow> string \<Rightarrow> Index \<Rightarrow> unit res \<times> 'w" where
  "S3Index_StoreIndex cl s w name idx =
     (case Index_WriteTo idx empty_sink of (n, err, k) \<Rightarrow>
      case s3_PutObject cl w (s3_bucket s) (s3_prefix s @ name) (sk_out k) of (e, w) \<Rightarrow>
        ((case e of None \<Rightarrow> Ok () | Some e \<Rightarrow> Err (Wrapped (path_Base (s3_Location s)) e)), w))"

section \<open>Google Storage\<close>

text \<open>
  The client of a bucket: a reader with what it delivers, the writer of an object (copying to it and closing it), \<open>Attrs\<close>,
  \<open>Delete\<close> and the listing. \<open>storage.ErrObjectNotExist\<close> is an error value of the package.
\<close>

definition ErrObjectNotExist :: go_error where
  "ErrObjectNotExist = ErrIO ''storage: object does not exist''"

record 'w gcs_client =
  gc_NewReader :: "'w \<Rightarrow> string \<Rightarrow> stream res \<times> 'w"
  gc_Copy :: "'w \<Rightarrow> string \<Rightarrow> bytes \<Rightarrow> go_error option \<times> 'w"
  gc_Close :: "'w \<Rightarrow> string \<Rightarrow> go_error option \<times> 'w"
  gc_Attrs :: "'w \<Rightarrow> string \<Rightarrow> go_error option \<times> 'w"
  gc_Delete :: "'w \<Rightarrow> string \<Rightarrow> go_error option \<times> 'w"
  gc_Objects :: "'w \<Rightarrow> string \<Rightarrow> string res list"

record GCStore =
  gs_Location :: string
  gs_bucket :: string
  gs_prefix :: string
  gs_opt :: StoreOptions
  gs_converters :: converters

definition normalizeGCPrefix :: "string \<Rightarrow> string" where
  "normalizeGCPrefix path = (let pre = trim_slashes path in if pre \<noteq> '''' then pre @ ''/'' else pre)"

definition NewGCStoreBase :: "go_error option \<Rightarrow> string \<Rightarrow> url \<Rightarrow> StoreOptions \<Rightarrow> GCStore res" where
  "NewGCStoreBase connect loc u o' =
     (if u_Scheme u \<noteq> ''gs'' then Err (Errorf ''invalid scheme %s, expected gs'')
      else case connect of
        Some e \<Rightarrow> Err (Wrapped loc e)
      | None \<Rightarrow> Ok \<lparr>gs_Location = loc, gs_bucket = u_Host u, gs_prefix = normalizeGCPrefix (u_Path u), gs_opt = o',
                    gs_converters = options_converters o'\<rparr>)"

definition GC_nameFromID :: "GCStore \<Rightarrow> chunk_id \<Rightarrow> string res" where
  "GC_nameFromID s cid = object_name (gs_prefix s) (Uncompressed (gs_opt s)) cid"

definition GC_idFromName :: "GCStore \<Rightarrow> string \<Rightarrow> chunk_id res" where
  "GC_idFromName s name = object_id (gs_prefix s) (Uncompressed (gs_opt s)) name"

definition GC_GetChunk :: "codec_fns \<Rightarrow> 'w gcs_client \<Rightarrow> GCStore \<Rightarrow> 'w get_fn" where
  "GC_GetChunk cr cl s w cid =
     (case GC_nameFromID s cid of
        Ok name \<Rightarrow>
          (case gc_NewReader cl w name of
             (Err e, w) \<Rightarrow> (Err (if e = ErrObjectNotExist then ChunkMissing cid else Wrapped (gs_Location s) e), w)
           | (Panic x, w) \<Rightarrow> (Panic x, w)
           | (Ok rc, w) \<Rightarrow>
               ((case read_all rc of
                   Err e \<Rightarrow> Err (if e = ErrObjectNotExist then ChunkMissing cid else Wrapped ''chunk %s could not be retrieved from GCS bucket'' e)
                 | Panic x \<Rightarrow> Panic x
                 | Ok b \<Rightarrow> NewChunkFromStorage cr cid b (gs_converters s) (SkipVerify (gs_opt s))), w))
      | Err e \<Rightarrow> (Err e, w)
      | Panic x \<Rightarrow> (Panic x, w))"

text \<open>Copying to the writer of an object and closing it.\<close>

definition gc_upload :: "'w gcs_client \<Rightarrow> string \<Rightarrow> 'w \<Rightarrow> string \<Rightarrow> bytes \<Rightarrow> unit res \<times> 'w" where
  "gc_upload cl loc w name b =
     (case gc_Copy cl w name b of
        (Some e, w) \<Rightarrow> (Err (Wrapped loc e), w)
      | (None, w) \<Rightarrow>
          (case gc_Close cl w name of
             (Some e, w) \<Rightarrow> (Err (Wrapped loc e), w)
           | (None, w) \<Rightarrow> (Ok (), w)))"

definition GC_StoreChunk :: "codec_fns \<Rightarrow> 'w gcs_client \<Rightarrow> GCStore \<Rightarrow> 'w put_fn" where
  "GC_StoreChunk cr cl s w chunk =
     (case Chunk_ID cr chunk of (cid, chunk) \<Rightarrow>
      case GC_nameFromID s cid of
        Ok name \<Rightarrow>
          (case fst (Chunk_Storage cr chunk (gs_converters s)) of
             Ok b \<Rightarrow> gc_upload cl (gs_Location s) w name b
           | Err e \<Rightarrow> (Err e, w)
           | Panic x \<Rightarrow> (Panic x, w))
      | Err e \<Rightarrow> (Err e, w)
      | Panic x \<Rightarrow> (Panic x, w))"

definition GC_HasChunk :: "'w gcs_client \<Rightarrow> GCStore \<Rightarrow> 'w has_fn" where
  "GC_HasChunk cl s w cid =
     (case GC_nameFromID s cid of
        Ok name \<Rightarrow>
          (case gc_Attrs cl w name of
             (None, w) \<Rightarrow> (Ok True, w)
           | (Some e, w) \<Rightarrow> (if e = ErrObjectNotExist then Ok False else Err e, w))
      | Err e \<Rightarrow> (Err e, w)
      | Panic x \<Rightarrow> (Panic x, w))"

definition GC_RemoveChunk :: "'w gcs_client \<Rightarrow> GCStore \<Rightarrow> 'w \<Rightarrow> chunk_id \<Rightarrow> unit res \<times> 'w" where
  "GC_RemoveChunk cl s w cid =
     (case GC_nameFromID s cid of
        Ok name \<Rightarrow> (case gc_Delete cl w name of (e, w) \<Rightarrow> (err_res e, w))
      | Err e \<Rightarrow> (Err e, w)
      | Panic x \<Rightarrow> (Panic x, w))"

definition GC_Prune :: "'w gcs_client \<Rightarrow> GCStore \<Rightarrow> chunk_id set \<Rightarrow> 'w \<Rightarrow> unit res \<times> 'w" where
  "GC_Prune cl s ids w = prune_objects (GC_idFromName s) (GC_RemoveChunk cl s) (\<lambda>_. False) ids (gc_Objects cl w (gs_prefix s)) w"

definition GCIndex_GetIndexReader :: "'w gcs_client \<Rightarrow> GCStore \<Rightarrow> 'w \<Rightarrow> string \<Rightarrow> stream res \<times> 'w" where
  "GCIndex_GetIndexReader cl s w name =
     (case gc_NewReader cl w (gs_prefix s @ name) of
        (Err e, w) \<Rightarrow> (Err (Wrapped (gs_Location s) e), w)
      | (Panic x, w) \<Rightarrow> (Panic x, w)
      | (Ok obj, w) \<Rightarrow> (Ok obj, w))"

definition GCIndex_GetIndex :: "hash_algorithm \<Rightarrow> 'w gcs_client \<Rightarrow> GCStore \<Rightarrow> 'w \<Rightarrow> string \<Rightarrow> Index res \<times> 'w" where
  "GCIndex_GetIndex digest cl s w name = (case GCIndex_GetIndexReader cl s w name of (r, w) \<Rightarrow> (bind_res r (IndexFromReader digest), w))"

definition GCIndex_StoreIndex :: "'w gcs_client \<Rightarrow> GCStore \<Rightarrow> 'w \<Rightarrow> string \<Rightarrow> Index \<Rightarrow> unit res \<times> 'w" where
  "GCIndex_StoreIndex cl s w name idx =
     (case Index_WriteTo idx empty_sink of (n, err, k) \<Rightarrow>
      case gc_Copy cl w (gs_prefix s @ name) (sk_out k) of (e, w) \<Rightarrow>
      case gc_Close cl w (gs_prefix s @ name) of (e', w) \<Rightarrow>
        ((case e of
            Some e \<Rightarrow> Err (Wrapped (path_Base (gs_Location s)) e)
          | None \<Rightarrow>
              (case err of
                 Some e \<Rightarrow> Err (Wrapped (path_Base (gs_Location s)) e)
               | None \<Rightarrow> (case e' of Some e \<Rightarrow> Err (Wrapped (path_Base (gs_Location s)) e) | None \<Rightarrow> Ok ()))), w))"

section \<open>SFTP\<close>

text \<open>
  The client: \<open>Open\<close> with what reading the file delivers, the calls on files and directories, and the walk over a directory, an
  entry of which is an error or a path with whether it is a directory.
\<close>

record 'w sftp_client =
  sf_Open :: "'w \<Rightarrow> string \<Rightarrow> stream res \<times> 'w"
  sf_Create :: "'w \<Rightarrow> string \<Rightarrow> go_error option \<times> 'w"
  sf_Copy :: "'w \<Rightarrow> string \<Rightarrow> bytes \<Rightarrow> go_error option \<times> 'w"
  sf_Close :: "'w \<Rightarrow> string \<Rightarrow> go_error option \<times> 'w"
  sf_Mkdir :: "'w \<Rightarrow> string \<Rightarrow> go_error option \<times> 'w"
  sf_Remove :: "'w \<Rightarrow> string \<Rightarrow> go_error option \<times> 'w"
  sf_PosixRename :: "'w \<Rightarrow> string \<Rightarrow> string \<Rightarrow> go_error option \<times> 'w"
  sf_Stat :: "'w \<Rightarrow> string \<Rightarrow> go_error option \<times> 'w"
  sf_Walk :: "'w \<Rightarrow> string \<Rightarrow> (bool \<times> string) res list"

text \<open>
  The sessions of a pool are alike and keep nothing between calls, so that only the number of those that are free matters.
  A call that waits for a session while there is none never returns: \<open>None\<close>.
\<close>

record SFTPStore =
  sp_path :: string
  sp_opt :: StoreOptions
  sp_converters :: converters
  sp_free :: nat

text \<open>\<open>start\<close> is how starting ssh and the handshake ends, for the number of the session, \<open>stat\<close> the check of the directory.\<close>

definition newSFTPStoreBase :: "go_error option \<Rightarrow> (string \<Rightarrow> go_error option) \<Rightarrow> url \<Rightarrow> string res" where
  "newSFTPStoreBase start stat location =
     (let path = (if suffix ''/'' (u_Path location) then u_Path location else u_Path location @ ''/'') in
      case start of
        Some e \<Rightarrow> Err e
      | None \<Rightarrow> (case stat path of Some e \<Rightarrow> Err (Wrapped ''failed to stat %s'' e) | None \<Rightarrow> Ok path))"

fun sftp_sessions :: "(nat \<Rightarrow> go_error option) \<Rightarrow> (string \<Rightarrow> go_error option) \<Rightarrow> url \<Rightarrow> nat \<Rightarrow> nat \<Rightarrow> unit res" where
  "sftp_sessions start stat location i 0 = Ok ()"
| "sftp_sessions start stat location i (Suc k) =
     bind_res (newSFTPStoreBase (start i) stat location) (\<lambda>_. sftp_sessions start stat location (Suc i) k)"

definition NewSFTPStore :: "(nat \<Rightarrow> go_error option) \<Rightarrow> (string \<Rightarrow> go_error option) \<Rightarrow> url \<Rightarrow> StoreOptions \<Rightarrow> SFTPStore res" where
  "NewSFTPStore start stat location o' =
     (if opt_N o' < 0 then Panic ''makechan: size out of range''
      else
        bind_res (sftp_sessions start stat location 0 (nat (opt_N o'))) (\<lambda>_.
        Ok \<lparr>sp_path = (if suffix ''/'' (u_Path location) then u_Path location else u_Path location @ ''/''),
            sp_opt = o', sp_converters = options_converters o', sp_free = nat (opt_N o')\<rparr>))"

definition SFTP_nameFromID :: "SFTPStore \<Rightarrow> chunk_id \<Rightarrow> string res" where
  "SFTP_nameFromID s cid = object_name (sp_path s) (Uncompressed (sp_opt s)) cid"

text \<open>
  \<open>StoreObject\<close>, with the number in the name of the temporary file. The states are all that the server goes through,
  the last one being the result.
\<close>

definition sftp_create :: "'w sftp_client \<Rightarrow> 'w \<Rightarrow> string \<Rightarrow> string \<Rightarrow> go_error option \<times> 'w list" where
  "sftp_create cl w d tmpfile =
     (case sf_Create cl w tmpfile of
        (None, w1) \<Rightarrow> (None, [w, w1])
      | (Some _, w1) \<Rightarrow>
          let w2 = snd (sf_Mkdir cl w1 d) in
          case sf_Create cl w2 tmpfile of (e, w3) \<Rightarrow> (e, [w, w1, w2, w3]))"

definition SFTP_StoreObject :: "'w sftp_client \<Rightarrow> 'w \<Rightarrow> string \<Rightarrow> string \<Rightarrow> bytes \<Rightarrow> unit res \<times> 'w list" where
  "SFTP_StoreObject cl w name rnd b =
     (let tmpfile = name @ rnd in
      case sftp_create cl w (path_Dir name) tmpfile of
        (Some e, ws) \<Rightarrow> (Err (Wrapped ''sftp:create %s'' e), ws)
      | (None, ws) \<Rightarrow>
          (case sf_Copy cl (last ws) tmpfile b of
             (Some e, w1) \<Rightarrow> (Err (Wrapped ''sftp:copying chunk data to %s'' e), ws @ [w1, snd (sf_Remove cl w1 tmpfile)])
           | (None, w1) \<Rightarrow>
               (case sf_Close cl w1 tmpfile of
                  (Some e, w2) \<Rightarrow> (Err (Wrapped ''sftp:closing %s'' e), ws @ [w1, w2])
                | (None, w2) \<Rightarrow>
                    (case sf_PosixRename cl w2 tmpfile name of (e, w3) \<Rightarrow>
                       ((case e of None \<Rightarrow> Ok () | Some e \<Rightarrow> Err (Wrapped ''sftp:renaming %s to %s'' e)), ws @ [w1, w2, w3])))))"

definition SFTP_StoreChunk :: "codec_fns \<Rightarrow> 'w sftp_client \<Rightarrow> SFTPStore \<Rightarrow> 'w \<Rightarrow> string \<Rightarrow> Chunk \<Rightarrow> (unit res \<times> 'w list) option" where
  "SFTP_StoreChunk cr cl s w rnd chunk =
     (if sp_free s = 0 then None
      else Some
        (case Chunk_ID cr chunk of (cid, chunk) \<Rightarrow>
         case SFTP_nameFromID s cid of
           Ok name \<Rightarrow>
             (case fst (Chunk_Storage cr chunk (sp_converters s)) of
                Ok b \<Rightarrow> SFTP_StoreObject cl w name rnd b
              | Err e \<Rightarrow> (Err e, [w])
              | Panic x \<Rightarrow> (Panic x, [w]))
         | Err e \<Rightarrow> (Err e, [w])
         | Panic x \<Rightarrow> (Panic x, [w])))"

definition SFTP_GetChunk :: "codec_fns \<Rightarrow> 'w sftp_client \<Rightarrow> SFTPStore \<Rightarrow> 'w \<Rightarrow> chunk_id \<Rightarrow> (Chunk res \<times> 'w) option" where
  "SFTP_GetChunk cr cl s w cid =
     (if sp_free s = 0 then None
      else Some
        (case SFTP_nameFromID s cid of
           Ok name \<Rightarrow>
             (case sf_Open cl w name of
                (Err e, w) \<Rightarrow> (Err (if e = ErrNotExist then ChunkMissing cid else e), w)
              | (Panic x, w) \<Rightarrow> (Panic x, w)
              | (Ok f, w) \<Rightarrow>
                  ((case read_all f of
                      Err e \<Rightarrow> Err (Wrapped ''unable to read from %s'' e)
                    | Panic x \<Rightarrow> Panic x
                    | Ok b \<Rightarrow> NewChunkFromStorage cr cid b (sp_converters s) (SkipVerify (sp_opt s))), w))
         | Err e \<Rightarrow> (Err e, w)
         | Panic x \<Rightarrow> (Panic x, w)))"

definition SFTP_HasChunk :: "'w sftp_client \<Rightarrow> SFTPStore \<Rightarrow> 'w \<Rightarrow> chunk_id \<Rightarrow> (bool res \<times> 'w) option" where
  "SFTP_HasChunk cl s w cid =
     (if sp_free s = 0 then None
      else Some
        (case SFTP_nameFromID s cid of
           Ok name \<Rightarrow> (case sf_Stat cl w name of (e, w) \<Rightarrow> (Ok (e = None), w))
         | Err e \<Rightarrow> (Err e, w)
         | Panic x \<Rightarrow> (Panic x, w)))"

definition SFTP_RemoveChunk :: "'w sftp_client \<Rightarrow> SFTPStore \<Rightarrow> 'w \<Rightarrow> chunk_id \<Rightarrow> (unit res \<times> 'w) option" where
  "SFTP_RemoveChunk cl s w cid =
     (if sp_free s = 0 then None
      else Some
        (case SFTP_nameFromID s cid of
           Ok name \<Rightarrow>
             (case sf_Stat cl w name of
                (Some _, w) \<Rightarrow> (Err (ChunkMissing cid), w)
              | (None, w) \<Rightarrow> (case sf_Remove cl w name of (e, w) \<Rightarrow> (err_res e, w)))
         | Err e \<Rightarrow> (Err e, w)
         | Panic x \<Rightarrow> (Panic x, w)))"

text \<open>What \<open>Prune\<close> makes of a path: nothing, an early return, or an identifier.\<close>

datatype walked = SkipPath | StopWalk | ChunkAt chunk_id

definition sftp_walked :: "bool \<Rightarrow> string \<Rightarrow> walked" where
  "sftp_walked unc path =
     (let ext = (if unc then UncompressedChunkExt else CompressedChunkExt) in
      if \<not> suffix CompressedChunkExt path then SkipPath
      else if \<not> suffix ext path then StopWalk
      else case ChunkIDFromString (trim_suffix (path_Base path) ext) of Ok cid \<Rightarrow> ChunkAt cid | _ \<Rightarrow> SkipPath)"

text \<open>
  \<open>done'\<close> tells whether the context is done when so many steps of the walk are left. \<open>s\<close> is the store less the session that
  \<open>Prune\<close> holds.
\<close>

fun sftp_prune_walk ::
  "'w sftp_client \<Rightarrow> SFTPStore \<Rightarrow> (nat \<Rightarrow> bool) \<Rightarrow> chunk_id set \<Rightarrow> (bool \<times> string) res list \<Rightarrow> 'w \<Rightarrow> (unit res \<times> 'w) option" where
  "sftp_prune_walk cl s done' ids [] w = Some (Ok (), w)"
| "sftp_prune_walk cl s done' ids (p # ps) w =
     (if done' (length ps) then Some (Err Interrupted, w)
      else case p of
        Err e \<Rightarrow> Some (Err e, w)
      | Panic x \<Rightarrow> Some (Panic x, w)
      | Ok (dir, path) \<Rightarrow>
          if dir then sftp_prune_walk cl s done' ids ps w
          else (case sftp_walked (Uncompressed (sp_opt s)) path of
                  SkipPath \<Rightarrow> sftp_prune_walk cl s done' ids ps w
                | StopWalk \<Rightarrow> Some (Ok (), w)
                | ChunkAt cid \<Rightarrow>
                    if cid \<in> ids then sftp_prune_walk cl s done' ids ps w
                    else (case SFTP_RemoveChunk cl s w cid of
                            None \<Rightarrow> None
                          | Some (Ok _, w) \<Rightarrow> sftp_prune_walk cl s done' ids ps w
                          | Some (r, w) \<Rightarrow> Some (r, w))))"

definition SFTP_Prune :: "'w sftp_client \<Rightarrow> SFTPStore \<Rightarrow> (nat \<Rightarrow> bool) \<Rightarrow> chunk_id set \<Rightarrow> 'w \<Rightarrow> (unit res \<times> 'w) option" where
  "SFTP_Prune cl s done' ids w =
     (if sp_free s = 0 then None
      else sftp_prune_walk cl (s\<lparr>sp_free := sp_free s - 1\<rparr>) done' ids (sf_Walk cl w (sp_path s)) w)"

definition SFTPIndex_pathFromName :: "string \<Rightarrow> string \<Rightarrow> string" where
  "SFTPIndex_pathFromName path name = path_Join path name"

definition SFTPIndex_GetIndexReader :: "'w sftp_client \<Rightarrow> string \<Rightarrow> 'w \<Rightarrow> string \<Rightarrow> stream res \<times> 'w" where
  "SFTPIndex_GetIndexReader cl path w name =
     (case sf_Open cl w (SFTPIndex_pathFromName path name) of
        (Err e, w) \<Rightarrow> (Err (if e = ErrNotExist then Errorf ''Index file does not exist: %v'' else e), w)
      | (Panic x, w) \<Rightarrow> (Panic x, w)
      | (Ok obj, w) \<Rightarrow> (Ok obj, w))"

definition SFTPIndex_GetIndex :: "hash_algorithm \<Rightarrow> 'w sftp_client \<Rightarrow> string \<Rightarrow> 'w \<Rightarrow> string \<Rightarrow> Index res \<times> 'w" where
  "SFTPIndex_GetIndex digest cl path w name = (case SFTPIndex_GetIndexReader cl path w name of (r, w) \<Rightarrow> (bind_res r (IndexFromReader digest), w))"

definition SFTPIndex_StoreIndex :: "'w sftp_client \<Rightarrow> string \<Rightarrow> 'w \<Rightarrow> string \<Rightarrow> string \<Rightarrow> Index \<Rightarrow> unit res \<times> 'w list" where
  "SFTPIndex_StoreIndex cl path w name rnd idx =
     (case Index_WriteTo idx empty_sink of (n, err, k) \<Rightarrow> SFTP_StoreObject cl w (SFTPIndex_pathFromName path name) rnd (sk_out k))"

end
