(* ===== verification/Buckets_Props.thy ===== *)
theory Buckets_Props
  imports Buckets HTTP_Props
begin

text \<open>
  The stores on S3, Google Storage and SFTP. The names of objects are different for different identifiers and give them back;
  a chunk that was stored is read back, and over SFTP no state on the way shows a part of it; pruning removes unlisted
  chunks only and, where it succeeds, all of them. What is relied on of the servers is \<open>s3_ok\<close>, \<open>gcs_ok\<close> and \<open>sftp_ok\<close>;
  lists of objects are instances of them.
\<close>

section \<open>Names of objects\<close>

lemma object_name_Ok: "is_chunk_id cid \<Longrightarrow> object_name pre unc cid = Ok (pre @ chunk_path_of (hex_encode cid) (http_ext unc))"
  by (simp add: object_name_def ChunkID_String_def is_chunk_id_def chunk_id_len_def Let_def chunk_path_of_def http_ext_def)

lemma object_name_path:
  assumes "object_name pre unc cid = Ok n"
  shows "n = pre @ chunk_path_of (hex_encode cid) (http_ext unc)"
  using assms by (auto simp: object_name_def ChunkID_String_def Let_def chunk_path_of_def http_ext_def split: if_splits)

lemma object_name_inj:
  assumes "object_name pre unc a = Ok n" "object_name pre unc b = Ok n"
  shows "a = b"
proof -
  have "take 4 (hex_encode a) @ ''/'' @ hex_encode a = take 4 (hex_encode b) @ ''/'' @ hex_encode b"
    using object_name_path[OF assms(1)] object_name_path[OF assms(2)] by (simp add: chunk_path_of_def)
  moreover have "4 \<le> length (hex_encode a)" "4 \<le> length (hex_encode b)"
    using assms by (simp_all add: object_name_def ChunkID_String_def Let_def split: if_splits)
  ultimately have "hex_encode a = hex_encode b" by (simp add: append_eq_append_conv)
  then show ?thesis by (metis hex_decode_encode res.inject(1))
qed

lemma trim_suffix_append: "trim_suffix (x @ e) e = x"
  by (simp add: trim_suffix_def suffix_def)

text \<open>The identifier of an object is the one its name was made of.\<close>

lemma object_id_name:
  assumes "is_chunk_id cid"
  shows "object_id pre unc (pre @ chunk_path_of (hex_encode cid) (http_ext unc)) = Ok cid"
proof -
  let ?s = "hex_encode cid" and ?e = "http_ext unc"
  have l: "4 \<le> length ?s" using assms by (simp add: is_chunk_id_def chunk_id_len_def)
  have e: "(if unc then UncompressedChunkExt else CompressedChunkExt) = ?e" by (simp add: http_ext_def)
  have suf: "suffix ?e (pre @ chunk_path_of ?s ?e)" by (simp add: suffix_def chunk_path_of_def)
  have trim: "trim_suffix (trim_prefix (pre @ chunk_path_of ?s ?e) pre) ?e = join_path [take 4 ?s, ?s]"
    using trim_suffix_append[of "join_path [take 4 ?s, ?s]" ?e] by (simp add: trim_prefix_def chunk_path_of_def)
  have split: "split_path (join_path [take 4 ?s, ?s]) = [take 4 ?s, ?s]"
    by (rule split_join) (auto simp: take_plain)
  have "prefix (take 4 ?s) ?s" by (rule take_is_prefix)
  then show ?thesis using suf trim split assms unfolding object_id_def e by (simp add: Let_def ChunkIDFromString_hex)
qed

section \<open>S3\<close>

text \<open>
  What the stores rely on: \<open>objs\<close> gives the objects of the buckets in a state of the server. Reading delivers the
  object, or ends in an error; the code \<open>NoSuchKey\<close> means that there is none. A write replaces the object as a whole, and may have
  done so although an error is returned. A listing has the keys with the prefix.
\<close>

definition s3_ok :: "'w s3_client \<Rightarrow> ('w \<Rightarrow> string \<Rightarrow> string \<rightharpoonup> bytes) \<Rightarrow> bool" where
  "s3_ok cl objs \<longleftrightarrow>
     (\<forall>w b k r w'. s3_GetObject cl w b k = (r, w') \<longrightarrow> objs w' = objs w \<and>
        (\<forall>obj. r = Ok obj \<longrightarrow> (s_end obj = EOF \<longrightarrow> objs w b k = Some (s_data obj)) \<and>
           (s3_ErrorCode cl (s_end obj) = Some ''NoSuchKey'' \<longrightarrow> objs w b k = None) \<and> (\<forall>i. s_end obj \<noteq> ChunkMissing i))) \<and>
     (\<forall>w b k d e w'. s3_PutObject cl w b k d = (e, w') \<longrightarrow>
        objs w' = (objs w)(b := (objs w b)(k \<mapsto> d)) \<or> e \<noteq> None \<and> objs w' = objs w) \<and>
     (\<forall>w b k e w'. s3_StatObject cl w b k = (e, w') \<longrightarrow> objs w' = objs w \<and> (e = None \<longrightarrow> objs w b k \<noteq> None)) \<and>
     (\<forall>w b k e w'. s3_RemoveObject cl w b k = (e, w') \<longrightarrow>
        objs w' = (objs w)(b := (objs w b)(k := None)) \<or> e \<noteq> None \<and> objs w' = objs w) \<and>
     (\<forall>w b p. (\<forall>x \<in> set (s3_ListObjects cl w b p). \<exists>k. x = Ok k) \<longrightarrow>
        (\<forall>k. prefix p k \<and> objs w b k \<noteq> None \<longrightarrow> Ok k \<in> set (s3_ListObjects cl w b p)))"

lemma s3_okD:
  assumes "s3_ok cl objs"
  shows "s3_GetObject cl w b k = (r, w') \<Longrightarrow> objs w' = objs w"
    "s3_GetObject cl w b k = (Ok obj, w') \<Longrightarrow> s_end obj = EOF \<Longrightarrow> objs w b k = Some (s_data obj)"
    "s3_GetObject cl w b k = (Ok obj, w') \<Longrightarrow> s3_ErrorCode cl (s_end obj) = Some ''NoSuchKey'' \<Longrightarrow> objs w b k = None"
    "s3_GetObject cl w b k = (Ok obj, w') \<Longrightarrow> s_end obj \<noteq> ChunkMissing i"
    "s3_PutObject cl w b k d = (e, w') \<Longrightarrow> objs w' = (objs w)(b := (objs w b)(k \<mapsto> d)) \<or> e \<noteq> None \<and> objs w' = objs w"
    "s3_StatObject cl w b k = (e, w') \<Longrightarrow> objs w' = objs w \<and> (e = None \<longrightarrow> objs w b k \<noteq> None)"
    "s3_RemoveObject cl w b k = (e, w') \<Longrightarrow> objs w' = (objs w)(b := (objs w b)(k := None)) \<or> e \<noteq> None \<and> objs w' = objs w"
    "\<forall>x \<in> set (s3_ListObjects cl w b p). \<exists>k. x = Ok k \<Longrightarrow> prefix p k \<Longrightarrow> objs w b k \<noteq> None \<Longrightarrow> Ok k \<in> set (s3_ListObjects cl w b p)"
proof -
  note ok = assms[unfolded s3_ok_def]
  note g = ok[THEN conjunct1, rule_format] and p = ok[THEN conjunct2, THEN conjunct1, rule_format]
    and s = ok[THEN conjunct2, THEN conjunct2, THEN conjunct1, rule_format]
    and r = ok[THEN conjunct2, THEN conjunct2, THEN conjunct2, THEN conjunct1, rule_format]
    and l = ok[THEN conjunct2, THEN conjunct2, THEN conjunct2, THEN conjunct2]
  show "s3_GetObject cl w b k = (r, w') \<Longrightarrow> objs w' = objs w" using g by blast
  show "s3_GetObject cl w b k = (Ok obj, w') \<Longrightarrow> s_end obj = EOF \<Longrightarrow> objs w b k = Some (s_data obj)" using g by blast
  show "s3_GetObject cl w b k = (Ok obj, w') \<Longrightarrow> s3_ErrorCode cl (s_end obj) = Some ''NoSuchKey'' \<Longrightarrow> objs w b k = None" using g by blast
  show "s3_GetObject cl w b k = (Ok obj, w') \<Longrightarrow> s_end obj \<noteq> ChunkMissing i" using g by blast
  show "s3_PutObject cl w b k d = (e, w') \<Longrightarrow> objs w' = (objs w)(b := (objs w b)(k \<mapsto> d)) \<or> e \<noteq> None \<and> objs w' = objs w" by (rule p)
  show "s3_StatObject cl w b k = (e, w') \<Longrightarrow> objs w' = objs w \<and> (e = None \<longrightarrow> objs w b k \<noteq> None)" using s by blast
  show "s3_RemoveObject cl w b k = (e, w') \<Longrightarrow> objs w' = (objs w)(b := (objs w b)(k := None)) \<or> e \<noteq> None \<and> objs w' = objs w" by (rule r)
  show "\<forall>x \<in> set (s3_ListObjects cl w b p). \<exists>k. x = Ok k \<Longrightarrow> prefix p k \<Longrightarrow> objs w b k \<noteq> None \<Longrightarrow> Ok k \<in> set (s3_ListObjects cl w b p)"
    using l by blast
qed

lemma s3_get_loop_effect:
  assumes "s3_ok cl objs" "s3_get_loop cl s cid name a w = (r, w')"
  shows "objs w' = objs w \<and> (\<forall>d. r = Ok d \<longrightarrow> objs w (s3_bucket s) name = Some d) \<and> (\<forall>i. r = Err (ChunkMissing i) \<longrightarrow> objs w (s3_bucket s) name = None)"
  using assms
proof (induction cl s cid name a w rule: s3_get_loop.induct)
  case (1 cl s cid name a w)
  note eff = s3_okD(1-4)[OF 1(3)]
  obtain x w1 where g: "s3_GetObject cl w (s3_bucket s) name = (x, w1)" by (rule prod.exhaust)
  note loop = 1(4)[unfolded s3_get_loop.simps[of cl s cid name a w] g Let_def prod.case]
  have same: "objs w1 = objs w" using eff(1)[OF g] .
  show ?case
  proof (cases x)
    case (Err e)
    show ?thesis
    proof (cases "a + 1 \<le> ErrorRetry (s3_opt s)")
      case True
      then show ?thesis using 1(2)[OF refl g[symmetric] Err True 1(3)] loop Err same by simp
    qed (use loop Err same in auto)
  next
    case (Ok obj)
    show ?thesis
    proof (cases "s_end obj = EOF")
      case True
      then show ?thesis using loop Ok same eff(2)[of w _ name obj w1] g by (auto simp: read_all_def)
    next
      case False
      then have r: "read_all obj = Err (s_end obj)" by (simp add: read_all_def)
      show ?thesis
      proof (cases "a + 1 \<le> ErrorRetry (s3_opt s)")
        case True
        then show ?thesis using 1(1)[OF refl g[symmetric] Ok r True 1(3)] loop Ok r same by simp
      next
        case False
        then show ?thesis using loop Ok r same eff(3,4)[of w _ name obj w1] g by (auto simp: s3_read_error_def split: option.splits if_splits)
      qed
    qed
  qed (use loop same in auto)
qed

lemma s3_put_loop_effect:
  assumes "s3_ok cl objs" "s3_put_loop cl s name b a w = (r, w')"
  shows "objs w' = (objs w)(s3_bucket s := (objs w (s3_bucket s))(name \<mapsto> b)) \<or> (\<exists>e. r = Err e) \<and> objs w' = objs w"
  using assms
proof (induction cl s name b a w rule: s3_put_loop.induct)
  case (1 cl s name b a w)
  obtain x w1 where g: "s3_PutObject cl w (s3_bucket s) name b = (x, w1)" by (rule prod.exhaust)
  note loop = 1(3)[unfolded s3_put_loop.simps[of cl s name b a w] g Let_def prod.case] and eff = s3_okD(5)[OF 1(2) g]
  show ?case
  proof (cases x)
    case (Some e)
    show ?thesis
    proof (cases "a + 1 < ErrorRetry (s3_opt s)")
      case True
      then have "s3_put_loop cl s name b (a + 1) w1 = (r, w')" using loop Some by simp
      from 1(1)[OF refl g[symmetric] Some True 1(2) this] eff show ?thesis
        by (elim disjE conjE) (simp_all only: fun_upd_upd fun_upd_same simp_thms)
    next
      case False
      then have "\<exists>e. r = Err e" "w' = w1" using loop Some by auto
      then show ?thesis using eff by blast
    qed
  next
    case None
    then have "w' = w1" using loop by simp
    then show ?thesis using eff None by blast
  qed
qed

section \<open>Pruning a bucket\<close>

text \<open>What pruning may do to the objects: some that are named by an unlisted identifier are gone, nothing else changes.\<close>

definition pruned :: "(chunk_id \<Rightarrow> string res) \<Rightarrow> chunk_id set \<Rightarrow> (string \<rightharpoonup> bytes) \<Rightarrow> (string \<rightharpoonup> bytes) \<Rightarrow> bool" where
  "pruned nm ids o1 o2 \<longleftrightarrow> (\<forall>k. o2 k \<noteq> o1 k \<longrightarrow> o2 k = None \<and> (\<exists>cid. nm cid = Ok k \<and> cid \<notin> ids))"

lemma pruned_refl [simp]: "pruned nm ids m m"
  by (simp add: pruned_def)

lemma pruned_gone: "pruned nm ids o1 o2 \<Longrightarrow> o1 k = None \<Longrightarrow> o2 k = None"
  unfolding pruned_def by metis

lemma pruned_step:
  assumes "nm cid = Ok k" "cid \<notin> ids" "pruned nm ids (o1(k := None)) o2"
  shows "pruned nm ids o1 o2 \<and> o2 k = None"
proof -
  have "o2 k = None" using pruned_gone[OF assms(3)] by simp
  moreover have "o2 j = None \<and> (\<exists>cid. nm cid = Ok j \<and> cid \<notin> ids)" if "o2 j \<noteq> o1 j" for j
    using that assms \<open>o2 k = None\<close> unfolding pruned_def by (cases "j = k") (auto split: if_splits)
  ultimately show ?thesis unfolding pruned_def by blast
qed

lemma prune_objects_effect:
  assumes "\<And>w cid r w'. remove w cid = (r, w') \<Longrightarrow> r \<noteq> Ok () \<and> objs w' = objs w \<or> (\<exists>k. nm cid = Ok k \<and> objs w' = (objs w)(k := None))"
    and "prune_objects idf remove dn ids ks w = (r, w')"
  shows "pruned nm ids (objs w) (objs w') \<and>
    (r = Ok () \<longrightarrow> (\<forall>x \<in> set ks. \<exists>k. x = Ok k) \<and>
       (\<forall>k cid. Ok k \<in> set ks \<longrightarrow> idf k = Ok cid \<longrightarrow> cid \<notin> ids \<longrightarrow> nm cid = Ok k \<longrightarrow> objs w' k = None))"
  using assms(2)
proof (induction ks arbitrary: w)
  case (Cons x ks)
  show ?case
  proof (cases x)
    case (Ok k)
    show ?thesis
    proof (cases "dn (length ks)")
      case True
      then show ?thesis using Cons.prems Ok by auto
    next
      case False
      show ?thesis
      proof (cases "\<exists>cid. idf k = Ok cid \<and> cid \<notin> ids")
        case True
        then obtain cid where cid: "idf k = Ok cid" "cid \<notin> ids" by blast
        obtain y w1 where rm: "remove w cid = (y, w1)" by (rule prod.exhaust)
        have here: "pruned nm ids (objs w) (objs w1)"
          using assms(1)[OF rm] pruned_step[OF _ cid(2), of nm] by auto
        show ?thesis
        proof (cases y)
          case (Ok u)
          obtain k' where k': "nm cid = Ok k'" "objs w1 = (objs w)(k' := None)" using assms(1)[OF rm] Ok by auto
          have run: "prune_objects idf remove dn ids ks w1 = (r, w')" using Cons.prems \<open>x = Ok k\<close> False cid rm Ok by simp
          note ih = Cons.IH[OF run]
          note st = pruned_step[OF k'(1) cid(2) ih[THEN conjunct1, unfolded k'(2)]]
          show ?thesis using ih st k'(1) cid \<open>x = Ok k\<close> by auto
        qed (use Cons.prems \<open>x = Ok k\<close> False cid rm here in auto)
      next
        case other: False
        then have run: "prune_objects idf remove dn ids ks w = (r, w')"
          using Cons.prems Ok False by (auto split: res.splits if_splits)
        show ?thesis using Cons.IH[OF run] Ok other by auto
      qed
    qed
  qed (use Cons.prems in auto)
qed simp

text \<open>With the names of the stores: a listing that has every object with the prefix leaves no unlisted chunk.\<close>

lemma prune_objects_complete:
  assumes "\<And>w cid r w'. remove w cid = (r, w') \<Longrightarrow> r \<noteq> Ok () \<and> objs w' = objs w \<or> (\<exists>k. object_name pre unc cid = Ok k \<and> objs w' = (objs w)(k := None))"
    and "prune_objects (object_id pre unc) remove dn ids ks w = (r, w')"
    and "\<And>k. \<forall>x \<in> set ks. \<exists>k. x = Ok k \<Longrightarrow> prefix pre k \<Longrightarrow> objs w k \<noteq> None \<Longrightarrow> Ok k \<in> set ks"
  shows "pruned (object_name pre unc) ids (objs w) (objs w') \<and>
    (r = Ok () \<longrightarrow> (\<forall>cid k. is_chunk_id cid \<longrightarrow> cid \<notin> ids \<longrightarrow> object_name pre unc cid = Ok k \<longrightarrow> objs w' k = None))"
proof -
  note eff = prune_objects_effect[where objs = objs and nm = "object_name pre unc", OF assms(1) assms(2)]
  have "objs w' k = None" if ok: "r = Ok ()" and cid: "is_chunk_id cid" "cid \<notin> ids" "object_name pre unc cid = Ok k" for cid k
  proof (cases "objs w k")
    case (Some d)
    have "prefix pre k" using object_name_path[OF cid(3)] by simp
    then have "Ok k \<in> set ks" using assms(3) eff ok Some by auto
    moreover have "object_id pre unc k = Ok cid" using object_id_name[OF cid(1)] object_name_path[OF cid(3)] by simp
    ultimately show ?thesis using eff ok cid by blast
  next
    case None
    then show ?thesis using pruned_gone eff by blast
  qed
  then show ?thesis using eff by blast
qed

lemma S3_RemoveChunk_effect:
  assumes "s3_ok cl objs" "S3_RemoveChunk cl s w cid = (r, w')"
  shows "r \<noteq> Ok () \<and> objs w' (s3_bucket s) = objs w (s3_bucket s) \<or>
    (\<exists>k. S3_nameFromID s cid = Ok k \<and> objs w' (s3_bucket s) = (objs w (s3_bucket s))(k := None))"
proof (cases "S3_nameFromID s cid")
  case (Ok k)
  obtain e w1 where rm: "s3_RemoveObject cl w (s3_bucket s) k = (e, w1)" by (rule prod.exhaust)
  then have "r = err_res e" "w' = w1" using assms(2) Ok by (simp_all add: S3_RemoveChunk_def)
  then show ?thesis using s3_okD(7)[OF assms(1) rm] Ok by (auto simp: err_res_def split: option.splits)
qed (use assms in \<open>auto simp: S3_RemoveChunk_def\<close>)

text \<open>(C37) Whatever happens, pruning an S3 bucket removes objects of unlisted chunks only; when it succeeds no unlisted chunk is left.\<close>

theorem s3_prune_exact:
  assumes "s3_ok cl objs" "S3_Prune cl s dn ids w = (r, w')"
  shows "(\<forall>k. objs w' (s3_bucket s) k \<noteq> objs w (s3_bucket s) k \<longrightarrow>
      objs w' (s3_bucket s) k = None \<and> (\<exists>cid. S3_nameFromID s cid = Ok k \<and> cid \<notin> ids)) \<and>
    (r = Ok () \<longrightarrow> (\<forall>cid k. is_chunk_id cid \<longrightarrow> cid \<notin> ids \<longrightarrow> S3_nameFromID s cid = Ok k \<longrightarrow> objs w' (s3_bucket s) k = None))"
  using prune_objects_complete[of "S3_RemoveChunk cl s" "\<lambda>w. objs w (s3_bucket s)", OF
      S3_RemoveChunk_effect[OF assms(1), unfolded S3_nameFromID_def] assms(2)[unfolded S3_Prune_def S3_idFromName_def] s3_okD(8)[OF assms(1)]]
  unfolding pruned_def S3_nameFromID_def by blast

text \<open>What a read of the stored bytes gives.\<close>

lemma stored_reads_back:
  assumes "codec_ok cr" "holds cr c b" "fst (Chunk_Storage cr (snd (Chunk_ID cr c)) cv) = Ok sb"
  shows "(\<forall>c'. NewChunkFromStorage cr (Digest_Sum cr b) sb cv skip = Ok c' \<longrightarrow> holds cr c' b) \<and>
    (\<forall>i. NewChunkFromStorage cr (Digest_Sum cr b) sb cv skip \<noteq> Err (ChunkMissing i))"
proof -
  have h: "holds cr (snd (Chunk_ID cr c)) b" using holds_ID[OF assms(2)] by auto
  have sb: "fromStorage cr cv sb = Ok b" "sb \<noteq> []" using holds_Storage[OF assms(1) h, of cv] assms(3) by auto
  have "holds cr c' b" if "NewChunkFromStorage cr (Digest_Sum cr b) sb cv skip = Ok c'" for c'
    using that NewChunkFromStorage_holds[OF sb _ refl, of skip] assms(2) by (auto simp: holds_def)
  then show ?thesis by (auto simp: res_simps NewChunkFromStorage_def verify_new_def split: if_splits prod.splits)
qed

text \<open>(C14) A chunk that was stored in S3 is never missing, what is read under its identifier has its data, and storing it changes no other object.\<close>

theorem s3_store_roundtrip:
  assumes "codec_ok cr" "holds cr c b" "s3_ok cl objs" "S3_StoreChunk cr cl s w c = (Ok (), w')" "S3_GetChunk cr cl s w' (Digest_Sum cr b) = (r, w'')"
  shows "(\<forall>c'. r = Ok c' \<longrightarrow> holds cr c' b) \<and> (\<forall>i. r \<noteq> Err (ChunkMissing i)) \<and>
    (\<forall>k. S3_nameFromID s (Digest_Sum cr b) \<noteq> Ok k \<longrightarrow> objs w' (s3_bucket s) k = objs w (s3_bucket s) k)"
proof -
  let ?id = "Digest_Sum cr b"
  obtain name where n: "S3_nameFromID s ?id = Ok name" using object_name_Ok[OF sum_len[OF assms(1)]] by (simp add: S3_nameFromID_def)
  have cid: "fst (Chunk_ID cr c) = ?id" using holds_ID[OF assms(2)] by auto
  obtain sb where sb: "fst (Chunk_Storage cr (snd (Chunk_ID cr c)) (s3_converters s)) = Ok sb" "s3_put_loop cl s name sb 0 w = (Ok (), w')"
    using assms(4) n cid by (auto simp: S3_StoreChunk_def split: prod.splits res.splits)
  have obj: "objs w' (s3_bucket s) = (objs w (s3_bucket s))(name \<mapsto> sb)" using s3_put_loop_effect[OF assms(3) sb(2)] by simp
  obtain x where x: "s3_get_loop cl s ?id name 0 w' = (x, w'')" "r = bind_res x (\<lambda>d. NewChunkFromStorage cr ?id d (s3_converters s) (SkipVerify (s3_opt s)))"
    using assms(5) n by (auto simp: S3_GetChunk_def split: prod.splits)
  have "(\<forall>c'. r = Ok c' \<longrightarrow> holds cr c' b) \<and> (\<forall>i. r \<noteq> Err (ChunkMissing i))"
    using s3_get_loop_effect[OF assms(3) x(1)] stored_reads_back[OF assms(1,2) sb(1), of "SkipVerify (s3_opt s)"] x(2) obj
    by (cases x) auto
  then show ?thesis using obj n by auto
qed

section \<open>Google Storage\<close>

text \<open>An object appears when its writer has been closed, as a whole.\<close>

definition gcs_ok :: "'w gcs_client \<Rightarrow> ('w \<Rightarrow> string \<rightharpoonup> bytes) \<Rightarrow> bool" where
  "gcs_ok cl objs \<longleftrightarrow>
     (\<forall>w k r w'. gc_NewReader cl w k = (r, w') \<longrightarrow> objs w' = objs w \<and> (r = Err ErrObjectNotExist \<longrightarrow> objs w k = None) \<and>
        (\<forall>rc. r = Ok rc \<longrightarrow> (s_end rc = EOF \<longrightarrow> objs w k = Some (s_data rc)) \<and> (s_end rc = ErrObjectNotExist \<longrightarrow> objs w k = None))) \<and>
     (\<forall>w k d e w'. gc_Copy cl w k d = (e, w') \<longrightarrow> objs w' = objs w) \<and>
     (\<forall>w k d w1 e w'. gc_Copy cl w k d = (None, w1) \<longrightarrow> gc_Close cl w1 k = (e, w') \<longrightarrow>
        objs w' = (objs w)(k \<mapsto> d) \<or> e \<noteq> None \<and> objs w' = objs w) \<and>
     (\<forall>w k e w'. gc_Attrs cl w k = (e, w') \<longrightarrow> objs w' = objs w \<and> (e = None \<longrightarrow> objs w k \<noteq> None) \<and>
        (e = Some ErrObjectNotExist \<longrightarrow> objs w k = None)) \<and>
     (\<forall>w k e w'. gc_Delete cl w k = (e, w') \<longrightarrow> objs w' = (objs w)(k := None) \<or> e \<noteq> None \<and> objs w' = objs w) \<and>
     (\<forall>w p. (\<forall>x \<in> set (gc_Objects cl w p). \<exists>k. x = Ok k) \<longrightarrow>
        (\<forall>k. prefix p k \<and> objs w k \<noteq> None \<longrightarrow> Ok k \<in> set (gc_Objects cl w p)))"

lemma gcs_okD:
  assumes "gcs_ok cl objs"
  shows "gc_NewReader cl w k = (r, w') \<Longrightarrow> objs w' = objs w \<and> (r = Err ErrObjectNotExist \<longrightarrow> objs w k = None) \<and>
        (\<forall>rc. r = Ok rc \<longrightarrow> (s_end rc = EOF \<longrightarrow> objs w k = Some (s_data rc)) \<and> (s_end rc = ErrObjectNotExist \<longrightarrow> objs w k = None))"
    "gc_Copy cl w k d = (e, w') \<Longrightarrow> objs w' = objs w"
    "gc_Copy cl w k d = (None, w1) \<Longrightarrow> gc_Close cl w1 k = (e, w') \<Longrightarrow> objs w' = (objs w)(k \<mapsto> d) \<or> e \<noteq> None \<and> objs w' = objs w"
    "gc_Attrs cl w k = (e, w') \<Longrightarrow> objs w' = objs w \<and> (e = None \<longrightarrow> objs w k \<noteq> None) \<and> (e = Some ErrObjectNotExist \<longrightarrow> objs w k = None)"
    "gc_Delete cl w k = (e, w') \<Longrightarrow> objs w' = (objs w)(k := None) \<or> e \<noteq> None \<and> objs w' = objs w"
    "\<forall>x \<in> set (gc_Objects cl w p). \<exists>k. x = Ok k \<Longrightarrow> prefix p k \<Longrightarrow> objs w k \<noteq> None \<Longrightarrow> Ok k \<in> set (gc_Objects cl w p)"
proof -
  note ok = assms[unfolded gcs_ok_def]
  note t2 = ok[THEN conjunct2] note t3 = t2[THEN conjunct2] note t4 = t3[THEN conjunct2] note t5 = t4[THEN conjunct2]
  show "gc_NewReader cl w k = (r, w') \<Longrightarrow> objs w' = objs w \<and> (r = Err ErrObjectNotExist \<longrightarrow> objs w k = None) \<and>
        (\<forall>rc. r = Ok rc \<longrightarrow> (s_end rc = EOF \<longrightarrow> objs w k = Some (s_data rc)) \<and> (s_end rc = ErrObjectNotExist \<longrightarrow> objs w k = None))"
    using ok[THEN conjunct1] by blast
  show "gc_Copy cl w k d = (e, w') \<Longrightarrow> objs w' = objs w" using t2[THEN conjunct1] by blast
  show "gc_Copy cl w k d = (None, w1) \<Longrightarrow> gc_Close cl w1 k = (e, w') \<Longrightarrow> objs w' = (objs w)(k \<mapsto> d) \<or> e \<noteq> None \<and> objs w' = objs w"
    by (rule t3[THEN conjunct1, rule_format])
  show "gc_Attrs cl w k = (e, w') \<Longrightarrow> objs w' = objs w \<and> (e = None \<longrightarrow> objs w k \<noteq> None) \<and> (e = Some ErrObjectNotExist \<longrightarrow> objs w k = None)"
    using t4[THEN conjunct1] by blast
  show "gc_Delete cl w k = (e, w') \<Longrightarrow> objs w' = (objs w)(k := None) \<or> e \<noteq> None \<and> objs w' = objs w"
    by (rule t5[THEN conjunct1, rule_format])
  show "\<forall>x \<in> set (gc_Objects cl w p). \<exists>k. x = Ok k \<Longrightarrow> prefix p k \<Longrightarrow> objs w k \<noteq> None \<Longrightarrow> Ok k \<in> set (gc_Objects cl w p)"
    using t5[THEN conjunct2] by blast
qed

lemma GC_RemoveChunk_effect:
  assumes "gcs_ok cl objs" "GC_RemoveChunk cl s w cid = (r, w')"
  shows "r \<noteq> Ok () \<and> objs w' = objs w \<or> (\<exists>k. GC_nameFromID s cid = Ok k \<and> objs w' = (objs w)(k := None))"
proof (cases "GC_nameFromID s cid")
  case (Ok k)
  obtain e w1 where rm: "gc_Delete cl w k = (e, w1)" by (rule prod.exhaust)
  then have "r = err_res e" "w' = w1" using assms(2) Ok by (simp_all add: GC_RemoveChunk_def)
  then show ?thesis using gcs_okD(5)[OF assms(1) rm] Ok by (auto simp: err_res_def split: option.splits)
qed (use assms in \<open>auto simp: GC_RemoveChunk_def\<close>)

lemma gcs_prune_exact:
  assumes "gcs_ok cl objs" "GC_Prune cl s ids w = (r, w')"
  shows "pruned (GC_nameFromID s) ids (objs w) (objs w') \<and>
    (r = Ok () \<longrightarrow> (\<forall>cid k. is_chunk_id cid \<longrightarrow> cid \<notin> ids \<longrightarrow> GC_nameFromID s cid = Ok k \<longrightarrow> objs w' k = None))"
proof -
  have nm: "GC_nameFromID s = object_name (gs_prefix s) (Uncompressed (gs_opt s))" by (rule ext) (simp add: GC_nameFromID_def)
  show ?thesis
    using prune_objects_complete[of "GC_RemoveChunk cl s" objs, OF GC_RemoveChunk_effect[OF assms(1), unfolded GC_nameFromID_def]
        assms(2)[unfolded GC_Prune_def GC_idFromName_def] gcs_okD(6)[OF assms(1)]]
    unfolding nm by blast
qed

text \<open>The answer about a chunk is never wrong: an error is told from its absence, which the other two stores do not do.\<close>

lemma gcs_has_exact:
  assumes "gcs_ok cl objs" "GC_HasChunk cl s w cid = (Ok b, w')" "GC_nameFromID s cid = Ok k"
  shows "b \<longleftrightarrow> objs w k \<noteq> None"
  using assms(2,3) gcs_okD(4)[OF assms(1)] by (fastforce simp: GC_HasChunk_def split: prod.splits option.splits if_splits)

lemma gcs_store_roundtrip:
  assumes "codec_ok cr" "holds cr c b" "gcs_ok cl objs" "GC_StoreChunk cr cl s w c = (Ok (), w')" "GC_GetChunk cr cl s w' (Digest_Sum cr b) = (r, w'')"
  shows "(\<forall>c'. r = Ok c' \<longrightarrow> holds cr c' b) \<and> (\<forall>i. r \<noteq> Err (ChunkMissing i)) \<and>
    (\<forall>k. GC_nameFromID s (Digest_Sum cr b) \<noteq> Ok k \<longrightarrow> objs w' k = objs w k)"
proof -
  let ?id = "Digest_Sum cr b"
  obtain name where n: "GC_nameFromID s ?id = Ok name" using object_name_Ok[OF sum_len[OF assms(1)]] by (simp add: GC_nameFromID_def)
  have cid: "fst (Chunk_ID cr c) = ?id" using holds_ID[OF assms(2)] by auto
  obtain sb where sb: "fst (Chunk_Storage cr (snd (Chunk_ID cr c)) (gs_converters s)) = Ok sb" "gc_upload cl (gs_Location s) w name sb = (Ok (), w')"
    using assms(4) n cid by (auto simp: GC_StoreChunk_def split: prod.splits res.splits)
  obtain w1 where up: "gc_Copy cl w name sb = (None, w1)" "gc_Close cl w1 name = (None, w')"
    using sb(2) by (auto simp: gc_upload_def split: prod.splits option.splits)
  have obj: "objs w' = (objs w)(name \<mapsto> sb)" using gcs_okD(3)[OF assms(3) up] by simp
  obtain x w2 where x: "gc_NewReader cl w' name = (x, w2)" by (rule prod.exhaust)
  note rdr = gcs_okD(1)[OF assms(3) x]
  note reads = stored_reads_back[OF assms(1,2) sb(1), of "SkipVerify (gs_opt s)"]
  have "(\<forall>c'. r = Ok c' \<longrightarrow> holds cr c' b) \<and> (\<forall>i. r \<noteq> Err (ChunkMissing i))"
  proof (cases x)
    case (Ok rc)
    show ?thesis
    proof (cases "s_end rc = EOF")
      case True
      then have "s_data rc = sb" using rdr Ok obj by auto
      then have "r = NewChunkFromStorage cr ?id sb (gs_converters s) (SkipVerify (gs_opt s))"
        using assms(5) n x Ok True by (simp add: GC_GetChunk_def read_all_def)
      then show ?thesis using reads by simp
    next
      case False
      then show ?thesis using assms(5) n x Ok rdr obj by (auto simp: GC_GetChunk_def read_all_def)
    qed
  qed (use assms(5) n x rdr obj in \<open>auto simp: GC_GetChunk_def\<close>)
  then show ?thesis using obj n by auto
qed

section \<open>SFTP\<close>

text \<open>
  The files of the server. Only the file a call names changes; one that fails may have been done. A rename is atomic, copying is
  not: what a failed copy leaves in the file is open.
\<close>

definition sftp_ok :: "'w sftp_client \<Rightarrow> ('w \<Rightarrow> string \<rightharpoonup> bytes) \<Rightarrow> bool" where
  "sftp_ok cl fs \<longleftrightarrow>
     (\<forall>w p r w'. sf_Open cl w p = (r, w') \<longrightarrow> fs w' = fs w \<and> (r = Err ErrNotExist \<longrightarrow> fs w p = None) \<and> (\<forall>i. r \<noteq> Err (ChunkMissing i)) \<and>
        (\<forall>f. r = Ok f \<longrightarrow> s_end f = EOF \<longrightarrow> fs w p = Some (s_data f))) \<and>
     (\<forall>w p e w'. sf_Create cl w p = (e, w') \<longrightarrow> (\<forall>q. q \<noteq> p \<longrightarrow> fs w' q = fs w q) \<and> (e = None \<longrightarrow> fs w' p = Some [])) \<and>
     (\<forall>w p d e w'. sf_Copy cl w p d = (e, w') \<longrightarrow> (\<forall>q. q \<noteq> p \<longrightarrow> fs w' q = fs w q) \<and> (e = None \<longrightarrow> fs w p = Some [] \<longrightarrow> fs w' p = Some d)) \<and>
     (\<forall>w p e w'. sf_Close cl w p = (e, w') \<longrightarrow> (\<forall>q. q \<noteq> p \<longrightarrow> fs w' q = fs w q) \<and> (e = None \<longrightarrow> fs w' p = fs w p)) \<and>
     (\<forall>w p e w'. sf_Mkdir cl w p = (e, w') \<longrightarrow> fs w' = fs w) \<and>
     (\<forall>w p e w'. sf_Remove cl w p = (e, w') \<longrightarrow> fs w' = (fs w)(p := None) \<or> e \<noteq> None \<and> fs w' = fs w) \<and>
     (\<forall>w p q e w'. sf_PosixRename cl w p q = (e, w') \<longrightarrow> fs w' = (fs w)(q := fs w p, p := None) \<or> e \<noteq> None \<and> fs w' = fs w) \<and>
     (\<forall>w p e w'. sf_Stat cl w p = (e, w') \<longrightarrow> fs w' = fs w)"

lemma sftp_okD:
  assumes "sftp_ok cl fs"
  shows "sf_Open cl w p = (r, w') \<Longrightarrow> fs w' = fs w \<and> (r = Err ErrNotExist \<longrightarrow> fs w p = None) \<and> (\<forall>i. r \<noteq> Err (ChunkMissing i)) \<and>
        (\<forall>f. r = Ok f \<longrightarrow> s_end f = EOF \<longrightarrow> fs w p = Some (s_data f))"
    "sf_Create cl w p = (e, w') \<Longrightarrow> (\<forall>q. q \<noteq> p \<longrightarrow> fs w' q = fs w q) \<and> (e = None \<longrightarrow> fs w' p = Some [])"
    "sf_Copy cl w p d = (e, w') \<Longrightarrow> (\<forall>q. q \<noteq> p \<longrightarrow> fs w' q = fs w q) \<and> (e = None \<longrightarrow> fs w p = Some [] \<longrightarrow> fs w' p = Some d)"
    "sf_Close cl w p = (e, w') \<Longrightarrow> (\<forall>q. q \<noteq> p \<longrightarrow> fs w' q = fs w q) \<and> (e = None \<longrightarrow> fs w' p = fs w p)"
    "sf_Mkdir cl w p = (e, w') \<Longrightarrow> fs w' = fs w"
    "sf_Remove cl w p = (e, w') \<Longrightarrow> fs w' = (fs w)(p := None) \<or> e \<noteq> None \<and> fs w' = fs w"
    "sf_PosixRename cl w p q = (e, w') \<Longrightarrow> fs w' = (fs w)(q := fs w p, p := None) \<or> e \<noteq> None \<and> fs w' = fs w"
    "sf_Stat cl w p = (e, w') \<Longrightarrow> fs w' = fs w"
proof -
  note ok = assms[unfolded sftp_ok_def]
  note t2 = ok[THEN conjunct2] note t3 = t2[THEN conjunct2] note t4 = t3[THEN conjunct2] note t5 = t4[THEN conjunct2]
  note t6 = t5[THEN conjunct2] note t7 = t6[THEN conjunct2]
  show "sf_Open cl w p = (r, w') \<Longrightarrow> fs w' = fs w \<and> (r = Err ErrNotExist \<longrightarrow> fs w p = None) \<and> (\<forall>i. r \<noteq> Err (ChunkMissing i)) \<and>
        (\<forall>f. r = Ok f \<longrightarrow> s_end f = EOF \<longrightarrow> fs w p = Some (s_data f))" using ok[THEN conjunct1] by blast
  show "sf_Create cl w p = (e, w') \<Longrightarrow> (\<forall>q. q \<noteq> p \<longrightarrow> fs w' q = fs w q) \<and> (e = None \<longrightarrow> fs w' p = Some [])"
    using t2[THEN conjunct1] by blast
  show "sf_Copy cl w p d = (e, w') \<Longrightarrow> (\<forall>q. q \<noteq> p \<longrightarrow> fs w' q = fs w q) \<and> (e = None \<longrightarrow> fs w p = Some [] \<longrightarrow> fs w' p = Some d)"
    using t3[THEN conjunct1] by blast
  show "sf_Close cl w p = (e, w') \<Longrightarrow> (\<forall>q. q \<noteq> p \<longrightarrow> fs w' q = fs w q) \<and> (e = None \<longrightarrow> fs w' p = fs w p)"
    using t4[THEN conjunct1] by blast
  show "sf_Mkdir cl w p = (e, w') \<Longrightarrow> fs w' = fs w" using t5[THEN conjunct1] by blast
  show "sf_Remove cl w p = (e, w') \<Longrightarrow> fs w' = (fs w)(p := None) \<or> e \<noteq> None \<and> fs w' = fs w"
    by (rule t6[THEN conjunct1, rule_format])
  show "sf_PosixRename cl w p q = (e, w') \<Longrightarrow> fs w' = (fs w)(q := fs w p, p := None) \<or> e \<noteq> None \<and> fs w' = fs w"
    by (rule t7[THEN conjunct1, rule_format])
  show "sf_Stat cl w p = (e, w') \<Longrightarrow> fs w' = fs w" using t7[THEN conjunct2] by blast
qed

text \<open>\<open>only p\<close>: all files but \<open>p\<close> are the same.\<close>

definition only_file :: "string \<Rightarrow> (string \<rightharpoonup> bytes) \<Rightarrow> (string \<rightharpoonup> bytes) \<Rightarrow> bool" where
  "only_file p m m' \<longleftrightarrow> (\<forall>q. q \<noteq> p \<longrightarrow> m' q = m q)"

lemma only_file_refl [simp]: "only_file p m m"
  by (simp add: only_file_def)

lemma only_file_trans: "only_file p m m' \<Longrightarrow> only_file p m' m'' \<Longrightarrow> only_file p m m''"
  by (simp add: only_file_def)

lemma sftp_only_file:
  assumes "sftp_ok cl fs"
  shows "sf_Create cl w p = (e, w') \<Longrightarrow> only_file p (fs w) (fs w')" "sf_Copy cl w p d = (e, w') \<Longrightarrow> only_file p (fs w) (fs w')"
    "sf_Close cl w p = (e, w') \<Longrightarrow> only_file p (fs w) (fs w')" "sf_Remove cl w p = (e, w') \<Longrightarrow> only_file p (fs w) (fs w')"
    "sf_Mkdir cl w q = (e, w') \<Longrightarrow> only_file p (fs w) (fs w')"
proof -
  note ok = sftp_okD[OF assms]
  show "sf_Create cl w p = (e, w') \<Longrightarrow> only_file p (fs w) (fs w')" unfolding only_file_def by (drule ok(2)) (erule conjunct1)
  show "sf_Copy cl w p d = (e, w') \<Longrightarrow> only_file p (fs w) (fs w')" unfolding only_file_def by (drule ok(3)) (erule conjunct1)
  show "sf_Close cl w p = (e, w') \<Longrightarrow> only_file p (fs w) (fs w')" unfolding only_file_def by (drule ok(4)) (erule conjunct1)
  show "sf_Remove cl w p = (e, w') \<Longrightarrow> only_file p (fs w) (fs w')" by (drule ok(6)) (auto simp: only_file_def)
  show "sf_Mkdir cl w q = (e, w') \<Longrightarrow> only_file p (fs w) (fs w')" by (drule ok(5)) simp
qed

lemma sftp_create_effect:
  assumes "sftp_ok cl fs" "sftp_create cl w d tmp = (e, ws)"
  shows "(\<forall>w' \<in> set ws. only_file tmp (fs w) (fs w')) \<and> ws \<noteq> [] \<and> (e = None \<longrightarrow> fs (last ws) tmp = Some [])"
proof -
  note eff = sftp_only_file[OF assms(1)]
  obtain x w1 where c1: "sf_Create cl w tmp = (x, w1)" by (rule prod.exhaust)
  obtain y w2 where c2: "sf_Mkdir cl w1 d = (y, w2)" by (rule prod.exhaust)
  obtain z w3 where c3: "sf_Create cl w2 tmp = (z, w3)" by (rule prod.exhaust)
  have o1: "only_file tmp (fs w) (fs w1)" using eff(1)[OF c1] .
  have o2: "only_file tmp (fs w) (fs w2)" using only_file_trans[OF o1 eff(5)[OF c2]] .
  have o3: "only_file tmp (fs w) (fs w3)" using only_file_trans[OF o2 eff(1)[OF c3]] .
  show ?thesis
  proof (cases x)
    case None
    then have "e = None" "ws = [w, w1]" using assms(2) c1 by (simp_all add: sftp_create_def)
    then show ?thesis using o1 sftp_okD(2)[OF assms(1) c1] None by simp
  next
    case (Some a)
    then have "e = z" "ws = [w, w1, w2, w3]" using assms(2) c1 c2 c3 by (simp_all add: sftp_create_def)
    then show ?thesis using o1 o2 o3 sftp_okD(2)[OF assms(1) c3] by simp
  qed
qed

theorem sftp_store_atomic:
  assumes "sftp_ok cl fs" "rnd \<noteq> []" "SFTP_StoreObject cl w name rnd b = (r, ws)"
  shows "(\<forall>w' \<in> set ws. (\<forall>p. p \<noteq> name \<longrightarrow> p \<noteq> name @ rnd \<longrightarrow> fs w' p = fs w p) \<and> (fs w' name = fs w name \<or> fs w' name = Some b)) \<and>
    (r = Ok () \<longrightarrow> fs (last ws) name = Some b \<and> fs (last ws) (name @ rnd) = None)"
proof -
  let ?t = "name @ rnd"
  have ne: "name \<noteq> ?t" using assms(2) by simp
  let ?P = "\<lambda>w'. (\<forall>p. p \<noteq> name \<longrightarrow> p \<noteq> ?t \<longrightarrow> fs w' p = fs w p) \<and> (fs w' name = fs w name \<or> fs w' name = Some b)"
  have safe: "?P w'" if "only_file ?t (fs w) (fs w')" for w'
    using that ne by (simp add: only_file_def)
  note eff = sftp_only_file[OF assms(1)]
  obtain x ws0 where c: "sftp_create cl w (path_Dir name) ?t = (x, ws0)" by (rule prod.exhaust)
  note cr = sftp_create_effect[OF assms(1) c]
  let ?w0 = "last ws0"
  obtain y w1 where cp: "sf_Copy cl ?w0 ?t b = (y, w1)" by (rule prod.exhaust)
  obtain u wr where rm: "sf_Remove cl w1 ?t = (u, wr)" by (rule prod.exhaust)
  obtain z w2 where cc: "sf_Close cl w1 ?t = (z, w2)" by (rule prod.exhaust)
  obtain v w3 where rn: "sf_PosixRename cl w2 ?t name = (v, w3)" by (rule prod.exhaust)
  have s0: "\<forall>w' \<in> set ws0. ?P w'" using cr safe by blast
  have o0: "only_file ?t (fs w) (fs ?w0)" using cr by simp
  have o1: "only_file ?t (fs w) (fs w1)" using only_file_trans[OF o0 eff(2)[OF cp]] .
  have o2: "only_file ?t (fs w) (fs w2)" using only_file_trans[OF o1 eff(3)[OF cc]] .
  have o3: "only_file ?t (fs w) (fs wr)" using only_file_trans[OF o1 eff(4)[OF rm]] .
  note run = assms(3)[unfolded SFTP_StoreObject_def Let_def c prod.case]
  show ?thesis
  proof (cases "x = None \<and> y = None \<and> z = None")
    case True
    have full: "fs w2 ?t = Some b"
      using cr sftp_okD(3)[OF assms(1) cp] sftp_okD(4)[OF assms(1) cc] True by simp
    have ws: "ws = ws0 @ [w1, w2, w3]" "r = Ok () \<longleftrightarrow> v = None" using run True cp cc rn by (auto split: option.splits)
    have p3: "?P w3"
      using sftp_okD(7)[OF assms(1) rn] o2 full ne by (auto simp: only_file_def)
    have "v = None \<longrightarrow> fs w3 name = Some b \<and> fs w3 ?t = None"
      using sftp_okD(7)[OF assms(1) rn] full ne by auto
    moreover have "\<forall>w' \<in> set ws0 \<union> {w1, w2, w3}. ?P w'" using s0 safe[OF o1] safe[OF o2] p3 by simp
    moreover have "set ws = set ws0 \<union> {w1, w2, w3}" "last ws = w3" using ws(1) by auto
    ultimately show ?thesis using ws(2) by metis
  next
    case False
    then have "set ws \<subseteq> set ws0 \<union> {w1, w2, wr}" "r \<noteq> Ok ()" using run cp cc rm by (auto split: option.splits)
    moreover have "\<forall>w' \<in> set ws0 \<union> {w1, w2, wr}. ?P w'" using s0 safe[OF o1] safe[OF o2] safe[OF o3] by simp
    ultimately show ?thesis by blast
  qed
qed

lemma object_name_length:
  "object_name pre unc a = Ok k \<Longrightarrow> object_name pre unc b = Ok k' \<Longrightarrow> is_chunk_id a \<Longrightarrow> is_chunk_id b \<Longrightarrow> length k = length k'"
  by (auto simp: object_name_Ok chunk_path_of_def is_chunk_id_def chunk_id_len_def)

text \<open>(C12) In every state the server goes through while a chunk is stored over SFTP, the file of each chunk is what it was or the complete chunk; a stored chunk is not missing and is read back.\<close>

theorem sftp_chunk_atomic:
  assumes "codec_ok cr" "holds cr c b" "sftp_ok cl fs" "rnd \<noteq> []" "SFTP_StoreChunk cr cl s w rnd c = Some (r, ws)"
  shows "(\<forall>w' \<in> set ws. \<forall>cid k. is_chunk_id cid \<longrightarrow> SFTP_nameFromID s cid = Ok k \<longrightarrow>
      fs w' k = fs w k \<or> cid = Digest_Sum cr b \<and> (\<exists>sb. fs w' k = Some sb \<and> fromStorage cr (sp_converters s) sb = Ok b)) \<and>
    (r = Ok () \<longrightarrow> (\<exists>q w''. SFTP_GetChunk cr cl s (last ws) (Digest_Sum cr b) = Some (q, w'') \<and> (\<forall>c'. q = Ok c' \<longrightarrow> holds cr c' b) \<and> (\<forall>i. q \<noteq> Err (ChunkMissing i))))"
proof -
  let ?id = "Digest_Sum cr b"
  have isid: "is_chunk_id ?id" by (rule sum_len[OF assms(1)])
  obtain name where n: "SFTP_nameFromID s ?id = Ok name" using object_name_Ok[OF isid] by (simp add: SFTP_nameFromID_def)
  have cid: "fst (Chunk_ID cr c) = ?id" "holds cr (snd (Chunk_ID cr c)) b" using holds_ID[OF assms(2)] by auto
  obtain sb where sb: "fst (Chunk_Storage cr (snd (Chunk_ID cr c)) (sp_converters s)) = Ok sb" "fromStorage cr (sp_converters s) sb = Ok b"
    using holds_Storage[OF assms(1) cid(2)] by blast
  have run: "SFTP_StoreObject cl w name rnd sb = (r, ws)" and free: "sp_free s \<noteq> 0"
    using assms(5) n cid(1) sb(1) by (auto simp: SFTP_StoreChunk_def split: prod.splits if_splits)
  note atomic = sftp_store_atomic[OF assms(3,4) run]
  have "fs w' k = fs w k \<or> i = ?id \<and> (\<exists>sb. fs w' k = Some sb \<and> fromStorage cr (sp_converters s) sb = Ok b)"
    if "w' \<in> set ws" "is_chunk_id i" "SFTP_nameFromID s i = Ok k" for w' i k
  proof (cases "k = name")
    case True
    then have "i = ?id" using that(3) n object_name_inj unfolding SFTP_nameFromID_def by blast
    then show ?thesis using atomic that(1) True sb(2) by blast
  next
    case False
    have "length k = length name" using that n isid object_name_length unfolding SFTP_nameFromID_def by blast
    then have "k \<noteq> name @ rnd" using assms(4) by auto
    then show ?thesis using atomic that(1) False by blast
  qed
  moreover have "\<exists>q w''. SFTP_GetChunk cr cl s (last ws) ?id = Some (q, w'') \<and> (\<forall>c'. q = Ok c' \<longrightarrow> holds cr c' b) \<and> (\<forall>i. q \<noteq> Err (ChunkMissing i))" if "r = Ok ()"
  proof -
    have stored: "fs (last ws) name = Some sb" using atomic that by blast
    obtain x w2 where x: "sf_Open cl (last ws) name = (x, w2)" by (rule prod.exhaust)
    note op = sftp_okD(1)[OF assms(3) x] and reads = stored_reads_back[OF assms(1,2) sb(1), of "SkipVerify (sp_opt s)"]
    show ?thesis
      using op reads stored x free n
      by (cases x) (auto simp: SFTP_GetChunk_def read_all_def)
  qed
  ultimately show ?thesis by blast
qed

section \<open>Pruning over SFTP\<close>

lemma SFTP_RemoveChunk_effect:
  assumes "sftp_ok cl fs" "SFTP_RemoveChunk cl s w cid = Some (r, w')"
  shows "r \<noteq> Ok () \<and> fs w' = fs w \<or> (\<exists>k. SFTP_nameFromID s cid = Ok k \<and> fs w' = (fs w)(k := None))"
proof (cases "SFTP_nameFromID s cid")
  case (Ok k)
  obtain x w1 where st: "sf_Stat cl w k = (x, w1)" by (rule prod.exhaust)
  obtain y w2 where rm: "sf_Remove cl w1 k = (y, w2)" by (rule prod.exhaust)
  show ?thesis
    using assms(2) Ok st rm sftp_okD(8)[OF assms(1) st] sftp_okD(6)[OF assms(1) rm]
    by (cases x) (auto simp: SFTP_RemoveChunk_def err_res_def split: if_splits option.splits)
qed (use assms in \<open>auto simp: SFTP_RemoveChunk_def split: if_splits\<close>)

lemma hex_decode_k: "CHR ''k'' \<in> set s \<Longrightarrow> hex_decode s \<noteq> Ok bs"
proof (induction s arbitrary: bs rule: hex_decode.induct)
  case (3 p q s)
  have "unhex CHR ''k'' = None" by code_simp
  then show ?case using 3 by (cases "hex_decode s") (auto split: option.splits)
qed (auto split: option.splits)

lemma sftp_walked_uncompressed: "sftp_walked True path \<noteq> ChunkAt cid"
proof
  assume a: "sftp_walked True path = ChunkAt cid"
  have suf: "suffix CompressedChunkExt path" using a by (auto simp: sftp_walked_def Let_def split: if_splits)
  then obtain q where q: "path = q @ ''.cacnk''" by (auto simp: suffix_def CompressedChunkExt_def)
  have "CHR ''k'' \<in> set (path_Base path)" by (simp add: q path_Base_def Let_def)
  moreover have "\<exists>bs. hex_decode (path_Base path) = Ok bs"
    using a suf by (auto simp: sftp_walked_def Let_def UncompressedChunkExt_def trim_suffix_def ChunkIDFromString_def split: res.splits)
  ultimately show False using hex_decode_k by blast
qed

text \<open>No file that \<open>Prune\<close> looks at ends the walk.\<close>

lemma sftp_walked_no_stop: "sftp_walked unc path \<noteq> StopWalk"
  by (auto simp: sftp_walked_def Let_def UncompressedChunkExt_def split: res.splits if_splits)

lemma sftp_prune_walk_effect:
  assumes "sftp_ok cl fs" "sftp_prune_walk cl s dn ids ps w = Some (r, w')"
  shows "pruned (SFTP_nameFromID s) ids (fs w) (fs w') \<and>
    (r = Ok () \<longrightarrow> (\<forall>path cid k. Ok (False, path) \<in> set ps \<longrightarrow> sftp_walked (Uncompressed (sp_opt s)) path = ChunkAt cid \<longrightarrow> cid \<notin> ids \<longrightarrow>
       SFTP_nameFromID s cid = Ok k \<longrightarrow> fs w' k = None))"
  using assms(2)
proof (induction ps arbitrary: w)
  case (Cons p ps)
  show ?case
  proof (cases "\<exists>path cid. p = Ok (False, path) \<and> sftp_walked (Uncompressed (sp_opt s)) path = ChunkAt cid \<and> cid \<notin> ids")
    case True
    then obtain path cid where p: "p = Ok (False, path)" "sftp_walked (Uncompressed (sp_opt s)) path = ChunkAt cid" "cid \<notin> ids" by blast
    show ?thesis
    proof (cases "dn (length ps)")
      case True
      then show ?thesis using Cons.prems by auto
    next
      case False
      then obtain y w1 where rm: "SFTP_RemoveChunk cl s w cid = Some (y, w1)" using Cons.prems p by (auto split: option.splits)
      note e = SFTP_RemoveChunk_effect[OF assms(1) rm]
      have here: "pruned (SFTP_nameFromID s) ids (fs w) (fs w1)" using e pruned_step[OF _ p(3), of "SFTP_nameFromID s"] by auto
      show ?thesis
      proof (cases y)
        case (Ok u)
        obtain k where k: "SFTP_nameFromID s cid = Ok k" "fs w1 = (fs w)(k := None)" using e Ok by auto
        have run: "sftp_prune_walk cl s dn ids ps w1 = Some (r, w')" using Cons.prems p False rm Ok by simp
        note ih = Cons.IH[OF run]
        note st = pruned_step[OF k(1) p(3) ih[THEN conjunct1, unfolded k(2)]]
        show ?thesis using ih st k(1) p by auto
      qed (use Cons.prems p False rm here in auto)
    qed
  next
    case other: False
    consider "r \<noteq> Ok ()" "w' = w" | "sftp_prune_walk cl s dn ids ps w = Some (r, w')"
      using Cons.prems other by (auto split: res.splits walked.splits if_splits simp: sftp_walked_no_stop)
    then show ?thesis
    proof cases
      case 2
      then show ?thesis using Cons.IH[OF 2] other by auto
    qed auto
  qed
qed simp

lemma sftp_prune_walk_idle:
  assumes "sp_free s = 0 \<or> Uncompressed (sp_opt s)" "sftp_prune_walk cl s dn ids ps w = Some (r, w')"
  shows "w' = w"
  using assms(2)
proof (induction ps)
  case (Cons p ps)
  then show ?case using assms(1)
    by (auto simp: SFTP_RemoveChunk_def sftp_walked_uncompressed split: res.splits walked.splits if_splits option.splits)
qed simp

lemma sftp_prune_walk_stuck:
  assumes "sp_free s = 0" "\<not> Uncompressed (sp_opt s)" "\<forall>x \<in> set ps. \<exists>y. x = Ok y"
    "Ok (False, path) \<in> set ps" "sftp_walked False path = ChunkAt cid" "cid \<notin> ids"
  shows "sftp_prune_walk cl s (\<lambda>_. False) ids ps w = None"
  using assms(3,4)
proof (induction ps)
  case (Cons p ps)
  obtain d q where p: "p = Ok (d, q)" using Cons.prems(1) by auto
  show ?case
  proof (cases "d = False \<and> q = path")
    case True
    then show ?thesis using p assms by (simp add: SFTP_RemoveChunk_def)
  next
    case False
    then have "sftp_prune_walk cl s (\<lambda>_. False) ids ps w = None" using Cons p by auto
    then show ?thesis using p assms by (auto simp: SFTP_RemoveChunk_def sftp_walked_no_stop split: walked.splits)
  qed
qed simp

text \<open>Pruning over SFTP removes files of unlisted chunks only, all that the walk shows when it succeeds, and none at all in an uncompressed store.\<close>

theorem sftp_prune_exact:
  assumes "sftp_ok cl fs" "SFTP_Prune cl s dn ids w = Some (r, w')"
  shows "(\<forall>k. fs w' k \<noteq> fs w k \<longrightarrow> fs w' k = None \<and> (\<exists>cid. SFTP_nameFromID s cid = Ok k \<and> cid \<notin> ids)) \<and>
    (r = Ok () \<longrightarrow> (\<forall>path cid k. Ok (False, path) \<in> set (sf_Walk cl w (sp_path s)) \<longrightarrow> sftp_walked (Uncompressed (sp_opt s)) path = ChunkAt cid \<longrightarrow>
       cid \<notin> ids \<longrightarrow> SFTP_nameFromID s cid = Ok k \<longrightarrow> fs w' k = None)) \<and>
    (Uncompressed (sp_opt s) \<longrightarrow> w' = w)"
proof -
  let ?s = "s\<lparr>sp_free := sp_free s - 1\<rparr>"
  have run: "sftp_prune_walk cl ?s dn ids (sf_Walk cl w (sp_path s)) w = Some (r, w')"
    using assms(2) by (simp add: SFTP_Prune_def split: if_splits)
  have nm: "SFTP_nameFromID ?s = SFTP_nameFromID s" by (rule ext) (simp add: SFTP_nameFromID_def)
  show ?thesis using sftp_prune_walk_effect[OF assms(1) run] sftp_prune_walk_idle[OF _ run] unfolding pruned_def nm by simp
qed

text \<open>(C38) A pool of one session never finishes pruning a compressed store when the walk shows a chunk to remove and no error, and the context is not cancelled: the session the walk holds is the one that removing waits for.\<close>

theorem sftp_prune_one_session:
  assumes "sp_free s = 1" "\<not> Uncompressed (sp_opt s)" "\<forall>x \<in> set (sf_Walk cl w (sp_path s)). \<exists>y. x = Ok y"
    "Ok (False, path) \<in> set (sf_Walk cl w (sp_path s))" "sftp_walked False path = ChunkAt cid" "cid \<notin> ids"
  shows "SFTP_Prune cl s (\<lambda>_. False) ids w = None"
  using sftp_prune_walk_stuck[of "s\<lparr>sp_free := 0\<rparr>", OF _ _ assms(3-6)] assms(1,2) by (simp add: SFTP_Prune_def)

section \<open>Instances\<close>

text \<open>A server that keeps its objects in a list and fails as often as its second component says.\<close>

type_synonym listed_buckets = "((string \<times> string) \<times> bytes) list \<times> nat"

definition listed_objs :: "listed_buckets \<Rightarrow> string \<Rightarrow> string \<rightharpoonup> bytes" where
  "listed_objs w b k = map_of (fst w) (b, k)"

definition listed_s3 :: "listed_buckets s3_client" where
  "listed_s3 =
     \<lparr>s3_GetObject = (\<lambda>(m, n) b k.
        if 0 < n then (Err (ErrIO ''down''), (m, n - 1))
        else (Ok (case map_of m (b, k) of Some d \<Rightarrow> \<lparr>s_data = d, s_end = EOF\<rparr> | None \<Rightarrow> \<lparr>s_data = [], s_end = ErrIO ''NoSuchKey''\<rparr>), (m, n))),
      s3_PutObject = (\<lambda>(m, n) b k d. if 0 < n then (Some (ErrIO ''down''), (m, n - 1)) else (None, (((b, k), d) # m, n))),
      s3_StatObject = (\<lambda>(m, n) b k. if 0 < n then (Some (ErrIO ''down''), (m, n - 1)) else (if map_of m (b, k) = None then Some (ErrIO ''NoSuchKey'') else None, (m, n))),
      s3_RemoveObject = (\<lambda>(m, n) b k. if 0 < n then (Some (ErrIO ''down''), (m, n - 1)) else (None, (filter (\<lambda>x. fst x \<noteq> (b, k)) m, n))),
      s3_ListObjects = (\<lambda>(m, n) b p. map (\<lambda>x. Ok (snd (fst x))) (filter (\<lambda>x. fst (fst x) = b \<and> prefix p (snd (fst x))) m)),
      s3_ErrorCode = (\<lambda>e. if e = ErrIO ''NoSuchKey'' then Some ''NoSuchKey'' else None)\<rparr>"

lemma map_of_filter_ne: "map_of (filter (\<lambda>x. fst x \<noteq> a) m) = (map_of m)(a := None)"
  by (induction m) auto

lemma listed_s3_ok: "s3_ok listed_s3 listed_objs"
  unfolding s3_ok_def
proof (intro conjI allI impI)
  fix w :: listed_buckets and b p k
  assume "prefix p k \<and> listed_objs w b k \<noteq> None"
  then obtain d where "((b, k), d) \<in> set (fst w)" "prefix p k" by (auto simp: listed_objs_def dest: map_of_SomeD)
  then show "Ok k \<in> set (s3_ListObjects listed_s3 w b p)" by (force simp: listed_s3_def split: prod.splits)
qed (auto simp: listed_s3_def listed_objs_def map_of_filter_ne fun_eq_iff split: prod.splits if_splits option.splits)

definition listed_store :: S3Store where
  "listed_store = \<lparr>s3_Location = ''s3'', s3_bucket = ''b'', s3_prefix = ''p/'', s3_opt = NewStoreOptionsWithDefaults, s3_converters = [Compressor]\<rparr>"

lemma listed_store_made:
  "NewS3StoreBase (\<lambda>_ _. None) ''s3'' \<lparr>u_Scheme = ''s3+https'', u_Host = ''h'', u_Path = ''/b/p/''\<rparr> NewStoreOptionsWithDefaults = Ok listed_store"
  by code_simp

abbreviation chunk_a :: Chunk where "chunk_a \<equiv> NewChunk [1, 2, 3]"
abbreviation chunk_b :: Chunk where "chunk_b \<equiv> NewChunk [4]"
abbreviation id_a :: chunk_id where "id_a \<equiv> Digest_Sum toy_codec [1, 2, 3]"
abbreviation id_b :: chunk_id where "id_b \<equiv> Digest_Sum toy_codec [4]"

definition listed_stored :: "unit res \<times> listed_buckets" where
  "listed_stored = S3_StoreChunk toy_codec listed_s3 listed_store ([], 2) chunk_a"

definition listed_both :: "unit res \<times> listed_buckets" where
  "listed_both = S3_StoreChunk toy_codec listed_s3 listed_store (snd listed_stored) chunk_b"

definition listed_pruned :: "unit res \<times> listed_buckets" where
  "listed_pruned = S3_Prune listed_s3 listed_store (\<lambda>_. False) {id_a} (snd listed_both)"

lemma listed_runs:
  "fst listed_stored = Ok ()" "fst listed_pruned = Ok ()"
  "case S3_GetChunk toy_codec listed_s3 listed_store (snd listed_stored) id_a of (Ok c, _) \<Rightarrow> True | _ \<Rightarrow> False"
  by code_simp+

lemma ids_ab: "is_chunk_id id_b" "id_b \<notin> {id_a}"
  by code_simp+

theorem s3_store_roundtrip_witness:
  "\<exists>c' w'. S3_GetChunk toy_codec listed_s3 listed_store (snd listed_stored) id_a = (Ok c', w') \<and> holds toy_codec c' [1, 2, 3]"
proof -
  have st: "S3_StoreChunk toy_codec listed_s3 listed_store ([], 2) chunk_a = (Ok (), snd listed_stored)"
    using listed_runs(1) unfolding listed_stored_def by (simp add: prod_eq_iff)
  obtain c' w' where g: "S3_GetChunk toy_codec listed_s3 listed_store (snd listed_stored) id_a = (Ok c', w')"
    using listed_runs(3) by (auto split: prod.splits res.splits)
  show ?thesis using s3_store_roundtrip[OF toy_codec_ok _ listed_s3_ok st g] g by (auto simp: holds_NewChunk)
qed

theorem s3_prune_exact_witness:
  "\<exists>k. S3_nameFromID listed_store id_b = Ok k \<and> listed_objs (snd listed_both) ''b'' k \<noteq> None \<and> listed_objs (snd listed_pruned) ''b'' k = None"
proof -
  have run: "S3_Prune listed_s3 listed_store (\<lambda>_. False) {id_a} (snd listed_both) = (Ok (), snd listed_pruned)"
    using listed_runs(2) unfolding listed_pruned_def by (simp add: prod_eq_iff)
  have "case S3_nameFromID listed_store id_b of Ok k \<Rightarrow> listed_objs (snd listed_both) ''b'' k \<noteq> None | _ \<Rightarrow> False" by code_simp
  then obtain k where k: "S3_nameFromID listed_store id_b = Ok k" "listed_objs (snd listed_both) ''b'' k \<noteq> None" by (auto split: res.splits)
  have "s3_bucket listed_store = ''b''" by (simp add: listed_store_def)
  then show ?thesis using s3_prune_exact[OF listed_s3_ok run, THEN conjunct2, rule_format, OF refl ids_ab k(1)] k by auto
qed

text \<open>A bucket whose writers are pending until they are closed.\<close>

type_synonym listed_bucket = "(string \<times> bytes) list \<times> (string \<times> bytes) list"

definition listed_gcs :: "listed_bucket gcs_client" where
  "listed_gcs =
     \<lparr>gc_NewReader = (\<lambda>(m, p) k. (case map_of m k of Some d \<Rightarrow> Ok \<lparr>s_data = d, s_end = EOF\<rparr> | None \<Rightarrow> Err ErrObjectNotExist, (m, p))),
      gc_Copy = (\<lambda>(m, p) k d. (None, (m, (k, d) # p))),
      gc_Close = (\<lambda>(m, p) k. case map_of p k of Some d \<Rightarrow> (None, ((k, d) # m, p)) | None \<Rightarrow> (Some (ErrIO ''no writer''), (m, p))),
      gc_Attrs = (\<lambda>(m, p) k. (if map_of m k = None then Some ErrObjectNotExist else None, (m, p))),
      gc_Delete = (\<lambda>(m, p) k. (if map_of m k = None then Some ErrObjectNotExist else None, (filter (\<lambda>x. fst x \<noteq> k) m, p))),
      gc_Objects = (\<lambda>(m, p) pre. map (\<lambda>x. Ok (fst x)) (filter (\<lambda>x. prefix pre (fst x)) m))\<rparr>"

lemma listed_gcs_ok: "gcs_ok listed_gcs (\<lambda>w. map_of (fst w))"
  unfolding gcs_ok_def
proof (intro conjI allI impI)
  fix w :: listed_bucket and p k
  assume "prefix p k \<and> map_of (fst w) k \<noteq> None"
  then obtain d where "(k, d) \<in> set (fst w)" "prefix p k" by (auto dest: map_of_SomeD)
  then show "Ok k \<in> set (gc_Objects listed_gcs w p)" by (force simp: listed_gcs_def split: prod.splits)
qed (auto simp: listed_gcs_def ErrObjectNotExist_def map_of_filter_ne fun_eq_iff split: prod.splits if_splits option.splits)

definition gcs_store :: GCStore where
  "gcs_store = \<lparr>gs_Location = ''gs'', gs_bucket = ''b'', gs_prefix = ''p/'', gs_opt = NewStoreOptionsWithDefaults, gs_converters = [Compressor]\<rparr>"

lemma gcs_store_made:
  "NewGCStoreBase None ''gs'' \<lparr>u_Scheme = ''gs'', u_Host = ''b'', u_Path = ''/p/''\<rparr> NewStoreOptionsWithDefaults = Ok gcs_store"
  by code_simp

lemma listed_gcs_run:
  "case GC_StoreChunk toy_codec listed_gcs gcs_store ([], []) chunk_a of (r, w) \<Rightarrow> r = Ok () \<and>
     (case GC_GetChunk toy_codec listed_gcs gcs_store w id_a of (Ok c, _) \<Rightarrow> fst (Chunk_Data toy_codec c) = Ok [1, 2, 3] | _ \<Rightarrow> False) \<and>
     fst (GC_HasChunk listed_gcs gcs_store w id_a) = Ok True \<and> fst (GC_HasChunk listed_gcs gcs_store w id_b) = Ok False"
  by code_simp

text \<open>An SFTP server that keeps its files in a list, without directories.\<close>

type_synonym listed_files = "(string \<times> bytes) list \<times> nat"

definition listed_fs :: "listed_files \<Rightarrow> string \<rightharpoonup> bytes" where
  "listed_fs w = map_of (fst w)"

definition listed_sftp :: "listed_files sftp_client" where
  "listed_sftp =
     \<lparr>sf_Open = (\<lambda>(m, n) p. (case map_of m p of Some d \<Rightarrow> Ok \<lparr>s_data = d, s_end = EOF\<rparr> | None \<Rightarrow> Err ErrNotExist, (m, n))),
      sf_Create = (\<lambda>(m, n) p. if 0 < n then (Some (ErrIO ''down''), (m, n - 1)) else (None, ((p, []) # m, n))),
      sf_Copy = (\<lambda>(m, n) p d. if 0 < n then (Some (ErrIO ''down''), (m, n - 1)) else (None, ((p, d) # m, n))),
      sf_Close = (\<lambda>w p. (None, w)),
      sf_Mkdir = (\<lambda>w p. (None, w)),
      sf_Remove = (\<lambda>(m, n) p. (None, (filter (\<lambda>x. fst x \<noteq> p) m, n))),
      sf_PosixRename = (\<lambda>(m, n) p q. case map_of m p of None \<Rightarrow> (Some ErrNotExist, (m, n)) | Some d \<Rightarrow> (None, (filter (\<lambda>x. fst x \<noteq> p) ((q, d) # m), n))),
      sf_Stat = (\<lambda>(m, n) p. (if map_of m p = None then Some ErrNotExist else None, (m, n))),
      sf_Walk = (\<lambda>(m, n) r. Ok (True, r) # map (\<lambda>x. Ok (False, fst x)) (filter (\<lambda>x. prefix r (fst x)) m))\<rparr>"

lemma listed_sftp_ok: "sftp_ok listed_sftp listed_fs"
  unfolding sftp_ok_def
  by (intro conjI allI impI)
     (auto simp: listed_sftp_def listed_fs_def map_of_filter_ne fun_eq_iff split: prod.splits if_splits option.splits)

definition listed_pool :: "nat \<Rightarrow> SFTPStore" where
  "listed_pool n = \<lparr>sp_path = ''/s/'', sp_opt = NewStoreOptionsWithDefaults, sp_converters = [Compressor], sp_free = n\<rparr>"

lemma listed_pool_made:
  "NewSFTPStore (\<lambda>_. None) (\<lambda>_. None) \<lparr>u_Scheme = ''sftp'', u_Host = ''h'', u_Path = ''/s''\<rparr> (NewStoreOptionsWithDefaults\<lparr>opt_N := 2\<rparr>) =
     Ok (listed_pool 2\<lparr>sp_opt := NewStoreOptionsWithDefaults\<lparr>opt_N := 2\<rparr>\<rparr>)"
  by code_simp

definition pool_stored :: "(unit res \<times> listed_files list) option" where
  "pool_stored = SFTP_StoreChunk toy_codec listed_sftp (listed_pool 2) ([], 1) ''17'' chunk_a"

definition pool_files :: listed_files where
  "pool_files = (case pool_stored of Some (_, ws) \<Rightarrow> last ws | None \<Rightarrow> ([], 0))"

lemma pool_runs: "case pool_stored of Some (r, ws) \<Rightarrow> r = Ok () \<and> length ws = 7 | None \<Rightarrow> False"
  by code_simp

theorem sftp_chunk_atomic_witness:
  "\<exists>ws. pool_stored = Some (Ok (), ws) \<and> list_all (\<lambda>w'. \<exists>k. SFTP_nameFromID (listed_pool 2) id_b = Ok k \<and> listed_fs w' k = None) ws \<and>
    (\<exists>q w''. SFTP_GetChunk toy_codec listed_sftp (listed_pool 2) (last ws) id_a = Some (q, w'') \<and> (\<forall>i. q \<noteq> Err (ChunkMissing i)))"
proof -
  obtain ws where ws: "pool_stored = Some (Ok (), ws)" using pool_runs by (auto split: option.splits)
  note run = sftp_chunk_atomic[OF toy_codec_ok _ listed_sftp_ok _ ws[unfolded pool_stored_def], of "[1, 2, 3]"]
  obtain k where k: "SFTP_nameFromID (listed_pool 2) id_b = Ok k" using object_name_Ok[OF ids_ab(1)] by (simp add: SFTP_nameFromID_def)
  have "listed_fs ([], 1) k = None" by (simp add: listed_fs_def)
  then have "listed_fs w' k = None" if "w' \<in> set ws" for w'
    using run[THEN conjunct1, rule_format, OF _ _ that ids_ab(1) k] ids_ab(2) by (auto simp: holds_NewChunk)
  then show ?thesis using run ws k by (auto simp: holds_NewChunk list_all_iff)
qed

theorem sftp_prune_exact_witness:
  "\<exists>w'. SFTP_Prune listed_sftp (listed_pool 2) (\<lambda>_. False) {id_b} pool_files = Some (Ok (), w') \<and>
     (\<exists>k. SFTP_nameFromID (listed_pool 2) id_a = Ok k \<and> listed_fs pool_files k \<noteq> None \<and> listed_fs w' k = None)"
proof -
  have "case SFTP_Prune listed_sftp (listed_pool 2) (\<lambda>_. False) {id_b} pool_files of Some (r, w') \<Rightarrow> r = Ok () | None \<Rightarrow> False" by code_simp
  then obtain w' where w': "SFTP_Prune listed_sftp (listed_pool 2) (\<lambda>_. False) {id_b} pool_files = Some (Ok (), w')" by (auto split: option.splits)
  have "case SFTP_nameFromID (listed_pool 2) id_a of Ok k \<Rightarrow> listed_fs pool_files k \<noteq> None \<and> id_a \<notin> {id_b} \<and>
      Ok (False, k) \<in> set (sf_Walk listed_sftp pool_files (sp_path (listed_pool 2))) \<and> sftp_walked (Uncompressed (sp_opt (listed_pool 2))) k = ChunkAt id_a | _ \<Rightarrow> False"
    by code_simp
  then obtain k where k: "SFTP_nameFromID (listed_pool 2) id_a = Ok k" "listed_fs pool_files k \<noteq> None" "id_a \<notin> {id_b}"
      "Ok (False, k) \<in> set (sf_Walk listed_sftp pool_files (sp_path (listed_pool 2)))" "sftp_walked (Uncompressed (sp_opt (listed_pool 2))) k = ChunkAt id_a"
    by (auto split: res.splits)
  then show ?thesis using sftp_prune_exact[OF listed_sftp_ok w'] w' by blast
qed

theorem sftp_prune_one_session_witness:
  "SFTP_Prune listed_sftp (listed_pool 1) (\<lambda>_. False) {} pool_files = None"
proof -
  let ?walk = "sf_Walk listed_sftp pool_files (sp_path (listed_pool 1))"
  have "case SFTP_nameFromID (listed_pool 1) id_a of Ok k \<Rightarrow> Ok (False, k) \<in> set ?walk \<and> sftp_walked False k = ChunkAt id_a | _ \<Rightarrow> False"
    by code_simp
  then obtain k where k: "Ok (False, k) \<in> set ?walk" "sftp_walked False k = ChunkAt id_a" by (auto split: res.splits)
  have "\<forall>x \<in> set ?walk. \<exists>y. x = Ok y" by (auto simp: listed_sftp_def split: prod.splits)
  then show ?thesis using sftp_prune_one_session[OF _ _ _ k] by (simp add: listed_pool_def NewStoreOptionsWithDefaults_def)
qed

end
