(* ===== verification/Verify.thy ===== *)
theory Verify
  imports Assemble_Props
begin

text \<open>
  \<open>VerifyIndex\<close> (\<^verbatim>\<open>src/verifyindex.go\<close>), which compares a file with an index: a feeder hands batches of chunks to workers over
  an unbuffered channel, and the first error makes it stop. A state holds what the feeder and the workers are about to do;
  a step is one of them going on. \<open>cancelled\<close> tells whether the caller's context is done; the file does not change meanwhile.
  The progress bar has no counterpart.
\<close>

section \<open>The feeder and the workers\<close>

datatype vworker = VWaiting | VChecking "IndexChunk list" | VDone

record verify_state =
  vs_i :: nat
  vs_feeding :: bool
  vs_workers :: "vworker list"
  vs_err :: "go_error option"
  vs_panic :: "string option"

text \<open>A batch: \<open>idx.Chunks[i : last+1]\<close>.\<close>

definition verify_batch :: "IndexChunk list \<Rightarrow> nat \<Rightarrow> nat \<Rightarrow> IndexChunk list" where
  "verify_batch cs batch i =
     (let l = (if length cs \<le> i + batch then length cs - 1 else i + batch) in slice cs i (l + 1))"

definition verify_feed :: "IndexChunk list \<Rightarrow> nat \<Rightarrow> nat \<Rightarrow> verify_state \<Rightarrow> verify_state" where
  "verify_feed cs batch k st =
     st\<lparr>vs_i := vs_i st + batch + 1, vs_workers := (vs_workers st)[k := VChecking (verify_batch cs batch (vs_i st))]\<rparr>"

text \<open>What a worker does with a batch; the group keeps the first error.\<close>

definition verify_work :: "codec_fns \<Rightarrow> string \<Rightarrow> bytes \<Rightarrow> nat \<Rightarrow> IndexChunk list \<Rightarrow> verify_state \<Rightarrow> verify_state" where
  "verify_work cr name data k c st =
     (case segment_Validate cr data (fileSeedSegment name c False) of
        Ok _ \<Rightarrow> st\<lparr>vs_workers := (vs_workers st)[k := VWaiting]\<rparr>
      | Err e \<Rightarrow> st\<lparr>vs_workers := (vs_workers st)[k := VDone], vs_err := Some (case vs_err st of None \<Rightarrow> e | Some e' \<Rightarrow> e')\<rparr>
      | Panic x \<Rightarrow> st\<lparr>vs_panic := Some x\<rparr>)"

inductive verify_step ::
  "codec_fns \<Rightarrow> string \<Rightarrow> bytes \<Rightarrow> IndexChunk list \<Rightarrow> nat \<Rightarrow> bool \<Rightarrow> verify_state \<Rightarrow> verify_state \<Rightarrow> bool"
  for cr name data cs batch cancelled where
  v_feed: "vs_panic st = None \<Longrightarrow> vs_feeding st \<Longrightarrow> vs_i st < length cs \<Longrightarrow> k < length (vs_workers st) \<Longrightarrow> vs_workers st ! k = VWaiting \<Longrightarrow>
     verify_step cr name data cs batch cancelled st (verify_feed cs batch k st)"
| v_stop: "vs_panic st = None \<Longrightarrow> vs_feeding st \<Longrightarrow> vs_i st < length cs \<Longrightarrow> cancelled \<or> vs_err st \<noteq> None \<Longrightarrow>
     verify_step cr name data cs batch cancelled st (st\<lparr>vs_feeding := False\<rparr>)"
| v_close: "vs_panic st = None \<Longrightarrow> vs_feeding st \<Longrightarrow> \<not> vs_i st < length cs \<Longrightarrow>
     verify_step cr name data cs batch cancelled st (st\<lparr>vs_feeding := False\<rparr>)"
| v_check: "vs_panic st = None \<Longrightarrow> k < length (vs_workers st) \<Longrightarrow> vs_workers st ! k = VChecking c \<Longrightarrow>
     verify_step cr name data cs batch cancelled st (verify_work cr name data k c st)"
| v_exit: "vs_panic st = None \<Longrightarrow> \<not> vs_feeding st \<Longrightarrow> k < length (vs_workers st) \<Longrightarrow> vs_workers st ! k = VWaiting \<Longrightarrow>
     verify_step cr name data cs batch cancelled st (st\<lparr>vs_workers := (vs_workers st)[k := VDone]\<rparr>)"

definition verify_start :: "nat \<Rightarrow> verify_state" where
  "verify_start n = \<lparr>vs_i = 0, vs_feeding = True, vs_workers = replicate n VWaiting, vs_err = None, vs_panic = None\<rparr>"

definition verify_ended :: "verify_state \<Rightarrow> bool" where
  "verify_ended st \<longleftrightarrow> vs_panic st \<noteq> None \<or> \<not> vs_feeding st \<and> list_all (\<lambda>x. x = VDone) (vs_workers st)"

definition verify_result :: "verify_state \<Rightarrow> unit res" where
  "verify_result st =
     (case vs_panic st of Some x \<Rightarrow> Panic x | None \<Rightarrow> (case vs_err st of Some e \<Rightarrow> Err e | None \<Rightarrow> Ok ()))"

section \<open>The function\<close>

text \<open>
  \<open>stat\<close> is the mode and the size of the file, \<open>opened\<close> how opening it ends for the number of the worker. Without
  workers (\<open>n < 0\<close>) there is no batch, and the size of one does not matter; \<open>n = 0\<close> divides by zero.
\<close>

inductive VerifyIndex ::
  "codec_fns \<Rightarrow> bool \<Rightarrow> string \<Rightarrow> (file_mode \<times> int) res \<Rightarrow> (nat \<Rightarrow> go_error option) \<Rightarrow> bytes \<Rightarrow> Index \<Rightarrow> int \<Rightarrow> unit res \<Rightarrow> bool"
  for cr cancelled name stat opened data idx n where
  v_stat: "stat = Err e \<Longrightarrow> VerifyIndex cr cancelled name stat opened data idx n (Err e)"
| v_size: "stat = Ok (m, sz) \<Longrightarrow> \<not> isDevice m \<Longrightarrow> sz \<noteq> Index_Length idx \<Longrightarrow>
     VerifyIndex cr cancelled name stat opened data idx n (Err (Errorf ''index size (%d) does not match file size (%d)''))"
| v_open: "stat = Ok (m, sz) \<Longrightarrow> isDevice m \<or> sz = Index_Length idx \<Longrightarrow> k < nat n \<Longrightarrow> opened k = Some e \<Longrightarrow>
     VerifyIndex cr cancelled name stat opened data idx n (Err (Errorf ''unable to open file %s, %s''))"
| v_zero: "stat = Ok (m, sz) \<Longrightarrow> isDevice m \<or> sz = Index_Length idx \<Longrightarrow> n = 0 \<Longrightarrow>
     VerifyIndex cr cancelled name stat opened data idx n (Panic ''integer divide by zero'')"
| v_run: "stat = Ok (m, sz) \<Longrightarrow> isDevice m \<or> sz = Index_Length idx \<Longrightarrow> \<forall>k < nat n. opened k = None \<Longrightarrow> n \<noteq> 0 \<Longrightarrow>
     (verify_step cr name data (idx_chunks idx) (nat (int (length (idx_chunks idx)) div (n * 10))) cancelled)\<^sup>*\<^sup>* (verify_start (nat n)) st \<Longrightarrow>
     verify_ended st \<Longrightarrow> VerifyIndex cr cancelled name stat opened data idx n (verify_result st)"

section \<open>Every run ends\<close>

fun vworker_left :: "vworker \<Rightarrow> nat" where
  "vworker_left VWaiting = 1"
| "vworker_left (VChecking c) = 2"
| "vworker_left VDone = 0"

definition verify_left :: "nat \<Rightarrow> verify_state \<Rightarrow> nat" where
  "verify_left m st = 2 * (m - vs_i st) + of_bool (vs_feeding st) + of_bool (vs_panic st = None) + sum_list (map vworker_left (vs_workers st))"

lemma sum_list_vworker: "k < length ws \<Longrightarrow>
  sum_list (map vworker_left (ws[k := x])) + vworker_left (ws ! k) = sum_list (map vworker_left ws) + vworker_left x"
  by (induction ws arbitrary: k) (auto split: nat.splits simp: less_Suc_eq_0_disj)

lemma verify_step_less:
  assumes "verify_step cr name data cs batch cancelled st st'"
  shows "verify_left (length cs) st' < verify_left (length cs) st"
  using assms
proof cases
  case (v_feed k)
  then show ?thesis using sum_list_vworker[of k "vs_workers st" "VChecking (verify_batch cs batch (vs_i st))"]
    by (simp add: verify_left_def verify_feed_def)
next
  case (v_check k c)
  then show ?thesis using sum_list_vworker[of k "vs_workers st" VWaiting] sum_list_vworker[of k "vs_workers st" VDone]
    by (auto simp: verify_left_def verify_work_def split: res.splits)
next
  case (v_exit k)
  then show ?thesis using sum_list_vworker[of k "vs_workers st" VDone] by (simp add: verify_left_def)
qed (simp_all add: verify_left_def)

section \<open>What a run finds out\<close>

definition chunk_matches :: "codec_fns \<Rightarrow> bytes \<Rightarrow> IndexChunk \<Rightarrow> bool" where
  "chunk_matches cr data c \<longleftrightarrow> (\<exists>b. read_chunk data c = Ok b \<and> Digest_Sum cr b = ic_id c)"

lemma validate_chunks_iff: "validate_chunks cr data cs = Ok () \<longleftrightarrow> list_all (chunk_matches cr data) cs"
proof (induction cs)
  case (Cons c cs)
  then show ?case by (cases "read_chunk data c") (auto simp: chunk_matches_def)
qed simp

lemma verify_batch_nth:
  assumes "i \<le> j" "j \<le> i + batch" "j < length cs"
  shows "cs ! j \<in> set (verify_batch cs batch i)"
proof -
  have "verify_batch cs batch i = take (batch + 1) (drop i cs)"
    using assms by (auto simp: verify_batch_def slice_def Let_def take_drop min_def)
  moreover have "take (batch + 1) (drop i cs) ! (j - i) = cs ! j" "j - i < length (take (batch + 1) (drop i cs))" using assms by auto
  ultimately show ?thesis by (metis nth_mem)
qed

lemma verify_batch_subset: "set (verify_batch cs batch i) \<subseteq> set cs"
  by (auto simp: verify_batch_def slice_def Let_def dest: in_set_takeD in_set_dropD)

definition verify_inv :: "codec_fns \<Rightarrow> bytes \<Rightarrow> IndexChunk list \<Rightarrow> bool \<Rightarrow> nat \<Rightarrow> verify_state \<Rightarrow> bool" where
  "verify_inv cr data cs cancelled n st \<longleftrightarrow>
     length (vs_workers st) = n \<and>
     (\<forall>b. VChecking b \<in> set (vs_workers st) \<longrightarrow> set b \<subseteq> set cs) \<and>
     (vs_feeding st \<and> VDone \<in> set (vs_workers st) \<longrightarrow> vs_err st \<noteq> None) \<and>
     (list_all (chunk_matches cr data) cs \<longrightarrow> vs_err st = None \<and> vs_panic st = None) \<and>
     (vs_err st = None \<longrightarrow> vs_panic st = None \<longrightarrow>
        (\<not> vs_feeding st \<longrightarrow> cancelled \<or> length cs \<le> vs_i st) \<and>
        (\<forall>j < length cs. j < vs_i st \<longrightarrow> chunk_matches cr data (cs ! j) \<or> (\<exists>b. VChecking b \<in> set (vs_workers st) \<and> cs ! j \<in> set b)))"

lemma in_set_update_other: "x \<in> set ws \<Longrightarrow> k < length ws \<Longrightarrow> ws ! k \<noteq> x \<Longrightarrow> x \<in> set (ws[k := y])"
  by (metis in_set_conv_nth length_list_update nth_list_update_neq)

lemma set_update_new: "k < length ws \<Longrightarrow> y \<in> set (ws[k := y])"
  by (simp add: set_update_memI)

lemma verify_feed_inv:
  assumes iv: "verify_inv cr data cs cancelled n st" and k: "k < length (vs_workers st)" "vs_workers st ! k = VWaiting" "vs_feeding st"
  shows "verify_inv cr data cs cancelled n (verify_feed cs batch k st)"
proof -
  let ?b = "verify_batch cs batch (vs_i st)" and ?ws = "vs_workers st"
  let ?ws' = "?ws[k := VChecking ?b]"
  have sub: "set ?ws' \<subseteq> insert (VChecking ?b) (set ?ws)" by (rule set_update_subset_insert)
  have new: "VChecking ?b \<in> set ?ws'" using k(1) by (rule set_update_new)
  have old: "VChecking b \<in> set ?ws'" if "VChecking b \<in> set ?ws" for b using in_set_update_other[OF that k(1)] k(2) by simp
  have "chunk_matches cr data (cs ! j) \<or> (\<exists>b. VChecking b \<in> set ?ws' \<and> cs ! j \<in> set b)"
    if "vs_err st = None" "vs_panic st = None" "j < length cs" "j < vs_i st + batch + 1" for j
  proof (cases "j < vs_i st")
    case True
    then show ?thesis using iv that old by (auto simp: verify_inv_def)
  next
    case False
    then show ?thesis using verify_batch_nth[of "vs_i st" j batch cs] that new by auto
  qed
  moreover have "\<forall>b. VChecking b \<in> set ?ws' \<longrightarrow> set b \<subseteq> set cs"
    using iv sub verify_batch_subset[of cs batch "vs_i st"] by (auto simp: verify_inv_def)
  moreover have "VDone \<in> set ?ws' \<Longrightarrow> VDone \<in> set ?ws" using sub by auto
  ultimately show ?thesis using iv k(3) by (simp add: verify_inv_def verify_feed_def)
qed

lemma verify_work_inv:
  assumes iv: "verify_inv cr data cs cancelled n st" and k: "k < length (vs_workers st)" "vs_workers st ! k = VChecking c"
  shows "verify_inv cr data cs cancelled n (verify_work cr name data k c st)"
proof -
  let ?ws = "vs_workers st"
  have c: "set c \<subseteq> set cs" using iv k nth_mem[OF k(1)] by (auto simp: verify_inv_def)
  have all: "validate_chunks cr data c = Ok ()" if "list_all (chunk_matches cr data) cs"
    using that c by (auto simp: validate_chunks_iff list_all_iff)
  show ?thesis
  proof (cases "validate_chunks cr data c")
    case (Ok u)
    have sub: "set (?ws[k := VWaiting]) \<subseteq> insert VWaiting (set ?ws)" by (rule set_update_subset_insert)
    have "list_all (chunk_matches cr data) c" using Ok by (simp add: validate_chunks_iff)
    then have "chunk_matches cr data (cs ! j) \<or> (\<exists>b. VChecking b \<in> set (?ws[k := VWaiting]) \<and> cs ! j \<in> set b)"
      if "chunk_matches cr data (cs ! j) \<or> (\<exists>b. VChecking b \<in> set ?ws \<and> cs ! j \<in> set b)" for j
      using that in_set_update_other[of "VChecking _" ?ws k VWaiting] k by (auto simp: list_all_iff)
    moreover have "\<forall>b. VChecking b \<in> set (?ws[k := VWaiting]) \<longrightarrow> set b \<subseteq> set cs" using iv sub by (auto simp: verify_inv_def)
    moreover have "VDone \<in> set (?ws[k := VWaiting]) \<Longrightarrow> VDone \<in> set ?ws" using sub by auto
    ultimately show ?thesis using iv Ok by (simp add: verify_inv_def verify_work_def)
  next
    case (Err e)
    have sub: "set (?ws[k := VDone]) \<subseteq> insert VDone (set ?ws)" by (rule set_update_subset_insert)
    then have "\<forall>b. VChecking b \<in> set (?ws[k := VDone]) \<longrightarrow> set b \<subseteq> set cs" using iv by (auto simp: verify_inv_def)
    then show ?thesis using iv Err all by (auto simp: verify_inv_def verify_work_def)
  next
    case (Panic x)
    then show ?thesis using iv all by (auto simp: verify_inv_def verify_work_def)
  qed
qed

lemma verify_step_inv:
  assumes "verify_step cr name data cs batch cancelled st st'" "verify_inv cr data cs cancelled n st"
  shows "verify_inv cr data cs cancelled n st'"
  using assms(1)
proof cases
  case (v_feed k)
  then show ?thesis using verify_feed_inv[OF assms(2)] by simp
next
  case (v_check k c)
  then show ?thesis using verify_work_inv[OF assms(2)] by simp
next
  case (v_exit k)
  have sub: "set ((vs_workers st)[k := VDone]) \<subseteq> insert VDone (set (vs_workers st))" by (rule set_update_subset_insert)
  have "\<exists>b. VChecking b \<in> set ((vs_workers st)[k := VDone]) \<and> c \<in> set b" if "VChecking b \<in> set (vs_workers st)" "c \<in> set b" for b c
    using in_set_update_other[OF that(1) v_exit(4)] v_exit(5) that(2) by auto
  then show ?thesis using assms(2) v_exit sub by (simp add: verify_inv_def) blast
qed (use assms(2) in \<open>auto simp: verify_inv_def\<close>)

lemma verify_run_inv:
  assumes "(verify_step cr name data cs batch cancelled)\<^sup>*\<^sup>* (verify_start n) st"
  shows "verify_inv cr data cs cancelled n st"
  using assms
proof (induction rule: rtranclp_induct)
  case base
  then show ?case by (auto simp: verify_inv_def verify_start_def)
next
  case (step y z)
  then show ?case using verify_step_inv by blast
qed

lemma verify_progress:
  assumes "verify_inv cr data cs cancelled n st" "0 < n" "\<not> verify_ended st"
  shows "\<exists>st'. verify_step cr name data cs batch cancelled st st'"
proof -
  have p: "vs_panic st = None" using assms(3) by (simp add: verify_ended_def)
  show ?thesis
  proof (cases "\<exists>k < length (vs_workers st). vs_workers st ! k \<noteq> VDone")
    case True
    then obtain k where k: "k < length (vs_workers st)" "vs_workers st ! k \<noteq> VDone" by blast
    show ?thesis
    proof (cases "vs_workers st ! k")
      case VWaiting
      then show ?thesis using v_feed[OF p _ _ k(1)] v_close[OF p] v_exit[OF p _ k(1)] by blast
    next
      case (VChecking c)
      then show ?thesis using v_check[OF p k(1)] by blast
    qed (use k in auto)
  next
    case False
    then have f: "vs_feeding st" using assms(3) by (auto simp: verify_ended_def list_all_length)
    have "VDone \<in> set (vs_workers st)" using False assms(1,2) nth_mem[of 0 "vs_workers st"] by (auto simp: verify_inv_def)
    then have "vs_err st \<noteq> None" using assms(1) f by (simp add: verify_inv_def)
    then show ?thesis by (cases "vs_i st < length cs") (rule exI, rule v_stop[OF p f], simp_all, rule exI, rule v_close[OF p f], simp)
  qed
qed

lemma verify_ends:
  assumes "0 < n" "verify_inv cr data cs cancelled n st"
  shows "\<exists>st'. (verify_step cr name data cs batch cancelled)\<^sup>*\<^sup>* st st' \<and> verify_ended st'"
  using assms(2)
proof (induction "verify_left (length cs) st" arbitrary: st rule: less_induct)
  case less
  show ?case
  proof (cases "verify_ended st")
    case False
    then obtain st1 where s: "verify_step cr name data cs batch cancelled st st1" using verify_progress[OF less.prems assms(1)] by blast
    then show ?thesis using less.hyps[OF verify_step_less[OF s] verify_step_inv[OF s less.prems]] converse_rtranclp_into_rtranclp[of _ st st1] by blast
  qed auto
qed

lemma verify_ended_result:
  assumes "verify_inv cr data cs False n st" "verify_ended st"
  shows "verify_result st = Ok () \<longleftrightarrow> list_all (chunk_matches cr data) cs"
proof
  assume "verify_result st = Ok ()"
  then have r: "vs_err st = None" "vs_panic st = None" by (auto simp: verify_result_def split: option.splits)
  then have e: "\<not> vs_feeding st" "\<forall>b. VChecking b \<notin> set (vs_workers st)" using assms(2) by (auto simp: verify_ended_def list_all_iff)
  have "chunk_matches cr data (cs ! j)" if "j < length cs" for j
    using assms(1) r e that unfolding verify_inv_def by force
  then show "list_all (chunk_matches cr data) cs" by (simp add: list_all_length)
next
  assume "list_all (chunk_matches cr data) cs"
  then show "verify_result st = Ok ()" using assms(1) by (simp add: verify_inv_def verify_result_def)
qed

lemma verify_index_decides_aux:
  assumes "0 < n" "stat = Ok (m, sz)" "isDevice m \<or> sz = Index_Length idx" "\<forall>k < nat n. opened k = None"
  shows "(\<exists>r. VerifyIndex cr False name stat opened data idx n r) \<and>
    (\<forall>r. VerifyIndex cr False name stat opened data idx n r \<longrightarrow> (r = Ok () \<longleftrightarrow> list_all (chunk_matches cr data) (idx_chunks idx)))"
proof (intro conjI allI impI)
  show "\<exists>r. VerifyIndex cr False name stat opened data idx n r"
    using verify_ends[OF _ verify_run_inv[OF rtranclp.rtrancl_refl]] v_run[OF assms(2-4)] assms(1) by (metis less_irrefl zero_less_nat_eq)
  fix r
  assume "VerifyIndex cr False name stat opened data idx n r"
  then show "r = Ok () \<longleftrightarrow> list_all (chunk_matches cr data) (idx_chunks idx)"
    by cases (use assms verify_ended_result[OF verify_run_inv] in auto)
qed

text \<open>
  (C36) With a worker, a file that can be opened and no cancellation, \<open>VerifyIndex\<close> returns, and it returns no error exactly when
  the file has the length of the index or is a device, and each chunk of the index is in the file at its place, however the
  workers are scheduled.
\<close>

theorem verify_index_decides:
  assumes "0 < n" "stat = Ok (m, sz)" "\<forall>k < nat n. opened k = None"
  shows "(\<exists>r. VerifyIndex cr False name stat opened data idx n r) \<and>
    (\<forall>r. VerifyIndex cr False name stat opened data idx n r \<longrightarrow>
       (r = Ok () \<longleftrightarrow> (isDevice m \<or> sz = Index_Length idx) \<and> list_all (chunk_matches cr data) (idx_chunks idx)))"
proof (cases "isDevice m \<or> sz = Index_Length idx")
  case True
  then show ?thesis using verify_index_decides_aux[OF assms(1,2) _ assms(3)] by auto
next
  case False
  have "r \<noteq> Ok ()" if v: "VerifyIndex cr False name stat opened data idx n r" for r
    using v by cases (use assms(2) False in auto)
  moreover have "\<exists>r. VerifyIndex cr False name stat opened data idx n r" using v_size[OF assms(2)] False by blast
  ultimately show ?thesis using False by blast
qed

text \<open>A run of \<open>VerifyIndex\<close> makes finitely many steps and is nowhere stuck, whether it is cancelled or not.\<close>

theorem verify_index_ends:
  assumes "0 < n" "(verify_step cr name data cs batch cancelled)\<^sup>*\<^sup>* (verify_start n) st"
  shows "wfp (\<lambda>b a. verify_step cr name data cs batch cancelled a b) \<and> (verify_ended st \<or> (\<exists>st'. verify_step cr name data cs batch cancelled st st'))"
proof -
  have "wfp (\<lambda>b a. verify_step cr name data cs batch cancelled a b)"
    by (rule wfp_if_convertible_to_nat[where f = "verify_left (length cs)"]) (rule verify_step_less)
  then show ?thesis using verify_progress[OF verify_run_inv[OF assms(2)] assms(1)] by blast
qed

section \<open>Assembled files\<close>

lemma contiguous_matches:
  assumes "contiguous mx s cs" "unat s + total_size cs < 2 ^ 63" "unat mx \<le> max_alloc" "length pre = unat s"
    "map (Digest_Sum cr) bs = map ic_id cs" "map length bs = map (\<lambda>c. unat (ic_size c)) cs"
  shows "list_all (chunk_matches cr (pre @ concat bs)) cs"
  using assms
proof (induction cs arbitrary: s pre bs)
  case (Cons c cs)
  obtain b bs' where bs: "bs = b # bs'" "Digest_Sum cr b = ic_id c" "length b = unat (ic_size c)" using Cons.prems(5,6) by (cases bs) auto
  have st: "ic_start c = s" "unat (ic_size c) \<le> max_alloc" using Cons.prems(1,3) by (auto simp: word_le_nat_alt)
  have tot: "unat s + unat (ic_size c) + total_size cs < 2 ^ 63" using Cons.prems(2) by (simp add: total_size_def)
  then have sum: "unat (s + ic_size c) = unat s + unat (ic_size c)" by (intro unat_add_small) simp
  have "0 \<le> sint s" using tot sint_small_u64[of s] by simp
  then have "read_chunk (pre @ b @ concat bs') c = Ok b"
    using st bs(3) Cons.prems(4) by (simp add: read_chunk_def make_bytes_def read_at_def slice_def)
  then have "chunk_matches cr (pre @ b @ concat bs') c" using bs(2) by (auto simp: chunk_matches_def)
  moreover have "list_all (chunk_matches cr ((pre @ b) @ concat bs')) cs"
    by (rule Cons.IH[of "s + ic_size c"]) (use Cons.prems bs sum tot in auto)
  ultimately show ?case using bs(1) by simp
qed simp

text \<open>
  (C13) What \<open>AssembleFile\<close> has put together in a file without an error, \<open>VerifyIndex\<close> accepts: it returns, with no error, and never
  anything else. This holds when the context of neither is cancelled, the file system does not clone blocks, the index has a chunk
  and its chunks are contiguous, none has the identifier of zero bytes or a size that cannot be allocated, and the stores hand out genuine chunks.
\<close>

theorem assemble_then_verify:
  assumes "AssembleFile a t idx s seeds (Ok ()) (Some f)" "\<forall>d. t \<noteq> Device d"
    "verified_store (ac_codec a) (ac_get a)" "\<forall>x. \<not> ac_canClone a x" "\<forall>sd \<in> set seeds. seed_plain sd"
    "contiguous mx 0 (idx_chunks idx)" "total_size (idx_chunks idx) < 2 ^ 63" "idx_chunks idx \<noteq> []"
    "\<forall>c \<in> set (idx_chunks idx). ic_id c \<noteq> zero_id" "\<not> ac_cancelled a" "unat mx \<le> max_alloc"
    and "0 < n" "\<forall>k < nat n. opened k = None"
  shows "VerifyIndex (ac_codec a) False name (Ok (m, int (length f))) opened f idx n r \<longleftrightarrow> r = Ok ()"
proof -
  obtain bs where bs: "f = concat bs" "map (Digest_Sum (ac_codec a)) bs = map ic_id (idx_chunks idx)"
      "map length bs = map (\<lambda>c. unat (ic_size c)) (idx_chunks idx)"
    using AssembleFile_chunks[OF assms(1-10)] by blast
  have "list_all (chunk_matches (ac_codec a) f) (idx_chunks idx)"
    using contiguous_matches[OF assms(6) _ assms(11) _ bs(2,3), of "[]"] assms(7) bs(1) by simp
  moreover have "length f = total_size (idx_chunks idx)" using bs(1,3) by (simp add: length_concat total_size_def)
  then have "int (length f) = Index_Length idx" using contiguous_Index_Length[OF assms(6,7)] by simp
  ultimately show ?thesis using verify_index_decides_aux[OF assms(12) refl _ assms(13), of m "int (length f)" idx "ac_codec a" name f] by metis
qed

section \<open>Instances\<close>

text \<open>A file of two chunks, and the same file with a byte changed.\<close>

theorem verify_index_decides_witness:
  "VerifyIndex toy_codec False ''f'' (Ok (0, 2)) (\<lambda>_. None) [0, 1] (sample_blob two_chunks) 2 (Ok ()) \<and>
   \<not> VerifyIndex toy_codec False ''f'' (Ok (0, 2)) (\<lambda>_. None) [0, 2] (sample_blob two_chunks) 2 (Ok ())"
proof -
  have len: "Index_Length (sample_blob two_chunks) = 2" by (simp add: Index_Length_def sample_blob_def two_chunks_def)
  have ok: "list_all (chunk_matches toy_codec [0, 1]) (idx_chunks (sample_blob two_chunks))"
    by (simp add: chunk_matches_def two_chunks_def sample_blob_def read_chunk_def make_bytes_def max_alloc_def read_at_def slice_def toy_codec_def)
  have bad: "\<not> list_all (chunk_matches toy_codec [0, 2]) (idx_chunks (sample_blob two_chunks))"
    by (simp add: chunk_matches_def two_chunks_def sample_blob_def read_chunk_def make_bytes_def max_alloc_def read_at_def slice_def toy_codec_def pad_sum_def)
  note d = verify_index_decides[where idx = "sample_blob two_chunks" and n = 2 and opened = "\<lambda>_. None" and cr = toy_codec and name = "''f''", simplified len, OF _ refl, of 0 2, simplified]
  show ?thesis using d[of "[0, 1]"] d[of "[0, 2]"] ok bad by metis
qed

theorem verify_index_ends_witness:
  "\<exists>st'. verify_step toy_codec ''f'' [0, 1] two_chunks 0 True (verify_start 1) st'"
  using verify_index_ends[of 1 toy_codec "''f''" "[0, 1]" two_chunks 0 True "verify_start 1"] by (auto simp: verify_ended_def verify_start_def)

theorem assemble_then_verify_witness:
  "VerifyIndex toy_codec False ''f'' (Ok (0, 2)) (\<lambda>_. None) [0, 1] (sample_blob two_chunks) 3 (Ok ())"
proof -
  have "verified_store (ac_codec sample_call) (ac_get sample_call)" using serve_verified by (simp add: sample_call_def)
  moreover have "contiguous 1 0 (idx_chunks (sample_blob two_chunks))" by (simp add: contiguous.simps sample_blob_def two_chunks_def)
  ultimately have "VerifyIndex (ac_codec sample_call) False ''f'' (Ok (0, int (length [0, 1 :: byte]))) (\<lambda>_. None) [0, 1] (sample_blob two_chunks) 3 (Ok ()) \<longleftrightarrow> Ok () = Ok ()"
    by (intro assemble_then_verify[OF sample_finishes, of 1])
       (auto simp: sample_call_def sample_blob_def two_chunks_def sample_ids total_size_def max_alloc_def)
  then show ?thesis by (simp add: sample_call_def)
qed

end
