(* ===== verification/Locations.thy ===== *)
theory Locations
  imports Buckets
begin

text \<open>
  How the command line and the configuration say which stores to use (\<^verbatim>\<open>src/cmd/desync/store.go\<close>, \<open>options.go\<close>,
  \<open>location.go\<close> and \<open>GetStoreOptionsFor\<close> of \<open>config.go\<close>). A store is a value that names its type and holds its settings.
  Parsing URLs, matching globs, making paths absolute, and what the file system and the network answer when
  a store is set up, are fields of a record, and nothing is assumed of them; a parsed URL comes with the parameter \<open>lookup\<close> of its query.
\<close>

record world =
  wo_Parse :: "string \<Rightarrow> (url \<times> string) res"
  wo_String :: "url \<Rightarrow> string"
  wo_Match :: "string \<Rightarrow> string \<Rightarrow> bool res"
  wo_Abs :: "string \<Rightarrow> string res"
  wo_isDir :: "string \<Rightarrow> bool res"
  wo_ssh :: "url \<Rightarrow> StoreOptions \<Rightarrow> unit res"
  wo_sftp :: "nat \<Rightarrow> go_error option"
  wo_sftp_stat :: "string \<Rightarrow> go_error option"
  wo_keyPair :: "string \<Rightarrow> string \<Rightarrow> bytes res"
  wo_readFile :: "string \<Rightarrow> bytes res"
  wo_appendPEM :: "bytes \<Rightarrow> bool"
  wo_s3 :: "string \<Rightarrow> bool \<Rightarrow> go_error option"
  wo_gcs :: "go_error option"
  wo_windows :: bool

section \<open>Options\<close>

record cmdStoreOptions =
  o_n :: int
  o_clientCert :: string
  o_clientKey :: string
  o_caCert :: string
  o_skipVerify :: bool
  o_trustInsecure :: bool
  o_cacheRepair :: bool
  o_errorRetry :: int
  o_errorRetryBaseInterval :: int
  o_Changed :: "string \<Rightarrow> bool"

definition MergedWith :: "cmdStoreOptions \<Rightarrow> StoreOptions \<Rightarrow> StoreOptions" where
  "MergedWith o' p =
     (let p = p\<lparr>opt_N := o_n o'\<rparr>;
          p = (if o_Changed o' ''client-cert'' then p\<lparr>ClientCert := o_clientCert o'\<rparr> else p);
          p = (if o_Changed o' ''client-key'' then p\<lparr>ClientKey := o_clientKey o'\<rparr> else p);
          p = (if o_Changed o' ''ca-cert'' then p\<lparr>CACert := o_caCert o'\<rparr> else p);
          p = (if o_skipVerify o' then p\<lparr>SkipVerify := True\<rparr> else p);
          p = (if o_Changed o' ''trust-insecure'' then p\<lparr>TrustInsecure := True\<rparr> else p);
          p = (if o_Changed o' ''error-retry'' then p\<lparr>ErrorRetry := o_errorRetry o'\<rparr> else p)
      in if o_Changed o' ''error-retry-base-interval'' then p\<lparr>ErrorRetryBaseInterval := o_errorRetryBaseInterval o'\<rparr> else p)"

definition cmdStoreOptions_validate :: "cmdStoreOptions \<Rightarrow> unit res" where
  "cmdStoreOptions_validate o' =
     (if (o_clientKey o' = '''') \<noteq> (o_clientCert o' = '''') then Err (Errorf ''--client-key and --client-cert options need to be provided together'')
      else Ok ())"

definition locationMatch :: "world \<Rightarrow> string \<Rightarrow> string \<Rightarrow> bool" where
  "locationMatch w pattern loc =
     (case wo_Parse w loc of
        Ok (l, _) \<Rightarrow>
          if 1 < length (u_Scheme l) then wo_Match w (trim_suffix pattern ''/'') (trim_suffix loc ''/'') = Ok True
          else (case (wo_Abs w pattern, wo_Abs w loc) of
                  (Ok p1, Ok p2) \<Rightarrow> wo_Match w p1 p2 = Ok True
                | _ \<Rightarrow> False)
      | _ \<Rightarrow> False)"

text \<open>The entries of the configuration, in the order in which a loop over the map comes to them.\<close>

fun store_options_loop :: "world \<Rightarrow> string \<Rightarrow> bool \<Rightarrow> StoreOptions \<Rightarrow> (string \<times> StoreOptions) list \<Rightarrow> StoreOptions res" where
  "store_options_loop w location found options [] = Ok options"
| "store_options_loop w location found options ((k, v) # es) =
     (if locationMatch w k location then
        (if found then Err (Errorf ''multiple configuration entries match the location %q'')
         else store_options_loop w location True v es)
      else store_options_loop w location found options es)"

definition GetStoreOptionsFor :: "world \<Rightarrow> (string \<times> StoreOptions) list \<Rightarrow> string \<Rightarrow> StoreOptions res" where
  "GetStoreOptionsFor w es location = store_options_loop w location False NewStoreOptionsWithDefaults es"

section \<open>Stores\<close>

datatype bucket_lookup = LookupAuto | LookupDNS | LookupPath

datatype store =
    SSHStore url StoreOptions
  | SFTPChunkStore SFTPStore
  | HTTPStore RemoteHTTPBase
  | S3ChunkStore S3Store bucket_lookup
  | GCChunkStore GCStore
  | DirStore LocalStore
  | WriteDedup store
  | FailoverOf "store list"
  | RouterOf "store list"
  | RepairableCacheOf store
  | CacheOf store store

definition bucket_lookup_of :: "string \<Rightarrow> bucket_lookup res" where
  "bucket_lookup_of ls =
     (if ls = ''dns'' then Ok LookupDNS
      else if ls = ''path'' then Ok LookupPath
      else if ls = '''' \<or> ls = ''auto'' then Ok LookupAuto
      else Err (Errorf ''unknown S3 bucket lookup type: %q''))"

definition storeFromLocation :: "world \<Rightarrow> (string \<times> StoreOptions) list \<Rightarrow> cmdStoreOptions \<Rightarrow> string \<Rightarrow> store res" where
  "storeFromLocation w cfg cmdOpt location =
     (case wo_Parse w location of
        Panic x \<Rightarrow> Panic x
      | Err e \<Rightarrow> Err (Errorf ''Unable to parse store location %s : %s'')
      | Ok (loc, ls) \<Rightarrow>
          bind_res (GetStoreOptionsFor w cfg location) (\<lambda>configOptions.
          let o' = MergedWith cmdOpt configOptions in
          if u_Scheme loc = ''ssh'' then bind_res (wo_ssh w loc o') (\<lambda>_. Ok (SSHStore loc o'))
          else if u_Scheme loc = ''sftp'' then bind_res (NewSFTPStore (wo_sftp w) (wo_sftp_stat w) loc o') (\<lambda>s. Ok (SFTPChunkStore s))
          else if u_Scheme loc = ''http'' \<or> u_Scheme loc = ''https'' then
            bind_res (NewRemoteHTTPStore (wo_keyPair w) (wo_readFile w) (wo_appendPEM w) loc o') (\<lambda>s. Ok (HTTPStore s))
          else if u_Scheme loc = ''s3+http'' \<or> u_Scheme loc = ''s3+https'' then
            bind_res (bucket_lookup_of ls) (\<lambda>lookup.
            bind_res (NewS3StoreBase (wo_s3 w) (wo_String w loc) loc o') (\<lambda>s. Ok (S3ChunkStore s lookup)))
          else if u_Scheme loc = ''gs'' then bind_res (NewGCStoreBase (wo_gcs w) (wo_String w loc) loc o') (\<lambda>s. Ok (GCChunkStore s))
          else
            bind_res (NewLocalStore location o' (wo_isDir w location)) (\<lambda>l.
            Ok (if wo_windows w then WriteDedup (DirStore l) else DirStore l))))"

text \<open>\<open>strings.SplitSeq\<close> at bars.\<close>

fun split_bars :: "string \<Rightarrow> string list" where
  "split_bars [] = [[]]"
| "split_bars (c # cs) = (if c = CHR ''|'' then [] # split_bars cs else case split_bars cs of p # ps \<Rightarrow> (c # p) # ps | [] \<Rightarrow> [[c]])"

fun map_res :: "('a \<Rightarrow> 'b res) \<Rightarrow> 'a list \<Rightarrow> 'b list res" where
  "map_res f [] = Ok []"
| "map_res f (x # xs) = bind_res (f x) (\<lambda>y. bind_res (map_res f xs) (\<lambda>ys. Ok (y # ys)))"

definition storeGroup :: "world \<Rightarrow> (string \<times> StoreOptions) list \<Rightarrow> cmdStoreOptions \<Rightarrow> string \<Rightarrow> store res" where
  "storeGroup w cfg cmdOpt location =
     (if CHR ''|'' \<notin> set location then storeFromLocation w cfg cmdOpt location
      else bind_res (map_res (storeFromLocation w cfg cmdOpt) (split_bars location)) (\<lambda>stores. Ok (FailoverOf stores)))"

definition multiStoreWithRouter :: "world \<Rightarrow> (string \<times> StoreOptions) list \<Rightarrow> cmdStoreOptions \<Rightarrow> string list \<Rightarrow> store res" where
  "multiStoreWithRouter w cfg cmdOpt locations =
     bind_res (map_res (storeGroup w cfg cmdOpt) locations) (\<lambda>stores. Ok (RouterOf stores))"

text \<open>The types with a method \<open>StoreChunk\<close>, of those a location gives.\<close>

fun is_WriteStore :: "store \<Rightarrow> bool" where
  "is_WriteStore (SFTPChunkStore s) = True"
| "is_WriteStore (HTTPStore s) = True"
| "is_WriteStore (S3ChunkStore s l) = True"
| "is_WriteStore (GCChunkStore s) = True"
| "is_WriteStore (DirStore s) = True"
| "is_WriteStore (WriteDedup s) = True"
| "is_WriteStore (RepairableCacheOf s) = True"
| "is_WriteStore _ = False"

definition WritableStore :: "world \<Rightarrow> (string \<times> StoreOptions) list \<Rightarrow> cmdStoreOptions \<Rightarrow> string \<Rightarrow> store res" where
  "WritableStore w cfg cmdOpt location =
     bind_res (storeFromLocation w cfg cmdOpt location) (\<lambda>s.
     if is_WriteStore s then Ok s else Err (Errorf ''store %s does not support writing''))"

text \<open>
  A type assertion to a struct gives a copy: setting \<open>UpdateTimes\<close> there leaves \<open>cache\<close> as it is, which is what goes into
  the result.
\<close>

definition MultiStoreWithCache ::
  "world \<Rightarrow> (string \<times> StoreOptions) list \<Rightarrow> cmdStoreOptions \<Rightarrow> string \<Rightarrow> string list \<Rightarrow> store res" where
  "MultiStoreWithCache w cfg cmdOpt cacheLocation locations =
     bind_res (multiStoreWithRouter w cfg cmdOpt locations) (\<lambda>store'.
     if cacheLocation = '''' then Ok store'
     else
       bind_res (WritableStore w cfg cmdOpt cacheLocation) (\<lambda>cache.
       let ls = (case cache of DirStore l \<Rightarrow> Some (l\<lparr>ls_UpdateTimes := True\<rparr>) | _ \<Rightarrow> None);
           cache = (if o_cacheRepair cmdOpt then RepairableCacheOf cache else cache)
       in Ok (CacheOf store' cache)))"

section \<open>Index stores\<close>

datatype index_store =
    SFTPIndexes string StoreOptions
  | HTTPIndexes RemoteHTTPBase
  | S3Indexes S3Store bucket_lookup
  | GCIndexes GCStore
  | ConsoleIndexes
  | DirIndexes string

definition before_last :: "char \<Rightarrow> string \<Rightarrow> string" where
  "before_last c s = rev (tl (dropWhile (\<lambda>x. x \<noteq> c) (rev s)))"

definition index_base :: "string \<Rightarrow> string" where
  "index_base location =
     (if CHR ''/'' \<in> set location then before_last (CHR ''/'') location
      else if CHR 0x5C \<in> set location then before_last (CHR 0x5C) location
      else '''')"

definition indexStoreFromLocation ::
  "world \<Rightarrow> (string \<times> StoreOptions) list \<Rightarrow> cmdStoreOptions \<Rightarrow> string \<Rightarrow> (index_store \<times> string) res" where
  "indexStoreFromLocation w cfg cmdOpt location =
     (case wo_Parse w location of
        Panic x \<Rightarrow> Panic x
      | Err e \<Rightarrow> Err (Errorf ''Unable to parse store location %s : %s'')
      | Ok (loc, ls) \<Rightarrow>
          let indexName = path_Base (u_Path loc); p = loc\<lparr>u_Path := path_Dir (u_Path loc)\<rparr> in
          bind_res (GetStoreOptionsFor w cfg (index_base location)) (\<lambda>configOptions.
          let o' = MergedWith cmdOpt configOptions in
          if u_Scheme loc = ''ssh'' then Err (Errorf ''Index storage is not supported by ssh remote stores'')
          else if u_Scheme loc = ''sftp'' then
            bind_res (newSFTPStoreBase (wo_sftp w 0) (wo_sftp_stat w) p) (\<lambda>path. Ok (SFTPIndexes path o', indexName))
          else if u_Scheme loc = ''http'' \<or> u_Scheme loc = ''https'' then
            bind_res (NewRemoteHTTPStoreBase (wo_keyPair w) (wo_readFile w) (wo_appendPEM w) p o') (\<lambda>s. Ok (HTTPIndexes s, indexName))
          else if u_Scheme loc = ''s3+http'' \<or> u_Scheme loc = ''s3+https'' then
            bind_res (bucket_lookup_of ls) (\<lambda>lookup.
            bind_res (NewS3StoreBase (wo_s3 w) (wo_String w p) p o') (\<lambda>s. Ok (S3Indexes s lookup, indexName)))
          else if u_Scheme loc = ''gs'' then
            bind_res (NewGCStoreBase (wo_gcs w) (wo_String w p) p o') (\<lambda>s. Ok (GCIndexes s, indexName))
          else if location = ''-'' then Ok (ConsoleIndexes, indexName)
          else
            bind_res (NewLocalIndexStore (wo_isDir w (path_Dir location)) (path_Dir location)) (\<lambda>d.
            Ok (DirIndexes d, path_Base location))))"

end
