(* ===== verification/Locations_Props.thy ===== *)
theory Locations_Props
  imports Locations
begin

text \<open>
  The options of a store do not depend on the order of the configuration; what the locations of a command line stand for; and two
  settings that have no effect or the opposite one.
\<close>

section \<open>Options\<close>

lemma mset_short_eq: "mset xs = mset ys \<Longrightarrow> length xs \<le> 1 \<Longrightarrow> xs = ys"
  by (cases xs) (auto simp: mset_single_iff_right)

lemma list_all2_right: "list_all2 P xs ys \<Longrightarrow> y \<in> set ys \<Longrightarrow> \<exists>x. P x y"
  by (induction rule: list_all2_induct) auto

lemma store_options_loop_found:
  "store_options_loop w l True v es =
     (if \<exists>e \<in> set es. locationMatch w (fst e) l then Err (Errorf ''multiple configuration entries match the location %q'') else Ok v)"
proof (induction es)
  case (Cons e es)
  then show ?case by (cases e) auto
qed simp

lemma store_options_loop_filter:
  "store_options_loop w l False v es =
     (case filter (\<lambda>e. locationMatch w (fst e) l) es of
        [] \<Rightarrow> Ok v
      | [e] \<Rightarrow> Ok (snd e)
      | _ \<Rightarrow> Err (Errorf ''multiple configuration entries match the location %q''))"
proof (induction es)
  case (Cons e es)
  obtain k x where e: "e = (k, x)" by (rule prod.exhaust)
  have none: "filter (\<lambda>e. locationMatch w (fst e) l) es = [] \<longleftrightarrow> \<not> (\<exists>e \<in> set es. locationMatch w (fst e) l)"
    by (auto simp: filter_empty_conv)
  show ?case
    using Cons none by (cases "filter (\<lambda>e. locationMatch w (fst e) l) es") (auto simp: e store_options_loop_found)
qed simp

text \<open>
  (C39) The options for a location: those of the one entry of the configuration that matches it, the defaults when none does,
  and an error when more than one does; and this in whatever order the entries are visited.
\<close>

theorem store_options_order:
  assumes "mset es = mset es'"
  shows "GetStoreOptionsFor w es' l =
    (case filter (\<lambda>e. locationMatch w (fst e) l) es of
       [] \<Rightarrow> Ok NewStoreOptionsWithDefaults
     | [e] \<Rightarrow> Ok (snd e)
     | _ \<Rightarrow> Err (Errorf ''multiple configuration entries match the location %q''))"
proof -
  let ?f = "filter (\<lambda>e. locationMatch w (fst e) l)"
  have m: "mset (?f es) = mset (?f es')" using assms by (simp add: mset_filter)
  have "GetStoreOptionsFor w es' l = GetStoreOptionsFor w es l"
  proof (cases "length (?f es) \<le> 1")
    case True
    then have "?f es = ?f es'" using m mset_short_eq by blast
    then show ?thesis by (simp add: GetStoreOptionsFor_def store_options_loop_filter)
  next
    case False
    moreover have "length (?f es') = length (?f es)" using m by (metis size_mset)
    ultimately show ?thesis
      by (auto simp: GetStoreOptionsFor_def store_options_loop_filter split: list.splits)
  qed
  then show ?thesis unfolding GetStoreOptionsFor_def by (simp only: store_options_loop_filter)
qed

lemma MergedWith_TrustInsecure: "o_Changed o' ''trust-insecure'' \<Longrightarrow> TrustInsecure (MergedWith o' p)"
  by (simp add: MergedWith_def Let_def)

text \<open>
  The flag \<open>trust-insecure\<close> turns verification of certificates off whenever it is given, also with the value false and whatever
  the configuration says: the client of the store accepts any certificate.
\<close>

theorem trust_insecure_given:
  assumes "o_Changed o' ''trust-insecure''" "storeFromLocation w cfg o' location = Ok (HTTPStore r)"
  shows "cc_InsecureSkipVerify (rb_client r)"
proof -
  obtain loc p where "NewRemoteHTTPStore (wo_keyPair w) (wo_readFile w) (wo_appendPEM w) loc (MergedWith o' p) = Ok r"
    using assms(2) by (auto simp: storeFromLocation_def Let_def res_simps split: res.splits if_splits)
  then show ?thesis using MergedWith_TrustInsecure[OF assms(1)]
    by (auto simp: NewRemoteHTTPStore_def NewRemoteHTTPStoreBase_def Let_def res_simps split: if_splits)
qed

section \<open>Stores\<close>

lemma map_res_Ok: "map_res f xs = Ok ys \<longleftrightarrow> list_all2 (\<lambda>x y. f x = Ok y) xs ys"
  by (induction xs arbitrary: ys) (auto simp: res_simps list_all2_Cons1)

fun join_bars :: "string list \<Rightarrow> string" where
  "join_bars [] = []"
| "join_bars [p] = p"
| "join_bars (p # q # ps) = p @ ''|'' @ join_bars (q # ps)"

lemma split_bars_ne: "split_bars s \<noteq> []"
  by (induction s) (auto split: list.splits)

lemma join_split_bars: "join_bars (split_bars s) = s \<and> (\<forall>p \<in> set (split_bars s). CHR ''|'' \<notin> set p)"
proof (induction s)
  case (Cons c cs)
  obtain q qs where q: "split_bars cs = q # qs" using split_bars_ne by (cases "split_bars cs") auto
  then show ?case using Cons by (cases qs) auto
qed simp

text \<open>
  A location stands for the stores it names, in order: the router tries one group for each location of the command line; a group
  is a single store, or a failover group of the stores between the bars.
\<close>

theorem store_groups_in_order:
  assumes "multiStoreWithRouter w cfg o' locations = Ok s"
  shows "\<exists>groups. s = RouterOf groups \<and> list_all2 (\<lambda>l g.
      (CHR ''|'' \<notin> set l \<and> storeFromLocation w cfg o' l = Ok g) \<or>
      (\<exists>ms members. g = FailoverOf members \<and> join_bars ms = l \<and> list_all (\<lambda>m. CHR ''|'' \<notin> set m) ms \<and>
         list_all2 (\<lambda>m x. storeFromLocation w cfg o' m = Ok x) ms members)) locations groups"
proof -
  obtain groups where g: "s = RouterOf groups" "list_all2 (\<lambda>l g. storeGroup w cfg o' l = Ok g) locations groups"
    using assms by (auto simp: multiStoreWithRouter_def res_simps map_res_Ok)
  have one: "(CHR ''|'' \<notin> set l \<and> storeFromLocation w cfg o' l = Ok x) \<or>
      (\<exists>ms members. x = FailoverOf members \<and> join_bars ms = l \<and> list_all (\<lambda>m. CHR ''|'' \<notin> set m) ms \<and>
         list_all2 (\<lambda>m x. storeFromLocation w cfg o' m = Ok x) ms members)" if "storeGroup w cfg o' l = Ok x" for l x
    using that join_split_bars[of l] by (auto simp: storeGroup_def res_simps map_res_Ok list_all_iff split: if_splits)
  show ?thesis by (intro exI conjI, rule g(1), rule list_all2_mono[OF g(2)]) (rule one)
qed

text \<open>The directories of a store.\<close>

fun dirs_of :: "store \<Rightarrow> LocalStore list" where
  "dirs_of (DirStore l) = [l]"
| "dirs_of (WriteDedup s) = dirs_of s"
| "dirs_of (FailoverOf ss) = concat (map dirs_of ss)"
| "dirs_of (RouterOf ss) = concat (map dirs_of ss)"
| "dirs_of (RepairableCacheOf s) = dirs_of s"
| "dirs_of (CacheOf s c) = dirs_of s @ dirs_of c"
| "dirs_of _ = []"

lemma location_UpdateTimes: "storeFromLocation w cfg o' l = Ok s \<Longrightarrow> d \<in> set (dirs_of s) \<Longrightarrow> \<not> ls_UpdateTimes d"
  by (auto simp: storeFromLocation_def NewLocalStore_def Let_def res_simps split: res.splits if_splits)

lemma group_UpdateTimes:
  assumes "storeGroup w cfg o' l = Ok s" "d \<in> set (dirs_of s)"
  shows "\<not> ls_UpdateTimes d"
proof (cases "CHR ''|'' \<in> set l")
  case True
  then obtain ss where ss: "s = FailoverOf ss" "list_all2 (\<lambda>x y. storeFromLocation w cfg o' x = Ok y) (split_bars l) ss"
    using assms(1) by (auto simp: storeGroup_def res_simps map_res_Ok)
  then obtain y where y: "y \<in> set ss" "d \<in> set (dirs_of y)" using assms(2) by auto
  then obtain x where "storeFromLocation w cfg o' x = Ok y" using list_all2_right[OF ss(2)] by blast
  then show ?thesis using location_UpdateTimes y(2) by blast
qed (use assms location_UpdateTimes in \<open>auto simp: storeGroup_def\<close>)

text \<open>
  No directory of what \<open>MultiStoreWithCache\<close> returns updates the times of chunks, not even the one that is the cache, for which
  the function sets \<open>UpdateTimes\<close>.
\<close>

theorem cache_times_not_updated:
  assumes "MultiStoreWithCache w cfg o' cacheLocation locations = Ok s" "d \<in> set (dirs_of s)"
  shows "\<not> ls_UpdateTimes d"
proof -
  obtain groups where g: "multiStoreWithRouter w cfg o' locations = Ok (RouterOf groups)" "list_all2 (\<lambda>l g. storeGroup w cfg o' l = Ok g) locations groups"
    using assms(1) by (auto simp: MultiStoreWithCache_def multiStoreWithRouter_def res_simps map_res_Ok)
  have r: "\<not> ls_UpdateTimes d" if rd: "d \<in> set (dirs_of (RouterOf groups))"
  proof -
    obtain y where y: "y \<in> set groups" "d \<in> set (dirs_of y)" using rd by auto
    then obtain x where "storeGroup w cfg o' x = Ok y" using list_all2_right[OF g(2)] by blast
    then show ?thesis using group_UpdateTimes y(2) by blast
  qed
  have c: "\<not> ls_UpdateTimes d" if "WritableStore w cfg o' cacheLocation = Ok c" "d \<in> set (dirs_of c)" for c
    using that location_UpdateTimes by (auto simp: WritableStore_def res_simps split: if_splits)
  consider "s = RouterOf groups" | c where "WritableStore w cfg o' cacheLocation = Ok c" "s = CacheOf (RouterOf groups) c \<or> s = CacheOf (RouterOf groups) (RepairableCacheOf c)"
    using assms(1) g(1) by (auto simp: MultiStoreWithCache_def res_simps Let_def split: if_splits)
  then have "d \<in> set (dirs_of (RouterOf groups)) \<or> (\<exists>c. WritableStore w cfg o' cacheLocation = Ok c \<and> d \<in> set (dirs_of c))"
    by cases (use assms(2) in auto)
  then show ?thesis using r c by blast
qed

section \<open>Instances\<close>

definition plain_world :: world where
  "plain_world =
     \<lparr>wo_Parse = (\<lambda>s. Ok (if prefix ''https://'' s then \<lparr>u_Scheme = ''https'', u_Host = ''h'', u_Path = drop 9 s\<rparr>
                          else \<lparr>u_Scheme = '''', u_Host = '''', u_Path = s\<rparr>, '''')),
      wo_String = u_Path, wo_Match = (\<lambda>p s. Ok (p = s)), wo_Abs = Ok, wo_isDir = (\<lambda>_. Ok True), wo_ssh = (\<lambda>_ _. Ok ()),
      wo_sftp = (\<lambda>_. None), wo_sftp_stat = (\<lambda>_. None), wo_keyPair = (\<lambda>_ _. Ok []), wo_readFile = (\<lambda>_. Ok []), wo_appendPEM = (\<lambda>_. True),
      wo_s3 = (\<lambda>_ _. None), wo_gcs = None, wo_windows = False\<rparr>"

definition plain_options :: cmdStoreOptions where
  "plain_options = \<lparr>o_n = 1, o_clientCert = '''', o_clientKey = '''', o_caCert = '''', o_skipVerify = False, o_trustInsecure = False, o_cacheRepair = True,
     o_errorRetry = 3, o_errorRetryBaseInterval = 0, o_Changed = (\<lambda>f. f = ''trust-insecure'')\<rparr>"

theorem store_options_order_witness:
  "GetStoreOptionsFor plain_world [(''/b'', zero_options\<lparr>Uncompressed := True\<rparr>), (''/a'', zero_options)] ''/b'' = Ok (zero_options\<lparr>Uncompressed := True\<rparr>) \<and>
   (\<exists>e. GetStoreOptionsFor plain_world [(''/b'', zero_options), (''/a'', zero_options), (''/b'', zero_options\<lparr>Uncompressed := True\<rparr>)] ''/b'' = Err e)"
  using store_options_order[of "[(''/a'', zero_options), (''/b'', zero_options\<lparr>Uncompressed := True\<rparr>)]"
      "[(''/b'', zero_options\<lparr>Uncompressed := True\<rparr>), (''/a'', zero_options)]" plain_world "''/b''"]
    store_options_order[of "[(''/b'', zero_options), (''/a'', zero_options), (''/b'', zero_options\<lparr>Uncompressed := True\<rparr>)]"
      "[(''/b'', zero_options), (''/a'', zero_options), (''/b'', zero_options\<lparr>Uncompressed := True\<rparr>)]" plain_world "''/b''"]
  by (simp add: locationMatch_def plain_world_def)

theorem trust_insecure_given_witness:
  "\<exists>r. storeFromLocation plain_world [] plain_options ''https://h/s'' = Ok (HTTPStore r) \<and> \<not> o_trustInsecure plain_options \<and>
     cc_InsecureSkipVerify (rb_client r)"
proof -
  have "case storeFromLocation plain_world [] plain_options ''https://h/s'' of Ok (HTTPStore r) \<Rightarrow> True | _ \<Rightarrow> False" by code_simp
  then obtain r where r: "storeFromLocation plain_world [] plain_options ''https://h/s'' = Ok (HTTPStore r)"
    by (auto split: res.splits store.splits)
  then show ?thesis using trust_insecure_given[OF _ r] by (simp add: plain_options_def)
qed

lemma plain_cached:
  "case MultiStoreWithCache plain_world [] plain_options ''/c'' [''/a|/b'', ''/d''] of
     Ok s \<Rightarrow> map ls_Base (dirs_of s) = [''/a'', ''/b'', ''/d'', ''/c''] | _ \<Rightarrow> False"
  by code_simp

theorem store_groups_in_order_witness:
  "\<exists>groups. multiStoreWithRouter plain_world [] plain_options [''/a|/b'', ''/d''] = Ok (RouterOf groups) \<and> length groups = 2"
proof -
  have "case multiStoreWithRouter plain_world [] plain_options [''/a|/b'', ''/d''] of Ok s \<Rightarrow> True | _ \<Rightarrow> False" by code_simp
  then obtain s where s: "multiStoreWithRouter plain_world [] plain_options [''/a|/b'', ''/d''] = Ok s" by (auto split: res.splits)
  then show ?thesis using store_groups_in_order[OF s] by (auto dest: list_all2_lengthD)
qed

theorem cache_times_not_updated_witness:
  "\<exists>s d. MultiStoreWithCache plain_world [] plain_options ''/c'' [''/a|/b'', ''/d''] = Ok s \<and> d \<in> set (dirs_of s) \<and> ls_Base d = ''/c'' \<and> \<not> ls_UpdateTimes d"
proof -
  obtain s where s: "MultiStoreWithCache plain_world [] plain_options ''/c'' [''/a|/b'', ''/d''] = Ok s"
      "map ls_Base (dirs_of s) = [''/a'', ''/b'', ''/d'', ''/c'']"
    using plain_cached by (auto split: res.splits)
  have "''/c'' \<in> set (map ls_Base (dirs_of s))" unfolding s(2) by simp
  then obtain d where "d \<in> set (dirs_of s)" "ls_Base d = ''/c''" by auto
  then show ?thesis using cache_times_not_updated[OF s(1)] s(1) by blast
qed

end
