(* ===== verification/Mtree.thy ===== *)
theory Mtree
  imports Tar_Props Index LocalStore_Props
begin

text \<open>
  The file system that prints what it is told to create in the format of mtree (\<^verbatim>\<open>src/mtreefs.go\<close>), as a target of
  \<open>UnTar\<close>. The writer is a parameter; its errors are dropped by all operations but the first. Times are in nanoseconds.
\<close>

section \<open>Numbers as text\<close>

definition digit_char :: "nat \<Rightarrow> char" where
  "digit_char n = char_of (48 + n)"

fun oct_string :: "nat \<Rightarrow> string" where
  "oct_string n = (if n < 8 then [digit_char n] else oct_string (n div 8) @ [digit_char (n mod 8)])"

fun dec_string :: "nat \<Rightarrow> string" where
  "dec_string n = (if n < 10 then [digit_char n] else dec_string (n div 10) @ [digit_char (n mod 10)])"

declare oct_string.simps [simp del] dec_string.simps [simp del]

text \<open>\<open>%d\<close>, and padding to a width.\<close>

definition fmt_d :: "int \<Rightarrow> string" where
  "fmt_d i = (if i < 0 then CHR ''-'' # dec_string (nat (- i)) else dec_string (nat i))"

definition pad_left :: "nat \<Rightarrow> char \<Rightarrow> string \<Rightarrow> string" where
  "pad_left k c s = replicate (k - length s) c @ s"

section \<open>The target\<close>

definition mtree_char :: "char \<Rightarrow> string" where
  "mtree_char c =
     (if c = CHR 0x5C \<or> c = CHR 0x23 \<or> of_char c < (32 :: nat) \<or> of_char c > (126 :: nat)
      then CHR 0x5C # pad_left 3 (CHR ''0'') (oct_string (of_char c))
      else [c])"

definition mtreeFilename :: "string \<Rightarrow> string" where
  "mtreeFilename s = concat (map mtree_char s)"

fun join_words :: "string list \<Rightarrow> string" where
  "join_words [] = []"
| "join_words [p] = p"
| "join_words (p # q # ps) = p @ '' '' @ join_words (q # ps)"

text \<open>\<open>mode=%04o\<close> of the permissions, and the time with its nanoseconds padded with \<open>c\<close>.\<close>

definition mtree_mode :: "node_info \<Rightarrow> string" where
  "mtree_mode i = ''mode='' @ pad_left 4 (CHR ''0'') (oct_string (unat (ni_mode i AND 0x1ff)))"

definition mtree_time :: "char \<Rightarrow> node_info \<Rightarrow> string" where
  "mtree_time c i = ''time='' @ fmt_d (ni_mtime i div 1000000000) @ ''.'' @ pad_left 9 c (fmt_d (ni_mtime i mod 1000000000))"

definition mtree_owner :: "node_info \<Rightarrow> string list" where
  "mtree_owner i = [''uid='' @ fmt_d (ni_uid i), ''gid='' @ fmt_d (ni_gid i)]"

definition modeChar :: file_mode where
  "modeChar = 0x4000"

definition digest_word :: "hash_algorithm \<Rightarrow> string" where
  "digest_word d = (case d of SHA512256 \<Rightarrow> ''sha512256digest='' | SHA256 \<Rightarrow> ''sha256digest='')"

text \<open>The words of the line of a node.\<close>

fun mtree_words :: "hash_algorithm \<Rightarrow> codec_fns \<Rightarrow> archive_node \<Rightarrow> string list" where
  "mtree_words d cr (NodeDirectory i) =
     [mtreeFilename (ni_name i), ''type=dir'', mtree_mode i] @ mtree_owner i @ [mtree_time (CHR '' '') i]"
| "mtree_words d cr (NodeFile i sz s) =
     [mtreeFilename (ni_name i), ''type=file'', mtree_mode i] @ mtree_owner i @
       [''size='' @ dec_string (unat sz), mtree_time (CHR ''0'') i, digest_word d @ hex_encode (Digest_Sum cr (s_data s))]"
| "mtree_words d cr (NodeSymlink i t) =
     [mtreeFilename (ni_name i), ''type=link'', mtree_mode i, ''target='' @ mtreeFilename t] @ mtree_owner i @ [mtree_time (CHR '' '') i]"
| "mtree_words d cr (NodeDevice i mj mi) =
     [mtreeFilename (ni_name i), if ni_mode i AND modeChar \<noteq> 0 then ''type=char'' else ''type=block'', mtree_mode i] @ mtree_owner i @
       [mtree_time (CHR '' '') i]"

definition mtree_line :: "hash_algorithm \<Rightarrow> codec_fns \<Rightarrow> archive_node \<Rightarrow> string" where
  "mtree_line d cr n = join_words (mtree_words d cr n) @ [CHR 0x0A]"

type_synonym 'f text_writer = "'f \<Rightarrow> string \<Rightarrow> go_error option \<times> 'f"

definition NewMtreeFS :: "'f text_writer \<Rightarrow> 'f \<Rightarrow> go_error option \<times> 'f" where
  "NewMtreeFS wr f = wr f (''#mtree v1.0'' @ [CHR 0x0A])"

text \<open>Only the contents of a file are read, all of them; an error there keeps the line from being written.\<close>

definition MtreeFS :: "'f text_writer \<Rightarrow> hash_algorithm \<Rightarrow> codec_fns \<Rightarrow> 'f FilesystemWriter" where
  "MtreeFS wr d cr =
     \<lparr>CreateDir = (\<lambda>f n. (Ok (), snd (wr f (mtree_line d cr n)))),
      CreateFile = (\<lambda>f n. case n of
         NodeFile i sz s \<Rightarrow>
           if s_end s = EOF then (Ok (), length (s_data s), snd (wr f (mtree_line d cr n)))
           else (Err (s_end s), length (s_data s), f)
       | _ \<Rightarrow> (Panic ''not a file'', 0, f)),
      CreateSymlink = (\<lambda>f n. (Ok (), snd (wr f (mtree_line d cr n)))),
      CreateDevice = (\<lambda>f n. (Ok (), snd (wr f (mtree_line d cr n))))\<rparr>"

section \<open>Names\<close>

text \<open>What a reader of the format makes of an escaped name.\<close>

definition octal_value :: "char \<Rightarrow> nat" where
  "octal_value c = of_char c - 48"

fun mtree_unescape :: "string \<Rightarrow> string" where
  "mtree_unescape [] = []"
| "mtree_unescape (x # s) =
     (if x = CHR 0x5C then
        (case s of a # b # c # s' \<Rightarrow> char_of (64 * octal_value a + 8 * octal_value b + octal_value c) # mtree_unescape s' | _ \<Rightarrow> x # s)
      else x # mtree_unescape s)"

lemma of_char_less: "(of_char c :: nat) < 256"
  using of_char_mod_256[of c, where 'a = nat] mod_less_divisor[of 256 "of_char c :: nat"] by simp

lemma of_digit_char: "n < 10 \<Longrightarrow> of_char (digit_char n) = 48 + n"
  by (simp add: digit_char_def)

lemma octal_digit: "n < 8 \<Longrightarrow> octal_value (digit_char n) = n"
  by (simp add: octal_value_def of_digit_char)

lemma octal3: "n < 512 \<Longrightarrow> pad_left 3 (CHR ''0'') (oct_string n) = [digit_char (n div 64), digit_char (n div 8 mod 8), digit_char (n mod 8)]"
proof -
  assume n: "n < 512"
  have z: "CHR ''0'' = digit_char 0" by code_simp
  have d: "n div 8 div 8 = n div 64" by (simp add: div_mult2_eq[symmetric])
  consider "n < 8" | "8 \<le> n" "n < 64" | "64 \<le> n" by linarith
  then show ?thesis
  proof cases
    case 1
    then show ?thesis by (subst oct_string.simps) (simp add: pad_left_def z numeral_2_eq_2)
  next
    case 2
    then have "n div 8 < 8" "n div 64 = 0" "n div 8 mod 8 = n div 8" by auto
    then show ?thesis using 2 by (subst oct_string.simps, subst oct_string.simps) (simp add: pad_left_def z)
  next
    case 3
    then have "\<not> n div 8 < 8" "n div 64 < 8" using n by auto
    then show ?thesis using 3 d by (subst oct_string.simps, subst oct_string.simps, subst oct_string.simps) (simp add: pad_left_def)
  qed
qed

lemma octal_sum: "64 * (n div 64) + 8 * (n div 8 mod 8) + n mod 8 = (n :: nat)"
proof -
  have "n div 64 = n div 8 div 8" by (simp add: div_mult2_eq[symmetric])
  then have "64 * (n div 64) + 8 * (n div 8 mod 8) = 8 * (n div 8)" using div_mult_mod_eq[of "n div 8" 8] by linarith
  then show ?thesis using div_mult_mod_eq[of n 8] by linarith
qed

lemma octal_char:
  "pad_left 3 (CHR ''0'') (oct_string (of_char c)) = [digit_char (of_char c div 64), digit_char (of_char c div 8 mod 8), digit_char (of_char c mod 8)]"
  "of_char c div 64 < (8 :: nat)"
  by (rule octal3, rule less_trans[OF of_char_less], simp) (rule less_mult_imp_div_less, rule less_trans[OF of_char_less], simp)

lemma unescape_char: "mtree_unescape (mtree_char c @ s) = c # mtree_unescape s"
proof (cases "c = CHR 0x5C \<or> c = CHR 0x23 \<or> of_char c < (32 :: nat) \<or> of_char c > (126 :: nat)")
  case True
  have "64 * octal_value (digit_char (of_char c div 64)) + 8 * octal_value (digit_char (of_char c div 8 mod 8)) + octal_value (digit_char (of_char c mod 8)) = of_char c"
    using octal_char(2)[of c] octal_sum[of "of_char c"] by (simp add: octal_digit)
  then show ?thesis using True by (simp add: mtree_char_def octal_char(1))
qed (auto simp: mtree_char_def)

lemma digit_char_range: "n < 10 \<Longrightarrow> 48 \<le> (of_char (digit_char n) :: nat) \<and> (of_char (digit_char n) :: nat) < 58"
  by (simp add: of_digit_char)

definition printable :: "char \<Rightarrow> bool" where
  "printable c \<longleftrightarrow> 32 \<le> (of_char c :: nat) \<and> (of_char c :: nat) < 127"

lemma digit_char_printable: "n < 10 \<Longrightarrow> printable (digit_char n)"
  using digit_char_range[of n] by (simp add: printable_def)

lemma mtree_char_printable: "list_all printable (mtree_char c)"
proof -
  have "printable (CHR 0x5C)" by code_simp
  moreover have "of_char c div 64 < (10 :: nat)" using octal_char(2)[of c] by simp
  ultimately show ?thesis by (auto simp: mtree_char_def octal_char(1) digit_char_printable) (auto simp: printable_def)
qed

text \<open>
  Escaped names have only printable characters, and a reader that undoes the escapes gets every name back: different names have
  different lines.
\<close>

theorem mtree_names_roundtrip:
  "mtree_unescape (mtreeFilename s) = s \<and> list_all printable (mtreeFilename s)"
  by (induction s) (simp_all add: mtreeFilename_def unescape_char mtree_char_printable)

section \<open>Lines\<close>

definition append_text :: "string text_writer" where
  "append_text f s = (None, f @ s)"

definition one_line :: "string \<Rightarrow> bool" where
  "one_line s \<longleftrightarrow> (\<exists>l. s = l @ [CHR 0x0A] \<and> list_all printable l)"

lemma dec_string_printable: "list_all printable (dec_string n)"
proof (induction n rule: dec_string.induct)
  case (1 n)
  then show ?case using digit_char_printable[of n] digit_char_printable[of "n mod 10"]
    by (subst dec_string.simps) auto
qed

lemma oct_string_printable: "list_all printable (oct_string n)"
proof (induction n rule: oct_string.induct)
  case (1 n)
  then show ?case using digit_char_printable[of n] digit_char_printable[of "n mod 8"]
    by (subst oct_string.simps) auto
qed

lemma printable_text: "list_all printable ''abcdefghijklmnopqrstuvwxyz0123456789-. =''"
  by code_simp

lemmas printable_chars [simp] = printable_text[simplified]

lemma fmt_d_printable: "list_all printable (fmt_d i)"
  using dec_string_printable by (simp add: fmt_d_def)

lemma pad_left_printable: "printable c \<Longrightarrow> list_all printable s \<Longrightarrow> list_all printable (pad_left k c s)"
  by (auto simp: pad_left_def list_all_iff)

lemma hex_printable: "list_all printable (hex_encode bs)"
proof -
  have "printable (hex_digit n)" if "n < 16" for n
  proof -
    have "list_all (\<lambda>n. printable (hex_digit n)) [0..<16]" by code_simp
    then show ?thesis using that by (simp add: list_all_iff)
  qed
  moreover have "unat b div 16 < 16" "unat b mod 16 < 16" for b :: byte
    using unsigned_less[of b, where 'a = nat] less_mult_imp_div_less[of "unat b" 16 16] by simp_all
  ultimately show ?thesis by (induction bs) auto
qed

lemma name_printable: "list_all printable (mtreeFilename s)"
  by (induction s) (simp_all add: mtreeFilename_def mtree_char_printable)

lemmas words_printable = name_printable dec_string_printable oct_string_printable fmt_d_printable pad_left_printable hex_printable

lemma mtree_words_printable: "list_all (list_all printable) (mtree_words d cr n)"
  by (cases n) (simp_all add: mtree_mode_def mtree_time_def mtree_owner_def digest_word_def words_printable split: hash_algorithm.splits)

lemma join_words_printable: "list_all (list_all printable) ws \<Longrightarrow> list_all printable (join_words ws)"
  by (induction ws rule: join_words.induct) auto

lemma mtree_line_one: "one_line (mtree_line d cr n)"
  unfolding one_line_def mtree_line_def using join_words_printable[OF mtree_words_printable] by blast

definition readable :: "archive_node \<Rightarrow> bool" where
  "readable n = (case n of NodeFile i sz s \<Rightarrow> s_end s = EOF | _ \<Rightarrow> True)"

lemma create_nodes_mtree:
  "list_all readable ns \<Longrightarrow> create_nodes (MtreeFS append_text d cr) ns r f = (r, f @ concat (map (mtree_line d cr) ns))"
  by (induction ns arbitrary: f) (auto simp: create_node_def MtreeFS_def append_text_def readable_def split: archive_node.splits)

lemma tree_nodes_readable: "wf_tree t \<Longrightarrow> list_all readable (tree_nodes ps t)"
proof (induction ps t rule: tree_nodes.induct)
  case (1 ps f cs)
  have "readable (node_of ps f)" using 1(2) by (auto simp: readable_def node_of_def Let_def wf_file_def)
  then show ?case using 1 by (auto simp: list_all_iff)
qed

text \<open>
  (C40) Printing the archive of a tree: \<open>UnTar\<close> of what \<open>Tar\<close> wrote prints the nodes of the tree, in order, one line of printable characters
  each, whatever bytes the names have.
\<close>

theorem mtree_prints_tree:
  assumes "wf_tree t" "distinct (dir_paths t)" "IsDir (node_file t)" "3 * length (files_of t) < fuel"
  shows "\<exists>w. Tar sink_write list_next hash fuel [] empty_sink (files_of t) = Some (Ok (None, w)) \<and>
    UnTar (MtreeFS append_text d cr) [] (stream_of (sk_out w)) f = (Ok (), f @ concat (map (mtree_line d cr) (tree_nodes [] t))) \<and>
    list_all (\<lambda>n. one_line (mtree_line d cr n)) (tree_nodes [] t)"
  using Tar_elements[OF assms(1,2,4), of hash] UnTar_elements[OF tree_wf(1)[OF assms(1)], of "MtreeFS append_text d cr" hash f]
    tree_list_nodes[OF assms(1,3), of hash] create_nodes_mtree[OF tree_nodes_readable[OF assms(1)]] mtree_line_one[of d cr]
  by (auto simp: list_all_iff)

section \<open>Devices\<close>

lemma go_mode_modeChar: "go_mode_ok m \<Longrightarrow> m AND modeChar = 0"
proof -
  assume "go_mode_ok m"
  then have "m AND modeChar = m AND ((ModePerm OR ModeType OR ModeSetuid OR ModeSetgid OR ModeSticky) AND modeChar)"
    by (simp add: go_mode_ok_def flip: and.assoc)
  also have "(ModePerm OR ModeType OR ModeSetuid OR ModeSetgid OR ModeSticky) AND modeChar = 0" by (simp add: mode_bits modeChar_def)
  finally show ?thesis by simp
qed

text \<open>
  Every device of an archive of a tree is printed as a block device, character devices too: the bit that is tested is none of the bits of
  a mode.
\<close>

theorem mtree_devices_block:
  assumes "wf_tree t" "NodeDevice i mj mi \<in> set (tree_nodes ps t)"
  shows "mtree_words d cr (NodeDevice i mj mi) ! 1 = ''type=block''"
proof -
  have "ni_mode i AND modeChar = 0"
    using assms
  proof (induction ps t rule: tree_nodes.induct)
    case (1 ps f cs)
    show ?case
    proof (cases "NodeDevice i mj mi = node_of ps f")
      case True
      then have "ni_mode i = f_mode f" by (auto simp: node_of_def Let_def split: if_splits)
      moreover have "go_mode_ok (f_mode f)" using 1(2) by (simp add: wf_file_def)
      ultimately show ?thesis using go_mode_modeChar by simp
    next
      case False
      then show ?thesis using 1 by (auto split: if_splits)
    qed
  qed
  then show ?thesis by simp
qed

lemma dec_string_length: "n < 10 ^ k \<Longrightarrow> 0 < k \<Longrightarrow> length (dec_string n) \<le> k"
proof (induction k arbitrary: n)
  case (Suc k)
  show ?case
  proof (cases "n < 10")
    case False
    then have "0 < k" using Suc.prems by (cases k) auto
    moreover have "n div 10 < 10 ^ k" using Suc.prems by (simp add: less_mult_imp_div_less mult.commute)
    ultimately show ?thesis using Suc.IH[of "n div 10"] False by (subst dec_string.simps) simp
  qed (subst dec_string.simps, simp)
qed simp

text \<open>The time of a directory, link or device has a space in it when its nanoseconds have fewer than nine digits; that of a file never.\<close>

lemma mtree_time_space:
  assumes "ni_mtime i mod 1000000000 < 100000000"
  shows "CHR '' '' \<in> set (mtree_time (CHR '' '') i)"
proof -
  have "nat (ni_mtime i mod 1000000000) < 10 ^ 8" using assms by simp
  then have "length (dec_string (nat (ni_mtime i mod 1000000000))) \<le> 8" by (rule dec_string_length) simp
  moreover have "\<not> ni_mtime i mod 1000000000 < 0" using pos_mod_sign[of 1000000000 "ni_mtime i"] by linarith
  ultimately have "length (fmt_d (ni_mtime i mod 1000000000)) < 9" by (simp add: fmt_d_def)
  then show ?thesis by (simp add: mtree_time_def pad_left_def)
qed

section \<open>Instances\<close>

definition device_tree :: ftree where
  "device_tree = FNode (sample_file ''.'' 0x800001ed []) [FNode (sample_file ''c'' 0x042001a4 []) []]"

lemma device_tree_ok: "wf_tree device_tree" "distinct (dir_paths device_tree)" "IsDir (node_file device_tree)" "length (files_of device_tree) = 2"
proof -
  have m: "go_mode_ok 0x800001ed" "go_mode_ok 0x042001a4" by code_simp+
  have b: "path_Base ''c'' = ''c''" "path_Dir ''c'' = ''.''" by code_simp+
  show d: "IsDir (node_file device_tree)" by code_simp
  have f: "wf_file (sample_file nm m b)" if "go_mode_ok m" "length b < 2 ^ 63" for nm m b
    using that by (simp add: wf_file_def sample_file_def stream_of_def max_alloc_def)
  show "wf_tree device_tree"
    using d f m b by (simp add: device_tree_def plain_part_def) (simp add: sample_file_def max_alloc_def)
  show "distinct (dir_paths device_tree)" "length (files_of device_tree) = 2" by code_simp+
qed

theorem mtree_prints_tree_witness:
  "\<exists>w. Tar sink_write list_next (\<lambda>_ _ b. ulen b) 13 [] empty_sink (files_of sample_tree) = Some (Ok (None, w)) \<and>
    UnTar (MtreeFS append_text SHA256 toy_codec) [] (stream_of (sk_out w)) [] = (Ok (), concat (map (mtree_line SHA256 toy_codec) (tree_nodes [] sample_tree)))"
  using mtree_prints_tree[OF sample_tree_ok(1-3), of 13 "\<lambda>_ _ b. ulen b" SHA256 toy_codec "[]"] sample_tree_ok(4) by auto

theorem mtree_devices_block_witness:
  "\<exists>i mj mi. NodeDevice i mj mi \<in> set (tree_nodes [] device_tree) \<and> ni_mode i AND ModeCharDevice \<noteq> 0 \<and>
     mtree_words SHA256 toy_codec (NodeDevice i mj mi) ! 1 = ''type=block''"
proof -
  have "case tree_nodes [] device_tree ! 1 of NodeDevice i mj mi \<Rightarrow> ni_mode i AND ModeCharDevice \<noteq> 0 | _ \<Rightarrow> False"
    "1 < length (tree_nodes [] device_tree)" by code_simp+
  then obtain i mj mi where n: "NodeDevice i mj mi \<in> set (tree_nodes [] device_tree)" "ni_mode i AND ModeCharDevice \<noteq> 0"
    by (cases "tree_nodes [] device_tree ! 1") (auto, metis nth_mem)
  then show ?thesis using mtree_devices_block[OF device_tree_ok(1) n(1)] by blast
qed

lemma mtree_sample_lines:
  "map (mtree_line SHA256 toy_codec) (tree_nodes [] device_tree) =
     [''. type=dir mode=0755 uid=1000 gid=100 time=0.        7'' @ [CHR 0x0A], ''c type=block mode=0644 uid=1000 gid=100 time=0.        7'' @ [CHR 0x0A]]"
  by code_simp

end
