(* ===== verification/Spec2Isabelle.thy ===== *)
theory Spec2Isabelle
  imports Goodbye Index Chunker_Props Stores_Props Protocol_Props Assemble_Props Make_Props ReadSeeker_Props Tar_Props Dedup_Props Sparse_Props Pipeline_Props HTTP_Props Buckets_Props Verify Locations_Props Mtree
begin

text \<open>
  Verification of desync, a Go implementation of the casync content-addressed storage: large files and
  directory trees are cut into chunks, the chunks are kept in stores under the digests of their data, and
  an index or an archive says how to put them together again.

  \<^bold>\<open>The program and its model.\<close> Every group of theories models some files under \<^verbatim>\<open>src/\<close>; the
  definitions keep the names of the Go functions and types, with the receiver as a prefix where names would clash.

  \<^item> \<open>Prelude\<close>, \<open>Chunk_ID\<close>, \<open>Byte_IO\<close>, \<open>Consts\<close>, \<open>Filemode\<close>: the result type of calls (a value, an
    error, or a panic; \<^verbatim>\<open>errors.go\<close>), identifiers (\<^verbatim>\<open>types.go\<close>), reading and writing of integers over an
    \<open>io.Reader\<close> or \<open>io.Writer\<close> (\<^verbatim>\<open>reader.go\<close>, \<^verbatim>\<open>writer.go\<close>), the numbers of the formats (\<^verbatim>\<open>const.go\<close>) and
    the two encodings of file modes (\<^verbatim>\<open>filesystem.go\<close>).
  \<^item> \<open>Format\<close>, \<open>Format_Wire\<close>, \<open>Format_Props\<close>, \<open>Goodbye\<close>: the elements of archives and indexes
    (\<^verbatim>\<open>format.go\<close>), their decoder as a state machine over a stream and their encoder, and the search tree of
    goodbye items.
  \<^item> \<open>Index\<close>: index files (\<^verbatim>\<open>index.go\<close>).
  \<^item> \<open>Float64\<close>, \<open>Divisibility\<close>, \<open>Chunker\<close>, \<open>Chunker_Props\<close>: the content-defined chunker (\<^verbatim>\<open>chunker.go\<close>)
    with its buffer, its rolling hash and its division-free boundary test, whose constants are computed
    with floating-point arithmetic.
  \<^item> \<open>Make\<close> and the theories whose names begin so: chunking a file with several workers that synchronise
    with their neighbours (\<^verbatim>\<open>make.go\<close>), as a step relation over the operations on the channels.
  \<^item> \<open>Chunk\<close>, \<open>LocalStore\<close>, \<open>LocalStore_Props\<close>: chunks, converters and options (\<^verbatim>\<open>chunk.go\<close>,
    \<^verbatim>\<open>coverter.go\<close>, \<^verbatim>\<open>store.go\<close>) and stores in a directory (\<^verbatim>\<open>local.go\<close>) over a model of the file system in
    which reading, writing, \<open>os.Stat\<close>, \<open>os.Remove\<close> and the walk over a directory can fail.
  \<^item> \<open>Stores\<close>, \<open>Stores_Props\<close>: stores made of stores (\<^verbatim>\<open>cache.go\<close>, \<^verbatim>\<open>storerouter.go\<close>, \<^verbatim>\<open>failover.go\<close>,
    \<^verbatim>\<open>swapstore.go\<close>), deduplicated storing (\<^verbatim>\<open>chunkstorage.go\<close>) and copying between stores (\<^verbatim>\<open>copy.go\<close>), whose context may be cancelled.
  \<^item> \<open>Dedup\<close>, \<open>Dedup_Props\<close>: the queues that merge concurrent requests (\<^verbatim>\<open>dedupqueue.go\<close>,
    \<^verbatim>\<open>writededupqueue.go\<close>), as a step relation of any number of callers.
  \<^item> \<open>Protocol\<close>, \<open>Protocol_Props\<close>: the casync protocol, its server and the pool of its clients
    (\<^verbatim>\<open>protocol.go\<close>, \<^verbatim>\<open>protocolserver.go\<close>, \<^verbatim>\<open>remotessh.go\<close>).
  \<^item> \<open>Seeds\<close>, \<open>Assemble\<close>, \<open>Assemble_Props\<close>: assembling a file from an index, a store and seeds
    (\<^verbatim>\<open>fileseed.go\<close>, \<^verbatim>\<open>nullseed.go\<close>, \<^verbatim>\<open>selfseed.go\<close>, \<^verbatim>\<open>sequencer.go\<close>, \<^verbatim>\<open>assemble.go\<close>, \<^verbatim>\<open>extractstats.go\<close>); the
    jobs of the workers are steps in any order.
  \<^item> \<open>ReadSeeker\<close>, \<open>ReadSeeker_Props\<close>: reading the blob of an index at any position (\<^verbatim>\<open>readseeker.go\<close>).
  \<^item> \<open>Sparse\<close>, \<open>Sparse_Props\<close>: the file that is filled while it is read (\<^verbatim>\<open>sparse-file.go\<close>), with any number of
    reads and the preloading of chunks as steps in any order.
  \<^item> \<open>Path\<close>, \<open>Archive\<close>, \<open>Archive_Nodes\<close>, \<open>Tar\<close>, \<open>Tar_Trees\<close>, \<open>Tar_Write\<close>, \<open>Tar_Props\<close>: writing and
    extracting archives (\<^verbatim>\<open>tar.go\<close>, \<^verbatim>\<open>archive.go\<close>, \<^verbatim>\<open>untar.go\<close>, \<^verbatim>\<open>sip.go\<close>, the types of \<^verbatim>\<open>filesystem.go\<close>).
  \<^item> \<open>Pipeline\<close>, \<open>Pipeline_Props\<close>: filling a store with several workers, from a stream (\<open>ChunkStream\<close> of
    \<^verbatim>\<open>index.go\<close>) and from a file with an index (\<^verbatim>\<open>chop.go\<close>), as step relations over the shared storage.
  \<^item> \<open>HTTP\<close>, \<open>HTTP_Props\<close>: chunks and indexes over HTTP, the client with its retries (\<^verbatim>\<open>remotehttp.go\<close>,
    \<^verbatim>\<open>remotehttpindex.go\<close>), the handlers of the servers (\<^verbatim>\<open>httphandlerbase.go\<close>, \<^verbatim>\<open>httphandler.go\<close>, \<^verbatim>\<open>httpindexhandler.go\<close>)
    and index files in a directory (\<^verbatim>\<open>localindex.go\<close>); a network that loses requests and responses connects them.
  \<^item> \<open>Buckets\<close>, \<open>Buckets_Props\<close>: stores and index stores on S3 (\<^verbatim>\<open>s3.go\<close>, \<^verbatim>\<open>s3index.go\<close>), Google Storage
    (\<^verbatim>\<open>gcs.go\<close>, \<^verbatim>\<open>gcsindex.go\<close>) and SFTP (\<^verbatim>\<open>sftp.go\<close>, \<^verbatim>\<open>sftpindex.go\<close>) over the calls of their client libraries.
  \<^item> \<open>Verify\<close>: comparing a file with an index with several workers (\<^verbatim>\<open>verifyindex.go\<close>), as a step relation.
  \<^item> \<open>Locations\<close>, \<open>Locations_Props\<close>: which stores, with which options, the command line and the configuration name
    (\<^verbatim>\<open>cmd/desync/store.go\<close>, \<^verbatim>\<open>options.go\<close>, \<^verbatim>\<open>location.go\<close>, a part of \<^verbatim>\<open>config.go\<close>).
  \<^item> \<open>Mtree\<close>: archives printed as an mtree listing (\<^verbatim>\<open>mtreefs.go\<close>).
  \<^item> This theory: the composition of chunking, storing and assembling.

  \<^bold>\<open>How code becomes definitions.\<close> A method that changes its receiver returns the changed record. Panics
  are values, so that a theorem that gives the result of a call also says that it does not panic. Integers
  with a width in the source are words, or integers reduced explicitly. What the program calls outside
  of its own code is a parameter: the digest, zstd and SipHash, the network, the clone system call, the
  file systems that archives are written to and read from. What a theorem needs of a parameter is a
  named hypothesis (such as \<open>codec_ok\<close>: decompressing undoes compressing and digests have 32 bytes) or a
  locale, with a concrete instance in the witness of the theorem. Goroutines are steps of a relation, and
  theorems hold of all runs.

  \<^bold>\<open>Interfaces.\<close> The locales \<open>byte_writer\<close> and \<open>reliable_writer\<close> say what the encoder needs of a writer and
  are interpreted for plain and buffered writers; \<open>strict_weak_order\<close> is what sorting needs of a
  comparison. A \<open>verified_store\<close> hands out only chunks with the identifier asked for; \<open>write_store\<close>,
  \<open>cache_dir\<close> and \<open>cached_store\<close> extend this to writing and caching. All are interpreted for the directory
  store, \<open>verified_store\<close> also for a session of the protocol. The lemmas about combinations of stores,
  about assembling, about reading an index and about the queues rest on these contracts alone.
  \<open>http_service\<close> extends \<open>write_store\<close> by the names that a client and a handler agree on, and gives the same
  contract again for the client.
  \<open>dedup_upstream\<close> is the contract of the store behind a queue and holds of every store.

  \<^bold>\<open>What is shown.\<close> Encoding and decoding are inverse for elements, streams, indexes, modes, protocol
  messages and whole archives, and cut input is an error or, where the code accepts it, exactly a prefix.
  The chunker refines a specification that cuts a list of bytes, and its chunks partition the input
  within the configured bounds; the parallel chunker computes a prefix of the same chunks in every
  run, and all of them when the file has no long area of null bytes. Stores
  keep what is stored, atomically, and no combination of stores hands out data with a wrong digest.
  Unless the context is cancelled or blocks are cloned, an assembled file has exactly the chunks of the index
  whatever the seeds hold, and a stream that is not empty and was
  cut, stored and assembled comes back unchanged. Sparse files return the bytes of the blob in every
  interleaving of their readers, also after a restart with a saved state, as long as no chunk fails to load; the
  second read of a chunk that did returns null bytes. A store
  behind an HTTP handler keeps its contract for the clients, whatever the network loses. Chunks in
  buckets and on SFTP servers are read back, appear whole or not at all, and are removed only when they are
  not listed. Verifying a file returns, and succeeds exactly when the file has the size and the chunks of the
  index, as assembled files do. The
  reader of an index behaves like a file with the bytes of the blob. Concurrent requests
  reach the store once, are answered genuinely, and all callers return.
  Where the code does something else than it means to, a theorem shows that too: chunks
  larger than the maximum, an index that lacks the end of a file, a session that ends at a missing
  chunk, archives that are accepted although they are cut or climb out of their directory.

  \<^bold>\<open>Bounds.\<close> Loops that end are functions with a termination proof. The loop of \<open>IndexPos.Read\<close> has a number of
  rounds, one more than the bytes that are asked for, and the theorems show that this is enough. \<open>tar\<close> has a depth of
  recursion, which must be larger than three times the number of files. The search for a plan in \<open>AssembleFile\<close> is a partial
  function, which may not return while seeds are regenerated; it is shown to return when invalid seeds
  are skipped or make the operation fail.

  \<^bold>\<open>Not modelled.\<close> The commands of \<^verbatim>\<open>cmd/desync\<close>, which parse flags, print and call the operations above, with the reading of
  JSON configurations and credentials; \<open>UnTarIndex\<close> of \<^verbatim>\<open>untar.go\<close>, which feeds \<open>UnTar\<close> from a store; the file systems
  that archives come from and go to (\<^verbatim>\<open>localfs*.go\<close>, \<^verbatim>\<open>tarfs.go\<close>) and the mounts, which are glue to the operating system,
  to the tar package and to FUSE; the index store on the console; progress bars and logging.
  Some paths are simplified where nothing that is stated depends on them. A temporary file is empty or whole, although a real one
  passes through partial contents under its temporary name. A request reaches a server whole or not at all, and is
  always well formed. \<open>Verify\<close> of a directory store handles the chunks one after the other, because its workers share nothing but
  the walk. \<open>makeGoodbyeBST\<close> computes the logarithm of a number of items on natural numbers instead of \<open>float64\<close>.
  An operation whose context may be cancelled gets a flag, and with it may find the context done at any point.

\<close>

definition three_call :: "local_state asm_call" where
  "three_call = \<lparr>ac_codec = toy_codec, ac_get = local_get toy_codec (local_store ''/s'' False), ac_clone = (\<lambda>_ _ _ _ _. Err (ErrIO ''not supported'')),
     ac_canClone = (\<lambda>_. False), ac_name = ''out'', ac_blocksize = 4096, ac_action = Skip,
     ac_setup = \<lparr>su_create = None, su_truncate = None, su_open = None\<rparr>, ac_tempFile = Ok (),
     ac_opener = (\<lambda>_ _. Err ErrNotExist), ac_regenerate = (\<lambda>_ _. Err ErrNotExist), ac_faults = [], ac_cancelled = False\<rparr>"

definition three_null :: seed where
  "three_null = NullSeed \<lparr>ns_id = replicate 32 0, ns_canReflink = False\<rparr>"

lemma contiguous_index_chunks:
  "(\<And>b. b \<in> set bs \<Longrightarrow> ulen b \<le> mx) \<Longrightarrow> contiguous mx s (index_chunks cr (with_starts s bs))"
  by (induction bs arbitrary: s) (simp_all add: index_chunks_def)

lemma index_chunks_total:
  assumes "length (concat bs) < 2 ^ 64"
  shows "total_size (index_chunks cr (with_starts s bs)) = length (concat bs)"
  using assms by (induction bs arbitrary: s) (auto simp: index_chunks_def total_size_def intro!: unat_ulen)

lemma index_chunks_ids: "map ic_id (index_chunks cr (with_starts s bs)) = map (Digest_Sum cr) bs"
  by (induction bs arbitrary: s) (simp_all add: index_chunks_def)

lemma index_chunks_sizes:
  "length (concat bs) < 2 ^ 64 \<Longrightarrow> map (\<lambda>c. unat (ic_size c)) (index_chunks cr (with_starts s bs)) = map length bs"
  by (induction bs arbitrary: s) (auto simp: index_chunks_def intro!: unat_ulen)

text \<open>
  (C1) From a stream to a store and back to a file: when \<open>ChunkStream\<close> has cut a stream into a directory store and
  \<open>AssembleFile\<close> has put a file, not a device, together from the index it returned and that store, both without
  an error and on top of whatever the target held, the file has the bytes of the stream. The conditions: the stream is
  not empty (\<open>AssembleFile\<close> panics for an empty index), the minimum chunk size is below the maximum, the
  context of neither call is cancelled (both then return no error and incomplete output), no blocks are cloned,
  neither from the target nor from the seeds, whose contents do not matter, and the digest distinguishes each chunk
  from all other data of its length and is not all zero, which stands for no digest.
\<close>

theorem stream_assemble_roundtrip:
  assumes "NewChunker conv r mn avg mx = Ok c" "mn < mx" "10 * unat mx \<le> max_alloc" "rd_end r = EOF" "rd_data r \<noteq> []" "length (rd_data r) < 2 ^ 63"
    and "ChunkStream cr (local_has s) (local_put cr s) False c ws n (Ok idx) ws'" "s = local_store base unc" "local_inv ws" "codec_ok cr"
    and "\<forall>b \<in> set (chunk_list (is_boundary c) (unat mn) (unat mx) (rd_data r)).
        Digest_Sum cr b \<noteq> zero_id \<and> (\<forall>b'. length b' = length b \<longrightarrow> Digest_Sum cr b' = Digest_Sum cr b \<longrightarrow> b' = b)"
    and "AssembleFile a t idx ws' seeds (Ok ()) (Some f)" "\<forall>d. t \<noteq> Device d" "ac_codec a = cr" "ac_get a = local_get cr s"
    and "\<forall>x. \<not> ac_canClone a x" "\<forall>sd \<in> set seeds. seed_plain sd" "\<not> ac_cancelled a"
  shows "f = rd_data r"
proof -
  let ?l = "chunk_list (is_boundary c) (unat mn) (unat mx) (rd_data r)"
  have lt: "unat mn < unat mx" using assms(2) by (simp add: word_less_nat_alt)
  have cat: "concat ?l = rd_data r" using chunk_list_concat[OF lt] .
  have idx: "idx_chunks idx = index_chunks cr (with_starts 0 ?l)"
    using local_dir.ChunkStream_ok[OF assms(7) NewChunker_all_chunks[OF assms(1-4)] assms(9) sum_len[OF assms(10)]] by blast
  have len: "length (concat ?l) < 2 ^ 64" using assms(6) cat by simp
  have size: "ulen b \<le> mx" if "b \<in> set ?l" for b
    using chunk_list_sizes(1)[OF lt that] unat_ulen[of b] unat_u64_less[of mx] by (simp add: word_le_nat_alt)
  have "\<forall>x \<in> set (idx_chunks idx). ic_id x \<noteq> zero_id"
    using assms(11) arg_cong[OF index_chunks_ids[of cr 0 ?l], of set] idx by (metis (no_types, lifting) image_iff list.set_map)
  moreover have "idx_chunks idx \<noteq> []" using idx cat assms(5) by (cases ?l) (auto simp: index_chunks_def)
  moreover have "verified_store (ac_codec a) (ac_get a)" using local_dir.verified_store_axioms assms(8,14,15) by simp
  ultimately obtain bs where bs: "f = concat bs" "map (Digest_Sum cr) bs = map (Digest_Sum cr) ?l" "map length bs = map length ?l"
    using AssembleFile_chunks[OF assms(12,13) _ assms(16,17), of mx] contiguous_index_chunks[OF size] index_chunks_total[OF len] cat assms(6,14,18)
      index_chunks_ids index_chunks_sizes[OF len] unfolding idx by metis
  have "bs = ?l"
  proof (rule nth_equalityI)
    show n: "length bs = length ?l" using arg_cong[OF bs(3), of length] by simp
    fix i assume i: "i < length bs"
    have "?l ! i \<in> set ?l" using i n by simp
    moreover have "length (bs ! i) = length (?l ! i)" "Digest_Sum cr (bs ! i) = Digest_Sum cr (?l ! i)"
      using arg_cong[OF bs(3), of "\<lambda>x. x ! i"] arg_cong[OF bs(2), of "\<lambda>x. x ! i"] i n by simp_all
    ultimately show "bs ! i = ?l ! i" using assms(11) by blast
  qed
  then show ?thesis using bs(1) cat by simp
qed

lemma three_null_seed: "newNullChunkSeed toy_codec (Ok ()) False 4096 200 = Ok \<lparr>ns_id = replicate 32 0, ns_canReflink = False\<rparr>"
proof -
  have "pad_sum (replicate 200 0) = replicate 32 0" by code_simp
  then show ?thesis by (simp add: newNullChunkSeed_def NewNullChunk_def make_bytes_def max_alloc_def toy_codec_def)
qed

lemma three_assembled:
  assumes "idx_chunks idx = [\<lparr>ic_id = pad_sum [1, 2, 3], ic_start = 0, ic_size = 3\<rparr>]" "ChunkSizeMax (idx_index idx) = 200"
  shows "AssembleFile three_call NotExist idx (cs_ws (pl_storage stored_pool)) [] (Ok ()) (Some [1, 2, 3])"
proof -
  let ?job = "\<lparr>cd_seed = None, cd_source = None, cd_segment = \<lparr>seg_index = idx, seg_first = 0, seg_last = 0\<rparr>\<rparr>"
  let ?ws = "cs_ws (pl_storage stored_pool)"
  let ?st = "\<lparr>as_file = \<lparr>tf_data = [0, 0, 0], tf_faults = []\<rparr>, as_self = newSelfSeed False ''out'' idx, as_store = ?ws,
     as_stats = initial_stats idx (Suc 0) 4096\<rparr>"
  have len: "Index_Length idx = 3" using assms(1) by (simp add: Index_Length_def)
  have id: "pad_sum [1, 2, 3] \<noteq> replicate 32 0" by code_simp
  have "SeedSequencer_Next (NewSeedSequencer idx [three_null]) = (?job, True, \<lparr>sq_seeds = [three_null], sq_index = idx, sq_current = 1\<rparr>)"
    using assms(1) id by (simp add: SeedSequencer_Next_def NewSeedSequencer_def three_null_def null_LongestMatchWith_def)
  then have plan: "SeedSequencer_Plan (NewSeedSequencer idx [three_null]) = ([?job], \<lparr>sq_seeds = [three_null], sq_index = idx, sq_current = 1\<rparr>)"
    by (simp add: Plan_done)
  have "replicate 3 0 = [0, 0, 0 :: byte]" by (simp add: numeral_3_eq_3)
  then have start: "assemble_start three_call NotExist idx ?ws [] = Some (Ok ([?job], True, ?st))"
    by (simp add: assemble_start_def prepare_target_def truncate_target_def truncate_to_def len assms(2) three_null_seed
      three_call_def Let_def plan plan_loop_valid Plan_Validate_def isFileSeed_def flip: three_null_def)
  have "case LocalStore_GetChunk toy_codec (local_store ''/s'' False) (fst ?ws) (pad_sum [1, 2, 3]) of
      Ok ch \<Rightarrow> fst (Chunk_Data toy_codec ch) = Ok [1, 2, 3] | _ \<Rightarrow> False" by code_simp
  then obtain ch where ch: "local_get toy_codec (local_store ''/s'' False) ?ws (pad_sum [1, 2, 3]) = (Ok ch, ?ws)" "fst (Chunk_Data toy_codec ch) = Ok [1, 2, 3]"
    by (auto simp: local_get_def split: res.splits)
  have "\<exists>st. process_job (run_env three_call True) (\<lambda>_. Err ErrNotExist) ?st ?job = (Ok (), st) \<and> tf_data (as_file st) = [1, 2, 3]"
    using ch assms(1)
    by (simp add: process_job_def job_single_def seg_start_def seg_lengthBytes_def seg_end_def Let_def seg_chunks_def run_env_def three_call_def slice_def
        record_written_def selfSeed_add_def newSelfSeed_def advance_written.simps add_pos_def writeChunk_def chunk_in_place_def selfSeed_getChunk_def
        chunk_from_store_def file_WriteAt_def write_at_def)
  then obtain st where st: "process_job (run_env three_call True) (\<lambda>_. Err ErrNotExist) ?st ?job = (Ok (), st)" "tf_data (as_file st) = [1, 2, 3]" by blast
  have "asm_run (run_env three_call True) (mset [?job]) ?st (Ok ()) st"
    by (rule asm_run_cons[OF st(1)]) (simp add: asm_run.finished)
  then show ?thesis using AssembleFile.ran[OF start] st(2) by force
qed

lemma pad_sum_three: "length b = 3 \<Longrightarrow> pad_sum b = pad_sum [1, 2, 3] \<Longrightarrow> b = [1, 2, 3]"
  by (auto simp: pad_sum_def chunk_id_len_def numeral_3_eq_3 length_Suc_conv eval_nat_numeral)

theorem stream_assemble_roundtrip_witness:
  "\<exists>c idx. NewChunker (\<lambda>_. 0) three_source 64 100 200 = Ok c \<and>
     ChunkStream toy_codec dir_has dir_put False c ([], []) 2 (Ok idx) (cs_ws (pl_storage stored_pool)) \<and>
     AssembleFile three_call NotExist idx (cs_ws (pl_storage stored_pool)) [] (Ok ()) (Some [1, 2, 3]) \<and> [1, 2, 3] = rd_data three_source"
proof -
  obtain c where c: "NewChunker (\<lambda>_. 0) three_source 64 100 200 = Ok c"
    using NewChunker_succeeds[of 64 100 200 "\<lambda>_. 0" three_source] by (auto simp: discriminator_100)
  obtain idx where idx: "ChunkStream toy_codec dir_has dir_put False c ([], []) 2 (Ok idx) (cs_ws (pl_storage stored_pool))"
    "idx_chunks idx = [\<lparr>ic_id = pad_sum [1, 2, 3], ic_start = 0, ic_size = 3\<rparr>]" "ChunkSizeMax (idx_index idx) = 200"
    using three_run[OF c] by (metis zero_less_numeral)
  note asm = three_assembled[OF idx(2,3)]
  have src: "rd_data three_source = [1, 2, 3]" "rd_end three_source = EOF" by (simp_all add: three_source_def)
  have l: "chunk_list (is_boundary c) (unat (64 :: u64)) (unat (200 :: u64)) (rd_data three_source) = [[1, 2, 3]]"
    using three_chunks[of 64 200] by (simp add: src)
  have z: "pad_sum [1, 2, 3] \<noteq> zero_id" by code_simp
  have "[1, 2, 3] = rd_data three_source"
  proof (rule stream_assemble_roundtrip[OF c _ _ src(2) _ _ idx(1)[unfolded dir_has_def dir_put_def] refl _ toy_codec_ok _ asm])
    show "\<forall>b \<in> set (chunk_list (is_boundary c) (unat (64 :: u64)) (unat (200 :: u64)) (rd_data three_source)).
        Digest_Sum toy_codec b \<noteq> zero_id \<and> (\<forall>b'. length b' = length b \<longrightarrow> Digest_Sum toy_codec b' = Digest_Sum toy_codec b \<longrightarrow> b' = b)"
      unfolding l using z pad_sum_three by (simp add: toy_codec_def)
  qed (simp_all add: src max_alloc_def local_inv_def three_call_def)
  then show ?thesis using c idx(1) asm by blast
qed

end
